(* ===== verification/Prelude.thy ===== *)
theory Prelude
  imports Main "HOL-Library.Word"
begin

text \<open>
  Types, errno values, bit-field layouts and list helpers shared by every component.

  A C bit-field union is a layout: the list of its members in declaration order, each with
  its width in bits. The offset of a member is the sum of the widths before it, which is how
  the compiler places the bit-fields of the packed unions of
  \<^verbatim>\<open>registers.h\<close> on x86-64. \<open>getf\<close> reads a member and \<open>setf\<close> assigns it (an assignment
  keeps the low bits that fit, as in C).
\<close>

unbundle bit_operations_syntax

type_synonym u8 = "8 word"
type_synonym u16 = "16 word"
type_synonym u32 = "32 word"
type_synonym u64 = "64 word"

abbreviation (input) EPERM :: int where "EPERM \<equiv> 1"
abbreviation (input) EIO :: int where "EIO \<equiv> 5"
abbreviation (input) ENXIO :: int where "ENXIO \<equiv> 6"
abbreviation (input) EAGAIN :: int where "EAGAIN \<equiv> 11"
abbreviation (input) ENOMEM :: int where "ENOMEM \<equiv> 12"
abbreviation (input) EBUSY :: int where "EBUSY \<equiv> 16"
abbreviation (input) ENODEV :: int where "ENODEV \<equiv> 19"
abbreviation (input) EINVAL :: int where "EINVAL \<equiv> 22"
abbreviation (input) ENOSPC :: int where "ENOSPC \<equiv> 28"
abbreviation (input) EOPNOTSUPP :: int where "EOPNOTSUPP \<equiv> 95"
abbreviation (input) ENOENT :: int where "ENOENT \<equiv> 2"

text \<open>Opcodes, flags and completion codes of the hardware (\<^verbatim>\<open>linux/idxd.h\<close>).\<close>

abbreviation (input) DSA_COMP_SUCCESS :: u8 where "DSA_COMP_SUCCESS \<equiv> 1"
abbreviation (input) DSA_COMP_BATCH_FAIL :: u8 where "DSA_COMP_BATCH_FAIL \<equiv> 5"
abbreviation (input) DSA_COMP_INT_HANDLE_INVAL :: u8 where "DSA_COMP_INT_HANDLE_INVAL \<equiv> 0x19"
abbreviation (input) DSA_COMP_CRA_XLAT :: u8 where "DSA_COMP_CRA_XLAT \<equiv> 0x1a"
abbreviation (input) DSA_COMP_STATUS_MASK :: u8 where "DSA_COMP_STATUS_MASK \<equiv> 0x7f"
abbreviation (input) IDXD_OP_FLAG_CRAV :: u32 where "IDXD_OP_FLAG_CRAV \<equiv> 0x4"
abbreviation (input) IDXD_OP_FLAG_RCR :: u32 where "IDXD_OP_FLAG_RCR \<equiv> 0x8"
abbreviation (input) IDXD_OP_FLAG_RCI :: u32 where "IDXD_OP_FLAG_RCI \<equiv> 0x10"
abbreviation (input) DSA_OPCODE_NOOP :: u8 where "DSA_OPCODE_NOOP \<equiv> 0"
abbreviation (input) DSA_OPCODE_DRAIN :: u8 where "DSA_OPCODE_DRAIN \<equiv> 2"
abbreviation (input) DSA_OPCODE_MEMMOVE :: u8 where "DSA_OPCODE_MEMMOVE \<equiv> 3"

named_theorems frame_simps \<open>fields an operation leaves alone\<close>
named_theorems inv_intros \<open>operations that keep an invariant\<close>

subsection \<open>Bit-field layouts\<close>

type_synonym layout = "(string \<times> nat) list"

fun fld_off :: "layout \<Rightarrow> string \<Rightarrow> nat" where
  "fld_off [] n = 0"
| "fld_off ((m, k) # L) n = (if m = n then 0 else k + fld_off L n)"

fun fld_len :: "layout \<Rightarrow> string \<Rightarrow> nat" where
  "fld_len [] n = 0"
| "fld_len ((m, k) # L) n = (if m = n then k else fld_len L n)"

definition members :: "layout \<Rightarrow> string set" where
  "members L = set (map fst L)"

definition getf :: "layout \<Rightarrow> string \<Rightarrow> 'a::len word \<Rightarrow> 'a word" where
  "getf L n w = take_bit (fld_len L n) (drop_bit (fld_off L n) w)"

definition setf :: "layout \<Rightarrow> string \<Rightarrow> 'a::len word \<Rightarrow> 'a word \<Rightarrow> 'a word" where
  "setf L n v w =
     (w AND NOT (push_bit (fld_off L n) (mask (fld_len L n))))
       OR push_bit (fld_off L n) (take_bit (fld_len L n) v)"

lemma fld_end:
  "n \<in> members L \<Longrightarrow> fld_off L n + fld_len L n \<le> sum_list (map snd L)"
  by (induction L n rule: fld_off.induct) (auto simp: members_def)

lemma fld_disjoint:
  "\<lbrakk> distinct (map fst L); n \<in> members L; m \<in> members L; n \<noteq> m \<rbrakk> \<Longrightarrow>
     fld_off L n + fld_len L n \<le> fld_off L m \<or> fld_off L m + fld_len L m \<le> fld_off L n"
proof (induction L)
  case Nil
  then show ?case by (simp add: members_def)
next
  case (Cons f L)
  obtain l k where f: "f = (l, k)" by (cases f)
  show ?case
  proof (cases "l = n \<or> l = m")
    case True
    then show ?thesis using Cons.prems(4) by (auto simp: f)
  next
    case False
    then have "n \<in> members L" "m \<in> members L" "distinct (map fst L)"
      using Cons.prems by (auto simp: f members_def)
    then show ?thesis using Cons.IH Cons.prems(4) False by (auto simp: f)
  qed
qed

lemma bit_getf: "bit (getf L n w) k \<longleftrightarrow> k < fld_len L n \<and> bit w (fld_off L n + k)"
  by (auto simp: getf_def bit_simps)

lemma bit_setf:
  fixes w :: "'a::len word"
  shows "bit (setf L n v w) k \<longleftrightarrow>
     (if fld_off L n \<le> k \<and> k < fld_off L n + fld_len L n
      then k < LENGTH('a) \<and> bit v (k - fld_off L n) else bit w k)"
  using bit_imp_le_length [of w k] by (auto simp: setf_def bit_simps)

text \<open>
  What every register union promises its users: a member read back after an assignment is
  the assigned value cut to the member's width, and no other member changes.
\<close>

locale reg_layout =
  fixes L :: layout
    and T :: "'a::len itself"
  assumes distinct_fields: "distinct (map fst L)"
    and fits: "sum_list (map snd L) \<le> LENGTH('a)"
begin

lemma get_set_same:
  fixes v w :: "'a word"
  assumes "n \<in> members L"
  shows "getf L n (setf L n v w) = take_bit (fld_len L n) v"
  using fld_end [OF assms] fits
  by (intro bit_word_eqI) (auto simp: bit_getf bit_setf bit_take_bit_iff)

lemma get_set_other:
  fixes v w :: "'a word"
  assumes "n \<in> members L" "m \<in> members L" "n \<noteq> m"
  shows "getf L n (setf L m v w) = getf L n w"
  using fld_disjoint [OF distinct_fields assms]
  by (intro bit_word_eqI) (auto simp: bit_getf bit_setf)

lemma set_get_id:
  fixes w :: "'a word"
  shows "setf L n (getf L n w) w = w"
  by (intro bit_word_eqI) (auto simp: bit_getf bit_setf)

lemma set_set_same:
  fixes u v w :: "'a word"
  shows "setf L n u (setf L n v w) = setf L n u w"
  by (intro bit_word_eqI) (auto simp: bit_setf)

end

subsection \<open>Lists indexed as C arrays\<close>

definition list_upd :: "nat \<Rightarrow> ('a \<Rightarrow> 'a) \<Rightarrow> 'a list \<Rightarrow> 'a list" where
  "list_upd i f xs = xs[i := f (xs ! i)]"

lemma length_list_upd [simp]: "length (list_upd i f xs) = length xs"
  by (simp add: list_upd_def)

lemma nth_list_upd:
  "j < length xs \<Longrightarrow> list_upd i f xs ! j = (if i = j then f (xs ! j) else xs ! j)"
  by (auto simp: list_upd_def nth_list_update)

lemma map_list_upd_same [simp]:
  "(\<And>x. g (f x) = g x) \<Longrightarrow> map g (list_upd i f xs) = map g xs"
  by (cases "i < length xs")
    (auto simp: list_upd_def map_update list_update_same_conv list_update_beyond)

lemma list_upd_beyond: "length xs \<le> i \<Longrightarrow> list_upd i f xs = xs"
  by (simp add: list_upd_def list_update_beyond)

lemma set_list_upd:
  assumes "x \<in> set (list_upd i f xs)"
  obtains w where "w \<in> set xs" "x = w \<or> x = f w"
proof -
  obtain j where j: "j < length xs" "x = list_upd i f xs ! j"
    using assms by (metis in_set_conv_nth length_list_upd)
  show ?thesis
    by (rule that [of "xs ! j"]) (use j in \<open>auto simp: nth_list_upd\<close>)
qed

lemma sum_list_upd:
  fixes g :: "'a \<Rightarrow> int"
  assumes "i < length xs"
  shows "sum_list (map g (xs[i := y])) = sum_list (map g xs) - g (xs ! i) + g y"
proof -
  have "sum_list (map g xs) = sum_list (map g (take i xs)) + g (xs ! i) + sum_list (map g (drop (Suc i) xs))"
    using id_take_nth_drop [OF assms] by (metis (no_types, lifting) add.assoc list.simps(9) map_append sum_list.Cons sum_list_append)
  then show ?thesis
    using assms by (simp add: upd_conv_take_nth_drop)
qed

lemma list_upd_list_upd: "list_upd i f (list_upd i g xs) = list_upd i (f \<circ> g) xs"
  by (cases "i < length xs") (simp_all add: list_upd_def list_update_beyond)

text \<open>A loop that rewrites every entry of an array is a map.\<close>

lemma fold_list_upd_upto:
  "n \<le> length xs \<Longrightarrow> fold (\<lambda>i. list_upd i f) [0..<n] xs = map f (take n xs) @ drop n xs"
proof (induction n)
  case 0
  then show ?case by simp
next
  case (Suc n)
  then have n: "n < length xs" by simp
  have "fold (\<lambda>i. list_upd i f) [0..<Suc n] xs = list_upd n f (map f (take n xs) @ drop n xs)"
    using Suc by simp
  also have "\<dots> = map f (take n xs) @ list_upd 0 f (drop n xs)"
    using n by (simp add: list_upd_def list_update_append nth_append)
  also have "\<dots> = map f (take (Suc n) xs) @ drop (Suc n) xs"
    using n by (simp add: list_upd_def take_Suc_conv_app_nth Cons_nth_drop_Suc [symmetric])
  finally show ?case .
qed

lemma fold_list_upd: "fold (\<lambda>i. list_upd i f) [0..<length xs] xs = map f xs"
  by (simp add: fold_list_upd_upto)

lemma fold_list_upd_len: "n = length xs \<Longrightarrow> fold (\<lambda>i. list_upd i f) [0..<n] xs = map f xs"
  by (simp add: fold_list_upd)

definition b2w :: "bool \<Rightarrow> 'a::len word" where
  "b2w b = (if b then 1 else 0)"

end
