(* ===== verification/Registers.thy ===== *)
theory Registers
  imports Prelude
begin

text \<open>
  The register map of \<^verbatim>\<open>idxd/registers.h\<close>: one layout per packed union, the register
  offsets, the command and status codes and the offset macros. Each union used by the driver
  is an instance of \<^verbatim>\<open>reg_layout\<close>, which gives the read-after-assignment laws of its members.
\<close>

subsection \<open>Register unions\<close>

definition gen_cap_reg :: layout where
  "gen_cap_reg =
     [(''block_on_fault'', 1), (''overlap_copy'', 1), (''cache_control_mem'', 1),
      (''cache_control_cache'', 1), (''cmd_cap'', 1), (''rsvd'', 3), (''dest_readback'', 1),
      (''drain_readback'', 1), (''rsvd2'', 3), (''evl_support'', 2), (''batch_continuation'', 1),
      (''max_xfer_shift'', 5), (''max_batch_shift'', 4), (''max_ims_mult'', 6),
      (''config_en'', 1), (''rsvd3'', 32)]"

definition wq_cap_reg :: layout where
  "wq_cap_reg =
     [(''total_wq_size'', 16), (''num_wqs'', 8), (''wqcfg_size'', 4), (''rsvd'', 20),
      (''shared_mode'', 1), (''dedicated_mode'', 1), (''wq_ats_support'', 1), (''priority'', 1),
      (''occupancy'', 1), (''occupancy_int'', 1), (''op_config'', 1), (''wq_prs_support'', 1),
      (''rsvd4'', 8)]"

definition group_cap_reg :: layout where
  "group_cap_reg =
     [(''num_groups'', 8), (''total_rdbufs'', 8), (''rdbuf_ctrl'', 1), (''rdbuf_limit'', 1),
      (''progress_limit'', 1), (''rsvd'', 45)]"

definition engine_cap_reg :: layout where
  "engine_cap_reg = [(''num_engines'', 8), (''rsvd'', 56)]"

text \<open>The two 64-bit words of \<^verbatim>\<open>union offsets_reg\<close>.\<close>

definition offsets_reg0 :: layout where
  "offsets_reg0 = [(''grpcfg'', 16), (''wqcfg'', 16), (''msix_perm'', 16), (''ims'', 16)]"

definition offsets_reg1 :: layout where
  "offsets_reg1 = [(''perfmon'', 16), (''rsvd'', 48)]"

definition gencfg_reg :: layout where
  "gencfg_reg =
     [(''rdbuf_limit'', 8), (''rsvd'', 4), (''user_int_en'', 1), (''evl_en'', 1), (''rsvd2'', 18)]"

definition genctrl_reg :: layout where
  "genctrl_reg = [(''softerr_int_en'', 1), (''halt_int_en'', 1), (''evl_int_en'', 1), (''rsvd'', 29)]"

definition gensts_reg :: layout where
  "gensts_reg = [(''state'', 2), (''reset_type'', 2), (''rsvd'', 28)]"

definition idxd_command_reg :: layout where
  "idxd_command_reg = [(''operand'', 20), (''cmd'', 5), (''rsvd'', 6), (''int_req'', 1)]"

text \<open>The first 64-bit word of \<^verbatim>\<open>union sw_err_reg\<close>; the others are read whole.\<close>

definition sw_err_reg0 :: layout where
  "sw_err_reg0 =
     [(''valid'', 1), (''overflow'', 1), (''desc_valid'', 1), (''wq_idx_valid'', 1), (''batch'', 1),
      (''fault_rw'', 1), (''priv'', 1), (''rsvd'', 1), (''error'', 8), (''wq_idx'', 8),
      (''rsvd2'', 8), (''operation'', 8), (''pasid'', 20), (''rsvd3'', 4)]"

definition evlcfg_reg0 :: layout where
  "evlcfg_reg0 = [(''pasid_en'', 1), (''priv'', 1), (''rsvd'', 10), (''base_addr'', 52)]"

definition evlcfg_reg1 :: layout where
  "evlcfg_reg1 = [(''size'', 16), (''pasid'', 20), (''rsvd2'', 28)]"

definition msix_perm :: layout where
  "msix_perm = [(''rsvd'', 2), (''ignore'', 1), (''pasid_en'', 1), (''rsvd2'', 8), (''pasid'', 20)]"

definition group_flags :: layout where
  "group_flags =
     [(''tc_a'', 3), (''tc_b'', 3), (''rsvd'', 1), (''use_rdbuf_limit'', 1), (''rdbufs_reserved'', 8),
      (''rsvd2'', 4), (''rdbufs_allowed'', 8), (''rsvd3'', 4), (''desc_progress_limit'', 2),
      (''rsvd4'', 2), (''batch_progress_limit'', 2), (''rsvd5'', 26)]"

text \<open>The 32-bit words of \<^verbatim>\<open>union wqcfg\<close> that have members (bytes 0-3, 4-7, 8-11 and 12-15).\<close>

definition wqcfg_dw0 :: layout where
  "wqcfg_dw0 = [(''wq_size'', 16), (''rsvd'', 16)]"

definition wqcfg_dw1 :: layout where
  "wqcfg_dw1 = [(''wq_thresh'', 16), (''rsvd1'', 16)]"

definition wqcfg_dw2 :: layout where
  "wqcfg_dw2 =
     [(''mode'', 1), (''bof'', 1), (''wq_ats_disable'', 1), (''wq_prs_disable'', 1),
      (''priority'', 4), (''pasid'', 20), (''pasid_en'', 1), (''priv'', 1), (''rsvd3'', 2)]"

definition wqcfg_dw3 :: layout where
  "wqcfg_dw3 = [(''max_xfer_shift'', 5), (''max_batch_shift'', 4), (''rsvd4'', 23)]"

definition idxd_perfcap :: layout where
  "idxd_perfcap =
     [(''num_perf_counter'', 6), (''rsvd1'', 2), (''counter_width'', 8), (''num_event_category'', 4),
      (''global_event_category'', 16), (''filter'', 8), (''rsvd2'', 8), (''cap_per_counter'', 1),
      (''writeable_counter'', 1), (''counter_freeze'', 1), (''overflow_interrupt'', 1), (''rsvd3'', 8)]"

definition event_cfg :: layout where
  "event_cfg = [(''event_cat'', 4), (''event_enc'', 28)]"

definition filter_cfg :: layout where
  "filter_cfg = [(''wq'', 32), (''tc'', 8), (''pg_sz'', 4), (''xfer_sz'', 8), (''eng'', 8)]"

definition evl_status_reg :: layout where
  "evl_status_reg =
     [(''head'', 16), (''rsvd'', 16), (''tail'', 16), (''rsvd2'', 14), (''int_pending'', 1), (''rsvd3'', 1)]"

lemmas layout_defs =
  gen_cap_reg_def wq_cap_reg_def group_cap_reg_def engine_cap_reg_def offsets_reg0_def
  offsets_reg1_def gencfg_reg_def genctrl_reg_def gensts_reg_def idxd_command_reg_def
  sw_err_reg0_def evlcfg_reg0_def evlcfg_reg1_def msix_perm_def group_flags_def wqcfg_dw0_def
  wqcfg_dw1_def wqcfg_dw2_def wqcfg_dw3_def idxd_perfcap_def event_cfg_def filter_cfg_def
  evl_status_reg_def

interpretation gencfg: reg_layout gencfg_reg "TYPE(32)"
  by unfold_locales (simp_all add: gencfg_reg_def)
interpretation genctrl: reg_layout genctrl_reg "TYPE(32)"
  by unfold_locales (simp_all add: genctrl_reg_def)
interpretation cmdreg: reg_layout idxd_command_reg "TYPE(32)"
  by unfold_locales (simp_all add: idxd_command_reg_def)
interpretation dw0: reg_layout wqcfg_dw0 "TYPE(32)"
  by unfold_locales (simp_all add: wqcfg_dw0_def)
interpretation dw1: reg_layout wqcfg_dw1 "TYPE(32)"
  by unfold_locales (simp_all add: wqcfg_dw1_def)
interpretation dw2: reg_layout wqcfg_dw2 "TYPE(32)"
  by unfold_locales (simp_all add: wqcfg_dw2_def)
interpretation dw3: reg_layout wqcfg_dw3 "TYPE(32)"
  by unfold_locales (simp_all add: wqcfg_dw3_def)
interpretation gflags: reg_layout group_flags "TYPE(64)"
  by unfold_locales (simp_all add: group_flags_def)
interpretation evlsts: reg_layout evl_status_reg "TYPE(64)"
  by unfold_locales (simp_all add: evl_status_reg_def)
interpretation evlcfg1: reg_layout evlcfg_reg1 "TYPE(64)"
  by unfold_locales (simp_all add: evlcfg_reg1_def)
interpretation mperm: reg_layout msix_perm "TYPE(32)"
  by unfold_locales (simp_all add: msix_perm_def)

subsection \<open>Register offsets in BAR 0\<close>

abbreviation (input) IDXD_VER_OFFSET :: nat where "IDXD_VER_OFFSET \<equiv> 0x00"
abbreviation (input) IDXD_GENCAP_OFFSET :: nat where "IDXD_GENCAP_OFFSET \<equiv> 0x10"
abbreviation (input) IDXD_WQCAP_OFFSET :: nat where "IDXD_WQCAP_OFFSET \<equiv> 0x20"
abbreviation (input) IDXD_GRPCAP_OFFSET :: nat where "IDXD_GRPCAP_OFFSET \<equiv> 0x30"
abbreviation (input) IDXD_ENGCAP_OFFSET :: nat where "IDXD_ENGCAP_OFFSET \<equiv> 0x38"
abbreviation (input) IDXD_OPCAP_OFFSET :: nat where "IDXD_OPCAP_OFFSET \<equiv> 0x40"
abbreviation (input) IDXD_TABLE_OFFSET :: nat where "IDXD_TABLE_OFFSET \<equiv> 0x60"
abbreviation (input) IDXD_GENCFG_OFFSET :: nat where "IDXD_GENCFG_OFFSET \<equiv> 0x80"
abbreviation (input) IDXD_GENCTRL_OFFSET :: nat where "IDXD_GENCTRL_OFFSET \<equiv> 0x88"
abbreviation (input) IDXD_GENSTATS_OFFSET :: nat where "IDXD_GENSTATS_OFFSET \<equiv> 0x90"
abbreviation (input) IDXD_INTCAUSE_OFFSET :: nat where "IDXD_INTCAUSE_OFFSET \<equiv> 0x98"
abbreviation (input) IDXD_CMD_OFFSET :: nat where "IDXD_CMD_OFFSET \<equiv> 0xa0"
abbreviation (input) IDXD_CMDSTS_OFFSET :: nat where "IDXD_CMDSTS_OFFSET \<equiv> 0xa8"
abbreviation (input) IDXD_CMDCAP_OFFSET :: nat where "IDXD_CMDCAP_OFFSET \<equiv> 0xb0"
abbreviation (input) IDXD_SWERR_OFFSET :: nat where "IDXD_SWERR_OFFSET \<equiv> 0xc0"
abbreviation (input) IDXD_EVLCFG_OFFSET :: nat where "IDXD_EVLCFG_OFFSET \<equiv> 0xe0"
abbreviation (input) IDXD_EVLSTATUS_OFFSET :: nat where "IDXD_EVLSTATUS_OFFSET \<equiv> 0xf0"
abbreviation (input) IDXD_IAACAP_OFFSET :: nat where "IDXD_IAACAP_OFFSET \<equiv> 0x180"
abbreviation (input) IDXD_TABLE_MULT :: u32 where "IDXD_TABLE_MULT \<equiv> 0x100"
abbreviation (input) IDXD_WQCFG_MIN :: nat where "IDXD_WQCFG_MIN \<equiv> 5"
abbreviation (input) DEVICE_VERSION_2 :: u32 where "DEVICE_VERSION_2 \<equiv> 0x200"
abbreviation (input) IDXD_CMDSTS_ACTIVE :: u32 where "IDXD_CMDSTS_ACTIVE \<equiv> 0x80000000"
abbreviation (input) IDXD_CMDSTS_ERR_MASK :: u32 where "IDXD_CMDSTS_ERR_MASK \<equiv> 0xff"
abbreviation (input) IDXD_CMDSTS_RES_SHIFT :: nat where "IDXD_CMDSTS_RES_SHIFT \<equiv> 8"
abbreviation (input) CMD_INT_HANDLE_IMS :: u32 where "CMD_INT_HANDLE_IMS \<equiv> 0x10000"
abbreviation (input) IDXD_SWERR_ACK :: u64 where "IDXD_SWERR_ACK \<equiv> 3"
abbreviation (input) IDXD_EVL_SIZE_MIN :: u16 where "IDXD_EVL_SIZE_MIN \<equiv> 0x40"
abbreviation (input) IDXD_EVL_SIZE_MAX :: u16 where "IDXD_EVL_SIZE_MAX \<equiv> 0xffff"
abbreviation (input) IDXD_OPCAP_MEMMOVE :: u64 where "IDXD_OPCAP_MEMMOVE \<equiv> 8"
abbreviation (input) WQCFG_PASID_IDX :: nat where "WQCFG_PASID_IDX \<equiv> 2"
abbreviation (input) WQCFG_OCCUP_IDX :: nat where "WQCFG_OCCUP_IDX \<equiv> 6"
abbreviation (input) WQCFG_OCCUP_MASK :: u32 where "WQCFG_OCCUP_MASK \<equiv> 0xffff"

subsection \<open>Device states, commands and command status\<close>

datatype idxd_device_status_state =
    IDXD_DEVICE_STATE_DISABLED | IDXD_DEVICE_STATE_ENABLED
  | IDXD_DEVICE_STATE_DRAIN | IDXD_DEVICE_STATE_HALT

primrec devstate_code :: "idxd_device_status_state \<Rightarrow> u32" where
  "devstate_code IDXD_DEVICE_STATE_DISABLED = 0"
| "devstate_code IDXD_DEVICE_STATE_ENABLED = 1"
| "devstate_code IDXD_DEVICE_STATE_DRAIN = 2"
| "devstate_code IDXD_DEVICE_STATE_HALT = 3"

datatype idxd_device_reset_type =
    IDXD_DEVICE_RESET_SOFTWARE | IDXD_DEVICE_RESET_FLR
  | IDXD_DEVICE_RESET_WARM | IDXD_DEVICE_RESET_COLD

primrec reset_code :: "idxd_device_reset_type \<Rightarrow> u32" where
  "reset_code IDXD_DEVICE_RESET_SOFTWARE = 0"
| "reset_code IDXD_DEVICE_RESET_FLR = 1"
| "reset_code IDXD_DEVICE_RESET_WARM = 2"
| "reset_code IDXD_DEVICE_RESET_COLD = 3"

datatype idxd_cmd =
    IDXD_CMD_ENABLE_DEVICE | IDXD_CMD_DISABLE_DEVICE | IDXD_CMD_DRAIN_ALL | IDXD_CMD_ABORT_ALL
  | IDXD_CMD_RESET_DEVICE | IDXD_CMD_ENABLE_WQ | IDXD_CMD_DISABLE_WQ | IDXD_CMD_DRAIN_WQ
  | IDXD_CMD_ABORT_WQ | IDXD_CMD_RESET_WQ | IDXD_CMD_DRAIN_PASID | IDXD_CMD_ABORT_PASID
  | IDXD_CMD_REQUEST_INT_HANDLE | IDXD_CMD_RELEASE_INT_HANDLE

primrec cmd_code :: "idxd_cmd \<Rightarrow> u32" where
  "cmd_code IDXD_CMD_ENABLE_DEVICE = 1"
| "cmd_code IDXD_CMD_DISABLE_DEVICE = 2"
| "cmd_code IDXD_CMD_DRAIN_ALL = 3"
| "cmd_code IDXD_CMD_ABORT_ALL = 4"
| "cmd_code IDXD_CMD_RESET_DEVICE = 5"
| "cmd_code IDXD_CMD_ENABLE_WQ = 6"
| "cmd_code IDXD_CMD_DISABLE_WQ = 7"
| "cmd_code IDXD_CMD_DRAIN_WQ = 8"
| "cmd_code IDXD_CMD_ABORT_WQ = 9"
| "cmd_code IDXD_CMD_RESET_WQ = 10"
| "cmd_code IDXD_CMD_DRAIN_PASID = 11"
| "cmd_code IDXD_CMD_ABORT_PASID = 12"
| "cmd_code IDXD_CMD_REQUEST_INT_HANDLE = 13"
| "cmd_code IDXD_CMD_RELEASE_INT_HANDLE = 14"

datatype idxd_cmdsts_err =
    IDXD_CMDSTS_SUCCESS | IDXD_CMDSTS_INVAL_CMD | IDXD_CMDSTS_INVAL_WQIDX | IDXD_CMDSTS_HW_ERR
  | IDXD_CMDSTS_ERR_DEV_ENABLED | IDXD_CMDSTS_ERR_CONFIG | IDXD_CMDSTS_ERR_BUSMASTER_EN
  | IDXD_CMDSTS_ERR_PASID_INVAL | IDXD_CMDSTS_ERR_WQ_SIZE_ERANGE | IDXD_CMDSTS_ERR_GRP_CONFIG
  | IDXD_CMDSTS_ERR_GRP_CONFIG2 | IDXD_CMDSTS_ERR_GRP_CONFIG3 | IDXD_CMDSTS_ERR_GRP_CONFIG4
  | IDXD_CMDSTS_ERR_DEV_NOTEN | IDXD_CMDSTS_ERR_WQ_ENABLED | IDXD_CMDSTS_ERR_WQ_SIZE
  | IDXD_CMDSTS_ERR_WQ_PRIOR | IDXD_CMDSTS_ERR_WQ_MODE | IDXD_CMDSTS_ERR_BOF_EN
  | IDXD_CMDSTS_ERR_PASID_EN | IDXD_CMDSTS_ERR_MAX_BATCH_SIZE | IDXD_CMDSTS_ERR_MAX_XFER_SIZE
  | IDXD_CMDSTS_ERR_DIS_DEV_EN | IDXD_CMDSTS_ERR_DEV_NOT_EN
  | IDXD_CMDSTS_ERR_INVAL_INT_IDX | IDXD_CMDSTS_ERR_NO_HANDLE

primrec cmdsts_code :: "idxd_cmdsts_err \<Rightarrow> u32" where
  "cmdsts_code IDXD_CMDSTS_SUCCESS = 0"
| "cmdsts_code IDXD_CMDSTS_INVAL_CMD = 1"
| "cmdsts_code IDXD_CMDSTS_INVAL_WQIDX = 2"
| "cmdsts_code IDXD_CMDSTS_HW_ERR = 3"
| "cmdsts_code IDXD_CMDSTS_ERR_DEV_ENABLED = 0x10"
| "cmdsts_code IDXD_CMDSTS_ERR_CONFIG = 0x11"
| "cmdsts_code IDXD_CMDSTS_ERR_BUSMASTER_EN = 0x12"
| "cmdsts_code IDXD_CMDSTS_ERR_PASID_INVAL = 0x13"
| "cmdsts_code IDXD_CMDSTS_ERR_WQ_SIZE_ERANGE = 0x14"
| "cmdsts_code IDXD_CMDSTS_ERR_GRP_CONFIG = 0x15"
| "cmdsts_code IDXD_CMDSTS_ERR_GRP_CONFIG2 = 0x16"
| "cmdsts_code IDXD_CMDSTS_ERR_GRP_CONFIG3 = 0x17"
| "cmdsts_code IDXD_CMDSTS_ERR_GRP_CONFIG4 = 0x18"
| "cmdsts_code IDXD_CMDSTS_ERR_DEV_NOTEN = 0x20"
| "cmdsts_code IDXD_CMDSTS_ERR_WQ_ENABLED = 0x21"
| "cmdsts_code IDXD_CMDSTS_ERR_WQ_SIZE = 0x22"
| "cmdsts_code IDXD_CMDSTS_ERR_WQ_PRIOR = 0x23"
| "cmdsts_code IDXD_CMDSTS_ERR_WQ_MODE = 0x24"
| "cmdsts_code IDXD_CMDSTS_ERR_BOF_EN = 0x25"
| "cmdsts_code IDXD_CMDSTS_ERR_PASID_EN = 0x26"
| "cmdsts_code IDXD_CMDSTS_ERR_MAX_BATCH_SIZE = 0x27"
| "cmdsts_code IDXD_CMDSTS_ERR_MAX_XFER_SIZE = 0x28"
| "cmdsts_code IDXD_CMDSTS_ERR_DIS_DEV_EN = 0x31"
| "cmdsts_code IDXD_CMDSTS_ERR_DEV_NOT_EN = 0x32"
| "cmdsts_code IDXD_CMDSTS_ERR_INVAL_INT_IDX = 0x41"
| "cmdsts_code IDXD_CMDSTS_ERR_NO_HANDLE = 0x42"

subsection \<open>Offset macros\<close>

text \<open>
  The operands are a 16-bit table entry times 0x100, an 8-bit id and a block size of at most
  \<open>2 ^ 20\<close>, so the 32-bit sums of the macros never wrap (\<open>WQCFG_OFFSET_bound\<close>); the offsets are
  written over \<open>nat\<close>.
\<close>

definition WQCFG_OFFSET :: "u32 \<Rightarrow> u32 \<Rightarrow> nat \<Rightarrow> nat \<Rightarrow> nat" where
  "WQCFG_OFFSET base wqcfg_size n ofs = unat base + n * unat wqcfg_size + 4 * ofs"

lemma WQCFG_OFFSET_bound:
  assumes "unat base < 2 ^ 24" "n < 256" "unat sz \<le> 2 ^ 20" "ofs < 16"
  shows "WQCFG_OFFSET base sz n ofs < 2 ^ 32"
proof -
  have "n * unat sz \<le> 255 * 2 ^ 20"
    using assms by (intro mult_le_mono) auto
  then show ?thesis using assms by (simp add: WQCFG_OFFSET_def)
qed

definition WQCFG_STRIDES :: "u32 \<Rightarrow> nat" where
  "WQCFG_STRIDES wqcfg_size = unat wqcfg_size div 4"

abbreviation (input) GRPCFG_SIZE :: nat where "GRPCFG_SIZE \<equiv> 64"
abbreviation (input) GRPWQCFG_STRIDES :: nat where "GRPWQCFG_STRIDES \<equiv> 4"

definition GRPWQCFG_OFFSET :: "u32 \<Rightarrow> nat \<Rightarrow> nat \<Rightarrow> nat" where
  "GRPWQCFG_OFFSET base n ofs = unat base + n * GRPCFG_SIZE + 8 * ofs"

definition GRPENGCFG_OFFSET :: "u32 \<Rightarrow> nat \<Rightarrow> nat" where
  "GRPENGCFG_OFFSET base n = unat base + n * GRPCFG_SIZE + 32"

definition GRPFLGCFG_OFFSET :: "u32 \<Rightarrow> nat \<Rightarrow> nat" where
  "GRPFLGCFG_OFFSET base n = unat base + n * GRPCFG_SIZE + 40"

end
