(* ===== verification/Kernel.thy ===== *)
theory Kernel
  imports Registers
begin

text \<open>
  The world outside the driver: device registers, resources obtained from the kernel, and
  calls whose outcome the driver does not control.

  \<open>machine\<close> holds the BAR 0 registers by byte offset, a count of every kernel resource the
  driver holds (a negative count is a double release) and the trace of external calls with
  their return codes, newest first. \<open>env\<close> collects what the sources do not contain: the
  return codes of kernel services as a function of the trace so far, the device's reaction
  to a register write, the registers at the moment a wait for the device ends, the kernel's
  string and bitmap parsers, and the module's global switches. Every theorem is about all
  environments, or names the documented behaviour it needs.
\<close>

datatype conf_dev = DevIdxd | DevWq nat | DevEngine nat | DevGroup nat | DevCdev nat | DevFile nat

text \<open>Resources of a work queue, of the device, of one opened file and of the module.\<close>

datatype wq_res =
    HwDescs | HwDesc nat | Descs | Desc nat | Compls | Sbq | Portal | Irq | Percpu
  | UserWq | Cdev | Minor | Chan | ChanNode | ChanReg | WqStruct | Wqcfg | WqOpcap

datatype dev_res =
    EvlBmap | EvlLog | Evl | EvlCache | Workqueue | IrqVectors | MiscIrq | DmaDev | DmaReg
  | Wqs | WqEnableMap | Engines | EngineStruct nat | Groups | GroupStruct nat
  | IdxdStruct | IdxdId | DevOpcap | PciDev | Iomap | TmpBuf | DebugfsDir

datatype sva_res = SysPasid | PasidAttach | Iopf | SvaFeat

datatype work_res = Fault | Revoke | Resubmit nat nat

datatype file_res = Uctx | Sva | FileId

datatype mod_res = Driver string | Chrdev nat | Debugfs | PciDriver | Cpuhp | CpuhpInst | Pmu | PmuReg | Bus

datatype obj =
    W nat wq_res | D dev_res | S sva_res | K work_res | F nat file_res | M mod_res
  | DevRef conf_dev | Registered conf_dev

text \<open>
  The members of the hardware descriptor the driver writes. \<open>hd_pasid\<close> has 20 bits, \<open>hd_priv\<close>
  one and \<open>hd_flags\<close> 24; the driver's assignments cut to that width.
\<close>

record dsa_hw_desc =
  hd_pasid :: u32
  hd_priv :: u32
  hd_flags :: u32
  hd_opcode :: u8
  completion_addr :: u64
  src_addr :: u64
  dst_addr :: u64
  xfer_size :: u32
  hd_int_handle :: u16

datatype dma_result = DMA_TRANS_NOERROR | DMA_TRANS_WRITE_FAILED | DMA_TRANS_ABORTED

datatype svc =
    Enqcmds nat u32 dsa_hw_desc | Movdir64b nat u32 dsa_hw_desc
  | CookieComplete nat nat | Callback nat nat dma_result
  | QueueResubmit nat nat | QueueReinit | QueueRevoke | QueueFault nat
  | WakeErrQueue nat | PerfmonOverflow
  | SetName conf_dev | CmdDone
  | DetachDriver conf_dev | AttachDriver conf_dev string | DrainWorkqueue nat
  | CopyToUser u64 nat u8 | PutUser u64 u8 | XaInsert nat u32 | RemapPfn u64 u64
  | MsixVecCount | AllocVectors | SetDmaMask | GetDomain | SynchronizeIrq | FlushWorkqueue
  | PmuMigrate nat int | DebugfsFile
  | DriverProbe nat

datatype call = Acq obj | Rel obj | Svc svc

record machine =
  regs :: "nat \<Rightarrow> u32"
  held :: "obj \<Rightarrow> int"
  trace :: "(call \<times> int) list"

record env =
  ext_rc :: "(call \<times> int) list \<Rightarrow> call \<Rightarrow> int"
  io_write :: "(nat \<Rightarrow> u32) \<Rightarrow> nat \<Rightarrow> u32 \<Rightarrow> (nat \<Rightarrow> u32)"
  cmd_wait :: "(nat \<Rightarrow> u32) \<Rightarrow> (nat \<Rightarrow> u32)"
  kstrtol :: "nat \<Rightarrow> string \<Rightarrow> int option"
  kstrtoul :: "nat \<Rightarrow> string \<Rightarrow> u64 option"
  kstrtoint :: "nat \<Rightarrow> string \<Rightarrow> u32 option"
  kstrtouint :: "nat \<Rightarrow> string \<Rightarrow> int + u32"
  kstrtobool :: "string \<Rightarrow> int + bool"
  bitmap_parse :: "string \<Rightarrow> int + 256 word"
  sysfs_streq :: "string \<Rightarrow> string \<Rightarrow> bool"
  strim :: "string \<Rightarrow> string"
  ilog2 :: "u64 \<Rightarrow> nat"
  roundup_pow_of_two :: "u64 \<Rightarrow> u64"
  irq_vector :: "nat \<Rightarrow> int"
  cookie_done :: "int \<Rightarrow> int"
  cookie_assign :: "int \<Rightarrow> int"
  sbq_pick :: "nat set \<Rightarrow> nat \<Rightarrow> (nat \<times> int) option"
  ida_pick :: "int set \<Rightarrow> int"
  invalid_pasid :: u32
  comp_drain_evl :: u8
  comp_batch_evl_err :: u8
  tc_override :: bool
  support_enqcmd :: bool
  svm_configured :: bool
  sva_wanted :: bool

subsection \<open>External calls\<close>

definition ext :: "env \<Rightarrow> call \<Rightarrow> ('a machine_scheme) \<Rightarrow> int \<times> 'a machine_scheme" where
  "ext E c s = (let r = ext_rc E (trace s) c in (r, s\<lparr>trace := (c, r) # trace s\<rparr>))"

text \<open>Obtaining a resource: a negative code is an error return or a NULL pointer.\<close>

definition acquire :: "env \<Rightarrow> obj \<Rightarrow> ('a machine_scheme) \<Rightarrow> int \<times> 'a machine_scheme" where
  "acquire E x s =
     (let (r, s) = ext E (Acq x) s
      in if r < 0 then (r, s) else (r, s\<lparr>held := (held s)(x := held s x + 1)\<rparr>))"

definition release :: "obj \<Rightarrow> ('a machine_scheme) \<Rightarrow> 'a machine_scheme" where
  "release x s = s\<lparr>held := (held s)(x := held s x - 1), trace := (Rel x, 0) # trace s\<rparr>"

text \<open>Counting a resource whose acquisition cannot fail (a reference, a list link).\<close>

definition hold :: "obj \<Rightarrow> ('a machine_scheme) \<Rightarrow> 'a machine_scheme" where
  "hold x s = s\<lparr>held := (held s)(x := held s x + 1)\<rparr>"

definition notify :: "svc \<Rightarrow> ('a machine_scheme) \<Rightarrow> 'a machine_scheme" where
  "notify v s = s\<lparr>trace := (Svc v, 0) # trace s\<rparr>"

subsection \<open>Register access\<close>

definition ioread32 :: "nat \<Rightarrow> 'a machine_scheme \<Rightarrow> u32" where
  "ioread32 off s = regs s off"

definition iowrite32 :: "env \<Rightarrow> u32 \<Rightarrow> nat \<Rightarrow> 'a machine_scheme \<Rightarrow> 'a machine_scheme" where
  "iowrite32 E v off s = s\<lparr>regs := io_write E (regs s) off v\<rparr>"

text \<open>
  The files include \<^verbatim>\<open>io-64-nonatomic-lo-hi.h\<close>: a 64-bit access is two 32-bit
  accesses, the low half first.
\<close>

definition ioread64 :: "nat \<Rightarrow> 'a machine_scheme \<Rightarrow> u64" where
  "ioread64 off s = ucast (regs s off) OR push_bit 32 (ucast (regs s (off + 4)))"

definition iowrite64 :: "env \<Rightarrow> u64 \<Rightarrow> nat \<Rightarrow> 'a machine_scheme \<Rightarrow> 'a machine_scheme" where
  "iowrite64 E v off s = iowrite32 E (ucast (drop_bit 32 v)) (off + 4) (iowrite32 E (ucast v) off s)"

text \<open>Documented behaviour: registers of a set are plain storage, untouched by writes elsewhere.\<close>

definition plain_regs :: "env \<Rightarrow> nat set \<Rightarrow> bool" where
  "plain_regs E A \<longleftrightarrow> (\<forall>r off v a. a \<in> A \<longrightarrow> io_write E r off v a = (if a = off then v else r a))"

lemma plain_regsD:
  "plain_regs E A \<Longrightarrow> a \<in> A \<Longrightarrow> io_write E r off v a = (if a = off then v else r a)"
  by (auto simp: plain_regs_def)

lemma plain_regs_mono: "plain_regs E B \<Longrightarrow> A \<subseteq> B \<Longrightarrow> plain_regs E A"
  by (auto simp: plain_regs_def)

lemma regs_iowrite32:
  "plain_regs E A \<Longrightarrow> a \<in> A \<Longrightarrow> regs (iowrite32 E v off s) a = (if a = off then v else regs s a)"
  by (simp add: iowrite32_def plain_regsD)

lemma regs_iowrite64:
  "plain_regs E A \<Longrightarrow> a \<in> A \<Longrightarrow>
     regs (iowrite64 E v off s) a =
       (if a = off + 4 then ucast (drop_bit 32 v) else if a = off then ucast v else regs s a)"
  by (simp add: iowrite64_def regs_iowrite32)

lemma ioread64_split:
  "ioread64 off s = v \<longleftrightarrow> regs s off = ucast v \<and> regs s (off + 4) = ucast (drop_bit 32 v)"
  (is "?l = ?r")
proof
  assume ?l
  then have v: "v = ucast (regs s off) OR push_bit 32 (ucast (regs s (off + 4)))"
    by (simp add: ioread64_def)
  have "regs s off = ucast v"
    by (rule bit_word_eqI) (auto simp: v bit_simps)
  moreover have "regs s (off + 4) = ucast (drop_bit 32 v)"
    by (rule bit_word_eqI) (auto simp: v bit_simps dest: bit_imp_le_length)
  ultimately show ?r by simp
next
  assume r: ?r
  show ?l unfolding ioread64_def using r
    by (intro bit_word_eqI) (auto simp: bit_simps)
qed

subsection \<open>Frame rules\<close>

lemma ext_frame [frame_simps]:
  "regs (snd (ext E c s)) = regs s" "held (snd (ext E c s)) = held s"
  by (simp_all add: ext_def Let_def)

text \<open>Adding or removing one unit of every resource of a set.\<close>

definition addh :: "obj set \<Rightarrow> (obj \<Rightarrow> int) \<Rightarrow> obj \<Rightarrow> int" where
  "addh A h = (\<lambda>x. h x + (if x \<in> A then 1 else 0))"

definition subh :: "obj set \<Rightarrow> (obj \<Rightarrow> int) \<Rightarrow> obj \<Rightarrow> int" where
  "subh A h = (\<lambda>x. h x - (if x \<in> A then 1 else 0))"

lemma subh_addh [simp]: "subh A (addh A h) = h"
  by (auto simp: addh_def subh_def)

lemma addh_empty [simp]: "addh {} h = h" and subh_empty [simp]: "subh {} h = h"
  by (simp_all add: addh_def subh_def)

lemma addh_addh: "A \<inter> B = {} \<Longrightarrow> addh A (addh B h) = addh (A \<union> B) h"
  by (auto simp: addh_def fun_eq_iff)

lemma subh_subh: "A \<inter> B = {} \<Longrightarrow> subh A (subh B h) = subh (A \<union> B) h"
  by (auto simp: subh_def fun_eq_iff)

lemma addh_commute: "addh A (addh B h) = addh B (addh A h)"
  by (auto simp: addh_def fun_eq_iff)

lemma subh_addh_commute: "subh A (addh B h) = addh B (subh A h)"
  by (auto simp: addh_def subh_def fun_eq_iff)

lemma held_acquire:
  "held (snd (acquire E x s)) = (if fst (acquire E x s) < 0 then held s else addh {x} (held s))"
  by (auto simp: acquire_def ext_def addh_def Let_def)

lemma held_release [simp]: "held (release x s) = subh {x} (held s)"
  by (auto simp: release_def subh_def)

lemma held_hold [simp]: "held (hold x s) = addh {x} (held s)"
  by (auto simp: hold_def addh_def)

lemma regs_hold [simp]: "regs (hold x s) = regs s"
  by (simp add: hold_def)

lemma held_notify [simp]: "held (notify v s) = held s"
  by (simp add: notify_def)

lemma regs_release [simp]: "regs (release x s) = regs s"
  by (simp add: release_def)

lemma regs_notify [simp]: "regs (notify v s) = regs s"
  by (simp add: notify_def)

lemma regs_acquire [simp]: "regs (snd (acquire E x s)) = regs s"
  by (auto simp: acquire_def ext_def Let_def)

lemma held_iowrite32 [simp]: "held (iowrite32 E v off s) = held s"
  by (simp add: iowrite32_def)

lemma held_iowrite64 [simp]: "held (iowrite64 E v off s) = held s"
  by (simp add: iowrite64_def)

end
