(* ===== verification/Model.thy ===== *)
theory Model
  imports Kernel
begin

text \<open>
  The data of \<^verbatim>\<open>idxd/idxd.h\<close>: its enums, structs and inline functions. A pointer to a group
  is the group's index, a pointer to the device is the one state record, and a bitmap is a
  word or a set of bit numbers. The device record extends \<^typ>\<open>machine\<close>.
\<close>

subsection \<open>Enums\<close>

datatype idxd_dev_type =
    IDXD_DEV_NONE | IDXD_DEV_DSA | IDXD_DEV_IAX | IDXD_DEV_WQ | IDXD_DEV_GROUP
  | IDXD_DEV_ENGINE | IDXD_DEV_CDEV | IDXD_DEV_CDEV_FILE | IDXD_DEV_MAX_TYPE

primrec dev_type_code :: "idxd_dev_type \<Rightarrow> int" where
  "dev_type_code IDXD_DEV_NONE = -1"
| "dev_type_code IDXD_DEV_DSA = 0"
| "dev_type_code IDXD_DEV_IAX = 1"
| "dev_type_code IDXD_DEV_WQ = 2"
| "dev_type_code IDXD_DEV_GROUP = 3"
| "dev_type_code IDXD_DEV_ENGINE = 4"
| "dev_type_code IDXD_DEV_CDEV = 5"
| "dev_type_code IDXD_DEV_CDEV_FILE = 6"
| "dev_type_code IDXD_DEV_MAX_TYPE = 7"

lemma dev_type_code_inj: "dev_type_code a = dev_type_code b \<longleftrightarrow> a = b"
  by (cases a; cases b) simp_all

text \<open>The order of the C enum, used by \<^verbatim>\<open>idxd_dev_set_type\<close>.\<close>

instantiation idxd_dev_type :: linorder
begin

definition less_eq_idxd_dev_type :: "idxd_dev_type \<Rightarrow> idxd_dev_type \<Rightarrow> bool" where
  "less_eq_idxd_dev_type a b \<longleftrightarrow> dev_type_code a \<le> dev_type_code b"

definition less_idxd_dev_type :: "idxd_dev_type \<Rightarrow> idxd_dev_type \<Rightarrow> bool" where
  "less_idxd_dev_type a b \<longleftrightarrow> dev_type_code a < dev_type_code b"

instance
  by standard
    (auto simp: less_eq_idxd_dev_type_def less_idxd_dev_type_def dev_type_code_inj [symmetric])

end

datatype idxd_type = IDXD_TYPE_DSA | IDXD_TYPE_IAX

datatype idxd_wq_state = IDXD_WQ_DISABLED | IDXD_WQ_ENABLED

datatype idxd_wq_type = IDXD_WQT_NONE | IDXD_WQT_KERNEL | IDXD_WQT_USER

datatype idxd_op_type = IDXD_OP_BLOCK | IDXD_OP_NONBLOCK

datatype idxd_complete_type = IDXD_COMPLETE_NORMAL | IDXD_COMPLETE_ABORT | IDXD_COMPLETE_DEV_FAIL

datatype idxd_device_state = IDXD_DEV_HALTED | IDXD_DEV_DISABLED | IDXD_DEV_ENABLED

datatype idxd_interrupt_type = IDXD_IRQ_MSIX | IDXD_IRQ_IMS

datatype idxd_portal_prot = IDXD_PORTAL_UNLIMITED | IDXD_PORTAL_LIMITED

datatype idxd_scmd_stat =
    IDXD_SCMD_DEV_ENABLED | IDXD_SCMD_DEV_NOT_ENABLED | IDXD_SCMD_WQ_ENABLED
  | IDXD_SCMD_DEV_DMA_ERR | IDXD_SCMD_WQ_NO_GRP | IDXD_SCMD_WQ_NO_NAME | IDXD_SCMD_WQ_NO_SVM
  | IDXD_SCMD_WQ_NO_THRESH | IDXD_SCMD_WQ_PORTAL_ERR | IDXD_SCMD_WQ_RES_ALLOC_ERR
  | IDXD_SCMD_PERCPU_ERR | IDXD_SCMD_DMA_CHAN_ERR | IDXD_SCMD_CDEV_ERR
  | IDXD_SCMD_WQ_NO_SWQ_SUPPORT | IDXD_SCMD_WQ_NONE_CONFIGURED | IDXD_SCMD_WQ_NO_PRIV
  | IDXD_SCMD_WQ_IRQ_ERR | IDXD_SCMD_WQ_USER_NO_IOMMU | IDXD_SCMD_DEV_EVL_ERR
  | IDXD_SCMD_WQ_NO_DRV_NAME

text \<open>
  The \<open>cmd_status\<close> attribute holds either the low byte of the command status register or a
  driver error code. The numbers of the driver codes are in a kernel header that is not part
  of the sources, so the codes stay symbolic.
\<close>

datatype cmd_status = HwStatus u32 | Scmd idxd_scmd_stat

abbreviation (input) WQ_FLAG_DEDICATED :: nat where "WQ_FLAG_DEDICATED \<equiv> 0"
abbreviation (input) WQ_FLAG_BLOCK_ON_FAULT :: nat where "WQ_FLAG_BLOCK_ON_FAULT \<equiv> 1"
abbreviation (input) WQ_FLAG_ATS_DISABLE :: nat where "WQ_FLAG_ATS_DISABLE \<equiv> 2"
abbreviation (input) WQ_FLAG_PRS_DISABLE :: nat where "WQ_FLAG_PRS_DISABLE \<equiv> 3"

abbreviation (input) IDXD_FLAG_CONFIGURABLE :: nat where "IDXD_FLAG_CONFIGURABLE \<equiv> 0"
abbreviation (input) IDXD_FLAG_CMD_RUNNING :: nat where "IDXD_FLAG_CMD_RUNNING \<equiv> 1"
abbreviation (input) IDXD_FLAG_PASID_ENABLED :: nat where "IDXD_FLAG_PASID_ENABLED \<equiv> 2"
abbreviation (input) IDXD_FLAG_USER_PASID_ENABLED :: nat where "IDXD_FLAG_USER_PASID_ENABLED \<equiv> 3"

abbreviation (input) IDXD_MAX_PRIORITY :: u64 where "IDXD_MAX_PRIORITY \<equiv> 0xf"
abbreviation (input) IDXD_ENQCMDS_RETRIES :: u32 where "IDXD_ENQCMDS_RETRIES \<equiv> 32"
abbreviation (input) IDXD_ENQCMDS_MAX_RETRIES :: u32 where "IDXD_ENQCMDS_MAX_RETRIES \<equiv> 64"
abbreviation (input) WQ_NAME_SIZE :: nat where "WQ_NAME_SIZE \<equiv> 1024"
abbreviation (input) DRIVER_NAME_SIZE :: nat where "DRIVER_NAME_SIZE \<equiv> 128"
abbreviation (input) WQ_DEFAULT_QUEUE_DEPTH :: u32 where "WQ_DEFAULT_QUEUE_DEPTH \<equiv> 16"
abbreviation (input) WQ_DEFAULT_MAX_XFER :: u64 where "WQ_DEFAULT_MAX_XFER \<equiv> 0x200000"
abbreviation (input) WQ_DEFAULT_MAX_BATCH :: u32 where "WQ_DEFAULT_MAX_BATCH \<equiv> 32"
abbreviation (input) INVALID_INT_HANDLE :: int where "INVALID_INT_HANDLE \<equiv> -1"
abbreviation (input) IDXD_COMP_DESC_ABORT :: u8 where "IDXD_COMP_DESC_ABORT \<equiv> 0xff"

subsection \<open>Structs\<close>

record idxd_irq_entry =
  ie_id :: nat
  ie_vector :: int
  pending_llist :: "nat list"
  work_list :: "nat list"
  int_handle :: int
  ie_pasid :: u32

record idxd_desc =
  desc_hw :: dsa_hw_desc
  compl_status :: u8
  compl_dma :: u64
  txd_cookie :: int
  txd_flags :: u64
  txd_callback :: bool
  desc_id :: nat
  desc_cpu :: int

record idxd_group =
  grpcfg_wqs :: "u64 list"
  grpcfg_engines :: u64
  grpcfg_flags :: u64
  grp_id :: nat
  num_engines :: int
  num_wqs :: int
  use_rdbuf_limit :: bool
  rdbufs_allowed :: u8
  rdbufs_reserved :: u8
  tc_a :: int
  tc_b :: int
  desc_progress_limit :: int
  batch_progress_limit :: int

record idxd_engine =
  eng_id :: nat
  eng_group :: "nat option"

record idxd_wq =
  wq_id :: nat
  portal :: bool
  portal_offset :: u32
  enqcmds_retries :: u32
  ref_live :: bool
  wq_dead :: bool
  wq_resurrect :: bool
  wq_cdev :: "int option"
  wq_ie :: idxd_irq_entry
  wq_type :: idxd_wq_type
  wq_group :: "nat option"
  client_count :: int
  wq_size :: u32
  threshold :: u32
  priority :: u32
  wq_state :: idxd_wq_state
  wq_flags :: u64
  wqcfg :: "u32 list"
  wq_opcap :: "256 word option"
  num_descs :: int
  hw_desc_ptrs :: "bool list"
  desc_ptrs :: "bool list"
  wq_descs :: "idxd_desc list"
  compls_size :: int
  compls_addr :: u64
  sbq_alloc :: "nat set"
  wq_name :: string
  max_xfer_bytes :: u64
  max_batch_size :: u32
  upasid_xa :: "u32 \<Rightarrow> nat option"
  driver_name :: string

record idxd_driver_data =
  drv_type :: idxd_type
  compl_size :: nat

text \<open>An event-log entry: the members the driver reads, and its completion record.\<close>

record evl_entry =
  ee_desc_valid :: bool
  ee_batch :: bool
  ee_error :: u8
  ee_wq_idx :: u8
  ee_batch_id :: u8
  ee_pasid :: u32
  ee_rci :: bool
  ee_rcr :: bool
  ee_first_err_in_batch :: bool
  ee_fault_addr :: u64
  ee_cr_status :: u8
  ee_cr_result :: u8

record idxd_evl =
  evl_log :: "(nat \<Rightarrow> evl_entry) option"
  evl_dma :: u64
  evl_log_size :: u32
  evl_size :: u16
  evl_head :: u16
  evl_bmap :: "nat set"
  batch_fail :: "u8 \<Rightarrow> bool"

text \<open>A member of the event list is a pointer to an event, or NULL.\<close>

record idxd_pmu =
  pmu_id :: nat
  event_list :: "nat option list"
  n_events :: int
  used_mask :: "nat set"
  pmu_cpu :: int
  n_counters :: int
  counter_width :: int
  n_event_categories :: int
  per_counter_caps_supported :: bool
  supported_event_categories :: u64
  supported_filters :: u64
  n_filters :: int

text \<open>\<open>live_ptrs\<close> are the pointers of the struct that are not NULL, among those its release function frees.\<close>

record idxd_device = machine +
  drv_data :: idxd_driver_data
  version :: u32
  gen_cap :: u64
  wq_cap :: u64
  group_cap :: u64
  engine_cap :: u64
  opcap :: "u64 list"
  cmd_cap :: u32
  iaa_cap :: u64
  dev_state :: idxd_device_state
  dev_flags :: u64
  dev_id :: int
  cmd_status :: cmd_status
  pasid :: u32
  irq_cnt :: nat
  request_int_handles :: bool
  msix_perm_offset :: u32
  wqcfg_offset :: u32
  grpcfg_offset :: u32
  perfmon_offset :: u32
  dev_max_xfer_bytes :: u64
  dev_max_batch_size :: u32
  max_groups :: nat
  max_engines :: nat
  max_rdbufs :: int
  max_wqs :: nat
  max_wq_size :: int
  rdbuf_limit :: int
  nr_rdbufs :: int
  wqcfg_size :: u32
  wq_enable_map :: "nat set"
  sw_err :: "u64 list"
  dev_evl :: "idxd_evl option"
  dev_pmu :: "idxd_pmu option"
  live_ptrs :: "dev_res set"
  dev_opcap :: "256 word"
  pasid_priv :: bool
  groups :: "idxd_group list"
  wqs :: "idxd_wq list"
  engines :: "idxd_engine list"

subsection \<open>Access to the arrays\<close>

definition upd_wq :: "nat \<Rightarrow> (idxd_wq \<Rightarrow> idxd_wq) \<Rightarrow> idxd_device \<Rightarrow> idxd_device" where
  "upd_wq i f d = d\<lparr>wqs := list_upd i f (wqs d)\<rparr>"

definition upd_group :: "nat \<Rightarrow> (idxd_group \<Rightarrow> idxd_group) \<Rightarrow> idxd_device \<Rightarrow> idxd_device" where
  "upd_group i f d = d\<lparr>groups := list_upd i f (groups d)\<rparr>"

definition upd_engine :: "nat \<Rightarrow> (idxd_engine \<Rightarrow> idxd_engine) \<Rightarrow> idxd_device \<Rightarrow> idxd_device" where
  "upd_engine i f d = d\<lparr>engines := list_upd i f (engines d)\<rparr>"

definition upd_ie :: "nat \<Rightarrow> (idxd_irq_entry \<Rightarrow> idxd_irq_entry) \<Rightarrow> idxd_device \<Rightarrow> idxd_device" where
  "upd_ie i f d = upd_wq i (\<lambda>w. w\<lparr>wq_ie := f (wq_ie w)\<rparr>) d"

text \<open>The arrays have the sizes the device reports, and every entry knows its index.\<close>

definition wf_dev :: "idxd_device \<Rightarrow> bool" where
  "wf_dev d \<longleftrightarrow>
     length (wqs d) = max_wqs d \<and> length (groups d) = max_groups d \<and>
     length (engines d) = max_engines d \<and>
     map wq_id (wqs d) = [0..<max_wqs d] \<and> map grp_id (groups d) = [0..<max_groups d] \<and>
     map eng_id (engines d) = [0..<max_engines d] \<and>
     max_wqs d < 256 \<and> max_groups d < 256 \<and> max_engines d \<le> 64 \<and>
     (\<forall>w\<in>set (wqs d). \<forall>g. wq_group w = Some g \<longrightarrow> g < max_groups d) \<and>
     (\<forall>e\<in>set (engines d). \<forall>g. eng_group e = Some g \<longrightarrow> g < max_groups d)"

subsection \<open>Inline functions\<close>

definition idxd_dev_set_type :: "idxd_dev_type \<Rightarrow> idxd_dev_type" where
  "idxd_dev_set_type t = (if IDXD_DEV_MAX_TYPE \<le> t then IDXD_DEV_NONE else t)"

definition evl_ent_size :: "idxd_device \<Rightarrow> u32" where
  "evl_ent_size d =
     (let n = unat (getf gen_cap_reg ''evl_support'' (gen_cap d))
      in if n \<noteq> 0 then 32 * push_bit n 1 else 0)"

definition evl_total_size :: "idxd_device \<Rightarrow> idxd_evl \<Rightarrow> u32" where
  "evl_total_size d e = ucast (evl_size e) * evl_ent_size d"

definition idxd_set_user_intr :: "env \<Rightarrow> bool \<Rightarrow> idxd_device \<Rightarrow> idxd_device" where
  "idxd_set_user_intr E en d =
     iowrite32 E (setf gencfg_reg ''user_int_en'' (b2w en) (ioread32 IDXD_GENCFG_OFFSET d))
       IDXD_GENCFG_OFFSET d"

definition is_dsa_dev :: "idxd_dev_type \<Rightarrow> bool" where
  "is_dsa_dev t \<longleftrightarrow> t = IDXD_DEV_DSA"

definition is_iax_dev :: "idxd_dev_type \<Rightarrow> bool" where
  "is_iax_dev t \<longleftrightarrow> t = IDXD_DEV_IAX"

definition is_idxd_dev :: "idxd_dev_type \<Rightarrow> bool" where
  "is_idxd_dev t \<longleftrightarrow> is_dsa_dev t \<or> is_iax_dev t"

definition is_idxd_wq_dev :: "idxd_dev_type \<Rightarrow> bool" where
  "is_idxd_wq_dev t \<longleftrightarrow> t = IDXD_DEV_WQ"

definition is_idxd_wq_dmaengine :: "idxd_wq \<Rightarrow> bool" where
  "is_idxd_wq_dmaengine w \<longleftrightarrow> wq_type w = IDXD_WQT_KERNEL \<and> wq_name w = ''dmaengine''"

definition is_idxd_wq_user :: "idxd_wq \<Rightarrow> bool" where
  "is_idxd_wq_user w \<longleftrightarrow> wq_type w = IDXD_WQT_USER"

definition is_idxd_wq_kernel :: "idxd_wq \<Rightarrow> bool" where
  "is_idxd_wq_kernel w \<longleftrightarrow> wq_type w = IDXD_WQT_KERNEL"

definition wq_dedicated :: "idxd_wq \<Rightarrow> bool" where
  "wq_dedicated w \<longleftrightarrow> bit (wq_flags w) WQ_FLAG_DEDICATED"

definition wq_shared :: "idxd_wq \<Rightarrow> bool" where
  "wq_shared w \<longleftrightarrow> \<not> bit (wq_flags w) WQ_FLAG_DEDICATED"

definition configurable :: "idxd_device \<Rightarrow> bool" where
  "configurable d \<longleftrightarrow> bit (dev_flags d) IDXD_FLAG_CONFIGURABLE"

definition device_pasid_enabled :: "idxd_device \<Rightarrow> bool" where
  "device_pasid_enabled d \<longleftrightarrow> bit (dev_flags d) IDXD_FLAG_PASID_ENABLED"

definition device_user_pasid_enabled :: "idxd_device \<Rightarrow> bool" where
  "device_user_pasid_enabled d \<longleftrightarrow> bit (dev_flags d) IDXD_FLAG_USER_PASID_ENABLED"

definition wq_pasid_enabled :: "idxd_wq \<Rightarrow> idxd_device \<Rightarrow> bool" where
  "wq_pasid_enabled w d \<longleftrightarrow>
     is_idxd_wq_kernel w \<and> device_pasid_enabled d \<or>
     is_idxd_wq_user w \<and> device_user_pasid_enabled d"

definition wq_shared_supported :: "env \<Rightarrow> idxd_wq \<Rightarrow> idxd_device \<Rightarrow> bool" where
  "wq_shared_supported E w d \<longleftrightarrow> support_enqcmd E \<and> wq_pasid_enabled w d"

primrec portal_prot_code :: "idxd_portal_prot \<Rightarrow> nat" where
  "portal_prot_code IDXD_PORTAL_UNLIMITED = 0"
| "portal_prot_code IDXD_PORTAL_LIMITED = 1"

abbreviation (input) PAGE_SHIFT :: nat where "PAGE_SHIFT \<equiv> 12"
abbreviation (input) PAGE_SIZE :: nat where "PAGE_SIZE \<equiv> 4096"

definition idxd_get_wq_portal_offset :: "idxd_portal_prot \<Rightarrow> nat" where
  "idxd_get_wq_portal_offset prot = portal_prot_code prot * 0x1000"

definition idxd_get_wq_portal_full_offset :: "nat \<Rightarrow> idxd_portal_prot \<Rightarrow> nat" where
  "idxd_get_wq_portal_full_offset i prot =
     push_bit PAGE_SHIFT (i * 4) + idxd_get_wq_portal_offset prot"

text \<open>\<open>PAGE_SIZE - 1\<close>; a \<^verbatim>\<open>struct dsa_raw_desc\<close> is 64 bytes.\<close>

abbreviation (input) IDXD_PORTAL_MASK :: u32 where "IDXD_PORTAL_MASK \<equiv> 0xfff"

text \<open>The address used for the next submission, as an offset into the portal page.\<close>

definition idxd_wq_portal_addr :: "nat \<Rightarrow> idxd_device \<Rightarrow> u32 \<times> idxd_device" where
  "idxd_wq_portal_addr i d =
     (let ofs = portal_offset (wqs d ! i)
      in (ofs, upd_wq i (\<lambda>w. w\<lparr>portal_offset := (ofs + 64) AND IDXD_PORTAL_MASK\<rparr>) d))"

definition idxd_wq_get :: "idxd_wq \<Rightarrow> idxd_wq" where
  "idxd_wq_get w = w\<lparr>client_count := client_count w + 1\<rparr>"

definition idxd_wq_put :: "idxd_wq \<Rightarrow> idxd_wq" where
  "idxd_wq_put w = w\<lparr>client_count := client_count w - 1\<rparr>"

definition idxd_set_max_batch_size :: "idxd_type \<Rightarrow> u32 \<Rightarrow> idxd_device \<Rightarrow> idxd_device" where
  "idxd_set_max_batch_size t n d =
     (if t = IDXD_TYPE_IAX then d\<lparr>dev_max_batch_size := 0\<rparr> else d\<lparr>dev_max_batch_size := n\<rparr>)"

definition idxd_wq_set_max_batch_size :: "idxd_type \<Rightarrow> u32 \<Rightarrow> idxd_wq \<Rightarrow> idxd_wq" where
  "idxd_wq_set_max_batch_size t n w =
     (if t = IDXD_TYPE_IAX then w\<lparr>max_batch_size := 0\<rparr> else w\<lparr>max_batch_size := n\<rparr>)"

definition idxd_wqcfg_set_max_batch_shift :: "idxd_type \<Rightarrow> u32 \<Rightarrow> u32 list \<Rightarrow> u32 list" where
  "idxd_wqcfg_set_max_batch_shift t n c =
     (if t = IDXD_TYPE_IAX then list_upd 3 (setf wqcfg_dw3 ''max_batch_shift'' 0) c
      else list_upd 3 (setf wqcfg_dw3 ''max_batch_shift'' n) c)"

text \<open>\<open>strncmp(wq->driver_name, drv->name, strlen(drv->name)) == 0\<close>.\<close>

definition idxd_wq_driver_name_match :: "idxd_wq \<Rightarrow> string \<Rightarrow> bool" where
  "idxd_wq_driver_name_match w drv \<longleftrightarrow> take (length drv) (driver_name w) = drv"

text \<open>\<open>idxd_get_ie\<close>: entry 0 is the misc interrupt, entry \<open>i\<close> belongs to queue \<open>i - 1\<close>.\<close>

definition ie_to_wq :: "nat \<Rightarrow> nat" where
  "ie_to_wq i = i - 1"

subsection \<open>Laws of the accessors\<close>

text \<open>Which fields an accessor or an external call leaves alone.\<close>

lemma upd_wq_simps [simp]:
  "drv_data (upd_wq i f d) = drv_data d" "version (upd_wq i f d) = version d"
  "gen_cap (upd_wq i f d) = gen_cap d" "wq_cap (upd_wq i f d) = wq_cap d"
  "group_cap (upd_wq i f d) = group_cap d" "engine_cap (upd_wq i f d) = engine_cap d"
  "opcap (upd_wq i f d) = opcap d" "cmd_cap (upd_wq i f d) = cmd_cap d"
  "iaa_cap (upd_wq i f d) = iaa_cap d" "dev_state (upd_wq i f d) = dev_state d"
  "dev_flags (upd_wq i f d) = dev_flags d" "dev_id (upd_wq i f d) = dev_id d"
  "cmd_status (upd_wq i f d) = cmd_status d" "pasid (upd_wq i f d) = pasid d"
  "irq_cnt (upd_wq i f d) = irq_cnt d"
  "request_int_handles (upd_wq i f d) = request_int_handles d"
  "msix_perm_offset (upd_wq i f d) = msix_perm_offset d"
  "wqcfg_offset (upd_wq i f d) = wqcfg_offset d" "grpcfg_offset (upd_wq i f d) = grpcfg_offset d"
  "perfmon_offset (upd_wq i f d) = perfmon_offset d"
  "dev_max_xfer_bytes (upd_wq i f d) = dev_max_xfer_bytes d"
  "dev_max_batch_size (upd_wq i f d) = dev_max_batch_size d"
  "max_groups (upd_wq i f d) = max_groups d" "max_engines (upd_wq i f d) = max_engines d"
  "max_rdbufs (upd_wq i f d) = max_rdbufs d" "max_wqs (upd_wq i f d) = max_wqs d"
  "max_wq_size (upd_wq i f d) = max_wq_size d" "rdbuf_limit (upd_wq i f d) = rdbuf_limit d"
  "nr_rdbufs (upd_wq i f d) = nr_rdbufs d" "wqcfg_size (upd_wq i f d) = wqcfg_size d"
  "wq_enable_map (upd_wq i f d) = wq_enable_map d" "sw_err (upd_wq i f d) = sw_err d"
  "dev_evl (upd_wq i f d) = dev_evl d"
  "live_ptrs (upd_wq i f d) = live_ptrs d" "dev_pmu (upd_wq i f d) = dev_pmu d" "dev_opcap (upd_wq i f d) = dev_opcap d"
  "pasid_priv (upd_wq i f d) = pasid_priv d" "groups (upd_wq i f d) = groups d"
  "engines (upd_wq i f d) = engines d" "regs (upd_wq i f d) = regs d"
  "held (upd_wq i f d) = held d" "trace (upd_wq i f d) = trace d"
  by (simp_all add: upd_wq_def)

lemma wqs_upd_wq [simp]: "wqs (upd_wq i f d) = list_upd i f (wqs d)"
  by (simp add: upd_wq_def)

lemma upd_group_simps [simp]:
  "drv_data (upd_group i f d) = drv_data d" "version (upd_group i f d) = version d"
  "gen_cap (upd_group i f d) = gen_cap d" "wq_cap (upd_group i f d) = wq_cap d"
  "group_cap (upd_group i f d) = group_cap d" "engine_cap (upd_group i f d) = engine_cap d"
  "opcap (upd_group i f d) = opcap d" "cmd_cap (upd_group i f d) = cmd_cap d"
  "iaa_cap (upd_group i f d) = iaa_cap d" "dev_state (upd_group i f d) = dev_state d"
  "dev_flags (upd_group i f d) = dev_flags d" "dev_id (upd_group i f d) = dev_id d"
  "cmd_status (upd_group i f d) = cmd_status d" "pasid (upd_group i f d) = pasid d"
  "irq_cnt (upd_group i f d) = irq_cnt d"
  "request_int_handles (upd_group i f d) = request_int_handles d"
  "msix_perm_offset (upd_group i f d) = msix_perm_offset d"
  "wqcfg_offset (upd_group i f d) = wqcfg_offset d"
  "grpcfg_offset (upd_group i f d) = grpcfg_offset d"
  "perfmon_offset (upd_group i f d) = perfmon_offset d"
  "dev_max_xfer_bytes (upd_group i f d) = dev_max_xfer_bytes d"
  "dev_max_batch_size (upd_group i f d) = dev_max_batch_size d"
  "max_groups (upd_group i f d) = max_groups d" "max_engines (upd_group i f d) = max_engines d"
  "max_rdbufs (upd_group i f d) = max_rdbufs d" "max_wqs (upd_group i f d) = max_wqs d"
  "max_wq_size (upd_group i f d) = max_wq_size d" "rdbuf_limit (upd_group i f d) = rdbuf_limit d"
  "nr_rdbufs (upd_group i f d) = nr_rdbufs d" "wqcfg_size (upd_group i f d) = wqcfg_size d"
  "wq_enable_map (upd_group i f d) = wq_enable_map d" "sw_err (upd_group i f d) = sw_err d"
  "dev_evl (upd_group i f d) = dev_evl d"
  "live_ptrs (upd_group i f d) = live_ptrs d" "dev_pmu (upd_group i f d) = dev_pmu d" "dev_opcap (upd_group i f d) = dev_opcap d"
  "pasid_priv (upd_group i f d) = pasid_priv d" "wqs (upd_group i f d) = wqs d"
  "engines (upd_group i f d) = engines d" "regs (upd_group i f d) = regs d"
  "held (upd_group i f d) = held d" "trace (upd_group i f d) = trace d"
  by (simp_all add: upd_group_def)

lemma groups_upd_group [simp]: "groups (upd_group i f d) = list_upd i f (groups d)"
  by (simp add: upd_group_def)

lemma upd_engine_simps [simp]:
  "drv_data (upd_engine i f d) = drv_data d" "version (upd_engine i f d) = version d"
  "gen_cap (upd_engine i f d) = gen_cap d" "wq_cap (upd_engine i f d) = wq_cap d"
  "group_cap (upd_engine i f d) = group_cap d" "engine_cap (upd_engine i f d) = engine_cap d"
  "opcap (upd_engine i f d) = opcap d" "cmd_cap (upd_engine i f d) = cmd_cap d"
  "iaa_cap (upd_engine i f d) = iaa_cap d" "dev_state (upd_engine i f d) = dev_state d"
  "dev_flags (upd_engine i f d) = dev_flags d" "dev_id (upd_engine i f d) = dev_id d"
  "cmd_status (upd_engine i f d) = cmd_status d" "pasid (upd_engine i f d) = pasid d"
  "irq_cnt (upd_engine i f d) = irq_cnt d"
  "request_int_handles (upd_engine i f d) = request_int_handles d"
  "msix_perm_offset (upd_engine i f d) = msix_perm_offset d"
  "wqcfg_offset (upd_engine i f d) = wqcfg_offset d"
  "grpcfg_offset (upd_engine i f d) = grpcfg_offset d"
  "perfmon_offset (upd_engine i f d) = perfmon_offset d"
  "dev_max_xfer_bytes (upd_engine i f d) = dev_max_xfer_bytes d"
  "dev_max_batch_size (upd_engine i f d) = dev_max_batch_size d"
  "max_groups (upd_engine i f d) = max_groups d" "max_engines (upd_engine i f d) = max_engines d"
  "max_rdbufs (upd_engine i f d) = max_rdbufs d" "max_wqs (upd_engine i f d) = max_wqs d"
  "max_wq_size (upd_engine i f d) = max_wq_size d"
  "rdbuf_limit (upd_engine i f d) = rdbuf_limit d" "nr_rdbufs (upd_engine i f d) = nr_rdbufs d"
  "wqcfg_size (upd_engine i f d) = wqcfg_size d"
  "wq_enable_map (upd_engine i f d) = wq_enable_map d" "sw_err (upd_engine i f d) = sw_err d"
  "dev_evl (upd_engine i f d) = dev_evl d"
  "live_ptrs (upd_engine i f d) = live_ptrs d" "dev_pmu (upd_engine i f d) = dev_pmu d" "dev_opcap (upd_engine i f d) = dev_opcap d"
  "pasid_priv (upd_engine i f d) = pasid_priv d" "groups (upd_engine i f d) = groups d"
  "wqs (upd_engine i f d) = wqs d" "regs (upd_engine i f d) = regs d"
  "held (upd_engine i f d) = held d" "trace (upd_engine i f d) = trace d"
  by (simp_all add: upd_engine_def)

lemma engines_upd_engine [simp]: "engines (upd_engine i f d) = list_upd i f (engines d)"
  by (simp add: upd_engine_def)

lemma iowrite32_dev [simp]:
  "drv_data (iowrite32 E v off d) = drv_data d" "version (iowrite32 E v off d) = version d"
  "gen_cap (iowrite32 E v off d) = gen_cap d" "wq_cap (iowrite32 E v off d) = wq_cap d"
  "group_cap (iowrite32 E v off d) = group_cap d"
  "engine_cap (iowrite32 E v off d) = engine_cap d" "opcap (iowrite32 E v off d) = opcap d"
  "cmd_cap (iowrite32 E v off d) = cmd_cap d" "iaa_cap (iowrite32 E v off d) = iaa_cap d"
  "dev_state (iowrite32 E v off d) = dev_state d" "dev_flags (iowrite32 E v off d) = dev_flags d"
  "dev_id (iowrite32 E v off d) = dev_id d" "cmd_status (iowrite32 E v off d) = cmd_status d"
  "pasid (iowrite32 E v off d) = pasid d" "irq_cnt (iowrite32 E v off d) = irq_cnt d"
  "request_int_handles (iowrite32 E v off d) = request_int_handles d"
  "msix_perm_offset (iowrite32 E v off d) = msix_perm_offset d"
  "wqcfg_offset (iowrite32 E v off d) = wqcfg_offset d"
  "grpcfg_offset (iowrite32 E v off d) = grpcfg_offset d"
  "perfmon_offset (iowrite32 E v off d) = perfmon_offset d"
  "dev_max_xfer_bytes (iowrite32 E v off d) = dev_max_xfer_bytes d"
  "dev_max_batch_size (iowrite32 E v off d) = dev_max_batch_size d"
  "max_groups (iowrite32 E v off d) = max_groups d"
  "max_engines (iowrite32 E v off d) = max_engines d"
  "max_rdbufs (iowrite32 E v off d) = max_rdbufs d" "max_wqs (iowrite32 E v off d) = max_wqs d"
  "max_wq_size (iowrite32 E v off d) = max_wq_size d"
  "rdbuf_limit (iowrite32 E v off d) = rdbuf_limit d"
  "nr_rdbufs (iowrite32 E v off d) = nr_rdbufs d"
  "wqcfg_size (iowrite32 E v off d) = wqcfg_size d"
  "wq_enable_map (iowrite32 E v off d) = wq_enable_map d"
  "sw_err (iowrite32 E v off d) = sw_err d" "dev_evl (iowrite32 E v off d) = dev_evl d"
  "live_ptrs (iowrite32 E v off d) = live_ptrs d" "dev_pmu (iowrite32 E v off d) = dev_pmu d"
  "dev_opcap (iowrite32 E v off d) = dev_opcap d"
  "pasid_priv (iowrite32 E v off d) = pasid_priv d" "groups (iowrite32 E v off d) = groups d"
  "wqs (iowrite32 E v off d) = wqs d" "engines (iowrite32 E v off d) = engines d"
  "trace (iowrite32 E v off d) = trace d"
  by (simp_all add: iowrite32_def)

lemma iowrite64_dev [simp]:
  "drv_data (iowrite64 E v off d) = drv_data d" "version (iowrite64 E v off d) = version d"
  "gen_cap (iowrite64 E v off d) = gen_cap d" "wq_cap (iowrite64 E v off d) = wq_cap d"
  "group_cap (iowrite64 E v off d) = group_cap d"
  "engine_cap (iowrite64 E v off d) = engine_cap d" "opcap (iowrite64 E v off d) = opcap d"
  "cmd_cap (iowrite64 E v off d) = cmd_cap d" "iaa_cap (iowrite64 E v off d) = iaa_cap d"
  "dev_state (iowrite64 E v off d) = dev_state d" "dev_flags (iowrite64 E v off d) = dev_flags d"
  "dev_id (iowrite64 E v off d) = dev_id d" "cmd_status (iowrite64 E v off d) = cmd_status d"
  "pasid (iowrite64 E v off d) = pasid d" "irq_cnt (iowrite64 E v off d) = irq_cnt d"
  "request_int_handles (iowrite64 E v off d) = request_int_handles d"
  "msix_perm_offset (iowrite64 E v off d) = msix_perm_offset d"
  "wqcfg_offset (iowrite64 E v off d) = wqcfg_offset d"
  "grpcfg_offset (iowrite64 E v off d) = grpcfg_offset d"
  "perfmon_offset (iowrite64 E v off d) = perfmon_offset d"
  "dev_max_xfer_bytes (iowrite64 E v off d) = dev_max_xfer_bytes d"
  "dev_max_batch_size (iowrite64 E v off d) = dev_max_batch_size d"
  "max_groups (iowrite64 E v off d) = max_groups d"
  "max_engines (iowrite64 E v off d) = max_engines d"
  "max_rdbufs (iowrite64 E v off d) = max_rdbufs d" "max_wqs (iowrite64 E v off d) = max_wqs d"
  "max_wq_size (iowrite64 E v off d) = max_wq_size d"
  "rdbuf_limit (iowrite64 E v off d) = rdbuf_limit d"
  "nr_rdbufs (iowrite64 E v off d) = nr_rdbufs d"
  "wqcfg_size (iowrite64 E v off d) = wqcfg_size d"
  "wq_enable_map (iowrite64 E v off d) = wq_enable_map d"
  "sw_err (iowrite64 E v off d) = sw_err d" "dev_evl (iowrite64 E v off d) = dev_evl d"
  "live_ptrs (iowrite64 E v off d) = live_ptrs d" "dev_pmu (iowrite64 E v off d) = dev_pmu d"
  "dev_opcap (iowrite64 E v off d) = dev_opcap d"
  "pasid_priv (iowrite64 E v off d) = pasid_priv d" "groups (iowrite64 E v off d) = groups d"
  "wqs (iowrite64 E v off d) = wqs d" "engines (iowrite64 E v off d) = engines d"
  "trace (iowrite64 E v off d) = trace d"
  by (simp_all add: iowrite64_def)

lemma ext_dev [simp]:
  "drv_data (snd (ext E c d)) = drv_data d" "version (snd (ext E c d)) = version d"
  "gen_cap (snd (ext E c d)) = gen_cap d" "wq_cap (snd (ext E c d)) = wq_cap d"
  "group_cap (snd (ext E c d)) = group_cap d" "engine_cap (snd (ext E c d)) = engine_cap d"
  "opcap (snd (ext E c d)) = opcap d" "cmd_cap (snd (ext E c d)) = cmd_cap d"
  "iaa_cap (snd (ext E c d)) = iaa_cap d" "dev_state (snd (ext E c d)) = dev_state d"
  "dev_flags (snd (ext E c d)) = dev_flags d" "dev_id (snd (ext E c d)) = dev_id d"
  "cmd_status (snd (ext E c d)) = cmd_status d" "pasid (snd (ext E c d)) = pasid d"
  "irq_cnt (snd (ext E c d)) = irq_cnt d"
  "request_int_handles (snd (ext E c d)) = request_int_handles d"
  "msix_perm_offset (snd (ext E c d)) = msix_perm_offset d"
  "wqcfg_offset (snd (ext E c d)) = wqcfg_offset d"
  "grpcfg_offset (snd (ext E c d)) = grpcfg_offset d"
  "perfmon_offset (snd (ext E c d)) = perfmon_offset d"
  "dev_max_xfer_bytes (snd (ext E c d)) = dev_max_xfer_bytes d"
  "dev_max_batch_size (snd (ext E c d)) = dev_max_batch_size d"
  "max_groups (snd (ext E c d)) = max_groups d" "max_engines (snd (ext E c d)) = max_engines d"
  "max_rdbufs (snd (ext E c d)) = max_rdbufs d" "max_wqs (snd (ext E c d)) = max_wqs d"
  "max_wq_size (snd (ext E c d)) = max_wq_size d" "rdbuf_limit (snd (ext E c d)) = rdbuf_limit d"
  "nr_rdbufs (snd (ext E c d)) = nr_rdbufs d" "wqcfg_size (snd (ext E c d)) = wqcfg_size d"
  "wq_enable_map (snd (ext E c d)) = wq_enable_map d" "sw_err (snd (ext E c d)) = sw_err d"
  "dev_evl (snd (ext E c d)) = dev_evl d"
  "live_ptrs (snd (ext E c d)) = live_ptrs d" "dev_pmu (snd (ext E c d)) = dev_pmu d" "dev_opcap (snd (ext E c d)) = dev_opcap d"
  "pasid_priv (snd (ext E c d)) = pasid_priv d" "groups (snd (ext E c d)) = groups d"
  "wqs (snd (ext E c d)) = wqs d" "engines (snd (ext E c d)) = engines d"
  by (simp_all add: ext_def Let_def)

lemma acquire_dev [simp]:
  "drv_data (snd (acquire E x d)) = drv_data d" "version (snd (acquire E x d)) = version d"
  "gen_cap (snd (acquire E x d)) = gen_cap d" "wq_cap (snd (acquire E x d)) = wq_cap d"
  "group_cap (snd (acquire E x d)) = group_cap d"
  "engine_cap (snd (acquire E x d)) = engine_cap d" "opcap (snd (acquire E x d)) = opcap d"
  "cmd_cap (snd (acquire E x d)) = cmd_cap d" "iaa_cap (snd (acquire E x d)) = iaa_cap d"
  "dev_state (snd (acquire E x d)) = dev_state d" "dev_flags (snd (acquire E x d)) = dev_flags d"
  "dev_id (snd (acquire E x d)) = dev_id d" "cmd_status (snd (acquire E x d)) = cmd_status d"
  "pasid (snd (acquire E x d)) = pasid d" "irq_cnt (snd (acquire E x d)) = irq_cnt d"
  "request_int_handles (snd (acquire E x d)) = request_int_handles d"
  "msix_perm_offset (snd (acquire E x d)) = msix_perm_offset d"
  "wqcfg_offset (snd (acquire E x d)) = wqcfg_offset d"
  "grpcfg_offset (snd (acquire E x d)) = grpcfg_offset d"
  "perfmon_offset (snd (acquire E x d)) = perfmon_offset d"
  "dev_max_xfer_bytes (snd (acquire E x d)) = dev_max_xfer_bytes d"
  "dev_max_batch_size (snd (acquire E x d)) = dev_max_batch_size d"
  "max_groups (snd (acquire E x d)) = max_groups d"
  "max_engines (snd (acquire E x d)) = max_engines d"
  "max_rdbufs (snd (acquire E x d)) = max_rdbufs d" "max_wqs (snd (acquire E x d)) = max_wqs d"
  "max_wq_size (snd (acquire E x d)) = max_wq_size d"
  "rdbuf_limit (snd (acquire E x d)) = rdbuf_limit d"
  "nr_rdbufs (snd (acquire E x d)) = nr_rdbufs d"
  "wqcfg_size (snd (acquire E x d)) = wqcfg_size d"
  "wq_enable_map (snd (acquire E x d)) = wq_enable_map d"
  "sw_err (snd (acquire E x d)) = sw_err d" "dev_evl (snd (acquire E x d)) = dev_evl d"
  "live_ptrs (snd (acquire E x d)) = live_ptrs d" "dev_pmu (snd (acquire E x d)) = dev_pmu d"
  "dev_opcap (snd (acquire E x d)) = dev_opcap d"
  "pasid_priv (snd (acquire E x d)) = pasid_priv d" "groups (snd (acquire E x d)) = groups d"
  "wqs (snd (acquire E x d)) = wqs d" "engines (snd (acquire E x d)) = engines d"
  by (simp_all add: acquire_def ext_def Let_def)

lemma release_dev [simp]:
  "drv_data (release x d) = drv_data d" "version (release x d) = version d"
  "gen_cap (release x d) = gen_cap d" "wq_cap (release x d) = wq_cap d"
  "group_cap (release x d) = group_cap d" "engine_cap (release x d) = engine_cap d"
  "opcap (release x d) = opcap d" "cmd_cap (release x d) = cmd_cap d"
  "iaa_cap (release x d) = iaa_cap d" "dev_state (release x d) = dev_state d"
  "dev_flags (release x d) = dev_flags d" "dev_id (release x d) = dev_id d"
  "cmd_status (release x d) = cmd_status d" "pasid (release x d) = pasid d"
  "irq_cnt (release x d) = irq_cnt d" "request_int_handles (release x d) = request_int_handles d"
  "msix_perm_offset (release x d) = msix_perm_offset d"
  "wqcfg_offset (release x d) = wqcfg_offset d" "grpcfg_offset (release x d) = grpcfg_offset d"
  "perfmon_offset (release x d) = perfmon_offset d"
  "dev_max_xfer_bytes (release x d) = dev_max_xfer_bytes d"
  "dev_max_batch_size (release x d) = dev_max_batch_size d"
  "max_groups (release x d) = max_groups d" "max_engines (release x d) = max_engines d"
  "max_rdbufs (release x d) = max_rdbufs d" "max_wqs (release x d) = max_wqs d"
  "max_wq_size (release x d) = max_wq_size d" "rdbuf_limit (release x d) = rdbuf_limit d"
  "nr_rdbufs (release x d) = nr_rdbufs d" "wqcfg_size (release x d) = wqcfg_size d"
  "wq_enable_map (release x d) = wq_enable_map d" "sw_err (release x d) = sw_err d"
  "dev_evl (release x d) = dev_evl d"
  "live_ptrs (release x d) = live_ptrs d" "dev_pmu (release x d) = dev_pmu d" "dev_opcap (release x d) = dev_opcap d"
  "pasid_priv (release x d) = pasid_priv d" "groups (release x d) = groups d"
  "wqs (release x d) = wqs d" "engines (release x d) = engines d"
  by (simp_all add: release_def)

lemma hold_dev [simp]:
  "drv_data (hold x d) = drv_data d" "version (hold x d) = version d"
  "gen_cap (hold x d) = gen_cap d" "wq_cap (hold x d) = wq_cap d"
  "group_cap (hold x d) = group_cap d" "engine_cap (hold x d) = engine_cap d"
  "opcap (hold x d) = opcap d" "cmd_cap (hold x d) = cmd_cap d"
  "iaa_cap (hold x d) = iaa_cap d" "dev_state (hold x d) = dev_state d"
  "dev_flags (hold x d) = dev_flags d" "dev_id (hold x d) = dev_id d"
  "cmd_status (hold x d) = cmd_status d" "pasid (hold x d) = pasid d"
  "irq_cnt (hold x d) = irq_cnt d" "request_int_handles (hold x d) = request_int_handles d"
  "msix_perm_offset (hold x d) = msix_perm_offset d"
  "wqcfg_offset (hold x d) = wqcfg_offset d" "grpcfg_offset (hold x d) = grpcfg_offset d"
  "perfmon_offset (hold x d) = perfmon_offset d"
  "dev_max_xfer_bytes (hold x d) = dev_max_xfer_bytes d"
  "dev_max_batch_size (hold x d) = dev_max_batch_size d"
  "max_groups (hold x d) = max_groups d" "max_engines (hold x d) = max_engines d"
  "max_rdbufs (hold x d) = max_rdbufs d" "max_wqs (hold x d) = max_wqs d"
  "max_wq_size (hold x d) = max_wq_size d" "rdbuf_limit (hold x d) = rdbuf_limit d"
  "nr_rdbufs (hold x d) = nr_rdbufs d" "wqcfg_size (hold x d) = wqcfg_size d"
  "wq_enable_map (hold x d) = wq_enable_map d" "sw_err (hold x d) = sw_err d"
  "dev_evl (hold x d) = dev_evl d"
  "live_ptrs (hold x d) = live_ptrs d" "dev_pmu (hold x d) = dev_pmu d" "dev_opcap (hold x d) = dev_opcap d"
  "pasid_priv (hold x d) = pasid_priv d" "groups (hold x d) = groups d"
  "wqs (hold x d) = wqs d" "engines (hold x d) = engines d" "trace (hold x d) = trace d"
  by (simp_all add: hold_def)

lemma notify_dev [simp]:
  "drv_data (notify v d) = drv_data d" "version (notify v d) = version d"
  "gen_cap (notify v d) = gen_cap d" "wq_cap (notify v d) = wq_cap d"
  "group_cap (notify v d) = group_cap d" "engine_cap (notify v d) = engine_cap d"
  "opcap (notify v d) = opcap d" "cmd_cap (notify v d) = cmd_cap d"
  "iaa_cap (notify v d) = iaa_cap d" "dev_state (notify v d) = dev_state d"
  "dev_flags (notify v d) = dev_flags d" "dev_id (notify v d) = dev_id d"
  "cmd_status (notify v d) = cmd_status d" "pasid (notify v d) = pasid d"
  "irq_cnt (notify v d) = irq_cnt d" "request_int_handles (notify v d) = request_int_handles d"
  "msix_perm_offset (notify v d) = msix_perm_offset d"
  "wqcfg_offset (notify v d) = wqcfg_offset d" "grpcfg_offset (notify v d) = grpcfg_offset d"
  "perfmon_offset (notify v d) = perfmon_offset d"
  "dev_max_xfer_bytes (notify v d) = dev_max_xfer_bytes d"
  "dev_max_batch_size (notify v d) = dev_max_batch_size d"
  "max_groups (notify v d) = max_groups d" "max_engines (notify v d) = max_engines d"
  "max_rdbufs (notify v d) = max_rdbufs d" "max_wqs (notify v d) = max_wqs d"
  "max_wq_size (notify v d) = max_wq_size d" "rdbuf_limit (notify v d) = rdbuf_limit d"
  "nr_rdbufs (notify v d) = nr_rdbufs d" "wqcfg_size (notify v d) = wqcfg_size d"
  "wq_enable_map (notify v d) = wq_enable_map d" "sw_err (notify v d) = sw_err d"
  "dev_evl (notify v d) = dev_evl d"
  "live_ptrs (notify v d) = live_ptrs d" "dev_pmu (notify v d) = dev_pmu d" "dev_opcap (notify v d) = dev_opcap d"
  "pasid_priv (notify v d) = pasid_priv d" "groups (notify v d) = groups d"
  "wqs (notify v d) = wqs d" "engines (notify v d) = engines d"
  by (simp_all add: notify_def)

subsection \<open>Zeroed structs and a sample environment\<close>

text \<open>
  What \<open>kzalloc\<close> returns for each struct, and a small device and environment at which the
  theorems with hypotheses are evaluated: every kernel service succeeds, every register is
  plain storage and the device answers every command with the status register as it is.
\<close>

definition zero_hw_desc :: dsa_hw_desc where
  "zero_hw_desc =
     \<lparr>hd_pasid = 0, hd_priv = 0, hd_flags = 0, hd_opcode = 0, completion_addr = 0, src_addr = 0,
      dst_addr = 0, xfer_size = 0, hd_int_handle = 0\<rparr>"

definition zero_desc :: idxd_desc where
  "zero_desc =
     \<lparr>desc_hw = zero_hw_desc, compl_status = 0, compl_dma = 0, txd_cookie = 0, txd_flags = 0,
      txd_callback = False, desc_id = 0, desc_cpu = 0\<rparr>"

definition zero_irq_entry :: idxd_irq_entry where
  "zero_irq_entry =
     \<lparr>ie_id = 0, ie_vector = 0, pending_llist = [], work_list = [], int_handle = 0, ie_pasid = 0\<rparr>"

definition zero_group :: idxd_group where
  "zero_group =
     \<lparr>grpcfg_wqs = [0, 0, 0, 0], grpcfg_engines = 0, grpcfg_flags = 0, grp_id = 0,
      num_engines = 0, num_wqs = 0, use_rdbuf_limit = False, rdbufs_allowed = 0,
      rdbufs_reserved = 0, tc_a = 0, tc_b = 0, desc_progress_limit = 0,
      batch_progress_limit = 0\<rparr>"

definition zero_engine :: idxd_engine where
  "zero_engine = \<lparr>eng_id = 0, eng_group = None\<rparr>"

definition zero_wq :: idxd_wq where
  "zero_wq =
     \<lparr>wq_id = 0, portal = False, portal_offset = 0, enqcmds_retries = 0, ref_live = False,
      wq_dead = False, wq_resurrect = False, wq_cdev = None, wq_ie = zero_irq_entry,
      wq_type = IDXD_WQT_NONE, wq_group = None, client_count = 0, wq_size = 0, threshold = 0,
      priority = 0, wq_state = IDXD_WQ_DISABLED, wq_flags = 0, wqcfg = [], wq_opcap = None,
      num_descs = 0, hw_desc_ptrs = [], desc_ptrs = [], wq_descs = [], compls_size = 0,
      compls_addr = 0, sbq_alloc = {}, wq_name = [], max_xfer_bytes = 0, max_batch_size = 0,
      upasid_xa = (\<lambda>_. None), driver_name = []\<rparr>"

definition zero_device :: idxd_device where
  "zero_device =
     \<lparr>regs = (\<lambda>_. 0), held = (\<lambda>_. 0), trace = [],
      drv_data = \<lparr>drv_type = IDXD_TYPE_DSA, compl_size = 32\<rparr>, version = 0, gen_cap = 0,
      wq_cap = 0, group_cap = 0, engine_cap = 0, opcap = [0, 0, 0, 0], cmd_cap = 0, iaa_cap = 0,
      dev_state = IDXD_DEV_DISABLED, dev_flags = 0, dev_id = 0, cmd_status = HwStatus 0, pasid = 0,
      irq_cnt = 0, request_int_handles = False, msix_perm_offset = 0, wqcfg_offset = 0,
      grpcfg_offset = 0, perfmon_offset = 0, dev_max_xfer_bytes = 0, dev_max_batch_size = 0,
      max_groups = 0, max_engines = 0, max_rdbufs = 0, max_wqs = 0, max_wq_size = 0,
      rdbuf_limit = 0, nr_rdbufs = 0, wqcfg_size = 0, wq_enable_map = {}, sw_err = [0, 0, 0, 0],
      dev_evl = None, dev_pmu = None, live_ptrs = {}, dev_opcap = 0, pasid_priv = False, groups = [], wqs = [], engines = []\<rparr>"

definition sample_env :: env where
  "sample_env =
     \<lparr>ext_rc = (\<lambda>_ _. 0), io_write = (\<lambda>r off v. r(off := v)), cmd_wait = (\<lambda>r. r),
      kstrtol = (\<lambda>_ _. Some 0), kstrtoul = (\<lambda>_ _. Some 0), kstrtoint = (\<lambda>_ _. Some 0),
      kstrtouint = (\<lambda>_ _. Inr 0), kstrtobool = (\<lambda>_. Inr True), bitmap_parse = (\<lambda>_. Inr 0),
      sysfs_streq = (\<lambda>a b. a = b), strim = (\<lambda>s. s), ilog2 = (\<lambda>_. 0),
      roundup_pow_of_two = (\<lambda>x. x), irq_vector = int, cookie_done = (\<lambda>_. 0),
      cookie_assign = (\<lambda>c. c + 1), sbq_pick = (\<lambda>A n. map_option (\<lambda>k. (k, 0)) (find (\<lambda>k. k \<notin> A) [0..<n])),
      ida_pick = (\<lambda>A. if A = {} then 0 else Max A + 1),
      invalid_pasid = -1, comp_drain_evl = 0x20, comp_batch_evl_err = 0x21,
      tc_override = False, support_enqcmd = True, svm_configured = True, sva_wanted = True\<rparr>"

text \<open>One group, one engine and two queues, queue 0 running.\<close>

definition sample_dev :: idxd_device where
  "sample_dev = zero_device
     \<lparr>dev_state := IDXD_DEV_ENABLED, dev_flags := 1, max_groups := 1, max_engines := 1, max_wqs := 2,
      regs := (\<lambda>_. 0)(IDXD_GENSTATS_OFFSET := 1), wqcfg_size := 32, wq_enable_map := {0},
      wqs := [zero_wq\<lparr>wq_state := IDXD_WQ_ENABLED, wq_group := Some 0\<rparr>, zero_wq\<lparr>wq_id := 1\<rparr>],
      groups := [zero_group], engines := [zero_engine]\<rparr>"

lemmas zero_defs = zero_device_def zero_wq_def zero_group_def zero_engine_def zero_irq_entry_def
  zero_desc_def zero_hw_desc_def

lemma sample_wf: "wf_dev sample_dev"
  by (simp add: sample_dev_def wf_dev_def zero_defs upt_rec)

end
