(* ===== verification/Command.thy ===== *)
theory Command
  imports Model
begin

text \<open>
  Device and work-queue control of \<^verbatim>\<open>idxd/device.c\<close>: interrupt masks, the command
  register protocol, enabling and disabling work queues and the device, portals, PASIDs,
  interrupt handles and the clearing of driver state. The wait for the device (the completion
  interrupt of \<^verbatim>\<open>idxd_cmd_exec\<close>, the polling loops on the status register) is the environment's
  \<^const>\<open>cmd_wait\<close>: the registers at the moment the wait ends. A spinlock or mutex section is
  executed as one step.
\<close>

subsection \<open>Interrupt control bits\<close>

definition idxd_unmask_error_interrupts :: "env \<Rightarrow> idxd_device \<Rightarrow> idxd_device" where
  "idxd_unmask_error_interrupts E d =
     (let g = ioread32 IDXD_GENCTRL_OFFSET d;
          g = setf genctrl_reg ''softerr_int_en'' 1 g;
          g = setf genctrl_reg ''halt_int_en'' 1 g
      in iowrite32 E g IDXD_GENCTRL_OFFSET d)"

definition idxd_mask_error_interrupts :: "env \<Rightarrow> idxd_device \<Rightarrow> idxd_device" where
  "idxd_mask_error_interrupts E d =
     (let g = ioread32 IDXD_GENCTRL_OFFSET d;
          g = setf genctrl_reg ''softerr_int_en'' 0 g;
          g = setf genctrl_reg ''halt_int_en'' 0 g
      in iowrite32 E g IDXD_GENCTRL_OFFSET d)"

subsection \<open>Commands\<close>

definition idxd_is_enabled :: "idxd_device \<Rightarrow> bool" where
  "idxd_is_enabled d \<longleftrightarrow>
     getf gensts_reg ''state'' (ioread32 IDXD_GENSTATS_OFFSET d)
       = devstate_code IDXD_DEVICE_STATE_ENABLED"

definition idxd_device_is_halted :: "idxd_device \<Rightarrow> bool" where
  "idxd_device_is_halted d \<longleftrightarrow>
     getf gensts_reg ''state'' (ioread32 IDXD_GENSTATS_OFFSET d)
       = devstate_code IDXD_DEVICE_STATE_HALT"

text \<open>The command words: with the interrupt request of \<^verbatim>\<open>idxd_cmd_exec\<close>, and without it.\<close>

definition cmd_word :: "idxd_cmd \<Rightarrow> u32 \<Rightarrow> u32" where
  "cmd_word c operand =
     setf idxd_command_reg ''int_req'' 1
       (setf idxd_command_reg ''operand'' operand
         (setf idxd_command_reg ''cmd'' (cmd_code c) 0))"

definition cmd_word_polled :: "idxd_cmd \<Rightarrow> u32 \<Rightarrow> u32" where
  "cmd_word_polled c operand =
     setf idxd_command_reg ''operand'' operand (setf idxd_command_reg ''cmd'' (cmd_code c) 0)"

definition idxd_device_init_reset :: "env \<Rightarrow> idxd_device \<Rightarrow> int \<times> idxd_device" where
  "idxd_device_init_reset E d =
     (if idxd_device_is_halted d then (- ENXIO, d)
      else
        let d = iowrite32 E (setf idxd_command_reg ''cmd'' (cmd_code IDXD_CMD_RESET_DEVICE) 0)
                  IDXD_CMD_OFFSET d;
            d = d\<lparr>regs := cmd_wait E (regs d)\<rparr>
        in (0, d))"

text \<open>
  \<^verbatim>\<open>wait_event_lock_irq\<close> returns with the running bit clear (another thread's command has
  ended), so the function sets it, submits, sleeps until the completion, and clears it.
\<close>

definition idxd_cmd_exec :: "env \<Rightarrow> idxd_cmd \<Rightarrow> u32 \<Rightarrow> idxd_device \<Rightarrow> u32 \<times> idxd_device" where
  "idxd_cmd_exec E c operand d =
     (if idxd_device_is_halted d then (cmdsts_code IDXD_CMDSTS_HW_ERR, d)
      else
        let d = d\<lparr>cmd_status := HwStatus 0, dev_flags := set_bit IDXD_FLAG_CMD_RUNNING (dev_flags d)\<rparr>;
            d = iowrite32 E (cmd_word c operand) IDXD_CMD_OFFSET d;
            d = d\<lparr>regs := cmd_wait E (regs d)\<rparr>;
            stat = ioread32 IDXD_CMDSTS_OFFSET d;
            d = d\<lparr>cmd_status := HwStatus (stat AND 0xff),
                  dev_flags := unset_bit IDXD_FLAG_CMD_RUNNING (dev_flags d)\<rparr>
        in (stat, d))"

subsection \<open>Work-queue state\<close>

definition wq_operand :: "nat \<Rightarrow> u32" where
  "wq_operand i = push_bit (i mod 16) 1 OR push_bit 16 (word_of_nat (i div 16))"

definition idxd_wq_disable_cleanup :: "nat \<Rightarrow> idxd_device \<Rightarrow> idxd_device" where
  "idxd_wq_disable_cleanup i d =
     upd_wq i (\<lambda>w.
       let w = w\<lparr>wq_state := IDXD_WQ_DISABLED, wqcfg := map (\<lambda>_. 0) (wqcfg w),
                 wq_type := IDXD_WQT_NONE, threshold := 0, priority := 0,
                 enqcmds_retries := IDXD_ENQCMDS_RETRIES, wq_flags := 0, wq_name := [],
                 max_xfer_bytes := WQ_DEFAULT_MAX_XFER\<rparr>;
           w = idxd_wq_set_max_batch_size (drv_type (drv_data d)) WQ_DEFAULT_MAX_BATCH w
       in case wq_opcap w of None \<Rightarrow> w | Some _ \<Rightarrow> w\<lparr>wq_opcap := Some (dev_opcap d)\<rparr>) d"

definition idxd_wq_device_reset_cleanup :: "nat \<Rightarrow> idxd_device \<Rightarrow> idxd_device" where
  "idxd_wq_device_reset_cleanup i d = upd_wq i (\<lambda>w. w\<lparr>wq_size := 0, wq_group := None\<rparr>) d"

definition idxd_wq_enable :: "env \<Rightarrow> nat \<Rightarrow> idxd_device \<Rightarrow> int \<times> idxd_device" where
  "idxd_wq_enable E i d =
     (let w = wqs d ! i in
      if wq_state w = IDXD_WQ_ENABLED then (0, d)
      else
        let (status, d) = idxd_cmd_exec E IDXD_CMD_ENABLE_WQ (word_of_nat (wq_id w)) d
        in if status \<noteq> cmdsts_code IDXD_CMDSTS_SUCCESS \<and>
              status \<noteq> cmdsts_code IDXD_CMDSTS_ERR_WQ_ENABLED
           then (- ENXIO, d)
           else
             let d = upd_wq i (\<lambda>w. w\<lparr>wq_state := IDXD_WQ_ENABLED\<rparr>) d;
                 d = d\<lparr>wq_enable_map := insert (wq_id w) (wq_enable_map d)\<rparr>
             in (0, d))"

definition idxd_wq_disable :: "env \<Rightarrow> nat \<Rightarrow> bool \<Rightarrow> idxd_device \<Rightarrow> int \<times> idxd_device" where
  "idxd_wq_disable E i reset_config d =
     (let w = wqs d ! i in
      if wq_state w \<noteq> IDXD_WQ_ENABLED then (0, d)
      else
        let (status, d) = idxd_cmd_exec E IDXD_CMD_DISABLE_WQ (wq_operand (wq_id w)) d
        in if status \<noteq> cmdsts_code IDXD_CMDSTS_SUCCESS then (- ENXIO, d)
           else
             let d = (if reset_config then idxd_wq_disable_cleanup i d else d);
                 d = d\<lparr>wq_enable_map := wq_enable_map d - {wq_id w}\<rparr>;
                 d = upd_wq i (\<lambda>w. w\<lparr>wq_state := IDXD_WQ_DISABLED\<rparr>) d
             in (0, d))"

definition idxd_wq_drain :: "env \<Rightarrow> nat \<Rightarrow> idxd_device \<Rightarrow> idxd_device" where
  "idxd_wq_drain E i d =
     (let w = wqs d ! i in
      if wq_state w \<noteq> IDXD_WQ_ENABLED then d
      else snd (idxd_cmd_exec E IDXD_CMD_DRAIN_WQ (wq_operand (wq_id w)) d))"

definition idxd_wq_reset :: "env \<Rightarrow> nat \<Rightarrow> idxd_device \<Rightarrow> idxd_device" where
  "idxd_wq_reset E i d =
     (let w = wqs d ! i in
      if wq_state w \<noteq> IDXD_WQ_ENABLED then d
      else
        let d = snd (idxd_cmd_exec E IDXD_CMD_RESET_WQ (wq_operand (wq_id w)) d)
        in idxd_wq_disable_cleanup i d)"

definition idxd_wq_map_portal :: "env \<Rightarrow> nat \<Rightarrow> idxd_device \<Rightarrow> int \<times> idxd_device" where
  "idxd_wq_map_portal E i d =
     (let (rc, d) = acquire E (W i Portal) d in
      if rc < 0 then (- ENOMEM, upd_wq i (\<lambda>w. w\<lparr>portal := False\<rparr>) d)
      else (0, upd_wq i (\<lambda>w. w\<lparr>portal := True\<rparr>) d))"

definition idxd_wq_unmap_portal :: "nat \<Rightarrow> idxd_device \<Rightarrow> idxd_device" where
  "idxd_wq_unmap_portal i d =
     upd_wq i (\<lambda>w. w\<lparr>portal := False, portal_offset := 0\<rparr>) (release (W i Portal) d)"

definition idxd_wqs_unmap_portal :: "idxd_device \<Rightarrow> idxd_device" where
  "idxd_wqs_unmap_portal d =
     fold (\<lambda>i d. if portal (wqs d ! i) then idxd_wq_unmap_portal i d else d) [0..<max_wqs d] d"

subsection \<open>PASIDs of a work queue\<close>

definition pasid_offset :: "nat \<Rightarrow> idxd_device \<Rightarrow> nat" where
  "pasid_offset i d = WQCFG_OFFSET (wqcfg_offset d) (wqcfg_size d) (wq_id (wqs d ! i)) WQCFG_PASID_IDX"

definition idxd_wq_set_pasid_locked :: "env \<Rightarrow> nat \<Rightarrow> u32 \<Rightarrow> idxd_device \<Rightarrow> idxd_device" where
  "idxd_wq_set_pasid_locked E i p d =
     (let offset = pasid_offset i d;
          c = ioread32 offset d;
          c = setf wqcfg_dw2 ''pasid_en'' 1 c;
          c = setf wqcfg_dw2 ''pasid'' p c;
          d = upd_wq i (\<lambda>w. w\<lparr>wqcfg := (wqcfg w)[WQCFG_PASID_IDX := c]\<rparr>) d
      in iowrite32 E c offset d)"

definition idxd_wq_set_pasid :: "env \<Rightarrow> nat \<Rightarrow> u32 \<Rightarrow> idxd_device \<Rightarrow> int \<times> idxd_device" where
  "idxd_wq_set_pasid E i p d =
     (let (rc, d) = idxd_wq_disable E i False d in
      if rc < 0 then (rc, d)
      else
        let d = idxd_wq_set_pasid_locked E i p d;
            (rc, d) = idxd_wq_enable E i d
        in if rc < 0 then (rc, d) else (0, d))"

definition idxd_wq_disable_pasid :: "env \<Rightarrow> nat \<Rightarrow> idxd_device \<Rightarrow> int \<times> idxd_device" where
  "idxd_wq_disable_pasid E i d =
     (let (rc, d) = idxd_wq_disable E i False d in
      if rc < 0 then (rc, d)
      else
        let offset = pasid_offset i d;
            c = ioread32 offset d;
            c = setf wqcfg_dw2 ''pasid_en'' 0 c;
            c = setf wqcfg_dw2 ''pasid'' 0 c;
            d = iowrite32 E c offset d;
            (rc, d) = idxd_wq_enable E i d
        in if rc < 0 then (rc, d) else (0, d))"

subsection \<open>The percpu reference of a work queue\<close>

definition idxd_wq_ref_release :: "nat \<Rightarrow> idxd_device \<Rightarrow> idxd_device" where
  "idxd_wq_ref_release i d = upd_wq i (\<lambda>w. w\<lparr>wq_dead := True\<rparr>) d"

definition idxd_wq_init_percpu_ref :: "env \<Rightarrow> nat \<Rightarrow> idxd_device \<Rightarrow> int \<times> idxd_device" where
  "idxd_wq_init_percpu_ref E i d =
     (let (rc, d) = acquire E (W i Percpu) d in
      if rc < 0 then (rc, d)
      else (0, upd_wq i (\<lambda>w. w\<lparr>ref_live := True, wq_dead := False, wq_resurrect := False\<rparr>) d))"

text \<open>
  Killing the reference lets the last submitter run \<^verbatim>\<open>idxd_wq_ref_release\<close>; the wait for
  \<^verbatim>\<open>wq_dead\<close> ends when it has, and takes the completion back.
\<close>

definition idxd_wq_quiesce_locked :: "nat \<Rightarrow> idxd_device \<Rightarrow> idxd_device" where
  "idxd_wq_quiesce_locked i d =
     (let d = upd_wq i (\<lambda>w. w\<lparr>wq_resurrect := False\<rparr>) d;
          d = idxd_wq_ref_release i (upd_wq i (\<lambda>w. w\<lparr>ref_live := False\<rparr>) d);
          d = upd_wq i (\<lambda>w. w\<lparr>wq_resurrect := True\<rparr>) d
      in upd_wq i (\<lambda>w. w\<lparr>wq_dead := False\<rparr>) d)"

definition idxd_wq_quiesce :: "nat \<Rightarrow> idxd_device \<Rightarrow> idxd_device" where
  "idxd_wq_quiesce i d = idxd_wq_quiesce_locked i d"

definition idxd_wqs_quiesce :: "idxd_device \<Rightarrow> idxd_device" where
  "idxd_wqs_quiesce d =
     fold (\<lambda>i d. if wq_state (wqs d ! i) = IDXD_WQ_ENABLED \<and> wq_type (wqs d ! i) = IDXD_WQT_KERNEL
                 then idxd_wq_quiesce i d else d) [0..<max_wqs d] d"

subsection \<open>Clearing the driver's state\<close>

definition idxd_engines_clear_state :: "idxd_device \<Rightarrow> idxd_device" where
  "idxd_engines_clear_state d =
     fold (\<lambda>i. upd_engine i (\<lambda>e. e\<lparr>eng_group := None\<rparr>)) [0..<max_engines d] d"

definition clear_group :: "env \<Rightarrow> u32 \<Rightarrow> int \<Rightarrow> idxd_group \<Rightarrow> idxd_group" where
  "clear_group E ver rdbufs g =
     (let g = g\<lparr>grpcfg_wqs := replicate 4 0, grpcfg_engines := 0, grpcfg_flags := 0,
                num_engines := 0, num_wqs := 0, use_rdbuf_limit := False,
                rdbufs_allowed := word_of_int rdbufs, rdbufs_reserved := 0\<rparr>;
          g = (if ver \<le> DEVICE_VERSION_2 \<and> \<not> tc_override E then g\<lparr>tc_a := 1, tc_b := 1\<rparr>
               else g\<lparr>tc_a := -1, tc_b := -1\<rparr>)
      in g\<lparr>desc_progress_limit := 0, batch_progress_limit := 0\<rparr>)"

definition idxd_groups_clear_state :: "env \<Rightarrow> idxd_device \<Rightarrow> idxd_device" where
  "idxd_groups_clear_state E d =
     fold (\<lambda>i. upd_group i (clear_group E (version d) (max_rdbufs d))) [0..<max_groups d] d"

definition idxd_device_wqs_clear_state :: "idxd_device \<Rightarrow> idxd_device" where
  "idxd_device_wqs_clear_state d =
     fold (\<lambda>i d. idxd_wq_device_reset_cleanup i (idxd_wq_disable_cleanup i d)) [0..<max_wqs d] d"

definition idxd_device_clear_state :: "env \<Rightarrow> idxd_device \<Rightarrow> idxd_device" where
  "idxd_device_clear_state E d =
     (let d = (if configurable d
               then let d = idxd_device_wqs_clear_state d;
                        d = idxd_groups_clear_state E d
                    in idxd_engines_clear_state d
               else d)
      in d\<lparr>dev_state := IDXD_DEV_DISABLED\<rparr>)"

subsection \<open>Device control\<close>

definition idxd_device_enable :: "env \<Rightarrow> idxd_device \<Rightarrow> int \<times> idxd_device" where
  "idxd_device_enable E d =
     (if idxd_is_enabled d then (- ENXIO, d)
      else
        let (status, d) = idxd_cmd_exec E IDXD_CMD_ENABLE_DEVICE 0 d
        in if status \<noteq> cmdsts_code IDXD_CMDSTS_SUCCESS \<and>
              status \<noteq> cmdsts_code IDXD_CMDSTS_ERR_DEV_ENABLED
           then (- ENXIO, d)
           else (0, d\<lparr>dev_state := IDXD_DEV_ENABLED\<rparr>))"

definition idxd_device_disable :: "env \<Rightarrow> idxd_device \<Rightarrow> int \<times> idxd_device" where
  "idxd_device_disable E d =
     (if \<not> idxd_is_enabled d then (0, d)
      else
        let (status, d) = idxd_cmd_exec E IDXD_CMD_DISABLE_DEVICE 0 d
        in if status \<noteq> cmdsts_code IDXD_CMDSTS_SUCCESS \<and>
              \<not> (status AND cmdsts_code IDXD_CMDSTS_ERR_DIS_DEV_EN \<noteq> 0)
           then (- ENXIO, d)
           else (0, idxd_device_clear_state E d))"

definition idxd_device_reset :: "env \<Rightarrow> idxd_device \<Rightarrow> idxd_device" where
  "idxd_device_reset E d =
     (let d = snd (idxd_cmd_exec E IDXD_CMD_RESET_DEVICE 0 d);
          d = idxd_device_clear_state E d
      in idxd_unmask_error_interrupts E d)"

definition idxd_device_drain_pasid :: "env \<Rightarrow> u32 \<Rightarrow> idxd_device \<Rightarrow> idxd_device" where
  "idxd_device_drain_pasid E p d = snd (idxd_cmd_exec E IDXD_CMD_DRAIN_PASID p d)"

definition cmd_supported :: "idxd_cmd \<Rightarrow> idxd_device \<Rightarrow> bool" where
  "cmd_supported c d \<longleftrightarrow> bit (cmd_cap d) (unat (cmd_code c))"

definition int_handle_operand :: "int \<Rightarrow> idxd_interrupt_type \<Rightarrow> u32" where
  "int_handle_operand idx irq_type =
     (let operand = word_of_int idx AND 0xffff
      in if irq_type = IDXD_IRQ_IMS then operand OR CMD_INT_HANDLE_IMS else operand)"

text \<open>The result is the return code and the new handle; the handle is written on success only.\<close>

definition idxd_device_request_int_handle ::
  "env \<Rightarrow> int \<Rightarrow> idxd_interrupt_type \<Rightarrow> idxd_device \<Rightarrow> (int \<times> int) \<times> idxd_device" where
  "idxd_device_request_int_handle E idx irq_type d =
     (if \<not> cmd_supported IDXD_CMD_REQUEST_INT_HANDLE d then ((- EOPNOTSUPP, 0), d)
      else
        let (status, d) =
              idxd_cmd_exec E IDXD_CMD_REQUEST_INT_HANDLE (int_handle_operand idx irq_type) d
        in if status AND IDXD_CMDSTS_ERR_MASK \<noteq> cmdsts_code IDXD_CMDSTS_SUCCESS
           then ((- ENXIO, 0), d)
           else ((0, uint (drop_bit IDXD_CMDSTS_RES_SHIFT status AND 0xffff)), d))"

definition idxd_device_release_int_handle ::
  "env \<Rightarrow> int \<Rightarrow> idxd_interrupt_type \<Rightarrow> idxd_device \<Rightarrow> int \<times> idxd_device" where
  "idxd_device_release_int_handle E handle irq_type d =
     (if \<not> cmd_supported IDXD_CMD_RELEASE_INT_HANDLE d then (- EOPNOTSUPP, d)
      else
        let d = iowrite32 E
                  (cmd_word_polled IDXD_CMD_RELEASE_INT_HANDLE (int_handle_operand handle irq_type))
                  IDXD_CMD_OFFSET d;
            d = d\<lparr>regs := cmd_wait E (regs d)\<rparr>;
            status = ioread32 IDXD_CMDSTS_OFFSET d
        in if status AND IDXD_CMDSTS_ERR_MASK \<noteq> cmdsts_code IDXD_CMDSTS_SUCCESS
           then (- ENXIO, d) else (0, d))"

subsection \<open>The command register\<close>

lemma members_cmdreg [simp]:
  "members idxd_command_reg = {''operand'', ''cmd'', ''rsvd'', ''int_req''}"
  by (auto simp: members_def idxd_command_reg_def)

lemma fld_len_cmdreg [simp]:
  "fld_len idxd_command_reg ''operand'' = 20" "fld_len idxd_command_reg ''cmd'' = 5"
  "fld_len idxd_command_reg ''int_req'' = 1" "fld_len idxd_command_reg ''rsvd'' = 6"
  by (simp_all add: idxd_command_reg_def)

lemma getf_0 [simp]: "getf L n 0 = 0"
  by (simp add: getf_def)

lemma take_bit_cmd_code: "take_bit 5 (cmd_code c) = cmd_code c"
  by (cases c) (simp_all add: take_bit_eq_mod)

lemma cmd_exec_frame [simp]:
  "drv_data (snd (idxd_cmd_exec E c p d)) = drv_data d"
  "version (snd (idxd_cmd_exec E c p d)) = version d"
  "gen_cap (snd (idxd_cmd_exec E c p d)) = gen_cap d"
  "wq_cap (snd (idxd_cmd_exec E c p d)) = wq_cap d"
  "group_cap (snd (idxd_cmd_exec E c p d)) = group_cap d"
  "engine_cap (snd (idxd_cmd_exec E c p d)) = engine_cap d"
  "opcap (snd (idxd_cmd_exec E c p d)) = opcap d"
  "cmd_cap (snd (idxd_cmd_exec E c p d)) = cmd_cap d"
  "iaa_cap (snd (idxd_cmd_exec E c p d)) = iaa_cap d"
  "dev_state (snd (idxd_cmd_exec E c p d)) = dev_state d"
  "dev_id (snd (idxd_cmd_exec E c p d)) = dev_id d"
  "pasid (snd (idxd_cmd_exec E c p d)) = pasid d"
  "irq_cnt (snd (idxd_cmd_exec E c p d)) = irq_cnt d"
  "request_int_handles (snd (idxd_cmd_exec E c p d)) = request_int_handles d"
  "msix_perm_offset (snd (idxd_cmd_exec E c p d)) = msix_perm_offset d"
  "wqcfg_offset (snd (idxd_cmd_exec E c p d)) = wqcfg_offset d"
  "grpcfg_offset (snd (idxd_cmd_exec E c p d)) = grpcfg_offset d"
  "perfmon_offset (snd (idxd_cmd_exec E c p d)) = perfmon_offset d"
  "dev_max_xfer_bytes (snd (idxd_cmd_exec E c p d)) = dev_max_xfer_bytes d"
  "dev_max_batch_size (snd (idxd_cmd_exec E c p d)) = dev_max_batch_size d"
  "max_groups (snd (idxd_cmd_exec E c p d)) = max_groups d"
  "max_engines (snd (idxd_cmd_exec E c p d)) = max_engines d"
  "max_rdbufs (snd (idxd_cmd_exec E c p d)) = max_rdbufs d"
  "max_wqs (snd (idxd_cmd_exec E c p d)) = max_wqs d"
  "max_wq_size (snd (idxd_cmd_exec E c p d)) = max_wq_size d"
  "rdbuf_limit (snd (idxd_cmd_exec E c p d)) = rdbuf_limit d"
  "nr_rdbufs (snd (idxd_cmd_exec E c p d)) = nr_rdbufs d"
  "wqcfg_size (snd (idxd_cmd_exec E c p d)) = wqcfg_size d"
  "wq_enable_map (snd (idxd_cmd_exec E c p d)) = wq_enable_map d"
  "sw_err (snd (idxd_cmd_exec E c p d)) = sw_err d"
  "dev_evl (snd (idxd_cmd_exec E c p d)) = dev_evl d"
  "live_ptrs (snd (idxd_cmd_exec E c p d)) = live_ptrs d" "dev_pmu (snd (idxd_cmd_exec E c p d)) = dev_pmu d"
  "dev_opcap (snd (idxd_cmd_exec E c p d)) = dev_opcap d"
  "pasid_priv (snd (idxd_cmd_exec E c p d)) = pasid_priv d"
  "groups (snd (idxd_cmd_exec E c p d)) = groups d" "wqs (snd (idxd_cmd_exec E c p d)) = wqs d"
  "engines (snd (idxd_cmd_exec E c p d)) = engines d"
  "held (snd (idxd_cmd_exec E c p d)) = held d" "trace (snd (idxd_cmd_exec E c p d)) = trace d"
  by (simp_all add: idxd_cmd_exec_def Let_def)

lemma cmd_exec_flags:
  "bit (dev_flags (snd (idxd_cmd_exec E c p d))) n \<longleftrightarrow>
     (if idxd_device_is_halted d then bit (dev_flags d) n
      else n \<noteq> IDXD_FLAG_CMD_RUNNING \<and> bit (dev_flags d) n)"
  by (auto simp: idxd_cmd_exec_def Let_def bit_simps dest: bit_imp_le_length)

lemma cmd_exec_status [simp]:
  "idxd_device_is_halted d \<Longrightarrow> idxd_cmd_exec E c p d = (cmdsts_code IDXD_CMDSTS_HW_ERR, d)"
  by (simp add: idxd_cmd_exec_def)

lemma configurable_cmd_exec [simp]:
  "configurable (snd (idxd_cmd_exec E c p d)) = configurable d"
  by (simp add: configurable_def cmd_exec_flags)

lemma pasid_flags_cmd_exec [simp]:
  "device_pasid_enabled (snd (idxd_cmd_exec E c p d)) = device_pasid_enabled d"
  "device_user_pasid_enabled (snd (idxd_cmd_exec E c p d)) = device_user_pasid_enabled d"
  by (simp_all add: device_pasid_enabled_def device_user_pasid_enabled_def cmd_exec_flags)

subsection \<open>Clearing loops as maps\<close>

lemma fold_upd_engine:
  "fold (\<lambda>i. upd_engine i f) is d = d\<lparr>engines := fold (\<lambda>i. list_upd i f) is (engines d)\<rparr>"
  by (induction "is" arbitrary: d) (simp_all add: upd_engine_def)

lemma fold_upd_group:
  "fold (\<lambda>i. upd_group i f) is d = d\<lparr>groups := fold (\<lambda>i. list_upd i f) is (groups d)\<rparr>"
  by (induction "is" arbitrary: d) (simp_all add: upd_group_def)

lemma fold_upd_wq:
  "fold (\<lambda>i. upd_wq i f) is d = d\<lparr>wqs := fold (\<lambda>i. list_upd i f) is (wqs d)\<rparr>"
  by (induction "is" arbitrary: d) (simp_all add: upd_wq_def)

lemma engines_clear_state:
  "length (engines d) = max_engines d \<Longrightarrow>
     idxd_engines_clear_state d = d\<lparr>engines := map (\<lambda>e. e\<lparr>eng_group := None\<rparr>) (engines d)\<rparr>"
  by (simp add: idxd_engines_clear_state_def fold_upd_engine fold_list_upd_len)

lemma groups_clear_state:
  "length (groups d) = max_groups d \<Longrightarrow>
     idxd_groups_clear_state E d =
       d\<lparr>groups := map (clear_group E (version d) (max_rdbufs d)) (groups d)\<rparr>"
  by (simp add: idxd_groups_clear_state_def fold_upd_group fold_list_upd_len)

text \<open>One queue after \<^verbatim>\<open>idxd_wq_disable_cleanup\<close>, and after the device reset's cleanup as well.\<close>

definition cleaned_wq :: "idxd_type \<Rightarrow> 256 word \<Rightarrow> idxd_wq \<Rightarrow> idxd_wq" where
  "cleaned_wq t cap w =
     w\<lparr>wq_state := IDXD_WQ_DISABLED, wqcfg := map (\<lambda>_. 0) (wqcfg w), wq_type := IDXD_WQT_NONE,
       threshold := 0, priority := 0, enqcmds_retries := IDXD_ENQCMDS_RETRIES, wq_flags := 0,
       wq_name := [], max_xfer_bytes := WQ_DEFAULT_MAX_XFER,
       max_batch_size := (if t = IDXD_TYPE_IAX then 0 else WQ_DEFAULT_MAX_BATCH),
       wq_opcap := map_option (\<lambda>_. cap) (wq_opcap w)\<rparr>"

lemma disable_cleanup_eq:
  "idxd_wq_disable_cleanup i d = upd_wq i (cleaned_wq (drv_type (drv_data d)) (dev_opcap d)) d"
proof -
  have "(\<lambda>w. let w = w\<lparr>wq_state := IDXD_WQ_DISABLED, wqcfg := map (\<lambda>_. 0) (wqcfg w),
                 wq_type := IDXD_WQT_NONE, threshold := 0, priority := 0,
                 enqcmds_retries := IDXD_ENQCMDS_RETRIES, wq_flags := 0, wq_name := [],
                 max_xfer_bytes := WQ_DEFAULT_MAX_XFER\<rparr>;
           w = idxd_wq_set_max_batch_size (drv_type (drv_data d)) WQ_DEFAULT_MAX_BATCH w
       in case wq_opcap w of None \<Rightarrow> w | Some _ \<Rightarrow> w\<lparr>wq_opcap := Some (dev_opcap d)\<rparr>)
     = cleaned_wq (drv_type (drv_data d)) (dev_opcap d)" (is "?f = ?g")
  proof
    fix w :: idxd_wq
    show "?f w = ?g w"
      by (cases "wq_opcap w") (simp_all add: cleaned_wq_def idxd_wq_set_max_batch_size_def Let_def)
  qed
  then show ?thesis by (simp only: idxd_wq_disable_cleanup_def)
qed

lemma wqs_clear_state:
  assumes "length (wqs d) = max_wqs d"
  shows "idxd_device_wqs_clear_state d =
     d\<lparr>wqs := map (\<lambda>w. (cleaned_wq (drv_type (drv_data d)) (dev_opcap d) w)
                        \<lparr>wq_size := 0, wq_group := None\<rparr>) (wqs d)\<rparr>"
proof -
  let ?c = "cleaned_wq (drv_type (drv_data d)) (dev_opcap d)"
  have "fold (\<lambda>i x. idxd_wq_device_reset_cleanup i (idxd_wq_disable_cleanup i x)) is x
      = x\<lparr>wqs := fold (\<lambda>i. list_upd i (\<lambda>w. (?c w)\<lparr>wq_size := 0, wq_group := None\<rparr>)) is (wqs x)\<rparr>"
    if "drv_data x = drv_data d" "dev_opcap x = dev_opcap d" for x "is"
    using that
    by (induction "is" arbitrary: x)
      (simp_all add: disable_cleanup_eq idxd_wq_device_reset_cleanup_def upd_wq_def
        list_upd_list_upd comp_def)
  then show ?thesis
    using assms by (simp add: idxd_device_wqs_clear_state_def fold_list_upd_len)
qed

subsection \<open>Properties\<close>

lemma not_bit_nat: "x < 2 ^ k \<Longrightarrow> k \<le> n \<Longrightarrow> \<not> bit (x :: nat) n"
proof -
  assume x: "x < 2 ^ k" and k: "k \<le> n"
  have "(2::nat) ^ k \<le> 2 ^ n" using k by (rule power_increasing) simp
  with x have "x < 2 ^ n" by (rule less_le_trans)
  then show ?thesis by (simp add: bit_iff_odd)
qed

lemma bit_wq_operand:
  assumes "i < 256"
  shows "bit (wq_operand i) k \<longleftrightarrow>
    (if k < 16 then k = i mod 16 else k < 20 \<and> bit (i div 16) (k - 16))"
proof -
  have i: "i div 16 < 2 ^ 4" "i mod 16 < 16" using assms by auto
  have "\<not> bit (i div 16) (k - 16)" if "20 \<le> k"
    using not_bit_nat [OF i(1), of "k - 16"] that by linarith
  then show ?thesis using i(2)
    by (cases "k < 16"; cases "k < 20") (auto simp: wq_operand_def bit_simps)
qed

lemma wq_operand_eq_iff:
  assumes "i < 256" "j < 256"
  shows "take_bit 20 (wq_operand i) = take_bit 20 (wq_operand j) \<longleftrightarrow> i = j"
proof
  assume eq: "take_bit 20 (wq_operand i) = take_bit 20 (wq_operand j)"
  have b: "bit (wq_operand i) k = bit (wq_operand j) k" if "k < 20" for k
    using arg_cong [OF eq, of "\<lambda>w. bit w k"] that by (simp add: bit_take_bit_iff)
  have "i mod 16 = j mod 16"
    using b [of "i mod 16"] assms by (simp add: bit_wq_operand)
  moreover have "i div 16 = j div 16"
  proof (rule bit_eqI)
    fix n
    have d: "i div 16 < 2 ^ 4" "j div 16 < 2 ^ 4" using assms by auto
    show "bit (i div 16) n = bit (j div 16) n"
    proof (cases "n < 4")
      case True
      then show ?thesis using b [of "n + 16"] assms by (simp add: bit_wq_operand)
    next
      case False
      then have "4 \<le> n" by simp
      then show ?thesis using not_bit_nat [OF d(1)] not_bit_nat [OF d(2)] by blast
    qed
  qed
  ultimately show "i = j" by (metis div_mult_mod_eq)
qed simp

lemma cmd_code_eq_iff: "cmd_code a = cmd_code b \<longleftrightarrow> a = b"
  by (cases a; cases b) simp_all

text \<open>
  the word written to the command register carries the command code, the low 20 bits of
  the operand and the interrupt request, and leaves the reserved bits zero.
\<close>
theorem cmd_word_decodes:
  "getf idxd_command_reg ''cmd'' (cmd_word c p) = cmd_code c \<and>
   getf idxd_command_reg ''operand'' (cmd_word c p) = take_bit 20 p \<and>
   getf idxd_command_reg ''int_req'' (cmd_word c p) = 1 \<and>
   getf idxd_command_reg ''rsvd'' (cmd_word c p) = 0"
  by (simp add: cmd_word_def cmdreg.get_set_same cmdreg.get_set_other take_bit_cmd_code)

lemma cmd_word_fields:
  "cmd_word c p = cmd_word c' p' \<Longrightarrow> c = c' \<and> take_bit 20 p = take_bit 20 p'"
proof -
  assume eq: "cmd_word c p = cmd_word c' p'"
  have "cmd_code c = getf idxd_command_reg ''cmd'' (cmd_word c p)" for c p
    by (simp add: cmd_word_def cmdreg.get_set_same cmdreg.get_set_other take_bit_cmd_code)
  moreover have "take_bit 20 p = getf idxd_command_reg ''operand'' (cmd_word c p)" for c p
    by (simp add: cmd_word_def cmdreg.get_set_same cmdreg.get_set_other)
  ultimately show ?thesis using eq by (metis cmd_code_eq_iff)
qed

text \<open>
  the queue commands address a single queue: two command words built by the disable, drain
  and reset operations for queue ids below 256 (the id field of WQCAP has 8 bits) are equal
  only for the same command on the same queue, although the operand packs the id as a bit
  number within a block of 16 and a block number.
\<close>
theorem wq_operand_unambiguous:
  assumes "i < 256" "j < 256"
  shows "cmd_word c (wq_operand i) = cmd_word c' (wq_operand j) \<longleftrightarrow> c = c' \<and> i = j"
  using cmd_word_fields [of c "wq_operand i" c' "wq_operand j"] wq_operand_eq_iff [OF assms]
  by auto

theorem wq_operand_unambiguous_witness:
  "cmd_word IDXD_CMD_DISABLE_WQ (wq_operand 17) \<noteq> cmd_word IDXD_CMD_DISABLE_WQ (wq_operand 33)"
  using wq_operand_unambiguous [of 17 33 IDXD_CMD_DISABLE_WQ IDXD_CMD_DISABLE_WQ] by simp

text \<open>
  the command protocol. A halted device gets no register write and the caller sees the
  hardware-error status. Otherwise exactly one command word is written, the result is the
  status register when the wait ends, its low byte is kept for the \<open>cmd_status\<close> attribute,
  the running bit is clear on return and no other flag, queue, group or engine changes.
\<close>
theorem idxd_cmd_exec_protocol:
  "idxd_cmd_exec E c p d =
     (if idxd_device_is_halted d then (cmdsts_code IDXD_CMDSTS_HW_ERR, d)
      else let r = cmd_wait E (io_write E (regs d) IDXD_CMD_OFFSET (cmd_word c p));
               st = r IDXD_CMDSTS_OFFSET
           in (st, d\<lparr>regs := r, cmd_status := HwStatus (st AND 0xff),
                     dev_flags := unset_bit IDXD_FLAG_CMD_RUNNING (dev_flags d)\<rparr>))"
proof -
  have "unset_bit (Suc 0) (set_bit (Suc 0) w) = unset_bit (Suc 0) w" for w :: u64
    by (rule bit_word_eqI) (auto simp: bit_simps)
  then show ?thesis
    by (simp add: idxd_cmd_exec_def iowrite32_def ioread32_def Let_def)
qed

subsection \<open>Queue enable and disable\<close>

definition wq_running :: "idxd_device \<Rightarrow> nat set" where
  "wq_running d = {i. i < length (wqs d) \<and> wq_state (wqs d ! i) = IDXD_WQ_ENABLED}"

lemma wf_wq_id: "wf_dev d \<Longrightarrow> i < max_wqs d \<Longrightarrow> wq_id (wqs d ! i) = i"
  unfolding wf_dev_def by (metis add.left_neutral length_map nth_map nth_upt)

lemma wq_running_upd_wq:
  "i < length (wqs d) \<Longrightarrow>
     wq_running (upd_wq i f d) =
       (if wq_state (f (wqs d ! i)) = IDXD_WQ_ENABLED then insert i (wq_running d)
        else wq_running d - {i})"
  by (auto simp: wq_running_def nth_list_upd split: if_splits)

lemma wq_running_cong: "wqs d' = wqs d \<Longrightarrow> wq_running d' = wq_running d"
  by (simp add: wq_running_def)

text \<open>
  enabling a queue succeeds exactly when the queue is already enabled or the device
  answers success or "already enabled"; then the queue is running and its bit is in the enable
  map, and every other queue is as before. On any other answer the caller sees -ENXIO and no
  queue changes state.
\<close>
theorem idxd_wq_enable_outcome:
  assumes "wf_dev d" "i < max_wqs d"
  shows "let (rc, d') = idxd_wq_enable E i d;
             st = fst (idxd_cmd_exec E IDXD_CMD_ENABLE_WQ (word_of_nat i) d);
             ok = (i \<in> wq_running d \<or> st = cmdsts_code IDXD_CMDSTS_SUCCESS \<or>
                   st = cmdsts_code IDXD_CMDSTS_ERR_WQ_ENABLED)
         in rc = (if ok then 0 else - ENXIO) \<and>
            wq_running d' = (if ok then insert i (wq_running d) else wq_running d) \<and>
            wq_enable_map d' =
              (if ok \<and> i \<notin> wq_running d then insert i (wq_enable_map d) else wq_enable_map d)"
proof -
  have i: "i < length (wqs d)" using assms by (simp add: wf_dev_def)
  have [simp]: "wq_running (d'\<lparr>wq_enable_map := m\<rparr>) = wq_running d'" for d' m
    by (simp add: wq_running_def)
  obtain st d1 where c: "idxd_cmd_exec E IDXD_CMD_ENABLE_WQ (word_of_nat i) d = (st, d1)"
    by (cases "idxd_cmd_exec E IDXD_CMD_ENABLE_WQ (word_of_nat i) d")
  have d1: "wqs d1 = wqs d" "wq_enable_map d1 = wq_enable_map d"
    using cmd_exec_frame [of E IDXD_CMD_ENABLE_WQ "word_of_nat i" d] by (simp_all add: c)
  from d1(1) have r: "wq_running d1 = wq_running d" by (rule wq_running_cong)
  have m: "i \<in> wq_running d \<longleftrightarrow> wq_state (wqs d ! i) = IDXD_WQ_ENABLED"
    using i by (simp add: wq_running_def)
  have u: "wq_running (upd_wq i (\<lambda>w. w\<lparr>wq_state := IDXD_WQ_ENABLED\<rparr>) d1) = insert i (wq_running d)"
    using i d1 r by (simp add: wq_running_upd_wq)
  let ?ok = "st = cmdsts_code IDXD_CMDSTS_SUCCESS \<or> st = cmdsts_code IDXD_CMDSTS_ERR_WQ_ENABLED"
  have id: "wq_id (wqs d ! i) = i" by (rule wf_wq_id [OF assms])
  consider (on) "wq_state (wqs d ! i) = IDXD_WQ_ENABLED"
    | (ok) "wq_state (wqs d ! i) \<noteq> IDXD_WQ_ENABLED" ?ok
    | (bad) "wq_state (wqs d ! i) \<noteq> IDXD_WQ_ENABLED" "\<not> ?ok" by blast
  then show ?thesis
  proof cases
    case on
    then have "idxd_wq_enable E i d = (0, d)" by (simp add: idxd_wq_enable_def)
    then show ?thesis using on m by (simp add: insert_absorb)
  next
    case ok
    then have "idxd_wq_enable E i d = (0, (upd_wq i (\<lambda>w. w\<lparr>wq_state := IDXD_WQ_ENABLED\<rparr>) d1)
        \<lparr>wq_enable_map := insert i (wq_enable_map d)\<rparr>)"
      using d1 by (auto simp: idxd_wq_enable_def id c Let_def)
    then show ?thesis using ok m u c by (simp only: Let_def prod.case fst_conv) simp
  next
    case bad
    then have "idxd_wq_enable E i d = (- ENXIO, d1)"
      by (simp add: idxd_wq_enable_def id c)
    then show ?thesis using bad m c d1 r by (simp only: Let_def prod.case fst_conv) simp
  qed
qed

text \<open>The enable map records the running queues.\<close>

definition enable_map_ok :: "idxd_device \<Rightarrow> bool" where
  "enable_map_ok d \<longleftrightarrow> wf_dev d \<and> wq_enable_map d = wq_running d"

lemma cmd_exec_running [simp]: "wq_running (snd (idxd_cmd_exec E c p d)) = wq_running d"
  by (simp add: wq_running_def)

lemma running_map_upd [simp]: "wq_running (d\<lparr>wq_enable_map := m\<rparr>) = wq_running d"
  by (simp add: wq_running_def)


lemma wf_upd_wq:
  assumes "wf_dev d"
    and "\<And>w. wq_id (f w) = wq_id w"
    and "\<And>w g. wq_group (f w) = Some g \<Longrightarrow> wq_group w = Some g"
  shows "wf_dev (upd_wq i f d)"
proof -
  have "\<forall>w\<in>set (list_upd i f (wqs d)). \<forall>g. wq_group w = Some g \<longrightarrow> g < max_groups d"
  proof (intro ballI allI impI)
    fix w g assume w: "w \<in> set (list_upd i f (wqs d))" and g: "wq_group w = Some g"
    obtain v where v: "v \<in> set (wqs d)" "w = v \<or> w = f v" by (rule set_list_upd [OF w])
    then have "wq_group v = Some g" using g assms(3) by blast
    then show "g < max_groups d" using assms(1) v(1) by (simp add: wf_dev_def)
  qed
  then show ?thesis
    using assms(1,2) by (simp add: wf_dev_def)
qed

lemma wf_cmd_exec [simp]: "wf_dev (snd (idxd_cmd_exec E c p d)) = wf_dev d"
  by (simp add: wf_dev_def)

lemma wf_enable_map_upd [simp]: "wf_dev (d\<lparr>wq_enable_map := m\<rparr>) = wf_dev d"
  by (simp add: wf_dev_def)

lemma wq_enable_keeps_map [inv_intros]:
  assumes "enable_map_ok d" "i < max_wqs d"
  shows "enable_map_ok (snd (idxd_wq_enable E i d))"
proof -
  have wf: "wf_dev d" and m: "wq_enable_map d = wq_running d"
    using assms(1) by (simp_all add: enable_map_ok_def)
  have i: "i < length (wqs d)" using wf assms(2) by (simp add: wf_dev_def)
  have wf': "wf_dev (upd_wq i (\<lambda>w. w\<lparr>wq_state := IDXD_WQ_ENABLED\<rparr>)
      (snd (idxd_cmd_exec E IDXD_CMD_ENABLE_WQ p d)))" for p
    by (rule wf_upd_wq) (simp_all add: wf)
  have "enable_map_ok ((upd_wq i (\<lambda>w. w\<lparr>wq_state := IDXD_WQ_ENABLED\<rparr>)
      (snd (idxd_cmd_exec E IDXD_CMD_ENABLE_WQ p d)))\<lparr>wq_enable_map := insert i (wq_running d)\<rparr>)" for p
    using i wf' by (simp add: enable_map_ok_def wq_running_upd_wq)
  moreover have "enable_map_ok (snd (idxd_cmd_exec E IDXD_CMD_ENABLE_WQ p d))" for p
    using wf m by (simp add: enable_map_ok_def)
  ultimately show ?thesis
    using assms(1)
    by (simp add: idxd_wq_enable_def Let_def split_beta wf_wq_id [OF wf assms(2)] m)
qed

lemma wq_id_upd_wq:
  "(\<And>w. wq_id (f w) = wq_id w) \<Longrightarrow> map wq_id (wqs (upd_wq i f d)) = map wq_id (wqs d)"
  by simp

lemma cleaned_wq_simps [simp]:
  "wq_id (cleaned_wq t c w) = wq_id w" "wq_group (cleaned_wq t c w) = wq_group w"
  "wq_state (cleaned_wq t c w) = IDXD_WQ_DISABLED" "wq_type (cleaned_wq t c w) = IDXD_WQT_NONE"
  "wq_size (cleaned_wq t c w) = wq_size w" "portal (cleaned_wq t c w) = portal w"
  by (simp_all add: cleaned_wq_def)

lemma wq_disable_keeps_map [inv_intros]:
  assumes "enable_map_ok d" "i < max_wqs d"
  shows "enable_map_ok (snd (idxd_wq_disable E i reset d))"
proof -
  let ?off = "\<lambda>w. w\<lparr>wq_state := IDXD_WQ_DISABLED\<rparr>"
  have wf: "wf_dev d" and m: "wq_enable_map d = wq_running d"
    using assms(1) by (simp_all add: enable_map_ok_def)
  have i: "i < length (wqs d)" using wf assms(2) by (simp add: wf_dev_def)
  define d1 where "d1 = snd (idxd_cmd_exec E IDXD_CMD_DISABLE_WQ (wq_operand i) d)"
  have d1: "wf_dev d1" "wqs d1 = wqs d" "wq_enable_map d1 = wq_running d"
    by (simp_all add: d1_def wf m)
  have clean: "wf_dev (idxd_wq_disable_cleanup i d1)" "length (wqs (idxd_wq_disable_cleanup i d1)) = length (wqs d)"
    "wq_enable_map (idxd_wq_disable_cleanup i d1) = wq_running d"
    "wq_running (idxd_wq_disable_cleanup i d1) = wq_running d - {i}"
    using d1 i wq_running_cong [OF d1(2)]
    by (simp_all add: disable_cleanup_eq wq_running_upd_wq) (rule wf_upd_wq; simp)
  have off: "enable_map_ok (upd_wq i ?off (d2\<lparr>wq_enable_map := wq_enable_map d2 - {i}\<rparr>))"
    if "wf_dev d2" "length (wqs d2) = length (wqs d)" "wq_enable_map d2 = wq_running d"
      "wq_running d2 - {i} = wq_running d - {i}" for d2
  proof -
    have "wf_dev (upd_wq i ?off (d2\<lparr>wq_enable_map := wq_enable_map d2 - {i}\<rparr>))"
      by (rule wf_upd_wq) (simp_all add: that)
    then show ?thesis using that i by (simp add: enable_map_ok_def wq_running_upd_wq)
  qed
  have "wq_running d1 = wq_running d" by (rule wq_running_cong) (rule d1(2))
  then have "enable_map_ok (upd_wq i ?off (d1\<lparr>wq_enable_map := wq_enable_map d1 - {i}\<rparr>))"
    using d1 by (intro off) simp_all
  moreover have "enable_map_ok (upd_wq i ?off ((idxd_wq_disable_cleanup i d1)
      \<lparr>wq_enable_map := wq_enable_map (idxd_wq_disable_cleanup i d1) - {i}\<rparr>))"
    using clean by (intro off) simp_all
  moreover have "enable_map_ok d1" using d1 \<open>wq_running d1 = wq_running d\<close> by (simp add: enable_map_ok_def)
  ultimately show ?thesis
    using assms(1) by (simp add: idxd_wq_disable_def Let_def split_beta wf_wq_id [OF wf assms(2)] d1_def)
qed



lemma sample_running: "wq_running sample_dev = {0}"
  by (auto simp: wq_running_def sample_dev_def zero_defs less_Suc_eq numeral_2_eq_2)

lemma sample_enable_map: "enable_map_ok sample_dev"
  using sample_running by (simp add: enable_map_ok_def sample_wf) (simp add: sample_dev_def)


theorem idxd_wq_enable_outcome_witness:
  "1 \<in> wq_running (snd (idxd_wq_enable sample_env 1 sample_dev))"
proof -
  have "\<not> idxd_device_is_halted sample_dev"
    by (simp add: idxd_device_is_halted_def sample_dev_def zero_defs ioread32_def getf_def
        gensts_reg_def take_bit_eq_mod)
  then have "fst (idxd_cmd_exec sample_env IDXD_CMD_ENABLE_WQ (word_of_nat 1) sample_dev) = 0"
    by (simp add: idxd_cmd_exec_def iowrite32_def ioread32_def Let_def sample_env_def
        sample_dev_def zero_defs)
  then show ?thesis
    using idxd_wq_enable_outcome [OF sample_wf, of 1 sample_env]
    by (simp add: sample_dev_def zero_device_def Let_def split_beta)
qed

subsection \<open>Clearing and disabling the device\<close>

text \<open>
  clearing the state of a configurable device puts every queue, group and engine back to its
  default and nothing else: queues are disabled, untyped, ungrouped and of size 0, groups are
  empty with their read buffers unreserved, engines are ungrouped. A device that is not
  configurable keeps its configuration. The device-wide count of free read buffers is not
  restored, although every group's reservation is.
\<close>
theorem idxd_device_clear_state_resets:
  assumes "wf_dev d"
  shows "idxd_device_clear_state E d =
     (if configurable d
      then d\<lparr>dev_state := IDXD_DEV_DISABLED,
             wqs := map (\<lambda>w. (cleaned_wq (drv_type (drv_data d)) (dev_opcap d) w)
                              \<lparr>wq_size := 0, wq_group := None\<rparr>) (wqs d),
             groups := map (clear_group E (version d) (max_rdbufs d)) (groups d),
             engines := map (\<lambda>e. e\<lparr>eng_group := None\<rparr>) (engines d)\<rparr>
      else d\<lparr>dev_state := IDXD_DEV_DISABLED\<rparr>) \<and>
     nr_rdbufs (idxd_device_clear_state E d) = nr_rdbufs d \<and>
     (configurable d \<longrightarrow> sum_list (map (uint \<circ> rdbufs_reserved) (groups (idxd_device_clear_state E d))) = 0)"
proof -
  have l: "length (wqs d) = max_wqs d" "length (groups d) = max_groups d"
    "length (engines d) = max_engines d" using assms by (simp_all add: wf_dev_def)
  have eq: "idxd_device_clear_state E d =
     (if configurable d
      then d\<lparr>dev_state := IDXD_DEV_DISABLED,
             wqs := map (\<lambda>w. (cleaned_wq (drv_type (drv_data d)) (dev_opcap d) w)
                              \<lparr>wq_size := 0, wq_group := None\<rparr>) (wqs d),
             groups := map (clear_group E (version d) (max_rdbufs d)) (groups d),
             engines := map (\<lambda>e. e\<lparr>eng_group := None\<rparr>) (engines d)\<rparr>
      else d\<lparr>dev_state := IDXD_DEV_DISABLED\<rparr>)"
    by (simp add: idxd_device_clear_state_def Let_def wqs_clear_state l groups_clear_state
        engines_clear_state)
  have z: "rdbufs_reserved (clear_group E v m g) = 0" for v m g
    by (simp add: clear_group_def Let_def)
  have "sum_list (map (uint \<circ> rdbufs_reserved) (map (clear_group E v m) gs)) = 0" for v m gs
    by (induction gs) (simp_all add: z)
  then show ?thesis by (simp add: eq)
qed

theorem idxd_device_clear_state_resets_witness:
  "wq_group (wqs (idxd_device_clear_state sample_env sample_dev) ! 0) = None"
  using idxd_device_clear_state_resets [OF sample_wf, of sample_env]
  by (simp add: sample_dev_def zero_defs configurable_def)

text \<open>
  disabling an enabled device reports success for every status that has a bit in common with
  the code "device not enabled" (0x31), not only for that code: a rejected command (status 1)
  clears the driver's state although the device keeps running.
\<close>
theorem idxd_device_disable_outcome:
  "idxd_device_disable E d =
     (if \<not> idxd_is_enabled d then (0, d)
      else let (st, d') = idxd_cmd_exec E IDXD_CMD_DISABLE_DEVICE 0 d
           in if st = 0 \<or> bit st 0 \<or> bit st 4 \<or> bit st 5
              then (0, idxd_device_clear_state E d') else (- ENXIO, d'))"
proof -
  have "(st AND 0x31 \<noteq> 0) \<longleftrightarrow> bit st 0 \<or> bit st 4 \<or> bit st 5" for st :: u32
  proof -
    have eq: "(0x31 :: u32) = set_bit 5 (set_bit 4 (set_bit 0 0))" by (simp add: set_bit_eq_or)
    have b: "bit (0x31 :: u32) n \<longleftrightarrow> n = 0 \<or> n = 4 \<or> n = 5" for n
      by (subst eq) (auto simp: bit_simps)
    have "(st AND 0x31 = 0) \<longleftrightarrow> (\<forall>n. \<not> bit (st AND 0x31) n)"
      by (metis bit_0_eq bit_eqI bot_apply bot_bool_def)
    also have "\<dots> \<longleftrightarrow> \<not> (bit st 0 \<or> bit st 4 \<or> bit st 5)"
      by (simp only: bit_and_iff b) blast
    finally show ?thesis by blast
  qed
  then show ?thesis
    by (auto simp: idxd_device_disable_def Let_def split: prod.splits)
qed

end
