(* ===== verification/Submit.thy ===== *)
theory Submit
  imports Command
begin

text \<open>
  Descriptors of a kernel queue: \<^verbatim>\<open>idxd/dma.c\<close>, \<^verbatim>\<open>idxd/submit.c\<close> and the interrupt thread of
  \<^verbatim>\<open>idxd/irq.c\<close>. A descriptor is its index in the queue's array. The lock-free pending list
  keeps the newest descriptor first, the work list the oldest first. A completion status is
  what the device has written when the operation starts. An operation that sleeps takes what
  the other threads did meanwhile as an argument, and a NULL dereference is the result
  \<^const>\<open>None\<close>.
\<close>


text \<open>The first flag of the kernel's \<^verbatim>\<open>enum dma_ctrl_flags\<close>.\<close>

abbreviation (input) DMA_PREP_INTERRUPT :: u64 where "DMA_PREP_INTERRUPT \<equiv> 1"

definition the_desc :: "nat \<Rightarrow> nat \<Rightarrow> idxd_device \<Rightarrow> idxd_desc" where
  "the_desc i k d = wq_descs (wqs d ! i) ! k"

definition upd_desc :: "nat \<Rightarrow> nat \<Rightarrow> (idxd_desc \<Rightarrow> idxd_desc) \<Rightarrow> idxd_device \<Rightarrow> idxd_device" where
  "upd_desc i k f d = upd_wq i (\<lambda>w. w\<lparr>wq_descs := list_upd k f (wq_descs w)\<rparr>) d"

subsection \<open>Allocation\<close>

definition get_desc :: "nat \<Rightarrow> nat \<Rightarrow> int \<Rightarrow> idxd_device \<Rightarrow> idxd_device" where
  "get_desc i k cpu d =
     upd_desc i k (\<lambda>x.
       let x = x\<lparr>desc_hw := zero_hw_desc\<rparr>;
           x = x\<lparr>compl_status := 0\<rparr>;
           x = x\<lparr>desc_cpu := cpu\<rparr>
       in if device_pasid_enabled d
          then x\<lparr>desc_hw := (desc_hw x)\<lparr>hd_pasid := take_bit 20 (pasid d)\<rparr>\<rparr> else x) d"

definition sbitmap_queue_get :: "env \<Rightarrow> nat \<Rightarrow> idxd_device \<Rightarrow> (nat \<times> int) option \<times> idxd_device" where
  "sbitmap_queue_get E i d =
     (let w = wqs d ! i
      in case sbq_pick E (sbq_alloc w) (nat (num_descs w)) of
           None \<Rightarrow> (None, d)
         | Some (k, cpu) \<Rightarrow>
             (Some (k, cpu), upd_wq i (\<lambda>w. w\<lparr>sbq_alloc := insert k (sbq_alloc w)\<rparr>) d))"

text \<open>
  The sleeping loop. Each round has the state of the signal check and what the other threads do
  during \<^verbatim>\<open>schedule()\<close>; \<^const>\<open>None\<close> means that the caller still sleeps after the given rounds.
\<close>

fun alloc_wait ::
  "env \<Rightarrow> nat \<Rightarrow> (bool \<times> (idxd_device \<Rightarrow> idxd_device)) list \<Rightarrow> idxd_device
     \<Rightarrow> ((nat \<times> int) option \<times> idxd_device) option" where
  "alloc_wait E i [] d = None"
| "alloc_wait E i ((sig, others) # rounds) d =
     (if sig then Some (None, d)
      else case sbitmap_queue_get E i d of
             (Some r, d) \<Rightarrow> Some (Some r, d)
           | (None, d) \<Rightarrow> alloc_wait E i rounds (others d))"

definition idxd_alloc_desc ::
  "env \<Rightarrow> nat \<Rightarrow> idxd_op_type \<Rightarrow> (bool \<times> (idxd_device \<Rightarrow> idxd_device)) list \<Rightarrow> idxd_device
     \<Rightarrow> ((int + nat) \<times> idxd_device) option" where
  "idxd_alloc_desc E i optype rounds d =
     (if dev_state d \<noteq> IDXD_DEV_ENABLED then Some (Inl (- EIO), d)
      else case sbitmap_queue_get E i d of
        (Some (k, cpu), d) \<Rightarrow> Some (Inr k, get_desc i k cpu d)
      | (None, d) \<Rightarrow>
          if optype = IDXD_OP_NONBLOCK then Some (Inl (- EAGAIN), d)
          else case alloc_wait E i rounds d of
            None \<Rightarrow> None
          | Some (None, d) \<Rightarrow> Some (Inl (- EAGAIN), d)
          | Some (Some (k, cpu), d) \<Rightarrow> Some (Inr k, get_desc i k cpu d))"

definition idxd_free_desc :: "nat \<Rightarrow> nat \<Rightarrow> idxd_device \<Rightarrow> idxd_device" where
  "idxd_free_desc i k d =
     upd_wq i (\<lambda>w. w\<lparr>sbq_alloc := sbq_alloc w - {k}\<rparr>) (upd_desc i k (\<lambda>x. x\<lparr>desc_cpu := -1\<rparr>) d)"

subsection \<open>Completion\<close>

definition idxd_queue_int_handle_resubmit :: "env \<Rightarrow> nat \<Rightarrow> nat \<Rightarrow> idxd_device \<Rightarrow> bool \<times> idxd_device" where
  "idxd_queue_int_handle_resubmit E i k d =
     (let (rc, d) = acquire E (K (Resubmit i k)) d
      in if rc < 0 then (False, d) else (True, notify (QueueResubmit i k) d))"

text \<open>
  The end of \<^verbatim>\<open>idxd_dma_complete_txd\<close>. The cookie after \<^verbatim>\<open>dma_cookie_complete\<close> is the
  environment's; the callback runs when one is set.
\<close>

definition finish_txd ::
  "env \<Rightarrow> nat \<Rightarrow> nat \<Rightarrow> dma_result option \<Rightarrow> bool \<Rightarrow> idxd_device \<Rightarrow> idxd_device" where
  "finish_txd E i k res free d =
     (let tx = the_desc i k d;
          d = (case res of
                 None \<Rightarrow> d
               | Some r \<Rightarrow>
                   if txd_cookie tx = 0 then d
                   else
                     let d = notify (CookieComplete i k)
                               (upd_desc i k (\<lambda>x. x\<lparr>txd_cookie := cookie_done E (txd_cookie x)\<rparr>) d);
                         d = (if txd_callback tx then notify (Callback i k r) d else d)
                     in upd_desc i k (\<lambda>x. x\<lparr>txd_callback := False\<rparr>) d)
      in if free then idxd_free_desc i k d else d)"

definition idxd_dma_complete_txd ::
  "env \<Rightarrow> nat \<Rightarrow> nat \<Rightarrow> idxd_complete_type \<Rightarrow> bool \<Rightarrow> idxd_device \<Rightarrow> idxd_device" where
  "idxd_dma_complete_txd E i k comp_type free d =
     (let status = compl_status (the_desc i k d) in
      if status = DSA_COMP_SUCCESS then finish_txd E i k (Some DMA_TRANS_NOERROR) free d
      else if status \<noteq> 0 then
        if request_int_handles d \<and> comp_type \<noteq> IDXD_COMPLETE_ABORT \<and>
           status = DSA_COMP_INT_HANDLE_INVAL
        then let (queued, d) = idxd_queue_int_handle_resubmit E i k d
             in if queued then d else finish_txd E i k (Some DMA_TRANS_WRITE_FAILED) free d
        else finish_txd E i k (Some DMA_TRANS_WRITE_FAILED) free d
      else if comp_type = IDXD_COMPLETE_ABORT
           then finish_txd E i k (Some DMA_TRANS_ABORTED) free d
           else finish_txd E i k None free d)"

subsection \<open>Preparation\<close>

definition op_flag_setup :: "u64 \<Rightarrow> u32" where
  "op_flag_setup flags =
     (let f = IDXD_OP_FLAG_CRAV OR IDXD_OP_FLAG_RCR
      in if flags AND DMA_PREP_INTERRUPT \<noteq> 0 then f OR IDXD_OP_FLAG_RCI else f)"

definition idxd_prep_desc_common ::
  "u8 \<Rightarrow> u64 \<Rightarrow> u64 \<Rightarrow> u64 \<Rightarrow> u64 \<Rightarrow> u32 \<Rightarrow> dsa_hw_desc \<Rightarrow> dsa_hw_desc" where
  "idxd_prep_desc_common opcode addr_f1 addr_f2 len compl flags hw =
     hw\<lparr>hd_flags := take_bit 24 flags, hd_opcode := opcode, src_addr := addr_f1,
        dst_addr := addr_f2, xfer_size := ucast len, hd_priv := 0, completion_addr := compl\<rparr>"

text \<open>Both preparation functions return the descriptor, or \<^verbatim>\<open>NULL\<close> as \<^term>\<open>Inl 0\<close>.\<close>

definition idxd_dma_prep_interrupt ::
  "env \<Rightarrow> nat \<Rightarrow> u64 \<Rightarrow> (bool \<times> (idxd_device \<Rightarrow> idxd_device)) list \<Rightarrow> idxd_device
     \<Rightarrow> (nat option \<times> idxd_device) option" where
  "idxd_dma_prep_interrupt E i flags rounds d =
     (if wq_state (wqs d ! i) \<noteq> IDXD_WQ_ENABLED then Some (None, d)
      else case idxd_alloc_desc E i IDXD_OP_BLOCK rounds d of
        None \<Rightarrow> None
      | Some (Inl _, d) \<Rightarrow> Some (None, d)
      | Some (Inr k, d) \<Rightarrow>
          Some (Some k, upd_desc i k (\<lambda>x. x\<lparr>
            desc_hw := idxd_prep_desc_common DSA_OPCODE_NOOP 0 0 0 (compl_dma x) (op_flag_setup flags) (desc_hw x),
            txd_flags := flags\<rparr>) d))"

definition idxd_dma_submit_memcpy ::
  "env \<Rightarrow> nat \<Rightarrow> u64 \<Rightarrow> u64 \<Rightarrow> u64 \<Rightarrow> u64 \<Rightarrow> (bool \<times> (idxd_device \<Rightarrow> idxd_device)) list
     \<Rightarrow> idxd_device \<Rightarrow> (nat option \<times> idxd_device) option" where
  "idxd_dma_submit_memcpy E i dma_dest dma_src len flags rounds d =
     (if wq_state (wqs d ! i) \<noteq> IDXD_WQ_ENABLED then Some (None, d)
      else if len > dev_max_xfer_bytes d then Some (None, d)
      else case idxd_alloc_desc E i IDXD_OP_BLOCK rounds d of
        None \<Rightarrow> None
      | Some (Inl _, d) \<Rightarrow> Some (None, d)
      | Some (Inr k, d) \<Rightarrow>
          Some (Some k, upd_desc i k (\<lambda>x. x\<lparr>
            desc_hw := idxd_prep_desc_common DSA_OPCODE_MEMMOVE dma_src dma_dest len (compl_dma x)
                         (op_flag_setup flags) (desc_hw x),
            txd_flags := flags\<rparr>) d))"

definition idxd_dma_alloc_chan_resources :: "nat \<Rightarrow> idxd_device \<Rightarrow> int \<times> idxd_device" where
  "idxd_dma_alloc_chan_resources i d = (0, upd_wq i idxd_wq_get d)"

definition idxd_dma_free_chan_resources :: "nat \<Rightarrow> idxd_device \<Rightarrow> idxd_device" where
  "idxd_dma_free_chan_resources i d = upd_wq i idxd_wq_put d"

subsection \<open>Submission\<close>

text \<open>\<^verbatim>\<open>do rc = enqcmds() while (retries--)\<close>, stopped by a zero.\<close>

fun enqcmds_loop :: "env \<Rightarrow> svc \<Rightarrow> nat \<Rightarrow> idxd_device \<Rightarrow> int \<times> idxd_device" where
  "enqcmds_loop E c retries d =
     (let (rc, d) = ext E (Svc c) d in
      if rc = 0 then (rc, d)
      else if retries = 0 then (rc, d)
      else enqcmds_loop E c (retries - 1) d)"

declare enqcmds_loop.simps [simp del]

definition idxd_enqcmds :: "env \<Rightarrow> nat \<Rightarrow> u32 \<Rightarrow> dsa_hw_desc \<Rightarrow> idxd_device \<Rightarrow> int \<times> idxd_device" where
  "idxd_enqcmds E i portal_ofs hw d =
     enqcmds_loop E (Enqcmds i portal_ofs hw) (unat (enqcmds_retries (wqs d ! i))) d"

definition list_abort_desc :: "nat \<Rightarrow> nat \<Rightarrow> idxd_device \<Rightarrow> nat option \<times> idxd_device" where
  "list_abort_desc i k d =
     (if k \<in> set (work_list (wq_ie (wqs d ! i)))
      then (Some k, upd_ie i (\<lambda>ie. ie\<lparr>work_list := remove1 k (work_list ie)\<rparr>) d)
      else (None, d))"

text \<open>The loop over the list of finished descriptors completes \<^verbatim>\<open>found\<close>, once per entry.\<close>

fun abort_flist :: "env \<Rightarrow> nat \<Rightarrow> nat option \<Rightarrow> nat list \<Rightarrow> idxd_device \<Rightarrow> idxd_device option" where
  "abort_flist E i found [] d = Some d"
| "abort_flist E i None (x # xs) d = None"
| "abort_flist E i (Some k) (x # xs) d =
     abort_flist E i (Some k) xs (idxd_dma_complete_txd E i k IDXD_COMPLETE_ABORT True d)"

definition llist_abort_desc :: "env \<Rightarrow> nat \<Rightarrow> nat \<Rightarrow> idxd_device \<Rightarrow> idxd_device option" where
  "llist_abort_desc E i k d =
     (let d = upd_desc i k (\<lambda>x. x\<lparr>compl_status := IDXD_COMP_DESC_ABORT\<rparr>) d;
          head = pending_llist (wq_ie (wqs d ! i));
          d = upd_ie i (\<lambda>ie. ie\<lparr>pending_llist := []\<rparr>) d;
          done = (\<lambda>x. compl_status (the_desc i x d) \<noteq> 0);
          flist = filter (\<lambda>x. x \<noteq> k \<and> done x) head;
          d = upd_ie i (\<lambda>ie. ie\<lparr>work_list := work_list ie @ filter (\<lambda>x. x \<noteq> k \<and> \<not> done x) head\<rparr>) d;
          (found, d) = (if k \<in> set head then (Some k, d) else list_abort_desc i k d);
          d = (case found of None \<Rightarrow> d
               | Some x \<Rightarrow> idxd_dma_complete_txd E i x IDXD_COMPLETE_ABORT False d)
      in abort_flist E i found flist d)"

text \<open>
  \<^verbatim>\<open>resume\<close> is what the other threads do while the submitter waits for the queue to be
  resurrected.
\<close>

definition idxd_submit_desc ::
  "env \<Rightarrow> nat \<Rightarrow> nat \<Rightarrow> (idxd_device \<Rightarrow> idxd_device) \<Rightarrow> idxd_device
     \<Rightarrow> (int \<times> idxd_device) option" where
  "idxd_submit_desc E i k resume d =
     (let desc_flags = hd_flags (desc_hw (the_desc i k d)) in
      if dev_state d \<noteq> IDXD_DEV_ENABLED then Some (- EIO, d)
      else
        let d = (if ref_live (wqs d ! i) then d else resume d) in
        if \<not> ref_live (wqs d ! i) then Some (- ENXIO, d)
        else
          let (portal, d) = idxd_wq_portal_addr i d;
              rci = (desc_flags AND IDXD_OP_FLAG_RCI \<noteq> 0);
              d = (if rci
                   then let d = upd_desc i k (\<lambda>x. x\<lparr>desc_hw := (desc_hw x)
                              \<lparr>hd_int_handle := word_of_int (int_handle (wq_ie (wqs d ! i)))\<rparr>\<rparr>) d
                        in upd_ie i (\<lambda>ie. ie\<lparr>pending_llist := k # pending_llist ie\<rparr>) d
                   else d);
              hw = desc_hw (the_desc i k d)
          in if wq_dedicated (wqs d ! i) then Some (0, notify (Movdir64b i portal hw) d)
             else
               let (rc, d) = idxd_enqcmds E i portal hw d
               in if rc < 0
                  then if rci then map_option (\<lambda>d. (rc, d)) (llist_abort_desc E i k d)
                       else Some (rc, d)
                  else Some (0, d))"

definition idxd_dma_tx_submit ::
  "env \<Rightarrow> nat \<Rightarrow> nat \<Rightarrow> (idxd_device \<Rightarrow> idxd_device) \<Rightarrow> idxd_device
     \<Rightarrow> (int \<times> idxd_device) option" where
  "idxd_dma_tx_submit E i k resume d =
     (let d = upd_desc i k (\<lambda>x. x\<lparr>txd_cookie := cookie_assign E (txd_cookie x)\<rparr>) d;
          cookie = txd_cookie (the_desc i k d)
      in case idxd_submit_desc E i k resume d of
           None \<Rightarrow> None
         | Some (rc, d) \<Rightarrow>
             if rc < 0 then Some (rc, idxd_free_desc i k d) else Some (cookie, d))"


subsection \<open>The interrupt thread\<close>

definition irq_pending_step :: "env \<Rightarrow> nat \<Rightarrow> nat \<Rightarrow> idxd_device \<Rightarrow> idxd_device" where
  "irq_pending_step E i k d =
     (let status = compl_status (the_desc i k d) AND DSA_COMP_STATUS_MASK in
      if status \<noteq> 0 then
        if compl_status (the_desc i k d) = IDXD_COMP_DESC_ABORT
        then idxd_dma_complete_txd E i k IDXD_COMPLETE_ABORT True d
        else idxd_dma_complete_txd E i k IDXD_COMPLETE_NORMAL True d
      else upd_ie i (\<lambda>ie. ie\<lparr>work_list := work_list ie @ [k]\<rparr>) d)"

definition irq_process_pending_llist :: "env \<Rightarrow> nat \<Rightarrow> idxd_device \<Rightarrow> idxd_device" where
  "irq_process_pending_llist E i d =
     (let head = pending_llist (wq_ie (wqs d ! i));
          d = upd_ie i (\<lambda>ie. ie\<lparr>pending_llist := []\<rparr>) d
      in fold (irq_pending_step E i) head d)"

definition irq_complete_step :: "env \<Rightarrow> nat \<Rightarrow> nat \<Rightarrow> idxd_device \<Rightarrow> idxd_device" where
  "irq_complete_step E i k d =
     (if compl_status (the_desc i k d) = IDXD_COMP_DESC_ABORT
      then idxd_dma_complete_txd E i k IDXD_COMPLETE_ABORT True d
      else idxd_dma_complete_txd E i k IDXD_COMPLETE_NORMAL True d)"

definition irq_process_work_list :: "env \<Rightarrow> nat \<Rightarrow> idxd_device \<Rightarrow> idxd_device" where
  "irq_process_work_list E i d =
     (let work = work_list (wq_ie (wqs d ! i)) in
      if work = [] then d
      else
        let done = (\<lambda>k. compl_status (the_desc i k d) \<noteq> 0);
            flist = filter done work;
            d = upd_ie i (\<lambda>ie. ie\<lparr>work_list := filter (\<lambda>k. \<not> done k) work\<rparr>) d
        in fold (irq_complete_step E i) flist d)"

definition idxd_wq_thread :: "env \<Rightarrow> nat \<Rightarrow> idxd_device \<Rightarrow> idxd_device" where
  "idxd_wq_thread E i d = irq_process_pending_llist E i (irq_process_work_list E i d)"

definition idxd_abort_invalid_int_handle_descs :: "env \<Rightarrow> nat \<Rightarrow> idxd_device \<Rightarrow> idxd_device" where
  "idxd_abort_invalid_int_handle_descs E i d =
     (let ie = wq_ie (wqs d ! i);
          work = work_list ie @ pending_llist ie;
          inval = (\<lambda>k. compl_status (the_desc i k d) = DSA_COMP_INT_HANDLE_INVAL);
          d = upd_ie i (\<lambda>ie. ie\<lparr>pending_llist := [], work_list := filter (\<lambda>k. \<not> inval k) work\<rparr>) d
      in fold (\<lambda>k. idxd_dma_complete_txd E i k IDXD_COMPLETE_ABORT True) (filter inval work) d)"

definition idxd_int_handle_resubmit_work ::
  "env \<Rightarrow> nat \<Rightarrow> nat \<Rightarrow> (idxd_device \<Rightarrow> idxd_device) \<Rightarrow> idxd_device \<Rightarrow> idxd_device option" where
  "idxd_int_handle_resubmit_work E i k resume d =
     (let d = upd_desc i k (\<lambda>x. x\<lparr>compl_status := 0\<rparr>) d in
      case idxd_submit_desc E i k resume d of
        None \<Rightarrow> None
      | Some (rc, d) \<Rightarrow>
          let d = (if rc < 0
                   then
                     let d = (if rc \<noteq> - EAGAIN
                              then idxd_dma_complete_txd E i k IDXD_COMPLETE_ABORT False
                                     (upd_desc i k (\<lambda>x. x\<lparr>compl_status := IDXD_COMP_DESC_ABORT\<rparr>) d)
                              else d)
                     in idxd_free_desc i k d
                   else d)
          in Some (release (K (Resubmit i k)) d))"

subsection \<open>Descriptor slots\<close>

text \<open>
  The abstract view of a descriptor: free, owned by a client, in flight (on one of the two
  lists), or waiting for its resubmission work.
\<close>

datatype slot = Free | Owned | InFlight | Resubmitting

abbreviation lists_of :: "nat \<Rightarrow> idxd_device \<Rightarrow> nat list" where
  "lists_of i d \<equiv> pending_llist (wq_ie (wqs d ! i)) @ work_list (wq_ie (wqs d ! i))"

abbreviation status_of :: "nat \<Rightarrow> idxd_device \<Rightarrow> nat \<Rightarrow> u8" where
  "status_of i d k \<equiv> compl_status (the_desc i k d)"

definition slot :: "nat \<Rightarrow> idxd_device \<Rightarrow> nat \<Rightarrow> slot" where
  "slot i d k =
     (if k \<in> set (lists_of i d) then InFlight
      else if held d (K (Resubmit i k)) > 0 then Resubmitting
      else if k \<in> sbq_alloc (wqs d ! i) then Owned else Free)"

definition pool_ok :: "nat \<Rightarrow> idxd_device \<Rightarrow> bool" where
  "pool_ok i d \<longleftrightarrow>
     i < length (wqs d) \<and> distinct (lists_of i d) \<and>
     set (lists_of i d) \<subseteq> sbq_alloc (wqs d ! i) \<and>
     sbq_alloc (wqs d ! i) \<subseteq> {..<length (wq_descs (wqs d ! i))} \<and>
     num_descs (wqs d ! i) = int (length (wq_descs (wqs d ! i))) \<and>
     (\<forall>k. held d (K (Resubmit i k)) = 0 \<or>
          held d (K (Resubmit i k)) = 1 \<and> k \<in> sbq_alloc (wqs d ! i) - set (lists_of i d))"

text \<open>
  What completing the descriptors of a set \<open>A\<close> does: every one of them leaves the allocated
  set or gets a resubmission work, and nothing else about the queue's slots changes.
\<close>

definition retired :: "nat \<Rightarrow> nat set \<Rightarrow> idxd_device \<Rightarrow> idxd_device \<Rightarrow> bool" where
  "retired i A d d' \<longleftrightarrow>
     length (wqs d') = length (wqs d) \<and> wq_ie (wqs d' ! i) = wq_ie (wqs d ! i) \<and>
     num_descs (wqs d' ! i) = num_descs (wqs d ! i) \<and>
     length (wq_descs (wqs d' ! i)) = length (wq_descs (wqs d ! i)) \<and>
     (\<forall>k < length (wq_descs (wqs d ! i)). status_of i d' k = status_of i d k) \<and>
     request_int_handles d' = request_int_handles d \<and>
     (\<forall>k. k \<notin> A \<longrightarrow> (k \<in> sbq_alloc (wqs d' ! i) \<longleftrightarrow> k \<in> sbq_alloc (wqs d ! i)) \<and>
        held d' (K (Resubmit i k)) = held d (K (Resubmit i k))) \<and>
     (\<forall>k\<in>A. k \<notin> sbq_alloc (wqs d' ! i) \<and> held d' (K (Resubmit i k)) = held d (K (Resubmit i k)) \<or>
        (k \<in> sbq_alloc (wqs d' ! i) \<longleftrightarrow> k \<in> sbq_alloc (wqs d ! i)) \<and>
        held d' (K (Resubmit i k)) = held d (K (Resubmit i k)) + 1 \<and>
        request_int_handles d \<and> status_of i d k = DSA_COMP_INT_HANDLE_INVAL)"

lemma retired_refl: "retired i {} d d"
  by (simp add: retired_def)

lemma retired_trans:
  assumes "retired i A d d'" "retired i B d' d''" "A \<inter> B = {}"
    and "B \<subseteq> {..<length (wq_descs (wqs d ! i))}"
  shows "retired i (A \<union> B) d d''"
proof -
  have "k \<notin> A" if "k \<in> B" for k using that assms(3) by blast
  moreover have "status_of i d' k = status_of i d k" if "k \<in> B" for k
    using that assms(1,4) by (auto simp: retired_def)
  ultimately show ?thesis
    using assms(1,2) unfolding retired_def by (smt (verit) Un_iff)
qed

lemma the_desc_upd_desc:
  assumes "i < length (wqs d)" "k < length (wq_descs (wqs d ! i))"
  shows "the_desc i k (upd_desc i j f d) = (if j = k then f (the_desc i k d) else the_desc i k d)"
  using assms by (simp add: the_desc_def upd_desc_def nth_list_upd)

lemma finish_txd_retired:
  assumes "i < length (wqs d)" "k < length (wq_descs (wqs d ! i))"
  shows "retired i {k} d (finish_txd E i k res True d)"
  using assms
  by (auto simp: retired_def finish_txd_def Let_def idxd_free_desc_def upd_desc_def nth_list_upd
      the_desc_def split: option.splits)


lemma retired_from:
  assumes "retired i A d1 d'" "A \<subseteq> {..<length (wq_descs (wqs d ! i))}"
    and "wqs d1 = wqs d" "held d1 = held d" "request_int_handles d1 = request_int_handles d"
  shows "retired i A d d'"
  using assms unfolding retired_def the_desc_def by simp

lemma complete_txd_retired:
  assumes "i < length (wqs d)" "k < length (wq_descs (wqs d ! i))"
  shows "retired i {k} d (idxd_dma_complete_txd E i k c True d)"
proof -
  let ?q = "idxd_queue_int_handle_resubmit E i k d"
  have f: "retired i {k} d (finish_txd E i k r True d)" for r
    by (rule finish_txd_retired [OF assms])
  have q: "wqs (snd ?q) = wqs d" "request_int_handles (snd ?q) = request_int_handles d"
    "\<not> fst ?q \<Longrightarrow> held (snd ?q) = held d"
    "fst ?q \<Longrightarrow> held (snd ?q) = addh {K (Resubmit i k)} (held d)"
    using held_acquire [of E "K (Resubmit i k)" d]
    by (auto simp: idxd_queue_int_handle_resubmit_def Let_def split_beta)
  have "retired i {k} d (finish_txd E i k r True (snd ?q))" if "\<not> fst ?q" for r
    by (rule retired_from [OF finish_txd_retired])
      (use assms q that in simp_all)
  moreover have "retired i {k} d (snd ?q)"
    if "fst ?q" "request_int_handles d" "status_of i d k = DSA_COMP_INT_HANDLE_INVAL"
    using that q by (simp add: retired_def addh_def the_desc_def)
  ultimately show ?thesis
    using f by (auto simp: idxd_dma_complete_txd_def Let_def split_beta)
qed

lemma fold_retired:
  assumes "\<And>k x. k \<in> set ks \<Longrightarrow> i < length (wqs x) \<Longrightarrow> k < length (wq_descs (wqs x ! i)) \<Longrightarrow>
      retired i {k} x (f k x)"
    and "i < length (wqs d)" "set ks \<subseteq> {..<length (wq_descs (wqs d ! i))}" "distinct ks"
  shows "retired i (set ks) d (fold f ks d)"
  using assms
proof (induction ks arbitrary: d)
  case Nil
  then show ?case by (simp add: retired_refl)
next
  case (Cons k ks)
  have 1: "retired i {k} d (f k d)" using Cons.prems by simp
  have "retired i (set ks) (f k d) (fold f ks (f k d))"
    by (rule Cons.IH) (use Cons.prems 1 in \<open>simp_all add: retired_def\<close>)
  then have "retired i ({k} \<union> set ks) d (fold f ks (f k d))"
    by (rule retired_trans [OF 1]) (use Cons.prems in simp_all)
  then show ?case by simp
qed

text \<open>The effect of retiring the descriptors of \<open>A\<close>, taken off the lists, on the slots.\<close>

lemma retired_slots:
  assumes ok: "pool_ok i d" and ret: "retired i A d1 d'" and A: "A \<subseteq> set (lists_of i d)"
    and d1: "held d1 = held d" "request_int_handles d1 = request_int_handles d"
      "length (wqs d1) = length (wqs d)" "sbq_alloc (wqs d1 ! i) = sbq_alloc (wqs d ! i)"
      "wq_descs (wqs d1 ! i) = wq_descs (wqs d ! i)" "num_descs (wqs d1 ! i) = num_descs (wqs d ! i)"
    and lists: "distinct (lists_of i d1)" "set (lists_of i d1) = set (lists_of i d) - A"
  shows "pool_ok i d' \<and>
     (\<forall>k. if k \<in> A
          then slot i d' k = Free \<or> slot i d' k = Resubmitting \<and> request_int_handles d \<and>
                 status_of i d k = DSA_COMP_INT_HANDLE_INVAL
          else slot i d' k = slot i d k)"
proof -
  have l: "lists_of i d' = lists_of i d1" using ret by (simp add: retired_def)
  have A0: "held d (K (Resubmit i k)) = 0" "k \<in> sbq_alloc (wqs d ! i)" if "k \<in> A" for k
    using that ok A unfolding pool_ok_def by blast+
  have st: "status_of i d1 k = status_of i d k" for k using d1 by (simp add: the_desc_def)
  have sub: "sbq_alloc (wqs d' ! i) \<subseteq> sbq_alloc (wqs d ! i)"
    and out: "k \<notin> A \<Longrightarrow> (k \<in> sbq_alloc (wqs d' ! i) \<longleftrightarrow> k \<in> sbq_alloc (wqs d ! i)) \<and>
        held d' (K (Resubmit i k)) = held d (K (Resubmit i k))"
    and inA: "k \<in> A \<Longrightarrow> k \<notin> sbq_alloc (wqs d' ! i) \<and> held d' (K (Resubmit i k)) = 0 \<or>
        k \<in> sbq_alloc (wqs d' ! i) \<and> held d' (K (Resubmit i k)) = 1 \<and>
        request_int_handles d \<and> status_of i d k = DSA_COMP_INT_HANDLE_INVAL" for k
    using ret A0 d1 st unfolding retired_def by (auto; blast)+
  have "pool_ok i d'"
    using ok sub out inA ret lists d1 l unfolding pool_ok_def retired_def
    by (smt (verit) Diff_iff subsetD subsetI)
  moreover have "slot i d' k = slot i d k" if "k \<notin> A" for k
    using that l lists out [OF that] by (simp add: slot_def)
  moreover have "slot i d' k = Free \<or> slot i d' k = Resubmitting \<and> request_int_handles d \<and>
                 status_of i d k = DSA_COMP_INT_HANDLE_INVAL" if "k \<in> A" for k
    using that l lists inA [OF that] by (auto simp: slot_def)
  ultimately show ?thesis by simp
qed


lemma retired_upd_ie:
  "retired i A d x \<Longrightarrow> i < length (wqs d) \<Longrightarrow> retired i A (upd_ie i f d) (upd_ie i f x)"
  by (simp add: retired_def upd_ie_def the_desc_def nth_list_upd)

lemma upd_ie_id: "f (wq_ie (wqs d ! i)) = wq_ie (wqs d ! i) \<Longrightarrow> upd_ie i f d = d"
proof -
  assume "f (wq_ie (wqs d ! i)) = wq_ie (wqs d ! i)"
  then have "(wqs d ! i)\<lparr>wq_ie := f (wq_ie (wqs d ! i))\<rparr> = wqs d ! i" by simp
  then show ?thesis by (simp add: upd_ie_def upd_wq_def list_upd_def)
qed

lemma upd_ie_frame:
  assumes "i < length (wqs d)"
  shows "wq_descs (wqs (upd_ie i f d) ! i) = wq_descs (wqs d ! i)"
    and "sbq_alloc (wqs (upd_ie i f d) ! i) = sbq_alloc (wqs d ! i)"
    and "num_descs (wqs (upd_ie i f d) ! i) = num_descs (wqs d ! i)"
    and "wq_ie (wqs (upd_ie i f d) ! i) = f (wq_ie (wqs d ! i))"
    and "length (wqs (upd_ie i f d)) = length (wqs d)"
    and "held (upd_ie i f d) = held d"
    and "request_int_handles (upd_ie i f d) = request_int_handles d"
    and "the_desc i k (upd_ie i f d) = the_desc i k d"
  using assms by (simp_all add: upd_ie_def nth_list_upd the_desc_def)

lemma complete_step_retired:
  "i < length (wqs d) \<Longrightarrow> k < length (wq_descs (wqs d ! i)) \<Longrightarrow>
     retired i {k} d (irq_complete_step E i k d)"
  by (simp add: irq_complete_step_def complete_txd_retired)

lemma pending_fold:
  assumes "i < length (wqs d)" "set ks \<subseteq> {..<length (wq_descs (wqs d ! i))}" "distinct ks"
  shows "retired i {k \<in> set ks. status_of i d k AND DSA_COMP_STATUS_MASK \<noteq> 0}
     (upd_ie i (\<lambda>ie. ie\<lparr>work_list := work_list ie @
         filter (\<lambda>k. status_of i d k AND DSA_COMP_STATUS_MASK = 0) ks\<rparr>) d)
     (fold (irq_pending_step E i) ks d)"
  using assms
proof (induction ks arbitrary: d)
  case Nil
  have "upd_ie i (\<lambda>ie. ie\<lparr>work_list := work_list ie @ []\<rparr>) d = d"
    by (simp add: upd_ie_def upd_wq_def list_upd_def)
  then show ?case by (simp add: retired_refl)
next
  case (Cons k ks)
  let ?m = "\<lambda>d k. status_of i d k AND DSA_COMP_STATUS_MASK"
  let ?x = "irq_pending_step E i k d"
  show ?case
  proof (cases "?m d k = 0")
    case True
    then have x: "?x = upd_ie i (\<lambda>ie. ie\<lparr>work_list := work_list ie @ [k]\<rparr>) d"
      by (simp add: irq_pending_step_def)
    have st: "status_of i ?x j = status_of i d j" for j
      using Cons.prems(1) by (simp add: x upd_ie_frame)
    have "retired i {k \<in> set ks. ?m ?x k \<noteq> 0}
        (upd_ie i (\<lambda>ie. ie\<lparr>work_list := work_list ie @ filter (\<lambda>k. ?m ?x k = 0) ks\<rparr>) ?x)
        (fold (irq_pending_step E i) ks ?x)"
      by (rule Cons.IH) (use Cons.prems in \<open>simp_all add: x upd_ie_frame\<close>)
    moreover have "upd_ie i (\<lambda>ie. ie\<lparr>work_list := work_list ie @ filter (\<lambda>k. ?m d k = 0) ks\<rparr>) ?x
        = upd_ie i (\<lambda>ie. ie\<lparr>work_list := work_list ie @ filter (\<lambda>k. ?m d k = 0) (k # ks)\<rparr>) d"
      using True by (simp add: x upd_ie_def upd_wq_def list_upd_list_upd comp_def)
    moreover have "{j \<in> set ks. ?m d j \<noteq> 0} = {j \<in> set (k # ks). ?m d j \<noteq> 0}"
      using True by auto
    ultimately show ?thesis by (simp only: st fold_simps)
  next
    case False
    have x: "retired i {k} d ?x"
      using False Cons.prems complete_txd_retired [of i d k E] by (simp add: irq_pending_step_def)
    have st: "status_of i ?x j = status_of i d j" if "j \<in> set ks" for j
      using x that Cons.prems(2) by (auto simp: retired_def)
    let ?f = "\<lambda>ie. ie\<lparr>work_list := work_list ie @ filter (\<lambda>k. ?m d k = 0) ks\<rparr>"
    have "retired i {k \<in> set ks. ?m ?x k \<noteq> 0}
        (upd_ie i (\<lambda>ie. ie\<lparr>work_list := work_list ie @ filter (\<lambda>k. ?m ?x k = 0) ks\<rparr>) ?x)
        (fold (irq_pending_step E i) ks ?x)"
      by (rule Cons.IH) (use Cons.prems x in \<open>simp_all add: retired_def\<close>)
    moreover have "filter (\<lambda>k. ?m ?x k = 0) ks = filter (\<lambda>k. ?m d k = 0) ks"
      by (rule filter_cong) (simp_all add: st)
    moreover have "{k \<in> set ks. ?m ?x k \<noteq> 0} = {k \<in> set ks. ?m d k \<noteq> 0}"
      using st by auto
    ultimately have rest: "retired i {k \<in> set ks. ?m d k \<noteq> 0} (upd_ie i ?f ?x)
        (fold (irq_pending_step E i) ks ?x)" by simp
    have "retired i ({k} \<union> {k \<in> set ks. ?m d k \<noteq> 0}) (upd_ie i ?f d)
        (fold (irq_pending_step E i) ks ?x)"
      by (rule retired_trans [OF retired_upd_ie [OF x Cons.prems(1)] rest]) (use Cons.prems in \<open>auto simp: upd_ie_frame\<close>)
    moreover have "{k} \<union> {k \<in> set ks. ?m d k \<noteq> 0} = {j \<in> set (k # ks). ?m d j \<noteq> 0}"
      using False by auto
    ultimately show ?thesis using False by simp
  qed
qed

lemma pool_lists:
  "pool_ok i d \<Longrightarrow> i < length (wqs d) \<and> distinct (lists_of i d) \<and>
     set (lists_of i d) \<subseteq> {..<length (wq_descs (wqs d ! i))}"
  unfolding pool_ok_def by blast

lemma work_phase:
  assumes ok: "pool_ok i d"
  shows "pool_ok i (irq_process_work_list E i d) \<and>
     (\<forall>k. if k \<in> set (work_list (wq_ie (wqs d ! i))) \<and> status_of i d k \<noteq> 0
          then slot i (irq_process_work_list E i d) k = Free \<or>
               slot i (irq_process_work_list E i d) k = Resubmitting \<and> request_int_handles d \<and>
                 status_of i d k = DSA_COMP_INT_HANDLE_INVAL
          else slot i (irq_process_work_list E i d) k = slot i d k)"
    and "pending_llist (wq_ie (wqs (irq_process_work_list E i d) ! i)) = pending_llist (wq_ie (wqs d ! i))"
    and "\<forall>k < length (wq_descs (wqs d ! i)). status_of i (irq_process_work_list E i d) k = status_of i d k"
    and "request_int_handles (irq_process_work_list E i d) = request_int_handles d"
proof -
  let ?w = "work_list (wq_ie (wqs d ! i))"
  let ?done = "\<lambda>k. status_of i d k \<noteq> 0"
  let ?d1 = "upd_ie i (\<lambda>ie. ie\<lparr>work_list := filter (\<lambda>k. \<not> ?done k) ?w\<rparr>) d"
  note [simp] = upd_ie_frame [OF conjunct1 [OF pool_lists [OF ok]]]
  have eq: "irq_process_work_list E i d = fold (irq_complete_step E i) (filter ?done ?w) ?d1"
  proof (cases "?w = []")
    case True
    then have "?d1 = d" by (intro upd_ie_id) (cases "wq_ie (wqs d ! i)", simp)
    with True show ?thesis by (simp add: irq_process_work_list_def)
  qed (simp add: irq_process_work_list_def Let_def)
  have "retired i (set (filter ?done ?w)) ?d1 (irq_process_work_list E i d)"
    unfolding eq by (rule fold_retired [OF complete_step_retired])
      (use pool_lists [OF ok] in auto)
  then have ret: "retired i {k \<in> set ?w. ?done k} ?d1 (irq_process_work_list E i d)" by simp
  then show "pending_llist (wq_ie (wqs (irq_process_work_list E i d) ! i)) = pending_llist (wq_ie (wqs d ! i))"
    and "\<forall>k < length (wq_descs (wqs d ! i)). status_of i (irq_process_work_list E i d) k = status_of i d k"
    and "request_int_handles (irq_process_work_list E i d) = request_int_handles d"
    by (simp_all add: retired_def)
  have "pool_ok i (irq_process_work_list E i d) \<and>
     (\<forall>k. if k \<in> {k \<in> set ?w. ?done k}
          then slot i (irq_process_work_list E i d) k = Free \<or>
               slot i (irq_process_work_list E i d) k = Resubmitting \<and> request_int_handles d \<and>
                 status_of i d k = DSA_COMP_INT_HANDLE_INVAL
          else slot i (irq_process_work_list E i d) k = slot i d k)"
    by (rule retired_slots [OF ok ret]) (use pool_lists [OF ok] in auto)
  then show "pool_ok i (irq_process_work_list E i d) \<and>
     (\<forall>k. if k \<in> set ?w \<and> ?done k
          then slot i (irq_process_work_list E i d) k = Free \<or>
               slot i (irq_process_work_list E i d) k = Resubmitting \<and> request_int_handles d \<and>
                 status_of i d k = DSA_COMP_INT_HANDLE_INVAL
          else slot i (irq_process_work_list E i d) k = slot i d k)" by simp
qed

lemma pending_phase:
  assumes ok: "pool_ok i d"
  shows "pool_ok i (irq_process_pending_llist E i d) \<and>
     (\<forall>k. if k \<in> set (pending_llist (wq_ie (wqs d ! i))) \<and>
             status_of i d k AND DSA_COMP_STATUS_MASK \<noteq> 0
          then slot i (irq_process_pending_llist E i d) k = Free \<or>
               slot i (irq_process_pending_llist E i d) k = Resubmitting \<and> request_int_handles d \<and>
                 status_of i d k = DSA_COMP_INT_HANDLE_INVAL
          else slot i (irq_process_pending_llist E i d) k = slot i d k)"
proof -
  let ?h = "pending_llist (wq_ie (wqs d ! i))"
  let ?m = "\<lambda>k. status_of i d k AND DSA_COMP_STATUS_MASK"
  let ?d0 = "upd_ie i (\<lambda>ie. ie\<lparr>pending_llist := []\<rparr>) d"
  let ?d1 = "upd_ie i (\<lambda>ie. ie\<lparr>work_list := work_list ie @ filter (\<lambda>k. ?m k = 0) ?h\<rparr>) ?d0"
  have i: "i < length (wqs d)" "i < length (wqs ?d0)" using pool_lists [OF ok] by (simp_all add: upd_ie_def)
  note [simp] = upd_ie_frame [OF i(1)] upd_ie_frame [OF i(2)]
  have "retired i {k \<in> set ?h. status_of i ?d0 k AND DSA_COMP_STATUS_MASK \<noteq> 0}
     (upd_ie i (\<lambda>ie. ie\<lparr>work_list := work_list ie @
         filter (\<lambda>k. status_of i ?d0 k AND DSA_COMP_STATUS_MASK = 0) ?h\<rparr>) ?d0)
     (fold (irq_pending_step E i) ?h ?d0)"
    by (rule pending_fold) (use pool_lists [OF ok] in auto)
  then have ret: "retired i {k \<in> set ?h. ?m k \<noteq> 0} ?d1 (irq_process_pending_llist E i d)"
    by (simp add: irq_process_pending_llist_def Let_def)
  have "pool_ok i (irq_process_pending_llist E i d) \<and>
     (\<forall>k. if k \<in> {k \<in> set ?h. ?m k \<noteq> 0}
          then slot i (irq_process_pending_llist E i d) k = Free \<or>
               slot i (irq_process_pending_llist E i d) k = Resubmitting \<and> request_int_handles d \<and>
                 status_of i d k = DSA_COMP_INT_HANDLE_INVAL
          else slot i (irq_process_pending_llist E i d) k = slot i d k)"
    by (rule retired_slots [OF ok ret]) (use pool_lists [OF ok] in auto)
  then show ?thesis by simp
qed

text \<open>A descriptor of which the interrupt thread sees the completion.\<close>

definition posted :: "nat \<Rightarrow> idxd_device \<Rightarrow> nat \<Rightarrow> bool" where
  "posted i d k \<longleftrightarrow>
     (if k \<in> set (work_list (wq_ie (wqs d ! i))) then status_of i d k \<noteq> 0
      else k \<in> set (pending_llist (wq_ie (wqs d ! i))) \<and>
           status_of i d k AND DSA_COMP_STATUS_MASK \<noteq> 0)"


subsection \<open>Properties of the descriptor pool\<close>

text \<open>
  Documented behaviour of \<^verbatim>\<open>sbitmap_queue_get\<close>: it returns a free index below the depth, and
  fails only when there is none.
\<close>

definition sbq_ok :: "env \<Rightarrow> bool" where
  "sbq_ok E \<longleftrightarrow>
     (\<forall>A n. case sbq_pick E A n of
              None \<Rightarrow> {..<n} \<subseteq> A
            | Some (k, cpu) \<Rightarrow> k < n \<and> k \<notin> A)"

text \<open>
  C31: a non-blocking allocation always returns. It fails with -EIO when the device is not
  enabled and with -EAGAIN exactly when no slot is free, leaving the device as it was; otherwise
  it moves one free slot to the caller, keeps every other slot and the pool invariant, and hands
  out a descriptor that is zero except for the device's PASID and the allocating CPU.
\<close>
theorem alloc_desc_nonblock:
  assumes "pool_ok i d" "sbq_ok E"
  shows "case idxd_alloc_desc E i IDXD_OP_NONBLOCK rounds d of
      None \<Rightarrow> False
    | Some (Inl e, d') \<Rightarrow> d' = d \<and>
        (if dev_state d \<noteq> IDXD_DEV_ENABLED then e = - EIO
         else e = - EAGAIN \<and> (\<forall>k < nat (num_descs (wqs d ! i)). slot i d k \<noteq> Free))
    | Some (Inr k, d') \<Rightarrow> dev_state d = IDXD_DEV_ENABLED \<and> pool_ok i d' \<and>
        slot i d k = Free \<and> slot i d' k = Owned \<and> (\<forall>j. j \<noteq> k \<longrightarrow> slot i d' j = slot i d j) \<and>
        compl_status (the_desc i k d') = 0 \<and>
        desc_hw (the_desc i k d') =
          zero_hw_desc\<lparr>hd_pasid := (if device_pasid_enabled d then take_bit 20 (pasid d) else 0)\<rparr>"
proof -
  let ?w = "wqs d ! i" and ?n = "nat (num_descs (wqs d ! i))"
  have i: "i < length (wqs d)" using assms(1) by (simp add: pool_ok_def)
  have n: "?n = length (wq_descs ?w)" using assms(1) by (simp add: pool_ok_def)
  show ?thesis
  proof (cases "sbq_pick E (sbq_alloc ?w) ?n")
    case None
    have "case sbq_pick E (sbq_alloc ?w) ?n of None \<Rightarrow> {..<?n} \<subseteq> sbq_alloc ?w
        | Some (k, cpu) \<Rightarrow> k < ?n \<and> k \<notin> sbq_alloc ?w"
      using assms(2) unfolding sbq_ok_def by blast
    with None have full: "{..<?n} \<subseteq> sbq_alloc ?w" by simp
    have "slot i d k \<noteq> Free" if "k < ?n" for k
      using full that by (auto simp: slot_def)
    then show ?thesis using None by (simp add: idxd_alloc_desc_def sbitmap_queue_get_def Let_def)
  next
    case (Some r)
    obtain k cpu where r: "r = (k, cpu)" by (cases r)
    have "case sbq_pick E (sbq_alloc ?w) ?n of None \<Rightarrow> {..<?n} \<subseteq> sbq_alloc ?w
        | Some (k, cpu) \<Rightarrow> k < ?n \<and> k \<notin> sbq_alloc ?w"
      using assms(2) unfolding sbq_ok_def by blast
    with Some r n have k: "k < length (wq_descs ?w)" "k \<notin> sbq_alloc ?w" by simp_all
    have kf: "k \<notin> set (lists_of i d)" "held d (K (Resubmit i k)) = 0"
      using k(2) assms(1) unfolding pool_ok_def by blast+
    define d1 where "d1 = upd_wq i (\<lambda>w. w\<lparr>sbq_alloc := insert k (sbq_alloc w)\<rparr>) d"
    have d': "idxd_alloc_desc E i IDXD_OP_NONBLOCK rounds d =
        (if dev_state d \<noteq> IDXD_DEV_ENABLED then Some (Inl (- EIO), d)
         else Some (Inr k, get_desc i k cpu d1))"
      using Some r by (simp add: idxd_alloc_desc_def sbitmap_queue_get_def Let_def d1_def)
    define d2 where "d2 = get_desc i k cpu d1"
    have p: "device_pasid_enabled d1 = device_pasid_enabled d" "pasid d1 = pasid d"
      by (simp_all add: d1_def device_pasid_enabled_def)
    have [simp]: "wq_ie (wqs d2 ! i) = wq_ie ?w" "sbq_alloc (wqs d2 ! i) = insert k (sbq_alloc ?w)"
      "length (wq_descs (wqs d2 ! i)) = length (wq_descs ?w)" "num_descs (wqs d2 ! i) = num_descs ?w"
      "length (wqs d2) = length (wqs d)" "held d2 = held d"
      using i by (simp_all add: d2_def get_desc_def upd_desc_def d1_def nth_list_upd)
    have dk: "compl_status (the_desc i k d2) = 0" "desc_hw (the_desc i k d2) =
          zero_hw_desc\<lparr>hd_pasid := (if device_pasid_enabled d then take_bit 20 (pasid d) else 0)\<rparr>"
      using i k(1) unfolding d2_def get_desc_def
      by (simp_all add: the_desc_upd_desc d1_def nth_list_upd Let_def p [unfolded d1_def] zero_hw_desc_def)
    have "pool_ok i d2"
      using assms(1) k kf unfolding pool_ok_def by auto
    moreover have "slot i d k = Free" "slot i d2 k = Owned"
      using k kf by (simp_all add: slot_def)
    moreover have "slot i d2 j = slot i d j" if "j \<noteq> k" for j
      using that by (simp add: slot_def)
    ultimately show ?thesis using d' dk by (simp add: d2_def)
  qed
qed

text \<open>
  C32: a blocking allocation returns as soon as, in one of its rounds, a signal is pending: it
  never sleeps past it, whatever the other threads do.
\<close>
theorem alloc_desc_blocking_returns:
  assumes "(True, f) \<in> set rounds"
  shows "idxd_alloc_desc E i IDXD_OP_BLOCK rounds d \<noteq> None"
proof -
  have nn: "alloc_wait E i rounds d \<noteq> None" for d
    using assms
  proof (induction rounds arbitrary: d)
    case Nil
    then show ?case by simp
  next
    case (Cons r rounds)
    obtain sig others where r: "r = (sig, others)" by (cases r)
    show ?case
    proof (cases sig)
      case True
      then show ?thesis by (simp add: r)
    next
      case False
      then have "(True, f) \<in> set rounds" using Cons.prems by (simp add: r)
      then show ?thesis using Cons.IH False by (simp add: r split: prod.splits option.splits)
    qed
  qed
  show ?thesis
  proof (cases "sbitmap_queue_get E i d")
    case (Pair r d1)
    then show ?thesis
      using nn [of d1] by (cases r; cases "alloc_wait E i rounds d1")
        (auto simp: idxd_alloc_desc_def split: prod.splits option.splits)
  qed
qed


lemma enqcmds_loop_spec:
  "\<exists>rcs. trace (snd (enqcmds_loop E c n d)) =
      map (\<lambda>r. (Svc c, r)) (fst (enqcmds_loop E c n d) # rcs) @ trace d \<and>
      length rcs \<le> n \<and> 0 \<notin> set rcs \<and> (fst (enqcmds_loop E c n d) \<noteq> 0 \<longrightarrow> length rcs = n) \<and>
      snd (enqcmds_loop E c n d) = d\<lparr>trace := trace (snd (enqcmds_loop E c n d))\<rparr>"
proof (induction n arbitrary: d)
  case 0
  have "enqcmds_loop E c 0 d = ext E (Svc c) d"
    by (subst enqcmds_loop.simps) (simp add: split_beta prod_eq_iff)
  then show ?case by (simp add: ext_def Let_def)
next
  case (Suc n)
  let ?r = "fst (ext E (Svc c) d)" and ?d = "snd (ext E (Svc c) d)"
  have t: "trace ?d = (Svc c, ?r) # trace d" "?d = d\<lparr>trace := trace ?d\<rparr>"
    by (simp_all add: ext_def Let_def)
  show ?case
  proof (cases "?r = 0")
    case True
    then have "enqcmds_loop E c (Suc n) d = (0, ?d)"
      by (subst enqcmds_loop.simps) (simp add: split_beta)
    then show ?thesis using t True by (intro exI [of _ "[]"]) simp
  next
    case False
    then have e: "enqcmds_loop E c (Suc n) d = enqcmds_loop E c n ?d"
      by (subst enqcmds_loop.simps) (simp add: split_beta)
    obtain rcs where r: "trace (snd (enqcmds_loop E c n ?d)) =
        map (\<lambda>r. (Svc c, r)) (fst (enqcmds_loop E c n ?d) # rcs) @ trace ?d"
      "length rcs \<le> n" "0 \<notin> set rcs" "fst (enqcmds_loop E c n ?d) \<noteq> 0 \<longrightarrow> length rcs = n"
      "snd (enqcmds_loop E c n ?d) = ?d\<lparr>trace := trace (snd (enqcmds_loop E c n ?d))\<rparr>"
      using Suc.IH [of ?d] by blast
    have "snd (enqcmds_loop E c n ?d) = d\<lparr>trace := trace (snd (enqcmds_loop E c n ?d))\<rparr>"
      by (subst r(5)) (subst t(2), simp)
    then show ?thesis
      using r t False by (intro exI [of _ "rcs @ [?r]"]) (simp add: e)
  qed
qed

lemma enqcmds_loop_frame:
  "snd (enqcmds_loop E c n d) = d\<lparr>trace := trace (snd (enqcmds_loop E c n d))\<rparr>"
  using enqcmds_loop_spec by blast

text \<open>
  submitting with ENQCMDS makes at most one attempt more than the configured number of
  retries, each of them the same descriptor to the same portal address; it stops at the first
  success, and an error return means that every attempt failed.
\<close>
theorem enqcmds_bounded:
  "let (rc, d') = idxd_enqcmds E i p hw d; n = unat (enqcmds_retries (wqs d ! i)) in
     \<exists>rcs. trace d' = map (\<lambda>r. (Svc (Enqcmds i p hw), r)) (rc # rcs) @ trace d \<and>
       length rcs \<le> n \<and> 0 \<notin> set rcs \<and> (rc \<noteq> 0 \<longrightarrow> length rcs = n) \<and>
       d' = d\<lparr>trace := trace d'\<rparr>"
  using enqcmds_loop_spec [of E "Enqcmds i p hw"]
  by (simp add: idxd_enqcmds_def Let_def split_beta)


lemma enqcmds_frame:
  "wqs (snd (idxd_enqcmds E i p hw d)) = wqs d" "held (snd (idxd_enqcmds E i p hw d)) = held d"
proof -
  have "snd (idxd_enqcmds E i p hw d) = d\<lparr>trace := trace (snd (idxd_enqcmds E i p hw d))\<rparr>"
    using enqcmds_loop_frame [of E "Enqcmds i p hw"] by (simp add: idxd_enqcmds_def)
  then have "wqs (snd (idxd_enqcmds E i p hw d)) = wqs (d\<lparr>trace := trace (snd (idxd_enqcmds E i p hw d))\<rparr>)"
    "held (snd (idxd_enqcmds E i p hw d)) = held (d\<lparr>trace := trace (snd (idxd_enqcmds E i p hw d))\<rparr>)"
    by (simp_all only:)
  then show "wqs (snd (idxd_enqcmds E i p hw d)) = wqs d" "held (snd (idxd_enqcmds E i p hw d)) = held d"
    by simp_all
qed

lemma slots_cong:
  assumes "wq_ie (wqs d' ! i) = wq_ie (wqs d ! i)" "sbq_alloc (wqs d' ! i) = sbq_alloc (wqs d ! i)"
    "held d' = held d"
  shows "slot i d' k = slot i d k"
  using assms by (simp add: slot_def)



lemma finish_txd_frame:
  assumes "i < length (wqs d)"
  shows "held (finish_txd E i k r b d) = held d"
    and "length (wqs (finish_txd E i k r b d)) = length (wqs d)"
    and "wq_ie (wqs (finish_txd E i k r b d) ! i) = wq_ie (wqs d ! i)"
    and "sbq_alloc (wqs (finish_txd E i k r b d) ! i) =
           (if b then sbq_alloc (wqs d ! i) - {k} else sbq_alloc (wqs d ! i))"
    and "j \<noteq> k \<Longrightarrow> j < length (wq_descs (wqs d ! i)) \<Longrightarrow>
           the_desc i j (finish_txd E i k r b d) = the_desc i j d"
    and "length (wq_descs (wqs (finish_txd E i k r b d) ! i)) = length (wq_descs (wqs d ! i))"
  using assms
  by (simp_all add: finish_txd_def Let_def idxd_free_desc_def upd_desc_def nth_list_upd the_desc_def
      split: option.splits)

lemma abort_complete_eq:
  "\<exists>r. idxd_dma_complete_txd E i k IDXD_COMPLETE_ABORT b d = finish_txd E i k (Some r) b d"
  by (auto simp: idxd_dma_complete_txd_def Let_def)

lemma abort_flist_frame:
  assumes "i < length (wqs d)"
  shows "\<exists>d'. abort_flist E i (Some k) xs d = Some d' \<and> held d' = held d \<and>
     wq_ie (wqs d' ! i) = wq_ie (wqs d ! i) \<and>
     sbq_alloc (wqs d' ! i) = (if xs = [] then sbq_alloc (wqs d ! i) else sbq_alloc (wqs d ! i) - {k}) \<and>
     (\<forall>j. j \<noteq> k \<longrightarrow> j < length (wq_descs (wqs d ! i)) \<longrightarrow> the_desc i j d' = the_desc i j d)"
  using assms
proof (induction xs arbitrary: d)
  case Nil
  then show ?case by simp
next
  case (Cons x xs)
  obtain r where r: "idxd_dma_complete_txd E i k IDXD_COMPLETE_ABORT True d = finish_txd E i k (Some r) True d"
    using abort_complete_eq by blast
  let ?x = "finish_txd E i k (Some r) True d"
  note f = finish_txd_frame [OF Cons.prems, where E = E and k = k and r = "Some r" and b = True]
  from Cons.IH [of ?x] Cons.prems f obtain d' where
    "abort_flist E i (Some k) xs ?x = Some d'" "held d' = held ?x" "wq_ie (wqs d' ! i) = wq_ie (wqs ?x ! i)"
    "sbq_alloc (wqs d' ! i) = (if xs = [] then sbq_alloc (wqs ?x ! i) else sbq_alloc (wqs ?x ! i) - {k})"
    "\<forall>j. j \<noteq> k \<longrightarrow> j < length (wq_descs (wqs ?x ! i)) \<longrightarrow> the_desc i j d' = the_desc i j ?x"
    by auto
  then show ?case using f by (simp add: r)
qed

text \<open>
  the abort path drops finished descriptors. When the submitter aborts a descriptor of the
  pending list, every other pending descriptor whose completion is already posted is taken off
  the lists and never completed: its cookie and callback are left as they were and its slot
  stays allocated with no list holding it, while the aborted descriptor is freed instead.
\<close>
theorem abort_loses_finished:
  assumes ok: "pool_ok i d" and k: "k \<in> set (pending_llist (wq_ie (wqs d ! i)))"
    and j: "j \<in> set (pending_llist (wq_ie (wqs d ! i)))" "j \<noteq> k" "status_of i d j \<noteq> 0"
  shows "\<exists>d'. llist_abort_desc E i k d = Some d' \<and>
     slot i d' j = Owned \<and> the_desc i j d' = the_desc i j d \<and> slot i d' k = Free"
proof -
  let ?head = "pending_llist (wq_ie (wqs d ! i))"
  define d1 where "d1 = upd_desc i k (\<lambda>x. x\<lparr>compl_status := IDXD_COMP_DESC_ABORT\<rparr>) d"
  have i: "i < length (wqs d)" using ok by (simp add: pool_ok_def)
  have jl: "j < length (wq_descs (wqs d ! i))" using pool_lists [OF ok] j(1) by auto
  have d1: "length (wqs d1) = length (wqs d)" "held d1 = held d" "wq_ie (wqs d1 ! i) = wq_ie (wqs d ! i)"
    "sbq_alloc (wqs d1 ! i) = sbq_alloc (wqs d ! i)" "the_desc i j d1 = the_desc i j d"
    "length (wq_descs (wqs d1 ! i)) = length (wq_descs (wqs d ! i))"
    using i jl j(2) by (simp_all add: d1_def upd_desc_def nth_list_upd the_desc_def)
  define fin where "fin = (\<lambda>x. status_of i d1 x \<noteq> 0)"
  define d2 where "d2 = upd_ie i (\<lambda>ie. ie\<lparr>work_list := work_list ie @ filter (\<lambda>x. x \<noteq> k \<and> \<not> fin x) ?head\<rparr>)
      (upd_ie i (\<lambda>ie. ie\<lparr>pending_llist := []\<rparr>) d1)"
  have i2: "i < length (wqs (upd_ie i (\<lambda>ie. ie\<lparr>pending_llist := []\<rparr>) d1))" "i < length (wqs d1)"
    using i d1 by (simp_all add: upd_ie_def)
  note ie = upd_ie_frame [OF i2(1)] upd_ie_frame [OF i2(2)]
  have d2: "lists_of i d2 = work_list (wq_ie (wqs d ! i)) @ filter (\<lambda>x. x \<noteq> k \<and> \<not> fin x) ?head"
    "held d2 = held d" "sbq_alloc (wqs d2 ! i) = sbq_alloc (wqs d ! i)" "the_desc i j d2 = the_desc i j d"
    "length (wq_descs (wqs d2 ! i)) = length (wq_descs (wqs d ! i))" "i < length (wqs d2)"
    using i d1 by (simp_all add: d2_def ie)
  obtain r where r: "idxd_dma_complete_txd E i k IDXD_COMPLETE_ABORT False d2 = finish_txd E i k (Some r) False d2"
    using abort_complete_eq by blast
  let ?x = "finish_txd E i k (Some r) False d2" and ?fl = "filter (\<lambda>x. x \<noteq> k \<and> fin x) ?head"
  note f = finish_txd_frame [OF d2(6), where E = E and k = k and r = "Some r" and b = False]
  have eq: "llist_abort_desc E i k d = abort_flist E i (Some k) ?fl ?x"
    using k d1(3) r by (simp add: llist_abort_desc_def Let_def d1_def [symmetric] ie fin_def d2_def)
  have "fin j" using j(3) d1(5) by (simp add: fin_def)
  then have fl: "?fl \<noteq> []" using j by (auto simp: filter_empty_conv)
  obtain d' where d': "abort_flist E i (Some k) ?fl ?x = Some d'" "held d' = held ?x"
    "wq_ie (wqs d' ! i) = wq_ie (wqs ?x ! i)" "sbq_alloc (wqs d' ! i) = sbq_alloc (wqs ?x ! i) - {k}"
    "the_desc i j d' = the_desc i j ?x"
    using abort_flist_frame [of i ?x E k ?fl] f d2(5,6) fl j(2) jl by auto
  have off: "j \<notin> set (work_list (wq_ie (wqs d ! i)))" "k \<notin> set (work_list (wq_ie (wqs d ! i)))"
    "held d (K (Resubmit i j)) = 0" "held d (K (Resubmit i k)) = 0" "j \<in> sbq_alloc (wqs d ! i)"
    using ok j(1) k unfolding pool_ok_def by auto
  have "slot i d' j = Owned" "slot i d' k = Free"
    using d' f d2 off \<open>fin j\<close> j(2) unfolding slot_def by (auto simp: d'(3))
  then show ?thesis using eq d' f(5) [OF j(2)] jl d2(4,5) by auto
qed


text \<open>
  aborting a descriptor that the interrupt thread already took off the pending list, while
  another finished descriptor is pending, dereferences NULL.
\<close>
theorem abort_null_dereference:
  assumes i: "i < length (wqs d)" and k: "k \<notin> set (lists_of i d)" "k < length (wq_descs (wqs d ! i))"
    and j: "j \<in> set (pending_llist (wq_ie (wqs d ! i)))" "status_of i d j \<noteq> 0"
  shows "llist_abort_desc E i k d = None"
proof -
  let ?head = "pending_llist (wq_ie (wqs d ! i))"
  define d1 where "d1 = upd_desc i k (\<lambda>x. x\<lparr>compl_status := IDXD_COMP_DESC_ABORT\<rparr>) d"
  have jk: "j \<noteq> k" using k j by auto
  have d1: "length (wqs d1) = length (wqs d)" "wq_ie (wqs d1 ! i) = wq_ie (wqs d ! i)"
    "status_of i d1 j = status_of i d j"
    using i jk by (simp_all add: d1_def upd_desc_def nth_list_upd the_desc_def list_upd_def)
  have i2: "i < length (wqs (upd_ie i (\<lambda>ie. ie\<lparr>pending_llist := []\<rparr>) d1))" "i < length (wqs d1)"
    using i d1 by (simp_all add: upd_ie_def)
  note ie = upd_ie_frame [OF i2(1)] upd_ie_frame [OF i2(2)]
  have "filter (\<lambda>x. x \<noteq> k \<and> status_of i d1 x \<noteq> 0) ?head \<noteq> []"
    using j jk d1(3) by (auto simp: filter_empty_conv)
  then obtain x xs where "filter (\<lambda>x. x \<noteq> k \<and> status_of i d1 x \<noteq> 0) ?head = x # xs"
    by (meson neq_Nil_conv)
  then show ?thesis
    using k(1) by (simp add: llist_abort_desc_def Let_def d1_def [symmetric] d1(2) ie list_abort_desc_def)
qed

text \<open>
  what the client of a descriptor with a cookie and a callback learns from its completion:
  success for status 1, a write failure for any other posted status, an abort for an unposted
  one that is being aborted; nothing is reported for an unposted one that is not, nor when the
  descriptor goes to the resubmission work instead. The callback is invoked once and cleared.
\<close>
theorem complete_txd_reports:
  assumes i: "i < length (wqs d)" and k: "k < length (wq_descs (wqs d ! i))"
    and tx: "txd_cookie (the_desc i k d) \<noteq> 0" "txd_callback (the_desc i k d)"
  shows "let d' = idxd_dma_complete_txd E i k c free d; st = status_of i d k;
             requeue = (st = DSA_COMP_INT_HANDLE_INVAL \<and> request_int_handles d \<and>
                        c \<noteq> IDXD_COMPLETE_ABORT \<and> 0 \<le> fst (acquire E (K (Resubmit i k)) d));
             result = (if requeue then None
                       else if st = DSA_COMP_SUCCESS then Some DMA_TRANS_NOERROR
                       else if st \<noteq> 0 then Some DMA_TRANS_WRITE_FAILED
                       else if c = IDXD_COMPLETE_ABORT then Some DMA_TRANS_ABORTED else None)
         in {r. \<exists>n. (Svc (Callback i k r), n) \<in> set (trace d') \<and> (Svc (Callback i k r), n) \<notin> set (trace d)}
              \<subseteq> (case result of None \<Rightarrow> {} | Some r \<Rightarrow> {r}) \<and>
            (case result of None \<Rightarrow> txd_callback (the_desc i k d')
             | Some r \<Rightarrow> (Svc (Callback i k r), 0) \<in> set (trace d') \<and> \<not> txd_callback (the_desc i k d'))"
proof -
  have fin: "trace (finish_txd E i k (Some r) free x) =
        (Svc (Callback i k r), 0) # (Svc (CookieComplete i k), 0) # trace x"
      "\<not> txd_callback (the_desc i k (finish_txd E i k (Some r) free x))"
      "trace (finish_txd E i k None free x) = trace x"
      "txd_callback (the_desc i k (finish_txd E i k None free x))"
    if "wqs x = wqs d" for r x
    using that i k tx
    by (simp_all add: finish_txd_def Let_def idxd_free_desc_def upd_desc_def the_desc_def nth_list_upd
        notify_def)
  let ?q = "idxd_queue_int_handle_resubmit E i k d" and ?a = "acquire E (K (Resubmit i k)) d"
  have q: "fst ?q \<longleftrightarrow> 0 \<le> fst ?a" "wqs (snd ?q) = wqs d"
    "\<And>r n. (Svc (Callback i k r), n) \<in> set (trace (snd ?q)) \<longleftrightarrow> (Svc (Callback i k r), n) \<in> set (trace d)"
    by (auto simp: idxd_queue_int_handle_resubmit_def acquire_def ext_def notify_def Let_def)
  have "txd_callback (the_desc i k (snd ?q))" using tx q(2) by (simp add: the_desc_def)
  then show ?thesis
    using fin [of d] fin [of "snd ?q"] q tx
    by (auto simp: idxd_dma_complete_txd_def Let_def split_beta)
qed

subsection \<open>Witnesses\<close>

text \<open>Queue 0 with two descriptors in flight, the older one finished; a third one is owned.\<close>

definition sample_pool :: idxd_device where
  "sample_pool = sample_dev\<lparr>wqs := [zero_wq
     \<lparr>wq_state := IDXD_WQ_ENABLED, ref_live := True, wq_flags := 1, num_descs := 3, sbq_alloc := {0, 1, 2},
      wq_descs := [zero_desc, zero_desc\<lparr>compl_status := 1, txd_cookie := 7, txd_callback := True\<rparr>,
                   zero_desc\<lparr>desc_hw := zero_hw_desc\<lparr>hd_flags := IDXD_OP_FLAG_RCI\<rparr>\<rparr>],
      wq_ie := zero_irq_entry\<lparr>pending_llist := [0, 1]\<rparr>\<rparr>]\<rparr>"

lemma sample_pool_ok: "pool_ok 0 sample_pool"
  by (auto simp: pool_ok_def sample_pool_def sample_dev_def zero_defs)


lemma sample_sbq_ok: "sbq_ok sample_env"
  by (auto simp: sbq_ok_def sample_env_def find_None_iff find_Some_iff split: option.splits)

theorem alloc_desc_nonblock_witness:
  "case idxd_alloc_desc sample_env 0 IDXD_OP_NONBLOCK [] sample_pool of
     Some (Inl e, d') \<Rightarrow> d' = sample_pool | _ \<Rightarrow> False"
proof -
  have "slot 0 sample_pool k \<noteq> Free" if "k \<le> 2" for k
    using that by (auto simp: slot_def sample_pool_def zero_defs)
  moreover have "idxd_alloc_desc sample_env 0 IDXD_OP_NONBLOCK [] sample_pool = Some (Inr k, d') \<Longrightarrow>
      k \<le> 2" for k d'
    by (auto simp: idxd_alloc_desc_def sbitmap_queue_get_def sample_env_def sample_pool_def
        sample_dev_def zero_defs Let_def upt_rec)
  ultimately show ?thesis
    using alloc_desc_nonblock [OF sample_pool_ok sample_sbq_ok, of "[]"]
    by (auto split: option.splits prod.splits sum.splits)
qed

theorem alloc_desc_blocking_returns_witness:
  "idxd_alloc_desc sample_env 0 IDXD_OP_BLOCK [(False, \<lambda>d. d), (True, \<lambda>d. d)] sample_pool \<noteq> None"
  by (rule alloc_desc_blocking_returns [of "\<lambda>d. d"]) simp


theorem abort_loses_finished_witness:
  "\<exists>d'. llist_abort_desc sample_env 0 0 sample_pool = Some d' \<and> slot 0 d' 1 = Owned"
  using abort_loses_finished [OF sample_pool_ok, of 0 1 sample_env]
  by (auto simp: sample_pool_def zero_defs the_desc_def)

theorem abort_null_dereference_witness: "llist_abort_desc sample_env 0 2 sample_pool = None"
  by (rule abort_null_dereference [of _ _ _ 1])
    (simp_all add: sample_pool_def sample_dev_def zero_defs the_desc_def)

theorem complete_txd_reports_witness:
  "(Svc (Callback 0 1 DMA_TRANS_NOERROR), 0) \<in>
     set (trace (idxd_dma_complete_txd sample_env 0 1 IDXD_COMPLETE_NORMAL True sample_pool))"
  using complete_txd_reports [of 0 sample_pool 1 sample_env IDXD_COMPLETE_NORMAL True]
  by (simp add: sample_pool_def sample_dev_def zero_defs the_desc_def Let_def)

end
