(* ===== verification/Config.thy ===== *)
theory Config
  imports Command
begin

text \<open>
  The device configuration of \<^verbatim>\<open>idxd/device.c\<close>: the group and queue registers written from
  the driver's state before a queue or the device is enabled, and loaded into it from a device
  that is not configurable. The event log's registers are set up here as well.
\<close>

subsection \<open>Event log set-up\<close>

text \<open>
  A DMA allocation's non-negative code stands for the bus address. The bitmap and the log are
  zeroed.
\<close>

definition zero_evl_entry :: evl_entry where
  "zero_evl_entry =
     \<lparr>ee_desc_valid = False, ee_batch = False, ee_error = 0, ee_wq_idx = 0, ee_batch_id = 0,
      ee_pasid = 0, ee_rci = False, ee_rcr = False, ee_first_err_in_batch = False,
      ee_fault_addr = 0, ee_cr_status = 0, ee_cr_result = 0\<rparr>"

definition idxd_device_evl_setup :: "env \<Rightarrow> idxd_device \<Rightarrow> int \<times> idxd_device" where
  "idxd_device_evl_setup E d =
     (case dev_evl d of
        None \<Rightarrow> (0, d)
      | Some evl \<Rightarrow>
          let size = evl_total_size d evl;
              (rc, d) = acquire E (D EvlBmap) d
          in if rc < 0 then (- ENOMEM, d)
             else
               let (rc, d) = acquire E (D EvlLog) d
               in if rc < 0 then (- ENOMEM, release (D EvlBmap) d)
                  else
                    let dma = word_of_int rc :: u64;
                        evl = evl\<lparr>evl_log := Some (\<lambda>_. zero_evl_entry), evl_dma := dma,
                                  evl_log_size := size, evl_bmap := {}\<rparr>;
                        d = d\<lparr>dev_evl := Some evl\<rparr>;
                        d = iowrite64 E (dma AND NOT (mask 12)) IDXD_EVLCFG_OFFSET d;
                        d = iowrite64 E (setf evlcfg_reg1 ''size'' (ucast (evl_size evl)) 0)
                              (IDXD_EVLCFG_OFFSET + 8) d;
                        d = iowrite32 E (setf genctrl_reg ''evl_int_en'' 1
                              (ioread32 IDXD_GENCTRL_OFFSET d)) IDXD_GENCTRL_OFFSET d;
                        d = iowrite32 E (setf gencfg_reg ''evl_en'' 1
                              (ioread32 IDXD_GENCFG_OFFSET d)) IDXD_GENCFG_OFFSET d
                    in (0, d))"

text \<open>
  With the enable bit set and no event log the source dereferences \<^verbatim>\<open>NULL\<close>; the result is then
  \<^const>\<open>None\<close>.
\<close>

definition idxd_device_evl_free :: "env \<Rightarrow> idxd_device \<Rightarrow> idxd_device option" where
  "idxd_device_evl_free E d =
     (let gencfg = ioread32 IDXD_GENCFG_OFFSET d in
      if getf gencfg_reg ''evl_en'' gencfg = 0 then Some d
      else case dev_evl d of
        None \<Rightarrow> None
      | Some evl \<Rightarrow>
          let d = iowrite32 E (setf gencfg_reg ''evl_en'' 0 gencfg) IDXD_GENCFG_OFFSET d;
              d = iowrite32 E (setf genctrl_reg ''evl_int_en'' 0
                    (ioread32 IDXD_GENCTRL_OFFSET d)) IDXD_GENCTRL_OFFSET d;
              d = iowrite64 E 0 IDXD_EVLCFG_OFFSET d;
              d = iowrite64 E 0 (IDXD_EVLCFG_OFFSET + 8) d;
              d = release (D EvlBmap) (release (D EvlLog) d)
          in Some (d\<lparr>dev_evl := Some (evl\<lparr>evl_log := None, evl_size := IDXD_EVL_SIZE_MIN\<rparr>)\<rparr>))"

subsection \<open>Groups\<close>

definition idxd_group_config_write :: "env \<Rightarrow> nat \<Rightarrow> idxd_device \<Rightarrow> idxd_device" where
  "idxd_group_config_write E g d =
     (let grp = groups d ! g;
          d = fold (\<lambda>i. iowrite64 E (grpcfg_wqs grp ! i) (GRPWQCFG_OFFSET (grpcfg_offset d) (grp_id grp) i))
                [0..<GRPWQCFG_STRIDES] d;
          d = iowrite64 E (grpcfg_engines grp) (GRPENGCFG_OFFSET (grpcfg_offset d) (grp_id grp)) d
      in iowrite64 E (grpcfg_flags grp) (GRPFLGCFG_OFFSET (grpcfg_offset d) (grp_id grp)) d)"

definition idxd_groups_config_write :: "env \<Rightarrow> idxd_device \<Rightarrow> int \<times> idxd_device" where
  "idxd_groups_config_write E d =
     (let d = (if getf gen_cap_reg ''config_en'' (gen_cap d) \<noteq> 0 \<and> rdbuf_limit d \<noteq> 0
               then iowrite32 E (setf gencfg_reg ''rdbuf_limit'' (word_of_int (rdbuf_limit d))
                      (ioread32 IDXD_GENCFG_OFFSET d)) IDXD_GENCFG_OFFSET d
               else d)
      in (0, fold (\<lambda>i d. idxd_group_config_write E i d) [0..<max_groups d] d))"

subsection \<open>Queues\<close>

definition idxd_device_pasid_priv_enabled :: "idxd_device \<Rightarrow> bool" where
  "idxd_device_pasid_priv_enabled d \<longleftrightarrow> pasid_priv d"

text \<open>Assignment to a member of the queue's shadow of its WQCFG register.\<close>

definition cfg_set :: "nat \<Rightarrow> layout \<Rightarrow> string \<Rightarrow> u32 \<Rightarrow> idxd_wq \<Rightarrow> idxd_wq" where
  "cfg_set k L f v w = w\<lparr>wqcfg := list_upd k (setf L f v) (wqcfg w)\<rparr>"

text \<open>
  \<^verbatim>\<open>op_config\<close> is the last eight 32-bit words of the union. The loop over the set bits of the
  bitmap sets bit \<open>n mod 64\<close> of the 64-bit word \<open>n div 64\<close>, which is bit \<open>n mod 32\<close> of the
  32-bit word \<open>8 + n div 32\<close>.
\<close>

definition set_op_config :: "256 word \<Rightarrow> u32 list \<Rightarrow> u32 list" where
  "set_op_config bmap c =
     (let c = fold (\<lambda>m. list_upd (8 + m) (\<lambda>_. 0)) [0..<8] c
      in fold (\<lambda>n c. if bit bmap n then list_upd (8 + n div 32) (\<lambda>x. x OR push_bit (n mod 32) 1) c else c)
           [0..<256] c)"

text \<open>
  The shadow up to the privilege check: the hardware values are merged in, then the size, the
  threshold and the mode are set.
\<close>

definition wqcfg_head :: "(nat \<Rightarrow> u32) \<Rightarrow> nat \<Rightarrow> idxd_wq \<Rightarrow> idxd_wq" where
  "wqcfg_head hw n w =
     (let w = w\<lparr>wqcfg := fold (\<lambda>k. list_upd k (\<lambda>x. x OR hw k)) [0..<n] (wqcfg w)\<rparr>;
          w = (if wq_size w = 0 \<and> wq_type w \<noteq> IDXD_WQT_NONE
               then w\<lparr>wq_size := WQ_DEFAULT_QUEUE_DEPTH\<rparr> else w);
          w = cfg_set 0 wqcfg_dw0 ''wq_size'' (wq_size w) w;
          w = cfg_set 1 wqcfg_dw1 ''wq_thresh'' (threshold w) w
      in if wq_dedicated w then cfg_set 2 wqcfg_dw2 ''mode'' 1 w else w)"

definition wqcfg_priv_ok :: "idxd_device \<Rightarrow> idxd_wq \<Rightarrow> bool" where
  "wqcfg_priv_ok d w \<longleftrightarrow>
     \<not> (wq_dedicated w \<and> getf wqcfg_dw2 ''pasid_en'' (wqcfg w ! 2) \<noteq> 0 \<and>
        \<not> idxd_device_pasid_priv_enabled d \<and> wq_type w = IDXD_WQT_KERNEL)"

text \<open>The rest of the shadow.\<close>

definition wqcfg_tail :: "env \<Rightarrow> idxd_device \<Rightarrow> idxd_wq \<Rightarrow> idxd_wq" where
  "wqcfg_tail E d w =
     (let w = cfg_set 2 wqcfg_dw2 ''priority'' (priority w) w;
          w = (if getf gen_cap_reg ''block_on_fault'' (gen_cap d) \<noteq> 0 \<and>
                  bit (wq_flags w) WQ_FLAG_BLOCK_ON_FAULT \<and> \<not> bit (wq_flags w) WQ_FLAG_PRS_DISABLE
               then cfg_set 2 wqcfg_dw2 ''bof'' 1 w else w);
          w = (if getf wq_cap_reg ''wq_ats_support'' (wq_cap d) \<noteq> 0
               then cfg_set 2 wqcfg_dw2 ''wq_ats_disable'' (b2w (bit (wq_flags w) WQ_FLAG_ATS_DISABLE)) w
               else w);
          w = (if getf wq_cap_reg ''wq_prs_support'' (wq_cap d) \<noteq> 0
               then cfg_set 2 wqcfg_dw2 ''wq_prs_disable'' (b2w (bit (wq_flags w) WQ_FLAG_PRS_DISABLE)) w
               else w);
          w = cfg_set 3 wqcfg_dw3 ''max_xfer_shift'' (word_of_nat (ilog2 E (max_xfer_bytes w))) w;
          w = w\<lparr>wqcfg := idxd_wqcfg_set_max_batch_shift (drv_type (drv_data d))
                  (word_of_nat (ilog2 E (ucast (max_batch_size w)))) (wqcfg w)\<rparr>
      in case wq_opcap w of
           None \<Rightarrow> w
         | Some bmap \<Rightarrow>
             if getf wq_cap_reg ''op_config'' (wq_cap d) \<noteq> 0
             then w\<lparr>wqcfg := set_op_config bmap (wqcfg w)\<rparr> else w)"

definition wqcfg_addr :: "idxd_device \<Rightarrow> nat \<Rightarrow> nat \<Rightarrow> nat" where
  "wqcfg_addr d i k = WQCFG_OFFSET (wqcfg_offset d) (wqcfg_size d) (wq_id (wqs d ! i)) k"

definition idxd_wq_config_write :: "env \<Rightarrow> nat \<Rightarrow> idxd_device \<Rightarrow> int \<times> idxd_device" where
  "idxd_wq_config_write E i d =
     (if wq_group (wqs d ! i) = None then (0, d)
      else
        let n = WQCFG_STRIDES (wqcfg_size d);
            off = wqcfg_addr d i;
            w = wqcfg_head (\<lambda>k. ioread32 (off k) d) n (wqs d ! i);
            d = upd_wq i (\<lambda>_. w) d
        in if \<not> wqcfg_priv_ok d w
           then (- EOPNOTSUPP, d\<lparr>cmd_status := Scmd IDXD_SCMD_WQ_NO_PRIV\<rparr>)
           else
             let w = wqcfg_tail E d w;
                 d = upd_wq i (\<lambda>_. w) d
             in (0, fold (\<lambda>k. iowrite32 E (wqcfg w ! k) (off k)) [0..<n] d))"

fun wqs_config_write_loop :: "env \<Rightarrow> nat list \<Rightarrow> idxd_device \<Rightarrow> int \<times> idxd_device" where
  "wqs_config_write_loop E [] d = (0, d)"
| "wqs_config_write_loop E (i # is) d =
     (let (rc, d) = idxd_wq_config_write E i d
      in if rc < 0 then (rc, d) else wqs_config_write_loop E is d)"

definition idxd_wqs_config_write :: "env \<Rightarrow> idxd_device \<Rightarrow> int \<times> idxd_device" where
  "idxd_wqs_config_write E d = wqs_config_write_loop E [0..<max_wqs d] d"

subsection \<open>From attributes to register images\<close>

definition group_flags_image :: "idxd_group \<Rightarrow> idxd_group" where
  "group_flags_image g =
     (let set = (\<lambda>f v g. g\<lparr>grpcfg_flags := setf group_flags f v (grpcfg_flags g)\<rparr>);
          g = (if tc_a g = -1 then (set ''tc_a'' 0 g)\<lparr>tc_a := 0\<rparr> else set ''tc_a'' (word_of_int (tc_a g)) g);
          g = (if tc_b g = -1 then (set ''tc_b'' 1 g)\<lparr>tc_b := 1\<rparr> else set ''tc_b'' (word_of_int (tc_b g)) g);
          g = set ''use_rdbuf_limit'' (b2w (use_rdbuf_limit g)) g;
          g = set ''rdbufs_reserved'' (ucast (rdbufs_reserved g)) g;
          g = set ''rdbufs_allowed'' (ucast (rdbufs_allowed g)) g;
          g = set ''desc_progress_limit'' (word_of_int (desc_progress_limit g)) g
      in set ''batch_progress_limit'' (word_of_int (batch_progress_limit g)) g)"

definition idxd_group_flags_setup :: "idxd_device \<Rightarrow> idxd_device" where
  "idxd_group_flags_setup d = fold (\<lambda>i. upd_group i group_flags_image) [0..<max_groups d] d"

fun engines_setup_loop :: "nat list \<Rightarrow> nat \<Rightarrow> idxd_device \<Rightarrow> nat \<times> idxd_device" where
  "engines_setup_loop [] count d = (count, d)"
| "engines_setup_loop (i # is) count d =
     (let eng = engines d ! i
      in case eng_group eng of
           None \<Rightarrow> engines_setup_loop is count d
         | Some g \<Rightarrow> engines_setup_loop is (count + 1)
             (upd_group g (\<lambda>x. x\<lparr>grpcfg_engines := grpcfg_engines x OR push_bit (eng_id eng) 1\<rparr>) d))"

definition idxd_engines_setup :: "idxd_device \<Rightarrow> int \<times> idxd_device" where
  "idxd_engines_setup d =
     (let d = fold (\<lambda>i. upd_group i (\<lambda>x. x\<lparr>grpcfg_engines := 0\<rparr>)) [0..<max_groups d] d;
          (count, d) = engines_setup_loop [0..<max_engines d] 0 d
      in if count = 0 then (- EINVAL, d) else (0, d))"

fun wqs_setup_loop :: "env \<Rightarrow> nat list \<Rightarrow> nat \<Rightarrow> idxd_device \<Rightarrow> (int + nat) \<times> idxd_device" where
  "wqs_setup_loop E [] configured d = (Inr configured, d)"
| "wqs_setup_loop E (i # is) configured d =
     (let w = wqs d ! i
      in case wq_group w of
           None \<Rightarrow> wqs_setup_loop E is configured d
         | Some g \<Rightarrow>
             if wq_shared w \<and> \<not> wq_shared_supported E w d
             then (Inl (- EINVAL), d\<lparr>cmd_status := Scmd IDXD_SCMD_WQ_NO_SWQ_SUPPORT\<rparr>)
             else wqs_setup_loop E is (configured + 1)
               (upd_group g (\<lambda>x. x\<lparr>grpcfg_wqs := list_upd (wq_id w div 64)
                  (\<lambda>v. v OR push_bit (wq_id w mod 64) 1) (grpcfg_wqs x)\<rparr>) d))"

definition idxd_wqs_setup :: "env \<Rightarrow> idxd_device \<Rightarrow> int \<times> idxd_device" where
  "idxd_wqs_setup E d =
     (let d = fold (\<lambda>i. upd_group i (\<lambda>x. x\<lparr>grpcfg_wqs :=
                 fold (\<lambda>j. list_upd j (\<lambda>_. 0)) [0..<4] (grpcfg_wqs x)\<rparr>)) [0..<max_groups d] d
      in case wqs_setup_loop E [0..<max_wqs d] 0 d of
           (Inl e, d) \<Rightarrow> (e, d)
         | (Inr configured, d) \<Rightarrow>
             if configured = 0
             then (- EINVAL, d\<lparr>cmd_status := Scmd IDXD_SCMD_WQ_NONE_CONFIGURED\<rparr>)
             else (0, d))"

definition idxd_device_config :: "env \<Rightarrow> idxd_device \<Rightarrow> int \<times> idxd_device" where
  "idxd_device_config E d =
     (let (rc, d) = idxd_wqs_setup E d in
      if rc < 0 then (rc, d)
      else
        let (rc, d) = idxd_engines_setup d in
        if rc < 0 then (rc, d)
        else
          let d = idxd_group_flags_setup d;
              (rc, d) = idxd_wqs_config_write E d
          in if rc < 0 then (rc, d)
             else
               let (rc, d) = idxd_groups_config_write E d
               in if rc < 0 then (rc, d) else (0, d))"

subsection \<open>Loading the configuration of a fixed device\<close>

definition idxd_wq_load_config :: "nat \<Rightarrow> idxd_device \<Rightarrow> int \<times> idxd_device" where
  "idxd_wq_load_config i d =
     (let off = wqcfg_addr d i;
          c = map (\<lambda>k. ioread32 (off k) d) [0..<WQCFG_STRIDES (wqcfg_size d)];
          d = upd_wq i (\<lambda>w. w\<lparr>wqcfg := c, wq_size := getf wqcfg_dw0 ''wq_size'' (c ! 0),
                              threshold := getf wqcfg_dw1 ''wq_thresh'' (c ! 1)\<rparr>) d
      in if getf wqcfg_dw2 ''mode'' (c ! 2) = 0 \<or> getf wqcfg_dw2 ''pasid_en'' (c ! 2) \<noteq> 0
         then (- EOPNOTSUPP, d)
         else
           (0, upd_wq i (\<lambda>w.
              let w = w\<lparr>wq_flags := set_bit WQ_FLAG_DEDICATED (wq_flags w),
                        priority := getf wqcfg_dw2 ''priority'' (c ! 2),
                        max_xfer_bytes := push_bit (unat (getf wqcfg_dw3 ''max_xfer_shift'' (c ! 3))) 1\<rparr>
              in idxd_wq_set_max_batch_size (drv_type (drv_data d))
                   (push_bit (unat (getf wqcfg_dw3 ''max_batch_shift'' (c ! 3))) 1) w) d))"

definition load_wq_bit :: "nat \<Rightarrow> nat \<Rightarrow> u64 \<Rightarrow> nat \<Rightarrow> idxd_device \<Rightarrow> idxd_device" where
  "load_wq_bit g i bits j d =
     (let id = i * 64 + j in
      if id \<ge> max_wqs d then d
      else if bit bits j then upd_wq id (\<lambda>w. w\<lparr>wq_group := Some g\<rparr>) d else d)"

fun group_load_wqs :: "nat \<Rightarrow> nat list \<Rightarrow> idxd_device \<Rightarrow> idxd_device" where
  "group_load_wqs g [] d = d"
| "group_load_wqs g (i # is) d =
     (let bits = ioread64 (GRPWQCFG_OFFSET (grpcfg_offset d) (grp_id (groups d ! g)) i) d;
          d = upd_group g (\<lambda>x. x\<lparr>grpcfg_wqs := list_upd i (\<lambda>_. bits) (grpcfg_wqs x)\<rparr>) d
      in if i * 64 \<ge> max_wqs d then d
         else group_load_wqs g is (fold (load_wq_bit g i bits) [0..<64] d))"

definition load_engine_bit :: "nat \<Rightarrow> u64 \<Rightarrow> nat \<Rightarrow> idxd_device \<Rightarrow> idxd_device" where
  "load_engine_bit g bits i d =
     (if i \<ge> max_engines d then d
      else if bit bits i then upd_engine i (\<lambda>e. e\<lparr>eng_group := Some g\<rparr>) d else d)"

definition idxd_group_load_config :: "nat \<Rightarrow> idxd_device \<Rightarrow> idxd_device" where
  "idxd_group_load_config g d =
     (let d = group_load_wqs g [0..<GRPWQCFG_STRIDES] d;
          bits = ioread64 (GRPENGCFG_OFFSET (grpcfg_offset d) (grp_id (groups d ! g))) d;
          d = upd_group g (\<lambda>x. x\<lparr>grpcfg_engines := bits\<rparr>) d;
          d = fold (load_engine_bit g bits) [0..<64] d;
          flags = ioread64 (GRPFLGCFG_OFFSET (grpcfg_offset d) (grp_id (groups d ! g))) d
      in upd_group g (\<lambda>x. x\<lparr>grpcfg_flags := flags\<rparr>) d)"

fun load_wqs_loop :: "nat list \<Rightarrow> idxd_device \<Rightarrow> int \<times> idxd_device" where
  "load_wqs_loop [] d = (0, d)"
| "load_wqs_loop (i # is) d =
     (let (rc, d) = idxd_wq_load_config i d in if rc < 0 then (rc, d) else load_wqs_loop is d)"

definition idxd_device_load_config :: "idxd_device \<Rightarrow> int \<times> idxd_device" where
  "idxd_device_load_config d =
     (let d = d\<lparr>rdbuf_limit := uint (getf gencfg_reg ''rdbuf_limit'' (ioread32 IDXD_GENCFG_OFFSET d))\<rparr>;
          d = fold idxd_group_load_config [0..<max_groups d] d
      in load_wqs_loop [0..<max_wqs d] d)"


subsection \<open>Membership bits\<close>

definition wq_bit :: "idxd_device \<Rightarrow> nat \<Rightarrow> nat \<Rightarrow> bool" where
  "wq_bit d g j \<longleftrightarrow> bit (grpcfg_wqs (groups d ! g) ! (j div 64)) (j mod 64)"

definition engine_bit :: "idxd_device \<Rightarrow> nat \<Rightarrow> nat \<Rightarrow> bool" where
  "engine_bit d g j \<longleftrightarrow> bit (grpcfg_engines (groups d ! g)) j"

text \<open>Every group's queue bitmap has the four words of the register.\<close>

definition wf_groups :: "idxd_device \<Rightarrow> bool" where
  "wf_groups d \<longleftrightarrow> map (length \<circ> grpcfg_wqs) (groups d) = replicate (max_groups d) 4"

text \<open>What the set-up loops leave alone: everything but the two bitmaps of the groups.\<close>

definition same_but_bitmaps :: "idxd_device \<Rightarrow> idxd_device \<Rightarrow> bool" where
  "same_but_bitmaps d d' \<longleftrightarrow>
     (\<exists>gs c. d' = d\<lparr>groups := gs, cmd_status := c\<rparr> \<and>
       map (\<lambda>g. g\<lparr>grpcfg_wqs := [], grpcfg_engines := 0\<rparr>) gs =
         map (\<lambda>g. g\<lparr>grpcfg_wqs := [], grpcfg_engines := 0\<rparr>) (groups d) \<and>
       map (length \<circ> grpcfg_wqs) gs = map (length \<circ> grpcfg_wqs) (groups d))"

lemma same_but_bitmaps_refl: "same_but_bitmaps d d"
  unfolding same_but_bitmaps_def by (intro exI [of _ "groups d"] exI [of _ "cmd_status d"]) simp

lemma same_but_bitmaps_trans:
  assumes "same_but_bitmaps d d'" "same_but_bitmaps d' d''"
  shows "same_but_bitmaps d d''"
proof -
  obtain gs c where 1: "d' = d\<lparr>groups := gs, cmd_status := c\<rparr>"
    "map (\<lambda>g. g\<lparr>grpcfg_wqs := [], grpcfg_engines := 0\<rparr>) gs =
       map (\<lambda>g. g\<lparr>grpcfg_wqs := [], grpcfg_engines := 0\<rparr>) (groups d)"
    "map (length \<circ> grpcfg_wqs) gs = map (length \<circ> grpcfg_wqs) (groups d)"
    using assms(1) unfolding same_but_bitmaps_def by blast
  obtain gs' c' where 2: "d'' = d'\<lparr>groups := gs', cmd_status := c'\<rparr>"
    "map (\<lambda>g. g\<lparr>grpcfg_wqs := [], grpcfg_engines := 0\<rparr>) gs' =
       map (\<lambda>g. g\<lparr>grpcfg_wqs := [], grpcfg_engines := 0\<rparr>) (groups d')"
    "map (length \<circ> grpcfg_wqs) gs' = map (length \<circ> grpcfg_wqs) (groups d')"
    using assms(2) unfolding same_but_bitmaps_def by blast
  show ?thesis unfolding same_but_bitmaps_def
    by (intro exI [of _ gs'] exI [of _ c']) (use 1 2 in simp)
qed

lemma same_upd_group:
  assumes "\<And>g. (f g)\<lparr>grpcfg_wqs := [], grpcfg_engines := 0\<rparr> = g\<lparr>grpcfg_wqs := [], grpcfg_engines := 0\<rparr>"
    and "\<And>g. length (grpcfg_wqs (f g)) = length (grpcfg_wqs g)"
  shows "same_but_bitmaps d (upd_group i f d)"
  unfolding same_but_bitmaps_def
  by (intro exI [of _ "list_upd i f (groups d)"] exI [of _ "cmd_status d"])
    (simp add: upd_group_def assms map_list_upd_same)

lemma same_fold_upd_group:
  assumes "\<And>g. (f g)\<lparr>grpcfg_wqs := [], grpcfg_engines := 0\<rparr> = g\<lparr>grpcfg_wqs := [], grpcfg_engines := 0\<rparr>"
    and "\<And>g. length (grpcfg_wqs (f g)) = length (grpcfg_wqs g)"
  shows "same_but_bitmaps d (fold (\<lambda>i. upd_group i f) is d)"
proof (induction "is" arbitrary: d)
  case (Cons i "is")
  have a: "same_but_bitmaps d (upd_group i f d)" by (rule same_upd_group [OF assms])
  show ?case using same_but_bitmaps_trans [OF a Cons] by simp
qed (simp add: same_but_bitmaps_refl)

lemma same_cmd_status: "same_but_bitmaps d (d\<lparr>cmd_status := c\<rparr>)"
  unfolding same_but_bitmaps_def by (intro exI [of _ "groups d"] exI [of _ c]) simp

lemma fold_zero4: "fold (\<lambda>j. list_upd j (\<lambda>_. 0)) [0..<4] xs = map (\<lambda>_. 0) xs"
  if "length xs = 4" for xs :: "u64 list"
  using that by (intro fold_list_upd_len) simp

lemma same_wqs_setup_loop: "same_but_bitmaps d (snd (wqs_setup_loop E is n d))"
proof (induction E "is" n d rule: wqs_setup_loop.induct)
  case (1 E n d)
  then show ?case by (simp add: same_but_bitmaps_refl)
next
  case (2 E i "is" n d)
  show ?case
  proof (cases "wq_group (wqs d ! i)")
    case None
    then show ?thesis using 2 by simp
  next
    case (Some g)
    let ?f = "\<lambda>x. x\<lparr>grpcfg_wqs := list_upd (wq_id (wqs d ! i) div 64)
        (\<lambda>v. v OR push_bit (wq_id (wqs d ! i) mod 64) 1) (grpcfg_wqs x)\<rparr>"
    show ?thesis
    proof (cases "wq_shared (wqs d ! i) \<and> \<not> wq_shared_supported E (wqs d ! i) d")
      case True
      then show ?thesis using Some by (simp add: Let_def same_cmd_status)
    next
      case False
      have a: "same_but_bitmaps (upd_group g ?f d) (snd (wqs_setup_loop E is (n + 1) (upd_group g ?f d)))"
        by (rule "2.IH"(2) [OF refl Some False])
      have b: "same_but_bitmaps d (upd_group g ?f d)" by (rule same_upd_group) simp_all
      show ?thesis using same_but_bitmaps_trans [OF b a] Some False by (auto simp: Let_def)
    qed
  qed
qed

lemma same_engines_setup_loop: "same_but_bitmaps d (snd (engines_setup_loop is n d))"
proof (induction "is" n d rule: engines_setup_loop.induct)
  case (1 n d)
  then show ?case by (simp add: same_but_bitmaps_refl)
next
  case (2 i "is" n d)
  show ?case
  proof (cases "eng_group (engines d ! i)")
    case None
    then show ?thesis using 2 by simp
  next
    case (Some g)
    let ?d = "upd_group g (\<lambda>x. x\<lparr>grpcfg_engines := grpcfg_engines x OR push_bit (eng_id (engines d ! i)) 1\<rparr>) d"
    have a: "same_but_bitmaps ?d (snd (engines_setup_loop is (n + 1) ?d))"
      by (rule "2.IH"(2) [OF refl Some])
    have b: "same_but_bitmaps d ?d" by (rule same_upd_group) simp_all
    show ?thesis using same_but_bitmaps_trans [OF b a] Some by (simp add: Let_def)
  qed
qed

lemma same_wqs_setup: "same_but_bitmaps d (snd (idxd_wqs_setup E d))"
proof -
  let ?d = "fold (\<lambda>i. upd_group i (\<lambda>x. x\<lparr>grpcfg_wqs :=
                 fold (\<lambda>j. list_upd j (\<lambda>_. 0)) [0..<4] (grpcfg_wqs x)\<rparr>)) [0..<max_groups d] d"
  have len: "length (fold (\<lambda>j. list_upd j (\<lambda>_. 0)) js xs) = length xs" for js and xs :: "u64 list"
    by (induction js arbitrary: xs) simp_all
  have a: "same_but_bitmaps d ?d" by (rule same_fold_upd_group) (simp_all add: len)
  have m: "max_wqs ?d = max_wqs d" using a by (auto simp: same_but_bitmaps_def)
  obtain r d2 where l: "wqs_setup_loop E [0..<max_wqs d] 0 ?d = (r, d2)"
    by (cases "wqs_setup_loop E [0..<max_wqs d] 0 ?d")
  have b: "same_but_bitmaps d d2"
    using same_but_bitmaps_trans [OF a same_wqs_setup_loop [of ?d E "[0..<max_wqs d]" 0]] by (simp add: l)
  show ?thesis
    using b same_but_bitmaps_trans [OF b same_cmd_status]
    by (auto simp: idxd_wqs_setup_def Let_def m l split: sum.splits)
qed

lemma same_engines_setup: "same_but_bitmaps d (snd (idxd_engines_setup d))"
proof -
  let ?d = "fold (\<lambda>i. upd_group i (\<lambda>x. x\<lparr>grpcfg_engines := 0\<rparr>)) [0..<max_groups d] d"
  have a: "same_but_bitmaps d ?d" by (rule same_fold_upd_group) simp_all
  then show ?thesis
    using same_but_bitmaps_trans [OF a same_engines_setup_loop]
    by (auto simp: idxd_engines_setup_def Let_def split_beta)
qed


lemma bit_or_exp: "bit (v OR 2 ^ n) m \<longleftrightarrow> bit v m \<or> m = n \<and> n < LENGTH('a)" for v :: "'a::len word"
  by (auto simp: bit_simps)

lemma length_grpcfg_wqs:
  "wf_groups d \<Longrightarrow> length (groups d) = max_groups d \<Longrightarrow> g < max_groups d \<Longrightarrow> length (grpcfg_wqs (groups d ! g)) = 4"
  unfolding wf_groups_def by (metis comp_apply nth_map nth_replicate)

lemma wq_bit_upd:
  assumes "j < 256" "q < 256" "g < length (groups d)" "length (grpcfg_wqs (groups d ! g)) = 4"
  shows "wq_bit (upd_group h (\<lambda>x. x\<lparr>grpcfg_wqs := list_upd (q div 64)
       (\<lambda>v. v OR push_bit (q mod 64) 1) (grpcfg_wqs x)\<rparr>) d) g j \<longleftrightarrow> wq_bit d g j \<or> h = g \<and> j = q"
proof -
  have "j div 64 < 4" using assms(1) by auto
  moreover have "j = q \<longleftrightarrow> j div 64 = q div 64 \<and> j mod 64 = q mod 64"
    by (metis div_mult_mod_eq)
  ultimately show ?thesis
    using assms by (auto simp: wq_bit_def nth_list_upd bit_or_exp)
qed

lemma wqs_setup_loop_bits:
  assumes "wqs_setup_loop E is n d = (Inr m, d')"
    and "\<forall>i\<in>set is. wq_id (wqs d ! i) = i \<and> i < 256"
    and "length (groups d) = max_groups d" "wf_groups d" "g < max_groups d" "j < 256"
  shows "wq_bit d' g j \<longleftrightarrow> wq_bit d g j \<or> j \<in> set is \<and> wq_group (wqs d ! j) = Some g"
  using assms
proof (induction E "is" n d rule: wqs_setup_loop.induct)
  case (1 E n d)
  then show ?case by simp
next
  case (2 E i "is" n d)
  show ?case
  proof (cases "wq_group (wqs d ! i)")
    case None
    have "wq_bit d' g j \<longleftrightarrow> wq_bit d g j \<or> j \<in> set is \<and> wq_group (wqs d ! j) = Some g"
      by (rule "2.IH"(1) [OF refl None]) (use 2 None in simp_all)
    then show ?thesis using None by auto
  next
    case (Some h)
    let ?u = "upd_group h (\<lambda>x. x\<lparr>grpcfg_wqs := list_upd (wq_id (wqs d ! i) div 64)
        (\<lambda>v. v OR push_bit (wq_id (wqs d ! i) mod 64) 1) (grpcfg_wqs x)\<rparr>) d"
    have ok: "\<not> (wq_shared (wqs d ! i) \<and> \<not> wq_shared_supported E (wqs d ! i) d)"
      using 2 Some by (auto simp: Let_def split: if_splits)
    have "wf_groups ?u" using 2 by (simp add: wf_groups_def)
    moreover have "wqs_setup_loop E is (n + 1) ?u = (Inr m, d')"
      using 2 Some ok by (auto simp: Let_def)
    ultimately have "wq_bit d' g j \<longleftrightarrow> wq_bit ?u g j \<or> j \<in> set is \<and> wq_group (wqs ?u ! j) = Some g"
      by (intro "2.IH"(2) [OF refl Some ok]) (use 2 in simp_all)
    moreover have "wq_bit ?u g j \<longleftrightarrow> wq_bit d g j \<or> h = g \<and> j = i"
      using 2 length_grpcfg_wqs [of d g] by (subst wq_bit_upd) simp_all
    ultimately show ?thesis using Some by auto
  qed
qed

lemma wqs_setup_loop_count:
  "wqs_setup_loop E is n d = (Inr m, d') \<Longrightarrow> n \<le> m \<and> (m = n \<longleftrightarrow> (\<forall>i\<in>set is. wq_group (wqs d ! i) = None))"
proof (induction E "is" n d rule: wqs_setup_loop.induct)
  case (2 E i "is" n d)
  show ?case
  proof (cases "wq_group (wqs d ! i)")
    case None
    then show ?thesis using 2 by simp
  next
    case (Some h)
    then have ok: "\<not> (wq_shared (wqs d ! i) \<and> \<not> wq_shared_supported E (wqs d ! i) d)"
      using 2 by (auto simp: Let_def split: if_splits)
    show ?thesis using "2.IH"(2) [OF refl Some ok] 2(3) Some ok by (auto simp: Let_def)
  qed
qed simp

lemma wqs_setup_loop_err:
  "wqs_setup_loop E is n d = (Inl e, d') \<Longrightarrow> e = - EINVAL"
proof (induction E "is" n d rule: wqs_setup_loop.induct)
  case (2 E i "is" n d)
  show ?case
  proof (cases "wq_group (wqs d ! i)")
    case None
    then show ?thesis using 2 by simp
  next
    case (Some h)
    then show ?thesis using "2.IH"(2) [OF refl Some] 2(3) by (auto simp: Let_def split: if_splits)
  qed
qed simp

lemma clear_bits:
  assumes "length (groups d) = max_groups d" "wf_groups d" "g < max_groups d" "j < 256"
  shows "\<not> wq_bit (fold (\<lambda>i. upd_group i (\<lambda>x. x\<lparr>grpcfg_wqs :=
      fold (\<lambda>j. list_upd j (\<lambda>_. 0)) [0..<4] (grpcfg_wqs x)\<rparr>)) [0..<max_groups d] d) g j"
proof -
  have "j div 64 < 4" using assms by auto
  then show ?thesis
    using assms length_grpcfg_wqs [OF assms(2,1,3)]
    by (simp add: fold_upd_group fold_list_upd_len wq_bit_def fold_zero4)
qed

text \<open>
  when the queue set-up succeeds, the bitmap of each group names exactly the queues that are
  assigned to it, so the bitmaps of two groups are disjoint; it succeeds exactly when some queue
  has a group and every shared queue that has one is supported.
\<close>
theorem wqs_setup_bitmaps:
  assumes wf: "wf_dev d" "wf_groups d" and res: "idxd_wqs_setup E d = (rc, d')" and rc: "0 \<le> rc"
  shows "(\<forall>g < max_groups d. \<forall>j < max_wqs d. wq_bit d' g j \<longleftrightarrow> wq_group (wqs d ! j) = Some g) \<and>
     (\<exists>j < max_wqs d. wq_group (wqs d ! j) \<noteq> None) \<and> rc = 0 \<and> same_but_bitmaps d d'"
proof -
  let ?d = "fold (\<lambda>i. upd_group i (\<lambda>x. x\<lparr>grpcfg_wqs :=
                 fold (\<lambda>j. list_upd j (\<lambda>_. 0)) [0..<4] (grpcfg_wqs x)\<rparr>)) [0..<max_groups d] d"
  have len: "length (fold (\<lambda>j. list_upd j (\<lambda>_. 0)) js xs) = length xs" for js and xs :: "u64 list"
    by (induction js arbitrary: xs) simp_all
  have same: "same_but_bitmaps d ?d" by (rule same_fold_upd_group) (simp_all add: len)
  have eq: "wqs ?d = wqs d" "max_wqs ?d = max_wqs d" "max_groups ?d = max_groups d" "wf_groups ?d"
    "length (groups ?d) = max_groups d"
    using same wf by (auto simp: same_but_bitmaps_def wf_groups_def wf_dev_def dest: arg_cong [of _ _ length])
  have ids: "\<forall>i\<in>set [0..<max_wqs d]. wq_id (wqs ?d ! i) = i \<and> i < 256"
    using wf_wq_id [OF wf(1)] wf(1) by (simp add: eq wf_dev_def)
  obtain m where l: "wqs_setup_loop E [0..<max_wqs d] 0 ?d = (Inr m, d')" and m: "m \<noteq> 0" "rc = 0"
    using res rc by (auto simp: idxd_wqs_setup_def Let_def eq split: prod.splits sum.splits if_splits
        dest: wqs_setup_loop_err)
  have g: "wq_bit d' g j \<longleftrightarrow> wq_group (wqs d ! j) = Some g" if "g < max_groups d" "j < max_wqs d" for g j
  proof -
    have j: "j < 256" using that wf(1) by (simp add: wf_dev_def)
    then show ?thesis
      using wqs_setup_loop_bits [OF l ids, of g j] clear_bits [of d g j] that wf eq
      by (simp add: wf_dev_def)
  qed
  show ?thesis
    using g wqs_setup_loop_count [OF l] m same_wqs_setup [of d E] res eq by auto
qed


lemma wf_eng_id: "wf_dev d \<Longrightarrow> i < max_engines d \<Longrightarrow> eng_id (engines d ! i) = i"
  unfolding wf_dev_def by (metis add.left_neutral length_map nth_map nth_upt)

lemma wf_grp_id: "wf_dev d \<Longrightarrow> i < max_groups d \<Longrightarrow> grp_id (groups d ! i) = i"
  unfolding wf_dev_def by (metis add.left_neutral length_map nth_map nth_upt)

lemma engines_setup_loop_bits:
  assumes "engines_setup_loop is n d = (m, d')"
    and "\<forall>i\<in>set is. eng_id (engines d ! i) = i \<and> i < 64"
    and "g < length (groups d)" "j < 64"
  shows "(engine_bit d' g j \<longleftrightarrow> engine_bit d g j \<or> j \<in> set is \<and> eng_group (engines d ! j) = Some g) \<and>
     n \<le> m \<and> (m = n \<longleftrightarrow> (\<forall>i\<in>set is. eng_group (engines d ! i) = None)) \<and>
     map grpcfg_wqs (groups d') = map grpcfg_wqs (groups d)"
  using assms
proof (induction "is" n d rule: engines_setup_loop.induct)
  case (1 n d)
  then show ?case by simp
next
  case (2 i "is" n d)
  show ?case
  proof (cases "eng_group (engines d ! i)")
    case None
    then show ?thesis using 2 by auto
  next
    case (Some h)
    let ?u = "upd_group h (\<lambda>x. x\<lparr>grpcfg_engines := grpcfg_engines x OR push_bit (eng_id (engines d ! i)) 1\<rparr>) d"
    have b: "engine_bit ?u g j \<longleftrightarrow> engine_bit d g j \<or> h = g \<and> j = i"
      using 2 by (auto simp: engine_bit_def nth_list_upd bit_or_exp)
    have "(engine_bit d' g j \<longleftrightarrow> engine_bit ?u g j \<or> j \<in> set is \<and> eng_group (engines ?u ! j) = Some g) \<and>
       n + 1 \<le> m \<and> (m = n + 1 \<longleftrightarrow> (\<forall>i\<in>set is. eng_group (engines ?u ! i) = None)) \<and>
       map grpcfg_wqs (groups d') = map grpcfg_wqs (groups ?u)"
      by (rule "2.IH"(2) [OF refl Some]) (use 2 Some in \<open>simp_all add: Let_def\<close>)
    then show ?thesis using Some b by auto
  qed
qed

lemma engines_setup_loop_none:
  "\<forall>i\<in>set is. eng_group (engines d ! i) = None \<Longrightarrow> engines_setup_loop is n d = (n, d)"
  by (induction "is") simp_all

text \<open>
  when the engine set-up succeeds, the engine bitmap of each group names exactly the engines assigned
  to it, and the set-up fails with -EINVAL exactly when no engine has a group.
\<close>
theorem engines_setup_bitmaps:
  assumes wf: "wf_dev d" and res: "idxd_engines_setup d = (rc, d')"
  shows "(\<forall>g < max_groups d. \<forall>j < max_engines d. engine_bit d' g j \<longleftrightarrow> eng_group (engines d ! j) = Some g) \<and>
     rc = (if \<exists>j < max_engines d. eng_group (engines d ! j) \<noteq> None then 0 else - EINVAL) \<and>
     same_but_bitmaps d d'"
proof -
  let ?d = "fold (\<lambda>i. upd_group i (\<lambda>x. x\<lparr>grpcfg_engines := 0\<rparr>)) [0..<max_groups d] d"
  have gl: "length (groups d) = max_groups d" and e64: "max_engines d \<le> 64" using wf by (simp_all add: wf_dev_def)
  have d: "groups ?d = map (\<lambda>x. x\<lparr>grpcfg_engines := 0\<rparr>) (groups d)" "engines ?d = engines d"
    "max_engines ?d = max_engines d"
    using gl by (simp_all add: fold_upd_group fold_list_upd_len)
  have z: "\<not> engine_bit ?d g j" if "g < max_groups d" for g j
    using that gl by (simp add: engine_bit_def d)
  have ids: "\<forall>i\<in>set [0..<max_engines d]. eng_id (engines ?d ! i) = i \<and> i < 64"
    using wf_eng_id [OF wf] e64 by (simp add: d)
  obtain m d2 where l: "engines_setup_loop [0..<max_engines d] 0 ?d = (m, d2)"
    by (cases "engines_setup_loop [0..<max_engines d] 0 ?d")
  have rc: "rc = (if m = 0 then - EINVAL else 0)" "d' = d2"
    using res by (auto simp: idxd_engines_setup_def Let_def d l split: if_splits)
  note b = engines_setup_loop_bits [OF l ids, unfolded d(2)]
  have bits: "engine_bit d' g j \<longleftrightarrow> eng_group (engines d ! j) = Some g"
    if "g < max_groups d" "j < max_engines d" for g j
    using b [of g j] that z e64 gl rc(2) by (simp add: d(1))
  have count: "m = 0 \<longleftrightarrow> (\<forall>j < max_engines d. eng_group (engines d ! j) = None)"
  proof (cases "max_groups d = 0 \<or> max_engines d = 0")
    case True
    have "eng_group (engines d ! j) = None" if "j < max_engines d" for j
      using True that wf unfolding wf_dev_def by (metis less_nat_zero_code not_None_eq nth_mem)
    then show ?thesis using engines_setup_loop_none [of "[0..<max_engines d]" ?d 0] l by (simp add: d)
  next
    case False
    then show ?thesis using b [of 0 0] gl by (auto simp: d(1))
  qed
  show ?thesis using bits count rc same_engines_setup [of d] res by auto
qed


subsection \<open>Register contents\<close>

lemma members_gflags [simp]:
  "members group_flags = {''tc_a'', ''tc_b'', ''rsvd'', ''use_rdbuf_limit'', ''rdbufs_reserved'', ''rsvd2'',
     ''rdbufs_allowed'', ''rsvd3'', ''desc_progress_limit'', ''rsvd4'', ''batch_progress_limit'', ''rsvd5''}"
  by (auto simp: members_def group_flags_def)

text \<open>
  the flags image of a group encodes its attributes, each cut to the width of its member;
  a traffic class that was never set (-1) becomes 0 for class A and 1 for class B, in the image
  and in the attribute.
\<close>
theorem group_flags_image_encodes:
  "let g' = group_flags_image g; f = (\<lambda>n. getf group_flags n (grpcfg_flags g'));
       a = (if tc_a g = -1 then 0 else tc_a g); b = (if tc_b g = -1 then 1 else tc_b g)
   in f ''tc_a'' = take_bit 3 (word_of_int a) \<and> tc_a g' = a \<and>
      f ''tc_b'' = take_bit 3 (word_of_int b) \<and> tc_b g' = b \<and>
      f ''use_rdbuf_limit'' = b2w (use_rdbuf_limit g) \<and>
      f ''rdbufs_reserved'' = ucast (rdbufs_reserved g) \<and>
      f ''rdbufs_allowed'' = ucast (rdbufs_allowed g) \<and>
      f ''desc_progress_limit'' = take_bit 2 (word_of_int (desc_progress_limit g)) \<and>
      f ''batch_progress_limit'' = take_bit 2 (word_of_int (batch_progress_limit g))"
proof -
  have l: "fld_len group_flags ''tc_a'' = 3" "fld_len group_flags ''tc_b'' = 3"
    "fld_len group_flags ''use_rdbuf_limit'' = 1" "fld_len group_flags ''rdbufs_reserved'' = 8"
    "fld_len group_flags ''rdbufs_allowed'' = 8" "fld_len group_flags ''desc_progress_limit'' = 2"
    "fld_len group_flags ''batch_progress_limit'' = 2"
    by (simp_all add: group_flags_def)
  have t: "take_bit 8 (ucast x :: u64) = ucast x" for x :: u8
    by (rule bit_word_eqI) (auto simp: bit_simps dest: bit_imp_le_length)
  have b: "b2w x mod 2 = (b2w x :: u64)" for x
    by (simp add: b2w_def)
  show ?thesis
    by (simp add: group_flags_image_def Let_def gflags.get_set_same gflags.get_set_other l t b)
qed

text \<open>The words of a group's registers, and the bytes they take.\<close>

definition group_block :: "idxd_device \<Rightarrow> nat \<Rightarrow> nat set" where
  "group_block d g = {unat (grpcfg_offset d) + 64 * g ..< unat (grpcfg_offset d) + 64 * g + 48}"

lemma upt4: "[0..<4] = [0, 1, 2, 3 :: nat]"
  by (simp add: upt_rec)

lemma group_config_write_regs:
  assumes p: "plain_regs E (group_block d g)" and id: "grp_id (groups d ! g) = g"
  shows "k < 4 \<Longrightarrow> ioread64 (GRPWQCFG_OFFSET (grpcfg_offset d) g k) (idxd_group_config_write E g d) =
           grpcfg_wqs (groups d ! g) ! k"
    and "ioread64 (GRPENGCFG_OFFSET (grpcfg_offset d) g) (idxd_group_config_write E g d) =
           grpcfg_engines (groups d ! g)"
    and "ioread64 (GRPFLGCFG_OFFSET (grpcfg_offset d) g) (idxd_group_config_write E g d) =
           grpcfg_flags (groups d ! g)"
proof -
  note w = regs_iowrite64 [OF p]
  show "k < 4 \<Longrightarrow> ioread64 (GRPWQCFG_OFFSET (grpcfg_offset d) g k) (idxd_group_config_write E g d) =
           grpcfg_wqs (groups d ! g) ! k"
    by (cases "k = 0"; cases "k = 1"; cases "k = 2"; cases "k = 3")
      (simp_all add: ioread64_split idxd_group_config_write_def Let_def upt4 w GRPWQCFG_OFFSET_def
        GRPENGCFG_OFFSET_def GRPFLGCFG_OFFSET_def group_block_def id)
  show "ioread64 (GRPENGCFG_OFFSET (grpcfg_offset d) g) (idxd_group_config_write E g d) =
           grpcfg_engines (groups d ! g)"
    by (simp add: ioread64_split idxd_group_config_write_def Let_def upt4 w GRPWQCFG_OFFSET_def
        GRPENGCFG_OFFSET_def GRPFLGCFG_OFFSET_def group_block_def id)
  show "ioread64 (GRPFLGCFG_OFFSET (grpcfg_offset d) g) (idxd_group_config_write E g d) =
           grpcfg_flags (groups d ! g)"
    by (simp add: ioread64_split idxd_group_config_write_def Let_def upt4 w GRPWQCFG_OFFSET_def
        GRPENGCFG_OFFSET_def GRPFLGCFG_OFFSET_def group_block_def id)
qed

lemma group_config_write_other:
  assumes p: "plain_regs E A" and a: "a \<in> A" "a \<notin> group_block d g" and id: "grp_id (groups d ! g) = g"
  shows "regs (idxd_group_config_write E g d) a = regs d a"
proof -
  have n: "a \<noteq> unat (grpcfg_offset d) + g * 64 + c" if "c < 48" for c
    using a(2) that by (auto simp: group_block_def)
  show ?thesis
    using n [of 0] n [of 4] n [of 8] n [of 12] n [of 16] n [of 20] n [of 24] n [of 28] n [of 32]
      n [of 36] n [of 40] n [of 44] a(1)
    by (simp add: idxd_group_config_write_def Let_def upt4 regs_iowrite64 [OF p] GRPWQCFG_OFFSET_def
        GRPENGCFG_OFFSET_def GRPFLGCFG_OFFSET_def id add.commute add.left_commute)
qed

lemma group_config_write_frame:
  "\<exists>r. idxd_group_config_write E g d = d\<lparr>regs := r\<rparr>"
proof -
  have "\<exists>r. iowrite64 E v a (d\<lparr>regs := r0\<rparr>) = d\<lparr>regs := r\<rparr>" for v a r0 and d :: idxd_device
    by (simp add: iowrite64_def iowrite32_def) blast
  then have w: "\<exists>r. iowrite64 E v a x = d\<lparr>regs := r\<rparr>" if "\<exists>r. x = d\<lparr>regs := r\<rparr>" for v a x and d :: idxd_device
    using that by blast
  have "\<exists>r. d = d\<lparr>regs := r\<rparr>" by (metis idxd_device.surjective idxd_device.update_convs(1) machine.update_convs(1))
  then show ?thesis
    unfolding idxd_group_config_write_def Let_def upt4 by (simp add: w)
qed


lemma groups_write_fold:
  assumes wf: "wf_dev d" and p: "plain_regs E (\<Union>g < max_groups d. group_block d g)" and n: "n \<le> max_groups d"
  shows "\<exists>r. fold (\<lambda>i d. idxd_group_config_write E i d) [0..<n] d = d\<lparr>regs := r\<rparr> \<and>
     (\<forall>g < n. (\<forall>k < 4. ioread64 (GRPWQCFG_OFFSET (grpcfg_offset d) g k) (d\<lparr>regs := r\<rparr>) = grpcfg_wqs (groups d ! g) ! k) \<and>
        ioread64 (GRPENGCFG_OFFSET (grpcfg_offset d) g) (d\<lparr>regs := r\<rparr>) = grpcfg_engines (groups d ! g) \<and>
        ioread64 (GRPFLGCFG_OFFSET (grpcfg_offset d) g) (d\<lparr>regs := r\<rparr>) = grpcfg_flags (groups d ! g))"
  using n
proof (induction n)
  case 0
  have "d = d\<lparr>regs := regs d\<rparr>" by simp
  then show ?case by (intro exI [of _ "regs d"]) simp
next
  case (Suc n)
  let ?A = "\<Union>g < max_groups d. group_block d g"
  obtain r where r: "fold (\<lambda>i d. idxd_group_config_write E i d) [0..<n] d = d\<lparr>regs := r\<rparr>"
    and old: "\<forall>g < n. (\<forall>k < 4. ioread64 (GRPWQCFG_OFFSET (grpcfg_offset d) g k) (d\<lparr>regs := r\<rparr>) = grpcfg_wqs (groups d ! g) ! k) \<and>
        ioread64 (GRPENGCFG_OFFSET (grpcfg_offset d) g) (d\<lparr>regs := r\<rparr>) = grpcfg_engines (groups d ! g) \<and>
        ioread64 (GRPFLGCFG_OFFSET (grpcfg_offset d) g) (d\<lparr>regs := r\<rparr>) = grpcfg_flags (groups d ! g)"
    using Suc by auto
  let ?d = "d\<lparr>regs := r\<rparr>"
  obtain r' where r': "idxd_group_config_write E n ?d = d\<lparr>regs := r'\<rparr>"
    using group_config_write_frame [of E n ?d] by auto
  have id: "grp_id (groups ?d ! n) = n" using wf_grp_id [OF wf] Suc.prems by simp
  have blk: "group_block ?d g = group_block d g" for g by (simp add: group_block_def)
  have "group_block d n \<subseteq> ?A" using Suc.prems by (intro UN_upper) simp
  then have pn: "plain_regs E (group_block ?d n)" using p plain_regs_mono unfolding blk by blast
  note new = group_config_write_regs [OF pn id, unfolded r']
  have other: "r' a = r a" if "a \<in> group_block d g" "g < n" for a g
  proof -
    have "a \<in> ?A" using that Suc.prems by auto
    moreover have "a \<notin> group_block ?d n" using that by (auto simp: group_block_def)
    ultimately show ?thesis
      using group_config_write_other [OF p _ _ id, of a] by (simp add: r')
  qed
  have keep: "ioread64 a (d\<lparr>regs := r'\<rparr>) = ioread64 a (d\<lparr>regs := r\<rparr>)"
    if "a \<in> group_block d g" "a + 4 \<in> group_block d g" "g < n" for a g
    using other that by (simp add: ioread64_def)
  show ?case
  proof (intro exI [of _ r'] conjI allI impI)
    show "fold (\<lambda>i d. idxd_group_config_write E i d) [0..<Suc n] d = d\<lparr>regs := r'\<rparr>"
      using r r' by simp
  next
    fix g k assume g: "g < Suc n" and k: "k < (4 :: nat)"
    show "ioread64 (GRPWQCFG_OFFSET (grpcfg_offset d) g k) (d\<lparr>regs := r'\<rparr>) = grpcfg_wqs (groups d ! g) ! k"
    proof (cases "g = n")
      case True
      then show ?thesis using new(1) [OF k] by simp
    next
      case False
      then show ?thesis using g k old keep [of "GRPWQCFG_OFFSET (grpcfg_offset d) g k" g]
        by (simp add: group_block_def GRPWQCFG_OFFSET_def)
    qed
  next
    fix g assume g: "g < Suc n"
    show "ioread64 (GRPENGCFG_OFFSET (grpcfg_offset d) g) (d\<lparr>regs := r'\<rparr>) = grpcfg_engines (groups d ! g)"
      "ioread64 (GRPFLGCFG_OFFSET (grpcfg_offset d) g) (d\<lparr>regs := r'\<rparr>) = grpcfg_flags (groups d ! g)"
      using g new(2,3) old keep [of "GRPENGCFG_OFFSET (grpcfg_offset d) g" g]
        keep [of "GRPFLGCFG_OFFSET (grpcfg_offset d) g" g]
      by (cases "g = n"; simp add: group_block_def GRPENGCFG_OFFSET_def GRPFLGCFG_OFFSET_def)+
  qed
qed

subsection \<open>Queue registers\<close>

lemma cfg_set_simps [simp]:
  "wq_id (cfg_set k L f v w) = wq_id w" "wq_group (cfg_set k L f v w) = wq_group w"
  "wq_size (cfg_set k L f v w) = wq_size w" "threshold (cfg_set k L f v w) = threshold w"
  "priority (cfg_set k L f v w) = priority w" "wq_flags (cfg_set k L f v w) = wq_flags w"
  "wq_type (cfg_set k L f v w) = wq_type w" "max_xfer_bytes (cfg_set k L f v w) = max_xfer_bytes w"
  "max_batch_size (cfg_set k L f v w) = max_batch_size w" "wq_opcap (cfg_set k L f v w) = wq_opcap w"
  "wqcfg (cfg_set k L f v w) = list_upd k (setf L f v) (wqcfg w)"
  "wq_dedicated (cfg_set k L f v w) = wq_dedicated w"
  by (simp_all add: cfg_set_def wq_dedicated_def)

text \<open>A queue without the two fields a configuration write changes.\<close>

definition wq_rest :: "idxd_wq \<Rightarrow> idxd_wq" where
  "wq_rest w = w\<lparr>wq_size := 0, wqcfg := []\<rparr>"

lemma wq_rest_simps:
  "wq_rest (cfg_set k L f v w) = wq_rest w" "wq_rest (w\<lparr>wqcfg := c\<rparr>) = wq_rest w"
  "wq_rest (w\<lparr>wq_size := n\<rparr>) = wq_rest w" "wq_rest (if b then x else y) = (if b then wq_rest x else wq_rest y)"
  by (simp_all add: wq_rest_def cfg_set_def)

lemma wq_rest_fields:
  assumes "wq_rest v = wq_rest w"
  shows "wq_group v = wq_group w" "wq_id v = wq_id w" "wq_type v = wq_type w" "wq_ie v = wq_ie w"
    "wq_state v = wq_state w"
  using arg_cong [OF assms, of wq_group] arg_cong [OF assms, of wq_id] arg_cong [OF assms, of wq_type]
    arg_cong [OF assms, of wq_ie] arg_cong [OF assms, of wq_state]
  by (simp_all add: wq_rest_def)

lemma wqcfg_head_frame: "wq_rest (wqcfg_head hw n w) = wq_rest w"
  by (simp only: wqcfg_head_def Let_def wq_rest_simps if_cancel)

lemma wqcfg_tail_frame: "wq_rest (wqcfg_tail E d w) = wq_rest w"
proof -
  have "wq_rest (case q of None \<Rightarrow> x | Some m \<Rightarrow> if c then x\<lparr>wqcfg := set_op_config m (wqcfg x)\<rparr> else x) = wq_rest x"
    for q x c by (cases q) (simp_all only: option.case wq_rest_simps if_cancel)
  then show ?thesis by (simp only: wqcfg_tail_def Let_def wq_rest_simps if_cancel)
qed

lemma fold_iowrite32_regs: "\<exists>r. fold (\<lambda>k. iowrite32 E (v k) (a k)) ks d = d\<lparr>regs := r\<rparr>"
  for d :: idxd_device
proof (induction ks arbitrary: d)
  case Nil
  have "d = d\<lparr>regs := regs d\<rparr>" by simp
  then show ?case by (metis fold_simps(1))
next
  case (Cons k ks)
  obtain r where "fold (\<lambda>k. iowrite32 E (v k) (a k)) ks (iowrite32 E (v k) (a k) d) =
      (iowrite32 E (v k) (a k) d)\<lparr>regs := r\<rparr>" using Cons by blast
  moreover have "(iowrite32 E (v k) (a k) d)\<lparr>regs := r\<rparr> = d\<lparr>regs := r\<rparr>"
    by (simp add: iowrite32_def)
  ultimately show ?case by (intro exI [of _ r]) simp
qed

text \<open>What writing the queues' configuration leaves alone.\<close>

definition same_but_wqcfg :: "idxd_device \<Rightarrow> idxd_device \<Rightarrow> bool" where
  "same_but_wqcfg d d' \<longleftrightarrow>
     (\<exists>r ws c. d' = d\<lparr>regs := r, wqs := ws, cmd_status := c\<rparr> \<and> length ws = length (wqs d) \<and>
       map wq_rest ws = map wq_rest (wqs d))"

lemma same_but_wqcfg_refl: "same_but_wqcfg d d"
  unfolding same_but_wqcfg_def
  by (intro exI [of _ "regs d"] exI [of _ "wqs d"] exI [of _ "cmd_status d"]) simp

lemma same_but_wqcfg_trans:
  assumes "same_but_wqcfg d d'" "same_but_wqcfg d' d''"
  shows "same_but_wqcfg d d''"
proof -
  obtain r ws c where 1: "d' = d\<lparr>regs := r, wqs := ws, cmd_status := c\<rparr>" "length ws = length (wqs d)"
    "map wq_rest ws = map wq_rest (wqs d)"
    using assms(1) unfolding same_but_wqcfg_def by blast
  obtain r' ws' c' where 2: "d'' = d'\<lparr>regs := r', wqs := ws', cmd_status := c'\<rparr>" "length ws' = length (wqs d')"
    "map wq_rest ws' = map wq_rest (wqs d')"
    using assms(2) unfolding same_but_wqcfg_def by blast
  show ?thesis unfolding same_but_wqcfg_def
    by (intro exI [of _ r'] exI [of _ ws'] exI [of _ c']) (use 1 2 in simp)
qed

lemma wq_config_write_frame: "same_but_wqcfg d (snd (idxd_wq_config_write E i d))"
proof (cases "wq_group (wqs d ! i)")
  case None
  then show ?thesis by (simp add: idxd_wq_config_write_def same_but_wqcfg_refl)
next
  case (Some g)
  define w1 where "w1 = wqcfg_head (\<lambda>k. ioread32 (wqcfg_addr d i k) d) (WQCFG_STRIDES (wqcfg_size d)) (wqs d ! i)"
  define w2 where "w2 = wqcfg_tail E (upd_wq i (\<lambda>_. w1) d) w1"
  have u: "map wq_rest ((wqs d)[i := w]) = map wq_rest (wqs d)"
    if "wq_rest w = wq_rest (wqs d ! i)" for w
    using that by (cases "i < length (wqs d)") (simp_all add: map_update list_update_same_conv list_update_beyond)
  have w: "wq_rest w1 = wq_rest (wqs d ! i)" "wq_rest w2 = wq_rest (wqs d ! i)"
    by (simp_all add: w1_def w2_def wqcfg_head_frame wqcfg_tail_frame)
  obtain r where r: "fold (\<lambda>k. iowrite32 E (wqcfg w2 ! k) (wqcfg_addr d i k)) [0..<WQCFG_STRIDES (wqcfg_size d)]
      (upd_wq i (\<lambda>_. w2) (upd_wq i (\<lambda>_. w1) d)) = (upd_wq i (\<lambda>_. w2) (upd_wq i (\<lambda>_. w1) d))\<lparr>regs := r\<rparr>"
    using fold_iowrite32_regs by blast
  have "snd (idxd_wq_config_write E i d) =
      (if \<not> wqcfg_priv_ok (upd_wq i (\<lambda>_. w1) d) w1
       then d\<lparr>wqs := (wqs d)[i := w1], cmd_status := Scmd IDXD_SCMD_WQ_NO_PRIV\<rparr>
       else d\<lparr>regs := r, wqs := (wqs d)[i := w2]\<rparr>)"
    using Some r unfolding idxd_wq_config_write_def Let_def w1_def [symmetric] w2_def [symmetric]
    by (simp add: upd_wq_def list_upd_def)
  moreover have "same_but_wqcfg d (d\<lparr>wqs := (wqs d)[i := w1], cmd_status := Scmd IDXD_SCMD_WQ_NO_PRIV\<rparr>)"
    unfolding same_but_wqcfg_def
    by (intro exI [of _ "regs d"] exI [of _ "(wqs d)[i := w1]"] exI [of _ "Scmd IDXD_SCMD_WQ_NO_PRIV"])
      (use u [of w1] w in simp)
  moreover have "same_but_wqcfg d (d\<lparr>regs := r, wqs := (wqs d)[i := w2]\<rparr>)"
    unfolding same_but_wqcfg_def
    by (intro exI [of _ r] exI [of _ "(wqs d)[i := w2]"] exI [of _ "cmd_status d"])
      (use u [of w2] w in simp)
  ultimately show ?thesis by simp
qed

lemma wqs_config_write_frame: "same_but_wqcfg d (snd (wqs_config_write_loop E is d))"
proof (induction "is" arbitrary: d)
  case Nil
  then show ?case by (simp add: same_but_wqcfg_refl)
next
  case (Cons i "is")
  obtain rc d1 where c: "idxd_wq_config_write E i d = (rc, d1)" by (cases "idxd_wq_config_write E i d")
  have a: "same_but_wqcfg d d1" using wq_config_write_frame [of d E i] by (simp add: c)
  show ?case using a same_but_wqcfg_trans [OF a Cons] by (simp add: c)
qed


lemma same_but_bitmapsD:
  assumes "same_but_bitmaps d d'"
  shows "wqs d' = wqs d" "engines d' = engines d" "max_wqs d' = max_wqs d" "max_groups d' = max_groups d"
    "max_engines d' = max_engines d" "grpcfg_offset d' = grpcfg_offset d" "regs d' = regs d"
    "wf_dev d' = wf_dev d" "wf_groups d' = wf_groups d" "length (groups d') = length (groups d)"
    "map grp_id (groups d') = map grp_id (groups d)"
    "wqcfg_offset d' = wqcfg_offset d" "wqcfg_size d' = wqcfg_size d"
proof -
  obtain gs c where d': "d' = d\<lparr>groups := gs, cmd_status := c\<rparr>"
    and g: "map (\<lambda>g. g\<lparr>grpcfg_wqs := [], grpcfg_engines := 0\<rparr>) gs =
         map (\<lambda>g. g\<lparr>grpcfg_wqs := [], grpcfg_engines := 0\<rparr>) (groups d)"
    and l: "map (length \<circ> grpcfg_wqs) gs = map (length \<circ> grpcfg_wqs) (groups d)"
    using assms unfolding same_but_bitmaps_def by blast
  have id: "map grp_id gs = map grp_id (groups d)"
    using arg_cong [OF g, of "map grp_id"] by (simp add: comp_def)
  have len: "length gs = length (groups d)" using arg_cong [OF l, of length] by simp
  show "wqs d' = wqs d" "engines d' = engines d" "max_wqs d' = max_wqs d" "max_groups d' = max_groups d"
    "max_engines d' = max_engines d" "grpcfg_offset d' = grpcfg_offset d" "regs d' = regs d"
    "wf_dev d' = wf_dev d" "wf_groups d' = wf_groups d" "length (groups d') = length (groups d)"
    "map grp_id (groups d') = map grp_id (groups d)"
    "wqcfg_offset d' = wqcfg_offset d" "wqcfg_size d' = wqcfg_size d"
    using id len l by (simp_all add: d' wf_dev_def wf_groups_def)
qed

lemma same_but_wqcfgD:
  assumes "same_but_wqcfg d d'"
  shows "groups d' = groups d" "engines d' = engines d" "max_wqs d' = max_wqs d"
    "max_groups d' = max_groups d" "max_engines d' = max_engines d" "grpcfg_offset d' = grpcfg_offset d"
    "map wq_group (wqs d') = map wq_group (wqs d)" "wf_dev d \<Longrightarrow> wf_dev d'"
proof -
  obtain r ws c where d'0: "d' = d\<lparr>regs := r, wqs := ws, cmd_status := c\<rparr>" "length ws = length (wqs d)"
    "map wq_rest ws = map wq_rest (wqs d)"
    using assms unfolding same_but_wqcfg_def by blast
  have d': "d' = d\<lparr>regs := r, wqs := ws, cmd_status := c\<rparr>" "length ws = length (wqs d)"
    "map wq_group ws = map wq_group (wqs d)" "map wq_id ws = map wq_id (wqs d)"
  proof -
    have "wq_group (ws ! j) = wq_group (wqs d ! j) \<and> wq_id (ws ! j) = wq_id (wqs d ! j)"
      if "j < length ws" for j
      using arg_cong [OF d'0(3), of "\<lambda>xs. xs ! j"] that d'0(2) wq_rest_fields [of "ws ! j" "wqs d ! j"] by simp
    then show "map wq_group ws = map wq_group (wqs d)" "map wq_id ws = map wq_id (wqs d)"
      using d'0(2) by (simp_all add: list_eq_iff_nth_eq)
  qed (rule d'0)+
  have in_ws: "\<exists>v\<in>set (wqs d). wq_group v = wq_group w" if "w \<in> set ws" for w
    using that arg_cong [OF d'(3), of set] by (metis imageE image_eqI list.set_map)
  show "groups d' = groups d" "engines d' = engines d" "max_wqs d' = max_wqs d"
    "max_groups d' = max_groups d" "max_engines d' = max_engines d" "grpcfg_offset d' = grpcfg_offset d"
    "map wq_group (wqs d') = map wq_group (wqs d)"
    using d' by simp_all
  show "wf_dev d'" if "wf_dev d"
  proof -
    have "\<forall>w\<in>set ws. \<forall>g. wq_group w = Some g \<longrightarrow> g < max_groups d"
      using in_ws that unfolding wf_dev_def by metis
    then show ?thesis using that d' by (simp add: wf_dev_def)
  qed
qed

lemma engines_setup_wqs:
  assumes "idxd_engines_setup d = (rc, d')"
  shows "map grpcfg_wqs (groups d') = map grpcfg_wqs (groups d)"
proof -
  have "map grpcfg_wqs (groups (snd (engines_setup_loop is n d))) = map grpcfg_wqs (groups d)" for "is" n d
  proof (induction "is" n d rule: engines_setup_loop.induct)
    case (2 i "is" n d)
    then show ?case by (cases "eng_group (engines d ! i)") (simp_all add: Let_def)
  qed simp
  moreover have "map grpcfg_wqs (groups (fold (\<lambda>i. upd_group i (\<lambda>x. x\<lparr>grpcfg_engines := 0\<rparr>)) is d))
      = map grpcfg_wqs (groups d)" for "is" d
    by (induction "is" arbitrary: d) simp_all
  ultimately show ?thesis
    using assms by (auto simp: idxd_engines_setup_def Let_def split_beta split: if_splits)
qed

text \<open>
  C9: a successful configuration programs the group table with the assignment the driver holds:
  reading back the registers, bit \<open>j mod 64\<close> of queue word \<open>j div 64\<close> of group \<open>g\<close> is set exactly
  when queue \<open>j\<close> is assigned to \<open>g\<close>, and bit \<open>j\<close> of its engine word exactly when engine \<open>j\<close> is.
  The hypothesis on the registers is that the group table is plain storage.
\<close>
theorem device_config_programs_groups:
  assumes wf: "wf_dev d" "wf_groups d" and p: "plain_regs E (\<Union>g < max_groups d. group_block d g)"
    and res: "idxd_device_config E d = (0, d')" and g: "g < max_groups d"
  shows "(\<forall>j < max_wqs d. bit (ioread64 (GRPWQCFG_OFFSET (grpcfg_offset d) g (j div 64)) d') (j mod 64) \<longleftrightarrow>
        wq_group (wqs d ! j) = Some g) \<and>
     (\<forall>j < max_engines d. bit (ioread64 (GRPENGCFG_OFFSET (grpcfg_offset d) g) d') j \<longleftrightarrow>
        eng_group (engines d ! j) = Some g)"
proof -
  obtain r1 d1 where s1: "idxd_wqs_setup E d = (r1, d1)" by (cases "idxd_wqs_setup E d")
  obtain r2 d2 where s2: "idxd_engines_setup d1 = (r2, d2)" by (cases "idxd_engines_setup d1")
  define d3 where "d3 = idxd_group_flags_setup d2"
  obtain r4 d4 where s4: "idxd_wqs_config_write E d3 = (r4, d4)" by (cases "idxd_wqs_config_write E d3")
  have ok: "0 \<le> r1" "0 \<le> r2" "0 \<le> r4" and d': "d' = snd (idxd_groups_config_write E d4)"
    using res by (auto simp: idxd_device_config_def s1 s2 s4 d3_def [symmetric] Let_def split_beta
        split: if_splits)
  note b1 = wqs_setup_bitmaps [OF wf s1 ok(1)]
  have same1: "same_but_bitmaps d d1" using b1 by blast
  note f1 = same_but_bitmapsD [OF same1]
  have wf1: "wf_dev d1" using wf f1 by simp
  note b2 = engines_setup_bitmaps [OF wf1 s2]
  have same2: "same_but_bitmaps d1 d2" using b2 by blast
  note f2 = same_but_bitmapsD [OF same2]
  have img: "grpcfg_wqs (group_flags_image x) = grpcfg_wqs x" "grpcfg_engines (group_flags_image x) = grpcfg_engines x"
    "grp_id (group_flags_image x) = grp_id x" for x
    by (simp_all add: group_flags_image_def Let_def)
  have gl: "length (groups d2) = max_groups d2" using f1 f2 wf by (simp add: wf_dev_def)
  have d3: "d3 = d2\<lparr>groups := map group_flags_image (groups d2)\<rparr>"
    using gl by (simp add: d3_def idxd_group_flags_setup_def fold_upd_group fold_list_upd_len)
  have wf3: "wf_dev d3" using wf1 f2 by (simp add: d3 wf_dev_def img(3) comp_def)
  have same4: "same_but_wqcfg d3 d4"
    using wqs_config_write_frame [of d3 E "[0..<max_wqs d3]"] s4 by (simp add: idxd_wqs_config_write_def)
  note f4 = same_but_wqcfgD [OF same4]
  have wf4: "wf_dev d4" using f4(8) wf3 by simp
  define d5 where "d5 = (if getf gen_cap_reg ''config_en'' (gen_cap d4) \<noteq> 0 \<and> rdbuf_limit d4 \<noteq> 0
       then iowrite32 E (setf gencfg_reg ''rdbuf_limit'' (word_of_int (rdbuf_limit d4))
              (ioread32 IDXD_GENCFG_OFFSET d4)) IDXD_GENCFG_OFFSET d4 else d4)"
  have f5: "groups d5 = groups d4" "max_groups d5 = max_groups d4" "grpcfg_offset d5 = grpcfg_offset d4"
    "wf_dev d5 = wf_dev d4" by (simp_all add: d5_def wf_dev_def)
  have base: "max_groups d5 = max_groups d" "grpcfg_offset d5 = grpcfg_offset d"
    using f1 f2 f4 f5 by (simp_all add: d3)
  have "plain_regs E (\<Union>g < max_groups d5. group_block d5 g)"
    using p by (simp add: group_block_def base)
  then obtain r where r: "fold (\<lambda>i d. idxd_group_config_write E i d) [0..<max_groups d5] d5 = d5\<lparr>regs := r\<rparr>"
    and tab: "\<forall>g < max_groups d5. (\<forall>k < 4. ioread64 (GRPWQCFG_OFFSET (grpcfg_offset d5) g k) (d5\<lparr>regs := r\<rparr>) = grpcfg_wqs (groups d5 ! g) ! k) \<and>
        ioread64 (GRPENGCFG_OFFSET (grpcfg_offset d5) g) (d5\<lparr>regs := r\<rparr>) = grpcfg_engines (groups d5 ! g) \<and>
        ioread64 (GRPFLGCFG_OFFSET (grpcfg_offset d5) g) (d5\<lparr>regs := r\<rparr>) = grpcfg_flags (groups d5 ! g)"
    using groups_write_fold [of d5 E "max_groups d5"] wf4 f5(4) by auto
  have d'5: "d' = d5\<lparr>regs := r\<rparr>"
    using d' r by (simp add: idxd_groups_config_write_def Let_def d5_def [symmetric] f5(2) [symmetric])
  have g2: "g < length (groups d2)" using g gl f1 f2 by simp
  have grp: "grpcfg_wqs (groups d5 ! g) = grpcfg_wqs (groups d1 ! g)"
    "grpcfg_engines (groups d5 ! g) = grpcfg_engines (groups d2 ! g)"
  proof -
    have "grpcfg_wqs (groups d2 ! g) = grpcfg_wqs (groups d1 ! g)"
      using arg_cong [OF engines_setup_wqs [OF s2], of "\<lambda>xs. xs ! g"] g2 f2 by simp
    then show "grpcfg_wqs (groups d5 ! g) = grpcfg_wqs (groups d1 ! g)"
      "grpcfg_engines (groups d5 ! g) = grpcfg_engines (groups d2 ! g)"
      using g2 f4 f5 by (simp_all add: d3 img)
  qed
  have "j div 64 < 4" if "j < max_wqs d" for j
    using that wf by (auto simp: wf_dev_def)
  then show ?thesis
    using tab g base grp b1 b2 f1 by (simp add: d'5 wq_bit_def engine_bit_def)
qed

lemma members_dw [simp]:
  "members wqcfg_dw0 = {''wq_size'', ''rsvd''}" "members wqcfg_dw1 = {''wq_thresh'', ''rsvd1''}"
  "members wqcfg_dw2 = {''mode'', ''bof'', ''wq_ats_disable'', ''wq_prs_disable'', ''priority'',
     ''pasid'', ''pasid_en'', ''priv'', ''rsvd3''}"
  "members wqcfg_dw3 = {''max_xfer_shift'', ''max_batch_shift'', ''rsvd4''}"
  by (auto simp: members_def wqcfg_dw0_def wqcfg_dw1_def wqcfg_dw2_def wqcfg_dw3_def)

lemma fld_len_dw [simp]:
  "fld_len wqcfg_dw0 ''wq_size'' = 16" "fld_len wqcfg_dw1 ''wq_thresh'' = 16"
  "fld_len wqcfg_dw2 ''mode'' = 1" "fld_len wqcfg_dw2 ''bof'' = 1"
  "fld_len wqcfg_dw2 ''wq_ats_disable'' = 1" "fld_len wqcfg_dw2 ''wq_prs_disable'' = 1"
  "fld_len wqcfg_dw2 ''priority'' = 4"
  "fld_len wqcfg_dw3 ''max_xfer_shift'' = 5" "fld_len wqcfg_dw3 ''max_batch_shift'' = 4"
  by (simp_all add: wqcfg_dw0_def wqcfg_dw1_def wqcfg_dw2_def wqcfg_dw3_def)

lemma length_set_op_config [simp]: "length (set_op_config b c) = length c"
proof -
  have "length (fold (\<lambda>m. list_upd (8 + m) (\<lambda>_. 0)) ms c) = length c" for ms and c :: "u32 list"
    by (induction ms arbitrary: c) simp_all
  moreover have "length (fold (\<lambda>n c. if bit b n then list_upd (8 + n div 32) (\<lambda>x. x OR push_bit (n mod 32) 1) c else c) ns c)
      = length c" for ns and c :: "u32 list"
    by (induction ns arbitrary: c) simp_all
  ultimately show ?thesis by (simp add: set_op_config_def Let_def)
qed

lemma nth_set_op_config:
  assumes "k < 8" "k < length c"
  shows "set_op_config b c ! k = c ! k"
proof -
  have "fold (\<lambda>m. list_upd (8 + m) (\<lambda>_. 0)) ms c ! k = c ! k \<and>
      length (fold (\<lambda>m. list_upd (8 + m) (\<lambda>_. 0)) ms c) = length c" if "k < length c" for ms and c :: "u32 list"
    using that assms(1) by (induction ms arbitrary: c) (simp_all add: nth_list_upd)
  moreover have "fold (\<lambda>n c. if bit b n then list_upd (8 + n div 32) (\<lambda>x. x OR push_bit (n mod 32) 1) c else c) ns c ! k
      = c ! k" if "k < length c" for ns and c :: "u32 list"
    using that assms(1) by (induction ns arbitrary: c) (simp_all add: nth_list_upd)
  ultimately show ?thesis using assms(2) by (simp add: set_op_config_def Let_def)
qed

text \<open>The operation configuration is the bitmap, 32 bits to a word.\<close>

lemma op_fold_bits:
  assumes "m < 8" "length c = 16" "j < 32" "set ns \<subseteq> {..<256}"
  shows "bit (fold (\<lambda>n c. if bit b n then list_upd (8 + n div 32) (\<lambda>x. x OR push_bit (n mod 32) 1) c else c) ns c
           ! (8 + m)) j \<longleftrightarrow> bit ((c :: u32 list) ! (8 + m)) j \<or> 32 * m + j \<in> set ns \<and> bit (b :: 256 word) (32 * m + j)"
  using assms
proof (induction ns arbitrary: c)
  case Nil
  then show ?case by simp
next
  case (Cons n ns)
  let ?c = "if bit b n then list_upd (8 + n div 32) (\<lambda>x. x OR push_bit (n mod 32) 1) c else c"
  have len: "length ?c = 16" using Cons.prems by simp
  have "n = 32 * m + j \<longleftrightarrow> n div 32 = m \<and> n mod 32 = j"
    using Cons.prems(3) mult_div_mod_eq [of 32 n] by auto
  then have "bit (?c ! (8 + m)) j \<longleftrightarrow> bit (c ! (8 + m)) j \<or> n = 32 * m + j \<and> bit b n"
    using Cons.prems by (auto simp: nth_list_upd bit_or_exp)
  then show ?case using Cons.IH [OF Cons.prems(1) len Cons.prems(3)] Cons.prems(4) by auto
qed


lemma set_op_config_word:
  assumes "m < 8" "length c = 16"
  shows "set_op_config b c ! (8 + m) = ucast (drop_bit (32 * m) b)"
proof (rule bit_word_eqI)
  fix j :: nat assume j: "j < LENGTH(32)"
  have z: "length (fold (\<lambda>m. list_upd (8 + m) (\<lambda>_. 0)) ms c) = length c \<and>
      (m \<in> set ms \<longrightarrow> fold (\<lambda>m. list_upd (8 + m) (\<lambda>_. 0)) ms c ! (8 + m) = 0 \<or> length c \<le> 8 + m)"
    for ms and c :: "u32 list"
  proof (induction ms rule: rev_induct)
    case (snoc q ms)
    then show ?case by (auto simp: nth_list_upd)
  qed simp
  have sub: "set [0..<256] \<subseteq> {..<256 :: nat}" by auto
  have b: "32 * m + j < 256" and j32: "j < 32" using assms j by simp_all
  have len: "length (fold (\<lambda>m. list_upd (8 + m) (\<lambda>_. 0)) [0..<8] c) = 16"
    using z [of "[0..<8]" c] assms by simp
  show "bit (set_op_config b c ! (8 + m)) j \<longleftrightarrow> bit (ucast (drop_bit (32 * m) b) :: u32) j"
    using op_fold_bits [OF assms(1) len j32 sub, of b] z [of "[0..<8]" c] assms b j32
    by (simp add: set_op_config_def Let_def bit_simps)
qed

lemma fold_merge_nth:
  "k < length c \<Longrightarrow> n \<le> length c \<Longrightarrow>
     fold (\<lambda>k. list_upd k (\<lambda>x. x OR hw k)) [0..<n] c ! k = (if k < n then c ! k OR hw k else c ! k) \<and>
     length (fold (\<lambda>k. list_upd k (\<lambda>x. x OR hw k)) [0..<n] c) = length c"
proof (induction n)
  case (Suc n)
  then have n: "n < length c" "n \<le> length c" by simp_all
  have len: "length (fold (\<lambda>k. list_upd k (\<lambda>x. x OR hw k)) [0..<n] c) = length c"
    using Suc.IH [OF Suc.prems(1) n(2)] by blast
  show ?case
    using Suc.IH [OF Suc.prems(1) n(2)] Suc.prems len by (auto simp: nth_list_upd)
qed simp

lemma regs_fold_iowrite32:
  assumes "plain_regs E A" "f k \<in> A" "k \<in> set ks" "inj f"
  shows "regs (fold (\<lambda>k. iowrite32 E (v k) (f k)) ks s) (f k) = v k"
  using assms(3)
proof (induction ks rule: rev_induct)
  case (snoc j ks)
  show ?case
  proof (cases "k = j")
    case True
    then show ?thesis using assms(2) by (simp add: regs_iowrite32 [OF assms(1)])
  next
    case False
    then have "f k \<noteq> f j" using assms(4) by (simp add: inj_eq)
    then show ?thesis using snoc False by (simp add: regs_iowrite32 [OF assms(1,2)])
  qed
qed simp

definition wqcfg_block :: "idxd_device \<Rightarrow> nat \<Rightarrow> nat set" where
  "wqcfg_block d i = wqcfg_addr d i ` {..<WQCFG_STRIDES (wqcfg_size d)}"

lemma inj_wqcfg_addr: "inj (wqcfg_addr d i)"
  by (auto simp: inj_def wqcfg_addr_def WQCFG_OFFSET_def)

text \<open>The registers of a queue after a successful write are its shadow.\<close>

lemma wq_config_write_regs:
  assumes i: "i < length (wqs d)" and grp: "wq_group (wqs d ! i) \<noteq> None"
    and p: "plain_regs E (wqcfg_block d i)"
    and res: "idxd_wq_config_write E i d = (0, d')"
  shows "let w = wqcfg_head (\<lambda>k. ioread32 (wqcfg_addr d i k) d) (WQCFG_STRIDES (wqcfg_size d)) (wqs d ! i);
             w' = wqcfg_tail E d w
         in wqs d' ! i = w' \<and>
            (\<forall>k < WQCFG_STRIDES (wqcfg_size d). ioread32 (wqcfg_addr d i k) d' = wqcfg w' ! k)"
proof -
  let ?n = "WQCFG_STRIDES (wqcfg_size d)"
  define w where "w = wqcfg_head (\<lambda>k. ioread32 (wqcfg_addr d i k) d) ?n (wqs d ! i)"
  define w' where "w' = wqcfg_tail E d w"
  have t: "wqcfg_tail E (upd_wq i f d) w = wqcfg_tail E d w" for f
    unfolding wqcfg_tail_def by (simp only: upd_wq_simps)
  define x where "x = upd_wq i (\<lambda>_. w') (upd_wq i (\<lambda>_. w) d)"
  have d': "d' = fold (\<lambda>k. iowrite32 E (wqcfg w' ! k) (wqcfg_addr d i k)) [0..<?n] x"
    using res grp unfolding idxd_wq_config_write_def Let_def w_def [symmetric] t w'_def [symmetric] x_def
    by (auto split: if_splits)
  obtain r where r: "d' = x\<lparr>regs := r\<rparr>" using fold_iowrite32_regs d' by blast
  have "ioread32 (wqcfg_addr d i k) d' = wqcfg w' ! k" if "k < ?n" for k
  proof -
    have a: "wqcfg_addr d i k \<in> wqcfg_block d i" using that by (simp add: wqcfg_block_def)
    show ?thesis
      using regs_fold_iowrite32 [OF p a _ inj_wqcfg_addr, of "[0..<?n]"] that
      by (simp add: ioread32_def d')
  qed
  moreover have "wqs d' ! i = w'" using i by (simp add: r x_def nth_list_upd)
  ultimately show ?thesis by (simp add: w_def [symmetric] w'_def [symmetric] Let_def)
qed


text \<open>The four words with members after the head and the tail.\<close>

lemma wqcfg_words:
  fixes hw :: "nat \<Rightarrow> u32"
  assumes len: "length (wqcfg w) = n" "8 \<le> n"
  defines "x \<equiv> wqcfg_head hw n w"
  shows "wqcfg x ! 0 = setf wqcfg_dw0 ''wq_size'' (wq_size x) (wqcfg w ! 0 OR hw 0)"
    and "wqcfg x ! 1 = setf wqcfg_dw1 ''wq_thresh'' (threshold w) (wqcfg w ! 1 OR hw 1)"
    and "wqcfg x ! 2 = (if wq_dedicated w then setf wqcfg_dw2 ''mode'' 1 (wqcfg w ! 2 OR hw 2) else wqcfg w ! 2 OR hw 2)"
    and "length (wqcfg x) = n"
    and "wq_size x = (if wq_size w = 0 \<and> wq_type w \<noteq> IDXD_WQT_NONE then WQ_DEFAULT_QUEUE_DEPTH else wq_size w)"
    and "threshold x = threshold w" "priority x = priority w" "wq_flags x = wq_flags w"
    and "max_xfer_bytes x = max_xfer_bytes w" "max_batch_size x = max_batch_size w"
    and "wq_type x = wq_type w" "wq_opcap x = wq_opcap w" "wq_dedicated x = wq_dedicated w"
proof -
  have m: "fold (\<lambda>k. list_upd k (\<lambda>x. x OR hw k)) [0..<n] (wqcfg w) ! k = wqcfg w ! k OR hw k" if "k < n" for k
    using fold_merge_nth [of k "wqcfg w" n hw] that len by simp
  have l: "length (fold (\<lambda>k. list_upd k (\<lambda>x. x OR hw k)) [0..<n] (wqcfg w)) = n"
    using fold_merge_nth [of 0 "wqcfg w" n hw] len by simp
  have d: "wq_dedicated (w\<lparr>wqcfg := c\<rparr>) = wq_dedicated w" "wq_dedicated (w\<lparr>wqcfg := c, wq_size := z\<rparr>) = wq_dedicated w"
    for c z by (simp_all add: wq_dedicated_def)
  show "wqcfg x ! 0 = setf wqcfg_dw0 ''wq_size'' (wq_size x) (wqcfg w ! 0 OR hw 0)"
    "wqcfg x ! 1 = setf wqcfg_dw1 ''wq_thresh'' (threshold w) (wqcfg w ! 1 OR hw 1)"
    "wqcfg x ! 2 = (if wq_dedicated w then setf wqcfg_dw2 ''mode'' 1 (wqcfg w ! 2 OR hw 2) else wqcfg w ! 2 OR hw 2)"
    "length (wqcfg x) = n"
    "wq_size x = (if wq_size w = 0 \<and> wq_type w \<noteq> IDXD_WQT_NONE then WQ_DEFAULT_QUEUE_DEPTH else wq_size w)"
    "threshold x = threshold w" "priority x = priority w" "wq_flags x = wq_flags w"
    "max_xfer_bytes x = max_xfer_bytes w" "max_batch_size x = max_batch_size w"
    "wq_type x = wq_type w" "wq_opcap x = wq_opcap w" "wq_dedicated x = wq_dedicated w"
    using len(2) by (simp_all add: x_def wqcfg_head_def Let_def nth_list_upd l m d)
qed

lemma wqcfg_tail_words:
  fixes E :: env and d :: idxd_device
  assumes "length (wqcfg w) = n" "8 \<le> n"
  defines "y \<equiv> wqcfg_tail E d w"
  shows "wqcfg y ! 0 = wqcfg w ! 0" "wqcfg y ! 1 = wqcfg w ! 1"
    and "getf wqcfg_dw2 ''mode'' (wqcfg y ! 2) = getf wqcfg_dw2 ''mode'' (wqcfg w ! 2)"
    and "getf wqcfg_dw2 ''pasid'' (wqcfg y ! 2) = getf wqcfg_dw2 ''pasid'' (wqcfg w ! 2)"
    and "getf wqcfg_dw2 ''pasid_en'' (wqcfg y ! 2) = getf wqcfg_dw2 ''pasid_en'' (wqcfg w ! 2)"
    and "getf wqcfg_dw2 ''priority'' (wqcfg y ! 2) = take_bit 4 (priority w)"
    and "getf wqcfg_dw2 ''bof'' (wqcfg y ! 2) =
      (if getf gen_cap_reg ''block_on_fault'' (gen_cap d) \<noteq> 0 \<and> bit (wq_flags w) WQ_FLAG_BLOCK_ON_FAULT \<and>
          \<not> bit (wq_flags w) WQ_FLAG_PRS_DISABLE then 1 else getf wqcfg_dw2 ''bof'' (wqcfg w ! 2))"
    and "getf wqcfg_dw3 ''max_xfer_shift'' (wqcfg y ! 3) = take_bit 5 (word_of_nat (ilog2 E (max_xfer_bytes w)))"
    and "getf wqcfg_dw3 ''max_batch_shift'' (wqcfg y ! 3) =
      (if drv_type (drv_data d) = IDXD_TYPE_IAX then 0 else take_bit 4 (word_of_nat (ilog2 E (ucast (max_batch_size w)))))"
    and "wq_size y = wq_size w" "threshold y = threshold w" "priority y = priority w"
    and "max_xfer_bytes y = max_xfer_bytes w" "max_batch_size y = max_batch_size w"
proof -
  note s = dw2.get_set_same dw2.get_set_other dw3.get_set_same dw3.get_set_other nth_list_upd
  define c where "c = wqcfg (w\<lparr>wqcfg := wqcfg y\<rparr>)"
  let ?z = "let w = cfg_set 2 wqcfg_dw2 ''priority'' (priority w) w;
          w = (if getf gen_cap_reg ''block_on_fault'' (gen_cap d) \<noteq> 0 \<and>
                  bit (wq_flags w) WQ_FLAG_BLOCK_ON_FAULT \<and> \<not> bit (wq_flags w) WQ_FLAG_PRS_DISABLE
               then cfg_set 2 wqcfg_dw2 ''bof'' 1 w else w);
          w = (if getf wq_cap_reg ''wq_ats_support'' (wq_cap d) \<noteq> 0
               then cfg_set 2 wqcfg_dw2 ''wq_ats_disable'' (b2w (bit (wq_flags w) WQ_FLAG_ATS_DISABLE)) w
               else w)
       in if getf wq_cap_reg ''wq_prs_support'' (wq_cap d) \<noteq> 0
               then cfg_set 2 wqcfg_dw2 ''wq_prs_disable'' (b2w (bit (wq_flags w) WQ_FLAG_PRS_DISABLE)) w
               else w"
  define z where "z = ?z"
  have z: "wqcfg z ! 0 = wqcfg w ! 0" "wqcfg z ! 1 = wqcfg w ! 1" "length (wqcfg z) = n"
    "wq_size z = wq_size w" "threshold z = threshold w" "priority z = priority w"
    "max_xfer_bytes z = max_xfer_bytes w" "max_batch_size z = max_batch_size w"
    "wq_flags z = wq_flags w" "wq_opcap z = wq_opcap w"
    using assms by (simp_all add: z_def Let_def nth_list_upd)
  have z2: "getf wqcfg_dw2 ''mode'' (wqcfg z ! 2) = getf wqcfg_dw2 ''mode'' (wqcfg w ! 2)"
    "getf wqcfg_dw2 ''pasid'' (wqcfg z ! 2) = getf wqcfg_dw2 ''pasid'' (wqcfg w ! 2)"
    "getf wqcfg_dw2 ''pasid_en'' (wqcfg z ! 2) = getf wqcfg_dw2 ''pasid_en'' (wqcfg w ! 2)"
    "getf wqcfg_dw2 ''priority'' (wqcfg z ! 2) = take_bit 4 (priority w)"
    "getf wqcfg_dw2 ''bof'' (wqcfg z ! 2) =
      (if getf gen_cap_reg ''block_on_fault'' (gen_cap d) \<noteq> 0 \<and> bit (wq_flags w) WQ_FLAG_BLOCK_ON_FAULT \<and>
          \<not> bit (wq_flags w) WQ_FLAG_PRS_DISABLE then 1 else getf wqcfg_dw2 ''bof'' (wqcfg w ! 2))"
    using assms by (simp_all add: z_def Let_def s)
  have y: "y = (let w = cfg_set 3 wqcfg_dw3 ''max_xfer_shift'' (word_of_nat (ilog2 E (max_xfer_bytes z))) z;
          w = w\<lparr>wqcfg := idxd_wqcfg_set_max_batch_shift (drv_type (drv_data d))
                  (word_of_nat (ilog2 E (ucast (max_batch_size w)))) (wqcfg w)\<rparr>
      in case wq_opcap w of
           None \<Rightarrow> w
         | Some bmap \<Rightarrow>
             if getf wq_cap_reg ''op_config'' (wq_cap d) \<noteq> 0
             then w\<lparr>wqcfg := set_op_config bmap (wqcfg w)\<rparr> else w)"
    unfolding y_def wqcfg_tail_def z_def Let_def by (rule refl)
  have w3: "wqcfg y ! k = (if k = 3 then idxd_wqcfg_set_max_batch_shift (drv_type (drv_data d))
        (word_of_nat (ilog2 E (ucast (max_batch_size w))))
        (list_upd 3 (setf wqcfg_dw3 ''max_xfer_shift'' (word_of_nat (ilog2 E (max_xfer_bytes w)))) (wqcfg z)) ! 3
      else wqcfg z ! k)" if "k < 8" for k
    using that assms(2) z
    by (auto simp: y Let_def nth_set_op_config idxd_wqcfg_set_max_batch_shift_def nth_list_upd split: option.split)
  show "wqcfg y ! 0 = wqcfg w ! 0" "wqcfg y ! 1 = wqcfg w ! 1"
    "getf wqcfg_dw2 ''mode'' (wqcfg y ! 2) = getf wqcfg_dw2 ''mode'' (wqcfg w ! 2)"
    "getf wqcfg_dw2 ''pasid'' (wqcfg y ! 2) = getf wqcfg_dw2 ''pasid'' (wqcfg w ! 2)"
    "getf wqcfg_dw2 ''pasid_en'' (wqcfg y ! 2) = getf wqcfg_dw2 ''pasid_en'' (wqcfg w ! 2)"
    "getf wqcfg_dw2 ''priority'' (wqcfg y ! 2) = take_bit 4 (priority w)"
    "getf wqcfg_dw2 ''bof'' (wqcfg y ! 2) =
      (if getf gen_cap_reg ''block_on_fault'' (gen_cap d) \<noteq> 0 \<and> bit (wq_flags w) WQ_FLAG_BLOCK_ON_FAULT \<and>
          \<not> bit (wq_flags w) WQ_FLAG_PRS_DISABLE then 1 else getf wqcfg_dw2 ''bof'' (wqcfg w ! 2))"
    using z z2 by (simp_all add: w3)
  show "getf wqcfg_dw3 ''max_xfer_shift'' (wqcfg y ! 3) = take_bit 5 (word_of_nat (ilog2 E (max_xfer_bytes w)))"
    "getf wqcfg_dw3 ''max_batch_shift'' (wqcfg y ! 3) =
      (if drv_type (drv_data d) = IDXD_TYPE_IAX then 0 else take_bit 4 (word_of_nat (ilog2 E (ucast (max_batch_size w)))))"
    using z assms(2) by (simp_all add: w3 idxd_wqcfg_set_max_batch_shift_def s)
  show "wq_size y = wq_size w" "threshold y = threshold w" "priority y = priority w"
    "max_xfer_bytes y = max_xfer_bytes w" "max_batch_size y = max_batch_size w"
    using z by (simp_all add: y Let_def split: option.split)
qed


lemma wq_config_regs:
  assumes i: "i < length (wqs d)" and grp: "wq_group (wqs d ! i) \<noteq> None"
    and len: "length (wqcfg (wqs d ! i)) = WQCFG_STRIDES (wqcfg_size d)" "8 \<le> WQCFG_STRIDES (wqcfg_size d)"
    and p: "plain_regs E (wqcfg_block d i)"
    and res: "idxd_wq_config_write E i d = (0, d')"
  shows "let w = wqs d ! i; old = wqcfg w ! 2 OR ioread32 (wqcfg_addr d i 2) d;
             r = (\<lambda>k. ioread32 (wqcfg_addr d i k) d');
             size = (if wq_size w = 0 \<and> wq_type w \<noteq> IDXD_WQT_NONE then WQ_DEFAULT_QUEUE_DEPTH else wq_size w)
         in getf wqcfg_dw0 ''wq_size'' (r 0) = take_bit 16 size \<and>
            getf wqcfg_dw1 ''wq_thresh'' (r 1) = take_bit 16 (threshold w) \<and>
            getf wqcfg_dw2 ''mode'' (r 2) = (if wq_dedicated w then 1 else getf wqcfg_dw2 ''mode'' old) \<and>
            getf wqcfg_dw2 ''bof'' (r 2) =
              (if getf gen_cap_reg ''block_on_fault'' (gen_cap d) \<noteq> 0 \<and> bit (wq_flags w) WQ_FLAG_BLOCK_ON_FAULT \<and>
                  \<not> bit (wq_flags w) WQ_FLAG_PRS_DISABLE then 1 else getf wqcfg_dw2 ''bof'' old) \<and>
            getf wqcfg_dw2 ''priority'' (r 2) = take_bit 4 (priority w) \<and>
            getf wqcfg_dw2 ''pasid'' (r 2) = getf wqcfg_dw2 ''pasid'' old \<and>
            getf wqcfg_dw2 ''pasid_en'' (r 2) = getf wqcfg_dw2 ''pasid_en'' old \<and>
            getf wqcfg_dw3 ''max_xfer_shift'' (r 3) = take_bit 5 (word_of_nat (ilog2 E (max_xfer_bytes w))) \<and>
            getf wqcfg_dw3 ''max_batch_shift'' (r 3) =
              (if drv_type (drv_data d) = IDXD_TYPE_IAX then 0
               else take_bit 4 (word_of_nat (ilog2 E (ucast (max_batch_size w)))))"
proof -
  define hw where "hw = (\<lambda>k. ioread32 (wqcfg_addr d i k) d)"
  define x where "x = wqcfg_head hw (WQCFG_STRIDES (wqcfg_size d)) (wqs d ! i)"
  have r: "\<forall>k < WQCFG_STRIDES (wqcfg_size d). ioread32 (wqcfg_addr d i k) d' = wqcfg (wqcfg_tail E d x) ! k"
    using wq_config_write_regs [OF i grp p res] by (simp add: Let_def x_def hw_def)
  note x = wqcfg_words [OF len, of hw, folded x_def]
  note t = wqcfg_tail_words [OF x(4) len(2), of E d]
  have r0: "ioread32 (wqcfg_addr d i k) d' = wqcfg (wqcfg_tail E d x) ! k" if "k < 4" for k
    using r that len(2) by simp
  have rs: "ioread32 (wqcfg_addr d i 0) d' = wqcfg (wqcfg_tail E d x) ! 0"
    "ioread32 (wqcfg_addr d i 1) d' = wqcfg (wqcfg_tail E d x) ! 1"
    "ioread32 (wqcfg_addr d i 2) d' = wqcfg (wqcfg_tail E d x) ! 2"
    "ioread32 (wqcfg_addr d i 3) d' = wqcfg (wqcfg_tail E d x) ! 3"
    by (rule r0; simp)+
  show ?thesis
    unfolding Let_def rs t x(6-13)
    using x(1-3,5) by (simp add: dw0.get_set_same dw1.get_set_same dw2.get_set_same dw2.get_set_other hw_def)
qed

text \<open>
  a successful queue configuration leaves in the device's registers the size (or the default
  depth for a typed queue of size 0), the threshold, the priority and the shifts the driver
  holds, each cut to its register width, and the PASID set earlier. Mode and block-on-fault are
  only ever set: a queue that is not dedicated, or must not block on faults, keeps the bit the
  shadow or the hardware already has.
\<close>
theorem wq_config_programs:
  assumes i: "i < length (wqs d)" and grp: "wq_group (wqs d ! i) \<noteq> None"
    and len: "length (wqcfg (wqs d ! i)) = WQCFG_STRIDES (wqcfg_size d)" "8 \<le> WQCFG_STRIDES (wqcfg_size d)"
    and p: "plain_regs E (wqcfg_block d i)"
    and res: "idxd_wq_config_write E i d = (0, d')"
  shows "let w = wqs d ! i; old = wqcfg w ! 2 OR ioread32 (wqcfg_addr d i 2) d;
             r = (\<lambda>k. ioread32 (wqcfg_addr d i k) d');
             size = (if wq_size w = 0 \<and> wq_type w \<noteq> IDXD_WQT_NONE then WQ_DEFAULT_QUEUE_DEPTH else wq_size w)
         in getf wqcfg_dw0 ''wq_size'' (r 0) = take_bit 16 size \<and>
            getf wqcfg_dw1 ''wq_thresh'' (r 1) = take_bit 16 (threshold w) \<and>
            getf wqcfg_dw2 ''mode'' (r 2) = (if wq_dedicated w then 1 else getf wqcfg_dw2 ''mode'' old) \<and>
            getf wqcfg_dw2 ''bof'' (r 2) =
              (if getf gen_cap_reg ''block_on_fault'' (gen_cap d) \<noteq> 0 \<and> bit (wq_flags w) WQ_FLAG_BLOCK_ON_FAULT \<and>
                  \<not> bit (wq_flags w) WQ_FLAG_PRS_DISABLE then 1 else getf wqcfg_dw2 ''bof'' old) \<and>
            getf wqcfg_dw2 ''priority'' (r 2) = take_bit 4 (priority w) \<and>
            getf wqcfg_dw2 ''pasid'' (r 2) = getf wqcfg_dw2 ''pasid'' old \<and>
            getf wqcfg_dw2 ''pasid_en'' (r 2) = getf wqcfg_dw2 ''pasid_en'' old \<and>
            getf wqcfg_dw3 ''max_xfer_shift'' (r 3) = take_bit 5 (word_of_nat (ilog2 E (max_xfer_bytes w))) \<and>
            getf wqcfg_dw3 ''max_batch_shift'' (r 3) =
              (if drv_type (drv_data d) = IDXD_TYPE_IAX then 0
               else take_bit 4 (word_of_nat (ilog2 E (ucast (max_batch_size w)))))"
  by (rule wq_config_regs [OF assms])


subsection \<open>Witnesses\<close>

text \<open>A device whose two tables do not overlap, with one dedicated queue in group 0.\<close>

definition sample_cfg :: idxd_device where
  "sample_cfg = sample_dev
     \<lparr>grpcfg_offset := 0x1000, wqcfg_offset := 0x2000, engines := [zero_engine\<lparr>eng_group := Some 0\<rparr>],
      wqs := [zero_wq\<lparr>wq_group := Some 0, wq_flags := 1, wq_size := 8, priority := 5, wq_type := IDXD_WQT_USER,
                max_xfer_bytes := 2 ^ 21, max_batch_size := 2 ^ 5, wqcfg := replicate 8 0\<rparr>,
              zero_wq\<lparr>wq_id := 1\<rparr>]\<rparr>"

definition exact_log :: "u64 \<Rightarrow> nat" where
  "exact_log x = length (takeWhile (\<lambda>k. 2 ^ (k + 1) \<le> unat x) [0..<64])"

definition sample_env_log :: env where
  "sample_env_log = sample_env\<lparr>ilog2 := exact_log\<rparr>"

lemma sample_cfg_wf: "wf_dev sample_cfg" "wf_groups sample_cfg"
  by (simp_all add: sample_cfg_def sample_dev_def wf_dev_def wf_groups_def zero_defs upt_rec)

lemma sample_cfg_sel [simp]:
  "length (wqs sample_cfg) = 2" "max_groups sample_cfg = 1" "max_wqs sample_cfg = 2" "max_engines sample_cfg = 1"
  "grpcfg_offset sample_cfg = 0x1000" "wqcfg_offset sample_cfg = 0x2000" "wqcfg_size sample_cfg = 32"
  "eng_group (engines sample_cfg ! 0) = Some 0" "drv_data sample_cfg = \<lparr>drv_type = IDXD_TYPE_DSA, compl_size = 32\<rparr>"
  "wq_group (wqs sample_cfg ! 0) = Some 0" "wq_id (wqs sample_cfg ! 0) = 0" "wq_dedicated (wqs sample_cfg ! 0)"
  "wq_type (wqs sample_cfg ! 0) = IDXD_WQT_USER"
  "wq_group (wqs sample_cfg ! 1) = None" "wq_group (wqs sample_cfg ! Suc 0) = None"
  "wq_size (wqs sample_cfg ! 0) = 8" "threshold (wqs sample_cfg ! 0) = 0" "priority (wqs sample_cfg ! 0) = 5"
  "wqcfg (wqs sample_cfg ! 0) = replicate 8 0" "max_xfer_bytes (wqs sample_cfg ! 0) = 2 ^ 21"
  "max_batch_size (wqs sample_cfg ! 0) = 2 ^ 5"
  "regs sample_cfg 0x2008 = 0"
  by (simp_all add: sample_cfg_def sample_dev_def zero_defs wq_dedicated_def)

lemma sample_plain: "plain_regs sample_env A" "plain_regs sample_env_log A"
  by (auto simp: plain_regs_def sample_env_def sample_env_log_def)


lemma length_takeWhile_log:
  "k < n \<Longrightarrow> length (takeWhile (\<lambda>j. (2 :: nat) ^ (j + 1) \<le> 2 ^ k) [0..<n]) = k"
  by (subst takeWhile_eq_take_P_nth [of k]) (simp_all add: Suc_le_eq del: power_Suc)

lemma sample_log: "k < 64 \<Longrightarrow> ilog2 sample_env_log (2 ^ k) = k"
proof -
  assume k: "k < 64"
  have "unat (word_of_nat (2 ^ k) :: u64) = 2 ^ k"
    using k power_strict_increasing [of k 64 "2 :: nat"] by (simp only: unsigned_of_nat) (simp add: take_bit_eq_mod)
  then have "unat (2 ^ k :: u64) = 2 ^ k" by simp
  then have "exact_log (2 ^ k) = length (takeWhile (\<lambda>j. (2 :: nat) ^ (j + 1) \<le> 2 ^ k) [0..<64])"
    unfolding exact_log_def by (simp only:)
  also have "\<dots> = k" by (rule length_takeWhile_log [OF k])
  finally show ?thesis by (simp add: sample_env_log_def)
qed

lemma sample_cfg_ok: "fst (idxd_device_config sample_env sample_cfg) = 0"
  by code_simp

theorem device_config_programs_groups_witness:
  "bit (ioread64 0x1000 (snd (idxd_device_config sample_env sample_cfg))) 0 \<and>
   \<not> bit (ioread64 0x1000 (snd (idxd_device_config sample_env sample_cfg))) 1"
proof -
  obtain d' where d': "idxd_device_config sample_env sample_cfg = (0, d')"
    using sample_cfg_ok by (cases "idxd_device_config sample_env sample_cfg") simp
  show ?thesis
    using conjunct1 [OF device_config_programs_groups [OF sample_cfg_wf sample_plain(1) d', of 0], THEN spec, of 0]
      conjunct1 [OF device_config_programs_groups [OF sample_cfg_wf sample_plain(1) d', of 0], THEN spec, of 1]
    by (simp add: d' GRPWQCFG_OFFSET_def)
qed

lemma sample_wq_cfg: "fst (idxd_wq_config_write sample_env_log 0 sample_cfg) = 0"
  using wqcfg_words(11) [of "wqs sample_cfg ! 0" 8]
  by (simp add: idxd_wq_config_write_def Let_def wqcfg_priv_ok_def WQCFG_STRIDES_def)

theorem wq_config_programs_witness:
  "getf wqcfg_dw0 ''wq_size'' (ioread32 0x2000 (snd (idxd_wq_config_write sample_env_log 0 sample_cfg))) = 8"
proof -
  obtain d' where d': "idxd_wq_config_write sample_env_log 0 sample_cfg = (0, d')"
    using sample_wq_cfg by (cases "idxd_wq_config_write sample_env_log 0 sample_cfg") simp
  have a: "wqcfg_addr sample_cfg 0 0 = 0x2000"
    by (simp add: wqcfg_addr_def WQCFG_OFFSET_def)
  show ?thesis
    using wq_config_programs [OF _ _ _ _ sample_plain(2) d'] a
    by (simp add: d' WQCFG_STRIDES_def Let_def)
qed

theorem wqs_setup_bitmaps_witness:
  "wq_bit (snd (idxd_wqs_setup sample_env sample_cfg)) 0 0"
proof -
  have "fst (idxd_wqs_setup sample_env sample_cfg) = 0" by code_simp
  then obtain d' where d': "idxd_wqs_setup sample_env sample_cfg = (0, d')"
    by (cases "idxd_wqs_setup sample_env sample_cfg") simp
  show ?thesis
    using wqs_setup_bitmaps [OF sample_cfg_wf d'] by (simp add: d')
qed

theorem engines_setup_bitmaps_witness:
  "fst (idxd_engines_setup sample_cfg) = 0"
  using engines_setup_bitmaps [OF sample_cfg_wf(1), of "fst (idxd_engines_setup sample_cfg)" "snd (idxd_engines_setup sample_cfg)"]
  by (auto simp: less_Suc_eq)


end
