(* ===== verification/Resources.thy ===== *)
theory Resources
  imports Submit Config
begin

text \<open>
  Resources of a queue and the binding of queues and of the device to a driver, from
  \<^verbatim>\<open>idxd/device.c\<close> and \<^verbatim>\<open>idxd/dma.c\<close>. Every allocation is an external call that may fail; the
  count \<open>held\<close> of each kernel object shows what an error path gives back and what a remove
  path forgets.
\<close>

subsection \<open>Descriptor memory\<close>

text \<open>
  \<open>alloc_ptrs\<close> is the common shape of the two allocation functions: the pointer array is
  zeroed, then filled one by one; on a failure everything the array points to is freed. The
  free loops run over \<open>num_descs\<close> entries and skip null pointers, as \<^verbatim>\<open>kfree\<close> does.
\<close>

fun alloc_ptrs :: "env \<Rightarrow> (nat \<Rightarrow> obj) \<Rightarrow> nat list \<Rightarrow> bool list \<Rightarrow> idxd_device
    \<Rightarrow> (bool \<times> bool list) \<times> idxd_device" where
  "alloc_ptrs E ob [] ptrs d = ((True, ptrs), d)"
| "alloc_ptrs E ob (k # ks) ptrs d =
     (let (rc, d) = acquire E (ob k) d
      in if rc < 0 then ((False, ptrs), d) else alloc_ptrs E ob ks (ptrs[k := True]) d)"

fun free_ptrs :: "(nat \<Rightarrow> obj) \<Rightarrow> nat list \<Rightarrow> bool list \<Rightarrow> idxd_device \<Rightarrow> idxd_device" where
  "free_ptrs ob [] ptrs d = d"
| "free_ptrs ob (k # ks) ptrs d = free_ptrs ob ks ptrs (if ptrs ! k then release (ob k) d else d)"

definition free_hw_descs :: "nat \<Rightarrow> idxd_device \<Rightarrow> idxd_device" where
  "free_hw_descs i d =
     (let w = wqs d ! i;
          d = free_ptrs (\<lambda>k. W i (HwDesc k)) [0..<nat (num_descs w)] (hw_desc_ptrs w) d
      in release (W i HwDescs) d)"

definition alloc_hw_descs :: "env \<Rightarrow> nat \<Rightarrow> int \<Rightarrow> idxd_device \<Rightarrow> int \<times> idxd_device" where
  "alloc_hw_descs E i num d =
     (let (rc, d) = acquire E (W i HwDescs) d in
      if rc < 0 then (- ENOMEM, d)
      else
        let ((ok, ptrs), d) = alloc_ptrs E (\<lambda>k. W i (HwDesc k)) [0..<nat num] (replicate (nat num) False) d;
            d = upd_wq i (\<lambda>w. w\<lparr>hw_desc_ptrs := ptrs\<rparr>) d
        in if ok then (0, d) else (- ENOMEM, free_hw_descs i d))"

definition free_descs :: "nat \<Rightarrow> idxd_device \<Rightarrow> idxd_device" where
  "free_descs i d =
     (let w = wqs d ! i;
          d = free_ptrs (\<lambda>k. W i (Desc k)) [0..<nat (num_descs w)] (desc_ptrs w) d
      in release (W i Descs) d)"

definition alloc_descs :: "env \<Rightarrow> nat \<Rightarrow> int \<Rightarrow> idxd_device \<Rightarrow> int \<times> idxd_device" where
  "alloc_descs E i num d =
     (let (rc, d) = acquire E (W i Descs) d in
      if rc < 0 then (- ENOMEM, d)
      else
        let ((ok, ptrs), d) = alloc_ptrs E (\<lambda>k. W i (Desc k)) [0..<nat num] (replicate (nat num) False) d;
            d = upd_wq i (\<lambda>w. w\<lparr>desc_ptrs := ptrs, wq_descs := replicate (nat num) zero_desc\<rparr>) d
        in if ok then (0, d) else (- ENOMEM, free_descs i d))"

definition idxd_wq_alloc_resources :: "env \<Rightarrow> nat \<Rightarrow> idxd_device \<Rightarrow> int \<times> idxd_device" where
  "idxd_wq_alloc_resources E i d =
     (if wq_type (wqs d ! i) \<noteq> IDXD_WQT_KERNEL then (0, d)
      else
        let num = (if wq_dedicated (wqs d ! i) then uint (wq_size (wqs d ! i)) else uint (threshold (wqs d ! i)));
            csize = int (compl_size (drv_data d));
            d = upd_wq i (\<lambda>w. w\<lparr>num_descs := num\<rparr>) d;
            (rc, d) = alloc_hw_descs E i num d
        in if rc < 0 then (rc, d)
           else
             let d = upd_wq i (\<lambda>w. w\<lparr>compls_size := num * csize\<rparr>) d;
                 (addr, d) = acquire E (W i Compls) d
             in if addr < 0 then (- ENOMEM, free_hw_descs i d)
                else
                  let d = upd_wq i (\<lambda>w. w\<lparr>compls_addr := word_of_int addr\<rparr>) d;
                      (rc, d) = alloc_descs E i num d
                  in if rc < 0 then (rc, free_hw_descs i (release (W i Compls) d))
                     else
                       let (rc, d) = acquire E (W i Sbq) d
                       in if rc < 0 then (rc, free_hw_descs i (release (W i Compls) (free_descs i d)))
                          else
                            let d = upd_wq i (\<lambda>w. w\<lparr>sbq_alloc := {}, wq_descs :=
                                  map (\<lambda>k. (wq_descs w ! k)\<lparr>compl_dma := compls_addr w + word_of_int (csize * int k),
                                                           desc_id := k, desc_cpu := -1\<rparr>) [0..<nat num]\<rparr>) d
                            in (0, d))"

definition idxd_wq_free_resources :: "nat \<Rightarrow> idxd_device \<Rightarrow> idxd_device" where
  "idxd_wq_free_resources i d =
     (if wq_type (wqs d ! i) \<noteq> IDXD_WQT_KERNEL then d
      else
        let d = free_hw_descs i d;
            d = free_descs i d;
            d = release (W i Compls) d
        in release (W i Sbq) d)"

subsection \<open>The queue's interrupt\<close>

definition idxd_flush_pending_descs :: "env \<Rightarrow> nat \<Rightarrow> idxd_device \<Rightarrow> idxd_device" where
  "idxd_flush_pending_descs E i d =
     (let ie = wq_ie (wqs d ! i);
          flist = work_list ie @ pending_llist ie;
          d = upd_ie i (\<lambda>ie. ie\<lparr>pending_llist := [], work_list := []\<rparr>) d
      in fold (\<lambda>k d.
           let ctype = (if compl_status (the_desc i k d) \<noteq> 0 then IDXD_COMPLETE_NORMAL else IDXD_COMPLETE_ABORT);
               d = upd_desc i k (\<lambda>x. x\<lparr>txd_callback := False\<rparr>) d
           in idxd_dma_complete_txd E i k ctype True d) flist d)"

definition idxd_device_set_perm_entry :: "env \<Rightarrow> nat \<Rightarrow> idxd_device \<Rightarrow> idxd_device" where
  "idxd_device_set_perm_entry E i d =
     (let ie = wq_ie (wqs d ! i) in
      if ie_pasid ie = invalid_pasid E then d
      else
        iowrite32 E (setf msix_perm ''pasid_en'' 1 (setf msix_perm ''pasid'' (ie_pasid ie) 0))
          (unat (msix_perm_offset d) + ie_id ie * 8) d)"

definition idxd_device_clear_perm_entry :: "env \<Rightarrow> nat \<Rightarrow> idxd_device \<Rightarrow> idxd_device" where
  "idxd_device_clear_perm_entry E i d =
     iowrite32 E 0 (unat (msix_perm_offset d) + ie_id (wq_ie (wqs d ! i)) * 8) d"

definition idxd_wq_free_irq :: "env \<Rightarrow> nat \<Rightarrow> idxd_device \<Rightarrow> idxd_device" where
  "idxd_wq_free_irq E i d =
     (if wq_type (wqs d ! i) \<noteq> IDXD_WQT_KERNEL then d
      else
        let d = release (W i Irq) d;
            d = idxd_flush_pending_descs E i d;
            d = (if request_int_handles d
                 then snd (idxd_device_release_int_handle E (int_handle (wq_ie (wqs d ! i))) IDXD_IRQ_MSIX d)
                 else d);
            d = idxd_device_clear_perm_entry E i d
        in upd_ie i (\<lambda>ie. ie\<lparr>ie_vector := -1, int_handle := INVALID_INT_HANDLE, ie_pasid := invalid_pasid E\<rparr>) d)"

definition idxd_wq_request_irq :: "env \<Rightarrow> nat \<Rightarrow> idxd_device \<Rightarrow> int \<times> idxd_device" where
  "idxd_wq_request_irq E i d =
     (if wq_type (wqs d ! i) \<noteq> IDXD_WQT_KERNEL then (0, d)
      else
        let d = upd_ie i (\<lambda>ie. ie\<lparr>ie_vector := irq_vector E (ie_id ie),
                                   ie_pasid := (if device_pasid_enabled d then pasid d else invalid_pasid E)\<rparr>) d;
            d = idxd_device_set_perm_entry E i d;
            undo = (\<lambda>d. upd_ie i (\<lambda>ie. ie\<lparr>ie_pasid := invalid_pasid E\<rparr>) (idxd_device_clear_perm_entry E i d));
            (rc, d) = acquire E (W i Irq) d
        in if rc < 0 then (rc, undo d)
           else if request_int_handles d then
             let ((rc, handle), d) =
                   idxd_device_request_int_handle E (int (ie_id (wq_ie (wqs d ! i)))) IDXD_IRQ_MSIX d
             in if rc < 0
                then (rc, undo (release (W i Irq) (upd_ie i (\<lambda>ie. ie\<lparr>int_handle := INVALID_INT_HANDLE\<rparr>) d)))
                else (0, upd_ie i (\<lambda>ie. ie\<lparr>int_handle := handle\<rparr>) d)
           else (0, upd_ie i (\<lambda>ie. ie\<lparr>int_handle := int (ie_id ie)\<rparr>) d))"

subsection \<open>Binding a queue\<close>

definition set_status :: "idxd_scmd_stat \<Rightarrow> idxd_device \<Rightarrow> idxd_device" where
  "set_status c d = d\<lparr>cmd_status := Scmd c\<rparr>"

text \<open>The checks of \<^verbatim>\<open>drv_enable_wq\<close> before anything is changed.\<close>

definition enable_checks :: "env \<Rightarrow> nat \<Rightarrow> idxd_device \<Rightarrow> (idxd_scmd_stat \<times> int) option" where
  "enable_checks E i d =
     (let w = wqs d ! i in
      if dev_state d \<noteq> IDXD_DEV_ENABLED then Some (IDXD_SCMD_DEV_NOT_ENABLED, - ENXIO)
      else if wq_state w \<noteq> IDXD_WQ_DISABLED then Some (IDXD_SCMD_WQ_ENABLED, - EBUSY)
      else if wq_group w = None then Some (IDXD_SCMD_WQ_NO_GRP, - ENXIO)
      else if wq_name w = [] then Some (IDXD_SCMD_WQ_NO_NAME, - ENXIO)
      else if wq_shared w \<and> \<not> wq_shared_supported E w d then Some (IDXD_SCMD_WQ_NO_SVM, - ENXIO)
      else if wq_shared w \<and> threshold w = 0 then Some (IDXD_SCMD_WQ_NO_THRESH, - ENXIO)
      else None)"

definition drv_enable_wq :: "env \<Rightarrow> nat \<Rightarrow> idxd_device \<Rightarrow> int \<times> idxd_device" where
  "drv_enable_wq E i d =
     (case enable_checks E i d of
        Some (c, rc) \<Rightarrow> (rc, set_status c d)
      | None \<Rightarrow>
          let w = wqs d ! i;
              d = (if configurable d \<and> wq_pasid_enabled w d \<and> (is_idxd_wq_kernel w \<or> wq_shared w)
                   then idxd_wq_set_pasid_locked E i (if wq_dedicated w then pasid d else 0) d else d);
              (rc, d) = (if configurable d then idxd_device_config E d else (0, d))
          in if rc < 0 then (rc, d)
             else
               let (rc, d) = idxd_wq_enable E i d
               in if rc < 0 then (rc, d)
                  else
                    let (rc, d) = idxd_wq_map_portal E i d
                    in if rc < 0
                       then (rc, snd (idxd_wq_disable E i False (set_status IDXD_SCMD_WQ_PORTAL_ERR d)))
                       else
                         let d = upd_wq i (\<lambda>w. w\<lparr>client_count := 0\<rparr>) d;
                             undo_map = (\<lambda>d. snd (idxd_wq_disable E i False (idxd_wq_unmap_portal i d)));
                             (rc, d) = idxd_wq_request_irq E i d
                         in if rc < 0 then (rc, undo_map (set_status IDXD_SCMD_WQ_IRQ_ERR d))
                            else
                              let (rc, d) = idxd_wq_alloc_resources E i d
                              in if rc < 0
                                 then (rc, undo_map (idxd_wq_free_irq E i (set_status IDXD_SCMD_WQ_RES_ALLOC_ERR d)))
                                 else
                                   let (rc, d) = idxd_wq_init_percpu_ref E i d
                                   in if rc < 0
                                      then (rc, undo_map (idxd_wq_free_irq E i (idxd_wq_free_resources i
                                                  (set_status IDXD_SCMD_PERCPU_ERR d))))
                                      else (0, d))"

definition drv_disable_wq :: "env \<Rightarrow> nat \<Rightarrow> idxd_device \<Rightarrow> idxd_device" where
  "drv_disable_wq E i d =
     (let d = idxd_wq_unmap_portal i d;
          d = idxd_wq_drain E i d;
          d = idxd_wq_free_irq E i d;
          d = idxd_wq_reset E i d;
          d = idxd_wq_free_resources i d;
          d = release (W i Percpu) d
      in upd_wq i (\<lambda>w. w\<lparr>wq_type := IDXD_WQT_NONE, client_count := 0\<rparr>) d)"

subsection \<open>DMA engine channel and device\<close>

definition idxd_register_dma_device :: "env \<Rightarrow> idxd_device \<Rightarrow> int \<times> idxd_device" where
  "idxd_register_dma_device E d =
     (let (rc, d) = acquire E (D DmaDev) d in
      if rc < 0 then (- ENOMEM, d)
      else
        let (rc, d) = acquire E (D DmaReg) d
        in if rc < 0 then (rc, release (D DmaDev) d) else (0, d))"

text \<open>
  Unregistering drops the last reference, so the release callback frees the structure.
\<close>

definition idxd_unregister_dma_device :: "idxd_device \<Rightarrow> idxd_device" where
  "idxd_unregister_dma_device d = release (D DmaDev) (release (D DmaReg) d)"

definition dma_memcpy_offered :: "idxd_device \<Rightarrow> bool" where
  "dma_memcpy_offered d \<longleftrightarrow> opcap d ! 0 AND IDXD_OPCAP_MEMMOVE \<noteq> 0"

definition idxd_register_dma_channel :: "env \<Rightarrow> nat \<Rightarrow> idxd_device \<Rightarrow> int \<times> idxd_device" where
  "idxd_register_dma_channel E i d =
     (let (rc, d) = acquire E (W i Chan) d in
      if rc < 0 then (- ENOMEM, d)
      else
        let d = hold (W i ChanNode) d;
            (rc, d) = acquire E (W i ChanReg) d
        in if rc < 0 then (rc, release (W i Chan) d)
           else (0, hold (DevRef (DevWq i)) d))"

definition idxd_unregister_dma_channel :: "nat \<Rightarrow> idxd_device \<Rightarrow> idxd_device" where
  "idxd_unregister_dma_channel i d =
     (let d = release (W i ChanReg) d;
          d = release (W i ChanNode) d;
          d = release (W i Chan) d
      in release (DevRef (DevWq i)) d)"

definition idxd_dmaengine_drv_probe :: "env \<Rightarrow> nat \<Rightarrow> idxd_device \<Rightarrow> int \<times> idxd_device" where
  "idxd_dmaengine_drv_probe E i d =
     (let fail = upd_wq i (\<lambda>w. w\<lparr>wq_type := IDXD_WQT_NONE\<rparr>) in
      if dev_state d \<noteq> IDXD_DEV_ENABLED then (- ENXIO, d)
      else if \<not> idxd_wq_driver_name_match (wqs d ! i) ''dmaengine''
           then (- ENODEV, fail (set_status IDXD_SCMD_WQ_NO_DRV_NAME d))
      else
        let d = upd_wq i (\<lambda>w. w\<lparr>wq_type := IDXD_WQT_KERNEL\<rparr>) d;
            (rc, d) = drv_enable_wq E i d
        in if rc < 0 then (- ENXIO, fail d)
           else
             let (rc, d) = idxd_register_dma_channel E i d
             in if rc < 0
                then (rc, fail (drv_disable_wq E i (set_status IDXD_SCMD_DMA_CHAN_ERR d)))
                else (0, d\<lparr>cmd_status := HwStatus 0\<rparr>))"

definition idxd_dmaengine_drv_remove :: "env \<Rightarrow> nat \<Rightarrow> idxd_device \<Rightarrow> idxd_device" where
  "idxd_dmaengine_drv_remove E i d =
     drv_disable_wq E i (idxd_unregister_dma_channel i (idxd_wq_quiesce_locked i d))"

subsection \<open>Binding the device\<close>

text \<open>
  The event log is freed only when its enable bit is set; with the bit set and no log the free
  function dereferences \<^verbatim>\<open>NULL\<close>, so the probe and the remove return an option.
\<close>

definition idxd_device_drv_probe :: "env \<Rightarrow> idxd_device \<Rightarrow> (int \<times> idxd_device) option" where
  "idxd_device_drv_probe E d =
     (if dev_state d \<noteq> IDXD_DEV_DISABLED then Some (- ENXIO, set_status IDXD_SCMD_DEV_ENABLED d)
      else
        let (rc, d) = (if configurable d then idxd_device_config E d else (0, d)) in
        if rc < 0 then Some (- ENXIO, d)
        else
          let d = (if pasid d \<noteq> invalid_pasid E then idxd_set_user_intr E True d else d);
              (rc, d) = idxd_device_evl_setup E d
          in if rc < 0 then Some (rc, set_status IDXD_SCMD_DEV_EVL_ERR d)
             else
               let (rc, d) = idxd_device_enable E d
               in if rc < 0 then map_option (\<lambda>d. (rc, d)) (idxd_device_evl_free E d)
                  else
                    let (rc, d) = idxd_register_dma_device E d
                    in if rc < 0
                       then map_option (\<lambda>d. (rc, set_status IDXD_SCMD_DEV_DMA_ERR d))
                              (idxd_device_evl_free E (snd (idxd_device_disable E d)))
                       else Some (0, d\<lparr>cmd_status := HwStatus 0\<rparr>))"

text \<open>
  \<^verbatim>\<open>device_release_driver\<close> runs the bound driver's remove function for the queue, which is the
  argument \<open>remove_wq\<close>.
\<close>

definition idxd_device_drv_remove ::
  "env \<Rightarrow> (nat \<Rightarrow> idxd_device \<Rightarrow> idxd_device) \<Rightarrow> idxd_device \<Rightarrow> idxd_device option" where
  "idxd_device_drv_remove E remove_wq d =
     (let d = fold (\<lambda>i d. if wq_state (wqs d ! i) = IDXD_WQ_DISABLED then d
                          else remove_wq i (notify (DetachDriver (DevWq i)) d)) [0..<max_wqs d] d;
          d = idxd_unregister_dma_device d;
          d = snd (idxd_device_disable E d);
          d = (if configurable d then idxd_device_reset E d else d)
      in idxd_device_evl_free E d)"

subsection \<open>What the steps hold\<close>

lemma wqs_acquire: "wqs (snd (acquire E x d)) = wqs d"
  by simp

lemma held_cmd_exec: "held (snd (idxd_cmd_exec E c p d)) = held d"
  by simp

lemma held_wq_enable [simp]: "held (snd (idxd_wq_enable E i d)) = held d"
  by (simp add: idxd_wq_enable_def Let_def split_beta)

lemma held_wq_disable [simp]: "held (snd (idxd_wq_disable E i r d)) = held d"
  by (simp add: idxd_wq_disable_def Let_def split_beta disable_cleanup_eq)

lemma held_set_pasid_locked [simp]: "held (idxd_wq_set_pasid_locked E i p d) = held d"
  by (simp add: idxd_wq_set_pasid_locked_def Let_def)

lemma held_fold:
  "(\<And>k d. held (f k d) = held d) \<Longrightarrow> held (fold f ks d) = held d" for d :: "'a machine_scheme"
  by (induction ks arbitrary: d) simp_all

lemma held_device_config [simp]: "held (snd (idxd_device_config E d)) = held d"
proof -
  have a: "held (snd (idxd_wqs_setup E d)) = held d" for d
    using same_wqs_setup [of d E] by (auto simp: same_but_bitmaps_def)
  have b: "held (snd (idxd_engines_setup d)) = held d" for d
    using same_engines_setup [of d] by (auto simp: same_but_bitmaps_def)
  have c: "held (idxd_group_flags_setup d) = held d" for d
    by (simp add: idxd_group_flags_setup_def held_fold)
  have e: "held (snd (idxd_wqs_config_write E d)) = held d" for d
    using wqs_config_write_frame [of d E "[0..<max_wqs d]"]
    by (auto simp: same_but_wqcfg_def idxd_wqs_config_write_def)
  have g: "held (idxd_group_config_write E g d) = held d" for g d
    using group_config_write_frame [of E g d] by auto
  have f: "held (snd (idxd_groups_config_write E d)) = held d" for d
    by (simp add: idxd_groups_config_write_def Let_def held_fold g)
  show ?thesis
    by (simp add: idxd_device_config_def Let_def split_beta a b c e f)
qed

text \<open>What the configuration keeps of every queue.\<close>

lemma device_config_wq_rest:
  assumes "wf_dev d" "i < max_wqs d"
  shows "wq_rest (wqs (snd (idxd_device_config E d)) ! i) = wq_rest (wqs d ! i) \<and>
     length (wqs (snd (idxd_device_config E d))) = length (wqs d)"
proof -
  have a: "wqs (snd (idxd_wqs_setup E d)) = wqs d" for d
    using same_wqs_setup [of d E] by (auto simp: same_but_bitmaps_def)
  have b: "wqs (snd (idxd_engines_setup d)) = wqs d" for d
    using same_engines_setup [of d] by (auto simp: same_but_bitmaps_def)
  have c: "wqs (idxd_group_flags_setup d) = wqs d" for d
  proof -
    have "wqs (fold (\<lambda>i. upd_group i f) ks d) = wqs d" for f ks by (induction ks arbitrary: d) simp_all
    then show ?thesis by (simp add: idxd_group_flags_setup_def)
  qed
  have e: "map wq_rest (wqs (snd (idxd_wqs_config_write E d))) = map wq_rest (wqs d)" for d
    using wqs_config_write_frame [of d E "[0..<max_wqs d]"]
    by (auto simp: same_but_wqcfg_def idxd_wqs_config_write_def)
  have g: "wqs (idxd_group_config_write E g d) = wqs d" for g d
    using group_config_write_frame [of E g d] by auto
  have "wqs (fold (\<lambda>i d. idxd_group_config_write E i d) ks d) = wqs d" for ks d
    by (induction ks arbitrary: d) (simp_all add: g)
  then have f: "wqs (snd (idxd_groups_config_write E d)) = wqs d" for d
    by (simp add: idxd_groups_config_write_def Let_def)
  have m: "map wq_rest (wqs (snd (idxd_device_config E d))) = map wq_rest (wqs d)"
    by (simp add: idxd_device_config_def Let_def split_beta a b c e f)
  have l: "length (wqs (snd (idxd_device_config E d))) = length (wqs d)"
    using arg_cong [OF m, of length] by simp
  then show ?thesis
    using arg_cong [OF m, of "\<lambda>xs. xs ! i"] assms by (simp add: wf_dev_def)
qed

subsection \<open>Descriptor memory\<close>

lemma alloc_ptrs_spec:
  assumes "alloc_ptrs E ob ks ptrs d = ((ok, ptrs'), d')" "inj ob" "distinct ks"
    "\<forall>k\<in>set ks. k < length ptrs \<and> \<not> ptrs ! k"
  shows "held d' = addh (ob ` {k \<in> set ks. ptrs' ! k}) (held d) \<and> length ptrs' = length ptrs \<and>
     (\<forall>k. k \<notin> set ks \<longrightarrow> ptrs' ! k = ptrs ! k) \<and> (ok \<longrightarrow> (\<forall>k\<in>set ks. ptrs' ! k)) \<and>
     wqs d' = wqs d \<and> regs d' = regs d \<and> drv_data d' = drv_data d \<and> request_int_handles d' = request_int_handles d"
  using assms
proof (induction E ob ks ptrs d arbitrary: ok ptrs' d' rule: alloc_ptrs.induct)
  case (1 E ob ptrs d)
  then show ?case by simp
next
  case (2 E ob k ks ptrs d)
  let ?a = "acquire E (ob k) d"
  show ?case
  proof (cases "fst ?a < 0")
    case True
    then have e: "ok = False" "ptrs' = ptrs" "d' = snd ?a" using 2 by (auto simp: split_beta)
    have S: "ob ` {j \<in> set (k # ks). ptrs ! j} = {}" using 2 by auto
    show ?thesis unfolding e(2,3) S using True e(1) by (simp add: held_acquire)
  next
    case False
    have h: "held (snd ?a) = addh {ob k} (held d)" using False by (simp add: held_acquire)
    have "held d' = addh (ob ` {j \<in> set ks. ptrs' ! j}) (held (snd ?a)) \<and> length ptrs' = length (ptrs[k := True]) \<and>
       (\<forall>j. j \<notin> set ks \<longrightarrow> ptrs' ! j = ptrs[k := True] ! j) \<and> (ok \<longrightarrow> (\<forall>j\<in>set ks. ptrs' ! j)) \<and>
       wqs d' = wqs (snd ?a) \<and> regs d' = regs (snd ?a) \<and> drv_data d' = drv_data (snd ?a) \<and>
       request_int_handles d' = request_int_handles (snd ?a)"
      by (rule "2.IH" [OF refl prod.collapse False]) (use 2 False in \<open>auto simp: split_beta nth_list_update split: if_splits\<close>)
    moreover have "ob ` {j \<in> set ks. ptrs' ! j} \<inter> {ob k} = {}"
      using 2 by (auto simp: inj_eq)
    moreover have k: "ptrs[k := True] ! k" "k \<notin> set ks" using 2 by simp_all
    moreover have "ptrs[k := True] ! j = ptrs ! j" if "j \<noteq> k" for j using that by simp
    ultimately have r: "held d' = addh (ob ` {j \<in> set ks. ptrs' ! j} \<union> {ob k}) (held d)" "ptrs' ! k"
      "length ptrs' = length ptrs" "\<forall>j. j \<notin> set (k # ks) \<longrightarrow> ptrs' ! j = ptrs ! j"
      "ok \<longrightarrow> (\<forall>j\<in>set (k # ks). ptrs' ! j)"
      "wqs d' = wqs d \<and> regs d' = regs d \<and> drv_data d' = drv_data d \<and> request_int_handles d' = request_int_handles d"
      by (auto simp: h addh_addh)
    have "ob ` {j \<in> set ks. ptrs' ! j} \<union> {ob k} = ob ` {j \<in> set (k # ks). ptrs' ! j}"
      using r(2) by auto
    then show ?thesis using r by simp
  qed
qed

lemma free_ptrs_spec:
  assumes "inj ob" "distinct ks"
  shows "held (free_ptrs ob ks ptrs d) = subh (ob ` {k \<in> set ks. ptrs ! k}) (held d) \<and>
     wqs (free_ptrs ob ks ptrs d) = wqs d \<and> regs (free_ptrs ob ks ptrs d) = regs d \<and>
     drv_data (free_ptrs ob ks ptrs d) = drv_data d \<and>
     request_int_handles (free_ptrs ob ks ptrs d) = request_int_handles d"
  using assms
proof (induction ob ks ptrs d rule: free_ptrs.induct)
  case (1 ob ptrs d)
  then show ?case by simp
next
  case (2 ob k ks ptrs d)
  have k: "k \<notin> set ks" "distinct ks" using 2 by simp_all
  show ?case
  proof (cases "ptrs ! k")
    case True
    have "ob ` {j \<in> set ks. ptrs ! j} \<inter> {ob k} = {}" using 2 k by (auto simp: inj_eq)
    moreover have "ob ` {j \<in> set (k # ks). ptrs ! j} = ob ` {j \<in> set ks. ptrs ! j} \<union> {ob k}" using True by auto
    ultimately show ?thesis using 2 True k by (simp add: subh_subh)
  next
    case False
    then have "{j \<in> set (k # ks). ptrs ! j} = {j \<in> set ks. ptrs ! j}" by auto
    then show ?thesis using 2 False k by simp
  qed
qed

definition hw_desc_res :: "nat \<Rightarrow> nat \<Rightarrow> obj set" where
  "hw_desc_res i n = insert (W i HwDescs) ((\<lambda>k. W i (HwDesc k)) ` {..<n})"

definition desc_res :: "nat \<Rightarrow> nat \<Rightarrow> obj set" where
  "desc_res i n = insert (W i Descs) ((\<lambda>k. W i (Desc k)) ` {..<n})"

text \<open>The memory of a kernel queue with \<open>n\<close> descriptors.\<close>

definition kernel_res :: "nat \<Rightarrow> nat \<Rightarrow> obj set" where
  "kernel_res i n = hw_desc_res i n \<union> desc_res i n \<union> {W i Compls, W i Sbq}"

lemma held_free_hw_descs:
  assumes "num_descs (wqs d ! i) = int n" "\<forall>k<n. hw_desc_ptrs (wqs d ! i) ! k"
  shows "held (free_hw_descs i d) = subh (hw_desc_res i n) (held d)"
proof -
  have "inj (\<lambda>k. W i (HwDesc k))" by (auto simp: inj_def)
  from free_ptrs_spec [OF this distinct_upt, of 0 n "hw_desc_ptrs (wqs d ! i)" d]
  have "held (free_hw_descs i d) = subh {W i HwDescs} (subh ((\<lambda>k. W i (HwDesc k)) ` {k \<in> {0..<n}. hw_desc_ptrs (wqs d ! i) ! k}) (held d))"
    using assms(1) by (simp add: free_hw_descs_def Let_def)
  moreover have "{k \<in> {0..<n}. hw_desc_ptrs (wqs d ! i) ! k} = {..<n}" using assms(2) by auto
  ultimately show ?thesis by (simp add: hw_desc_res_def) (subst subh_subh; auto)
qed


lemma held_free_descs:
  assumes "num_descs (wqs d ! i) = int n" "\<forall>k<n. desc_ptrs (wqs d ! i) ! k"
  shows "held (free_descs i d) = subh (desc_res i n) (held d)"
proof -
  have "inj (\<lambda>k. W i (Desc k))" by (auto simp: inj_def)
  from free_ptrs_spec [OF this distinct_upt, of 0 n "desc_ptrs (wqs d ! i)" d]
  have "held (free_descs i d) = subh {W i Descs} (subh ((\<lambda>k. W i (Desc k)) ` {k \<in> {0..<n}. desc_ptrs (wqs d ! i) ! k}) (held d))"
    using assms(1) by (simp add: free_descs_def Let_def)
  moreover have "{k \<in> {0..<n}. desc_ptrs (wqs d ! i) ! k} = {..<n}" using assms(2) by auto
  ultimately show ?thesis by (simp add: desc_res_def) (subst subh_subh; auto)
qed

lemma free_descs_wqs: "wqs (free_hw_descs i d) = wqs d" "wqs (free_descs i d) = wqs d"
proof -
  have "wqs (free_ptrs ob ks ptrs d) = wqs d" for ob ks ptrs d
    by (induction ob ks ptrs d rule: free_ptrs.induct) simp_all
  then show "wqs (free_hw_descs i d) = wqs d" "wqs (free_descs i d) = wqs d"
    by (simp_all add: free_hw_descs_def free_descs_def Let_def)
qed

lemma alloc_hw_descs_spec:
  assumes i: "i < length (wqs d)" and n: "num_descs (wqs d ! i) = int n"
    and res: "alloc_hw_descs E i (int n) d = (rc, d')"
  shows "(if rc < 0 then held d' = held d
          else rc = 0 \<and> held d' = addh (hw_desc_res i n) (held d) \<and> (\<forall>k<n. hw_desc_ptrs (wqs d' ! i) ! k)) \<and>
     (\<exists>p. wqs d' = list_upd i (\<lambda>w. w\<lparr>hw_desc_ptrs := p\<rparr>) (wqs d))"
proof (cases "fst (acquire E (W i HwDescs) d) < 0")
  case True
  then have "rc = - ENOMEM" "d' = snd (acquire E (W i HwDescs) d)"
    using res by (auto simp: alloc_hw_descs_def split_beta)
  moreover have "wqs d = list_upd i (\<lambda>w. w\<lparr>hw_desc_ptrs := hw_desc_ptrs (wqs d ! i)\<rparr>) (wqs d)"
    by (simp add: list_upd_def)
  ultimately show ?thesis using True by (auto simp: held_acquire intro: exI [of _ "hw_desc_ptrs (wqs d ! i)"])
next
  case False
  let ?d1 = "snd (acquire E (W i HwDescs) d)"
  have h1: "held ?d1 = addh {W i HwDescs} (held d)" using False by (simp add: held_acquire)
  obtain ok p d2 where a: "alloc_ptrs E (\<lambda>k. W i (HwDesc k)) [0..<n] (replicate n False) ?d1 = ((ok, p), d2)"
    by (metis prod.exhaust)
  have inj: "inj (\<lambda>k. W i (HwDesc k))" by (auto simp: inj_def)
  have sp: "held d2 = addh ((\<lambda>k. W i (HwDesc k)) ` {k \<in> set [0..<n]. p ! k}) (held ?d1)"
    "ok \<longrightarrow> (\<forall>k\<in>set [0..<n]. p ! k)" "wqs d2 = wqs d"
    using alloc_ptrs_spec [OF a inj distinct_upt] by auto
  define d3 where "d3 = upd_wq i (\<lambda>w. w\<lparr>hw_desc_ptrs := p\<rparr>) d2"
  have d3: "held d3 = held d2" "num_descs (wqs d3 ! i) = int n" "hw_desc_ptrs (wqs d3 ! i) = p"
    "wqs d3 = list_upd i (\<lambda>w. w\<lparr>hw_desc_ptrs := p\<rparr>) (wqs d)"
    using i n sp(3) by (simp_all add: d3_def nth_list_upd)
  let ?S = "(\<lambda>k. W i (HwDesc k)) ` {k \<in> set [0..<n]. p ! k}"
  have h2: "held d2 = addh ?S (addh {W i HwDescs} (held d))" using sp(1) h1 by simp
  show ?thesis
  proof (cases ok)
    case True
    then have "rc = 0" "d' = d3" using res False a by (simp_all add: alloc_hw_descs_def split_beta Let_def d3_def)
    moreover have "?S \<union> {W i HwDescs} = hw_desc_res i n" using sp(2) True by (auto simp: hw_desc_res_def)
    then have "held d2 = addh (hw_desc_res i n) (held d)"
      using h2 by (subst (asm) addh_addh) auto
    ultimately show ?thesis using d3 sp(2) True by auto
  next
    case no: False
    then have e: "rc = - ENOMEM" "d' = free_hw_descs i d3"
      using res False a by (simp_all add: alloc_hw_descs_def split_beta Let_def d3_def)
    have "held (free_hw_descs i d3) = subh {W i HwDescs} (subh ?S (held d3))"
      using free_ptrs_spec [OF inj distinct_upt, of 0 n p d3] d3(2,3)
      by (simp add: free_hw_descs_def Let_def)
    also have "\<dots> = held d" by (simp add: d3(1) h2)
    finally show ?thesis using e d3(4) by (auto simp: free_descs_wqs)
  qed
qed

lemma alloc_descs_spec:
  assumes i: "i < length (wqs d)" and n: "num_descs (wqs d ! i) = int n"
    and res: "alloc_descs E i (int n) d = (rc, d')"
  shows "(if rc < 0 then held d' = held d
          else rc = 0 \<and> held d' = addh (desc_res i n) (held d) \<and> (\<forall>k<n. desc_ptrs (wqs d' ! i) ! k)) \<and>
     (\<exists>p q. wqs d' = list_upd i (\<lambda>w. w\<lparr>desc_ptrs := p, wq_descs := q\<rparr>) (wqs d))"
proof (cases "fst (acquire E (W i Descs) d) < 0")
  case True
  then have "rc = - ENOMEM" "d' = snd (acquire E (W i Descs) d)"
    using res by (auto simp: alloc_descs_def split_beta)
  moreover have "wqs d = list_upd i (\<lambda>w. w\<lparr>desc_ptrs := desc_ptrs (wqs d ! i), wq_descs := wq_descs (wqs d ! i)\<rparr>) (wqs d)"
    by (simp add: list_upd_def)
  ultimately show ?thesis using True
    by (auto simp: held_acquire intro!: exI [of _ "desc_ptrs (wqs d ! i)"] exI [of _ "wq_descs (wqs d ! i)"])
next
  case False
  let ?d1 = "snd (acquire E (W i Descs) d)"
  have h1: "held ?d1 = addh {W i Descs} (held d)" using False by (simp add: held_acquire)
  obtain ok p d2 where a: "alloc_ptrs E (\<lambda>k. W i (Desc k)) [0..<n] (replicate n False) ?d1 = ((ok, p), d2)"
    by (metis prod.exhaust)
  have inj: "inj (\<lambda>k. W i (Desc k))" by (auto simp: inj_def)
  have sp: "held d2 = addh ((\<lambda>k. W i (Desc k)) ` {k \<in> set [0..<n]. p ! k}) (held ?d1)"
    "ok \<longrightarrow> (\<forall>k\<in>set [0..<n]. p ! k)" "wqs d2 = wqs d"
    using alloc_ptrs_spec [OF a inj distinct_upt] by auto
  let ?q = "replicate n zero_desc"
  define d3 where "d3 = upd_wq i (\<lambda>w. w\<lparr>desc_ptrs := p, wq_descs := ?q\<rparr>) d2"
  have d3: "held d3 = held d2" "num_descs (wqs d3 ! i) = int n" "desc_ptrs (wqs d3 ! i) = p"
    "wqs d3 = list_upd i (\<lambda>w. w\<lparr>desc_ptrs := p, wq_descs := ?q\<rparr>) (wqs d)"
    using i n sp(3) by (simp_all add: d3_def nth_list_upd)
  let ?S = "(\<lambda>k. W i (Desc k)) ` {k \<in> set [0..<n]. p ! k}"
  have h2: "held d2 = addh ?S (addh {W i Descs} (held d))" using sp(1) h1 by simp
  show ?thesis
  proof (cases ok)
    case True
    then have "rc = 0" "d' = d3" using res False a by (simp_all add: alloc_descs_def split_beta Let_def d3_def)
    moreover have "?S \<union> {W i Descs} = desc_res i n" using sp(2) True by (auto simp: desc_res_def)
    then have "held d2 = addh (desc_res i n) (held d)"
      using h2 by (subst (asm) addh_addh) auto
    ultimately show ?thesis using d3 sp(2) True by auto
  next
    case no: False
    then have e: "rc = - ENOMEM" "d' = free_descs i d3"
      using res False a by (simp_all add: alloc_descs_def split_beta Let_def d3_def)
    have "held (free_descs i d3) = subh {W i Descs} (subh ?S (held d3))"
      using free_ptrs_spec [OF inj distinct_upt, of 0 n p d3] d3(2,3)
      by (simp add: free_descs_def Let_def)
    also have "\<dots> = held d" by (simp add: d3(1) h2)
    finally show ?thesis using e d3(4) by (auto simp: free_descs_wqs)
  qed
qed


text \<open>A step that keeps the type of a queue and the lists of its interrupt entry.\<close>

definition keeps :: "nat \<Rightarrow> idxd_device \<Rightarrow> idxd_device \<Rightarrow> bool" where
  "keeps i d d' \<longleftrightarrow> length (wqs d') = length (wqs d) \<and> wq_type (wqs d' ! i) = wq_type (wqs d ! i) \<and>
     lists_of i d' = lists_of i d"

lemma keeps_upd_wq:
  assumes "\<And>w. wq_type (f w) = wq_type w" "\<And>w. wq_ie (f w) = wq_ie w"
  shows "keeps i d (upd_wq j f d)"
  using assms by (cases "i < length (wqs d)"; cases "j < length (wqs d)")
    (auto simp: keeps_def nth_list_upd list_upd_beyond, auto simp: list_upd_def nth_list_update)

lemma keeps_trans: "keeps i d d' \<Longrightarrow> keeps i d' d'' \<Longrightarrow> keeps i d d''"
  by (simp add: keeps_def)

lemma keeps_refl: "keeps i d d"
  by (simp add: keeps_def)

text \<open>The memory of a queue is complete, as after a successful allocation.\<close>

definition mem_ready :: "nat \<Rightarrow> nat \<Rightarrow> idxd_device \<Rightarrow> bool" where
  "mem_ready i n d \<longleftrightarrow> num_descs (wqs d ! i) = int n \<and>
     (\<forall>k<n. hw_desc_ptrs (wqs d ! i) ! k) \<and> (\<forall>k<n. desc_ptrs (wqs d ! i) ! k)"

lemma subh_kernel_res:
  "subh {W i Sbq} (subh {W i Compls} (subh (desc_res i n) (subh (hw_desc_res i n) h))) = subh (kernel_res i n) h"
proof -
  have "hw_desc_res i n \<inter> desc_res i n = {}" "W i Compls \<notin> hw_desc_res i n \<union> desc_res i n"
    "W i Sbq \<notin> hw_desc_res i n \<union> desc_res i n"
    by (auto simp: hw_desc_res_def desc_res_def)
  then show ?thesis by (auto simp: subh_def kernel_res_def fun_eq_iff)
qed

lemma addh_kernel_res:
  "addh {W i Sbq} (addh (desc_res i n) (addh {W i Compls} (addh (hw_desc_res i n) h))) = addh (kernel_res i n) h"
proof -
  have "hw_desc_res i n \<inter> desc_res i n = {}" "W i Compls \<notin> hw_desc_res i n \<union> desc_res i n"
    "W i Sbq \<notin> hw_desc_res i n \<union> desc_res i n"
    by (auto simp: hw_desc_res_def desc_res_def)
  then show ?thesis by (auto simp: addh_def kernel_res_def fun_eq_iff)
qed

lemma held_free_resources:
  assumes "wq_type (wqs d ! i) = IDXD_WQT_KERNEL" "mem_ready i n d"
  shows "held (idxd_wq_free_resources i d) = subh (kernel_res i n) (held d)"
  using assms held_free_hw_descs [of d i n] held_free_descs [of "free_hw_descs i d" i n] subh_kernel_res
  by (simp add: idxd_wq_free_resources_def mem_ready_def free_descs_wqs)

lemma free_resources_other [simp]:
  "wq_type (wqs d ! i) \<noteq> IDXD_WQT_KERNEL \<Longrightarrow> idxd_wq_free_resources i d = d"
  by (simp add: idxd_wq_free_resources_def)

lemma free_resources_wqs: "wqs (idxd_wq_free_resources i d) = wqs d"
  by (simp add: idxd_wq_free_resources_def free_descs_wqs)

lemma alloc_resources_spec:
  assumes i: "i < length (wqs d)" and ty: "wq_type (wqs d ! i) = IDXD_WQT_KERNEL"
    and res: "idxd_wq_alloc_resources E i d = (rc, d')"
  shows "(if rc < 0 then held d' = held d
          else rc = 0 \<and> (\<exists>n. held d' = addh (kernel_res i n) (held d) \<and> mem_ready i n d')) \<and> keeps i d d'"
proof -
  let ?num = "if wq_dedicated (wqs d ! i) then uint (wq_size (wqs d ! i)) else uint (threshold (wqs d ! i))"
  define n where "n = nat ?num"
  have n: "?num = int n" by (simp add: n_def)
  define d0 where "d0 = upd_wq i (\<lambda>w. w\<lparr>num_descs := int n\<rparr>) d"
  have d0: "num_descs (wqs d0 ! i) = int n" "i < length (wqs d0)" "held d0 = held d"
    using i by (simp_all add: d0_def nth_list_upd)
  have k0: "keeps i d d0" unfolding d0_def by (rule keeps_upd_wq) simp_all
  obtain r1 d1 where s1: "alloc_hw_descs E i (int n) d0 = (r1, d1)" by (cases "alloc_hw_descs E i (int n) d0")
  note a1 = alloc_hw_descs_spec [OF d0(2,1) s1]
  obtain p where p: "wqs d1 = list_upd i (\<lambda>w. w\<lparr>hw_desc_ptrs := p\<rparr>) (wqs d0)" using a1 by blast
  have k1: "keeps i d0 d1" using d0(2) by (simp add: keeps_def p nth_list_upd)
  show ?thesis
  proof (cases "r1 < 0")
    case True
    then have "rc = r1" "d' = d1"
      using res ty unfolding idxd_wq_alloc_resources_def Let_def n d0_def [symmetric] s1 by simp_all
    then show ?thesis using True a1 d0 keeps_trans [OF k0 k1] by simp
  next
    case ok1: False
    define d2 where "d2 = upd_wq i (\<lambda>w. w\<lparr>compls_size := int n * int (compl_size (drv_data d))\<rparr>) d1"
    obtain r3 d3 where s3: "acquire E (W i Compls) d2 = (r3, d3)" by (cases "acquire E (W i Compls) d2")
    have w2: "wqs d2 = list_upd i (\<lambda>w. w\<lparr>hw_desc_ptrs := p, compls_size := int n * int (compl_size (drv_data d))\<rparr>) (wqs d0)"
      by (simp add: d2_def p list_upd_list_upd comp_def)
    have d3: "wqs d3 = wqs d2" "held d3 = (if r3 < 0 then held d2 else addh {W i Compls} (held d2))"
      using held_acquire [of E "W i Compls" d2] wqs_acquire [of E "W i Compls" d2] by (simp_all add: s3)
    have hw: "num_descs (wqs d3 ! i) = int n" "\<forall>k<n. hw_desc_ptrs (wqs d3 ! i) ! k"
      using a1 ok1 d0 p by (simp_all add: d3 w2 nth_list_upd)
    have h2: "held d2 = addh (hw_desc_res i n) (held d)" using a1 ok1 d0 by (simp add: d2_def)
    have k3: "keeps i d d3" using k0 i d0(2) by (simp add: keeps_def d3 w2 nth_list_upd)
    show ?thesis
    proof (cases "r3 < 0")
      case True
      then have "rc = - ENOMEM" "d' = free_hw_descs i d3"
        using res ty ok1 unfolding idxd_wq_alloc_resources_def Let_def n d0_def [symmetric] s1
        by (simp_all add: d2_def [symmetric] s3)
      then show ?thesis using True k3 d3 h2 held_free_hw_descs [OF hw]
        by (simp add: keeps_def free_descs_wqs)
    next
      case ok3: False
      define d4 where "d4 = upd_wq i (\<lambda>w. w\<lparr>compls_addr := word_of_int r3\<rparr>) d3"
      have d4: "i < length (wqs d4)" "num_descs (wqs d4 ! i) = int n" "held d4 = held d3"
        "\<forall>k<n. hw_desc_ptrs (wqs d4 ! i) ! k"
        using k3 i hw by (simp_all add: d4_def nth_list_upd keeps_def)
      have k4: "keeps i d d4" unfolding d4_def by (rule keeps_trans [OF k3 keeps_upd_wq]) simp_all
      obtain r5 d5 where s5: "alloc_descs E i (int n) d4 = (r5, d5)" by (cases "alloc_descs E i (int n) d4")
      note a5 = alloc_descs_spec [OF d4(1,2) s5]
      obtain q v where q: "wqs d5 = list_upd i (\<lambda>w. w\<lparr>desc_ptrs := q, wq_descs := v\<rparr>) (wqs d4)" using a5 by blast
      have d5: "num_descs (wqs d5 ! i) = int n" "\<forall>k<n. hw_desc_ptrs (wqs d5 ! i) ! k"
        using d4 by (simp_all add: q nth_list_upd)
      have k5: "keeps i d d5" using k4 d4(1) by (simp add: keeps_def q nth_list_upd)
      have hw5: "num_descs (wqs (release (W i Compls) d5) ! i) = int n"
        "\<forall>k<n. hw_desc_ptrs (wqs (release (W i Compls) d5) ! i) ! k" using d5 by simp_all
      have h4: "held d4 = addh {W i Compls} (addh (hw_desc_res i n) (held d))" using d3 d4(3) h2 ok3 by simp
      show ?thesis
      proof (cases "r5 < 0")
        case True
        then have "rc = r5" "d' = free_hw_descs i (release (W i Compls) d5)"
          using res ty ok1 ok3 unfolding idxd_wq_alloc_resources_def Let_def n d0_def [symmetric] s1
          by (simp_all add: d2_def [symmetric] s3 d4_def [symmetric] s5)
        then show ?thesis using True k5 a5 h4 held_free_hw_descs [OF hw5]
          by (simp add: keeps_def free_descs_wqs)
      next
        case ok5: False
        obtain r6 d6 where s6: "acquire E (W i Sbq) d5 = (r6, d6)" by (cases "acquire E (W i Sbq) d5")
        have d6: "wqs d6 = wqs d5" "held d6 = (if r6 < 0 then held d5 else addh {W i Sbq} (held d5))"
          using held_acquire [of E "W i Sbq" d5] wqs_acquire [of E "W i Sbq" d5] by (simp_all add: s6)
        have ds: "num_descs (wqs d6 ! i) = int n" "\<forall>k<n. desc_ptrs (wqs d6 ! i) ! k"
          "\<forall>k<n. hw_desc_ptrs (wqs d6 ! i) ! k"
          using d5 d6 a5 ok5 by simp_all
        have h5: "held d5 = addh (desc_res i n) (addh {W i Compls} (addh (hw_desc_res i n) (held d)))"
          using a5 ok5 h4 by simp
        show ?thesis
        proof (cases "r6 < 0")
          case True
          then have e: "rc = r6" "d' = free_hw_descs i (release (W i Compls) (free_descs i d6))"
            using res ty ok1 ok3 ok5 unfolding idxd_wq_alloc_resources_def Let_def n d0_def [symmetric] s1
            by (simp_all add: d2_def [symmetric] s3 d4_def [symmetric] s5 s6)
          have "num_descs (wqs (release (W i Compls) (free_descs i d6)) ! i) = int n"
            "\<forall>k<n. hw_desc_ptrs (wqs (release (W i Compls) (free_descs i d6)) ! i) ! k"
            using ds by (simp_all add: free_descs_wqs)
          from held_free_hw_descs [OF this] show ?thesis
            using True e k5 d6 h5 held_free_descs [OF ds(1,2)]
            by (simp add: keeps_def free_descs_wqs)
        next
          case ok6: False
          define f where "f = (\<lambda>w :: idxd_wq. w\<lparr>sbq_alloc := {}, wq_descs :=
              map (\<lambda>k. (wq_descs w ! k)\<lparr>compl_dma := compls_addr w + word_of_int (int (compl_size (drv_data d)) * int k),
                                       desc_id := k, desc_cpu := -1\<rparr>) [0..<n]\<rparr>)"
          have e: "rc = 0" "d' = upd_wq i f d6"
            using res ty ok1 ok3 ok5 ok6 unfolding idxd_wq_alloc_resources_def Let_def n d0_def [symmetric] s1 f_def
            by (simp_all add: d2_def [symmetric] s3 d4_def [symmetric] s5 s6)
          have "keeps i d d6" using k5 by (simp add: keeps_def d6(1))
          moreover have "keeps i d6 (upd_wq i f d6)" by (rule keeps_upd_wq) (simp_all add: f_def)
          ultimately have "keeps i d d'" using e keeps_trans by blast
          moreover have "i < length (wqs d6)" using k5 i by (simp add: keeps_def d6(1))
          then have "mem_ready i n d'" using ds by (simp add: e mem_ready_def nth_list_upd f_def)
          ultimately show ?thesis using e h5 d6 ok6 addh_kernel_res by auto
        qed
      qed
    qed
  qed
qed


subsection \<open>The interrupt\<close>

lemma held_perm_entry [simp]:
  "held (idxd_device_set_perm_entry E i d) = held d" "wqs (idxd_device_set_perm_entry E i d) = wqs d"
  "held (idxd_device_clear_perm_entry E i d) = held d" "wqs (idxd_device_clear_perm_entry E i d) = wqs d"
  by (simp_all add: idxd_device_set_perm_entry_def idxd_device_clear_perm_entry_def Let_def)

lemma held_int_handle [simp]:
  "held (snd (idxd_device_request_int_handle E x t d)) = held d"
  "wqs (snd (idxd_device_request_int_handle E x t d)) = wqs d"
  "held (snd (idxd_device_release_int_handle E h t d)) = held d"
  "wqs (snd (idxd_device_release_int_handle E h t d)) = wqs d"
  by (simp_all add: idxd_device_request_int_handle_def idxd_device_release_int_handle_def Let_def split_beta)

lemma free_irq_spec:
  assumes i: "i < length (wqs d)" and l: "lists_of i d = []"
  shows "held (idxd_wq_free_irq E i d) =
      (if wq_type (wqs d ! i) = IDXD_WQT_KERNEL then subh {W i Irq} (held d) else held d) \<and>
    keeps i d (idxd_wq_free_irq E i d)"
proof (cases "wq_type (wqs d ! i) = IDXD_WQT_KERNEL")
  case True
  let ?d1 = "release (W i Irq) d"
  have fl: "idxd_flush_pending_descs E i ?d1 = upd_ie i (\<lambda>ie. ie\<lparr>pending_llist := [], work_list := []\<rparr>) ?d1"
    using l by (simp add: idxd_flush_pending_descs_def Let_def)
  then show ?thesis
    using True i l by (simp add: idxd_wq_free_irq_def Let_def keeps_def upd_ie_def nth_list_upd)
qed (simp add: idxd_wq_free_irq_def keeps_def)

lemma request_irq_spec:
  assumes i: "i < length (wqs d)" and res: "idxd_wq_request_irq E i d = (rc, d')"
  shows "(if rc < 0 then held d' = held d
          else rc = 0 \<and> held d' = (if wq_type (wqs d ! i) = IDXD_WQT_KERNEL then addh {W i Irq} (held d) else held d)) \<and>
     keeps i d d'"
proof (cases "wq_type (wqs d ! i) = IDXD_WQT_KERNEL")
  case True
  let ?d1 = "idxd_device_set_perm_entry E i (upd_ie i (\<lambda>ie. ie\<lparr>ie_vector := irq_vector E (ie_id ie),
       ie_pasid := (if device_pasid_enabled d then pasid d else invalid_pasid E)\<rparr>) d)"
  obtain r d2 where a: "acquire E (W i Irq) ?d1 = (r, d2)" by (cases "acquire E (W i Irq) ?d1")
  have h1: "held ?d1 = held d" "wqs ?d1 = wqs (upd_ie i (\<lambda>ie. ie\<lparr>ie_vector := irq_vector E (ie_id ie),
       ie_pasid := (if device_pasid_enabled d then pasid d else invalid_pasid E)\<rparr>) d)"
    by (simp_all add: upd_ie_def)
  have d2: "wqs d2 = wqs ?d1" "held d2 = (if r < 0 then held d else addh {W i Irq} (held d))"
    using held_acquire [of E "W i Irq" ?d1] wqs_acquire [of E "W i Irq" ?d1] h1 by (simp_all add: a)
  have k2: "keeps i d d2" using i by (simp add: keeps_def d2 upd_ie_def nth_list_upd)
  have ku: "keeps i x (upd_ie j f x)" if "\<And>ie. pending_llist (f ie) = pending_llist ie" "\<And>ie. work_list (f ie) = work_list ie"
    for x j f
    using that by (cases "i < length (wqs x)"; cases "j < length (wqs x)")
      (auto simp: keeps_def upd_ie_def nth_list_upd list_upd_beyond, auto simp: list_upd_def nth_list_update)
  have kw: "wqs x = wqs y \<Longrightarrow> keeps i x y" for x y by (simp add: keeps_def)
  show ?thesis
  proof (cases "r < 0")
    case neg: True
    then have "rc = r" "d' = upd_ie i (\<lambda>ie. ie\<lparr>ie_pasid := invalid_pasid E\<rparr>) (idxd_device_clear_perm_entry E i d2)"
      using res True a by (simp_all add: idxd_wq_request_irq_def Let_def)
    moreover have "keeps i d (upd_ie i (\<lambda>ie. ie\<lparr>ie_pasid := invalid_pasid E\<rparr>) (idxd_device_clear_perm_entry E i d2))"
      by (rule keeps_trans [OF keeps_trans [OF k2 kw] ku]) simp_all
    ultimately show ?thesis using neg d2 by (simp add: upd_ie_def)
  next
    case pos: False
    show ?thesis
    proof (cases "request_int_handles d2")
      case rih: True
      obtain r3 h d3 where q: "idxd_device_request_int_handle E (int (ie_id (wq_ie (wqs d2 ! i)))) IDXD_IRQ_MSIX d2 = ((r3, h), d3)"
        by (metis prod.exhaust)
      have d3: "held d3 = held d2" "wqs d3 = wqs d2"
        using held_int_handle(1,2) [of E "int (ie_id (wq_ie (wqs d2 ! i)))" IDXD_IRQ_MSIX d2] by (simp_all add: q)
      have sgn: "r3 < 0 \<or> r3 = 0" using q by (auto simp: idxd_device_request_int_handle_def Let_def split_beta split: if_splits)
      have k3: "keeps i d d3" using k2 by (simp add: keeps_def d3)
      let ?f = "upd_ie i (\<lambda>ie. ie\<lparr>int_handle := INVALID_INT_HANDLE\<rparr>) d3"
      have "d' = (if r3 < 0 then upd_ie i (\<lambda>ie. ie\<lparr>ie_pasid := invalid_pasid E\<rparr>)
                     (idxd_device_clear_perm_entry E i (release (W i Irq) ?f))
                  else upd_ie i (\<lambda>ie. ie\<lparr>int_handle := h\<rparr>) d3)" "rc = (if r3 < 0 then r3 else 0)"
        using res True a pos rih q by (auto simp: idxd_wq_request_irq_def Let_def)
      moreover have "keeps i d (upd_ie i (\<lambda>ie. ie\<lparr>ie_pasid := invalid_pasid E\<rparr>)
                     (idxd_device_clear_perm_entry E i (release (W i Irq) ?f)))"
        by (rule keeps_trans [OF keeps_trans [OF keeps_trans [OF k3 ku] kw] ku]) simp_all
      moreover have "keeps i d (upd_ie i (\<lambda>ie. ie\<lparr>int_handle := h\<rparr>) d3)"
        by (rule keeps_trans [OF k3 ku]) simp_all
      ultimately show ?thesis using pos True d2 d3 sgn by (auto simp: upd_ie_def)
    next
      case False
      then have "rc = 0" "d' = upd_ie i (\<lambda>ie. ie\<lparr>int_handle := int (ie_id ie)\<rparr>) d2"
        using res True a pos by (simp_all add: idxd_wq_request_irq_def Let_def)
      moreover have "keeps i d (upd_ie i (\<lambda>ie. ie\<lparr>int_handle := int (ie_id ie)\<rparr>) d2)"
        by (rule keeps_trans [OF k2 ku]) simp_all
      ultimately show ?thesis using pos True d2 by (simp add: upd_ie_def)
    qed
  qed
next
  case False
  then show ?thesis using res by (simp add: idxd_wq_request_irq_def keeps_def)
qed


subsection \<open>Enabling and disabling a queue\<close>

lemma held_set_status [simp]: "held (set_status c d) = held d" and wqs_set_status [simp]: "wqs (set_status c d) = wqs d"
  by (simp_all add: set_status_def)

lemma keeps_wqs: "wqs d' = wqs d \<Longrightarrow> keeps i d d'"
  by (simp add: keeps_def)

lemma keeps_wq_enable: "keeps i d (snd (idxd_wq_enable E i d))"
proof -
  have "keeps i d (upd_wq i (\<lambda>w. w\<lparr>wq_state := IDXD_WQ_ENABLED\<rparr>) (snd (idxd_cmd_exec E IDXD_CMD_ENABLE_WQ p d)))" for p
    by (rule keeps_trans [OF keeps_wqs keeps_upd_wq]) simp_all
  then show ?thesis
    by (auto simp: idxd_wq_enable_def Let_def split_beta keeps_def)
qed

definition enabled_res :: "nat \<Rightarrow> idxd_wq_type \<Rightarrow> nat \<Rightarrow> obj set" where
  "enabled_res i t n = {W i Portal, W i Percpu} \<union> (if t = IDXD_WQT_KERNEL then insert (W i Irq) (kernel_res i n) else {})"

lemma portal_not_kernel: "W i Portal \<notin> insert (W i Irq) (kernel_res i n)" "W i Percpu \<notin> insert (W i Irq) (kernel_res i n)"
  "W i Irq \<notin> kernel_res i n"
  by (auto simp: kernel_res_def hw_desc_res_def desc_res_def)

lemma enabled_res_add:
  "addh {W i Percpu} (addh (kernel_res i n) (addh {W i Irq} (addh {W i Portal} h))) = addh (enabled_res i IDXD_WQT_KERNEL n) h"
  "t \<noteq> IDXD_WQT_KERNEL \<Longrightarrow> addh {W i Percpu} (addh {W i Portal} h) = addh (enabled_res i t n) h"
  using portal_not_kernel [of i n] by (auto simp: addh_def enabled_res_def fun_eq_iff)

lemma drv_enable_wq_resources:
  assumes wf: "wf_dev d" and i: "i < max_wqs d" and lists: "lists_of i d = []"
    and res: "drv_enable_wq E i d = (rc, d')"
  shows "if rc < 0 then held d' = held d
     else rc = 0 \<and> (\<exists>n. held d' = addh (enabled_res i (wq_type (wqs d ! i)) n) (held d) \<and>
            (wq_type (wqs d ! i) = IDXD_WQT_KERNEL \<longrightarrow> mem_ready i n d')) \<and>
          length (wqs d') = length (wqs d) \<and> wq_type (wqs d' ! i) = wq_type (wqs d ! i)"
proof (cases "enable_checks E i d")
  case (Some c)
  then have "held d' = held d" "rc < 0"
    using res by (auto simp: drv_enable_wq_def enable_checks_def Let_def split: prod.splits if_splits)
  then show ?thesis by simp
next
  case checks: None
  let ?w = "wqs d ! i"
  have il: "i < length (wqs d)" using wf i by (simp add: wf_dev_def)
  define d1 where "d1 = (if configurable d \<and> wq_pasid_enabled ?w d \<and> (is_idxd_wq_kernel ?w \<or> wq_shared ?w)
                   then idxd_wq_set_pasid_locked E i (if wq_dedicated ?w then pasid d else 0) d else d)"
  obtain r2 d2 where s2: "(if configurable d1 then idxd_device_config E d1 else (0, d1)) = (r2, d2)"
    by (cases "if configurable d1 then idxd_device_config E d1 else (0, d1)")
  obtain r3 d3 where s3: "idxd_wq_enable E i d2 = (r3, d3)" by (cases "idxd_wq_enable E i d2")
  obtain r4 d4 where s4: "idxd_wq_map_portal E i d3 = (r4, d4)" by (cases "idxd_wq_map_portal E i d3")
  define d5 where "d5 = upd_wq i (\<lambda>w. w\<lparr>client_count := 0\<rparr>) d4"
  obtain r6 d6 where s6: "idxd_wq_request_irq E i d5 = (r6, d6)" by (cases "idxd_wq_request_irq E i d5")
  obtain r7 d7 where s7: "idxd_wq_alloc_resources E i d6 = (r7, d7)" by (cases "idxd_wq_alloc_resources E i d6")
  obtain r8 d8 where s8: "idxd_wq_init_percpu_ref E i d7 = (r8, d8)" by (cases "idxd_wq_init_percpu_ref E i d7")
  let ?unmap = "\<lambda>d. snd (idxd_wq_disable E i False (idxd_wq_unmap_portal i d))"
  have run: "(rc, d') =
     (if r2 < 0 then (r2, d2) else if r3 < 0 then (r3, d3)
      else if r4 < 0 then (r4, snd (idxd_wq_disable E i False (set_status IDXD_SCMD_WQ_PORTAL_ERR d4)))
      else if r6 < 0 then (r6, ?unmap (set_status IDXD_SCMD_WQ_IRQ_ERR d6))
      else if r7 < 0 then (r7, ?unmap (idxd_wq_free_irq E i (set_status IDXD_SCMD_WQ_RES_ALLOC_ERR d7)))
      else if r8 < 0 then (r8, ?unmap (idxd_wq_free_irq E i (idxd_wq_free_resources i (set_status IDXD_SCMD_PERCPU_ERR d8))))
      else (0, d8))"
    using res unfolding drv_enable_wq_def checks option.case Let_def d1_def [symmetric] s2 prod.case s3 s4
      d5_def [symmetric] s6 s7 s8 fst_conv snd_conv by (rule sym)
  have wf1: "wf_dev d1" "held d1 = held d" "max_wqs d1 = max_wqs d" "keeps i d d1"
  proof -
    have a: "wf_dev (upd_wq i f d)" if "\<And>w. wq_id (f w) = wq_id w" "\<And>w. wq_group (f w) = wq_group w" for f
      by (rule wf_upd_wq [OF wf]) (simp_all add: that)
    have b: "wf_dev (iowrite32 E v o' x) = wf_dev x" for v o' x by (simp add: wf_dev_def)
    have "keeps i d (iowrite32 E v o' (upd_wq i (\<lambda>w. w\<lparr>wqcfg := g w\<rparr>) d))" for v o' g
      by (rule keeps_trans [OF keeps_upd_wq keeps_wqs]) simp_all
    then show "wf_dev d1" "held d1 = held d" "max_wqs d1 = max_wqs d" "keeps i d d1"
      using wf a by (simp_all add: d1_def idxd_wq_set_pasid_locked_def Let_def b keeps_refl)
  qed
  have h2: "held d2 = held d" using wf1(2) held_device_config [of E d1] s2 by (metis snd_conv)
  have k2: "keeps i d d2"
  proof (cases "configurable d1")
    case True
    have "wq_rest (wqs d2 ! i) = wq_rest (wqs d1 ! i)" "length (wqs d2) = length (wqs d1)"
      using device_config_wq_rest [OF wf1(1), of i E] i wf1(3) s2 True by simp_all
    then have "keeps i d1 d2" using wq_rest_fields [of "wqs d2 ! i" "wqs d1 ! i"] by (simp add: keeps_def)
    then show ?thesis using wf1(4) keeps_trans by blast
  qed (use s2 wf1(4) in auto)
  have h3: "held d3 = held d" using held_wq_enable [of E i d2] h2 by (simp add: s3)
  have k3: "keeps i d d3" using keeps_trans [OF k2 keeps_wq_enable [of i d2 E]] by (simp add: s3)
  have h4: "held d4 = (if r4 < 0 then held d else addh {W i Portal} (held d))" and r4: "r4 < 0 \<or> r4 = 0"
    using s4 h3 held_acquire [of E "W i Portal" d3]
    by (auto simp: idxd_wq_map_portal_def split_beta split: if_splits)
  have k4: "keeps i d d5"
  proof -
    have "keeps i d3 d4"
      using s4 by (auto simp: idxd_wq_map_portal_def split_beta split: if_splits
          intro!: keeps_trans [OF keeps_wqs keeps_upd_wq])
    then have "keeps i d d4" using k3 keeps_trans by blast
    moreover have "keeps i d4 d5" unfolding d5_def by (rule keeps_upd_wq) simp_all
    ultimately show ?thesis using keeps_trans by blast
  qed
  have i5: "i < length (wqs d5)" and t5: "wq_type (wqs d5 ! i) = wq_type ?w" using k4 il by (simp_all add: keeps_def)
  note a6 = request_irq_spec [OF i5 s6]
  have k6: "keeps i d d6" using a6 k4 keeps_trans by blast
  have i6: "i < length (wqs d6)" and t6: "wq_type (wqs d6 ! i) = wq_type ?w" using k6 il by (simp_all add: keeps_def)
  have unmap: "held (?unmap x) = subh {W i Portal} (held x)" for x
    by (simp add: idxd_wq_unmap_portal_def)
  have h5: "held d5 = held d4" by (simp add: d5_def)
  obtain ra da where sa: "acquire E (W i Percpu) d7 = (ra, da)" by (cases "acquire E (W i Percpu) d7")
  have da: "wqs da = wqs d7" "held da = (if ra < 0 then held d7 else addh {W i Percpu} (held d7))"
  proof -
    have "wqs (snd (acquire E (W i Percpu) d7)) = wqs d7" by simp
    then show "wqs da = wqs d7" unfolding sa by simp
    show "held da = (if ra < 0 then held d7 else addh {W i Percpu} (held d7))"
      using held_acquire [of E "W i Percpu" d7] unfolding sa by simp
  qed
  have e8: "r8 = (if ra < 0 then ra else 0)" "d8 = (if ra < 0 then da else
      upd_wq i (\<lambda>w. w\<lparr>ref_live := True, wq_dead := False, wq_resurrect := False\<rparr>) da)"
    using s8 by (simp_all add: idxd_wq_init_percpu_ref_def sa split: if_splits)
  have r8h: "held d8 = (if r8 < 0 then held d7 else addh {W i Percpu} (held d7))" and r8: "r8 < 0 \<or> r8 = 0"
    and m8: "r8 < 0 \<Longrightarrow> wqs d8 = wqs d7"
    using e8 da by auto
  show ?thesis
  proof (cases "r2 < 0 \<or> r3 < 0 \<or> r4 < 0 \<or> r6 < 0")
    case True
    then show ?thesis using run h2 h3 h4 h5 a6 unmap by (auto split: if_splits)
  next
    case up: False
    have p4: "held d4 = addh {W i Portal} (held d)" using h4 up by simp
    show ?thesis
    proof (cases "wq_type ?w = IDXD_WQT_KERNEL")
      case ker: True
      note a7 = alloc_resources_spec [OF i6 _ s7, unfolded t6, OF ker]
      have k7: "keeps i d d7" using a7 k6 keeps_trans by blast
      have i7: "i < length (wqs d7)" "lists_of i d7 = []" "wq_type (wqs d7 ! i) = IDXD_WQT_KERNEL"
        using k7 il lists ker by (simp_all add: keeps_def)
      have t8: "\<not> r8 < 0 \<Longrightarrow> length (wqs d8) = length (wqs d7) \<and> wq_type (wqs d8 ! i) = wq_type (wqs d7 ! i)"
        using e8 da i7 by (auto simp: nth_list_upd)
      have h6: "held d6 = addh {W i Irq} (addh {W i Portal} (held d))" using a6 up t5 ker p4 h5 by simp
      show ?thesis
      proof (cases "r7 < 0")
        case True
        have "held (idxd_wq_free_irq E i (set_status IDXD_SCMD_WQ_RES_ALLOC_ERR d7)) = subh {W i Irq} (held d7)"
          using free_irq_spec [of i "set_status IDXD_SCMD_WQ_RES_ALLOC_ERR d7" E] i7 by simp
        then show ?thesis using run up True unmap a7 h6 by simp
      next
        case ok7: False
        then obtain n where n: "held d7 = addh (kernel_res i n) (held d6)" "mem_ready i n d7" using a7 by auto
        show ?thesis
        proof (cases "r8 < 0")
          case True
          let ?x = "idxd_wq_free_resources i (set_status IDXD_SCMD_PERCPU_ERR d8)"
          have x: "wqs ?x = wqs d7" using m8 True by (simp add: free_resources_wqs)
          have "held ?x = subh (kernel_res i n) (held d8)"
            using held_free_resources [of "set_status IDXD_SCMD_PERCPU_ERR d8" i n] m8 True i7 n
            by (simp add: mem_ready_def)
          moreover have "held (idxd_wq_free_irq E i ?x) = subh {W i Irq} (held ?x)"
            using free_irq_spec [of i ?x E] i7 by (simp add: x)
          ultimately show ?thesis using run up ok7 True unmap n h6 r8h by simp
        next
          case False
          have "mem_ready i n d8"
            using e8 da n(2) i7 False by (simp add: mem_ready_def nth_list_upd split: if_splits)
          then show ?thesis
            using run up ok7 False n h6 r8h ker enabled_res_add(1) t8 k7 by (auto simp: keeps_def)
        qed
      qed
    next
      case other: False
      have "r7 = 0" "d7 = d6" using s7 other t6 by (simp_all add: idxd_wq_alloc_resources_def)
      moreover have "held d6 = held d5" using a6 up t5 other by simp
      moreover have "held (idxd_wq_free_irq E i x) = held x" "idxd_wq_free_resources i x = x"
        if "wqs x = wqs d7" for x
        using that other t6 \<open>d7 = d6\<close> by (simp_all add: idxd_wq_free_irq_def)
      moreover have "\<not> r8 < 0 \<Longrightarrow> length (wqs d8) = length (wqs d6) \<and> wq_type (wqs d8 ! i) = wq_type (wqs d6 ! i)"
        using e8 da i6 \<open>d7 = d6\<close> by (auto simp: nth_list_upd)
      ultimately show ?thesis
        using run up other p4 h5 unmap r8h m8 enabled_res_add(2) [OF other] k6 by (auto simp: keeps_def split: if_splits)
    qed
  qed
qed

text \<open>
  C2: binding a queue is all or nothing in the resources it holds. On every failure, whichever
  step failed, the driver holds exactly what it held before; on success it holds in addition the
  portal, the reference counter and, for a kernel queue, the interrupt and the descriptor
  memory, once each, and the queue's descriptor arrays are complete. The queue's descriptor
  lists are empty at the start, as they are for a disabled queue.
\<close>
theorem drv_enable_wq_all_or_nothing:
  assumes wf: "wf_dev d" and i: "i < max_wqs d" and lists: "lists_of i d = []"
    and res: "drv_enable_wq E i d = (rc, d')"
  shows "if rc < 0 then held d' = held d
     else rc = 0 \<and> (\<exists>n. held d' = addh (enabled_res i (wq_type (wqs d ! i)) n) (held d) \<and>
            (wq_type (wqs d ! i) = IDXD_WQT_KERNEL \<longrightarrow> mem_ready i n d'))"
  using drv_enable_wq_resources [OF assms] by (auto split: if_splits)

subsection \<open>What unbinding a queue gives back\<close>

text \<open>The members of a queue that the completion of its descriptors leaves alone.\<close>

definition wq_mem :: "idxd_wq \<Rightarrow> idxd_wq" where
  "wq_mem w = w\<lparr>wq_ie := zero_irq_entry, wq_descs := [], sbq_alloc := {}\<rparr>"

definition keeps_mem :: "nat \<Rightarrow> idxd_device \<Rightarrow> idxd_device \<Rightarrow> bool" where
  "keeps_mem i d d' \<longleftrightarrow> map wq_mem (wqs d') = map wq_mem (wqs d) \<and>
     (\<forall>x. (\<forall>k. x \<noteq> K (Resubmit i k)) \<longrightarrow> held d' x = held d x)"

lemma keeps_mem_refl: "keeps_mem i d d" and
  keeps_mem_trans: "keeps_mem i d d' \<Longrightarrow> keeps_mem i d' d'' \<Longrightarrow> keeps_mem i d d''"
  by (simp_all add: keeps_mem_def)

lemma keeps_mem_fold: "(\<And>k d. keeps_mem i d (f k d)) \<Longrightarrow> keeps_mem i d (fold f ks d)"
  by (induction ks arbitrary: d) (auto intro: keeps_mem_refl keeps_mem_trans)

lemma keeps_mem_wqs: "wqs d' = wqs d \<Longrightarrow> held d' = held d \<Longrightarrow> keeps_mem i d d'"
  by (simp add: keeps_mem_def)

lemma keeps_mem_upd:
  "(\<And>w. wq_mem (f w) = wq_mem w) \<Longrightarrow> keeps_mem i d (upd_wq j f d)"
  by (simp add: keeps_mem_def upd_wq_def)

lemma keeps_mem_upd_desc: "keeps_mem i d (upd_desc j k f d)" and keeps_mem_upd_ie: "keeps_mem i d (upd_ie j g d)"
  unfolding upd_desc_def upd_ie_def by (rule keeps_mem_upd; simp add: wq_mem_def)+

lemma keeps_mem_notify: "keeps_mem i d (notify v d)"
  by (rule keeps_mem_wqs) simp_all

lemma keeps_mem_free_desc: "keeps_mem i d (idxd_free_desc i k d)"
  unfolding idxd_free_desc_def by (rule keeps_mem_trans [OF keeps_mem_upd_desc keeps_mem_upd]) (simp add: wq_mem_def)

lemmas keeps_mem_intros = keeps_mem_refl keeps_mem_upd_desc keeps_mem_upd_ie keeps_mem_notify keeps_mem_free_desc
  keeps_mem_trans [OF _ keeps_mem_upd_desc] keeps_mem_trans [OF _ keeps_mem_notify] keeps_mem_trans [OF _ keeps_mem_free_desc]

lemma keeps_mem_finish: "keeps_mem i d (finish_txd E i k r b d)"
  by (cases r) (simp_all add: finish_txd_def Let_def keeps_mem_intros)

lemma keeps_mem_resubmit: "keeps_mem i d (snd (idxd_queue_int_handle_resubmit E i k d))"
  using held_acquire [of E "K (Resubmit i k)" d]
  by (auto simp: idxd_queue_int_handle_resubmit_def Let_def split_beta keeps_mem_def addh_def)

lemma keeps_mem_complete: "keeps_mem i d (idxd_dma_complete_txd E i k c b d)"
  by (simp add: idxd_dma_complete_txd_def Let_def split_beta keeps_mem_finish keeps_mem_resubmit
      keeps_mem_trans [OF keeps_mem_resubmit keeps_mem_finish])

lemma keeps_mem_flush: "keeps_mem i d (idxd_flush_pending_descs E i d)"
  unfolding idxd_flush_pending_descs_def Let_def
  by (rule keeps_mem_trans [OF keeps_mem_upd_ie keeps_mem_fold])
    (rule keeps_mem_trans [OF keeps_mem_upd_desc keeps_mem_complete])

lemma wq_mem_sel:
  "wq_type (wq_mem w) = wq_type w" "wq_state (wq_mem w) = wq_state w" "num_descs (wq_mem w) = num_descs w"
  "hw_desc_ptrs (wq_mem w) = hw_desc_ptrs w" "desc_ptrs (wq_mem w) = desc_ptrs w"
  by (simp_all add: wq_mem_def)

lemma wq_mem_eqD:
  assumes "wq_mem w = wq_mem w'"
  shows "wq_type w = wq_type w' \<and> wq_state w = wq_state w' \<and> num_descs w = num_descs w' \<and>
     hw_desc_ptrs w = hw_desc_ptrs w' \<and> desc_ptrs w = desc_ptrs w'"
  using wq_mem_sel [of w] wq_mem_sel [of w'] unfolding assms by simp

lemma keeps_memD:
  assumes "keeps_mem i d d'" "i < length (wqs d)"
  shows "length (wqs d') = length (wqs d) \<and> wq_mem (wqs d' ! i) = wq_mem (wqs d ! i)"
  using assms unfolding keeps_mem_def by (metis length_map nth_map)

lemma free_irq_general:
  assumes "wq_type (wqs d ! i) = IDXD_WQT_KERNEL"
  shows "keeps_mem i (release (W i Irq) d) (idxd_wq_free_irq E i d)"
proof -
  let ?d1 = "idxd_flush_pending_descs E i (release (W i Irq) d)"
  have h: "keeps_mem i x (if request_int_handles x then snd (idxd_device_release_int_handle E n t x) else x)" for x n t
    by (rule keeps_mem_wqs) simp_all
  have c: "keeps_mem i x (upd_ie i g (idxd_device_clear_perm_entry E i x))" for x g
    by (rule keeps_mem_trans [OF keeps_mem_wqs keeps_mem_upd_ie]) simp_all
  show ?thesis
    using keeps_mem_trans [OF keeps_mem_flush keeps_mem_trans [OF h c]] assms
    unfolding idxd_wq_free_irq_def Let_def by simp
qed

lemma reset_type:
  assumes "i < length (wqs d)"
  shows "held (idxd_wq_reset E i d) = held d" "length (wqs (idxd_wq_reset E i d)) = length (wqs d)"
    "wq_state (wqs d ! i) = IDXD_WQ_ENABLED \<Longrightarrow> wq_type (wqs (idxd_wq_reset E i d) ! i) = IDXD_WQT_NONE"
    "wq_state (wqs d ! i) \<noteq> IDXD_WQ_ENABLED \<Longrightarrow> idxd_wq_reset E i d = d"
  using assms by (simp_all add: idxd_wq_reset_def Let_def disable_cleanup_eq cleaned_wq_def nth_list_upd)

lemma drv_disable_other:
  assumes "i < length (wqs d)" "wq_type (wqs d ! i) \<noteq> IDXD_WQT_KERNEL"
  shows "held (drv_disable_wq E i d) = subh {W i Portal, W i Percpu} (held d)"
proof -
  define d1 where "d1 = idxd_wq_drain E i (idxd_wq_unmap_portal i d)"
  have d1: "held d1 = subh {W i Portal} (held d)" "length (wqs d1) = length (wqs d)" "wq_type (wqs d1 ! i) \<noteq> IDXD_WQT_KERNEL"
    using assms by (simp_all add: d1_def idxd_wq_drain_def idxd_wq_unmap_portal_def Let_def nth_list_upd)
  define d2 where "d2 = idxd_wq_reset E i d1"
  have d2: "held d2 = held d1" "wq_type (wqs d2 ! i) \<noteq> IDXD_WQT_KERNEL"
    using reset_type [of i d1 E] d1 assms(1) by (cases "wq_state (wqs d1 ! i)"; simp add: d2_def)+
  have "idxd_wq_free_irq E i d1 = d1" "idxd_wq_free_resources i d2 = d2"
    using d1 d2 by (simp_all add: idxd_wq_free_irq_def idxd_wq_free_resources_def)
  then have "held (drv_disable_wq E i d) = subh {W i Percpu} (subh {W i Portal} (held d))"
    using d1 d2 by (simp add: drv_disable_wq_def Let_def d1_def [symmetric] d2_def [symmetric])
  then show ?thesis by (auto simp: subh_def fun_eq_iff)
qed

text \<open>
  C40: unbinding a kernel queue gives back its portal, its interrupt and its reference counter,
  but its descriptor memory only when the queue is no longer running: the reset of a running
  queue clears the queue's type, and \<^verbatim>\<open>idxd_wq_free_resources\<close>, called after it, returns at once
  for a queue that is not a kernel queue. Every descriptor, the completion records and the
  tag allocator of a running queue are then never freed.
\<close>
theorem drv_disable_wq_leaks:
  assumes i: "i < length (wqs d)" and ker: "wq_type (wqs d ! i) = IDXD_WQT_KERNEL" and mem: "mem_ready i n d"
    and x: "\<And>k. x \<noteq> K (Resubmit i k)"
  shows "held (drv_disable_wq E i d) x =
     (if x \<in> {W i Portal, W i Irq, W i Percpu} then held d x - 1
      else if x \<in> kernel_res i n \<and> wq_state (wqs d ! i) \<noteq> IDXD_WQ_ENABLED then held d x - 1
      else held d x)"
proof -
  define d1 where "d1 = idxd_wq_drain E i (idxd_wq_unmap_portal i d)"
  define d2 where "d2 = idxd_wq_free_irq E i d1"
  define d3 where "d3 = idxd_wq_reset E i d2"
  have d1: "held d1 = subh {W i Portal} (held d)" "length (wqs d1) = length (wqs d)"
    "wq_type (wqs d1 ! i) = IDXD_WQT_KERNEL" "wq_state (wqs d1 ! i) = wq_state (wqs d ! i)" "mem_ready i n d1"
    using i ker mem
    by (simp_all add: d1_def idxd_wq_drain_def idxd_wq_unmap_portal_def Let_def nth_list_upd mem_ready_def)
  have k: "keeps_mem i (release (W i Irq) d1) d2"
    unfolding d2_def by (rule free_irq_general [OF d1(3)])
  then have d2: "length (wqs d2) = length (wqs d)" "wq_type (wqs d2 ! i) = IDXD_WQT_KERNEL"
    "wq_state (wqs d2 ! i) = wq_state (wqs d ! i)" "mem_ready i n d2"
  proof -
    have l: "length (wqs d2) = length (wqs d1)" "wq_mem (wqs d2 ! i) = wq_mem (wqs d1 ! i)"
      using keeps_memD [OF k] i d1(2) by simp_all
    show "length (wqs d2) = length (wqs d)" "wq_type (wqs d2 ! i) = IDXD_WQT_KERNEL"
      "wq_state (wqs d2 ! i) = wq_state (wqs d ! i)" "mem_ready i n d2"
      using l(1) wq_mem_eqD [OF l(2)] d1 by (simp_all add: mem_ready_def)
  qed
  have h2: "held d2 x = subh {W i Irq} (subh {W i Portal} (held d)) x"
    using k x d1(1) by (simp add: keeps_mem_def)
  have h3: "held d3 = held d2" using i d2 by (simp add: d3_def reset_type)
  have h4: "held (idxd_wq_free_resources i d3) =
      (if wq_state (wqs d ! i) = IDXD_WQ_ENABLED then held d2 else subh (kernel_res i n) (held d2))"
    using i d2 reset_type [of i d2 E] held_free_resources [of d2 i n]
    by (simp add: d3_def)
  have "held (drv_disable_wq E i d) = subh {W i Percpu} (held (idxd_wq_free_resources i d3))"
    by (simp add: drv_disable_wq_def Let_def d1_def [symmetric] d2_def [symmetric] d3_def [symmetric])
  then show ?thesis
    using h2 h4 portal_not_kernel [of i n] by (auto simp: subh_def)
qed

subsection \<open>The DMA engine\<close>

text \<open>
  registering the DMA device of an IDXD device holds either both the structure and its
  registration or nothing, and unregistering gives back exactly what a registration took.
\<close>
theorem register_dma_device_balanced:
  "let (rc, d') = idxd_register_dma_device E d
   in if rc < 0 then held d' = held d
      else rc = 0 \<and> held (idxd_unregister_dma_device d') = held d"
proof -
  obtain r1 d1 where a: "acquire E (D DmaDev) d = (r1, d1)" by (cases "acquire E (D DmaDev) d")
  obtain r2 d2 where b: "acquire E (D DmaReg) d1 = (r2, d2)" by (cases "acquire E (D DmaReg) d1")
  have "held d1 = (if r1 < 0 then held d else addh {D DmaDev} (held d))"
    "held d2 = (if r2 < 0 then held d1 else addh {D DmaReg} (held d1))"
    using held_acquire [of E "D DmaDev" d] held_acquire [of E "D DmaReg" d1] by (simp_all add: a b)
  then show ?thesis
    by (simp add: idxd_register_dma_device_def idxd_unregister_dma_device_def a b)
qed

text \<open>
  registering a queue's channel takes the channel, its place in the channel list, its
  registration and a reference to the queue, and unregistering gives all four back. A failed
  registration frees the channel but leaves the freed channel in the list: the place is still
  held when the error is returned.
\<close>
theorem register_dma_channel_outcome:
  "let (rc, d') = idxd_register_dma_channel E i d
   in if rc < 0
      then held d' = held d \<or> held d' = addh {W i ChanNode} (held d) \<and> (Acq (W i ChanReg), rc) \<in> set (trace d')
      else rc = 0 \<and> held (idxd_unregister_dma_channel i d') = held d"
proof -
  obtain r1 d1 where a: "acquire E (W i Chan) d = (r1, d1)" by (cases "acquire E (W i Chan) d")
  obtain r2 d2 where b: "acquire E (W i ChanReg) (hold (W i ChanNode) d1) = (r2, d2)"
    by (cases "acquire E (W i ChanReg) (hold (W i ChanNode) d1)")
  have h: "held d1 = (if r1 < 0 then held d else addh {W i Chan} (held d))"
    "held d2 = (if r2 < 0 then addh {W i ChanNode} (held d1) else addh {W i ChanReg} (addh {W i ChanNode} (held d1)))"
    using held_acquire [of E "W i Chan" d] held_acquire [of E "W i ChanReg" "hold (W i ChanNode) d1"]
    by (simp_all add: a b)
  have t: "(Acq (W i ChanReg), r2) \<in> set (trace d2)"
    using b by (auto simp: acquire_def ext_def Let_def split: if_splits)
  show ?thesis
    using h t by (auto simp: idxd_register_dma_channel_def idxd_unregister_dma_channel_def a b
        addh_def subh_def fun_eq_iff release_def)
qed

subsection \<open>Witnesses\<close>

text \<open>A device that runs, with a queue that is ready to be bound and one that is bound.\<close>

definition sample_bindable :: idxd_device where
  "sample_bindable = sample_dev
     \<lparr>dev_flags := 0, max_wqs := 1, wqs := [zero_wq\<lparr>wq_group := Some 0, wq_name := ''app'', wq_flags := 1, wq_size := 2,
                wq_type := IDXD_WQT_KERNEL\<rparr>]\<rparr>"

definition sample_bound :: idxd_device where
  "sample_bound = sample_dev
     \<lparr>wqs := [zero_wq\<lparr>wq_state := IDXD_WQ_ENABLED, wq_type := IDXD_WQT_KERNEL, num_descs := 1,
                hw_desc_ptrs := [True], desc_ptrs := [True], wq_descs := [zero_desc]\<rparr>]\<rparr>"

theorem drv_enable_wq_all_or_nothing_witness:
  "fst (drv_enable_wq sample_env 0 sample_bindable) = 0 \<and>
   (\<exists>n. held (snd (drv_enable_wq sample_env 0 sample_bindable)) =
      addh (enabled_res 0 IDXD_WQT_KERNEL n) (\<lambda>_. 0))"
proof -
  have st: "getf gensts_reg ''state'' (1 :: u32) \<noteq> 3" by code_simp
  have ok: "fst (drv_enable_wq sample_env 0 sample_bindable) = 0" using st
    by (simp add: drv_enable_wq_def enable_checks_def sample_bindable_def sample_dev_def zero_defs sample_env_def
        wq_shared_def wq_dedicated_def configurable_def idxd_wq_enable_def idxd_cmd_exec_def idxd_device_is_halted_def
        ioread32_def iowrite32_def idxd_wq_map_portal_def acquire_def ext_def idxd_wq_request_irq_def upd_ie_def
        idxd_device_set_perm_entry_def idxd_wq_alloc_resources_def alloc_hw_descs_def alloc_descs_def upd_wq_def
        list_upd_def device_pasid_enabled_def idxd_wq_init_percpu_ref_def upt_rec Let_def)
  have "wf_dev sample_bindable" "lists_of 0 sample_bindable = []" "held sample_bindable = (\<lambda>_. 0)"
    "wq_type (wqs sample_bindable ! 0) = IDXD_WQT_KERNEL" "0 < max_wqs sample_bindable"
    by (simp_all add: sample_bindable_def sample_dev_def wf_dev_def zero_defs upt_rec)
  note m = this
  show ?thesis
    using drv_enable_wq_all_or_nothing [OF m(1,5,2) prod.collapse [symmetric], of sample_env] ok m(3,4) by auto
qed

theorem drv_disable_wq_leaks_witness:
  "held (drv_disable_wq sample_env 0 sample_bound) (W 0 Sbq) = 0 \<and> held (drv_disable_wq sample_env 0 sample_bound) (W 0 Portal) = -1"
proof -
  have m: "0 < length (wqs sample_bound)" "wq_type (wqs sample_bound ! 0) = IDXD_WQT_KERNEL" "mem_ready 0 1 sample_bound"
    "wq_state (wqs sample_bound ! 0) = IDXD_WQ_ENABLED" "held sample_bound = (\<lambda>_. 0)"
    by (simp_all add: sample_bound_def sample_dev_def zero_defs mem_ready_def)
  show ?thesis
    using drv_disable_wq_leaks [OF m(1-3), of "W 0 Sbq" sample_env] drv_disable_wq_leaks [OF m(1-3), of "W 0 Portal" sample_env] m(4,5)
    by simp
qed

end
