(* ===== verification/Evl.thy ===== *)
theory Evl
  imports Resources
begin

text \<open>
  The event log of \<^verbatim>\<open>idxd/irq.c\<close> and \<^verbatim>\<open>idxd/cdev.c\<close>: a ring of entries that the device fills
  at the tail and the driver reads at the head. The log is a function from slots to entries;
  a walk over the ring takes fuel and is \<^const>\<open>None\<close> when the fuel ends, when the size is zero
  (the source divides by it) or when a step reads outside an array.
\<close>

subsection \<open>Walking the ring\<close>

fun ring_walk :: "(nat \<Rightarrow> 's \<Rightarrow> 's option) \<Rightarrow> nat \<Rightarrow> nat \<Rightarrow> nat \<Rightarrow> nat \<Rightarrow> 's \<Rightarrow> (nat \<times> 's) option" where
  "ring_walk step sz fuel h t s =
     (if h = t then Some (h, s)
      else if sz = 0 then None
      else case fuel of
        0 \<Rightarrow> None
      | Suc f \<Rightarrow> (case step h s of None \<Rightarrow> None | Some s \<Rightarrow> ring_walk step sz f ((h + 1) mod sz) t s))"

declare ring_walk.simps [simp del]

text \<open>The slots between head and tail, and a loop over a list of slots that may fail.\<close>

definition ring :: "nat \<Rightarrow> nat \<Rightarrow> nat \<Rightarrow> nat list" where
  "ring sz h t = (if h \<le> t then [h..<t] else [h..<sz] @ [0..<t])"

fun foldo :: "(nat \<Rightarrow> 's \<Rightarrow> 's option) \<Rightarrow> nat list \<Rightarrow> 's \<Rightarrow> 's option" where
  "foldo f [] s = Some s"
| "foldo f (k # ks) s = (case f k s of None \<Rightarrow> None | Some s \<Rightarrow> foldo f ks s)"

lemma ring_step: "h < sz \<Longrightarrow> t < sz \<Longrightarrow> h \<noteq> t \<Longrightarrow> ring sz h t = h # ring sz ((h + 1) mod sz) t"
  by (cases "Suc h = sz") (auto simp: ring_def upt_conv_Cons)

lemma ring_length: "h < sz \<Longrightarrow> t < sz \<Longrightarrow> length (ring sz h t) < sz"
  by (auto simp: ring_def)

lemma ring_walk_fuel:
  "h < sz \<Longrightarrow> t < sz \<Longrightarrow> length (ring sz h t) \<le> fuel \<Longrightarrow>
     ring_walk step sz fuel h t s = map_option (\<lambda>s. (t, s)) (foldo step (ring sz h t) s)"
proof (induction fuel arbitrary: h s)
  case 0
  then have "h = t" by (cases "h = t") (simp_all add: ring_step)
  then show ?case by (simp add: ring_walk.simps ring_def)
next
  case (Suc fuel)
  show ?case
  proof (cases "h = t")
    case True
    then show ?thesis by (simp add: ring_walk.simps ring_def)
  next
    case False
    have "(h + 1) mod sz < sz" "length (ring sz ((h + 1) mod sz) t) \<le> fuel"
      using Suc.prems False ring_step [of h sz t] by simp_all
    then show ?thesis
      using Suc.IH [of "(h + 1) mod sz"] Suc.prems False ring_step [of h sz t]
      by (simp add: ring_walk.simps split: option.split)
  qed
qed

text \<open>A walk within the ring needs at most \<open>sz\<close> rounds.\<close>

lemma ring_walk_eq:
  "h < sz \<Longrightarrow> t < sz \<Longrightarrow> ring_walk step sz sz h t s = map_option (\<lambda>s. (t, s)) (foldo step (ring sz h t) s)"
  using ring_length [of h sz t] by (intro ring_walk_fuel) simp_all

lemma ring_distinct: "distinct (ring sz h t)"
  by (auto simp: ring_def)

lemma ring_set: "h < sz \<Longrightarrow> t < sz \<Longrightarrow>
    set (ring sz h t) = (if h \<le> t then {h..<t} else {h..<sz} \<union> {..<t})"
  by (auto simp: ring_def)

subsection \<open>Processing the log\<close>

definition DSA_COMP_STATUS :: "u8 \<Rightarrow> u8" where
  "DSA_COMP_STATUS status = status AND DSA_COMP_STATUS_MASK"

record idxd_evl_fault =
  fault_wq :: nat
  fault_status :: u8
  fault_entry :: evl_entry

definition upd_evl :: "(idxd_evl \<Rightarrow> idxd_evl) \<Rightarrow> idxd_device \<Rightarrow> idxd_device" where
  "upd_evl f d = d\<lparr>dev_evl := map_option f (dev_evl d)\<rparr>"

definition the_evl :: "idxd_device \<Rightarrow> idxd_evl" where
  "the_evl d = the (dev_evl d)"

text \<open>The entry of a slot; without an event log, or with one that is not set up, there is none.\<close>

definition evl_entry_at :: "idxd_device \<Rightarrow> nat \<Rightarrow> evl_entry option" where
  "evl_entry_at d h = (case dev_evl d of None \<Rightarrow> None | Some e \<Rightarrow> map_option (\<lambda>log. log h) (evl_log e))"

definition evl_faults :: "env \<Rightarrow> u8 \<Rightarrow> bool" where
  "evl_faults E status \<longleftrightarrow> status = DSA_COMP_CRA_XLAT \<or> status = comp_drain_evl E \<or> status = comp_batch_evl_err E"

text \<open>
  One entry: the state is the list of faults queued so far with the device. The source uses
  the entry's queue index without a check; an index outside the array is \<^const>\<open>None\<close>.
\<close>

definition process_evl_entry ::
  "env \<Rightarrow> nat \<Rightarrow> idxd_evl_fault list \<times> idxd_device \<Rightarrow> (idxd_evl_fault list \<times> idxd_device) option" where
  "process_evl_entry E index s =
     (let (queued, d) = s in
      if index \<in> evl_bmap (the_evl d)
      then Some (queued, upd_evl (\<lambda>e. e\<lparr>evl_bmap := evl_bmap e - {index}\<rparr>) d)
      else case evl_entry_at d index of None \<Rightarrow> None | Some entry \<Rightarrow>
        let status = DSA_COMP_STATUS (ee_error entry) in
        if evl_faults E status then
          if \<not> ee_rcr entry \<and> status = comp_drain_evl E then Some (queued, d)
          else
            let (rc, d) = acquire E (K Fault) d in
            if rc < 0 then Some (queued, d)
            else if max_wqs d \<le> unat (ee_wq_idx entry) then None
            else
              let i = unat (ee_wq_idx entry)
              in Some (queued @ [\<lparr>fault_wq = i, fault_status = status, fault_entry = entry\<rparr>],
                       notify (QueueFault i) d)
        else Some (queued, d))"

definition process_evl_entries :: "env \<Rightarrow> idxd_device \<Rightarrow> (idxd_evl_fault list \<times> idxd_device) option" where
  "process_evl_entries E d =
     (case dev_evl d of
        None \<Rightarrow> None
      | Some evl \<Rightarrow>
          let st = setf evl_status_reg ''int_pending'' 1 0 :: u64;
              d = iowrite32 E (ucast (drop_bit 32 st)) (IDXD_EVLSTATUS_OFFSET + 4) d;
              h = unat (evl_head evl);
              st = ioread64 IDXD_EVLSTATUS_OFFSET d;
              t = unat (getf evl_status_reg ''tail'' st);
              size = unat (evl_size evl)
          in case ring_walk (process_evl_entry E) size size h t ([], d) of
               None \<Rightarrow> None
             | Some (h, queued, d) \<Rightarrow>
                 let d = upd_evl (\<lambda>e. e\<lparr>evl_head := word_of_nat h\<rparr>) d;
                     st = setf evl_status_reg ''head'' (word_of_nat h) st;
                     d = iowrite32 E (ucast st) IDXD_EVLSTATUS_OFFSET d
                 in Some (queued, d))"

subsection \<open>Draining a process address space from the log\<close>

definition mark_evl_entry :: "nat \<Rightarrow> u32 \<Rightarrow> nat \<Rightarrow> idxd_device \<Rightarrow> idxd_device option" where
  "mark_evl_entry i p h d =
     (case evl_entry_at d h of
        None \<Rightarrow> None
      | Some entry \<Rightarrow>
          Some (if ee_pasid entry = p \<and> unat (ee_wq_idx entry) = wq_id (wqs d ! i)
                then upd_evl (\<lambda>e. e\<lparr>evl_bmap := insert h (evl_bmap e)\<rparr>) d else d))"

definition idxd_cdev_evl_drain_pasid :: "env \<Rightarrow> nat \<Rightarrow> u32 \<Rightarrow> idxd_device \<Rightarrow> idxd_device option" where
  "idxd_cdev_evl_drain_pasid E i p d =
     (case dev_evl d of
        None \<Rightarrow> Some d
      | Some evl \<Rightarrow>
          let st = ioread64 IDXD_EVLSTATUS_OFFSET d;
              t = unat (getf evl_status_reg ''tail'' st);
              h = unat (evl_head evl);
              size = unat (evl_size evl)
          in map_option (\<lambda>(h, d). notify (DrainWorkqueue i) d) (ring_walk (mark_evl_entry i p) size size h t d))"

subsection \<open>Laws\<close>

lemma upd_evl_simps [simp]:
  "dev_evl (upd_evl f d) = map_option f (dev_evl d)" "max_wqs (upd_evl f d) = max_wqs d" "wqs (upd_evl f d) = wqs d"
  "held (upd_evl f d) = held d" "regs (upd_evl f d) = regs d" "trace (upd_evl f d) = trace d"
  by (simp_all add: upd_evl_def)

text \<open>Which slots queue a fault, and the fault a slot queues.\<close>

definition evl_wants :: "env \<Rightarrow> idxd_evl \<Rightarrow> (nat \<Rightarrow> evl_entry) \<Rightarrow> nat \<Rightarrow> bool" where
  "evl_wants E e log h \<longleftrightarrow> h \<notin> evl_bmap e \<and> evl_faults E (DSA_COMP_STATUS (ee_error (log h))) \<and>
     (DSA_COMP_STATUS (ee_error (log h)) = comp_drain_evl E \<longrightarrow> ee_rcr (log h))"

definition evl_fault_of :: "(nat \<Rightarrow> evl_entry) \<Rightarrow> nat \<Rightarrow> idxd_evl_fault" where
  "evl_fault_of log h = \<lparr>fault_wq = unat (ee_wq_idx (log h)), fault_status = DSA_COMP_STATUS (ee_error (log h)),
     fault_entry = log h\<rparr>"

text \<open>Allocations of fault records succeed.\<close>

definition faults_alloc :: "env \<Rightarrow> bool" where
  "faults_alloc E \<longleftrightarrow> (\<forall>tr. 0 \<le> ext_rc E tr (Acq (K Fault)))"

lemma faults_alloc_acquire: "faults_alloc E \<Longrightarrow> acquire E (K Fault) d = (r, d1) \<Longrightarrow> 0 \<le> r"
proof -
  assume a: "faults_alloc E" and q: "acquire E (K Fault) d = (r, d1)"
  have "r = ext_rc E (trace d) (Acq (K Fault))"
    using q by (auto simp: acquire_def ext_def Let_def split: if_splits)
  then show "0 \<le> r" using a by (simp add: faults_alloc_def)
qed

lemma process_step:
  assumes e: "dev_evl d = Some e" "evl_log e = Some log" and w: "unat (ee_wq_idx (log h)) < max_wqs d"
  shows "\<exists>d' b. process_evl_entry E h (q, d) = Some (if b then q @ [evl_fault_of log h] else q, d') \<and>
     (b \<longrightarrow> evl_wants E e log h) \<and> (faults_alloc E \<longrightarrow> b = evl_wants E e log h) \<and>
     dev_evl d' = Some (e\<lparr>evl_bmap := evl_bmap e - {h}\<rparr>) \<and> max_wqs d' = max_wqs d \<and> wqs d' = wqs d \<and> regs d' = regs d \<and>
     held d' (K Fault) = held d (K Fault) + of_bool b"
proof (cases "evl_wants E e log h")
  case False
  have "process_evl_entry E h (q, d) = Some (q, upd_evl (\<lambda>e. e\<lparr>evl_bmap := evl_bmap e - {h}\<rparr>) d) \<or>
      h \<notin> evl_bmap e \<and> process_evl_entry E h (q, d) = Some (q, d)"
    using False e by (auto simp: process_evl_entry_def evl_wants_def the_evl_def evl_entry_at_def Let_def)
  moreover have "h \<notin> evl_bmap e \<Longrightarrow> e\<lparr>evl_bmap := evl_bmap e - {h}\<rparr> = e" by simp
  ultimately show ?thesis using False e by (auto intro!: exI [of _ False])
next
  case True
  obtain r d1 where a: "acquire E (K Fault) d = (r, d1)" by (cases "acquire E (K Fault) d")
  have d1: "dev_evl d1 = dev_evl d" "max_wqs d1 = max_wqs d" "wqs d1 = wqs d" "regs d1 = regs d"
    "held d1 = (if r < 0 then held d else addh {K Fault} (held d))"
    using acquire_dev [of E "K Fault" d] regs_acquire [of E "K Fault" d] held_acquire [of E "K Fault" d] by (simp_all add: a)
  have r: "faults_alloc E \<Longrightarrow> \<not> r < 0" using faults_alloc_acquire [OF _ a] by simp
  have nb: "h \<notin> evl_bmap e" using True by (simp add: evl_wants_def)
  then have s: "e\<lparr>evl_bmap := evl_bmap e - {h}\<rparr> = e" by simp
  have "process_evl_entry E h (q, d) = (if r < 0 then Some (q, d1)
      else Some (q @ [evl_fault_of log h], notify (QueueFault (unat (ee_wq_idx (log h)))) d1))"
    using True e w d1(2) by (auto simp: process_evl_entry_def evl_wants_def the_evl_def evl_entry_at_def evl_fault_of_def a Let_def)
  then show ?thesis
    using True d1 e r s by (auto simp: addh_def intro!: exI [of _ "\<not> r < 0"])
qed

lemma process_foldo:
  assumes "dev_evl d = Some e" "evl_log e = Some log" "distinct ks"
    and "\<And>h. h \<in> set ks \<Longrightarrow> unat (ee_wq_idx (log h)) < max_wqs d"
  shows "\<exists>d' keep. foldo (process_evl_entry E) ks (q, d) = Some (q @ map (evl_fault_of log) (filter keep ks), d') \<and>
     (\<forall>h\<in>set ks. keep h \<longrightarrow> evl_wants E e log h) \<and> (faults_alloc E \<longrightarrow> (\<forall>h\<in>set ks. keep h = evl_wants E e log h)) \<and>
     dev_evl d' = Some (e\<lparr>evl_bmap := evl_bmap e - set ks\<rparr>) \<and> max_wqs d' = max_wqs d \<and> wqs d' = wqs d \<and> regs d' = regs d \<and>
     held d' (K Fault) = held d (K Fault) + int (length (filter keep ks))"
  using assms
proof (induction ks arbitrary: q d e)
  case Nil
  then show ?case by simp
next
  case (Cons h ks)
  let ?e = "e\<lparr>evl_bmap := evl_bmap e - {h}\<rparr>"
  from Cons.prems have w: "unat (ee_wq_idx (log h)) < max_wqs d" by simp
  obtain d1 b where 1: "process_evl_entry E h (q, d) = Some (if b then q @ [evl_fault_of log h] else q, d1)"
    "b \<longrightarrow> evl_wants E e log h" "faults_alloc E \<longrightarrow> b = evl_wants E e log h" "dev_evl d1 = Some ?e"
    "max_wqs d1 = max_wqs d" "wqs d1 = wqs d" "regs d1 = regs d" "held d1 (K Fault) = held d (K Fault) + of_bool b"
    using process_step [OF Cons.prems(1,2) w, of E q] by auto
  let ?q = "if b then q @ [evl_fault_of log h] else q"
  obtain d' k where 2: "foldo (process_evl_entry E) ks (?q, d1) = Some (?q @ map (evl_fault_of log) (filter k ks), d')"
    "\<forall>h\<in>set ks. k h \<longrightarrow> evl_wants E ?e log h" "faults_alloc E \<longrightarrow> (\<forall>h\<in>set ks. k h = evl_wants E ?e log h)"
    "dev_evl d' = Some (?e\<lparr>evl_bmap := evl_bmap ?e - set ks\<rparr>)" "max_wqs d' = max_wqs d1" "wqs d' = wqs d1" "regs d' = regs d1"
    "held d' (K Fault) = held d1 (K Fault) + int (length (filter k ks))"
    using Cons.IH [of d1 ?e ?q] 1 Cons.prems by auto
  have w': "evl_wants E ?e log x = evl_wants E e log x" if "x \<in> set ks" for x
    using that Cons.prems(3) by (auto simp: evl_wants_def)
  let ?k = "\<lambda>x. if x = h then b else k x"
  have f: "filter ?k ks = filter k ks" using Cons.prems(3) by (intro filter_cong) auto
  have s: "evl_bmap e - {h} - set ks = evl_bmap e - insert h (set ks)" by blast
  show ?case
    by (rule exI [of _ d'], rule exI [of _ ?k]) (use 1 2 w' f s Cons.prems(3) in auto)
qed

lemma evl_entries_exact_aux:
  assumes e: "dev_evl d = Some e" "evl_log e = Some log" and h: "unat (evl_head e) < unat (evl_size e)"
    and t: "t = unat (getf evl_status_reg ''tail''
              (ioread64 IDXD_EVLSTATUS_OFFSET (iowrite32 E 0x40000000 (IDXD_EVLSTATUS_OFFSET + 4) d)))"
    and ts: "t < unat (evl_size e)"
    and ks: "ks = ring (unat (evl_size e)) (unat (evl_head e)) t"
    and w: "\<forall>k\<in>set ks. unat (ee_wq_idx (log k)) < max_wqs d"
  shows "\<exists>queued d' keep. process_evl_entries E d = Some (queued, d') \<and>
     queued = map (evl_fault_of log) (filter keep ks) \<and> (\<forall>k\<in>set ks. keep k \<longrightarrow> evl_wants E e log k) \<and>
     (faults_alloc E \<longrightarrow> queued = map (evl_fault_of log) (filter (evl_wants E e log) ks)) \<and>
     held d' (K Fault) = held d (K Fault) + int (length queued) \<and>
     dev_evl d' = Some (e\<lparr>evl_bmap := evl_bmap e - set ks, evl_head := word_of_nat t\<rparr>)"
proof -
  have st: "ucast (drop_bit 32 (setf evl_status_reg ''int_pending'' 1 0 :: u64)) = (0x40000000 :: u32)" by code_simp
  let ?d0 = "iowrite32 E 0x40000000 (IDXD_EVLSTATUS_OFFSET + 4) d"
  let ?n = "unat (evl_size e)"
  have d0: "dev_evl ?d0 = Some e" "max_wqs ?d0 = max_wqs d" "held ?d0 = held d" using e by simp_all
  obtain d1 keep where 1: "foldo (process_evl_entry E) ks ([], ?d0) = Some (map (evl_fault_of log) (filter keep ks), d1)"
    "\<forall>h\<in>set ks. keep h \<longrightarrow> evl_wants E e log h" "faults_alloc E \<longrightarrow> (\<forall>h\<in>set ks. keep h = evl_wants E e log h)"
    "dev_evl d1 = Some (e\<lparr>evl_bmap := evl_bmap e - set ks\<rparr>)" "held d1 (K Fault) = held d (K Fault) + int (length (filter keep ks))"
    using process_foldo [OF d0(1) e(2) ring_distinct, of ?n "unat (evl_head e)" t E "[]"] w d0 unfolding ks [symmetric] by auto
  have f: "faults_alloc E \<Longrightarrow> filter keep ks = filter (evl_wants E e log) ks"
    using 1(3) by (intro filter_cong) auto
  have "ring_walk (process_evl_entry E) ?n ?n (unat (evl_head e)) t ([], ?d0) =
      Some (t, map (evl_fault_of log) (filter keep ks), d1)"
    using ring_walk_eq [OF h ts, of "process_evl_entry E" "([], ?d0)"] 1(1) unfolding ks [symmetric] by simp
  then have "\<exists>d'. process_evl_entries E d = Some (map (evl_fault_of log) (filter keep ks), d') \<and> held d' = held d1 \<and>
      dev_evl d' = map_option (\<lambda>e. e\<lparr>evl_head := word_of_nat t\<rparr>) (dev_evl d1)"
    using e(1) unfolding process_evl_entries_def Let_def st t [symmetric] by simp
  then show ?thesis using 1 f by fastforce
qed

text \<open>
  C14: the event log is processed exactly. When head and tail lie inside the ring and every
  entry names a queue of the device, processing ends; it queues faults only for slots between
  head and tail, in ring order, each at most once: the slots whose status asks for a completion
  record to be written, unless a drain marked them, and all of these when the allocations
  succeed. The marks of the visited slots are cleared and the head is the tail afterwards.
\<close>
theorem evl_entries_exact:
  assumes e: "dev_evl d = Some e" "evl_log e = Some log" and h: "unat (evl_head e) < unat (evl_size e)"
    and t: "t = unat (getf evl_status_reg ''tail''
              (ioread64 IDXD_EVLSTATUS_OFFSET (iowrite32 E 0x40000000 (IDXD_EVLSTATUS_OFFSET + 4) d)))"
    and ts: "t < unat (evl_size e)"
    and ks: "ks = ring (unat (evl_size e)) (unat (evl_head e)) t"
    and w: "\<forall>k\<in>set ks. unat (ee_wq_idx (log k)) < max_wqs d"
  shows "\<exists>queued d' keep. process_evl_entries E d = Some (queued, d') \<and>
     queued = map (evl_fault_of log) (filter keep ks) \<and> (\<forall>k\<in>set ks. keep k \<longrightarrow> evl_wants E e log k) \<and>
     (faults_alloc E \<longrightarrow> queued = map (evl_fault_of log) (filter (evl_wants E e log) ks)) \<and>
     held d' (K Fault) = held d (K Fault) + int (length queued) \<and>
     dev_evl d' = Some (e\<lparr>evl_bmap := evl_bmap e - set ks, evl_head := word_of_nat t\<rparr>)"
  by (rule evl_entries_exact_aux [OF assms])

text \<open>
  an entry that asks for a fault is trusted with the queue it names: when its queue index
  is not below the number of queues, handling the entry reads the queue array out of bounds.
\<close>
theorem evl_unchecked_index:
  assumes "evl_entry_at d h = Some entry" "h \<notin> evl_bmap (the_evl d)" "max_wqs d \<le> unat (ee_wq_idx entry)"
    and "DSA_COMP_STATUS (ee_error entry) = DSA_COMP_CRA_XLAT" "ee_rcr entry" "faults_alloc E"
  shows "process_evl_entry E h (queued, d) = None"
proof -
  obtain r d1 where a: "acquire E (K Fault) d = (r, d1)" by (cases "acquire E (K Fault) d")
  have "max_wqs d1 = max_wqs d" using acquire_dev [of E "K Fault" d] by (simp add: a)
  moreover have "\<not> r < 0" using faults_alloc_acquire [OF assms(6) a] by simp
  ultimately show ?thesis using assms by (simp add: process_evl_entry_def evl_faults_def a Let_def)
qed

text \<open>Marking a range of the ring.\<close>

definition evl_belongs :: "nat \<Rightarrow> u32 \<Rightarrow> (nat \<Rightarrow> evl_entry) \<Rightarrow> nat \<Rightarrow> bool" where
  "evl_belongs i p log h \<longleftrightarrow> ee_pasid (log h) = p \<and> unat (ee_wq_idx (log h)) = i"

lemma mark_foldo:
  assumes "dev_evl d = Some e" "evl_log e = Some log" "wq_id (wqs d ! i) = i"
  shows "\<exists>d'. foldo (mark_evl_entry i p) ks d = Some d' \<and> wqs d' = wqs d \<and> max_wqs d' = max_wqs d \<and> regs d' = regs d \<and>
     held d' = held d \<and> dev_evl d' = Some (e\<lparr>evl_bmap := evl_bmap e \<union> {h \<in> set ks. evl_belongs i p log h}\<rparr>)"
  using assms
proof (induction ks arbitrary: d e)
  case Nil
  then show ?case by simp
next
  case (Cons h ks)
  let ?b = "evl_belongs i p log h"
  let ?d = "if ?b then upd_evl (\<lambda>e. e\<lparr>evl_bmap := insert h (evl_bmap e)\<rparr>) d else d"
  let ?e = "if ?b then e\<lparr>evl_bmap := insert h (evl_bmap e)\<rparr> else e"
  have 1: "mark_evl_entry i p h d = Some ?d"
    using Cons.prems by (simp add: mark_evl_entry_def evl_entry_at_def evl_belongs_def)
  have "dev_evl ?d = Some ?e" "evl_log ?e = Some log" "wq_id (wqs ?d ! i) = i" using Cons.prems by simp_all
  from Cons.IH [OF this] obtain d' where "foldo (mark_evl_entry i p) ks ?d = Some d'" "wqs d' = wqs d"
    "max_wqs d' = max_wqs d" "regs d' = regs d" "held d' = held d"
    "dev_evl d' = Some (?e\<lparr>evl_bmap := evl_bmap ?e \<union> {h \<in> set ks. evl_belongs i p log h}\<rparr>)"
    by (auto split: if_splits)
  moreover have "?e\<lparr>evl_bmap := evl_bmap ?e \<union> {h \<in> set ks. evl_belongs i p log h}\<rparr> =
      e\<lparr>evl_bmap := evl_bmap e \<union> {x \<in> set (h # ks). evl_belongs i p log x}\<rparr>"
    by (cases ?b) (auto intro!: arg_cong [of _ _ "\<lambda>b. e\<lparr>evl_bmap := b\<rparr>"])
  ultimately show ?case using 1 by (intro exI [of _ d']) simp
qed

lemma evl_drain_marks:
  assumes e: "dev_evl d = Some e" "evl_log e = Some log" and h: "unat (evl_head e) < unat (evl_size e)"
    and t: "t = unat (getf evl_status_reg ''tail'' (ioread64 IDXD_EVLSTATUS_OFFSET d))" "t < unat (evl_size e)"
    and ks: "ks = ring (unat (evl_size e)) (unat (evl_head e)) t" and i: "wq_id (wqs d ! i) = i"
  shows "\<exists>d1. idxd_cdev_evl_drain_pasid E i p d = Some d1 \<and> wqs d1 = wqs d \<and> max_wqs d1 = max_wqs d \<and> regs d1 = regs d \<and>
     held d1 = held d \<and> dev_evl d1 = Some (e\<lparr>evl_bmap := evl_bmap e \<union> {k \<in> set ks. evl_belongs i p log k}\<rparr>)"
proof -
  obtain d' where m: "foldo (mark_evl_entry i p) ks d = Some d'" "wqs d' = wqs d" "max_wqs d' = max_wqs d" "regs d' = regs d"
    "held d' = held d" "dev_evl d' = Some (e\<lparr>evl_bmap := evl_bmap e \<union> {k \<in> set ks. evl_belongs i p log k}\<rparr>)"
    using mark_foldo [OF e i, of p ks] by auto
  have "idxd_cdev_evl_drain_pasid E i p d = Some (notify (DrainWorkqueue i) d')"
    using e(1) ring_walk_eq [OF h t(2), of "mark_evl_entry i p" d] m(1)
    unfolding idxd_cdev_evl_drain_pasid_def Let_def t(1) [symmetric] ks [symmetric] by simp
  then show ?thesis using m by simp
qed

text \<open>
  C13: draining a process's address space from the log. When the file of a process is closed,
  every unread entry of its address space on the queue is marked, nothing else of the log
  changes, and processing the log afterwards up to the same tail queues no fault of that
  address space on that queue: no completion record is written into a process that is gone.
\<close>
theorem evl_drain_suppresses:
  assumes e: "dev_evl d = Some e" "evl_log e = Some log" and h: "unat (evl_head e) < unat (evl_size e)"
    and t: "t = unat (getf evl_status_reg ''tail'' (ioread64 IDXD_EVLSTATUS_OFFSET d))" "t < unat (evl_size e)"
    and ks: "ks = ring (unat (evl_size e)) (unat (evl_head e)) t"
    and w: "\<forall>k\<in>set ks. unat (ee_wq_idx (log k)) < max_wqs d" and i: "wf_dev d" "i < max_wqs d"
    and dr: "idxd_cdev_evl_drain_pasid E i p d = Some d1"
    and same: "t = unat (getf evl_status_reg ''tail''
              (ioread64 IDXD_EVLSTATUS_OFFSET (iowrite32 E 0x40000000 (IDXD_EVLSTATUS_OFFSET + 4) d1)))"
  shows "dev_evl d1 = Some (e\<lparr>evl_bmap := evl_bmap e \<union> {k \<in> set ks. evl_belongs i p log k}\<rparr>) \<and>
     (\<exists>queued d2. process_evl_entries E d1 = Some (queued, d2) \<and>
        (\<forall>f\<in>set queued. \<not> (fault_wq f = i \<and> ee_pasid (fault_entry f) = p)))"
proof -
  let ?e = "e\<lparr>evl_bmap := evl_bmap e \<union> {k \<in> set ks. evl_belongs i p log k}\<rparr>"
  have d1: "dev_evl d1 = Some ?e" "max_wqs d1 = max_wqs d"
    using evl_drain_marks [OF e h t ks wf_wq_id [OF i], of E p] dr by auto
  have e1: "evl_log ?e = Some log" "unat (evl_head ?e) < unat (evl_size ?e)" "t < unat (evl_size ?e)"
    "ks = ring (unat (evl_size ?e)) (unat (evl_head ?e)) t" "\<forall>k\<in>set ks. unat (ee_wq_idx (log k)) < max_wqs d1"
    using e h t ks w d1 by simp_all
  obtain queued d2 keep where q: "process_evl_entries E d1 = Some (queued, d2)"
    "queued = map (evl_fault_of log) (filter keep ks)" "\<forall>k\<in>set ks. keep k \<longrightarrow> evl_wants E ?e log k"
    using evl_entries_exact_aux [OF d1(1) e1(1,2) same e1(3-5)] by blast
  have "\<not> (fault_wq f = i \<and> ee_pasid (fault_entry f) = p)" if "f \<in> set queued" for f
    using that q(2,3) by (auto simp: evl_fault_of_def evl_wants_def evl_belongs_def)
  then show ?thesis using d1 q(1) by blast
qed

subsection \<open>Witnesses\<close>

text \<open>A log of four slots with the head at slot 3: slots 3 and 0 are unread.\<close>

definition sample_entry :: "nat \<Rightarrow> evl_entry" where
  "sample_entry h = zero_evl_entry\<lparr>ee_error := DSA_COMP_CRA_XLAT, ee_rcr := True, ee_pasid := word_of_nat h,
     ee_wq_idx := (if h = 2 then 9 else 0)\<rparr>"

definition sample_evl :: idxd_evl where
  "sample_evl = \<lparr>evl_log = Some sample_entry, evl_dma = 0, evl_log_size = 256, evl_size = 4, evl_head = 3, evl_bmap = {},
     batch_fail = (\<lambda>_. False)\<rparr>"

text \<open>The environment's status register has a read-only tail in its upper half.\<close>

definition evl_env :: env where
  "evl_env = sample_env\<lparr>io_write := (\<lambda>r off v. if off = IDXD_EVLSTATUS_OFFSET + 4 then r else r(off := v))\<rparr>"

definition evl_dev :: idxd_device where
  "evl_dev = sample_dev\<lparr>dev_evl := Some sample_evl, regs := (\<lambda>_. 0)(IDXD_EVLSTATUS_OFFSET + 4 := 1)\<rparr>"

lemma evl_tail_word: "getf evl_status_reg ''tail'' (4294967296 :: u64) = 1"
  by code_simp

lemma evl_dev_facts:
  shows "dev_evl evl_dev = Some sample_evl" and "evl_log sample_evl = Some sample_entry"
    and "unat (evl_head sample_evl) < unat (evl_size sample_evl)"
    and "1 = unat (getf evl_status_reg ''tail'' (ioread64 IDXD_EVLSTATUS_OFFSET evl_dev))"
    and "1 = unat (getf evl_status_reg ''tail''
        (ioread64 IDXD_EVLSTATUS_OFFSET (iowrite32 evl_env 0x40000000 (IDXD_EVLSTATUS_OFFSET + 4) evl_dev)))"
    and "(1 :: nat) < unat (evl_size sample_evl)"
    and "[3, 0] = ring (unat (evl_size sample_evl)) (unat (evl_head sample_evl)) 1"
    and "\<forall>k\<in>set [3, 0]. unat (ee_wq_idx (sample_entry k)) < max_wqs evl_dev"
proof -
  show "dev_evl evl_dev = Some sample_evl" by (simp add: evl_dev_def)
  show "evl_log sample_evl = Some sample_entry" by (simp add: sample_evl_def)
  show "unat (evl_head sample_evl) < unat (evl_size sample_evl)" by (simp add: sample_evl_def)
  show "(1 :: nat) < unat (evl_size sample_evl)" by (simp add: sample_evl_def)
  show "[3, 0] = ring (unat (evl_size sample_evl)) (unat (evl_head sample_evl)) 1"
    by (simp add: sample_evl_def ring_def upt_rec)
  show "\<forall>k\<in>set [3, 0]. unat (ee_wq_idx (sample_entry k)) < max_wqs evl_dev"
    by (simp add: sample_entry_def evl_dev_def sample_dev_def zero_defs)
  show "1 = unat (getf evl_status_reg ''tail'' (ioread64 IDXD_EVLSTATUS_OFFSET evl_dev))"
    by (simp add: ioread64_def evl_dev_def evl_tail_word)
  show "1 = unat (getf evl_status_reg ''tail''
        (ioread64 IDXD_EVLSTATUS_OFFSET (iowrite32 evl_env 0x40000000 (IDXD_EVLSTATUS_OFFSET + 4) evl_dev)))"
    by (simp add: ioread64_def iowrite32_def evl_env_def evl_dev_def evl_tail_word)
qed

lemma evl_env_alloc: "faults_alloc evl_env"
  by (simp add: faults_alloc_def evl_env_def sample_env_def)

theorem evl_entries_exact_witness:
  "\<exists>d'. process_evl_entries evl_env evl_dev = Some (map (evl_fault_of sample_entry) [3, 0], d')"
proof -
  have f: "filter (evl_wants evl_env sample_evl sample_entry) [3, 0] = [3, 0]"
    by (simp add: evl_wants_def sample_evl_def sample_entry_def evl_faults_def zero_defs DSA_COMP_STATUS_def)
  obtain queued d' where "process_evl_entries evl_env evl_dev = Some (queued, d')"
    "faults_alloc evl_env \<longrightarrow> queued = map (evl_fault_of sample_entry) (filter (evl_wants evl_env sample_evl sample_entry) [3, 0])"
    using evl_entries_exact [OF evl_dev_facts(1,2,3,5,6,7,8)] by (elim exE conjE) blast
  with f evl_env_alloc show ?thesis by simp
qed

theorem evl_unchecked_index_witness: "process_evl_entry evl_env 2 ([], evl_dev) = None"
proof (rule evl_unchecked_index [OF _ _ _ _ _ evl_env_alloc])
  show "evl_entry_at evl_dev 2 = Some (sample_entry 2)" by (simp add: evl_entry_at_def evl_dev_facts)
qed (simp_all add: the_evl_def evl_dev_facts(1) sample_evl_def sample_entry_def evl_dev_def sample_dev_def zero_defs DSA_COMP_STATUS_def)

theorem evl_drain_suppresses_witness:
  "\<exists>d1 queued d2. idxd_cdev_evl_drain_pasid evl_env 0 3 evl_dev = Some d1 \<and>
     process_evl_entries evl_env d1 = Some (queued, d2) \<and> (\<forall>f\<in>set queued. \<not> (fault_wq f = 0 \<and> ee_pasid (fault_entry f) = 3))"
proof -
  have w: "wf_dev evl_dev" "0 < max_wqs evl_dev" by (simp_all add: evl_dev_def sample_dev_def wf_dev_def zero_defs upt_rec)
  obtain d1 where d1: "idxd_cdev_evl_drain_pasid evl_env 0 3 evl_dev = Some d1" "regs d1 = regs evl_dev"
    using evl_drain_marks [OF evl_dev_facts(1,2,3,4,6,7) wf_wq_id [OF w], of evl_env 3] by blast
  have "1 = unat (getf evl_status_reg ''tail''
        (ioread64 IDXD_EVLSTATUS_OFFSET (iowrite32 evl_env 0x40000000 (IDXD_EVLSTATUS_OFFSET + 4) d1)))"
    by (rule trans [OF evl_dev_facts(5)]) (simp add: ioread64_def iowrite32_def d1(2))
  from evl_drain_suppresses [OF evl_dev_facts(1,2,3,4,6,7,8) w d1(1) this] d1(1) show ?thesis
    by (elim conjE exE) (intro exI conjI)
qed

end
