(* ===== verification/Sysfs.thy ===== *)
theory Sysfs
  imports Resources
begin

text \<open>
  The configuration files of \<^verbatim>\<open>idxd/sysfs.c\<close>. A show function returns the text or a negative
  code, a store function takes the text and its length and returns the length or a negative
  code with the new state. The kernel's number, boolean and bitmap parsers are members of
  \<^typ>\<open>env\<close>; the comparisons are made at the C types, after the usual arithmetic conversions.
\<close>

subsection \<open>Formatted output\<close>

text \<open>The conversions of \<^verbatim>\<open>sysfs_emit\<close> the files use.\<close>

fun dec :: "nat \<Rightarrow> string" where
  "dec n = (if n < 10 then [char_of (48 + n)] else dec (n div 10) @ [char_of (48 + n mod 10)])"

fun hex :: "nat \<Rightarrow> string" where
  "hex n =
     (let c = (\<lambda>k. char_of (if k < 10 then 48 + k else 87 + k))
      in if n < 16 then [c n] else hex (n div 16) @ [c (n mod 16)])"

declare dec.simps [simp del] hex.simps [simp del]

definition newline :: string where
  "newline = [CHR 0x0A]"

definition fmt_u :: "int \<Rightarrow> string" where
  "fmt_u x = dec (unat (word_of_int x :: u32))"

definition fmt_d :: "int \<Rightarrow> string" where
  "fmt_d x = (if x < 0 then ''-'' @ dec (nat (- x)) else dec (nat x))"

definition fmt_hash_x :: "nat \<Rightarrow> string" where
  "fmt_hash_x n = (if n = 0 then ''0'' else ''0x'' @ hex n)"

subsection \<open>Common guards\<close>

text \<open>The unsigned long a C int becomes in a comparison with one.\<close>

definition to_ulong :: "int \<Rightarrow> u64" where
  "to_ulong x = word_of_int x"

text \<open>The C int an unsigned long becomes when it is assigned to one.\<close>

definition to_int :: "u64 \<Rightarrow> int" where
  "to_int x = sint (ucast x :: 32 word)"

definition sum_wrap32 :: "u32 list \<Rightarrow> int" where
  "sum_wrap32 xs = sint (sum_list xs)"

subsection \<open>Engine files\<close>

definition engine_group_id_show :: "nat \<Rightarrow> idxd_device \<Rightarrow> string" where
  "engine_group_id_show e d =
     (case eng_group (engines d ! e) of
        Some g \<Rightarrow> fmt_d (int (grp_id (groups d ! g))) @ newline
      | None \<Rightarrow> fmt_d (-1) @ newline)"

definition engine_group_id_store ::
  "env \<Rightarrow> nat \<Rightarrow> string \<Rightarrow> nat \<Rightarrow> idxd_device \<Rightarrow> int \<times> idxd_device" where
  "engine_group_id_store E e buf count d =
     (case kstrtol E 10 buf of
        None \<Rightarrow> (- EINVAL, d)
      | Some n \<Rightarrow>
          if \<not> configurable d then (- EPERM, d)
          else if n > int (max_groups d) - 1 \<or> n < -1 then (- EINVAL, d)
          else
            let leave = (\<lambda>d. case eng_group (engines d ! e) of
                  None \<Rightarrow> d
                | Some g \<Rightarrow> upd_group g (\<lambda>x. x\<lparr>num_engines := num_engines x - 1\<rparr>) d);
                d = leave d
            in if n = -1 then (int count, upd_engine e (\<lambda>x. x\<lparr>eng_group := None\<rparr>) d)
               else
                 let d = upd_engine e (\<lambda>x. x\<lparr>eng_group := Some (nat n)\<rparr>) d;
                     d = upd_group (nat n) (\<lambda>x. x\<lparr>num_engines := num_engines x + 1\<rparr>) d
                 in (int count, d))"

definition idxd_conf_engine_release :: "nat \<Rightarrow> idxd_device \<Rightarrow> idxd_device" where
  "idxd_conf_engine_release e d = release (D (EngineStruct e)) d"

subsection \<open>Group files\<close>

definition idxd_set_free_rdbufs :: "idxd_device \<Rightarrow> idxd_device" where
  "idxd_set_free_rdbufs d =
     (let rdbufs = fold (\<lambda>i r. r + uint (rdbufs_reserved (groups d ! i))) [0..<max_groups d] 0
      in d\<lparr>nr_rdbufs := max_rdbufs d - rdbufs\<rparr>)"

definition group_read_buffers_reserved_show :: "nat \<Rightarrow> idxd_device \<Rightarrow> string" where
  "group_read_buffers_reserved_show g d = fmt_u (uint (rdbufs_reserved (groups d ! g))) @ newline"

definition group_tokens_reserved_show :: "nat \<Rightarrow> idxd_device \<Rightarrow> string" where
  "group_tokens_reserved_show g d = group_read_buffers_reserved_show g d"

definition group_read_buffers_reserved_store ::
  "env \<Rightarrow> nat \<Rightarrow> string \<Rightarrow> nat \<Rightarrow> idxd_device \<Rightarrow> int \<times> idxd_device" where
  "group_read_buffers_reserved_store E g buf count d =
     (case kstrtoul E 10 buf of
        None \<Rightarrow> (- EINVAL, d)
      | Some val \<Rightarrow>
          if drv_type (drv_data d) = IDXD_TYPE_IAX then (- EOPNOTSUPP, d)
          else if \<not> configurable d then (- EPERM, d)
          else if dev_state d = IDXD_DEV_ENABLED then (- EPERM, d)
          else if val > to_ulong (max_rdbufs d) then (- EINVAL, d)
          else if val > to_ulong (nr_rdbufs d + uint (rdbufs_reserved (groups d ! g))) then (- EINVAL, d)
          else
            let d = upd_group g (\<lambda>x. x\<lparr>rdbufs_reserved := ucast val\<rparr>) d
            in (int count, idxd_set_free_rdbufs d))"

definition group_tokens_reserved_store ::
  "env \<Rightarrow> nat \<Rightarrow> string \<Rightarrow> nat \<Rightarrow> idxd_device \<Rightarrow> int \<times> idxd_device" where
  "group_tokens_reserved_store E g buf count d = group_read_buffers_reserved_store E g buf count d"

definition group_read_buffers_allowed_show :: "nat \<Rightarrow> idxd_device \<Rightarrow> string" where
  "group_read_buffers_allowed_show g d = fmt_u (uint (rdbufs_allowed (groups d ! g))) @ newline"

definition group_tokens_allowed_show :: "nat \<Rightarrow> idxd_device \<Rightarrow> string" where
  "group_tokens_allowed_show g d = group_read_buffers_allowed_show g d"

definition group_read_buffers_allowed_store ::
  "env \<Rightarrow> nat \<Rightarrow> string \<Rightarrow> nat \<Rightarrow> idxd_device \<Rightarrow> int \<times> idxd_device" where
  "group_read_buffers_allowed_store E g buf count d =
     (case kstrtoul E 10 buf of
        None \<Rightarrow> (- EINVAL, d)
      | Some val \<Rightarrow>
          if drv_type (drv_data d) = IDXD_TYPE_IAX then (- EOPNOTSUPP, d)
          else if \<not> configurable d then (- EPERM, d)
          else if dev_state d = IDXD_DEV_ENABLED then (- EPERM, d)
          else if val < to_ulong (4 * num_engines (groups d ! g)) \<or>
                  val > to_ulong (uint (rdbufs_reserved (groups d ! g)) + nr_rdbufs d) then (- EINVAL, d)
          else (int count, upd_group g (\<lambda>x. x\<lparr>rdbufs_allowed := ucast val\<rparr>) d))"

definition group_tokens_allowed_store ::
  "env \<Rightarrow> nat \<Rightarrow> string \<Rightarrow> nat \<Rightarrow> idxd_device \<Rightarrow> int \<times> idxd_device" where
  "group_tokens_allowed_store E g buf count d = group_read_buffers_allowed_store E g buf count d"

definition group_use_read_buffer_limit_show :: "nat \<Rightarrow> idxd_device \<Rightarrow> string" where
  "group_use_read_buffer_limit_show g d = fmt_u (of_bool (use_rdbuf_limit (groups d ! g))) @ newline"

definition group_use_token_limit_show :: "nat \<Rightarrow> idxd_device \<Rightarrow> string" where
  "group_use_token_limit_show g d = group_use_read_buffer_limit_show g d"

definition group_use_read_buffer_limit_store ::
  "env \<Rightarrow> nat \<Rightarrow> string \<Rightarrow> nat \<Rightarrow> idxd_device \<Rightarrow> int \<times> idxd_device" where
  "group_use_read_buffer_limit_store E g buf count d =
     (case kstrtoul E 10 buf of
        None \<Rightarrow> (- EINVAL, d)
      | Some val \<Rightarrow>
          if drv_type (drv_data d) = IDXD_TYPE_IAX then (- EOPNOTSUPP, d)
          else if \<not> configurable d then (- EPERM, d)
          else if dev_state d = IDXD_DEV_ENABLED then (- EPERM, d)
          else if rdbuf_limit d = 0 then (- EPERM, d)
          else (int count, upd_group g (\<lambda>x. x\<lparr>use_rdbuf_limit := (val \<noteq> 0)\<rparr>) d))"

definition group_use_token_limit_store ::
  "env \<Rightarrow> nat \<Rightarrow> string \<Rightarrow> nat \<Rightarrow> idxd_device \<Rightarrow> int \<times> idxd_device" where
  "group_use_token_limit_store E g buf count d = group_use_read_buffer_limit_store E g buf count d"

text \<open>The members of a group, each followed by a blank; the last blank becomes the newline.\<close>

definition member_list :: "string list \<Rightarrow> string" where
  "member_list xs = (let s = concat xs in if s = [] then [] else butlast s @ newline)"

definition group_engines_show :: "nat \<Rightarrow> idxd_device \<Rightarrow> string" where
  "group_engines_show g d =
     member_list
       (map (\<lambda>i. case eng_group (engines d ! i) of
                None \<Rightarrow> []
              | Some h \<Rightarrow>
                  if grp_id (groups d ! h) = grp_id (groups d ! g)
                  then ''engine'' @ fmt_d (dev_id d) @ ''.'' @ fmt_d (int (eng_id (engines d ! i))) @ '' ''
                  else []) [0..<max_engines d])"

definition group_work_queues_show :: "nat \<Rightarrow> idxd_device \<Rightarrow> string" where
  "group_work_queues_show g d =
     member_list
       (map (\<lambda>i. case wq_group (wqs d ! i) of
                None \<Rightarrow> []
              | Some h \<Rightarrow>
                  if grp_id (groups d ! h) = grp_id (groups d ! g)
                  then ''wq'' @ fmt_d (dev_id d) @ ''.'' @ fmt_d (int (wq_id (wqs d ! i))) @ '' ''
                  else []) [0..<max_wqs d])"

definition group_traffic_class_a_show :: "nat \<Rightarrow> idxd_device \<Rightarrow> string" where
  "group_traffic_class_a_show g d = fmt_d (tc_a (groups d ! g)) @ newline"

definition group_traffic_class_a_store ::
  "env \<Rightarrow> nat \<Rightarrow> string \<Rightarrow> nat \<Rightarrow> idxd_device \<Rightarrow> int \<times> idxd_device" where
  "group_traffic_class_a_store E g buf count d =
     (case kstrtol E 10 buf of
        None \<Rightarrow> (- EINVAL, d)
      | Some val \<Rightarrow>
          if \<not> configurable d then (- EPERM, d)
          else if dev_state d = IDXD_DEV_ENABLED then (- EPERM, d)
          else if version d \<le> DEVICE_VERSION_2 \<and> \<not> tc_override E then (- EPERM, d)
          else if val < 0 \<or> val > 7 then (- EINVAL, d)
          else (int count, upd_group g (\<lambda>x. x\<lparr>tc_a := val\<rparr>) d))"

definition group_traffic_class_b_show :: "nat \<Rightarrow> idxd_device \<Rightarrow> string" where
  "group_traffic_class_b_show g d = fmt_d (tc_b (groups d ! g)) @ newline"

definition group_traffic_class_b_store ::
  "env \<Rightarrow> nat \<Rightarrow> string \<Rightarrow> nat \<Rightarrow> idxd_device \<Rightarrow> int \<times> idxd_device" where
  "group_traffic_class_b_store E g buf count d =
     (case kstrtol E 10 buf of
        None \<Rightarrow> (- EINVAL, d)
      | Some val \<Rightarrow>
          if \<not> configurable d then (- EPERM, d)
          else if dev_state d = IDXD_DEV_ENABLED then (- EPERM, d)
          else if version d \<le> DEVICE_VERSION_2 \<and> \<not> tc_override E then (- EPERM, d)
          else if val < 0 \<or> val > 7 then (- EINVAL, d)
          else (int count, upd_group g (\<lambda>x. x\<lparr>tc_b := val\<rparr>) d))"

definition group_desc_progress_limit_show :: "nat \<Rightarrow> idxd_device \<Rightarrow> string" where
  "group_desc_progress_limit_show g d = fmt_d (desc_progress_limit (groups d ! g)) @ newline"

definition group_desc_progress_limit_store ::
  "env \<Rightarrow> nat \<Rightarrow> string \<Rightarrow> nat \<Rightarrow> idxd_device \<Rightarrow> int \<times> idxd_device" where
  "group_desc_progress_limit_store E g buf count d =
     (case kstrtoint E 10 buf of
        None \<Rightarrow> (- EINVAL, d)
      | Some val \<Rightarrow>
          if (scast val :: u64) AND NOT 3 \<noteq> 0 then (- EINVAL, d)
          else (int count, upd_group g (\<lambda>x. x\<lparr>desc_progress_limit := sint val\<rparr>) d))"

definition group_batch_progress_limit_show :: "nat \<Rightarrow> idxd_device \<Rightarrow> string" where
  "group_batch_progress_limit_show g d = fmt_d (batch_progress_limit (groups d ! g)) @ newline"

definition group_batch_progress_limit_store ::
  "env \<Rightarrow> nat \<Rightarrow> string \<Rightarrow> nat \<Rightarrow> idxd_device \<Rightarrow> int \<times> idxd_device" where
  "group_batch_progress_limit_store E g buf count d =
     (case kstrtoint E 10 buf of
        None \<Rightarrow> (- EINVAL, d)
      | Some val \<Rightarrow>
          if (scast val :: u64) AND NOT 3 \<noteq> 0 then (- EINVAL, d)
          else (int count, upd_group g (\<lambda>x. x\<lparr>batch_progress_limit := sint val\<rparr>) d))"

text \<open>The entries of the attribute table and their visibility.\<close>

datatype group_attr =
    attr_group_work_queues | attr_group_engines | attr_group_use_token_limit
  | attr_group_use_read_buffer_limit | attr_group_tokens_allowed
  | attr_group_read_buffers_allowed | attr_group_tokens_reserved
  | attr_group_read_buffers_reserved | attr_group_traffic_class_a | attr_group_traffic_class_b
  | attr_group_desc_progress_limit | attr_group_batch_progress_limit

definition group_attr_mode :: "group_attr \<Rightarrow> nat" where
  "group_attr_mode a = (if a \<in> {attr_group_work_queues, attr_group_engines} then 0x124 else 0x1a4)"

definition idxd_group_attr_progress_limit_invisible :: "group_attr \<Rightarrow> idxd_device \<Rightarrow> bool" where
  "idxd_group_attr_progress_limit_invisible a d \<longleftrightarrow>
     (a = attr_group_desc_progress_limit \<or> a = attr_group_batch_progress_limit) \<and>
     getf group_cap_reg ''progress_limit'' (group_cap d) = 0"

definition idxd_group_attr_read_buffers_invisible :: "group_attr \<Rightarrow> idxd_device \<Rightarrow> bool" where
  "idxd_group_attr_read_buffers_invisible a d \<longleftrightarrow>
     (a = attr_group_use_token_limit \<or> a = attr_group_use_read_buffer_limit \<or>
      a = attr_group_tokens_allowed \<or> a = attr_group_read_buffers_allowed \<or>
      a = attr_group_tokens_reserved \<or> a = attr_group_read_buffers_reserved) \<and>
     drv_type (drv_data d) = IDXD_TYPE_IAX"

definition idxd_group_attr_visible :: "group_attr \<Rightarrow> idxd_device \<Rightarrow> nat" where
  "idxd_group_attr_visible a d =
     (if idxd_group_attr_progress_limit_invisible a d then 0
      else if idxd_group_attr_read_buffers_invisible a d then 0
      else group_attr_mode a)"

definition idxd_conf_group_release :: "nat \<Rightarrow> idxd_device \<Rightarrow> idxd_device" where
  "idxd_conf_group_release g d = release (D (GroupStruct g)) d"

subsection \<open>Work queue files\<close>

definition wq_clients_show :: "nat \<Rightarrow> idxd_device \<Rightarrow> string" where
  "wq_clients_show i d = fmt_d (client_count (wqs d ! i)) @ newline"

definition wq_state_show :: "nat \<Rightarrow> idxd_device \<Rightarrow> string" where
  "wq_state_show i d =
     (case wq_state (wqs d ! i) of
        IDXD_WQ_DISABLED \<Rightarrow> ''disabled'' @ newline
      | IDXD_WQ_ENABLED \<Rightarrow> ''enabled'' @ newline)"

definition wq_group_id_show :: "nat \<Rightarrow> idxd_device \<Rightarrow> string" where
  "wq_group_id_show i d =
     (case wq_group (wqs d ! i) of
        Some g \<Rightarrow> fmt_u (int (grp_id (groups d ! g))) @ newline
      | None \<Rightarrow> ''-1'' @ newline)"

definition wq_group_id_store ::
  "env \<Rightarrow> nat \<Rightarrow> string \<Rightarrow> nat \<Rightarrow> idxd_device \<Rightarrow> int \<times> idxd_device" where
  "wq_group_id_store E i buf count d =
     (case kstrtol E 10 buf of
        None \<Rightarrow> (- EINVAL, d)
      | Some n \<Rightarrow>
          if \<not> configurable d then (- EPERM, d)
          else if wq_state (wqs d ! i) \<noteq> IDXD_WQ_DISABLED then (- EPERM, d)
          else if n > int (max_groups d) - 1 \<or> n < -1 then (- EINVAL, d)
          else
            let leave = (\<lambda>d. case wq_group (wqs d ! i) of
                  None \<Rightarrow> d
                | Some g \<Rightarrow> upd_group g (\<lambda>x. x\<lparr>num_wqs := num_wqs x - 1\<rparr>) d);
                d = leave d
            in if n = -1 then (int count, upd_wq i (\<lambda>w. w\<lparr>wq_group := None\<rparr>) d)
               else
                 let d = upd_wq i (\<lambda>w. w\<lparr>wq_group := Some (nat n)\<rparr>) d;
                     d = upd_group (nat n) (\<lambda>x. x\<lparr>num_wqs := num_wqs x + 1\<rparr>) d
                 in (int count, d))"

definition wq_mode_show :: "nat \<Rightarrow> idxd_device \<Rightarrow> string" where
  "wq_mode_show i d = (if wq_dedicated (wqs d ! i) then ''dedicated'' else ''shared'') @ newline"

definition wq_mode_store ::
  "env \<Rightarrow> nat \<Rightarrow> string \<Rightarrow> nat \<Rightarrow> idxd_device \<Rightarrow> int \<times> idxd_device" where
  "wq_mode_store E i buf count d =
     (if \<not> configurable d then (- EPERM, d)
      else if wq_state (wqs d ! i) \<noteq> IDXD_WQ_DISABLED then (- EPERM, d)
      else if sysfs_streq E buf ''dedicated''
           then (int count, upd_wq i (\<lambda>w. w\<lparr>wq_flags := set_bit WQ_FLAG_DEDICATED (wq_flags w),
                                            threshold := 0\<rparr>) d)
      else if sysfs_streq E buf ''shared''
           then (int count, upd_wq i (\<lambda>w. w\<lparr>wq_flags := unset_bit WQ_FLAG_DEDICATED (wq_flags w)\<rparr>) d)
      else (- EINVAL, d))"

definition wq_size_show :: "nat \<Rightarrow> idxd_device \<Rightarrow> string" where
  "wq_size_show i d = fmt_u (uint (wq_size (wqs d ! i))) @ newline"

definition total_claimed_wq_size :: "idxd_device \<Rightarrow> int" where
  "total_claimed_wq_size d =
     sint (fold (\<lambda>i s. s + wq_size (wqs d ! i)) [0..<max_wqs d] (0 :: u32))"

definition wq_size_store ::
  "env \<Rightarrow> nat \<Rightarrow> string \<Rightarrow> nat \<Rightarrow> idxd_device \<Rightarrow> int \<times> idxd_device" where
  "wq_size_store E i buf count d =
     (case kstrtoul E 10 buf of
        None \<Rightarrow> (- EINVAL, d)
      | Some n \<Rightarrow>
          if \<not> configurable d then (- EPERM, d)
          else if dev_state d = IDXD_DEV_ENABLED then (- EPERM, d)
          else if n + to_ulong (total_claimed_wq_size d) - ucast (wq_size (wqs d ! i)) > to_ulong (max_wq_size d)
               then (- EINVAL, d)
          else (int count, upd_wq i (\<lambda>w. w\<lparr>wq_size := ucast n\<rparr>) d))"

definition wq_priority_show :: "nat \<Rightarrow> idxd_device \<Rightarrow> string" where
  "wq_priority_show i d = fmt_u (uint (priority (wqs d ! i))) @ newline"

definition wq_priority_store ::
  "env \<Rightarrow> nat \<Rightarrow> string \<Rightarrow> nat \<Rightarrow> idxd_device \<Rightarrow> int \<times> idxd_device" where
  "wq_priority_store E i buf count d =
     (case kstrtoul E 10 buf of
        None \<Rightarrow> (- EINVAL, d)
      | Some prio \<Rightarrow>
          if \<not> configurable d then (- EPERM, d)
          else if wq_state (wqs d ! i) \<noteq> IDXD_WQ_DISABLED then (- EPERM, d)
          else if prio > IDXD_MAX_PRIORITY then (- EINVAL, d)
          else (int count, upd_wq i (\<lambda>w. w\<lparr>priority := ucast prio\<rparr>) d))"

definition wq_flag_show :: "nat \<Rightarrow> nat \<Rightarrow> idxd_device \<Rightarrow> string" where
  "wq_flag_show f i d = fmt_u (of_bool (bit (wq_flags (wqs d ! i)) f)) @ newline"

definition wq_block_on_fault_show :: "nat \<Rightarrow> idxd_device \<Rightarrow> string" where
  "wq_block_on_fault_show i d = wq_flag_show WQ_FLAG_BLOCK_ON_FAULT i d"

definition wq_block_on_fault_store ::
  "env \<Rightarrow> nat \<Rightarrow> string \<Rightarrow> nat \<Rightarrow> idxd_device \<Rightarrow> int \<times> idxd_device" where
  "wq_block_on_fault_store E i buf count d =
     (if getf gen_cap_reg ''block_on_fault'' (gen_cap d) = 0 then (- EOPNOTSUPP, d)
      else if \<not> configurable d then (- EPERM, d)
      else if wq_state (wqs d ! i) \<noteq> IDXD_WQ_DISABLED then (- ENXIO, d)
      else case kstrtobool E buf of
        Inl rc \<Rightarrow> (rc, d)
      | Inr bof \<Rightarrow>
          if bof then
            if bit (wq_flags (wqs d ! i)) WQ_FLAG_PRS_DISABLE then (- EOPNOTSUPP, d)
            else (int count, upd_wq i (\<lambda>w. w\<lparr>wq_flags := set_bit WQ_FLAG_BLOCK_ON_FAULT (wq_flags w)\<rparr>) d)
          else (int count, upd_wq i (\<lambda>w. w\<lparr>wq_flags := unset_bit WQ_FLAG_BLOCK_ON_FAULT (wq_flags w)\<rparr>) d))"

definition wq_threshold_show :: "nat \<Rightarrow> idxd_device \<Rightarrow> string" where
  "wq_threshold_show i d = fmt_u (uint (threshold (wqs d ! i))) @ newline"

definition wq_threshold_store ::
  "env \<Rightarrow> nat \<Rightarrow> string \<Rightarrow> nat \<Rightarrow> idxd_device \<Rightarrow> int \<times> idxd_device" where
  "wq_threshold_store E i buf count d =
     (case kstrtouint E 0 buf of
        Inl _ \<Rightarrow> (- EINVAL, d)
      | Inr val \<Rightarrow>
          if val > wq_size (wqs d ! i) \<or> val \<le> 0 then (- EINVAL, d)
          else if \<not> configurable d then (- EPERM, d)
          else if wq_state (wqs d ! i) \<noteq> IDXD_WQ_DISABLED then (- ENXIO, d)
          else if bit (wq_flags (wqs d ! i)) WQ_FLAG_DEDICATED then (- EINVAL, d)
          else (int count, upd_wq i (\<lambda>w. w\<lparr>threshold := val\<rparr>) d))"

primrec idxd_wq_type_names :: "idxd_wq_type \<Rightarrow> string" where
  "idxd_wq_type_names IDXD_WQT_NONE = ''none''"
| "idxd_wq_type_names IDXD_WQT_KERNEL = ''kernel''"
| "idxd_wq_type_names IDXD_WQT_USER = ''user''"

definition wq_type_show :: "nat \<Rightarrow> idxd_device \<Rightarrow> string" where
  "wq_type_show i d = idxd_wq_type_names (wq_type (wqs d ! i)) @ newline"

definition wq_type_store ::
  "env \<Rightarrow> nat \<Rightarrow> string \<Rightarrow> nat \<Rightarrow> idxd_device \<Rightarrow> int \<times> idxd_device" where
  "wq_type_store E i buf count d =
     (if wq_state (wqs d ! i) \<noteq> IDXD_WQ_DISABLED then (- EPERM, d)
      else
        let set_type = (\<lambda>t. (int count, upd_wq i (\<lambda>w. if t \<noteq> wq_type w then w\<lparr>wq_type := t, wq_name := []\<rparr>
                                                   else w) d))
        in if sysfs_streq E buf (idxd_wq_type_names IDXD_WQT_NONE) then set_type IDXD_WQT_NONE
           else if sysfs_streq E buf (idxd_wq_type_names IDXD_WQT_KERNEL) then set_type IDXD_WQT_KERNEL
           else if sysfs_streq E buf (idxd_wq_type_names IDXD_WQT_USER) then set_type IDXD_WQT_USER
           else (- EINVAL, d))"

definition wq_name_show :: "nat \<Rightarrow> idxd_device \<Rightarrow> string" where
  "wq_name_show i d = wq_name (wqs d ! i) @ newline"

text \<open>\<^verbatim>\<open>kstrndup\<close> takes at most \<open>count\<close> characters; the copy is freed before the return.\<close>

definition wq_name_store ::
  "env \<Rightarrow> nat \<Rightarrow> string \<Rightarrow> nat \<Rightarrow> idxd_device \<Rightarrow> int \<times> idxd_device" where
  "wq_name_store E i buf count d =
     (if wq_state (wqs d ! i) \<noteq> IDXD_WQ_DISABLED then (- EPERM, d)
      else if size buf > WQ_NAME_SIZE \<or> size buf = 0 then (- EINVAL, d)
      else
        let (rc, d) = acquire E (D TmpBuf) d in
        if rc < 0 then (- ENOMEM, d)
        else
          let pos = strim E (take count buf);
              d = upd_wq i (\<lambda>w. w\<lparr>wq_name := pos\<rparr>) d
          in (int count, release (D TmpBuf) d))"

definition wq_cdev_minor_show :: "nat \<Rightarrow> idxd_device \<Rightarrow> int + string" where
  "wq_cdev_minor_show i d =
     (let minor = (case wq_cdev (wqs d ! i) of None \<Rightarrow> -1 | Some m \<Rightarrow> m)
      in if minor = -1 then Inl (- ENXIO) else Inr (fmt_d minor @ newline))"

definition get_sysfs_u64 :: "env \<Rightarrow> string \<Rightarrow> int + u64" where
  "get_sysfs_u64 E buf =
     (case kstrtoul E 0 buf of
        None \<Rightarrow> Inl (- EINVAL)
      | Some v \<Rightarrow> if v = 0 then Inl (- EINVAL) else Inr (roundup_pow_of_two E v))"

definition wq_max_transfer_size_show :: "nat \<Rightarrow> idxd_device \<Rightarrow> string" where
  "wq_max_transfer_size_show i d = dec (unat (max_xfer_bytes (wqs d ! i))) @ newline"

definition wq_max_transfer_size_store ::
  "env \<Rightarrow> nat \<Rightarrow> string \<Rightarrow> nat \<Rightarrow> idxd_device \<Rightarrow> int \<times> idxd_device" where
  "wq_max_transfer_size_store E i buf count d =
     (if \<not> configurable d then (- EPERM, d)
      else if wq_state (wqs d ! i) \<noteq> IDXD_WQ_DISABLED then (- EPERM, d)
      else case get_sysfs_u64 E buf of
        Inl rc \<Rightarrow> (rc, d)
      | Inr bytes \<Rightarrow>
          if bytes > dev_max_xfer_bytes d then (- EINVAL, d)
          else (int count, upd_wq i (\<lambda>w. w\<lparr>max_xfer_bytes := bytes\<rparr>) d))"

definition wq_max_batch_size_show :: "nat \<Rightarrow> idxd_device \<Rightarrow> string" where
  "wq_max_batch_size_show i d = fmt_u (uint (max_batch_size (wqs d ! i))) @ newline"

definition wq_max_batch_size_store ::
  "env \<Rightarrow> nat \<Rightarrow> string \<Rightarrow> nat \<Rightarrow> idxd_device \<Rightarrow> int \<times> idxd_device" where
  "wq_max_batch_size_store E i buf count d =
     (if \<not> configurable d then (- EPERM, d)
      else if wq_state (wqs d ! i) \<noteq> IDXD_WQ_DISABLED then (- EPERM, d)
      else case get_sysfs_u64 E buf of
        Inl rc \<Rightarrow> (rc, d)
      | Inr batch_size \<Rightarrow>
          if batch_size > ucast (dev_max_batch_size d) then (- EINVAL, d)
          else (int count, upd_wq i (idxd_wq_set_max_batch_size (drv_type (drv_data d)) (ucast batch_size)) d))"

definition wq_ats_disable_show :: "nat \<Rightarrow> idxd_device \<Rightarrow> string" where
  "wq_ats_disable_show i d = wq_flag_show WQ_FLAG_ATS_DISABLE i d"

definition wq_ats_disable_store ::
  "env \<Rightarrow> nat \<Rightarrow> string \<Rightarrow> nat \<Rightarrow> idxd_device \<Rightarrow> int \<times> idxd_device" where
  "wq_ats_disable_store E i buf count d =
     (if wq_state (wqs d ! i) \<noteq> IDXD_WQ_DISABLED then (- EPERM, d)
      else if \<not> configurable d then (- EPERM, d)
      else case kstrtobool E buf of
        Inl rc \<Rightarrow> (rc, d)
      | Inr ats_dis \<Rightarrow>
          (int count, upd_wq i (\<lambda>w. w\<lparr>wq_flags := (if ats_dis then set_bit WQ_FLAG_ATS_DISABLE (wq_flags w)
                                                  else unset_bit WQ_FLAG_ATS_DISABLE (wq_flags w))\<rparr>) d))"

definition wq_prs_disable_show :: "nat \<Rightarrow> idxd_device \<Rightarrow> string" where
  "wq_prs_disable_show i d = wq_flag_show WQ_FLAG_PRS_DISABLE i d"

definition wq_prs_disable_store ::
  "env \<Rightarrow> nat \<Rightarrow> string \<Rightarrow> nat \<Rightarrow> idxd_device \<Rightarrow> int \<times> idxd_device" where
  "wq_prs_disable_store E i buf count d =
     (if wq_state (wqs d ! i) \<noteq> IDXD_WQ_DISABLED then (- EPERM, d)
      else if \<not> configurable d then (- EPERM, d)
      else case kstrtobool E buf of
        Inl rc \<Rightarrow> (rc, d)
      | Inr prs_dis \<Rightarrow>
          (int count, upd_wq i (\<lambda>w. w\<lparr>wq_flags :=
              (if prs_dis
               then unset_bit WQ_FLAG_BLOCK_ON_FAULT (set_bit WQ_FLAG_PRS_DISABLE (wq_flags w))
               else unset_bit WQ_FLAG_PRS_DISABLE (wq_flags w))\<rparr>) d))"

definition wq_occupancy_show :: "nat \<Rightarrow> idxd_device \<Rightarrow> int + string" where
  "wq_occupancy_show i d =
     (if getf wq_cap_reg ''occupancy'' (wq_cap d) = 0 then Inl (- EOPNOTSUPP)
      else
        let offset = WQCFG_OFFSET (wqcfg_offset d) (wqcfg_size d) (wq_id (wqs d ! i)) WQCFG_OCCUP_IDX;
            occup = ioread32 offset d AND WQCFG_OCCUP_MASK
        in Inr (fmt_u (uint occup) @ newline))"

definition wq_enqcmds_retries_show :: "nat \<Rightarrow> idxd_device \<Rightarrow> int + string" where
  "wq_enqcmds_retries_show i d =
     (if wq_dedicated (wqs d ! i) then Inl (- EOPNOTSUPP)
      else Inr (fmt_u (uint (enqcmds_retries (wqs d ! i))) @ newline))"

definition wq_enqcmds_retries_store ::
  "env \<Rightarrow> nat \<Rightarrow> string \<Rightarrow> nat \<Rightarrow> idxd_device \<Rightarrow> int \<times> idxd_device" where
  "wq_enqcmds_retries_store E i buf count d =
     (if wq_dedicated (wqs d ! i) then (- EOPNOTSUPP, d)
      else case kstrtouint E 10 buf of
        Inl rc \<Rightarrow> (rc, d)
      | Inr retries \<Rightarrow>
          let retries = (if retries > IDXD_ENQCMDS_MAX_RETRIES then IDXD_ENQCMDS_MAX_RETRIES else retries)
          in (int count, upd_wq i (\<lambda>w. w\<lparr>enqcmds_retries := retries\<rparr>) d))"

text \<open>
  \<^verbatim>\<open>%*pb\<close> is the kernel's bitmap format, a parameter. \<^verbatim>\<open>for_each_set_bit\<close> stops at the first bit
  of the mask that the device does not have. Copying into a bitmap that was never allocated is
  the result \<^const>\<open>None\<close>.
\<close>

definition wq_op_config_show :: "(256 word \<Rightarrow> string) \<Rightarrow> nat \<Rightarrow> idxd_device \<Rightarrow> string option" where
  "wq_op_config_show pb i d = map_option (\<lambda>m. pb m @ newline) (wq_opcap (wqs d ! i))"

definition idxd_verify_supported_opcap :: "256 word \<Rightarrow> idxd_device \<Rightarrow> int" where
  "idxd_verify_supported_opcap opmask d =
     (if find (\<lambda>b. bit opmask b \<and> \<not> bit (dev_opcap d) b) [0..<256] \<noteq> None then - EINVAL else 0)"

definition wq_op_config_store ::
  "env \<Rightarrow> nat \<Rightarrow> string \<Rightarrow> nat \<Rightarrow> idxd_device \<Rightarrow> (int \<times> idxd_device) option" where
  "wq_op_config_store E i buf count d =
     (if wq_state (wqs d ! i) \<noteq> IDXD_WQ_DISABLED then Some (- EPERM, d)
      else
        let (rc, d) = acquire E (D TmpBuf) d in
        if rc < 0 then Some (- ENOMEM, d)
        else case bitmap_parse E (take count buf) of
          Inl rc \<Rightarrow> Some (rc, release (D TmpBuf) d)
        | Inr opmask \<Rightarrow>
            let rc = idxd_verify_supported_opcap opmask d
            in if rc < 0 then Some (rc, release (D TmpBuf) d)
               else if wq_opcap (wqs d ! i) = None then None
               else Some (int count, release (D TmpBuf) (upd_wq i (\<lambda>w. w\<lparr>wq_opcap := Some opmask\<rparr>) d)))"

definition wq_driver_name_show :: "nat \<Rightarrow> idxd_device \<Rightarrow> string" where
  "wq_driver_name_show i d = driver_name (wqs d ! i) @ newline"

definition wq_driver_name_store ::
  "env \<Rightarrow> nat \<Rightarrow> string \<Rightarrow> nat \<Rightarrow> idxd_device \<Rightarrow> int \<times> idxd_device" where
  "wq_driver_name_store E i buf count d =
     (if wq_state (wqs d ! i) \<noteq> IDXD_WQ_DISABLED then (- EPERM, d)
      else if size buf > DRIVER_NAME_SIZE \<or> size buf = 0 then (- EINVAL, d)
      else
        let (rc, d) = acquire E (D TmpBuf) d in
        if rc < 0 then (- ENOMEM, d)
        else
          let pos = strim E (take count buf);
              d = upd_wq i (\<lambda>w. w\<lparr>driver_name := pos\<rparr>) d
          in (int count, release (D TmpBuf) d))"

datatype wq_attr =
    attr_wq_clients | attr_wq_state | attr_wq_group_id | attr_wq_mode | attr_wq_size
  | attr_wq_priority | attr_wq_block_on_fault | attr_wq_threshold | attr_wq_type | attr_wq_name
  | attr_wq_cdev_minor | attr_wq_max_transfer_size | attr_wq_max_batch_size
  | attr_wq_ats_disable | attr_wq_prs_disable | attr_wq_occupancy | attr_wq_enqcmds_retries
  | attr_wq_op_config | attr_wq_driver_name

definition wq_attr_mode :: "wq_attr \<Rightarrow> nat" where
  "wq_attr_mode a =
     (if a \<in> {attr_wq_clients, attr_wq_state, attr_wq_cdev_minor, attr_wq_occupancy} then 0x124 else 0x1a4)"

definition idxd_wq_attr_invisible :: "wq_attr \<Rightarrow> string \<Rightarrow> wq_attr \<Rightarrow> idxd_device \<Rightarrow> bool" where
  "idxd_wq_attr_invisible n cap_field a d \<longleftrightarrow> a = n \<and> getf wq_cap_reg cap_field (wq_cap d) = 0"

definition idxd_wq_attr_max_batch_size_invisible :: "wq_attr \<Rightarrow> idxd_device \<Rightarrow> bool" where
  "idxd_wq_attr_max_batch_size_invisible a d \<longleftrightarrow>
     a = attr_wq_max_batch_size \<and> drv_type (drv_data d) = IDXD_TYPE_IAX"

definition idxd_wq_attr_visible :: "wq_attr \<Rightarrow> idxd_device \<Rightarrow> nat" where
  "idxd_wq_attr_visible a d =
     (if idxd_wq_attr_invisible attr_wq_op_config ''op_config'' a d then 0
      else if idxd_wq_attr_max_batch_size_invisible a d then 0
      else if idxd_wq_attr_invisible attr_wq_prs_disable ''wq_prs_support'' a d then 0
      else if idxd_wq_attr_invisible attr_wq_ats_disable ''wq_ats_support'' a d then 0
      else wq_attr_mode a)"

definition idxd_conf_wq_release :: "nat \<Rightarrow> idxd_device \<Rightarrow> idxd_device" where
  "idxd_conf_wq_release i d =
     (let d = (if wq_opcap (wqs d ! i) = None then d else release (W i WqOpcap) d);
          d = (if wqcfg (wqs d ! i) = [] then d else release (W i Wqcfg) d);
          d = upd_wq i (\<lambda>w. w\<lparr>upasid_xa := (\<lambda>_. None)\<rparr>) d
      in release (W i WqStruct) d)"

subsection \<open>Device files\<close>

definition version_show :: "idxd_device \<Rightarrow> string" where
  "version_show d = fmt_hash_x (unat (version d)) @ newline"

definition max_work_queues_size_show :: "idxd_device \<Rightarrow> string" where
  "max_work_queues_size_show d = fmt_u (max_wq_size d) @ newline"

definition max_groups_show :: "idxd_device \<Rightarrow> string" where
  "max_groups_show d = fmt_u (int (max_groups d)) @ newline"

definition max_work_queues_show :: "idxd_device \<Rightarrow> string" where
  "max_work_queues_show d = fmt_u (int (max_wqs d)) @ newline"

definition max_engines_show :: "idxd_device \<Rightarrow> string" where
  "max_engines_show d = fmt_u (int (max_engines d)) @ newline"

definition max_batch_size_show :: "idxd_device \<Rightarrow> string" where
  "max_batch_size_show d = fmt_u (uint (dev_max_batch_size d)) @ newline"

definition max_transfer_size_show :: "idxd_device \<Rightarrow> string" where
  "max_transfer_size_show d = dec (unat (dev_max_xfer_bytes d)) @ newline"

definition op_cap_show :: "(256 word \<Rightarrow> string) \<Rightarrow> idxd_device \<Rightarrow> string" where
  "op_cap_show pb d = pb (dev_opcap d) @ newline"

definition gen_cap_show :: "idxd_device \<Rightarrow> string" where
  "gen_cap_show d = fmt_hash_x (unat (gen_cap d)) @ newline"

definition configurable_show :: "idxd_device \<Rightarrow> string" where
  "configurable_show d = fmt_u (of_bool (configurable d)) @ newline"

definition clients_show :: "idxd_device \<Rightarrow> string" where
  "clients_show d =
     (let count = fold (\<lambda>i c. c + client_count (wqs d ! i)) [0..<max_wqs d] 0
      in fmt_d count @ newline)"

definition pasid_enabled_show :: "idxd_device \<Rightarrow> string" where
  "pasid_enabled_show d = fmt_u (of_bool (device_user_pasid_enabled d)) @ newline"

definition state_show :: "idxd_device \<Rightarrow> string" where
  "state_show d =
     (case dev_state d of
        IDXD_DEV_DISABLED \<Rightarrow> ''disabled'' @ newline
      | IDXD_DEV_ENABLED \<Rightarrow> ''enabled'' @ newline
      | IDXD_DEV_HALTED \<Rightarrow> ''halted'' @ newline)"

text \<open>
  From \<^verbatim>\<open>init.c\<close>: bit \<open>j\<close> of word \<open>i\<close> becomes bit \<open>nr\<close>, which counts the bits visited.
\<close>

definition multi_u64_to_bmap :: "256 word \<Rightarrow> u64 list \<Rightarrow> nat \<Rightarrow> 256 word" where
  "multi_u64_to_bmap bmap val count =
     snd (fold (\<lambda>i s. fold (\<lambda>j (nr, b).
              (nr + 1, if val ! i AND push_bit j 1 \<noteq> 0 then set_bit nr b else b)) [0..<64] s)
            [0..<count] (0, bmap))"

definition errors_show :: "(256 word \<Rightarrow> string) \<Rightarrow> idxd_device \<Rightarrow> string" where
  "errors_show pb d = pb (multi_u64_to_bmap 0 (sw_err d) 4) @ newline"

definition max_read_buffers_show :: "idxd_device \<Rightarrow> string" where
  "max_read_buffers_show d = fmt_u (max_rdbufs d) @ newline"

definition max_tokens_show :: "idxd_device \<Rightarrow> string" where
  "max_tokens_show d = max_read_buffers_show d"

definition read_buffer_limit_show :: "idxd_device \<Rightarrow> string" where
  "read_buffer_limit_show d = fmt_u (rdbuf_limit d) @ newline"

definition token_limit_show :: "idxd_device \<Rightarrow> string" where
  "token_limit_show d = read_buffer_limit_show d"

definition read_buffer_limit_store ::
  "env \<Rightarrow> string \<Rightarrow> nat \<Rightarrow> idxd_device \<Rightarrow> int \<times> idxd_device" where
  "read_buffer_limit_store E buf count d =
     (case kstrtoul E 10 buf of
        None \<Rightarrow> (- EINVAL, d)
      | Some val \<Rightarrow>
          if dev_state d = IDXD_DEV_ENABLED then (- EPERM, d)
          else if \<not> configurable d then (- EPERM, d)
          else if getf group_cap_reg ''rdbuf_limit'' (group_cap d) = 0 then (- EPERM, d)
          else if val > getf group_cap_reg ''total_rdbufs'' (group_cap d) then (- EINVAL, d)
          else (int count, d\<lparr>rdbuf_limit := to_int val\<rparr>))"

definition token_limit_store ::
  "env \<Rightarrow> string \<Rightarrow> nat \<Rightarrow> idxd_device \<Rightarrow> int \<times> idxd_device" where
  "token_limit_store E buf count d = read_buffer_limit_store E buf count d"

text \<open>The driver's own error codes are numbers of a kernel header, a parameter here.\<close>

definition cmd_status_show :: "(idxd_scmd_stat \<Rightarrow> u32) \<Rightarrow> idxd_device \<Rightarrow> string" where
  "cmd_status_show code d =
     fmt_hash_x (unat (case cmd_status d of HwStatus s \<Rightarrow> s | Scmd c \<Rightarrow> code c)) @ newline"

definition cmd_status_store ::
  "env \<Rightarrow> string \<Rightarrow> nat \<Rightarrow> idxd_device \<Rightarrow> int \<times> idxd_device" where
  "cmd_status_store E buf count d = (int count, d\<lparr>cmd_status := HwStatus 0\<rparr>)"

definition iaa_cap_show :: "idxd_device \<Rightarrow> int + string" where
  "iaa_cap_show d =
     (if version d < DEVICE_VERSION_2 then Inl (- EOPNOTSUPP)
      else Inr (fmt_hash_x (unat (iaa_cap d)) @ newline))"

definition event_log_size_show :: "idxd_device \<Rightarrow> int + string" where
  "event_log_size_show d =
     (case dev_evl d of
        None \<Rightarrow> Inl (- EOPNOTSUPP)
      | Some e \<Rightarrow> Inr (fmt_u (uint (evl_size e)) @ newline))"

definition event_log_size_store ::
  "env \<Rightarrow> string \<Rightarrow> nat \<Rightarrow> idxd_device \<Rightarrow> int \<times> idxd_device" where
  "event_log_size_store E buf count d =
     (case dev_evl d of
        None \<Rightarrow> (- EOPNOTSUPP, d)
      | Some e \<Rightarrow>
          case kstrtoul E 10 buf of
            None \<Rightarrow> (- EINVAL, d)
          | Some val \<Rightarrow>
              if dev_state d = IDXD_DEV_ENABLED then (- EPERM, d)
              else if \<not> configurable d then (- EPERM, d)
              else if val < ucast IDXD_EVL_SIZE_MIN \<or> val > ucast IDXD_EVL_SIZE_MAX \<or>
                      val * ucast (evl_ent_size d) > -1 - evl_dma e then (- EINVAL, d)
              else (int count, d\<lparr>dev_evl := Some (e\<lparr>evl_size := ucast val\<rparr>)\<rparr>))"

datatype dev_attr =
    attr_version | attr_max_groups | attr_max_work_queues | attr_max_work_queues_size
  | attr_max_engines | attr_numa_node | attr_max_batch_size | attr_max_transfer_size
  | attr_op_cap | attr_gen_cap | attr_configurable | attr_clients | attr_pasid_enabled
  | attr_state | attr_errors | attr_max_tokens | attr_max_read_buffers | attr_token_limit
  | attr_read_buffer_limit | attr_cdev_major | attr_cmd_status | attr_iaa_cap
  | attr_event_log_size

definition dev_attr_mode :: "dev_attr \<Rightarrow> nat" where
  "dev_attr_mode a =
     (if a \<in> {attr_token_limit, attr_read_buffer_limit, attr_cmd_status, attr_event_log_size}
      then 0x1a4 else 0x124)"

definition idxd_device_attr_max_batch_size_invisible :: "dev_attr \<Rightarrow> idxd_device \<Rightarrow> bool" where
  "idxd_device_attr_max_batch_size_invisible a d \<longleftrightarrow>
     a = attr_max_batch_size \<and> drv_type (drv_data d) = IDXD_TYPE_IAX"

definition idxd_device_attr_read_buffers_invisible :: "dev_attr \<Rightarrow> idxd_device \<Rightarrow> bool" where
  "idxd_device_attr_read_buffers_invisible a d \<longleftrightarrow>
     (a = attr_max_tokens \<or> a = attr_max_read_buffers \<or> a = attr_token_limit \<or>
      a = attr_read_buffer_limit) \<and> drv_type (drv_data d) = IDXD_TYPE_IAX"

definition idxd_device_attr_iaa_cap_invisible :: "dev_attr \<Rightarrow> idxd_device \<Rightarrow> bool" where
  "idxd_device_attr_iaa_cap_invisible a d \<longleftrightarrow>
     a = attr_iaa_cap \<and> (drv_type (drv_data d) \<noteq> IDXD_TYPE_IAX \<or> version d < DEVICE_VERSION_2)"

definition idxd_device_attr_event_log_size_invisible :: "dev_attr \<Rightarrow> idxd_device \<Rightarrow> bool" where
  "idxd_device_attr_event_log_size_invisible a d \<longleftrightarrow>
     a = attr_event_log_size \<and> getf gen_cap_reg ''evl_support'' (gen_cap d) = 0"

definition idxd_device_attr_visible :: "dev_attr \<Rightarrow> idxd_device \<Rightarrow> nat" where
  "idxd_device_attr_visible a d =
     (if idxd_device_attr_max_batch_size_invisible a d then 0
      else if idxd_device_attr_read_buffers_invisible a d then 0
      else if idxd_device_attr_iaa_cap_invisible a d then 0
      else if idxd_device_attr_event_log_size_invisible a d then 0
      else dev_attr_mode a)"

definition idxd_conf_device_release :: "idxd_device \<Rightarrow> idxd_device" where
  "idxd_conf_device_release d =
     (let kfree = (\<lambda>r d. if r \<in> live_ptrs d then release (D r) d else d);
          d = kfree Groups d;
          d = kfree WqEnableMap d;
          d = kfree Wqs d;
          d = kfree Engines d;
          d = (if dev_evl d = None then d else release (D Evl) d);
          d = kfree EvlCache d;
          d = release (D IdxdId) d;
          d = release (D DevOpcap) d
      in release (D IdxdStruct) d)"

text \<open>
  Dropping the last reference runs the release function of the device's type. Dropping one more,
  or freeing twice through a pointer that was not cleared, shows as a negative count.
\<close>

definition conf_release :: "conf_dev \<Rightarrow> idxd_device \<Rightarrow> idxd_device" where
  "conf_release c d =
     (case c of DevIdxd \<Rightarrow> idxd_conf_device_release d | DevWq i \<Rightarrow> idxd_conf_wq_release i d
      | DevEngine e \<Rightarrow> idxd_conf_engine_release e d | DevGroup g \<Rightarrow> idxd_conf_group_release g d | _ \<Rightarrow> d)"

definition put_device :: "conf_dev \<Rightarrow> idxd_device \<Rightarrow> idxd_device" where
  "put_device c d =
     (let d = release (DevRef c) d in if held d (DevRef c) = 0 then conf_release c d else d)"

subsection \<open>Registration of the devices\<close>

text \<open>
  \<^verbatim>\<open>while (j--)\<close>: the test sees \<open>j\<close>, the body \<open>j - 1\<close>. A test of -1 is true and the body then
  reads the array at -2, which is the result \<^const>\<open>None\<close>.
\<close>

definition device_unregister :: "conf_dev \<Rightarrow> idxd_device \<Rightarrow> idxd_device" where
  "device_unregister c d = put_device c (release (Registered c) d)"

definition unregister_below :: "(nat \<Rightarrow> conf_dev) \<Rightarrow> int \<Rightarrow> idxd_device \<Rightarrow> idxd_device option" where
  "unregister_below c j d =
     (if j < 0 then None else Some (fold (\<lambda>k. device_unregister (c k)) (rev [0..<nat j]) d))"

text \<open>The three registration functions are one text with the array replaced.\<close>

fun register_from :: "env \<Rightarrow> (nat \<Rightarrow> conf_dev) \<Rightarrow> nat \<Rightarrow> nat list \<Rightarrow> idxd_device \<Rightarrow> (int \<times> idxd_device) option" where
  "register_from E c n [] d = Some (0, d)"
| "register_from E c n (i # is) d =
     (let (rc, d) = acquire E (Registered (c i)) d
      in if rc < 0
         then map_option (\<lambda>d. (rc, d))
                (unregister_below c (int i - 1) (fold (\<lambda>k. put_device (c k)) [i..<n] d))
         else register_from E c n is d)"

definition idxd_register_engine_devices :: "env \<Rightarrow> idxd_device \<Rightarrow> (int \<times> idxd_device) option" where
  "idxd_register_engine_devices E d = register_from E DevEngine (max_engines d) [0..<max_engines d] d"

definition idxd_register_group_devices :: "env \<Rightarrow> idxd_device \<Rightarrow> (int \<times> idxd_device) option" where
  "idxd_register_group_devices E d = register_from E DevGroup (max_groups d) [0..<max_groups d] d"

definition idxd_register_wq_devices :: "env \<Rightarrow> idxd_device \<Rightarrow> (int \<times> idxd_device) option" where
  "idxd_register_wq_devices E d = register_from E DevWq (max_wqs d) [0..<max_wqs d] d"

definition idxd_register_devices :: "env \<Rightarrow> idxd_device \<Rightarrow> (int \<times> idxd_device) option" where
  "idxd_register_devices E d =
     (let (rc, d) = acquire E (Registered DevIdxd) d;
          err_wq = (\<lambda>d. release (Registered DevIdxd) d);
          err_engine = (\<lambda>d. err_wq (fold (\<lambda>i. device_unregister (DevWq i)) [0..<max_wqs d] d));
          err_group = (\<lambda>d. err_engine (fold (\<lambda>i. device_unregister (DevEngine i)) [0..<max_engines d] d))
      in if rc < 0 then Some (rc, d)
         else case idxd_register_wq_devices E d of
           None \<Rightarrow> None
         | Some (rc, d) \<Rightarrow>
             if rc < 0 then Some (rc, err_wq d)
             else case idxd_register_engine_devices E d of
               None \<Rightarrow> None
             | Some (rc, d) \<Rightarrow>
                 if rc < 0 then Some (rc, err_engine d)
                 else case idxd_register_group_devices E d of
                   None \<Rightarrow> None
                 | Some (rc, d) \<Rightarrow> if rc < 0 then Some (rc, err_group d) else Some (0, d))"

definition idxd_unregister_devices :: "idxd_device \<Rightarrow> idxd_device" where
  "idxd_unregister_devices d =
     (let d = fold (\<lambda>i. device_unregister (DevWq i)) [0..<max_wqs d] d;
          d = fold (\<lambda>i. device_unregister (DevEngine i)) [0..<max_engines d] d
      in fold (\<lambda>i. device_unregister (DevGroup i)) [0..<max_groups d] d)"

end
