(* ===== verification/Perfmon.thy ===== *)
theory Perfmon
  imports Evl Sysfs
begin

text \<open>
  The performance monitor of \<^verbatim>\<open>idxd/perfmon.c\<close> and \<^verbatim>\<open>idxd/perfmon.h\<close>. A pointer to a perf event
  is its number in \<open>pf_event\<close>, the address of a \<^verbatim>\<open>struct pmu\<close> is the number \<^const>\<open>pmu_id\<close>. A use of a
  NULL pointer or of a counter or list entry outside its table is \<^const>\<open>None\<close>, and so is a shift
  that C does not define.
\<close>

subsection \<open>State and registers\<close>

record perf_event =
  ev_type :: u32
  ev_pmu_type :: u32
  ev_pmu :: nat
  ev_sample_period :: u64
  ev_cpu :: int
  ev_config :: u64
  ev_config1 :: u64
  ev_leader :: nat
  ev_siblings :: "nat list"
  ev_state :: int
  hw_idx :: int
  hw_config :: u64
  hw_config_base :: u64
  hw_event_base :: u64
  hw_prev :: u64
  hw_state :: u32
  ev_count :: u64

record perf_state =
  pf_dev :: idxd_device
  pf_event :: "nat \<Rightarrow> perf_event"
  pf_attrs :: "string option list"
  pf_mask :: "nat set"
  pf_set_up :: bool

abbreviation (input) IDXD_PMU_EVENT_MAX :: nat where "IDXD_PMU_EVENT_MAX \<equiv> 64"
abbreviation (input) IDXD_PERFCAP_OFFSET :: nat where "IDXD_PERFCAP_OFFSET \<equiv> 0x0"
abbreviation (input) IDXD_PERFRST_OFFSET :: nat where "IDXD_PERFRST_OFFSET \<equiv> 0x10"
abbreviation (input) IDXD_PERFFRZ_OFFSET :: nat where "IDXD_PERFFRZ_OFFSET \<equiv> 0x20"
abbreviation (input) IDXD_OVFSTATUS_OFFSET :: nat where "IDXD_OVFSTATUS_OFFSET \<equiv> 0x30"
abbreviation (input) IDXD_CNTRCFG_OFFSET :: nat where "IDXD_CNTRCFG_OFFSET \<equiv> 0x100"
abbreviation (input) IDXD_CNTRDATA_OFFSET :: nat where "IDXD_CNTRDATA_OFFSET \<equiv> 0x200"
abbreviation (input) IDXD_FLTCFG_OFFSET :: nat where "IDXD_FLTCFG_OFFSET \<equiv> 0x300"
abbreviation (input) CONFIG_RESET :: u32 where "CONFIG_RESET \<equiv> 1"
abbreviation (input) CNTR_RESET :: u32 where "CNTR_RESET \<equiv> 2"
abbreviation (input) COUNTER_FREEZE :: u32 where "COUNTER_FREEZE \<equiv> 0xFFFFFFFF"
abbreviation (input) COUNTER_UNFREEZE :: u32 where "COUNTER_UNFREEZE \<equiv> 0"
abbreviation (input) OVERFLOW_SIZE :: nat where "OVERFLOW_SIZE \<equiv> 32"
abbreviation (input) CNTRCFG_ENABLE :: u64 where "CNTRCFG_ENABLE \<equiv> 1"
abbreviation (input) CNTRCFG_IRQ_OVERFLOW :: u64 where "CNTRCFG_IRQ_OVERFLOW \<equiv> 2"
abbreviation (input) CNTRCFG_CATEGORY_SHIFT :: nat where "CNTRCFG_CATEGORY_SHIFT \<equiv> 8"
abbreviation (input) CNTRCFG_EVENT_SHIFT :: nat where "CNTRCFG_EVENT_SHIFT \<equiv> 32"
abbreviation (input) PERFMON_FILTERS_START :: nat where "PERFMON_FILTERS_START \<equiv> 2"
abbreviation (input) PERFMON_FILTERS_MAX :: nat where "PERFMON_FILTERS_MAX \<equiv> 5"

text \<open>Constants of \<^verbatim>\<open>linux/perf_event.h\<close>.\<close>

abbreviation (input) PERF_EF_START :: nat where "PERF_EF_START \<equiv> 1"
abbreviation (input) PERF_EF_UPDATE :: nat where "PERF_EF_UPDATE \<equiv> 4"
abbreviation (input) PERF_HES_STOPPED :: u32 where "PERF_HES_STOPPED \<equiv> 1"
abbreviation (input) PERF_HES_UPTODATE :: u32 where "PERF_HES_UPTODATE \<equiv> 2"
abbreviation (input) PERF_HES_ARCH :: u32 where "PERF_HES_ARCH \<equiv> 4"
abbreviation (input) PERF_EVENT_STATE_OFF :: int where "PERF_EVENT_STATE_OFF \<equiv> -1"

definition PERFMON_REG_OFFSET :: "idxd_device \<Rightarrow> nat \<Rightarrow> nat" where
  "PERFMON_REG_OFFSET d offset = unat (perfmon_offset d) + offset"

definition FLTCFG_REG :: "idxd_device \<Rightarrow> nat \<Rightarrow> nat \<Rightarrow> nat" where
  "FLTCFG_REG d cntr flt = PERFMON_REG_OFFSET d IDXD_FLTCFG_OFFSET + cntr * 32 + flt * 4"

definition CNTRCFG_REG :: "idxd_device \<Rightarrow> nat \<Rightarrow> nat" where
  "CNTRCFG_REG d cntr = PERFMON_REG_OFFSET d IDXD_CNTRCFG_OFFSET + cntr * 8"

definition CNTRDATA_REG :: "idxd_device \<Rightarrow> nat \<Rightarrow> nat" where
  "CNTRDATA_REG d cntr = PERFMON_REG_OFFSET d IDXD_CNTRDATA_OFFSET + cntr * 8"

definition upd_event :: "nat \<Rightarrow> (perf_event \<Rightarrow> perf_event) \<Rightarrow> perf_state \<Rightarrow> perf_state" where
  "upd_event e f s = s\<lparr>pf_event := (pf_event s)(e := f (pf_event s e))\<rparr>"

definition on_pf_dev :: "(idxd_device \<Rightarrow> idxd_device) \<Rightarrow> perf_state \<Rightarrow> perf_state" where
  "on_pf_dev f s = s\<lparr>pf_dev := f (pf_dev s)\<rparr>"

definition set_pmu :: "idxd_pmu \<Rightarrow> perf_state \<Rightarrow> perf_state" where
  "set_pmu p = on_pf_dev (\<lambda>d. d\<lparr>dev_pmu := Some p\<rparr>)"

subsection \<open>Collecting events and assigning counters\<close>

definition store_event ::
  "int \<Rightarrow> nat \<Rightarrow> idxd_pmu \<times> (nat \<Rightarrow> perf_event) \<Rightarrow> (idxd_pmu \<times> (nat \<Rightarrow> perf_event)) option" where
  "store_event n e = (\<lambda>(p, evs).
     if n < 0 \<or> int IDXD_PMU_EVENT_MAX \<le> n then None
     else Some (p\<lparr>event_list := (event_list p)[nat n := Some e]\<rparr>, evs(e := (evs e)\<lparr>hw_idx := n\<rparr>)))"

definition is_idxd_event :: "idxd_pmu \<Rightarrow> perf_event \<Rightarrow> bool" where
  "is_idxd_event p e \<longleftrightarrow> pmu_id p = ev_pmu e"

fun collect_siblings ::
  "int \<Rightarrow> nat list \<Rightarrow> int \<Rightarrow> idxd_pmu \<times> (nat \<Rightarrow> perf_event) \<Rightarrow> (int \<times> idxd_pmu \<times> (nat \<Rightarrow> perf_event)) option" where
  "collect_siblings max_count [] n s = Some (n, s)"
| "collect_siblings max_count (e # es) n s =
     (if \<not> is_idxd_event (fst s) (snd s e) \<or> ev_state (snd s e) \<le> PERF_EVENT_STATE_OFF
      then collect_siblings max_count es n s
      else if n \<ge> max_count then Some (- EINVAL, s)
      else case store_event n e s of None \<Rightarrow> None | Some s \<Rightarrow> collect_siblings max_count es (n + 1) s)"

definition perfmon_collect_events ::
  "nat \<Rightarrow> bool \<Rightarrow> idxd_pmu \<times> (nat \<Rightarrow> perf_event) \<Rightarrow> (int \<times> idxd_pmu \<times> (nat \<Rightarrow> perf_event)) option" where
  "perfmon_collect_events leader do_grp s =
     (let max_count = n_counters (fst s); n = n_events (fst s)
      in if n \<ge> max_count then Some (- EINVAL, s)
         else case (if is_idxd_event (fst s) (snd s leader)
                    then map_option (\<lambda>s. (n + 1, s)) (store_event n leader s) else Some (n, s)) of
             None \<Rightarrow> None
           | Some (n, s) \<Rightarrow>
               if \<not> do_grp then Some (n, s)
               else collect_siblings max_count (ev_siblings (snd s leader)) n s)"

definition perfmon_assign_event :: "idxd_pmu \<Rightarrow> int \<times> idxd_pmu" where
  "perfmon_assign_event p =
     (case find (\<lambda>i. i \<notin> used_mask p) [0..<IDXD_PMU_EVENT_MAX] of
        None \<Rightarrow> (- EINVAL, p)
      | Some i \<Rightarrow> (int i, p\<lparr>used_mask := insert i (used_mask p)\<rparr>))"

definition perfmon_assign_hw_event :: "nat \<Rightarrow> nat \<Rightarrow> perf_state \<Rightarrow> perf_state" where
  "perfmon_assign_hw_event e idx s =
     upd_event e (\<lambda>v. v\<lparr>hw_idx := int idx, hw_config_base := ioread64 (CNTRCFG_REG (pf_dev s) idx) (pf_dev s),
       hw_event_base := ioread64 (CNTRCFG_REG (pf_dev s) idx) (pf_dev s)\<rparr>) s"

text \<open>The fake monitor is zeroed memory at its own address \<open>a\<close>.\<close>

definition zero_pmu :: "nat \<Rightarrow> idxd_pmu" where
  "zero_pmu a = \<lparr>pmu_id = a, event_list = replicate IDXD_PMU_EVENT_MAX None, n_events = 0, used_mask = {},
     pmu_cpu = 0, n_counters = 0, counter_width = 0, n_event_categories = 0, per_counter_caps_supported = False,
     supported_event_categories = 0, supported_filters = 0, n_filters = 0\<rparr>"

fun assign_all :: "nat \<Rightarrow> idxd_pmu \<Rightarrow> int" where
  "assign_all 0 p = 0"
| "assign_all (Suc k) p = (let (idx, p) = perfmon_assign_event p in if idx < 0 then idx else assign_all k p)"

definition perfmon_validate_group :: "env \<Rightarrow> nat \<Rightarrow> idxd_pmu \<Rightarrow> nat \<Rightarrow> perf_state \<Rightarrow> (int \<times> perf_state) option" where
  "perfmon_validate_group E a pmu event s =
     (let leader = ev_leader (pf_event s event);
          (rc, d) = acquire E (D TmpBuf) (pf_dev s);
          s = s\<lparr>pf_dev := d\<rparr>
      in if rc < 0 then Some (- ENOMEM, s)
         else
           let fake = (zero_pmu a)\<lparr>n_counters := n_counters pmu\<rparr>;
               out = (\<lambda>ret evs. Some (ret, on_pf_dev (release (D TmpBuf)) (s\<lparr>pf_event := evs\<rparr>)))
           in case perfmon_collect_events leader True (fake, pf_event s) of
                None \<Rightarrow> None
              | Some (n, fake, evs) \<Rightarrow>
                  if n < 0 then out n evs
                  else case perfmon_collect_events event False (fake\<lparr>n_events := n\<rparr>, evs) of
                    None \<Rightarrow> None
                  | Some (n, fake, evs) \<Rightarrow> if n < 0 then out n evs else out (assign_all (nat n) fake) evs)"

definition perfmon_pmu_event_init :: "env \<Rightarrow> nat \<Rightarrow> nat \<Rightarrow> perf_state \<Rightarrow> (int \<times> perf_state) option" where
  "perfmon_pmu_event_init E a e s =
     (let s = upd_event e (\<lambda>v. v\<lparr>hw_idx := -1\<rparr>) s; v = pf_event s e
      in if ev_type v \<noteq> ev_pmu_type v then Some (- ENOENT, s)
         else if ev_sample_period v \<noteq> 0 then Some (- EINVAL, s)
         else if ev_cpu v < 0 then Some (- EINVAL, s)
         else case dev_pmu (pf_dev s) of
             None \<Rightarrow> Some (- EINVAL, s)
           | Some p \<Rightarrow>
               if ev_pmu v \<noteq> pmu_id p then Some (- EINVAL, s)
               else
                 let s = upd_event e (\<lambda>v. v\<lparr>hw_event_base := ioread64 (PERFMON_REG_OFFSET (pf_dev s) 0) (pf_dev s)\<rparr>) s;
                     s = upd_event e (\<lambda>v. v\<lparr>ev_cpu := pmu_cpu p\<rparr>) s;
                     s = upd_event e (\<lambda>v. v\<lparr>hw_config := ev_config v\<rparr>) s
                 in if ev_leader v \<noteq> e then perfmon_validate_group E a p e s else Some (0, s))"

subsection \<open>Counting\<close>

definition perfmon_pmu_read_counter :: "nat \<Rightarrow> perf_state \<Rightarrow> u64 option" where
  "perfmon_pmu_read_counter e s =
     (let cntr = hw_idx (pf_event s e)
      in if cntr < 0 then None else Some (ioread64 (CNTRDATA_REG (pf_dev s) (nat cntr)) (pf_dev s)))"

definition counter_delta :: "nat \<Rightarrow> u64 \<Rightarrow> u64 \<Rightarrow> u64" where
  "counter_delta shift new prev =
     (let n = push_bit shift new; p = push_bit shift prev in drop_bit shift (n - p))"

definition perfmon_pmu_event_update :: "nat \<Rightarrow> perf_state \<Rightarrow> perf_state option" where
  "perfmon_pmu_event_update e s =
     (case dev_pmu (pf_dev s) of None \<Rightarrow> None | Some p \<Rightarrow>
        let shift = 64 - counter_width p; prev = hw_prev (pf_event s e)
        in case perfmon_pmu_read_counter e s of None \<Rightarrow> None | Some new \<Rightarrow>
             if shift < 0 \<or> 64 \<le> shift then None
             else
               let s = upd_event e (\<lambda>v. v\<lparr>hw_prev := new\<rparr>) s;
                   delta = counter_delta (nat shift) new prev
               in Some (upd_event e (\<lambda>v. v\<lparr>ev_count := ev_count v + delta\<rparr>) s))"

text \<open>One overflowed counter.\<close>

definition overflow_step :: "env \<Rightarrow> nat \<Rightarrow> perf_state \<Rightarrow> perf_state option" where
  "overflow_step E i s =
     (case dev_pmu (pf_dev s) of None \<Rightarrow> None | Some p \<Rightarrow>
        case event_list p ! i of None \<Rightarrow> None | Some e \<Rightarrow>
          map_option (on_pf_dev (\<lambda>d. iowrite32 E (2 ^ i) (PERFMON_REG_OFFSET d IDXD_OVFSTATUS_OFFSET) d))
            (perfmon_pmu_event_update e s))"

text \<open>The failsafe \<^verbatim>\<open>max_loop\<close> is the first argument; the result includes the last status.\<close>

fun overflow_rounds :: "env \<Rightarrow> nat \<Rightarrow> nat \<Rightarrow> u32 \<Rightarrow> perf_state \<Rightarrow> (u32 \<times> perf_state) option" where
  "overflow_rounds E 0 n status s = Some (status, s)"
| "overflow_rounds E (Suc k) n status s =
     (if status = 0 then Some (status, s)
      else case foldo (overflow_step E) (filter (\<lambda>i. bit status i) [0..<n]) s of
        None \<Rightarrow> None
      | Some s \<Rightarrow> overflow_rounds E k n (ioread32 (PERFMON_REG_OFFSET (pf_dev s) IDXD_OVFSTATUS_OFFSET) (pf_dev s)) s)"

definition perfmon_counter_overflow :: "env \<Rightarrow> perf_state \<Rightarrow> (u32 \<times> perf_state) option" where
  "perfmon_counter_overflow E s =
     (case dev_pmu (pf_dev s) of None \<Rightarrow> None | Some p \<Rightarrow>
        overflow_rounds E OVERFLOW_SIZE (nat (min (n_counters p) (int OVERFLOW_SIZE)))
          (ioread32 (PERFMON_REG_OFFSET (pf_dev s) IDXD_OVFSTATUS_OFFSET) (pf_dev s)) s)"

definition perfmon_reset_config :: "env \<Rightarrow> idxd_device \<Rightarrow> idxd_device" where
  "perfmon_reset_config E d =
     (let d = iowrite32 E CONFIG_RESET (PERFMON_REG_OFFSET d IDXD_PERFRST_OFFSET) d;
          d = iowrite32 E 0 (PERFMON_REG_OFFSET d IDXD_OVFSTATUS_OFFSET) d
      in iowrite32 E 0 (PERFMON_REG_OFFSET d IDXD_PERFFRZ_OFFSET) d)"

definition perfmon_reset_counters :: "env \<Rightarrow> idxd_device \<Rightarrow> idxd_device" where
  "perfmon_reset_counters E d = iowrite32 E CNTR_RESET (PERFMON_REG_OFFSET d IDXD_PERFRST_OFFSET) d"

definition perfmon_reset :: "env \<Rightarrow> idxd_device \<Rightarrow> idxd_device" where
  "perfmon_reset E d = perfmon_reset_counters E (perfmon_reset_config E d)"

subsection \<open>Starting and stopping an event\<close>

definition write_filter :: "env \<Rightarrow> idxd_pmu \<Rightarrow> u64 \<Rightarrow> nat \<Rightarrow> nat \<times> string \<Rightarrow> idxd_device \<Rightarrow> idxd_device" where
  "write_filter E p cfg cntr = (\<lambda>(flt, fld) d.
     let v = ucast (getf filter_cfg fld cfg) :: u32
     in if v \<noteq> 0 \<and> bit (supported_filters p) flt then iowrite32 E v (FLTCFG_REG d cntr flt) d else d)"

definition perfmon_pmu_event_start :: "env \<Rightarrow> nat \<Rightarrow> perf_state \<Rightarrow> perf_state option" where
  "perfmon_pmu_event_start E e s =
     (case dev_pmu (pf_dev s) of None \<Rightarrow> None | Some p \<Rightarrow>
        let v = pf_event s e; event_cat = getf event_cfg ''event_cat'' (ev_config v);
            event_enc = getf event_cfg ''event_enc'' (ev_config v)
        in if hw_idx v < 0 then None
           else
             let cntr = nat (hw_idx v);
                 s = on_pf_dev (fold (write_filter E p (ev_config1 v) cntr)
                       [(0, ''wq''), (1, ''tc''), (2, ''pg_sz''), (3, ''xfer_sz''), (4, ''eng'')]) s;
                 cntrdata = ioread64 (CNTRDATA_REG (pf_dev s) cntr) (pf_dev s);
                 s = upd_event e (\<lambda>v. v\<lparr>hw_prev := cntrdata\<rparr>) s;
                 cntr_cfg = push_bit CNTRCFG_CATEGORY_SHIFT event_cat;
                 cntr_cfg = cntr_cfg OR push_bit CNTRCFG_EVENT_SHIFT event_enc;
                 cntr_cfg = cntr_cfg OR (CNTRCFG_IRQ_OVERFLOW OR CNTRCFG_ENABLE)
             in Some (on_pf_dev (\<lambda>d. iowrite64 E cntr_cfg (CNTRCFG_REG d cntr) d) s))"

text \<open>The first entry for the event is overwritten by its successors, one by one.\<close>

definition remove_event :: "nat \<Rightarrow> idxd_pmu \<Rightarrow> idxd_pmu" where
  "remove_event e p =
     (let l = event_list p; n = nat (n_events p)
      in case filter (\<lambda>i. l ! i = Some e) [0..<n] of
           [] \<Rightarrow> p
         | i # _ \<Rightarrow> p\<lparr>event_list := fold (\<lambda>j l. l[j - 1 := l ! j]) [i + 1..<n] l, n_events := n_events p - 1\<rparr>)"

definition perfmon_pmu_event_stop :: "env \<Rightarrow> nat \<Rightarrow> nat \<Rightarrow> perf_state \<Rightarrow> perf_state option" where
  "perfmon_pmu_event_stop E e mode s =
     (case dev_pmu (pf_dev s) of None \<Rightarrow> None | Some p \<Rightarrow>
        let cntr = hw_idx (pf_event s e); p = remove_event e p; s = set_pmu p s
        in if cntr < 0 then None
           else
             let c = nat cntr;
                 cntr_cfg = ioread64 (CNTRCFG_REG (pf_dev s) c) (pf_dev s);
                 cntr_cfg = cntr_cfg AND NOT CNTRCFG_ENABLE;
                 s = on_pf_dev (\<lambda>d. iowrite64 E cntr_cfg (CNTRCFG_REG d c) d) s
             in case (if mode = PERF_EF_UPDATE then perfmon_pmu_event_update e s else Some s) of
                  None \<Rightarrow> None
                | Some s \<Rightarrow>
                    let s = upd_event e (\<lambda>v. v\<lparr>hw_idx := -1\<rparr>) s
                    in Some (set_pmu (p\<lparr>used_mask := used_mask p - {c}\<rparr>) s))"

definition perfmon_pmu_event_del :: "env \<Rightarrow> nat \<Rightarrow> nat \<Rightarrow> perf_state \<Rightarrow> perf_state option" where
  "perfmon_pmu_event_del E e mode s = perfmon_pmu_event_stop E e PERF_EF_UPDATE s"

definition perfmon_pmu_event_add :: "env \<Rightarrow> nat \<Rightarrow> nat \<Rightarrow> perf_state \<Rightarrow> (int \<times> perf_state) option" where
  "perfmon_pmu_event_add E e flags s =
     (case dev_pmu (pf_dev s) of None \<Rightarrow> None | Some p \<Rightarrow>
        case perfmon_collect_events e False (p, pf_event s) of
          None \<Rightarrow> None
        | Some (n, p, evs) \<Rightarrow>
            let s = set_pmu p (s\<lparr>pf_event := evs\<rparr>)
            in if n < 0 then Some (n, s)
               else
                 let start = odd flags;
                     s = upd_event e (\<lambda>v. v\<lparr>hw_state := PERF_HES_UPTODATE OR PERF_HES_STOPPED\<rparr>) s;
                     s = (if \<not> start then upd_event e (\<lambda>v. v\<lparr>hw_state := hw_state v OR PERF_HES_ARCH\<rparr>) s else s);
                     (idx, p) = perfmon_assign_event p
                 in if idx < 0 then Some (idx, s)
                    else
                      let s = perfmon_assign_hw_event e (nat idx) (set_pmu p s)
                      in map_option (\<lambda>s. (0, set_pmu (p\<lparr>n_events := n\<rparr>) s))
                           (if start then perfmon_pmu_event_start E e s else Some s))"

definition perfmon_pmu_enable :: "env \<Rightarrow> idxd_device \<Rightarrow> idxd_device" where
  "perfmon_pmu_enable E d = iowrite32 E COUNTER_UNFREEZE (PERFMON_REG_OFFSET d IDXD_PERFFRZ_OFFSET) d"

definition perfmon_pmu_disable :: "env \<Rightarrow> idxd_device \<Rightarrow> idxd_device" where
  "perfmon_pmu_disable E d = iowrite32 E COUNTER_FREEZE (PERFMON_REG_OFFSET d IDXD_PERFFRZ_OFFSET) d"

subsection \<open>The monitor of a device\<close>

text \<open>The \<^verbatim>\<open>format\<close> files, ended by NULL, shared by all devices.\<close>

definition perfmon_format_attrs :: "string option list" where
  "perfmon_format_attrs = [Some ''event_category'', Some ''event'', Some ''filter_wq'', Some ''filter_tc'',
     Some ''filter_pgsz'', Some ''filter_sz'', Some ''filter_eng'', None]"

definition skip_filter :: "nat \<Rightarrow> string option list \<Rightarrow> string option list" where
  "skip_filter i l =
     fold (\<lambda>j l. l[PERFMON_FILTERS_START + j := l ! (PERFMON_FILTERS_START + j + 1)]) [i..<PERFMON_FILTERS_MAX] l"

definition idxd_pmu_init :: "idxd_pmu \<Rightarrow> string option list \<Rightarrow> string option list" where
  "idxd_pmu_init p l =
     fold (\<lambda>i l. if \<not> bit (supported_filters p) i then skip_filter i l else l) [0..<PERFMON_FILTERS_MAX] l"

definition perfmon_pmu_remove :: "perf_state \<Rightarrow> perf_state" where
  "perfmon_pmu_remove s =
     (case dev_pmu (pf_dev s) of None \<Rightarrow> s | Some p \<Rightarrow>
        on_pf_dev (\<lambda>d. (release (M Pmu) (release (M PmuReg) (release (M CpuhpInst) d)))\<lparr>dev_pmu := None\<rparr>) s)"

definition perf_event_cpu_online :: "nat \<Rightarrow> perf_state \<Rightarrow> (int \<times> perf_state) option" where
  "perf_event_cpu_online cpu s =
     (if pf_mask s = {}
      then case dev_pmu (pf_dev s) of None \<Rightarrow> None
           | Some p \<Rightarrow> Some (0, set_pmu (p\<lparr>pmu_cpu := int cpu\<rparr>) (s\<lparr>pf_mask := insert cpu (pf_mask s)\<rparr>))
      else Some (0, s))"

text \<open>\<open>any\<close> is the other online CPU that the kernel picks, if there is one.\<close>

definition perf_event_cpu_offline :: "nat \<Rightarrow> nat option \<Rightarrow> perf_state \<Rightarrow> int \<times> perf_state" where
  "perf_event_cpu_offline cpu any s =
     (if cpu \<notin> pf_mask s then (0, s)
      else
        let s = s\<lparr>pf_mask := pf_mask s - {cpu}\<rparr>;
            (target, s) = (case any of Some t \<Rightarrow> (int t, s\<lparr>pf_mask := insert t (pf_mask s)\<rparr>) | None \<Rightarrow> (-1, s))
        in (0, on_pf_dev (notify (PmuMigrate cpu target)) s))"

text \<open>
  \<open>a\<close> is the address of the new monitor and \<open>online\<close> are the CPUs online, each of which the
  registration with the hotplug core reports. \<^verbatim>\<open>sprintf\<close> returns the length of the name, and the
  driver's type is one of the two.
\<close>

definition pmu_name :: "idxd_device \<Rightarrow> string" where
  "pmu_name d = (case drv_type (drv_data d) of IDXD_TYPE_DSA \<Rightarrow> ''dsa'' | IDXD_TYPE_IAX \<Rightarrow> ''iax'') @ fmt_d (dev_id d)"

definition hweight8 :: "u64 \<Rightarrow> int" where
  "hweight8 w = int (length (filter (\<lambda>i. bit w i) [0..<8]))"

definition perfcap_usable :: "u64 \<Rightarrow> bool" where
  "perfcap_usable c \<longleftrightarrow>
     getf idxd_perfcap ''num_perf_counter'' c \<noteq> 0 \<and> getf idxd_perfcap ''counter_width'' c \<noteq> 0 \<and>
     getf idxd_perfcap ''overflow_interrupt'' c \<noteq> 0 \<and> getf idxd_perfcap ''counter_freeze'' c \<noteq> 0 \<and>
     getf idxd_perfcap ''num_event_category'' c \<noteq> 0 \<and> getf idxd_perfcap ''cap_per_counter'' c = 0"

definition pmu_of_cap :: "u64 \<Rightarrow> idxd_pmu \<Rightarrow> idxd_pmu" where
  "pmu_of_cap c p =
     (let p = p\<lparr>n_event_categories := uint (getf idxd_perfcap ''num_event_category'' c),
                supported_event_categories := getf idxd_perfcap ''global_event_category'' c,
                per_counter_caps_supported := getf idxd_perfcap ''cap_per_counter'' c \<noteq> 0,
                supported_filters := getf idxd_perfcap ''filter'' c\<rparr>;
          p = (if getf idxd_perfcap ''filter'' c \<noteq> 0 then p\<lparr>n_filters := hweight8 (getf idxd_perfcap ''filter'' c)\<rparr> else p)
      in p\<lparr>n_counters := uint (getf idxd_perfcap ''num_perf_counter'' c),
           counter_width := uint (getf idxd_perfcap ''counter_width'' c)\<rparr>)"

definition perfmon_pmu_init :: "env \<Rightarrow> nat \<Rightarrow> nat list \<Rightarrow> perf_state \<Rightarrow> (int \<times> perf_state) option" where
  "perfmon_pmu_init E a online s =
     (if \<not> pf_set_up s then Some (- ENODEV, s)
      else if perfmon_offset (pf_dev s) = 0 then Some (- ENODEV, s)
      else
        let (rc, d) = acquire E (M Pmu) (pf_dev s); s = s\<lparr>pf_dev := d\<rparr>
        in if rc < 0 then Some (- ENOMEM, s)
           else
             let s = set_pmu (zero_pmu a) s;
                 free = (\<lambda>rc s. Some (rc, on_pf_dev (\<lambda>d. (release (M Pmu) d)\<lparr>dev_pmu := None\<rparr>) s));
                 rc = int (length (pmu_name (pf_dev s)));
                 s = on_pf_dev (perfmon_reset E) s;
                 perfcap = ioread64 (PERFMON_REG_OFFSET (pf_dev s) IDXD_PERFCAP_OFFSET) (pf_dev s)
             in if \<not> perfcap_usable perfcap then free rc s
                else
                  let p = pmu_of_cap perfcap (zero_pmu a);
                      s = set_pmu p s;
                      s = s\<lparr>pf_attrs := idxd_pmu_init p (pf_attrs s)\<rparr>;
                      (rc, d) = acquire E (M PmuReg) (pf_dev s);
                      s = s\<lparr>pf_dev := d\<rparr>
                  in if rc < 0 then free rc s
                     else
                       let (rc, d) = acquire E (M CpuhpInst) (pf_dev s); s = s\<lparr>pf_dev := d\<rparr>
                       in if rc < 0 then free rc (on_pf_dev (release (M PmuReg)) s)
                          else map_option (\<lambda>s. (0, s))
                                 (foldo (\<lambda>cpu s. map_option snd (perf_event_cpu_online cpu s)) online s))"

text \<open>Loading and unloading of the module.\<close>

definition perfmon_init :: "env \<Rightarrow> perf_state \<Rightarrow> perf_state" where
  "perfmon_init E s =
     (let (rc, d) = acquire E (M Cpuhp) (pf_dev s); s = s\<lparr>pf_dev := d\<rparr>
      in if rc < 0 then s else s\<lparr>pf_set_up := True\<rparr>)"

definition perfmon_exit :: "perf_state \<Rightarrow> perf_state" where
  "perfmon_exit s = (if pf_set_up s then on_pf_dev (release (M Cpuhp)) s else s)"

subsection \<open>Counting is exact modulo the width of the counter\<close>

lemma take_bit_diff_word:
  fixes x y :: u64
  shows "take_bit w (x - y) = word_of_int ((uint x - uint y) mod 2 ^ w)"
proof -
  have "x - y = of_int (uint x - uint y)" by simp
  then have "take_bit w (x - y) = take_bit w (of_int (uint x - uint y) :: u64)" by simp
  also have "\<dots> = of_int (take_bit w (uint x - uint y))" by (rule take_bit_of_int)
  finally show ?thesis by (simp only: take_bit_eq_mod)
qed

lemma counter_delta_eq: "n < 64 \<Longrightarrow> counter_delta n new prev = take_bit (64 - n) (new - prev)"
proof -
  assume n: "n < 64"
  have 1: "push_bit n new - push_bit n prev = push_bit n (new - prev)"
    by (simp add: push_bit_eq_mult algebra_simps)
  show ?thesis unfolding counter_delta_def Let_def 1
    by (rule bit_word_eqI) (use n in \<open>auto simp: bit_simps\<close>)
qed

text \<open>
  C26: \<^verbatim>\<open>perfmon_pmu_event_update\<close> adds to the count of the event exactly the number of steps the
  counter made since the last reading, modulo its width: one wrap of the counter between two
  readings is counted correctly, for every width the capability register can give up to 64. The
  previous reading becomes the new one and no other event changes.
\<close>

theorem event_update_delta:
  assumes "dev_pmu (pf_dev s) = Some p" "0 < counter_width p" "counter_width p \<le> 64"
    "0 \<le> hw_idx (pf_event s e)"
  shows "\<exists>s' new. perfmon_pmu_event_update e s = Some s' \<and>
     new = ioread64 (CNTRDATA_REG (pf_dev s) (nat (hw_idx (pf_event s e)))) (pf_dev s) \<and>
     ev_count (pf_event s' e) =
       ev_count (pf_event s e) + word_of_int ((uint new - uint (hw_prev (pf_event s e))) mod 2 ^ nat (counter_width p)) \<and>
     hw_prev (pf_event s' e) = new \<and> pf_dev s' = pf_dev s \<and> (\<forall>f. f \<noteq> e \<longrightarrow> pf_event s' f = pf_event s f)"
proof -
  let ?new = "ioread64 (CNTRDATA_REG (pf_dev s) (nat (hw_idx (pf_event s e)))) (pf_dev s)"
  have r: "perfmon_pmu_read_counter e s = Some ?new"
    using assms(4) by (simp add: perfmon_pmu_read_counter_def Let_def)
  have n: "nat (64 - counter_width p) < 64" "64 - nat (64 - counter_width p) = nat (counter_width p)"
    using assms(2,3) by auto
  have "counter_delta (nat (64 - counter_width p)) ?new (hw_prev (pf_event s e)) =
      word_of_int ((uint ?new - uint (hw_prev (pf_event s e))) mod 2 ^ nat (counter_width p))"
    unfolding counter_delta_eq [OF n(1)] n(2) by (rule take_bit_diff_word)
  then show ?thesis
    using assms by (auto simp: perfmon_pmu_event_update_def Let_def r upd_event_def)
qed

subsection \<open>Validation of a group\<close>

lemma collect_no_siblings:
  "\<forall>e \<in> set es. \<not> is_idxd_event (fst s) (snd s e) \<Longrightarrow> collect_siblings m es n s = Some (n, s)"
  by (induction es) auto

text \<open>
  the fake monitor of \<^verbatim>\<open>perfmon_validate_group\<close> lies at its own address, which is the monitor of
  no event, so no event is ever collected or assigned a counter: whatever the number of events of
  the group, it is accepted.
\<close>

theorem validate_group_accepts_all:
  assumes "0 \<le> fst (acquire E (D TmpBuf) (pf_dev s))" "0 < n_counters p"
    "\<forall>e. ev_pmu (pf_event s e) \<noteq> a"
  shows "\<exists>s'. perfmon_validate_group E a p e s = Some (0, s') \<and> pf_event s' = pf_event s"
proof -
  define fake where "fake = (zero_pmu a)\<lparr>n_counters := n_counters p\<rparr>"
  have f: "n_counters fake = n_counters p" "n_events fake = 0" "pmu_id fake = a"
    by (simp_all add: fake_def zero_pmu_def)
  then have n: "fake\<lparr>n_events := 0\<rparr> = fake" by simp
  have "\<not> is_idxd_event fake (pf_event s e)" for e
    using assms(3) f by (auto simp: is_idxd_event_def)
  then have 1: "perfmon_collect_events l g (fake, pf_event s) = Some (0, fake, pf_event s)" for l g
    using assms(2) f by (simp add: perfmon_collect_events_def Let_def collect_no_siblings)
  obtain rc d where ac: "acquire E (D TmpBuf) (pf_dev s) = (rc, d)" by force
  show ?thesis
    using assms(1) unfolding perfmon_validate_group_def Let_def fake_def [symmetric] ac
    by (simp add: 1 n on_pf_dev_def)
qed

subsection \<open>Filter files\<close>

definition shown :: "string option list \<Rightarrow> string list" where
  "shown l = map the (takeWhile (\<lambda>x. x \<noteq> None) l)"

definition filter_files :: "string list" where
  "filter_files = [''filter_wq'', ''filter_tc'', ''filter_pgsz'', ''filter_sz'', ''filter_eng'']"

text \<open>
  \<^verbatim>\<open>idxd_pmu_init\<close> removes the files of the filters the device lacks by position, but every
  removal moves the rest down: the files left are those of the supported filters exactly when the
  device lacks at most one of the five.
\<close>

theorem format_files_correct_iff:
  "shown (idxd_pmu_init p perfmon_format_attrs) =
     [''event_category'', ''event''] @ map (\<lambda>i. filter_files ! i) (filter (bit (supported_filters p)) [0..<5]) \<longleftrightarrow>
   length (filter (\<lambda>i. \<not> bit (supported_filters p) i) [0..<5]) \<le> 1"
proof -
  have u: "[0..<5] = [0, 1, 2, 3, 4::nat]" by (simp add: upt_rec)
  have k: "skip_filter 0 l = fold (\<lambda>j l. l[2 + j := l ! (2 + j + 1)]) [0, 1, 2, 3, 4] l"
    "skip_filter 1 l = fold (\<lambda>j l. l[2 + j := l ! (2 + j + 1)]) [1, 2, 3, 4] l"
    "skip_filter (Suc 0) l = fold (\<lambda>j l. l[2 + j := l ! (2 + j + 1)]) [1, 2, 3, 4] l"
    "skip_filter 2 l = fold (\<lambda>j l. l[2 + j := l ! (2 + j + 1)]) [2, 3, 4] l"
    "skip_filter 3 l = fold (\<lambda>j l. l[2 + j := l ! (2 + j + 1)]) [3, 4] l"
    "skip_filter 4 l = fold (\<lambda>j l. l[2 + j := l ! (2 + j + 1)]) [4] l" for l
    by (simp_all add: skip_filter_def upt_rec eval_nat_numeral)
  show ?thesis
    unfolding idxd_pmu_init_def u perfmon_format_attrs_def
    by (cases "bit (supported_filters p) 0"; cases "bit (supported_filters p) 1"; cases "bit (supported_filters p) 2";
        cases "bit (supported_filters p) 3"; cases "bit (supported_filters p) 4")
      (simp_all add: k shown_def filter_files_def)
qed

subsection \<open>Every listed event has a counter of its own\<close>

definition hwi :: "perf_state \<Rightarrow> nat \<Rightarrow> int" where
  "hwi s = (\<lambda>e. hw_idx (pf_event s e))"

definition listed :: "idxd_pmu \<Rightarrow> nat option list" where
  "listed p = take (nat (n_events p)) (event_list p)"

definition counters_ok :: "idxd_pmu \<Rightarrow> (nat \<Rightarrow> int) \<Rightarrow> bool" where
  "counters_ok p hw \<longleftrightarrow>
     length (event_list p) = 64 \<and> 0 \<le> n_events p \<and> n_events p \<le> n_counters p \<and> n_counters p \<le> 63 \<and>
     0 < counter_width p \<and> counter_width p \<le> 64 \<and>
     (\<exists>es. listed p = map Some es \<and> distinct (map hw es) \<and> (\<forall>e \<in> set es. 0 \<le> hw e \<and> hw e < n_counters p) \<and>
        used_mask p = (\<lambda>e. nat (hw e)) ` set es)"

definition perf_ok :: "perf_state \<Rightarrow> bool" where
  "perf_ok s \<longleftrightarrow> (\<exists>p. dev_pmu (pf_dev s) = Some p \<and> counters_ok p (hwi s))"

lemma dev_pmu_set [simp]: "dev_pmu (pf_dev (set_pmu p s)) = Some p" "pf_event (set_pmu p s) = pf_event s"
  by (simp_all add: set_pmu_def on_pf_dev_def)

lemma upd_event_frame [simp]: "pf_dev (upd_event e f s) = pf_dev s"
  by (simp add: upd_event_def)

lemma hwi_set [simp]: "hwi (set_pmu p s) = hwi s" "hwi (on_pf_dev f s) = hwi s" "hwi (s\<lparr>pf_dev := d\<rparr>) = hwi s"
  by (simp_all add: hwi_def set_pmu_def on_pf_dev_def)

lemma hwi_upd: "(\<And>v. hw_idx (f v) = hw_idx v) \<Longrightarrow> hwi (upd_event e f s) = hwi s"
  by (auto simp: hwi_def upd_event_def)

lemma hwi_same [simp]:
  "hwi (upd_event e (\<lambda>v. v\<lparr>hw_prev := x\<rparr>) s) = hwi s"
  "hwi (upd_event e (\<lambda>v. v\<lparr>ev_count := ev_count v + c\<rparr>) s) = hwi s"
  "hwi (upd_event e (\<lambda>v. v\<lparr>hw_state := y\<rparr>) s) = hwi s"
  "hwi (upd_event e (\<lambda>v. v\<lparr>hw_state := hw_state v OR z\<rparr>) s) = hwi s"
  by (rule hwi_upd, simp)+

lemma hwi_idx [simp]: "hwi (upd_event e (\<lambda>v. v\<lparr>hw_idx := x\<rparr>) s) = (hwi s)(e := x)"
  by (auto simp: hwi_def upd_event_def)

lemma on_dev_pmu: "(\<And>d. dev_pmu (f d) = dev_pmu d) \<Longrightarrow> dev_pmu (pf_dev (on_pf_dev f s)) = dev_pmu (pf_dev s)"
  by (simp add: on_pf_dev_def)

lemma write_filter_pmu [simp]: "dev_pmu (write_filter E p cfg c x d) = dev_pmu d"
  by (cases x) (simp add: write_filter_def Let_def)

lemma update_frame:
  "perfmon_pmu_event_update e s = Some s' \<Longrightarrow> pf_dev s' = pf_dev s \<and> hwi s' = hwi s"
  by (auto simp: perfmon_pmu_event_update_def Let_def split: option.splits if_splits)

lemma update_total:
  assumes "dev_pmu (pf_dev s) = Some p" "0 < counter_width p" "counter_width p \<le> 64" "0 \<le> hwi s e"
  shows "\<exists>s'. perfmon_pmu_event_update e s = Some s'"
  using assms by (auto simp: perfmon_pmu_event_update_def perfmon_pmu_read_counter_def Let_def hwi_def)

lemma start_total:
  assumes "dev_pmu (pf_dev s) = Some p" "0 \<le> hwi s e"
  shows "\<exists>s'. perfmon_pmu_event_start E e s = Some s' \<and> dev_pmu (pf_dev s') = Some p \<and> hwi s' = hwi s"
  using assms
  by (auto simp: perfmon_pmu_event_start_def Let_def on_pf_dev_def upd_event_def hwi_def)

lemma overflow_step_frame:
  "overflow_step E i s = Some s' \<Longrightarrow> dev_pmu (pf_dev s') = dev_pmu (pf_dev s) \<and> hwi s' = hwi s"
  by (auto simp: overflow_step_def on_pf_dev_def dest: update_frame split: option.splits)

lemma foldo_overflow_frame:
  "foldo (overflow_step E) is s = Some s' \<Longrightarrow> dev_pmu (pf_dev s') = dev_pmu (pf_dev s) \<and> hwi s' = hwi s"
  by (induction "is" arbitrary: s) (auto dest: overflow_step_frame split: option.splits)

lemma overflow_rounds_frame:
  "overflow_rounds E k n st s = Some (st', s') \<Longrightarrow> dev_pmu (pf_dev s') = dev_pmu (pf_dev s) \<and> hwi s' = hwi s"
  by (induction k arbitrary: st s) (auto dest: foldo_overflow_frame split: option.splits if_splits)

lemma overflow_frame:
  "perfmon_counter_overflow E s = Some (st, s') \<Longrightarrow> dev_pmu (pf_dev s') = dev_pmu (pf_dev s) \<and> hwi s' = hwi s"
  by (auto simp: perfmon_counter_overflow_def dest: overflow_rounds_frame split: option.splits)

text \<open>The first free counter.\<close>

lemma find_free:
  assumes "U \<subseteq> {..<n}" "card U < n" "n \<le> 64"
  obtains i where "find (\<lambda>i. i \<notin> U) [0..<64] = Some i" "i \<notin> U" "i < n"
proof -
  have "U \<noteq> {..<n}" using assms(2) by auto
  then obtain j where j: "j < n" "j \<notin> U" using assms(1) by auto
  have "find (\<lambda>i. i \<notin> U) [0..<64] \<noteq> None"
    unfolding find_None_iff using j assms(3) by force
  then obtain i where i: "find (\<lambda>i. i \<notin> U) [0..<64] = Some i" by blast
  then obtain k where k: "k < 64" "k \<notin> U" "i = k" "\<forall>m < k. m \<in> U"
    by (auto simp: find_Some_iff)
  then have "i \<le> j" using j(2) by (meson not_le)
  with j(1) have "i < n" by simp
  with i k show ?thesis by (intro that [of i]) auto
qed

lemma shift_down:
  assumes "k < n" "n \<le> length l"
  shows "length (fold (\<lambda>j l. l[j - 1 := l ! j]) [k + 1..<n] l) = length l \<and>
    (\<forall>j < length l. fold (\<lambda>j l. l[j - 1 := l ! j]) [k + 1..<n] l ! j = (if k \<le> j \<and> j < n - 1 then l ! (j + 1) else l ! j))"
  using assms
proof (induction n)
  case 0
  then show ?case by simp
next
  case (Suc n)
  show ?case
  proof (cases "k = n")
    case True
    then show ?thesis by (auto simp: not_less)
  next
    case False
    then have kn: "k < n" and u: "[k + 1..<Suc n] = [k + 1..<n] @ [n]" using Suc.prems by auto
    have ih: "length (fold (\<lambda>j l. l[j - 1 := l ! j]) [k + 1..<n] l) = length l"
      "\<forall>j < length l. fold (\<lambda>j l. l[j - 1 := l ! j]) [k + 1..<n] l ! j = (if k \<le> j \<and> j < n - 1 then l ! (j + 1) else l ! j)"
      using Suc.IH kn Suc.prems by auto
    then show ?thesis unfolding u using kn Suc.prems by (auto simp: nth_list_update)
  qed
qed

lemma filter_eq_one: "k < n \<Longrightarrow> filter (\<lambda>i. i = k) [0..<n] = [k]"
  by (induction n) (auto simp: less_Suc_eq filter_empty_conv)

lemma remove_listed:
  assumes "length (event_list p) = 64" "0 \<le> n_events p" "n_events p \<le> 64" "listed p = map Some es" "distinct es" "k < length es"
  obtains l where "remove_event (es ! k) p = p\<lparr>event_list := l, n_events := n_events p - 1\<rparr>" "length l = 64"
    "\<forall>j < 64. l ! j = (if k \<le> j \<and> j < nat (n_events p) - 1 then event_list p ! (j + 1) else event_list p ! j)"
    "take (nat (n_events p - 1)) l = map Some (take k es @ drop (Suc k) es)"
proof -
  let ?n = "nat (n_events p)" let ?l = "event_list p"
  have n: "length es = ?n" using assms(1-4) by (metis length_map length_take min.absorb2 nat_le_iff listed_def of_nat_numeral)
  have nth: "?l ! i = Some (es ! i)" if "i < ?n" for i
    using assms(4) that n by (metis length_map listed_def nth_map nth_take)
  have "filter (\<lambda>i. ?l ! i = Some (es ! k)) [0..<?n] = [k]"
  proof -
    have "filter (\<lambda>i. ?l ! i = Some (es ! k)) [0..<?n] = filter (\<lambda>i. i = k) [0..<?n]"
      by (rule filter_cong) (use nth n assms(5,6) in \<open>auto simp: nth_eq_iff_index_eq\<close>)
    also have "\<dots> = [k]" using assms(6) n by (intro filter_eq_one) simp
    finally show ?thesis .
  qed
  then have r: "remove_event (es ! k) p =
      p\<lparr>event_list := fold (\<lambda>j l. l[j - 1 := l ! j]) [k + 1..<?n] ?l, n_events := n_events p - 1\<rparr>"
    by (simp add: remove_event_def Let_def)
  let ?f = "fold (\<lambda>j l. l[j - 1 := l ! j]) [k + 1..<?n] ?l"
  have f: "length ?f = 64" "\<forall>j < 64. ?f ! j = (if k \<le> j \<and> j < ?n - 1 then ?l ! (j + 1) else ?l ! j)"
    using shift_down [of k ?n ?l] assms(1,3,6) n by auto
  have "take (nat (n_events p - 1)) ?f = map Some (take k es @ drop (Suc k) es)"
  proof (rule nth_equalityI)
    show "length (take (nat (n_events p - 1)) ?f) = length (map Some (take k es @ drop (Suc k) es))"
      using f(1) assms(3,6) n by auto
  next
    fix i assume "i < length (take (nat (n_events p - 1)) ?f)"
    then have i: "i < ?n - 1" "i < 64" using f(1) by auto
    then show "take (nat (n_events p - 1)) ?f ! i = map Some (take k es @ drop (Suc k) es) ! i"
      using f(2) n nth assms(6) by (auto simp: nth_append min_def)
  qed
  with r f show ?thesis by (rule that)
qed

lemma add_event:
  assumes p: "dev_pmu (pf_dev s) = Some p" and ok: "counters_ok p (hwi s)"
    and e: "Some e \<notin> set (listed p)" "ev_pmu (pf_event s e) = pmu_id p"
  shows "n_events p = n_counters p \<and> perfmon_pmu_event_add E e flags s = Some (- EINVAL, s) \<or>
    (\<exists>i s'. n_events p < n_counters p \<and> i \<notin> used_mask p \<and> int i < n_counters p \<and>
       perfmon_pmu_event_add E e flags s = Some (0, s') \<and> hwi s' = (hwi s)(e := int i) \<and>
       dev_pmu (pf_dev s') = Some (p\<lparr>event_list := (event_list p)[nat (n_events p) := Some e],
         used_mask := insert i (used_mask p), n_events := n_events p + 1\<rparr>))"
proof (cases "n_events p = n_counters p")
  case True
  then show ?thesis using p
    by (auto simp: perfmon_pmu_event_add_def perfmon_collect_events_def Let_def set_pmu_def on_pf_dev_def)
next
  case False
  obtain es where es: "listed p = map Some es" "distinct (map (hwi s) es)"
    "\<forall>e \<in> set es. 0 \<le> hwi s e \<and> hwi s e < n_counters p" "used_mask p = (\<lambda>e. nat (hwi s e)) ` set es"
    using ok by (auto simp: counters_ok_def)
  have c: "0 \<le> n_events p" "n_events p < n_counters p" "n_counters p \<le> 63" "length (event_list p) = 64"
    using ok False by (auto simp: counters_ok_def)
  then have "length es = nat (n_events p)"
    using arg_cong [OF es(1), of length] by (simp add: listed_def)
  then have "card (used_mask p) < nat (n_counters p)"
    using c(1,2) card_image_le [of "set es" "\<lambda>e. nat (hwi s e)"] card_length [of es] unfolding es(4) by auto
  moreover have "used_mask p \<subseteq> {..<nat (n_counters p)}" using es(3,4) by auto
  ultimately obtain i where i: "find (\<lambda>i. i \<notin> used_mask p) [0..<64] = Some i" "i \<notin> used_mask p" "i < nat (n_counters p)"
    using c(3) by (auto elim: find_free)
  define n where "n = n_events p"
  let ?p = "p\<lparr>event_list := (event_list p)[nat n := Some e]\<rparr>"
  let ?evs = "(pf_event s)(e := (pf_event s e)\<lparr>hw_idx := n\<rparr>)"
  have col: "perfmon_collect_events e False (p, pf_event s) = Some (n + 1, ?p, ?evs)"
    using c e(2) by (simp add: perfmon_collect_events_def is_idxd_event_def store_event_def n_def Let_def)
  have asg: "perfmon_assign_event ?p = (int i, ?p\<lparr>used_mask := insert i (used_mask p)\<rparr>)"
    using i(1) by (simp add: perfmon_assign_event_def)
  define s1 where "s1 = upd_event e (\<lambda>v. v\<lparr>hw_state := PERF_HES_UPTODATE OR PERF_HES_STOPPED\<rparr>) (set_pmu ?p (s\<lparr>pf_event := ?evs\<rparr>))"
  define s2 where "s2 = (if \<not> odd flags then upd_event e (\<lambda>v. v\<lparr>hw_state := hw_state v OR PERF_HES_ARCH\<rparr>) s1 else s1)"
  define s3 where "s3 = perfmon_assign_hw_event e (nat (int i)) (set_pmu (?p\<lparr>used_mask := insert i (used_mask p)\<rparr>) s2)"
  have h2: "hwi s2 = (hwi s)(e := n)" by (auto simp: s2_def s1_def) (auto simp: hwi_def)
  have d3: "dev_pmu (pf_dev s3) = Some (?p\<lparr>used_mask := insert i (used_mask p)\<rparr>)"
    by (simp add: s3_def perfmon_assign_hw_event_def)
  have h3: "hwi s3 = (hwi s)(e := int i)"
    using h2 by (auto simp: s3_def perfmon_assign_hw_event_def hwi_def upd_event_def fun_eq_iff split: if_splits)
  obtain s4 where s4: "(if odd flags then perfmon_pmu_event_start E e s3 else Some s3) = Some s4"
    "dev_pmu (pf_dev s4) = Some (?p\<lparr>used_mask := insert i (used_mask p)\<rparr>)" "hwi s4 = hwi s3"
    using start_total [OF d3, of e E] h3 d3 by (cases "odd flags") (fastforce, simp)
  have "perfmon_pmu_event_add E e flags s =
      map_option (\<lambda>s. (0, set_pmu (?p\<lparr>used_mask := insert i (used_mask p), n_events := n + 1\<rparr>) s))
        (if odd flags then perfmon_pmu_event_start E e s3 else Some s3)"
    unfolding perfmon_pmu_event_add_def p Let_def option.case col prod.case
    using c(1) by (simp add: s3_def s2_def s1_def asg [unfolded n_def] n_def)
  then show ?thesis using s4 h3 i c(2) by (auto simp: n_def)
qed

lemma del_event:
  assumes p: "dev_pmu (pf_dev s) = Some p" and ok: "counters_ok p (hwi s)"
    and es: "listed p = map Some es" "distinct es" "k < length es"
  shows "\<exists>l s'. perfmon_pmu_event_del E (es ! k) mode s = Some s' \<and> hwi s' = (hwi s)(es ! k := -1) \<and>
      dev_pmu (pf_dev s') = Some (p\<lparr>event_list := l, n_events := n_events p - 1,
        used_mask := used_mask p - {nat (hwi s (es ! k))}\<rparr>) \<and> length l = 64 \<and>
      (\<forall>j < 64. l ! j = (if k \<le> j \<and> j < nat (n_events p) - 1 then event_list p ! (j + 1) else event_list p ! j)) \<and>
      take (nat (n_events p - 1)) l = map Some (take k es @ drop (Suc k) es)"
proof -
  let ?e = "es ! k"
  have c: "length (event_list p) = 64" "0 \<le> n_events p" "n_events p \<le> 64" "0 < counter_width p" "counter_width p \<le> 64"
    using ok by (auto simp: counters_ok_def)
  have pos: "0 \<le> hwi s ?e"
    using ok es(1,3) by (auto simp: counters_ok_def inj_map_eq_map)
  obtain l where l: "remove_event ?e p = p\<lparr>event_list := l, n_events := n_events p - 1\<rparr>" "length l = 64"
    "\<forall>j < 64. l ! j = (if k \<le> j \<and> j < nat (n_events p) - 1 then event_list p ! (j + 1) else event_list p ! j)"
    "take (nat (n_events p - 1)) l = map Some (take k es @ drop (Suc k) es)"
    by (rule remove_listed [OF c(1,2,3) es])
  let ?p = "p\<lparr>event_list := l, n_events := n_events p - 1\<rparr>"
  have "\<exists>s2. perfmon_pmu_event_update ?e (on_pf_dev f (set_pmu ?p s)) = Some s2 \<and> hwi s2 = hwi s"
    if "\<And>d. dev_pmu (f d) = dev_pmu d" for f
  proof -
    have "dev_pmu (pf_dev (on_pf_dev f (set_pmu ?p s))) = Some ?p" using that by (simp add: on_dev_pmu)
    from update_total [OF this, of ?e] obtain s2 where
      u: "perfmon_pmu_event_update ?e (on_pf_dev f (set_pmu ?p s)) = Some s2" using c pos by auto
    with update_frame [OF u] show ?thesis by (simp only: hwi_set option.inject ex_simps) blast
  qed
  then obtain s2 where s2: "perfmon_pmu_event_update ?e (on_pf_dev (\<lambda>d. iowrite64 E
      (ioread64 (CNTRCFG_REG (pf_dev (set_pmu ?p s)) (nat (hw_idx (pf_event s ?e)))) (pf_dev (set_pmu ?p s)) AND NOT CNTRCFG_ENABLE)
      (CNTRCFG_REG d (nat (hw_idx (pf_event s ?e)))) d) (set_pmu ?p s)) = Some s2" "hwi s2 = hwi s"
    by (metis (no_types, lifting) iowrite64_dev)
  have "\<not> hw_idx (pf_event s ?e) < 0" using pos by (simp add: hwi_def)
  then have "perfmon_pmu_event_del E ?e mode s =
      Some (set_pmu (?p\<lparr>used_mask := used_mask p - {nat (hwi s ?e)}\<rparr>) (upd_event ?e (\<lambda>v. v\<lparr>hw_idx := -1\<rparr>) s2))"
    unfolding perfmon_pmu_event_del_def perfmon_pmu_event_stop_def Let_def p option.case l(1)
    using s2(1) by (simp add: hwi_def)
  with l(2-4) s2(2) show ?thesis by (intro exI [of _ l]) auto
qed

inductive perf_step :: "env \<Rightarrow> perf_state \<Rightarrow> perf_state \<Rightarrow> bool" for E where
  add: "dev_pmu (pf_dev s) = Some p \<Longrightarrow> Some e \<notin> set (listed p) \<Longrightarrow> ev_pmu (pf_event s e) = pmu_id p \<Longrightarrow>
     perfmon_pmu_event_add E e flags s = Some (rc, s') \<Longrightarrow> perf_step E s s'"
| del: "dev_pmu (pf_dev s) = Some p \<Longrightarrow> Some e \<in> set (listed p) \<Longrightarrow>
     perfmon_pmu_event_del E e mode s = Some s' \<Longrightarrow> perf_step E s s'"
| read: "perfmon_pmu_event_update e s = Some s' \<Longrightarrow> perf_step E s s'"
| overflow: "perfmon_counter_overflow E s = Some (st, s') \<Longrightarrow> perf_step E s s'"

lemma counters_ok_add:
  assumes "counters_ok p hw" "Some e \<notin> set (listed p)" "n_events p < n_counters p" "i \<notin> used_mask p" "int i < n_counters p"
  shows "counters_ok (p\<lparr>event_list := (event_list p)[nat (n_events p) := Some e],
     used_mask := insert i (used_mask p), n_events := n_events p + 1\<rparr>) (hw(e := int i))"
proof -
  obtain es where es: "listed p = map Some es" "distinct (map hw es)"
    "\<forall>e \<in> set es. 0 \<le> hw e \<and> hw e < n_counters p" "used_mask p = (\<lambda>e. nat (hw e)) ` set es"
    using assms(1) by (auto simp: counters_ok_def)
  have c: "0 \<le> n_events p" "n_counters p \<le> 63" "length (event_list p) = 64"
    using assms(1) by (auto simp: counters_ok_def)
  have "e \<notin> set es" using assms(2) es(1) by auto
  then have m: "map (hw(e := int i)) es = map hw es" by auto
  have "int i \<notin> hw ` set es" using assms(4) es(4) by (force simp: image_iff)
  then have d: "distinct (map (hw(e := int i)) (es @ [e]))" unfolding map_append m using es(2) by simp
  have "take (nat (n_events p + 1)) ((event_list p)[nat (n_events p) := Some e]) = listed p @ [Some e]"
    using c assms(3) by (simp add: listed_def nat_add_distrib take_Suc_conv_app_nth)
  then show ?thesis using assms(1,3,5) d es \<open>e \<notin> set es\<close> unfolding counters_ok_def
    by (intro conjI exI [of _ "es @ [e]"]) (auto simp: listed_def)
qed

lemma counters_ok_del:
  assumes ok: "counters_ok p hw" and es: "listed p = map Some es" "distinct es" "k < length es" and l: "length l = 64"
    "take (nat (n_events p - 1)) l = map Some (take k es @ drop (Suc k) es)"
  shows "counters_ok (p\<lparr>event_list := l, n_events := n_events p - 1, used_mask := used_mask p - {nat (hw (es ! k))}\<rparr>)
     (hw(es ! k := -1))"
proof -
  let ?r = "take k es @ drop (Suc k) es"
  have c: "distinct (map hw es)" "\<forall>e \<in> set es. 0 \<le> hw e \<and> hw e < n_counters p" "used_mask p = (\<lambda>e. nat (hw e)) ` set es"
    "0 \<le> n_events p" "n_events p \<le> n_counters p" "n_counters p \<le> 63" "0 < counter_width p" "counter_width p \<le> 64"
    "length (event_list p) = 64"
    using ok es(1) by (auto simp: counters_ok_def inj_map_eq_map)
  have e: "es = take k es @ es ! k # drop (Suc k) es" using es(3) by (rule id_take_nth_drop)
  have "length es = nat (n_events p)" using arg_cong [OF es(1), of length] c by (simp add: listed_def)
  then have n: "0 \<le> n_events p - 1" using es(3) by simp
  have nk: "es ! k \<notin> set ?r" and s: "set es = insert (es ! k) (set ?r)"
    using es(2) by (subst (asm) e, simp) (subst e, auto)
  have m: "map (hw(es ! k := -1)) ?r = map hw ?r" using nk by (intro map_cong) auto
  have d: "distinct (map hw (take k es @ es ! k # drop (Suc k) es))" using c(1) e by metis
  then have "hw (es ! k) \<notin> hw ` set ?r" and d': "distinct (map hw ?r)" by auto
  then have "nat (hw (es ! k)) \<notin> (\<lambda>e. nat (hw e)) ` set ?r"
    using c(2) s by (auto simp: image_iff) (metis nat_eq_iff2 Un_iff insert_iff)+
  then have u: "used_mask p - {nat (hw (es ! k))} = (\<lambda>e. nat (hw e)) ` set ?r" unfolding c(3) s by auto
  have u': "(\<lambda>e. nat ((hw(es ! k := -1)) e)) ` set ?r = (\<lambda>e. nat (hw e)) ` set ?r" using nk by (intro image_cong) auto
  have b: "\<forall>e \<in> set ?r. 0 \<le> (hw(es ! k := -1)) e \<and> (hw(es ! k := -1)) e < n_counters p" using c(2) s nk by auto
  have d2: "distinct (map (hw(es ! k := -1)) ?r)" unfolding m by (rule d')
  show ?thesis unfolding counters_ok_def
    using l c(4-8) n b d2 u u' by (intro conjI exI [of _ ?r]) (simp_all add: listed_def del: set_append map_append)
qed

lemma distinct_listed: "counters_ok p hw \<Longrightarrow> listed p = map Some es \<Longrightarrow> distinct es"
  by (auto simp: counters_ok_def inj_map_eq_map distinct_map)

lemma counters_ok_step: "perf_step E s s' \<Longrightarrow> perf_ok s \<Longrightarrow> perf_ok s'"
proof (induction rule: perf_step.induct)
  case (add s p e flags rc s')
  then have ok: "counters_ok p (hwi s)" by (auto simp: perf_ok_def)
  from add_event [OF add(1) ok add(2,3), of E flags] add(4) add.prems show ?case
    by (auto simp: perf_ok_def dest: counters_ok_add [OF ok add(2)])
next
  case (del s p e mode s')
  then have ok: "counters_ok p (hwi s)" by (auto simp: perf_ok_def)
  then obtain es where es: "listed p = map Some es" by (auto simp: counters_ok_def)
  with del(2) obtain k where k: "k < length es" "e = es ! k" by (auto simp: in_set_conv_nth)
  note d = distinct_listed [OF ok es]
  from del_event [OF del(1) ok es d k(1), of E mode] del(3) k(2) show ?case
    by (auto simp: perf_ok_def dest: counters_ok_del [OF ok es d k(1)])
next
  case (read e s s')
  then show ?case using update_frame [OF read(1)] by (simp add: perf_ok_def)
next
  case (overflow s st s')
  then show ?case using overflow_frame [OF overflow(1)] by (simp add: perf_ok_def)
qed

text \<open>
  C25: while the perf core adds an event that is not listed, deletes one that is, reads events and
  the overflow interrupt runs, in any order, every listed event has a counter of its own below the
  number the device reports, and \<^verbatim>\<open>used_mask\<close> has exactly the bits of these counters. No operation
  leaves the list or the mask behind.
\<close>

theorem perf_counters_invariant:
  assumes "(perf_step E)\<^sup>*\<^sup>* s s'" "dev_pmu (pf_dev s) = Some p" "n_events p = 0" "used_mask p = {}"
    "length (event_list p) = 64" "0 \<le> n_counters p" "n_counters p \<le> 63" "0 < counter_width p" "counter_width p \<le> 64"
  shows "\<exists>p' es. dev_pmu (pf_dev s') = Some p' \<and> listed p' = map Some es \<and>
     distinct (map (\<lambda>e. hw_idx (pf_event s' e)) es) \<and>
     (\<forall>e \<in> set es. 0 \<le> hw_idx (pf_event s' e) \<and> hw_idx (pf_event s' e) < n_counters p') \<and>
     used_mask p' = (\<lambda>e. nat (hw_idx (pf_event s' e))) ` set es"
proof -
  have "perf_ok s" using assms(2-) by (auto simp: perf_ok_def counters_ok_def listed_def)
  with assms(1) have "perf_ok s'" by (induction rule: rtranclp_induct) (auto intro: counters_ok_step)
  then show ?thesis by (auto simp: perf_ok_def counters_ok_def hwi_def)
qed

text \<open>
  \<^verbatim>\<open>perfmon_counter_overflow\<close> takes the event of counter \<open>i\<close> from \<^verbatim>\<open>event_list[i]\<close>. When every
  event lies at the index of its counter, deleting the event at \<open>k\<close> moves its successors down but not
  their counters: an event that stays is still found at its counter exactly when it lay before \<open>k\<close>, or
  last, where the old entry is not cleared.
\<close>

theorem delete_shifts_owners:
  assumes "dev_pmu (pf_dev s) = Some p" "counters_ok p (hwi s)" "listed p = map Some es" "k < length es"
    "\<forall>j < length es. hw_idx (pf_event s (es ! j)) = int j" "j < length es" "j \<noteq> k"
  shows "\<exists>s' p'. perfmon_pmu_event_del E (es ! k) mode s = Some s' \<and> dev_pmu (pf_dev s') = Some p' \<and>
     (event_list p' ! nat (hw_idx (pf_event s' (es ! j))) = Some (es ! j) \<longleftrightarrow> j < k \<or> j = length es - 1)"
proof -
  note d = distinct_listed [OF assms(2,3)]
  have c: "length (event_list p) = 64" "0 \<le> n_events p" "n_events p \<le> 63" using assms(2) by (auto simp: counters_ok_def)
  then have n: "length es = nat (n_events p)" using arg_cong [OF assms(3), of length] by (simp add: listed_def)
  have nth: "event_list p ! i = Some (es ! i)" if "i < length es" for i
    using assms(3) that n by (metis length_map listed_def nth_map nth_take)
  from del_event [OF assms(1,2,3) d assms(4), of E mode] obtain l s' where
    s': "perfmon_pmu_event_del E (es ! k) mode s = Some s'" "hwi s' = (hwi s)(es ! k := -1)"
    "dev_pmu (pf_dev s') = Some (p\<lparr>event_list := l, n_events := n_events p - 1,
        used_mask := used_mask p - {nat (hwi s (es ! k))}\<rparr>)"
    "\<forall>j < 64. l ! j = (if k \<le> j \<and> j < nat (n_events p) - 1 then event_list p ! (j + 1) else event_list p ! j)" by blast
  have h: "hw_idx (pf_event s' (es ! j)) = int j"
    using fun_cong [OF s'(2), of "es ! j"] assms(4-7) d by (auto simp: hwi_def nth_eq_iff_index_eq)
  have "l ! j = Some (es ! (if k \<le> j \<and> j < length es - 1 then j + 1 else j))"
    using s'(4) assms(6) n c nth by auto
  then have "l ! j = Some (es ! j) \<longleftrightarrow> j < k \<or> j = length es - 1"
    using d assms(6,7) by (auto simp: nth_eq_iff_index_eq)
  with s'(1,3) h show ?thesis by (intro exI [of _ s'] exI conjI) auto
qed

subsection \<open>Adding and removing the monitor\<close>

lemma perfmon_reset_frame [simp]:
  "held (perfmon_reset E d) = held d" "dev_pmu (perfmon_reset E d) = dev_pmu d" "perfmon_offset (perfmon_reset E d) = perfmon_offset d"
  "drv_data (perfmon_reset E d) = drv_data d" "dev_id (perfmon_reset E d) = dev_id d"
  by (simp_all add: perfmon_reset_def perfmon_reset_config_def perfmon_reset_counters_def Let_def)

lemma perfmon_reset_regs:
  "regs d1 = regs d2 \<Longrightarrow> perfmon_offset d1 = perfmon_offset d2 \<Longrightarrow> regs (perfmon_reset E d1) = regs (perfmon_reset E d2)"
  by (simp add: perfmon_reset_def perfmon_reset_config_def perfmon_reset_counters_def iowrite32_def PERFMON_REG_OFFSET_def)

lemma cpu_online_frame:
  "dev_pmu (pf_dev s) \<noteq> None \<Longrightarrow>
   \<exists>s'. foldo (\<lambda>cpu s. map_option snd (perf_event_cpu_online cpu s)) online s = Some s' \<and>
     held (pf_dev s') = held (pf_dev s) \<and> dev_pmu (pf_dev s') \<noteq> None"
proof (induction online arbitrary: s)
  case Nil
  then show ?case by simp
next
  case (Cons cpu online)
  obtain s1 where s1: "perf_event_cpu_online cpu s = Some (0, s1)" "held (pf_dev s1) = held (pf_dev s)" "dev_pmu (pf_dev s1) \<noteq> None"
  proof (cases "pf_mask s = {}")
    case True
    with Cons.prems show ?thesis
      by (intro that [of "set_pmu ((the (dev_pmu (pf_dev s)))\<lparr>pmu_cpu := int cpu\<rparr>) (s\<lparr>pf_mask := insert cpu (pf_mask s)\<rparr>)"])
        (auto simp: perf_event_cpu_online_def set_pmu_def on_pf_dev_def)
  next
    case False
    with Cons.prems show ?thesis by (intro that [of s]) (simp_all add: perf_event_cpu_online_def)
  qed
  with Cons.IH [OF s1(3)] show ?case by auto
qed

lemma pmu_init_spec:
  assumes "dev_pmu (pf_dev s) = None"
  shows "\<exists>rc s'. perfmon_pmu_init E a online s = Some (rc, s') \<and>
     (if rc = 0 then dev_pmu (pf_dev s') \<noteq> None \<and> held (pf_dev s') = addh {M Pmu, M PmuReg, M CpuhpInst} (held (pf_dev s))
      else dev_pmu (pf_dev s') = None \<and> held (pf_dev s') = held (pf_dev s)) \<and>
     (rc > 0 \<longleftrightarrow> pf_set_up s \<and> perfmon_offset (pf_dev s) \<noteq> 0 \<and> 0 \<le> fst (acquire E (M Pmu) (pf_dev s)) \<and>
        \<not> perfcap_usable (ioread64 (PERFMON_REG_OFFSET (pf_dev s) 0) (perfmon_reset E (pf_dev s)))) \<and>
     held (pf_dev (perfmon_pmu_remove s')) = held (pf_dev s) \<and> dev_pmu (pf_dev (perfmon_pmu_remove s')) = None"
proof -
  obtain rc d where ac: "acquire E (M Pmu) (pf_dev s) = (rc, d)" by force
  show ?thesis
  proof (cases "\<not> pf_set_up s \<or> perfmon_offset (pf_dev s) = 0 \<or> rc < 0")
    case True
    moreover have "rc < 0 \<Longrightarrow> held d = held (pf_dev s)" "dev_pmu d = None"
      using held_acquire [of E "M Pmu" "pf_dev s"] acquire_dev [of E "M Pmu" "pf_dev s"] ac assms by auto
    moreover have "\<exists>rc' s'. perfmon_pmu_init E a online s = Some (rc', s') \<and> rc' < 0 \<and> (s' = s \<or> rc < 0 \<and> s' = s\<lparr>pf_dev := d\<rparr>)"
      using True unfolding perfmon_pmu_init_def
      by (cases "pf_set_up s"; cases "perfmon_offset (pf_dev s) = 0"; cases "rc < 0") (simp_all add: ac)
    ultimately obtain rc' s' where r: "perfmon_pmu_init E a online s = Some (rc', s')" "rc' < 0"
      "held (pf_dev s') = held (pf_dev s)" "dev_pmu (pf_dev s') = None"
      using assms by auto
    with True show ?thesis by (intro exI [of _ rc'] exI [of _ s']) (auto simp: ac perfmon_pmu_remove_def)
  next
    case False
    then have ok: "pf_set_up s" "perfmon_offset (pf_dev s) \<noteq> 0" "\<not> rc < 0" by auto
    have d: "held d = addh {M Pmu} (held (pf_dev s))" "regs d = regs (pf_dev s)" "perfmon_offset d = perfmon_offset (pf_dev s)"
      using held_acquire [of E "M Pmu" "pf_dev s"] acquire_dev [of E "M Pmu" "pf_dev s"]
        regs_acquire [of E "M Pmu" "pf_dev s"] ac ok by auto
    define s1 where "s1 = on_pf_dev (perfmon_reset E) (set_pmu (zero_pmu a) (s\<lparr>pf_dev := d\<rparr>))"
    have s1: "held (pf_dev s1) = addh {M Pmu} (held (pf_dev s))" "dev_pmu (pf_dev s1) = Some (zero_pmu a)"
      by (simp_all add: s1_def on_pf_dev_def set_pmu_def d)
    have nm: "0 < length (pmu_name (pf_dev (set_pmu (zero_pmu a) (s\<lparr>pf_dev := d\<rparr>))))"
      by (simp add: pmu_name_def split: idxd_type.split)
    define cap where "cap = ioread64 (PERFMON_REG_OFFSET (pf_dev s1) IDXD_PERFCAP_OFFSET) (pf_dev s1)"
    have "regs (pf_dev s1) = regs (perfmon_reset E (pf_dev s))" "perfmon_offset (pf_dev s1) = perfmon_offset (pf_dev s)"
      by (auto simp: s1_def on_pf_dev_def set_pmu_def d intro: perfmon_reset_regs)
    then have cap: "ioread64 (PERFMON_REG_OFFSET (pf_dev s) 0) (perfmon_reset E (pf_dev s)) = cap"
      by (simp add: cap_def ioread64_def PERFMON_REG_OFFSET_def)
    show ?thesis
    proof (cases "perfcap_usable cap")
      case False
      then have "perfmon_pmu_init E a online s = Some (int (length (pmu_name (pf_dev (set_pmu (zero_pmu a) (s\<lparr>pf_dev := d\<rparr>))))),
          on_pf_dev (\<lambda>d. (release (M Pmu) d)\<lparr>dev_pmu := None\<rparr>) s1)"
        using ok by (simp add: perfmon_pmu_init_def ac Let_def s1_def [symmetric] cap_def [symmetric])
      with False ok nm s1 show ?thesis by (auto simp: ac cap on_pf_dev_def perfmon_pmu_remove_def)
    next
      case True
      define p where "p = pmu_of_cap cap (zero_pmu a)"
      define s2 where "s2 = (set_pmu p s1)\<lparr>pf_attrs := idxd_pmu_init p (pf_attrs (set_pmu p s1))\<rparr>"
      have s2: "held (pf_dev s2) = addh {M Pmu} (held (pf_dev s))" "dev_pmu (pf_dev s2) = Some p"
        by (simp_all add: s2_def set_pmu_def on_pf_dev_def s1)
      obtain rc2 d2 where a2: "acquire E (M PmuReg) (pf_dev s2) = (rc2, d2)" by force
      have d2: "held d2 = (if rc2 < 0 then addh {M Pmu} (held (pf_dev s)) else addh {M PmuReg, M Pmu} (held (pf_dev s)))"
        "dev_pmu d2 = Some p"
        using held_acquire [of E "M PmuReg" "pf_dev s2"] acquire_dev [of E "M PmuReg" "pf_dev s2"] a2 s2
        by (auto simp: addh_addh insert_commute)
      obtain rc3 d3 where a3: "acquire E (M CpuhpInst) d2 = (rc3, d3)" by force
      have d3: "held d3 = (if rc3 < 0 then held d2 else addh {M CpuhpInst} (held d2))" "dev_pmu d3 = Some p"
        using held_acquire [of E "M CpuhpInst" d2] acquire_dev [of E "M CpuhpInst" d2] a3 d2 by auto
      obtain s4 where s4: "foldo (\<lambda>cpu s. map_option snd (perf_event_cpu_online cpu s)) online (s2\<lparr>pf_dev := d3\<rparr>) = Some s4"
        "held (pf_dev s4) = held d3" "dev_pmu (pf_dev s4) \<noteq> None"
        using cpu_online_frame [of "s2\<lparr>pf_dev := d3\<rparr>" online] d3 by auto
      have out: "perfmon_pmu_init E a online s =
          (if rc2 < 0 then Some (rc2, on_pf_dev (\<lambda>d. (release (M Pmu) d)\<lparr>dev_pmu := None\<rparr>) (s2\<lparr>pf_dev := d2\<rparr>))
           else if rc3 < 0 then Some (rc3, on_pf_dev (\<lambda>d. (release (M Pmu) d)\<lparr>dev_pmu := None\<rparr>)
             (on_pf_dev (release (M PmuReg)) (s2\<lparr>pf_dev := d3\<rparr>)))
           else Some (0, s4))"
        using ok True
        by (simp add: perfmon_pmu_init_def ac Let_def s1_def [symmetric] cap_def [symmetric] p_def [symmetric]
            a2 [unfolded s2_def, simplified] a3 s4(1) [unfolded s2_def, simplified])
          (simp add: s2_def)
      consider "rc2 < 0" | "\<not> rc2 < 0" "rc3 < 0" | "\<not> rc2 < 0" "\<not> rc3 < 0" by blast
      then show ?thesis
      proof cases
        case 1
        with out d2 True show ?thesis by (auto simp: cap on_pf_dev_def perfmon_pmu_remove_def)
      next
        case 2
        have "subh {M Pmu} (subh {M PmuReg} (addh {M PmuReg, M Pmu} h)) = h" for h
          by (auto simp: addh_def subh_def)
        with 2 out d2 d3 True show ?thesis by (auto simp: cap on_pf_dev_def perfmon_pmu_remove_def)
      next
        case 3
        have h: "held (pf_dev s4) = addh {M Pmu, M PmuReg, M CpuhpInst} (held (pf_dev s))"
          using 3 s4(2) d3(1) d2(1) by (auto simp: addh_def fun_eq_iff)
        then have "held (pf_dev (perfmon_pmu_remove s4)) = held (pf_dev s)"
          using s4(3) by (auto simp: perfmon_pmu_remove_def on_pf_dev_def addh_def subh_def fun_eq_iff)
        moreover have "dev_pmu (pf_dev (perfmon_pmu_remove s4)) = None"
          using s4(3) by (auto simp: perfmon_pmu_remove_def on_pf_dev_def)
        ultimately show ?thesis using 3 out h s4(3) True by (simp add: cap)
      qed
    qed
  qed
qed

text \<open>
  \<^verbatim>\<open>perfmon_pmu_init\<close> always returns; with 0 it leaves the monitor allocated, registered and with
  the hotplug core, with any other result the device holds what it held and has no monitor, and in both
  cases \<^verbatim>\<open>perfmon_pmu_remove\<close> gives everything back. A capability register the driver cannot use is no
  error to the caller: the result is the length of the monitor's name, a positive number.
\<close>

theorem pmu_init_outcome:
  assumes "dev_pmu (pf_dev s) = None"
  shows "\<exists>rc s'. perfmon_pmu_init E a online s = Some (rc, s') \<and>
     (if rc = 0 then dev_pmu (pf_dev s') \<noteq> None \<and> held (pf_dev s') = addh {M Pmu, M PmuReg, M CpuhpInst} (held (pf_dev s))
      else dev_pmu (pf_dev s') = None \<and> held (pf_dev s') = held (pf_dev s)) \<and>
     (rc > 0 \<longleftrightarrow> pf_set_up s \<and> perfmon_offset (pf_dev s) \<noteq> 0 \<and> 0 \<le> fst (acquire E (M Pmu) (pf_dev s)) \<and>
        \<not> perfcap_usable (ioread64 (PERFMON_REG_OFFSET (pf_dev s) 0) (perfmon_reset E (pf_dev s)))) \<and>
     held (pf_dev (perfmon_pmu_remove s')) = held (pf_dev s) \<and> dev_pmu (pf_dev (perfmon_pmu_remove s')) = None"
  using assms by (rule pmu_init_spec)

text \<open>
  when the CPU that reads the monitors goes offline the events move to another CPU and that CPU
  takes the place in the mask user space reads, but \<^verbatim>\<open>idxd_pmu->cpu\<close> stays: an event opened later
  is put on the CPU that is offline.
\<close>

theorem cpu_offline_stale:
  assumes "pf_mask s = {c}" "t \<noteq> c" "dev_pmu (pf_dev s) = Some p" "pmu_cpu p = int c"
    "ev_type (pf_event s e) = ev_pmu_type (pf_event s e)" "ev_sample_period (pf_event s e) = 0"
    "0 \<le> ev_cpu (pf_event s e)" "ev_pmu (pf_event s e) = pmu_id p" "ev_leader (pf_event s e) = e"
  shows "\<exists>s'. perfmon_pmu_event_init E a e (snd (perf_event_cpu_offline c (Some t) s)) = Some (0, s') \<and>
     pf_mask s' = {t} \<and> ev_cpu (pf_event s' e) = int c"
proof -
  define s1 where "s1 = snd (perf_event_cpu_offline c (Some t) s)"
  have "pf_mask s1 = {t}" "pf_event s1 = pf_event s" "dev_pmu (pf_dev s1) = Some p"
    using assms(1,3) by (auto simp: s1_def perf_event_cpu_offline_def on_pf_dev_def)
  then show ?thesis unfolding s1_def [symmetric]
    using assms(4-9) by (simp add: perfmon_pmu_event_init_def Let_def upd_event_def)
qed

lemma overflow_null: "dev_pmu (pf_dev s) = None \<Longrightarrow> perfmon_counter_overflow E s = None"
  by (simp add: perfmon_counter_overflow_def)

subsection \<open>Instances\<close>

definition sample_event :: perf_event where
  "sample_event = \<lparr>ev_type = 9, ev_pmu_type = 9, ev_pmu = 1, ev_sample_period = 0, ev_cpu = 0, ev_config = 0,
     ev_config1 = 0, ev_leader = 0, ev_siblings = [], ev_state = 1, hw_idx = -1, hw_config = 0, hw_config_base = 0,
     hw_event_base = 0, hw_prev = 5, hw_state = 0, ev_count = 0\<rparr>"

definition sample_pmu :: idxd_pmu where
  "sample_pmu = (zero_pmu 1)\<lparr>n_counters := 4, counter_width := 48\<rparr>"

text \<open>Three running events, event \<open>e\<close> on counter \<open>e\<close>.\<close>

definition sample_perf :: perf_state where
  "sample_perf = \<lparr>pf_dev = sample_dev\<lparr>dev_pmu := Some (sample_pmu
       \<lparr>event_list := map Some [0..<3] @ replicate 61 None, n_events := 3, used_mask := {0, 1, 2}\<rparr>)\<rparr>,
     pf_event = (\<lambda>e. sample_event\<lparr>hw_idx := int e\<rparr>), pf_attrs = perfmon_format_attrs, pf_mask = {0}, pf_set_up = True\<rparr>"

lemma sample_counters_ok:
  "counters_ok (sample_pmu\<lparr>event_list := map Some [0..<3] @ replicate 61 None, n_events := 3, used_mask := {0, 1, 2}\<rparr>) (hwi sample_perf)"
  unfolding counters_ok_def
  by (intro conjI exI [of _ "[0, 1, 2]"]) (auto simp: sample_pmu_def zero_pmu_def listed_def hwi_def sample_perf_def upt_rec eval_nat_numeral)

lemma event_update_delta_witness:
  "\<exists>s'. perfmon_pmu_event_update 0 sample_perf = Some s' \<and> ev_count (pf_event s' 0) = word_of_int ((0 - 5) mod 2 ^ 48)"
  using event_update_delta [of sample_perf "sample_pmu\<lparr>event_list := map Some [0..<3] @ replicate 61 None, n_events := 3, used_mask := {0, 1, 2}\<rparr>" 0]
  by (auto simp: sample_perf_def sample_pmu_def zero_pmu_def sample_event_def sample_dev_def zero_defs ioread64_def
      CNTRDATA_REG_def PERFMON_REG_OFFSET_def)

lemma validate_group_accepts_all_witness:
  "\<exists>s'. perfmon_validate_group sample_env 7 (sample_pmu\<lparr>n_events := 4\<rparr>) 0 sample_perf = Some (0, s')"
  using validate_group_accepts_all [of sample_env sample_perf "sample_pmu\<lparr>n_events := 4\<rparr>" 7 0]
  by (auto simp: sample_perf_def sample_pmu_def zero_pmu_def sample_event_def acquire_def ext_def sample_env_def Let_def)

lemma perf_counters_invariant_witness:
  "\<exists>s' p' es. perfmon_pmu_event_add sample_env 0 1 (set_pmu sample_pmu sample_perf) = Some (0, s') \<and>
     dev_pmu (pf_dev s') = Some p' \<and> listed p' = map Some es \<and> used_mask p' = (\<lambda>e. nat (hw_idx (pf_event s' e))) ` set es"
proof -
  let ?s = "set_pmu sample_pmu sample_perf"
  have p: "dev_pmu (pf_dev ?s) = Some sample_pmu" "n_events sample_pmu = 0" "used_mask sample_pmu = {}"
    "length (event_list sample_pmu) = 64" "n_counters sample_pmu = 4" "counter_width sample_pmu = 48"
    "ev_pmu (pf_event ?s 0) = pmu_id sample_pmu"
    by (simp_all add: sample_pmu_def zero_pmu_def sample_perf_def sample_event_def)
  then have ok: "counters_ok sample_pmu (hwi ?s)" and l: "Some 0 \<notin> set (listed sample_pmu)"
    by (simp_all add: counters_ok_def listed_def)
  obtain s' where s': "perfmon_pmu_event_add sample_env 0 1 ?s = Some (0, s')"
    using add_event [OF p(1) ok l p(7), of sample_env 1] p(2,5) by auto
  then have "perf_step sample_env ?s s'" by (rule perf_step.add [OF p(1) l p(7)])
  then have "(perf_step sample_env)\<^sup>*\<^sup>* ?s s'" by (rule r_into_rtranclp)
  from perf_counters_invariant [OF this p(1-4)] p(5,6) s' show ?thesis by auto
qed

lemma delete_shifts_owners_witness:
  "\<exists>s' p'. perfmon_pmu_event_del sample_env 0 0 sample_perf = Some s' \<and> dev_pmu (pf_dev s') = Some p' \<and>
     event_list p' ! nat (hw_idx (pf_event s' 1)) \<noteq> Some 1"
  using delete_shifts_owners [OF _ sample_counters_ok, of "[0, 1, 2]" 0 1 sample_env 0]
  by (auto simp: sample_perf_def sample_pmu_def zero_pmu_def listed_def upt_rec eval_nat_numeral less_Suc_eq)

lemma pmu_init_outcome_witness:
  "\<exists>rc s'. perfmon_pmu_init sample_env 1 [0] (sample_perf\<lparr>pf_dev := zero_device\<rparr>) = Some (rc, s')"
  using pmu_init_outcome [of "sample_perf\<lparr>pf_dev := zero_device\<rparr>" sample_env 1 "[0]"]
  by (auto simp: zero_device_def)

lemma cpu_offline_stale_witness:
  "\<exists>s'. perfmon_pmu_event_init sample_env 7 0 (snd (perf_event_cpu_offline 0 (Some 1) sample_perf)) = Some (0, s') \<and>
     ev_cpu (pf_event s' 0) = 0"
  using cpu_offline_stale [of sample_perf 0 1 "sample_pmu\<lparr>event_list := map Some [0..<3] @ replicate 61 None, n_events := 3,
    used_mask := {0, 1, 2}\<rparr>" 0 sample_env 7]
  by (auto simp: sample_perf_def sample_event_def sample_pmu_def zero_pmu_def)

end
