(* ===== verification/Attributes.thy ===== *)
theory Attributes
  imports Sysfs
begin

text \<open>
  What the configuration files guarantee: one store operation over all writable files, the
  invariants every sequence of writes keeps, and the behaviour of the checks. The locale
  \<open>attr_files\<close> is the interface between a set of files and an invariant of the state behind
  them; it is interpreted on the driver's files for each invariant.
\<close>

subsection \<open>The interface\<close>

fun run_writes ::
  "('f \<Rightarrow> string \<Rightarrow> nat \<Rightarrow> 's \<Rightarrow> (int \<times> 's) option) \<Rightarrow> ('f \<Rightarrow> 's \<Rightarrow> bool) \<Rightarrow> ('f \<times> string \<times> nat) list
     \<Rightarrow> 's \<Rightarrow> 's option" where
  "run_writes store usable [] s = Some s"
| "run_writes store usable ((f, buf, n) # ws) s =
     (if usable f s
      then case store f buf n s of None \<Rightarrow> None | Some (rc, s') \<Rightarrow> run_writes store usable ws s'
      else run_writes store usable ws s)"

locale attr_files =
  fixes store :: "'f \<Rightarrow> string \<Rightarrow> nat \<Rightarrow> 's \<Rightarrow> (int \<times> 's) option"
    and usable :: "'f \<Rightarrow> 's \<Rightarrow> bool"
    and inv :: "'s \<Rightarrow> bool"
  assumes store_defined: "inv s \<Longrightarrow> usable f s \<Longrightarrow> store f buf n s \<noteq> None"
    and store_inv: "inv s \<Longrightarrow> usable f s \<Longrightarrow> store f buf n s = Some (rc, s') \<Longrightarrow> inv s'"
begin

lemma run_inv: "inv s \<Longrightarrow> \<exists>s'. run_writes store usable ws s = Some s' \<and> inv s'"
proof (induction ws arbitrary: s)
  case Nil
  then show ?case by simp
next
  case (Cons w ws)
  obtain f buf n where w: "w = (f, buf, n)" by (cases w)
  show ?case
  proof (cases "usable f s")
    case True
    then obtain rc s' where s': "store f buf n s = Some (rc, s')"
      using store_defined [OF Cons.prems] by fastforce
    have "inv s'" by (rule store_inv [OF Cons.prems True s'])
    then show ?thesis using Cons.IH [of s'] True s' w by simp
  qed (use Cons w in simp)
qed

lemma run_inv_result: "inv s \<Longrightarrow> run_writes store usable ws s = Some s' \<Longrightarrow> inv s'"
  using run_inv [of s ws] by auto

end

text \<open>A second contract on top: a write that is refused changes nothing that is observed.\<close>

locale atomic_files = attr_files +
  fixes obs :: "'s \<Rightarrow> 'v"
  assumes store_atomic: "usable f s \<Longrightarrow> store f buf n s = Some (rc, s') \<Longrightarrow> rc < 0 \<Longrightarrow> obs s' = obs s"
begin

lemma run_refused:
  assumes "inv s" "\<And>f buf n x rc x'. (f, buf, n) \<in> set ws \<Longrightarrow> usable f x \<Longrightarrow> store f buf n x = Some (rc, x') \<Longrightarrow> rc < 0"
  shows "\<exists>s'. run_writes store usable ws s = Some s' \<and> obs s' = obs s"
  using assms
proof (induction ws arbitrary: s)
  case Nil
  then show ?case by simp
next
  case (Cons w ws)
  obtain f buf n where w: "w = (f, buf, n)" by (cases w)
  have IH: "\<exists>s'. run_writes store usable ws t = Some s' \<and> obs s' = obs t" if "inv t" for t
    by (rule Cons.IH [OF that]) (erule (2) Cons.prems(2) [OF list.set_intros(2)])
  show ?case
  proof (cases "usable f s")
    case True
    then obtain rc s' where s': "store f buf n s = Some (rc, s')"
      using store_defined [OF Cons.prems(1)] by fastforce
    have i: "inv s'" by (rule store_inv [OF Cons.prems(1) True s'])
    have "rc < 0" by (rule Cons.prems(2) [OF _ True s']) (simp add: w)
    then have "obs s' = obs s" by (rule store_atomic [OF True s'])
    moreover obtain t where "run_writes store usable ws s' = Some t" "obs t = obs s'"
      using IH [OF i] by blast
    ultimately show ?thesis using True s' w by simp
  next
    case False
    then show ?thesis using IH [OF Cons.prems(1)] w by simp
  qed
qed

end

subsection \<open>The driver's files\<close>

datatype sysfs_file = FEngine nat | FGroup nat group_attr | FWq nat wq_attr | FDev dev_attr

text \<open>A file exists for each member of the arrays; it is writable when its mode has the write bit.\<close>

definition writable :: "sysfs_file \<Rightarrow> idxd_device \<Rightarrow> bool" where
  "writable f d =
     (case f of
        FEngine e \<Rightarrow> e < max_engines d
      | FGroup g a \<Rightarrow> g < max_groups d \<and> bit (idxd_group_attr_visible a d) 7
      | FWq i a \<Rightarrow> i < max_wqs d \<and> bit (idxd_wq_attr_visible a d) 7
      | FDev a \<Rightarrow> bit (idxd_device_attr_visible a d) 7)"

text \<open>The store member of each attribute; a file without one refuses the write.\<close>

definition group_store :: "env \<Rightarrow> nat \<Rightarrow> group_attr \<Rightarrow> string \<Rightarrow> nat \<Rightarrow> idxd_device \<Rightarrow> int \<times> idxd_device" where
  "group_store E g a buf n d =
     (case a of
        attr_group_use_token_limit \<Rightarrow> group_use_token_limit_store E g buf n d
      | attr_group_use_read_buffer_limit \<Rightarrow> group_use_read_buffer_limit_store E g buf n d
      | attr_group_tokens_allowed \<Rightarrow> group_tokens_allowed_store E g buf n d
      | attr_group_read_buffers_allowed \<Rightarrow> group_read_buffers_allowed_store E g buf n d
      | attr_group_tokens_reserved \<Rightarrow> group_tokens_reserved_store E g buf n d
      | attr_group_read_buffers_reserved \<Rightarrow> group_read_buffers_reserved_store E g buf n d
      | attr_group_traffic_class_a \<Rightarrow> group_traffic_class_a_store E g buf n d
      | attr_group_traffic_class_b \<Rightarrow> group_traffic_class_b_store E g buf n d
      | attr_group_desc_progress_limit \<Rightarrow> group_desc_progress_limit_store E g buf n d
      | attr_group_batch_progress_limit \<Rightarrow> group_batch_progress_limit_store E g buf n d
      | _ \<Rightarrow> (- EIO, d))"

definition wq_store ::
  "env \<Rightarrow> nat \<Rightarrow> wq_attr \<Rightarrow> string \<Rightarrow> nat \<Rightarrow> idxd_device \<Rightarrow> (int \<times> idxd_device) option" where
  "wq_store E i a buf n d =
     (case a of
        attr_wq_group_id \<Rightarrow> Some (wq_group_id_store E i buf n d)
      | attr_wq_mode \<Rightarrow> Some (wq_mode_store E i buf n d)
      | attr_wq_size \<Rightarrow> Some (wq_size_store E i buf n d)
      | attr_wq_priority \<Rightarrow> Some (wq_priority_store E i buf n d)
      | attr_wq_block_on_fault \<Rightarrow> Some (wq_block_on_fault_store E i buf n d)
      | attr_wq_threshold \<Rightarrow> Some (wq_threshold_store E i buf n d)
      | attr_wq_type \<Rightarrow> Some (wq_type_store E i buf n d)
      | attr_wq_name \<Rightarrow> Some (wq_name_store E i buf n d)
      | attr_wq_max_transfer_size \<Rightarrow> Some (wq_max_transfer_size_store E i buf n d)
      | attr_wq_max_batch_size \<Rightarrow> Some (wq_max_batch_size_store E i buf n d)
      | attr_wq_ats_disable \<Rightarrow> Some (wq_ats_disable_store E i buf n d)
      | attr_wq_prs_disable \<Rightarrow> Some (wq_prs_disable_store E i buf n d)
      | attr_wq_enqcmds_retries \<Rightarrow> Some (wq_enqcmds_retries_store E i buf n d)
      | attr_wq_op_config \<Rightarrow> wq_op_config_store E i buf n d
      | attr_wq_driver_name \<Rightarrow> Some (wq_driver_name_store E i buf n d)
      | _ \<Rightarrow> Some (- EIO, d))"

definition dev_store :: "env \<Rightarrow> dev_attr \<Rightarrow> string \<Rightarrow> nat \<Rightarrow> idxd_device \<Rightarrow> int \<times> idxd_device" where
  "dev_store E a buf n d =
     (case a of
        attr_token_limit \<Rightarrow> token_limit_store E buf n d
      | attr_read_buffer_limit \<Rightarrow> read_buffer_limit_store E buf n d
      | attr_cmd_status \<Rightarrow> cmd_status_store E buf n d
      | attr_event_log_size \<Rightarrow> event_log_size_store E buf n d
      | _ \<Rightarrow> (- EIO, d))"

definition sysfs_store ::
  "env \<Rightarrow> sysfs_file \<Rightarrow> string \<Rightarrow> nat \<Rightarrow> idxd_device \<Rightarrow> (int \<times> idxd_device) option" where
  "sysfs_store E f buf n d =
     (case f of
        FEngine e \<Rightarrow> Some (engine_group_id_store E e buf n d)
      | FGroup g a \<Rightarrow> Some (group_store E g a buf n d)
      | FWq i a \<Rightarrow> wq_store E i a buf n d
      | FDev a \<Rightarrow> Some (dev_store E a buf n d))"

lemmas group_store_defs = group_store_def group_use_token_limit_store_def group_use_read_buffer_limit_store_def
  group_tokens_allowed_store_def group_read_buffers_allowed_store_def group_tokens_reserved_store_def
  group_read_buffers_reserved_store_def group_traffic_class_a_store_def group_traffic_class_b_store_def
  group_desc_progress_limit_store_def group_batch_progress_limit_store_def idxd_set_free_rdbufs_def

lemmas dev_store_defs = dev_store_def token_limit_store_def read_buffer_limit_store_def cmd_status_store_def
  event_log_size_store_def

lemmas wq_store_defs = wq_store_def wq_group_id_store_def wq_mode_store_def wq_size_store_def wq_priority_store_def
  wq_block_on_fault_store_def wq_threshold_store_def wq_type_store_def wq_name_store_def
  wq_max_transfer_size_store_def wq_max_batch_size_store_def wq_ats_disable_store_def wq_prs_disable_store_def
  wq_enqcmds_retries_store_def wq_op_config_store_def wq_driver_name_store_def

subsection \<open>Refused writes\<close>

text \<open>The state apart from the trace of external calls.\<close>

definition quiet :: "idxd_device \<Rightarrow> idxd_device" where
  "quiet d = d\<lparr>trace := []\<rparr>"

lemma quiet_acquire: "fst (acquire E x d) < 0 \<Longrightarrow> quiet (snd (acquire E x d)) = quiet d"
  by (simp add: quiet_def acquire_def ext_def Let_def split: if_splits)

lemma quiet_acquire_release: "\<not> fst (acquire E x d) < 0 \<Longrightarrow> quiet (release x (snd (acquire E x d))) = quiet d"
  by (simp add: quiet_def acquire_def release_def ext_def Let_def split: if_splits)

lemma quiet_acquire_upd:
  "\<not> fst (acquire E x d) < 0 \<Longrightarrow> quiet (release x (upd_wq i f (snd (acquire E x d)))) = quiet (upd_wq i f d)"
  by (simp add: quiet_def acquire_def release_def ext_def upd_wq_def Let_def split: if_splits)

lemma engine_store_refused:
  "engine_group_id_store E e buf n d = (rc, d') \<Longrightarrow> rc < 0 \<Longrightarrow> d' = d"
  by (auto simp: engine_group_id_store_def Let_def split: option.splits if_splits)

lemma group_store_refused:
  "group_store E g a buf n d = (rc, d') \<Longrightarrow> rc < 0 \<Longrightarrow> d' = d"
  by (cases a) (auto simp: group_store_defs Let_def split: option.splits if_splits)

lemma dev_store_refused:
  "dev_store E a buf n d = (rc, d') \<Longrightarrow> rc < 0 \<Longrightarrow> d' = d"
  by (cases a) (auto simp: dev_store_defs Let_def split: option.splits if_splits)

lemma wq_store_refused:
  "wq_store E i a buf n d = Some (rc, d') \<Longrightarrow> rc < 0 \<Longrightarrow> quiet d' = quiet d"
  by (cases a) (auto simp: wq_store_defs Let_def split_beta quiet_acquire quiet_acquire_release
      split: option.splits if_splits sum.splits)

lemma store_refused:
  "sysfs_store E f buf n d = Some (rc, d') \<Longrightarrow> rc < 0 \<Longrightarrow> quiet d' = quiet d"
  by (cases f) (auto simp: sysfs_store_def dest: engine_store_refused group_store_refused wq_store_refused
      dev_store_refused)

text \<open>
  The complete effect of a queue file other than \<open>group_id\<close> and \<open>size\<close>: nothing, or an update of
  the queue's own members.
\<close>

lemma quiet_eqD:
  assumes "quiet d' = quiet d"
  shows "wqs d' = wqs d" "engines d' = engines d" "groups d' = groups d" "max_wqs d' = max_wqs d"
    "max_groups d' = max_groups d" "max_engines d' = max_engines d" "held d' = held d" "nr_rdbufs d' = nr_rdbufs d"
    "max_rdbufs d' = max_rdbufs d" "dev_max_xfer_bytes d' = dev_max_xfer_bytes d" "dev_max_batch_size d' = dev_max_batch_size d"
    "wq_cap d' = wq_cap d" "drv_data d' = drv_data d"
  using arg_cong [OF assms, of wqs] arg_cong [OF assms, of engines] arg_cong [OF assms, of groups]
    arg_cong [OF assms, of max_wqs] arg_cong [OF assms, of max_groups] arg_cong [OF assms, of max_engines]
    arg_cong [OF assms, of held] arg_cong [OF assms, of nr_rdbufs] arg_cong [OF assms, of max_rdbufs]
    arg_cong [OF assms, of dev_max_xfer_bytes] arg_cong [OF assms, of dev_max_batch_size]
    arg_cong [OF assms, of wq_cap] arg_cong [OF assms, of drv_data]
  by (simp_all add: quiet_def)
subsection \<open>Group membership\<close>

definition group_size :: "('a \<Rightarrow> nat option) \<Rightarrow> nat \<Rightarrow> 'a list \<Rightarrow> int" where
  "group_size f g xs = sum_list (map (\<lambda>x. of_bool (f x = Some g)) xs)"

lemma group_size_upd:
  "i < length xs \<Longrightarrow> group_size f g (list_upd i h xs) =
     group_size f g xs - of_bool (f (xs ! i) = Some g) + of_bool (f (h (xs ! i)) = Some g)"
  by (simp add: group_size_def list_upd_def sum_list_upd [where g = "\<lambda>x. of_bool (f x = Some g)"])

text \<open>A visible operation-mask file has a bitmap behind it.\<close>

definition opcap_present :: "idxd_device \<Rightarrow> bool" where
  "opcap_present d \<longleftrightarrow>
     (getf wq_cap_reg ''op_config'' (wq_cap d) \<noteq> 0 \<longrightarrow> (\<forall>w\<in>set (wqs d). wq_opcap w \<noteq> None))"

text \<open>Every group counts its members, and the arrays are well formed.\<close>

definition members_ok :: "idxd_device \<Rightarrow> bool" where
  "members_ok d \<longleftrightarrow> wf_dev d \<and> opcap_present d \<and>
     (\<forall>g<max_groups d. num_engines (groups d ! g) = group_size eng_group g (engines d) \<and>
                       num_wqs (groups d ! g) = group_size wq_group g (wqs d))"

text \<open>The members these notions read.\<close>

definition memb_view :: "idxd_device \<Rightarrow>
    (nat \<times> nat option \<times> bool) list \<times> (nat \<times> nat option) list \<times> (nat \<times> int \<times> int) list \<times> (nat \<times> nat \<times> nat) \<times> u64" where
  "memb_view d =
     (map (\<lambda>w. (wq_id w, wq_group w, wq_opcap w = None)) (wqs d), map (\<lambda>e. (eng_id e, eng_group e)) (engines d),
      map (\<lambda>g. (grp_id g, num_engines g, num_wqs g)) (groups d), (max_wqs d, max_groups d, max_engines d), wq_cap d)"

lemma memb_viewD:
  assumes "memb_view d' = memb_view d"
  shows "map wq_id (wqs d') = map wq_id (wqs d)" "map wq_group (wqs d') = map wq_group (wqs d)"
    "map (\<lambda>w. wq_opcap w = None) (wqs d') = map (\<lambda>w. wq_opcap w = None) (wqs d)"
    "map eng_id (engines d') = map eng_id (engines d)" "map eng_group (engines d') = map eng_group (engines d)"
    "map grp_id (groups d') = map grp_id (groups d)" "map num_engines (groups d') = map num_engines (groups d)"
    "map num_wqs (groups d') = map num_wqs (groups d)"
    "max_wqs d' = max_wqs d" "max_groups d' = max_groups d" "max_engines d' = max_engines d" "wq_cap d' = wq_cap d"
proof -
  let ?W = "\<lambda>d. map (\<lambda>w. (wq_id w, wq_group w, wq_opcap w = None)) (wqs d)"
  let ?G = "\<lambda>d. map (\<lambda>g. (grp_id g, num_engines g, num_wqs g)) (groups d)"
  let ?N = "\<lambda>d. map (\<lambda>e. (eng_id e, eng_group e)) (engines d)"
  have v: "?W d' = ?W d" "?N d' = ?N d" "?G d' = ?G d"
    using assms by (simp_all add: memb_view_def del: map_eq_conv)
  show "map wq_id (wqs d') = map wq_id (wqs d)" "map wq_group (wqs d') = map wq_group (wqs d)"
    "map (\<lambda>w. wq_opcap w = None) (wqs d') = map (\<lambda>w. wq_opcap w = None) (wqs d)"
    using arg_cong [OF v(1), of "map fst"] arg_cong [OF v(1), of "map (fst \<circ> snd)"] arg_cong [OF v(1), of "map (snd \<circ> snd)"]
    by (simp_all add: comp_def)
  show "map eng_id (engines d') = map eng_id (engines d)" "map eng_group (engines d') = map eng_group (engines d)"
    using arg_cong [OF v(2), of "map fst"] arg_cong [OF v(2), of "map snd"] by (simp_all add: comp_def)
  show "map grp_id (groups d') = map grp_id (groups d)" "map num_engines (groups d') = map num_engines (groups d)"
    "map num_wqs (groups d') = map num_wqs (groups d)"
    using arg_cong [OF v(3), of "map fst"] arg_cong [OF v(3), of "map (fst \<circ> snd)"] arg_cong [OF v(3), of "map (snd \<circ> snd)"]
    by (simp_all add: comp_def)
  show "max_wqs d' = max_wqs d" "max_groups d' = max_groups d" "max_engines d' = max_engines d" "wq_cap d' = wq_cap d"
    using assms by (simp_all add: memb_view_def)
qed

lemma ball_map_eq: "map f xs = map f ys \<Longrightarrow> (\<forall>x\<in>set xs. P (f x)) \<longleftrightarrow> (\<forall>y\<in>set ys. P (f y))"
  by (metis (no_types, lifting) image_iff list.set_map)

lemma members_ok_cong:
  assumes "memb_view d' = memb_view d" "members_ok d"
  shows "members_ok d'"
proof -
  note v = memb_viewD [OF assms(1)]
  have l: "length (wqs d') = length (wqs d)" "length (groups d') = length (groups d)" "length (engines d') = length (engines d)"
    using map_eq_imp_length_eq [OF v(1)] map_eq_imp_length_eq [OF v(6)] map_eq_imp_length_eq [OF v(4)] by simp_all
  have m: "wf_dev d" "opcap_present d" using assms(2) by (simp_all add: members_ok_def)
  have "wf_dev d'"
    using m(1) v l ball_map_eq [OF v(2), of "\<lambda>x. \<forall>g. x = Some g \<longrightarrow> g < max_groups d"]
      ball_map_eq [OF v(5), of "\<lambda>x. \<forall>g. x = Some g \<longrightarrow> g < max_groups d"]
    by (simp add: wf_dev_def)
  moreover have "opcap_present d'"
    using m(2) v(12) ball_map_eq [OF v(3), of "\<lambda>x. \<not> x"] by (simp add: opcap_present_def)
  moreover have "group_size eng_group g (engines d') = group_size eng_group g (engines d)"
    "group_size wq_group g (wqs d') = group_size wq_group g (wqs d)" for g
    using arg_cong [OF v(5), of "\<lambda>xs. sum_list (map (\<lambda>x. of_bool (x = Some g) :: int) xs)"]
      arg_cong [OF v(2), of "\<lambda>xs. sum_list (map (\<lambda>x. of_bool (x = Some g) :: int) xs)"]
    by (simp_all add: group_size_def comp_def)
  moreover have "num_engines (groups d' ! g) = num_engines (groups d ! g)" "num_wqs (groups d' ! g) = num_wqs (groups d ! g)"
    if "g < max_groups d" for g
  proof -
    have "g < length (groups d)" using m(1) that by (simp add: wf_dev_def)
    then show "num_engines (groups d' ! g) = num_engines (groups d ! g)" "num_wqs (groups d' ! g) = num_wqs (groups d ! g)"
      using arg_cong [OF v(7), of "\<lambda>xs. xs ! g"] arg_cong [OF v(8), of "\<lambda>xs. xs ! g"] l(2) by simp_all
  qed
  ultimately show ?thesis using assms(2) v(10) by (simp add: members_ok_def)
qed

lemma memb_view_quiet:
  assumes "quiet d' = quiet d"
  shows "memb_view d' = memb_view d"
  by (simp add: memb_view_def quiet_eqD [OF assms])

lemma memb_view_frame [simp]:
  "memb_view (release x d) = memb_view d" "memb_view (snd (acquire E x d)) = memb_view d"
  by (simp_all add: memb_view_def)

lemma memb_view_upd_wq:
  assumes "\<And>w. wq_id (f w) = wq_id w" "\<And>w. wq_group (f w) = wq_group w" "\<And>w. (wq_opcap (f w) = None) = (wq_opcap w = None)"
  shows "memb_view (upd_wq i f d) = memb_view d"
  using assms by (simp add: memb_view_def)

lemma memb_view_upd_group:
  assumes "\<And>x. grp_id (f x) = grp_id x" "\<And>x. num_engines (f x) = num_engines x" "\<And>x. num_wqs (f x) = num_wqs x"
  shows "memb_view (upd_group i f d) = memb_view d"
  using assms by (simp add: memb_view_def)

lemma group_store_view: "group_store E g a buf n d = (rc, d') \<Longrightarrow> memb_view d' = memb_view d"
  by (cases a) (auto simp: group_store_defs memb_view_def Let_def split: option.splits if_splits)

lemma dev_store_view: "dev_store E a buf n d = (rc, d') \<Longrightarrow> memb_view d' = memb_view d"
  by (cases a) (auto simp: dev_store_defs memb_view_def Let_def split: option.splits if_splits)

lemma wq_store_view:
  assumes "wq_store E i a buf n d = Some (rc, d')" "a \<noteq> attr_wq_group_id" "a \<noteq> attr_wq_op_config"
  shows "memb_view d' = memb_view d"
  using assms
  by (cases a) (auto simp: wq_store_defs idxd_wq_set_max_batch_size_def memb_view_upd_wq Let_def split_beta
      split: option.splits if_splits sum.splits)

lemma map_list_upd_at: "g (f (xs ! i)) = g (xs ! i) \<Longrightarrow> map g (list_upd i f xs) = map g xs"
  by (cases "i < length xs") (simp_all add: list_upd_def map_update list_update_same_conv list_update_beyond)

lemma op_config_view:
  assumes "wq_op_config_store E i buf n d = Some (rc, d')"
  shows "memb_view d' = memb_view d"
proof -
  obtain r d1 where a: "acquire E (D TmpBuf) d = (r, d1)" by (cases "acquire E (D TmpBuf) d")
  have d1: "memb_view d1 = memb_view d" "wqs d1 = wqs d"
    using memb_view_frame(2) [of E "D TmpBuf" d] wqs_acquire [of E "D TmpBuf" d] by (simp_all add: a)
  have "memb_view (upd_wq i (\<lambda>w. w\<lparr>wq_opcap := Some m\<rparr>) d1) = memb_view d1" if "wq_opcap (wqs d ! i) \<noteq> None" for m
    using that d1 by (simp add: memb_view_def map_list_upd_at)
  then show ?thesis
    using assms d1 by (auto simp: wq_op_config_store_def a Let_def split: if_splits sum.splits)
qed

lemma wf_groupD:
  assumes "wf_dev d"
  shows "e < max_engines d \<Longrightarrow> eng_group (engines d ! e) = Some g \<Longrightarrow> g < max_groups d"
    and "i < max_wqs d \<Longrightarrow> wq_group (wqs d ! i) = Some g \<Longrightarrow> g < max_groups d"
  using assms unfolding wf_dev_def by (metis nth_mem)+

text \<open>Moving a member: the old group loses it, the new one gains it.\<close>

lemma wf_upd_member:
  assumes "wf_dev d" "case t of None \<Rightarrow> True | Some g \<Rightarrow> g < max_groups d"
  shows "wf_dev (upd_engine e (\<lambda>x. x\<lparr>eng_group := t\<rparr>) d)" "wf_dev (upd_wq i (\<lambda>x. x\<lparr>wq_group := t\<rparr>) d)"
  using assms by (auto simp: wf_dev_def elim!: set_list_upd split: option.splits)

lemma wf_upd_count:
  assumes "wf_dev d"
  shows "wf_dev (upd_group g (\<lambda>x. x\<lparr>num_engines := p x\<rparr>) d)" "wf_dev (upd_group g (\<lambda>x. x\<lparr>num_wqs := p x\<rparr>) d)"
  using assms by (simp_all add: wf_dev_def)

definition move_engine :: "nat \<Rightarrow> nat option \<Rightarrow> idxd_device \<Rightarrow> idxd_device" where
  "move_engine e t d =
     (let d = (case eng_group (engines d ! e) of None \<Rightarrow> d
               | Some g \<Rightarrow> upd_group g (\<lambda>x. x\<lparr>num_engines := num_engines x - 1\<rparr>) d);
          d = upd_engine e (\<lambda>x. x\<lparr>eng_group := t\<rparr>) d
      in case t of None \<Rightarrow> d | Some g \<Rightarrow> upd_group g (\<lambda>x. x\<lparr>num_engines := num_engines x + 1\<rparr>) d)"

definition move_wq :: "nat \<Rightarrow> nat option \<Rightarrow> idxd_device \<Rightarrow> idxd_device" where
  "move_wq i t d =
     (let d = (case wq_group (wqs d ! i) of None \<Rightarrow> d
               | Some g \<Rightarrow> upd_group g (\<lambda>x. x\<lparr>num_wqs := num_wqs x - 1\<rparr>) d);
          d = upd_wq i (\<lambda>x. x\<lparr>wq_group := t\<rparr>) d
      in case t of None \<Rightarrow> d | Some g \<Rightarrow> upd_group g (\<lambda>x. x\<lparr>num_wqs := num_wqs x + 1\<rparr>) d)"

lemma members_move_engine:
  assumes m: "members_ok d" and e: "e < max_engines d" and t: "case t of None \<Rightarrow> True | Some g \<Rightarrow> g < max_groups d"
  shows "members_ok (move_engine e t d)"
proof -
  have wf: "wf_dev d" and lg: "length (groups d) = max_groups d" and le: "length (engines d) = max_engines d"
    using m by (auto simp: members_ok_def wf_dev_def)
  have old: "eng_group (engines d ! e) = Some g \<Longrightarrow> g < max_groups d" for g
    using wf_groupD(1) [OF wf e] .
  have "wf_dev (move_engine e t d)"
    using wf t by (auto simp: move_engine_def Let_def wf_upd_member wf_upd_count split: option.splits)
  then show ?thesis
    using m e t old lg le
    by (auto simp: members_ok_def move_engine_def Let_def group_size_upd nth_list_upd opcap_present_def split: option.splits)
qed

lemma members_move_wq:
  assumes m: "members_ok d" and i: "i < max_wqs d" and t: "case t of None \<Rightarrow> True | Some g \<Rightarrow> g < max_groups d"
  shows "members_ok (move_wq i t d)"
proof -
  have wf: "wf_dev d" and lg: "length (groups d) = max_groups d" and lw: "length (wqs d) = max_wqs d"
    using m by (auto simp: members_ok_def wf_dev_def)
  have old: "wq_group (wqs d ! i) = Some g \<Longrightarrow> g < max_groups d" for g
    using wf_groupD(2) [OF wf i] .
  have "wf_dev (move_wq i t d)"
    using wf t by (auto simp: move_wq_def Let_def wf_upd_member wf_upd_count split: option.splits)
  moreover have "opcap_present (move_wq i t d)"
    using m by (auto simp: members_ok_def opcap_present_def move_wq_def Let_def elim!: set_list_upd split: option.splits)
  ultimately show ?thesis
    using m i t old lg lw
    by (auto simp: members_ok_def move_wq_def Let_def group_size_upd nth_list_upd split: option.splits)
qed

lemma engine_store_move:
  "engine_group_id_store E e buf n d = (rc, d') \<Longrightarrow>
     d' = d \<or> (\<exists>t. d' = move_engine e t d \<and> (case t of None \<Rightarrow> True | Some g \<Rightarrow> g < max_groups d))"
  by (auto simp: engine_group_id_store_def move_engine_def Let_def split: option.splits if_splits)

lemma wq_group_store_move:
  "wq_group_id_store E i buf n d = (rc, d') \<Longrightarrow>
     d' = d \<or> (\<exists>t. d' = move_wq i t d \<and> (case t of None \<Rightarrow> True | Some g \<Rightarrow> g < max_groups d))"
  by (auto simp: wq_group_id_store_def move_wq_def Let_def split: option.splits if_splits)

lemma writable_wq: "writable (FWq i a) d \<Longrightarrow> i < max_wqs d" and writable_engine: "writable (FEngine e) d \<Longrightarrow> e < max_engines d"
  and writable_group: "writable (FGroup g b) d \<Longrightarrow> g < max_groups d"
  by (simp_all add: writable_def)

lemma store_members:
  assumes m: "members_ok d" and u: "writable f d" and st: "sysfs_store E f buf n d = Some (rc, d')"
  shows "members_ok d'"
proof (cases f)
  case (FEngine e)
  then have "engine_group_id_store E e buf n d = (rc, d')" using st by (simp add: sysfs_store_def)
  then show ?thesis using engine_store_move [of E e buf n d rc d'] members_move_engine [OF m] m u FEngine
    by (auto dest: writable_engine)
next
  case (FGroup g a)
  then show ?thesis using st members_ok_cong [OF group_store_view m] by (simp add: sysfs_store_def)
next
  case (FDev a)
  then show ?thesis using st members_ok_cong [OF dev_store_view m] by (simp add: sysfs_store_def)
next
  case (FWq i a)
  then have s: "wq_store E i a buf n d = Some (rc, d')" using st by (simp add: sysfs_store_def)
  show ?thesis
  proof (cases "a = attr_wq_group_id")
    case True
    then have "wq_group_id_store E i buf n d = (rc, d')" using s by (simp add: wq_store_def)
    then show ?thesis using wq_group_store_move [of E i buf n d rc d'] members_move_wq [OF m] m u FWq
      by (auto dest: writable_wq)
  next
    case False
    have "memb_view d' = memb_view d"
      using s wq_store_view [OF s False] op_config_view [of E i buf n d rc d']
      by (cases "a = attr_wq_op_config") (simp_all add: wq_store_def)
    then show ?thesis by (rule members_ok_cong [OF _ m])
  qed
qed

lemma store_not_null:
  assumes "opcap_present d" "length (wqs d) = max_wqs d" "writable f d"
  shows "sysfs_store E f buf n d \<noteq> None"
proof (cases f)
  case (FWq i a)
  have "i < max_wqs d" using assms(3) FWq by (simp add: writable_def)
  then have "wq_opcap (wqs d ! i) \<noteq> None" if "a = attr_wq_op_config"
    using assms that FWq by (auto simp: writable_def idxd_wq_attr_visible_def idxd_wq_attr_invisible_def opcap_present_def)
  then show ?thesis
    using FWq by (cases a) (auto simp: sysfs_store_def wq_store_def wq_op_config_store_def Let_def split_beta split: sum.splits)
qed (simp_all add: sysfs_store_def)

lemma members_defined: "members_ok d \<Longrightarrow> writable f d \<Longrightarrow> sysfs_store E f buf n d \<noteq> None"
  by (rule store_not_null) (simp_all add: members_ok_def wf_dev_def)

interpretation memb: atomic_files "sysfs_store E" writable members_ok quiet for E
  by unfold_locales ((rule members_defined store_members store_refused; assumption)+)

subsection \<open>Read buffers\<close>

definition reserved_total :: "idxd_device \<Rightarrow> int" where
  "reserved_total d = sum_list (map (\<lambda>g. uint (rdbufs_reserved g)) (groups d))"

text \<open>
  The free read buffers and those the groups reserve fit in what the device has, which is at
  most what an 8-bit capability field can say.
\<close>

definition rdbufs_ok :: "idxd_device \<Rightarrow> bool" where
  "rdbufs_ok d \<longleftrightarrow> length (groups d) = max_groups d \<and> length (wqs d) = max_wqs d \<and> opcap_present d \<and>
     max_rdbufs d < 256 \<and> 0 \<le> nr_rdbufs d \<and> nr_rdbufs d + reserved_total d \<le> max_rdbufs d"

definition rdbuf_view :: "idxd_device \<Rightarrow> u8 list \<times> nat \<times> nat \<times> bool list \<times> u64 \<times> int \<times> int" where
  "rdbuf_view d = (map rdbufs_reserved (groups d), max_groups d, max_wqs d, map (\<lambda>w. wq_opcap w = None) (wqs d),
     wq_cap d, max_rdbufs d, nr_rdbufs d)"

lemma rdbufs_ok_cong:
  assumes "rdbuf_view d' = rdbuf_view d" "rdbufs_ok d"
  shows "rdbufs_ok d'"
proof -
  have v: "map rdbufs_reserved (groups d') = map rdbufs_reserved (groups d)"
    "map (\<lambda>w. wq_opcap w = None) (wqs d') = map (\<lambda>w. wq_opcap w = None) (wqs d)"
    "max_groups d' = max_groups d" "max_wqs d' = max_wqs d" "wq_cap d' = wq_cap d" "max_rdbufs d' = max_rdbufs d"
    "nr_rdbufs d' = nr_rdbufs d"
    using assms(1) by (simp_all add: rdbuf_view_def del: map_eq_conv)
  have l: "length (groups d') = length (groups d)" "length (wqs d') = length (wqs d)"
    using map_eq_imp_length_eq [OF v(1)] map_eq_imp_length_eq [OF v(2)] by simp_all
  have "reserved_total d' = reserved_total d"
    using arg_cong [OF v(1), of "\<lambda>xs. sum_list (map uint xs)"] by (simp add: reserved_total_def comp_def)
  moreover have "opcap_present d' = opcap_present d"
    using v(5) ball_map_eq [OF v(2), of "\<lambda>x. \<not> x"] by (simp add: opcap_present_def)
  ultimately show ?thesis using assms(2) v l by (simp add: rdbufs_ok_def)
qed

lemma rdbuf_view_frame [simp]:
  "rdbuf_view (release x d) = rdbuf_view d" "rdbuf_view (snd (acquire E x d)) = rdbuf_view d"
  by (simp_all add: rdbuf_view_def)

lemma rdbuf_view_upd_wq:
  "(wq_opcap (f (wqs d ! i)) = None) = (wq_opcap (wqs d ! i) = None) \<Longrightarrow> rdbuf_view (upd_wq i f d) = rdbuf_view d"
  by (simp add: rdbuf_view_def map_list_upd_at)

lemma wq_store_rdbuf:
  assumes "wq_store E i a buf n d = Some (rc, d')"
  shows "rdbuf_view d' = rdbuf_view d"
proof (cases "a = attr_wq_op_config")
  case True
  obtain r d1 where a: "acquire E (D TmpBuf) d = (r, d1)" by (cases "acquire E (D TmpBuf) d")
  have d1: "rdbuf_view d1 = rdbuf_view d" "wqs d1 = wqs d"
    using rdbuf_view_frame(2) [of E "D TmpBuf" d] wqs_acquire [of E "D TmpBuf" d] by (simp_all add: a)
  show ?thesis
    using assms True d1
    by (auto simp: wq_store_def wq_op_config_store_def a Let_def rdbuf_view_upd_wq split: if_splits sum.splits)
next
  case False
  have mv: "rdbuf_view (move_wq i t d) = rdbuf_view d" for t
    by (simp add: move_wq_def rdbuf_view_def Let_def split: option.split)
  show ?thesis
  proof (cases "a = attr_wq_group_id")
    case True
    then have "wq_group_id_store E i buf n d = (rc, d')" using assms by (simp add: wq_store_def)
    from wq_group_store_move [OF this] mv show ?thesis by auto
  next
    case gid: False
    show ?thesis using assms False gid
      by (cases a) (auto simp: wq_store_defs idxd_wq_set_max_batch_size_def rdbuf_view_upd_wq Let_def split_beta
          split: option.splits if_splits sum.splits)
  qed
qed

lemma free_rdbufs_fold:
  "fold (\<lambda>i r. r + uint (rdbufs_reserved (xs ! i))) [0..<length xs] (s :: int) =
     s + sum_list (map (\<lambda>g. uint (rdbufs_reserved g)) xs)"
proof (induction xs rule: rev_induct)
  case Nil
  then show ?case by simp
next
  case (snoc x xs)
  have "fold (\<lambda>i r. r + uint (rdbufs_reserved ((xs @ [x]) ! i))) [0..<length xs] s =
      fold (\<lambda>i r. r + uint (rdbufs_reserved (xs ! i))) [0..<length xs] s"
    by (rule fold_cong) (simp_all add: nth_append)
  then show ?case using snoc by simp
qed

lemma set_free_rdbufs:
  "length (groups d) = max_groups d \<Longrightarrow> idxd_set_free_rdbufs d = d\<lparr>nr_rdbufs := max_rdbufs d - reserved_total d\<rparr>"
  using free_rdbufs_fold [of "groups d" 0] by (simp add: idxd_set_free_rdbufs_def reserved_total_def Let_def)

lemma reserved_nonneg: "0 \<le> reserved_total d"
  unfolding reserved_total_def by (rule sum_list_nonneg) auto

lemma reserved_upd:
  assumes "g < length (groups d)"
  shows "reserved_total (upd_group g (\<lambda>x. x\<lparr>rdbufs_reserved := v\<rparr>) d) =
     reserved_total d - uint (rdbufs_reserved (groups d ! g)) + uint v"
  using assms sum_list_upd [OF assms, of "\<lambda>g. uint (rdbufs_reserved g)"]
  by (simp add: reserved_total_def list_upd_def)

lemma uint_to_ulong: "0 \<le> x \<Longrightarrow> x < 2 ^ 64 \<Longrightarrow> uint (to_ulong x) = x"
  by (simp add: to_ulong_def uint_word_of_int_eq take_bit_eq_mod)

lemma reserved_store_outcome:
  assumes ok: "rdbufs_ok d" and g: "g < max_groups d" and st: "group_read_buffers_reserved_store E g buf n d = (rc, d')"
  shows "rc < 0 \<and> d' = d \<or> rc = int n \<and> rdbufs_ok d' \<and>
     (\<exists>v. kstrtoul E 10 buf = Some v \<and> uint (rdbufs_reserved (groups d' ! g)) = uint v) \<and>
     nr_rdbufs d' + reserved_total d' = max_rdbufs d'"
proof (cases "rc < 0")
  case True
  then show ?thesis using st
    by (auto simp: group_read_buffers_reserved_store_def Let_def split: option.splits if_splits)
next
  case False
  then obtain v where v: "kstrtoul E 10 buf = Some v" "v \<le> to_ulong (max_rdbufs d)"
      "v \<le> to_ulong (nr_rdbufs d + uint (rdbufs_reserved (groups d ! g)))"
    and d': "d' = idxd_set_free_rdbufs (upd_group g (\<lambda>x. x\<lparr>rdbufs_reserved := ucast v\<rparr>) d)" "rc = int n"
    using st by (auto simp: group_read_buffers_reserved_store_def Let_def not_less split: option.splits if_splits)
  let ?r = "uint (rdbufs_reserved (groups d ! g))" and ?d1 = "upd_group g (\<lambda>x. x\<lparr>rdbufs_reserved := ucast v\<rparr>) d"
  have b: "max_rdbufs d < 256" "0 \<le> nr_rdbufs d" "nr_rdbufs d + reserved_total d \<le> max_rdbufs d" "0 \<le> ?r"
    and lg: "length (groups d) = max_groups d" using ok by (auto simp: rdbufs_ok_def)
  have rt: "?r \<le> reserved_total d"
    unfolding reserved_total_def by (rule member_le_sum_list) (use g lg in auto)
  have uv: "uint v \<le> max_rdbufs d" "uint v \<le> nr_rdbufs d + ?r"
    using v b rt reserved_nonneg [of d]
      uint_to_ulong [of "max_rdbufs d"] uint_to_ulong [of "nr_rdbufs d + ?r"] by (auto simp: word_le_def)
  have uc: "uint (ucast v :: u8) = uint v"
    using uv b by (simp add: unsigned_ucast_eq take_bit_int_eq_self)
  have r1: "reserved_total ?d1 = reserved_total d - ?r + uint v"
    using reserved_upd [of g d "ucast v"] g lg uc by simp
  have d1: "d' = ?d1\<lparr>nr_rdbufs := max_rdbufs d - reserved_total ?d1\<rparr>"
    using d' set_free_rdbufs [of ?d1] lg by simp
  have tot: "reserved_total d' = reserved_total ?d1" by (simp add: d1 reserved_total_def)
  have "rdbufs_ok d'"
    using ok r1 uv tot b by (simp add: d1 rdbufs_ok_def opcap_present_def)
  then show ?thesis using d'(2) v(1) uc g lg tot by (simp add: d1 nth_list_upd)
qed

lemma group_store_rdbufs:
  assumes ok: "rdbufs_ok d" and g: "g < max_groups d" and st: "group_store E g a buf n d = (rc, d')"
  shows "rdbufs_ok d'"
proof (cases "a \<in> {attr_group_tokens_reserved, attr_group_read_buffers_reserved}")
  case True
  then have "group_read_buffers_reserved_store E g buf n d = (rc, d')"
    using st by (auto simp: group_store_def group_tokens_reserved_store_def)
  from reserved_store_outcome [OF ok g this] ok show ?thesis by auto
next
  case False
  have "rdbuf_view d' = rdbuf_view d"
    using st False by (cases a) (auto simp: group_store_defs rdbuf_view_def Let_def split: option.splits if_splits)
  then show ?thesis by (rule rdbufs_ok_cong [OF _ ok])
qed

lemma store_rdbufs:
  assumes ok: "rdbufs_ok d" and u: "writable f d" and st: "sysfs_store E f buf n d = Some (rc, d')"
  shows "rdbufs_ok d'"
proof (cases f)
  case (FEngine e)
  then have "engine_group_id_store E e buf n d = (rc, d')" using st by (simp add: sysfs_store_def)
  moreover have "rdbuf_view (move_engine e t d) = rdbuf_view d" for t
    by (simp add: move_engine_def rdbuf_view_def Let_def split: option.split)
  ultimately show ?thesis
    using engine_store_move [of E e buf n d rc d'] rdbufs_ok_cong [OF _ ok] ok by auto
next
  case (FGroup g a)
  then show ?thesis using st u group_store_rdbufs [OF ok] by (auto simp: sysfs_store_def dest: writable_group)
next
  case (FWq i a)
  then show ?thesis using st wq_store_rdbuf rdbufs_ok_cong [OF _ ok] by (simp add: sysfs_store_def)
next
  case (FDev a)
  then have "rdbuf_view d' = rdbuf_view d"
    using st by (cases a) (auto simp: sysfs_store_def dev_store_defs rdbuf_view_def Let_def split: option.splits if_splits)
  then show ?thesis by (rule rdbufs_ok_cong [OF _ ok])
qed

lemma rdbufs_defined: "rdbufs_ok d \<Longrightarrow> writable f d \<Longrightarrow> sysfs_store E f buf n d \<noteq> None"
  by (rule store_not_null) (simp_all add: rdbufs_ok_def)

interpretation rdbuf: atomic_files "sysfs_store E" writable rdbufs_ok quiet for E
  by unfold_locales ((rule rdbufs_defined store_rdbufs store_refused; assumption)+)

subsection \<open>Limits of a queue\<close>

text \<open>
  What the files promise of one queue: the flags are consistent, the numbers are within the
  device's and the driver's bounds, the names fit in their buffers and the operation mask asks
  only for operations of the device.
\<close>

definition wq_limits :: "idxd_device \<Rightarrow> idxd_wq \<Rightarrow> bool" where
  "wq_limits d w \<longleftrightarrow>
     \<not> (bit (wq_flags w) WQ_FLAG_BLOCK_ON_FAULT \<and> bit (wq_flags w) WQ_FLAG_PRS_DISABLE) \<and>
     (wq_dedicated w \<longrightarrow> threshold w = 0) \<and> priority w \<le> 15 \<and>
     enqcmds_retries w \<le> IDXD_ENQCMDS_MAX_RETRIES \<and>
     length (wq_name w) \<le> WQ_NAME_SIZE \<and> length (driver_name w) \<le> DRIVER_NAME_SIZE \<and>
     max_xfer_bytes w \<le> dev_max_xfer_bytes d \<and> max_batch_size w \<le> dev_max_batch_size d \<and>
     (case wq_opcap w of None \<Rightarrow> getf wq_cap_reg ''op_config'' (wq_cap d) = 0
      | Some m \<Rightarrow> m AND NOT (dev_opcap d) = 0)"

text \<open>\<^verbatim>\<open>strim\<close> removes characters, it never adds any.\<close>

definition strim_shortens :: "env \<Rightarrow> bool" where
  "strim_shortens E \<longleftrightarrow> (\<forall>s. length (strim E s) \<le> length s)"

definition limits_ok :: "env \<Rightarrow> idxd_device \<Rightarrow> bool" where
  "limits_ok E d \<longleftrightarrow> strim_shortens E \<and> length (wqs d) = max_wqs d \<and> (\<forall>w\<in>set (wqs d). wq_limits d w)"

lemma limits_upd_wq:
  assumes ok: "limits_ok E d" and f: "wq_limits d (wqs d ! i) \<Longrightarrow> wq_limits d (f (wqs d ! i))"
  shows "limits_ok E (upd_wq i f d)"
proof -
  have "wq_limits d x" if "x \<in> set (list_upd i f (wqs d))" for x
  proof -
    obtain j where j: "j < length (wqs d)" "x = list_upd i f (wqs d) ! j"
      using \<open>x \<in> set (list_upd i f (wqs d))\<close> by (metis in_set_conv_nth length_list_upd)
    then have "wq_limits d (wqs d ! j)" using ok by (simp add: limits_ok_def)
    then show ?thesis using f j by (auto simp: nth_list_upd)
  qed
  then show ?thesis using ok by (simp add: limits_ok_def wq_limits_def cong: option.case_cong)
qed

lemma limits_frame [simp]:
  "limits_ok E (release x d) = limits_ok E d" "limits_ok E (snd (acquire E' x d)) = limits_ok E d"
  "limits_ok E (upd_group g h d) = limits_ok E d" "limits_ok E (upd_engine e k d) = limits_ok E d"
  "wq_limits (snd (acquire E' x d)) = wq_limits d"
  by (auto simp: limits_ok_def wq_limits_def fun_eq_iff cong: option.case_cong)

lemma flag_bits:
  "bit (set_bit m f) n \<longleftrightarrow> bit f n \<or> m = n \<and> n < 64" "bit (unset_bit m f) n \<longleftrightarrow> bit f n \<and> m \<noteq> n" for f :: u64
  by (auto simp: bit_simps)

lemma verify_supported: "\<not> idxd_verify_supported_opcap m d < 0 \<Longrightarrow> m AND NOT (dev_opcap d) = 0"
proof (rule bit_word_eqI)
  fix n assume "\<not> idxd_verify_supported_opcap m d < 0" "n < LENGTH(256)"
  then show "bit (m AND NOT (dev_opcap d)) n = bit 0 n"
    by (auto simp: idxd_verify_supported_opcap_def find_None_iff bit_simps split: if_splits)
qed

lemma unat_ucast_le: "unat (ucast (v :: 'a::len word) :: 'b::len word) \<le> unat v"
  by (simp add: unsigned_ucast_eq)

lemma ucast_le_15: "v \<le> IDXD_MAX_PRIORITY \<Longrightarrow> (ucast v :: u32) \<le> 15"
  using order_trans [OF unat_ucast_le [of v, where ?'b = 32], of 15] by (simp add: word_le_nat_alt)

lemma ucast_batch:
  assumes "v \<le> ucast (b :: u32)"
  shows "(ucast (v :: u64) :: u32) \<le> b"
  using order_trans [OF order_trans [OF unat_ucast_le [of v, where ?'b = 32]] unat_ucast_le [of b, where ?'b = 64]] assms
  by (simp add: word_le_nat_alt)

lemma name_store_limits:
  assumes ok: "limits_ok E d"
  shows "wq_name_store E i buf n d = (rc, d') \<Longrightarrow> limits_ok E d'"
    and "wq_driver_name_store E i buf n d = (rc, d') \<Longrightarrow> limits_ok E d'"
proof -
  have s: "length (strim E (take n buf)) \<le> length buf"
  proof -
    have "length (strim E (take n buf)) \<le> length (take n buf)"
      using ok unfolding limits_ok_def strim_shortens_def by blast
    then show ?thesis by simp
  qed
  obtain r d1 where a: "acquire E (D TmpBuf) d = (r, d1)" by (cases "acquire E (D TmpBuf) d")
  have d1: "limits_ok E d1" using limits_frame(2) [of E E "D TmpBuf" d] ok by (simp add: a)
  show "wq_name_store E i buf n d = (rc, d') \<Longrightarrow> limits_ok E d'"
    using d1 ok s
    by (auto simp: wq_name_store_def a Let_def wq_limits_def wq_dedicated_def split: if_splits intro!: limits_upd_wq)
  show "wq_driver_name_store E i buf n d = (rc, d') \<Longrightarrow> limits_ok E d'"
    using d1 ok s
    by (auto simp: wq_driver_name_store_def a Let_def wq_limits_def wq_dedicated_def split: if_splits intro!: limits_upd_wq)
qed

lemma op_config_limits:
  assumes ok: "limits_ok E d" and st: "wq_op_config_store E i buf n d = Some (rc, d')"
  shows "limits_ok E d'"
proof -
  obtain r d1 where a: "acquire E (D TmpBuf) d = (r, d1)" by (cases "acquire E (D TmpBuf) d")
  have d1: "limits_ok E d1" using limits_frame(2) [of E E "D TmpBuf" d] ok by (simp add: a)
  show ?thesis
    using d1 ok st verify_supported [of _ d1]
    by (auto simp: wq_op_config_store_def a Let_def wq_limits_def wq_dedicated_def split: if_splits sum.splits
        intro!: limits_upd_wq)
qed

lemma wq_store_limits:
  assumes ok: "limits_ok E d" and st: "wq_store E i a buf n d = Some (rc, d')"
  shows "limits_ok E d'"
proof (cases "a \<in> {attr_wq_name, attr_wq_driver_name, attr_wq_op_config, attr_wq_group_id}")
  case True
  have "limits_ok E (move_wq i t d)" for t
    unfolding move_wq_def Let_def using ok
    by (auto split: option.splits simp: wq_limits_def wq_dedicated_def intro!: limits_upd_wq)
  then have "wq_group_id_store E i buf n d = (rc, d') \<Longrightarrow> limits_ok E d'"
    using wq_group_store_move [of E i buf n d rc d'] ok by auto
  then show ?thesis
    using True st name_store_limits [OF ok] op_config_limits [OF ok] by (auto simp: wq_store_def)
next
  case False
  note upd = limits_upd_wq [OF ok, of i]
  show ?thesis
    using st False ok
    by (cases a) (auto simp: wq_store_defs get_sysfs_u64_def idxd_wq_set_max_batch_size_def wq_limits_def wq_dedicated_def
        flag_bits ucast_le_15 ucast_batch not_less Let_def split: option.splits if_splits sum.splits intro!: upd)
qed

lemma store_limits:
  assumes ok: "limits_ok E d" and st: "sysfs_store E f buf n d = Some (rc, d')"
  shows "limits_ok E d'"
proof (cases f)
  case (FEngine e)
  then have "engine_group_id_store E e buf n d = (rc, d')" using st by (simp add: sysfs_store_def)
  moreover have "limits_ok E (move_engine e t d)" for t
    using ok by (simp add: move_engine_def Let_def split: option.split)
  ultimately show ?thesis using engine_store_move [of E e buf n d rc d'] ok by auto
next
  case (FGroup g a)
  have nr: "limits_ok E (x\<lparr>nr_rdbufs := k\<rparr>) = limits_ok E x" for x k
    by (simp add: limits_ok_def wq_limits_def cong: option.case_cong)
  show ?thesis using st ok FGroup
    by (cases a) (auto simp: sysfs_store_def group_store_defs nr Let_def split: option.splits if_splits)
next
  case (FWq i a)
  then show ?thesis using st wq_store_limits [OF ok] by (simp add: sysfs_store_def)
next
  case (FDev a)
  have dv: "limits_ok E (d\<lparr>rdbuf_limit := k\<rparr>) = limits_ok E d" "limits_ok E (d\<lparr>cmd_status := c\<rparr>) = limits_ok E d"
    "limits_ok E (d\<lparr>dev_evl := v\<rparr>) = limits_ok E d" for k c v
    by (simp_all add: limits_ok_def wq_limits_def cong: option.case_cong)
  show ?thesis using st ok FDev
    by (cases a) (auto simp: sysfs_store_def dev_store_defs dv Let_def split: option.splits if_splits)
qed

lemma limits_defined: "limits_ok E d \<Longrightarrow> writable f d \<Longrightarrow> sysfs_store E f buf n d \<noteq> None"
  by (rule store_not_null) (auto simp: limits_ok_def wq_limits_def opcap_present_def split: option.splits)

interpretation lim: atomic_files "sysfs_store E" writable "limits_ok E" quiet for E
  by unfold_locales ((rule limits_defined store_limits store_refused; assumption)+)

subsection \<open>Properties\<close>

text \<open>
  C5: the group counters. Any sequence of writes to the configuration files, accepted or
  refused, ends without a NULL dereference in a state in which every group's \<open>num_engines\<close> and
  \<open>num_wqs\<close> are the numbers of engines and queues that point to it.
\<close>
theorem sysfs_keeps_members:
  assumes "members_ok d"
  shows "\<exists>d'. run_writes (sysfs_store E) writable ws d = Some d' \<and> members_ok d'"
  by (rule memb.run_inv [OF assms])

text \<open>
  C12: read buffers are never promised twice. Any sequence of writes keeps the number of free
  read buffers non-negative and the free and the reserved ones together within the device's.
\<close>
theorem sysfs_keeps_rdbufs:
  assumes "rdbufs_ok d"
  shows "\<exists>d'. run_writes (sysfs_store E) writable ws d = Some d' \<and> 0 \<le> nr_rdbufs d' \<and>
     nr_rdbufs d' + reserved_total d' \<le> max_rdbufs d'"
  using rdbuf.run_inv [OF assms, of E ws] by (auto simp: rdbufs_ok_def)

text \<open>
  C28: the limits of the queues. Any sequence of writes keeps, for every queue: block-on-fault
  is off when page requests are disabled, a dedicated queue has no threshold, priority and
  retry count are in range, both names fit their buffers, the transfer and batch sizes are
  within the device's and the operation mask is within the device's operations.
\<close>
theorem sysfs_keeps_limits:
  assumes "limits_ok E d"
  shows "\<exists>d'. run_writes (sysfs_store E) writable ws d = Some d' \<and> (\<forall>w\<in>set (wqs d'). wq_limits d' w)"
  using lim.run_inv [OF assms, of ws] by (auto simp: limits_ok_def)

text \<open>
  C29: a refused write changes nothing: when a store function returns a negative code, the whole
  state, the resources the driver holds included, is what it was, up to the trace of calls.
\<close>
theorem sysfs_refused_unchanged:
  assumes "sysfs_store E f buf n d = Some (rc, d')" "rc < 0"
  shows "d' = d\<lparr>trace := trace d'\<rparr>"
proof -
  have q: "quiet d' = quiet d" by (rule store_refused [OF assms])
  have "d' = (quiet d')\<lparr>trace := trace d'\<rparr>" by (simp add: quiet_def)
  also have "\<dots> = d\<lparr>trace := trace d'\<rparr>" unfolding q by (simp add: quiet_def)
  finally show ?thesis .
qed

text \<open>
  C30: a running queue cannot be reconfigured. While the device and the queue are enabled, no
  write to a file of the queue changes the state, except the retry count of a shared queue.
\<close>
theorem running_wq_frozen:
  assumes "dev_state d = IDXD_DEV_ENABLED" "wq_state (wqs d ! i) = IDXD_WQ_ENABLED"
    and "wq_store E i a buf n d = Some (rc, d')"
  shows "d' = d \<or> a = attr_wq_enqcmds_retries \<and> wq_shared (wqs d ! i) \<and>
     (\<exists>v\<le>IDXD_ENQCMDS_MAX_RETRIES. d' = upd_wq i (\<lambda>w. w\<lparr>enqcmds_retries := v\<rparr>) d)"
proof (cases "a = attr_wq_enqcmds_retries")
  case True
  define lim where "lim r = (if r > IDXD_ENQCMDS_MAX_RETRIES then IDXD_ENQCMDS_MAX_RETRIES else r)" for r :: u32
  have lim: "lim r \<le> IDXD_ENQCMDS_MAX_RETRIES" for r by (simp add: lim_def not_less)
  have "wq_enqcmds_retries_store E i buf n d = (rc, d')" using True assms(3) by (simp add: wq_store_def)
  then have "d' = d \<or> wq_shared (wqs d ! i) \<and> (\<exists>r. d' = upd_wq i (\<lambda>w. w\<lparr>enqcmds_retries := lim r\<rparr>) d)"
    unfolding wq_enqcmds_retries_store_def Let_def lim_def [symmetric]
    by (auto simp: wq_shared_def wq_dedicated_def split: if_splits sum.splits)
  then show ?thesis using True lim by auto
next
  case False
  have "d' = d" using assms False
    by (cases a) (auto simp: wq_store_defs split: option.splits if_splits sum.splits)
  then show ?thesis by simp
qed

lemma progress_value:
  fixes v :: u32
  assumes "(scast v :: u64) AND NOT 3 = 0"
  shows "0 \<le> sint v" "sint v \<le> 3"
proof -
  have t: "bit (3 :: u64) k \<longleftrightarrow> k < 2" for k
    using bit_mask_iff [of 2 k, where 'a = u64] by (auto simp: mask_eq_exp_minus_1)
  have "v = take_bit 2 v"
  proof (rule bit_word_eqI)
    fix k assume k: "k < LENGTH(32)"
    then have p: "possible_bit TYPE(u64) k" by simp
    have "\<not> bit ((scast v :: u64) AND NOT 3) k" unfolding assms by simp
    then have "bit (scast v :: u64) k \<longrightarrow> k < 2"
      unfolding bit_and_iff bit_not_iff t using p by blast
    moreover have "bit (scast v :: u64) k \<longleftrightarrow> bit v k" using k by (auto simp: bit_simps)
    ultimately show "bit v k \<longleftrightarrow> bit (take_bit 2 v) k" by (auto simp: bit_take_bit_iff)
  qed
  have u: "uint v < 4"
    using ord_eq_less_trans [OF trans [OF arg_cong [OF \<open>v = take_bit 2 v\<close>, of uint] unsigned_take_bit_eq]
        take_bit_int_less_exp] by simp
  have "- (2 ^ 31) \<le> uint v" by (rule order_trans [of _ 0]) simp_all
  then have "sint v = uint v"
    using signed_take_bit_int_eq_self [of 31 "uint v"] u by (simp add: sint_uint)
  then show "0 \<le> sint v" "sint v \<le> 3" using u by simp_all
qed

text \<open>
  the group files of an enabled or fixed-configuration device. Writes to every group file
  are refused without effect, except those to the two progress limits, whose store functions
  look neither at the device's state nor at its configurability and accept 0 to 3.
\<close>
theorem group_files_guarded:
  assumes "dev_state d = IDXD_DEV_ENABLED \<or> \<not> configurable d" and "group_store E g a buf n d = (rc, d')"
  shows "rc < 0 \<and> d' = d \<or>
     a = attr_group_desc_progress_limit \<and> rc = int n \<and>
       (\<exists>v\<in>{0..3}. d' = upd_group g (\<lambda>x. x\<lparr>desc_progress_limit := v\<rparr>) d) \<or>
     a = attr_group_batch_progress_limit \<and> rc = int n \<and>
       (\<exists>v\<in>{0..3}. d' = upd_group g (\<lambda>x. x\<lparr>batch_progress_limit := v\<rparr>) d)"
proof -
  have r: "sint v \<in> {0..3}" if "(scast v :: u64) AND - 4 = 0" for v :: u32
    using progress_value [of v] that by simp
  define ok where "ok v \<longleftrightarrow> (scast v :: u64) AND NOT 3 = 0" for v :: u32
  have "rc < 0 \<and> d' = d \<or> (\<exists>v. ok v \<and> rc = int n \<and>
      (a = attr_group_desc_progress_limit \<and> d' = upd_group g (\<lambda>x. x\<lparr>desc_progress_limit := sint v\<rparr>) d \<or>
       a = attr_group_batch_progress_limit \<and> d' = upd_group g (\<lambda>x. x\<lparr>batch_progress_limit := sint v\<rparr>) d))"
    using assms unfolding group_store_defs ok_def [symmetric]
    by (cases a) (auto split: option.splits if_splits)
  moreover have "sint v \<in> {0..3}" if "ok v" for v
    using that r unfolding ok_def by simp
  ultimately show ?thesis by blast
qed

subsection \<open>The size of a queue\<close>

definition claimed :: "idxd_device \<Rightarrow> int" where
  "claimed d = sum_list (map (\<lambda>w. uint (wq_size w)) (wqs d))"

lemma claimed_nonneg: "0 \<le> claimed d"
  unfolding claimed_def by (rule sum_list_nonneg) auto

lemma size_fold:
  "fold (\<lambda>i s. s + wq_size (xs ! i)) [0..<length xs] s = s + sum_list (map wq_size xs)"
proof (induction xs rule: rev_induct)
  case Nil
  then show ?case by simp
next
  case (snoc x xs)
  have "fold (\<lambda>i s. s + wq_size ((xs @ [x]) ! i)) [0..<length xs] s = fold (\<lambda>i s. s + wq_size (xs ! i)) [0..<length xs] s"
    by (rule fold_cong) (simp_all add: nth_append)
  then show ?case using snoc by (simp add: ac_simps)
qed

lemma uint_sum_sizes:
  "sum_list (map (\<lambda>w. uint (wq_size w)) ws) < 2 ^ 32 \<Longrightarrow>
     uint (sum_list (map wq_size ws)) = sum_list (map (\<lambda>w. uint (wq_size w)) ws)"
proof (induction ws)
  case Nil
  then show ?case by simp
next
  case (Cons w ws)
  have nn: "0 \<le> sum_list (map (\<lambda>w. uint (wq_size w)) ws)" by (rule sum_list_nonneg) auto
  have "0 \<le> uint (wq_size w)" by (rule uint_ge_0)
  with nn have lt: "sum_list (map (\<lambda>w. uint (wq_size w)) ws) < 2 ^ 32" "0 \<le> uint (wq_size w)"
    using Cons.prems unfolding list.map sum_list.Cons by linarith+
  then have "(uint (wq_size w) + sum_list (map (\<lambda>w. uint (wq_size w)) ws)) mod 2 ^ 32 =
      uint (wq_size w) + sum_list (map (\<lambda>w. uint (wq_size w)) ws)"
    using nn Cons.prems by (intro mod_pos_pos_trivial) simp_all
  then show ?case using Cons.IH [OF lt(1)] by (simp add: uint_word_ariths)
qed

lemma total_claimed:
  assumes "length (wqs d) = max_wqs d" "claimed d < 2 ^ 31"
  shows "total_claimed_wq_size d = claimed d"
proof -
  have u: "uint (sum_list (map wq_size (wqs d))) = claimed d"
    using uint_sum_sizes [of "wqs d"] assms(2) by (simp add: claimed_def)
  have "total_claimed_wq_size d = sint (sum_list (map wq_size (wqs d)))"
    using size_fold [of "wqs d" 0] assms(1) by (simp add: total_claimed_wq_size_def)
  also have "\<dots> = signed_take_bit 31 (claimed d)" by (simp add: sint_uint u)
  also have "\<dots> = claimed d"
    using assms(2) claimed_nonneg [of d] by (intro signed_take_bit_int_eq_self) auto
  finally show ?thesis .
qed

lemma wq_size_store_decides:
  assumes len: "length (wqs d) = max_wqs d" and i: "i < max_wqs d" and c: "claimed d < 2 ^ 31"
    and m: "0 \<le> max_wq_size d" "max_wq_size d < 2 ^ 31"
    and p: "kstrtoul E 10 buf = Some n" and g: "configurable d" "dev_state d \<noteq> IDXD_DEV_ENABLED"
  shows "wq_size_store E i buf k d =
     (if (uint n + (claimed d - uint (wq_size (wqs d ! i)))) mod 2 ^ 64 \<le> max_wq_size d
      then (int k, upd_wq i (\<lambda>w. w\<lparr>wq_size := ucast n\<rparr>) d) else (- EINVAL, d))"
proof -
  have "uint (n + to_ulong (claimed d) - ucast (wq_size (wqs d ! i)) :: u64) =
      (uint n + (claimed d - uint (wq_size (wqs d ! i)))) mod 2 ^ 64"
    by (simp add: uint_word_ariths to_ulong_def take_bit_eq_mod mod_simps uint_word_of_int unsigned_ucast_eq algebra_simps)
  moreover have "uint (to_ulong (max_wq_size d)) = max_wq_size d" using m by (simp add: uint_to_ulong)
  ultimately show ?thesis
    using p g total_claimed [OF len c] by (simp add: wq_size_store_def word_less_def not_less)
qed

lemma claimed_upd:
  "i < length (wqs d) \<Longrightarrow> claimed (upd_wq i (\<lambda>w. w\<lparr>wq_size := v\<rparr>) d) = claimed d - uint (wq_size (wqs d ! i)) + uint v"
  using sum_list_upd [of i "wqs d" "\<lambda>w. uint (wq_size w)"] by (simp add: claimed_def list_upd_def)

lemma size_le_claimed: "i < length (wqs d) \<Longrightarrow> uint (wq_size (wqs d ! i)) \<le> claimed d"
  unfolding claimed_def by (rule member_le_sum_list) auto

text \<open>
  the size check for sizes below \<open>2 ^ 63\<close>. A new size is accepted exactly when it and the
  sizes of the other queues are together at most the device's total, the accepted size is the
  one stored, and the total claimed after the write is within the device's.
\<close>
theorem wq_size_store_bounded:
  assumes "length (wqs d) = max_wqs d" "i < max_wqs d" "claimed d \<le> max_wq_size d" "max_wq_size d < 2 ^ 31"
    and p: "kstrtoul E 10 buf = Some n" and g: "configurable d" "dev_state d \<noteq> IDXD_DEV_ENABLED"
    and n: "uint n < 2 ^ 63" and st: "wq_size_store E i buf k d = (rc, d')"
  shows "(rc = int k \<longleftrightarrow> uint n + (claimed d - uint (wq_size (wqs d ! i))) \<le> max_wq_size d) \<and>
     (rc = int k \<longrightarrow> uint (wq_size (wqs d' ! i)) = uint n \<and> claimed d' \<le> max_wq_size d') \<and>
     (rc \<noteq> int k \<longrightarrow> rc = - EINVAL \<and> d' = d)"
proof -
  let ?s = "uint (wq_size (wqs d ! i))"
  have il: "i < length (wqs d)" using assms by simp
  have b: "0 \<le> claimed d - ?s" "claimed d - ?s < 2 ^ 31" "0 \<le> max_wq_size d" "claimed d < 2 ^ 31" "0 \<le> ?s"
    using assms(3,4) size_le_claimed [OF il] claimed_nonneg [of d] uint_ge_0 [of "wq_size (wqs d ! i)"] n
    by linarith+
  have m: "(uint n + (claimed d - ?s)) mod 2 ^ 64 = uint n + (claimed d - ?s)"
    using b n uint_ge_0 [of n] by (intro mod_pos_pos_trivial) (linarith, simp)
  have s: "wq_size_store E i buf k d = (if uint n + (claimed d - ?s) \<le> max_wq_size d
      then (int k, upd_wq i (\<lambda>w. w\<lparr>wq_size := ucast n\<rparr>) d) else (- EINVAL, d))"
    using wq_size_store_decides [OF assms(1,2) b(4) b(3) assms(4) p g, of k] unfolding m .
  have u: "uint (ucast n :: u32) = uint n" if "uint n + (claimed d - ?s) \<le> max_wq_size d"
    using that b assms(4) by (simp add: unsigned_ucast_eq take_bit_int_eq_self)
  show ?thesis
    using s st u claimed_upd [OF il, of "ucast n"] il
    by (auto simp: nth_list_upd split: if_splits)
qed

lemma minus_mod: "0 < x \<Longrightarrow> x < m \<Longrightarrow> (- x) mod m = m - x" for x m :: int
  by (simp add: zmod_zminus1_eq_if)

text \<open>
  the size check wraps. The sum is computed in 64 bits, so a size just below \<open>2 ^ 64\<close> cancels
  the sizes of the other queues and is accepted; the queue then gets a 32-bit size far above
  the device's total.
\<close>
theorem wq_size_store_wraps:
  assumes "length (wqs d) = max_wqs d" "i < max_wqs d" "claimed d \<le> max_wq_size d" "max_wq_size d < 2 ^ 31"
    and p: "kstrtoul E 10 buf = Some (- word_of_int (claimed d - uint (wq_size (wqs d ! i))))"
    and g: "configurable d" "dev_state d \<noteq> IDXD_DEV_ENABLED"
    and o: "uint (wq_size (wqs d ! i)) < claimed d" and st: "wq_size_store E i buf k d = (rc, d')"
  shows "rc = int k \<and> claimed d' = 2 ^ 32 \<and> claimed d' > max_wq_size d'"
proof -
  let ?s = "uint (wq_size (wqs d ! i))" and ?o = "claimed d - uint (wq_size (wqs d ! i))"
  have il: "i < length (wqs d)" using assms by simp
  have b: "0 < ?o" "?o < 2 ^ 31" "0 \<le> max_wq_size d" "claimed d < 2 ^ 31"
    using assms(3,4) o claimed_nonneg [of d] uint_ge_0 [of "wq_size (wqs d ! i)"]
    by linarith+
  have un: "uint (- word_of_int ?o :: u64) = (- ?o) mod 2 ^ 64"
    by (simp only: uint_word_ariths uint_word_of_int) (simp add: mod_simps)
  have "((- ?o) mod 2 ^ 64 + ?o) mod 2 ^ 64 = 0" by (simp add: mod_simps)
  then have s: "wq_size_store E i buf k d = (int k, upd_wq i (\<lambda>w. w\<lparr>wq_size := ucast (- word_of_int ?o :: u64)\<rparr>) d)"
    using wq_size_store_decides [OF assms(1,2) b(4,3) assms(4) p g, of k] b by (simp only: un) simp
  have "uint (ucast (- word_of_int ?o :: u64) :: u32) = ((- ?o) mod 2 ^ 64) mod 2 ^ 32"
    unfolding unsigned_ucast_eq un by (simp add: take_bit_eq_mod)
  also have "\<dots> = (- ?o) mod 2 ^ 32" by (rule mod_mod_cancel) simp
  also have "\<dots> = 2 ^ 32 - ?o" by (rule minus_mod) (use b(1,2) in linarith, use b(2) in simp)
  finally show ?thesis
    using s st claimed_upd [OF il, of "ucast (- word_of_int ?o :: u64)"] assms(4) by auto
qed

subsection \<open>Clearing the state\<close>

text \<open>
  clearing the driver's state, as a device disable or reset does, keeps the group counters
  and the read-buffer accounting: what the files guarantee survives a reset of the device.
\<close>
theorem clear_state_keeps_config:
  assumes "members_ok d" "rdbufs_ok d"
  shows "members_ok (idxd_device_clear_state E d) \<and> rdbufs_ok (idxd_device_clear_state E d)"
proof (cases "configurable d")
  case True
  let ?w = "\<lambda>w. (cleaned_wq (drv_type (drv_data d)) (dev_opcap d) w)\<lparr>wq_size := 0, wq_group := None\<rparr>"
  let ?g = "clear_group E (version d) (max_rdbufs d)"
  have wf: "wf_dev d" and l: "length (wqs d) = max_wqs d" "length (groups d) = max_groups d" "length (engines d) = max_engines d"
    using assms by (auto simp: members_ok_def wf_dev_def)
  have e: "idxd_device_clear_state E d = d\<lparr>wqs := map ?w (wqs d), groups := map ?g (groups d),
      engines := map (\<lambda>e. e\<lparr>eng_group := None\<rparr>) (engines d), dev_state := IDXD_DEV_DISABLED\<rparr>"
    using True l by (simp add: idxd_device_clear_state_def wqs_clear_state groups_clear_state engines_clear_state)
  have g: "num_engines (?g x) = 0" "num_wqs (?g x) = 0" "rdbufs_reserved (?g x) = 0" "grp_id (?g x) = grp_id x" for x
    by (simp_all add: clear_group_def Let_def)
  have z: "group_size f h (map k xs) = 0" if "\<And>x. f (k x) = None" for f h k and xs :: "'x list"
    using that by (simp add: group_size_def comp_def)
  have o: "opcap_present (idxd_device_clear_state E d)"
    using assms(1) by (auto simp: e members_ok_def opcap_present_def cleaned_wq_def)
  have "wf_dev (idxd_device_clear_state E d)"
    using wf by (auto simp: e wf_dev_def g cleaned_wq_def comp_def)
  then have "members_ok (idxd_device_clear_state E d)"
    using o by (simp add: members_ok_def) (simp add: e l g z)
  moreover have "rdbufs_ok (idxd_device_clear_state E d)"
    using o assms(2) reserved_nonneg [of d] by (simp add: rdbufs_ok_def) (simp add: e reserved_total_def g comp_def)
  ultimately show ?thesis by blast
next
  case False
  then have e: "idxd_device_clear_state E d = d\<lparr>dev_state := IDXD_DEV_DISABLED\<rparr>"
    by (simp add: idxd_device_clear_state_def)
  show ?thesis
    using members_ok_cong [OF _ assms(1), of "idxd_device_clear_state E d"]
      rdbufs_ok_cong [OF _ assms(2), of "idxd_device_clear_state E d"]
    by (simp add: e memb_view_def rdbuf_view_def)
qed

subsection \<open>Registration\<close>

text \<open>The counts of the configuration devices only: references and registrations.\<close>

definition conf_held :: "idxd_device \<Rightarrow> obj \<Rightarrow> int" where
  "conf_held d x = (case x of DevRef _ \<Rightarrow> held d x | Registered _ \<Rightarrow> held d x | _ \<Rightarrow> 0)"

lemma conf_held_release:
  "conf_held (release (DevRef c) d) = subh {DevRef c} (conf_held d)"
  "conf_held (release (Registered c) d) = subh {Registered c} (conf_held d)"
  "conf_held (release (W i w) d) = conf_held d" "conf_held (release (D r) d) = conf_held d"
  "conf_held (upd_wq i f d) = conf_held d"
  by (auto simp: conf_held_def subh_def fun_eq_iff split: obj.splits)

lemma conf_held_put: "conf_held (put_device c d) = subh {DevRef c} (conf_held d)"
  by (simp add: put_device_def Let_def conf_release_def idxd_conf_wq_release_def idxd_conf_device_release_def
      idxd_conf_engine_release_def idxd_conf_group_release_def Let_def conf_held_release split: conf_dev.splits)

lemma conf_held_unregister:
  "conf_held (device_unregister c d) = subh {DevRef c} (subh {Registered c} (conf_held d))"
  by (simp add: device_unregister_def conf_held_put conf_held_release)

lemma conf_held_acquire:
  "conf_held (snd (acquire E (Registered c) d)) =
     (if fst (acquire E (Registered c) d) < 0 then conf_held d else addh {Registered c} (conf_held d))"
  using held_acquire [of E "Registered c" d]
  by (auto simp: conf_held_def addh_def fun_eq_iff split: obj.splits)

text \<open>A loop that releases distinct objects, each once.\<close>

lemma conf_held_fold_put:
  assumes "inj c" "distinct ks"
  shows "conf_held (fold (\<lambda>k. put_device (c k)) ks d) = subh ((\<lambda>k. DevRef (c k)) ` set ks) (conf_held d)"
  using assms(2)
proof (induction ks arbitrary: d)
  case Nil
  then show ?case by simp
next
  case (Cons k ks)
  have "(\<lambda>k. DevRef (c k)) ` set ks \<inter> {DevRef (c k)} = {}" using Cons.prems assms(1) by (auto dest: injD)
  then show ?case using Cons by (simp add: conf_held_put subh_subh)
qed

lemma conf_held_fold_unregister:
  assumes "inj c" "distinct ks"
  shows "conf_held (fold (\<lambda>k. device_unregister (c k)) ks d) =
     subh ((\<lambda>k. Registered (c k)) ` set ks) (subh ((\<lambda>k. DevRef (c k)) ` set ks) (conf_held d))"
  using assms(2)
proof (induction ks arbitrary: d)
  case Nil
  then show ?case by simp
next
  case (Cons k ks)
  have "(\<lambda>k. DevRef (c k)) ` set ks \<inter> {DevRef (c k)} = {}" "(\<lambda>k. Registered (c k)) ` set ks \<inter> {Registered (c k)} = {}"
    "k \<notin> set ks"
    using Cons.prems assms(1) by (auto dest: injD)
  then show ?case
    using Cons.IH [of "device_unregister (c k) d"] Cons.prems
    by (simp add: conf_held_unregister) (auto simp: subh_def fun_eq_iff)
qed

lemma subh_addh_remaining:
  "r \<notin> A \<Longrightarrow> B \<inter> C = {} \<Longrightarrow> subh A (subh B (subh C (addh (insert r A) h))) = addh {r} (subh (B \<union> C) h)"
  by (auto simp: addh_def subh_def fun_eq_iff)

text \<open>
  One registration loop from \<open>j\<close>, with the devices below \<open>j\<close> registered already.
\<close>

lemma register_from_spec:
  assumes inj: "inj c" and j: "j \<le> n" and h: "conf_held d = addh ((\<lambda>k. Registered (c k)) ` {..<j}) h0"
  shows "case register_from E c n [j..<n] d of
       None \<Rightarrow> j = 0 \<and> 0 < n \<and> fst (acquire E (Registered (c 0)) d) < 0
     | Some (rc, d') \<Rightarrow>
          if 0 \<le> rc then rc = 0 \<and> conf_held d' = addh ((\<lambda>k. Registered (c k)) ` {..<n}) h0
          else \<exists>i. 0 < i \<and> i < n \<and> j \<le> i \<and>
             conf_held d' = addh {Registered (c (i - 1))} (subh ((\<lambda>k. DevRef (c k)) ` ({..<n} - {i - 1})) h0)"
  using j h
proof (induction "n - j" arbitrary: j d)
  case 0
  then show ?case by simp
next
  case (Suc m)
  then have jn: "j < n" by simp
  then have u: "[j..<n] = j # [Suc j..<n]" by (rule upt_conv_Cons)
  obtain rc d1 where a: "acquire E (Registered (c j)) d = (rc, d1)" by (cases "acquire E (Registered (c j)) d")
  have d1: "conf_held d1 = (if rc < 0 then conf_held d else addh {Registered (c j)} (conf_held d))"
    using conf_held_acquire [of E "c j" d] by (simp add: a)
  show ?case
  proof (cases "rc < 0")
    case True
    let ?d2 = "fold (\<lambda>k. put_device (c k)) [j..<n] d1"
    have r: "register_from E c n [j..<n] d = map_option (\<lambda>d. (rc, d)) (unregister_below c (int j - 1) ?d2)"
      unfolding arg_cong [OF u, of "\<lambda>is. register_from E c n is d"] by (simp add: a True)
    show ?thesis
    proof (cases "j = 0")
      case True
      then show ?thesis using r a \<open>rc < 0\<close> jn by (simp add: unregister_below_def)
    next
      case False
      let ?d3 = "fold (\<lambda>k. device_unregister (c k)) (rev [0..<j - 1]) ?d2"
      have "register_from E c n [j..<n] d = Some (rc, ?d3)"
        using r False by (simp add: unregister_below_def nat_diff_distrib)
      moreover have "conf_held ?d3 = addh {Registered (c (j - 1))} (subh ((\<lambda>k. DevRef (c k)) ` ({..<n} - {j - 1})) h0)"
      proof -
        let ?R = "\<lambda>k. Registered (c k)" and ?F = "\<lambda>k. DevRef (c k)"
        have "{..<j} = insert (j - 1) {..<j - 1}" using False by auto
        then have R: "?R ` {..<j} = insert (?R (j - 1)) (?R ` {..<j - 1})" by (simp only: image_insert)
        have "{..<n} - {j - 1} = {..<j - 1} \<union> {j..<n}" using False jn by auto
        then have F: "?F ` ({..<n} - {j - 1}) = ?F ` {..<j - 1} \<union> ?F ` {j..<n}" by (simp only: image_Un)
        have x: "?R (j - 1) \<notin> ?R ` {..<j - 1}" "?F ` {..<j - 1} \<inter> ?F ` {j..<n} = {}"
          by (auto simp: inj_eq [OF inj])
        have "conf_held ?d3 = subh (?R ` {..<j - 1}) (subh (?F ` {..<j - 1}) (subh (?F ` {j..<n}) (addh (?R ` {..<j}) h0)))"
          using conf_held_fold_unregister [OF inj, of "rev [0..<j - 1]" ?d2] conf_held_fold_put [OF inj, of "[j..<n]" d1]
            d1 True Suc.prems(2) by (simp add: atLeast0LessThan)
        then show ?thesis unfolding F R using subh_addh_remaining [OF x] by simp
      qed
      ultimately show ?thesis using True False jn by auto
    qed
  next
    case False
    have "{..<Suc j} = insert j {..<j}" by auto
    moreover have "Registered (c j) \<notin> (\<lambda>k. Registered (c k)) ` {..<j}" using inj by (auto dest: injD)
    ultimately have "conf_held d1 = addh ((\<lambda>k. Registered (c k)) ` {..<Suc j}) h0"
      using d1 False Suc.prems(2) by (auto simp: addh_def fun_eq_iff)
    moreover have "m = n - Suc j" "Suc j \<le> n" using Suc.hyps(2) jn by simp_all
    ultimately have ih: "case register_from E c n [Suc j..<n] d1 of
       None \<Rightarrow> Suc j = 0 \<and> 0 < n \<and> fst (acquire E (Registered (c 0)) d1) < 0
     | Some (rc, d') \<Rightarrow>
          if 0 \<le> rc then rc = 0 \<and> conf_held d' = addh ((\<lambda>k. Registered (c k)) ` {..<n}) h0
          else \<exists>i. 0 < i \<and> i < n \<and> Suc j \<le> i \<and>
             conf_held d' = addh {Registered (c (i - 1))} (subh ((\<lambda>k. DevRef (c k)) ` ({..<n} - {i - 1})) h0)"
      by (intro Suc.hyps(1))
    have r: "register_from E c n [j..<n] d = register_from E c n [Suc j..<n] d1"
      unfolding arg_cong [OF u, of "\<lambda>is. register_from E c n is d"] using False by (simp add: a)
    show ?thesis using ih unfolding r by (auto split: option.splits prod.splits if_splits)
  qed
qed

text \<open>
  registering the queues' devices. Either all are registered; or the first registration
  failed, and then the clean-up loop starts below zero and reads the queue array out of bounds;
  or a later registration failed, and then the last queue that was registered stays registered
  and keeps its reference, while all the others are dropped: the clean-up loop is off by one.
  The same holds for engines and groups.
\<close>
theorem register_devices_outcome:
  "(case idxd_register_wq_devices E d of
      None \<Rightarrow> 0 < max_wqs d \<and> fst (acquire E (Registered (DevWq 0)) d) < 0
    | Some (rc, d') \<Rightarrow>
        if 0 \<le> rc then rc = 0 \<and> conf_held d' = addh ((\<lambda>k. Registered (DevWq k)) ` {..<max_wqs d}) (conf_held d)
        else \<exists>i. 0 < i \<and> i < max_wqs d \<and> conf_held d' = addh {Registered (DevWq (i - 1))}
                   (subh ((\<lambda>k. DevRef (DevWq k)) ` ({..<max_wqs d} - {i - 1})) (conf_held d))) \<and>
   (case idxd_register_engine_devices E d of
      None \<Rightarrow> 0 < max_engines d \<and> fst (acquire E (Registered (DevEngine 0)) d) < 0
    | Some (rc, d') \<Rightarrow>
        if 0 \<le> rc then rc = 0 \<and> conf_held d' = addh ((\<lambda>k. Registered (DevEngine k)) ` {..<max_engines d}) (conf_held d)
        else \<exists>i. 0 < i \<and> i < max_engines d \<and> conf_held d' = addh {Registered (DevEngine (i - 1))}
                   (subh ((\<lambda>k. DevRef (DevEngine k)) ` ({..<max_engines d} - {i - 1})) (conf_held d))) \<and>
   (case idxd_register_group_devices E d of
      None \<Rightarrow> 0 < max_groups d \<and> fst (acquire E (Registered (DevGroup 0)) d) < 0
    | Some (rc, d') \<Rightarrow>
        if 0 \<le> rc then rc = 0 \<and> conf_held d' = addh ((\<lambda>k. Registered (DevGroup k)) ` {..<max_groups d}) (conf_held d)
        else \<exists>i. 0 < i \<and> i < max_groups d \<and> conf_held d' = addh {Registered (DevGroup (i - 1))}
                   (subh ((\<lambda>k. DevRef (DevGroup k)) ` ({..<max_groups d} - {i - 1})) (conf_held d)))"
proof -
  have h: "conf_held d = addh ((\<lambda>k. Registered (c k)) ` {..<0}) (conf_held d)" for c :: "nat \<Rightarrow> conf_dev" by simp
  have s: "case register_from E c n [0..<n] d of
      None \<Rightarrow> 0 < n \<and> fst (acquire E (Registered (c 0)) d) < 0
    | Some (rc, d') \<Rightarrow>
        if 0 \<le> rc then rc = 0 \<and> conf_held d' = addh ((\<lambda>k. Registered (c k)) ` {..<n}) (conf_held d)
        else \<exists>i. 0 < i \<and> i < n \<and> conf_held d' = addh {Registered (c (i - 1))}
                   (subh ((\<lambda>k. DevRef (c k)) ` ({..<n} - {i - 1})) (conf_held d))" if "inj c" for c n
    using register_from_spec [OF that le0 h, of n E] by (auto split: option.splits prod.splits if_splits)
  have "inj DevWq" "inj DevEngine" "inj DevGroup" by (auto intro: injI)
  then show ?thesis
    unfolding idxd_register_wq_devices_def idxd_register_engine_devices_def idxd_register_group_devices_def
    using s by (intro conjI)
qed

subsection \<open>Reading back what is shown\<close>

text \<open>The documented behaviour of the kernel's parsers on decimal text with a final newline.\<close>

definition reads_decimal :: "env \<Rightarrow> bool" where
  "reads_decimal E \<longleftrightarrow>
     (\<forall>n < 2 ^ 64. kstrtoul E 10 (dec n @ newline) = Some (word_of_nat n)) \<and>
     (\<forall>x. - (2 ^ 63) \<le> x \<and> x < 2 ^ 63 \<longrightarrow> kstrtol E 10 (fmt_d x @ newline) = Some x)"

lemma fmt_u_word: "fmt_u (uint (w :: u32)) = dec (unat w)"
  by (simp add: fmt_u_def)

lemma dec_small: "dec (Suc 0) = ''1''"
  by code_simp

lemma list_upd_id: "f (xs ! i) = xs ! i \<Longrightarrow> list_upd i f xs = xs"
  by (cases "i < length xs") (simp_all add: list_upd_def list_update_same_conv list_update_beyond)

lemma upd_wq_id: "f (wqs d ! i) = wqs d ! i \<Longrightarrow> upd_wq i f d = d"
  by (simp add: upd_wq_def list_upd_id)

lemma move_wq_same: "move_wq i (wq_group (wqs d ! i)) d = d"
  by (cases "wq_group (wqs d ! i)")
    (simp_all add: move_wq_def Let_def upd_wq_id upd_group_def upd_wq_def list_upd_list_upd list_upd_id)

lemma unat_small: "unat (w :: u32) < 2 ^ 64"
  by (rule less_le_trans [OF unsigned_less]) simp

lemma unat_small_nat: "x < 256 \<Longrightarrow> unat (word_of_nat x :: u32) = x"
  by (simp add: unsigned_of_nat take_bit_nat_eq_self)

lemma ucast_back: "ucast (ucast w :: u64) = w" for w :: u32
  by (rule bit_word_eqI) (auto simp: bit_simps)


subsection \<open>Witnesses\<close>

text \<open>A disabled device with two queues of 8 and 4 entries, the first one in group 0.\<close>

definition sample_files :: idxd_device where
  "sample_files = sample_dev
     \<lparr>dev_state := IDXD_DEV_DISABLED, max_rdbufs := 8, nr_rdbufs := 6, max_wq_size := 16,
      dev_max_xfer_bytes := 4096, dev_max_batch_size := 64,
      groups := [zero_group\<lparr>num_wqs := 1, rdbufs_reserved := 2\<rparr>],
      wqs := [zero_wq\<lparr>wq_group := Some 0, wq_size := 8\<rparr>, zero_wq\<lparr>wq_id := 1, wq_size := 4\<rparr>]\<rparr>"

definition enabled_files :: idxd_device where
  "enabled_files = sample_files
     \<lparr>dev_state := IDXD_DEV_ENABLED,
      wqs := [zero_wq\<lparr>wq_group := Some 0, wq_size := 8, wq_state := IDXD_WQ_ENABLED\<rparr>, zero_wq\<lparr>wq_id := 1, wq_size := 4\<rparr>]\<rparr>"

lemma sample_files_ok: "members_ok sample_files" "rdbufs_ok sample_files" "limits_ok sample_env sample_files"
  by (simp_all add: members_ok_def rdbufs_ok_def limits_ok_def wq_limits_def wq_dedicated_def strim_shortens_def opcap_present_def
      sample_files_def sample_dev_def sample_env_def zero_defs wf_dev_def group_size_def reserved_total_def upt_rec)

theorem sysfs_keeps_members_witness:
  "\<exists>d'. run_writes (sysfs_store sample_env) writable [(FWq 1 attr_wq_group_id, ''0'', 1)] sample_files = Some d' \<and> members_ok d'"
  by (rule sysfs_keeps_members [OF sample_files_ok(1)])

theorem sysfs_keeps_rdbufs_witness:
  "\<exists>d'. run_writes (sysfs_store sample_env) writable [(FGroup 0 attr_group_tokens_reserved, ''0'', 1)] sample_files = Some d' \<and>
     0 \<le> nr_rdbufs d'"
  using sysfs_keeps_rdbufs [OF sample_files_ok(2)] by blast

theorem sysfs_keeps_limits_witness:
  "\<exists>d'. run_writes (sysfs_store sample_env) writable [(FWq 0 attr_wq_prs_disable, ''1'', 1)] sample_files = Some d' \<and>
     (\<forall>w\<in>set (wqs d'). wq_limits d' w)"
  by (rule sysfs_keeps_limits [OF sample_files_ok(3)])

theorem sysfs_refused_unchanged_witness:
  "snd (the (sysfs_store sample_env (FWq 0 attr_wq_mode) ''shared'' 6 enabled_files)) =
     enabled_files\<lparr>trace := trace (snd (the (sysfs_store sample_env (FWq 0 attr_wq_mode) ''shared'' 6 enabled_files)))\<rparr>"
proof -
  have "sysfs_store sample_env (FWq 0 attr_wq_mode) ''shared'' 6 enabled_files = Some (- EPERM, enabled_files)"
    by (simp add: sysfs_store_def wq_store_def wq_mode_store_def enabled_files_def)
  from sysfs_refused_unchanged [OF this] this show ?thesis by simp
qed

theorem running_wq_frozen_witness:
  "snd (the (wq_store sample_env 0 attr_wq_type ''user'' 4 enabled_files)) = enabled_files"
proof -
  have s: "dev_state enabled_files = IDXD_DEV_ENABLED" "wq_state (wqs enabled_files ! 0) = IDXD_WQ_ENABLED"
    by (simp_all add: enabled_files_def)
  obtain rc d' where "wq_store sample_env 0 attr_wq_type ''user'' 4 enabled_files = Some (rc, d')"
    by (simp add: wq_store_def) (metis surj_pair)
  from running_wq_frozen [OF s this] this show ?thesis by simp
qed

theorem group_files_guarded_witness:
  "fst (group_store sample_env 0 attr_group_tokens_reserved ''1'' 1 enabled_files) < 0"
  using group_files_guarded [of enabled_files sample_env 0 attr_group_tokens_reserved "''1''" 1
      "fst (group_store sample_env 0 attr_group_tokens_reserved ''1'' 1 enabled_files)"
      "snd (group_store sample_env 0 attr_group_tokens_reserved ''1'' 1 enabled_files)"]
  by (simp add: enabled_files_def)

lemma sample_files_sel [simp]:
  "length (wqs sample_files) = 2" "max_wqs sample_files = 2" "max_wq_size sample_files = 16" "claimed sample_files = 12"
  "configurable sample_files" "dev_state sample_files \<noteq> IDXD_DEV_ENABLED" "wq_size (wqs sample_files ! Suc 0) = 4"
  "wq_state (wqs sample_files ! Suc 0) = IDXD_WQ_DISABLED" "priority (wqs sample_files ! Suc 0) = 0"
  by (simp_all add: sample_files_def sample_dev_def zero_defs claimed_def configurable_def)

definition size_env :: "u64 \<Rightarrow> env" where
  "size_env n = sample_env\<lparr>kstrtoul := (\<lambda>_ _. Some n)\<rparr>"

theorem wq_size_store_bounded_witness:
  "fst (wq_size_store (size_env 8) 1 ''8'' 1 sample_files) = 1"
  using wq_size_store_bounded [of sample_files 1 "size_env 8" "''8''" 8 1 "fst (wq_size_store (size_env 8) 1 ''8'' 1 sample_files)"
      "snd (wq_size_store (size_env 8) 1 ''8'' 1 sample_files)"]
  by (simp add: size_env_def)

theorem wq_size_store_wraps_witness:
  "claimed (snd (wq_size_store (size_env (- 8)) 1 [] 1 sample_files)) = 2 ^ 32"
  using wq_size_store_wraps [of sample_files 1 "size_env (- 8)" "[]" 1 "fst (wq_size_store (size_env (- 8)) 1 [] 1 sample_files)"
      "snd (wq_size_store (size_env (- 8)) 1 [] 1 sample_files)"]
  by (simp add: size_env_def)

theorem clear_state_keeps_config_witness: "members_ok (idxd_device_clear_state E sample_files)"
  using clear_state_keeps_config [OF sample_files_ok(1,2)] by simp

text \<open>A parser that meets the contract: the digits read back.\<close>

definition parse_digits :: "string \<Rightarrow> nat" where
  "parse_digits s = foldl (\<lambda>n c. 10 * n + (of_char c - 48)) 0 (takeWhile (\<lambda>c. c \<noteq> CHR 0x0A) s)"

definition parse_int :: "string \<Rightarrow> int" where
  "parse_int s = (if take 1 s = ''-'' then - int (parse_digits (tl s)) else int (parse_digits s))"

definition decimal_env :: env where
  "decimal_env = sample_env\<lparr>kstrtoul := (\<lambda>_ s. Some (word_of_nat (parse_digits s))), kstrtol := (\<lambda>_ s. Some (parse_int s))\<rparr>"

lemma digit_char: "k < 10 \<Longrightarrow> of_char (char_of (48 + k :: nat)) = 48 + k" "k < 10 \<Longrightarrow> char_of (48 + k :: nat) \<noteq> CHR 0x0A"
proof -
  show v: "k < 10 \<Longrightarrow> of_char (char_of (48 + k :: nat)) = 48 + k" by simp
  have "of_char (CHR 0x0A) = (10 :: nat)" by code_simp
  then show "k < 10 \<Longrightarrow> char_of (48 + k :: nat) \<noteq> CHR 0x0A" using v by force
qed

lemma dec_digits: "c \<in> set (dec n) \<Longrightarrow> \<exists>k<10. c = char_of (48 + k :: nat)"
proof (induction n rule: dec.induct)
  case (1 n)
  consider "n < 10" "c = char_of (48 + n)" | "\<not> n < 10" "c \<in> set (dec (n div 10))" | "c = char_of (48 + n mod 10)"
    using 1(2) by (auto simp: dec.simps [of n] simp del: char_of_quasi_inj split: if_splits)
  then show ?case
  proof cases
    case 3
    have "n mod 10 < 10" by simp
    then show ?thesis using 3 by blast
  qed (use 1 in blast)+
qed

lemma parse_dec_foldl: "foldl (\<lambda>n c. 10 * n + (of_char c - 48)) 0 (dec n) = n"
proof (induction n rule: dec.induct)
  case (1 n)
  then show ?case
    by (cases "n < 10") (simp_all add: dec.simps [of n] digit_char)
qed

lemma parse_dec: "parse_digits (dec n @ newline) = n"
proof -
  have "\<forall>c\<in>set (dec n). c \<noteq> CHR 0x0A" using dec_digits [of _ n] digit_char(2) by (metis (full_types))
  then have "takeWhile (\<lambda>c. c \<noteq> CHR 0x0A) (dec n @ newline) = dec n @ takeWhile (\<lambda>c. c \<noteq> CHR 0x0A) newline"
    by (intro takeWhile_append2) blast
  also have "\<dots> = dec n" by (simp add: newline_def)
  finally have "takeWhile (\<lambda>c. c \<noteq> CHR 0x0A) (dec n @ newline) = dec n" .
  then show ?thesis by (simp add: parse_digits_def parse_dec_foldl)
qed

lemma dec_head: "take 1 (dec n @ newline) \<noteq> ''-''"
proof -
  obtain c cs where c: "dec n = c # cs" by (cases "dec n") (auto simp: dec.simps [of n] split: if_splits)
  then obtain k where "k < 10" "c = char_of (48 + k :: nat)" using dec_digits [of c n] by auto
  moreover have "of_char CHR ''-'' = (45 :: nat)" by code_simp
  ultimately have "c \<noteq> CHR ''-''" using digit_char(1) [of k] by force
  then show ?thesis by (simp add: c)
qed

lemma decimal_env_reads: "reads_decimal decimal_env"
  using dec_head by (auto simp: reads_decimal_def decimal_env_def parse_dec parse_int_def fmt_d_def)


end
