(* ===== verification/Cdev.thy ===== *)
theory Cdev
  imports Attributes Evl
begin

text \<open>
  The character device of \<^verbatim>\<open>idxd/cdev.c\<close> and the fault work of \<^verbatim>\<open>idxd/irq.c\<close>. A user
  context is named by its address; the state holds the contexts that exist, the allocator of
  file numbers, which is shared by all queues, and the queue locks the running thread holds. A
  thread that asks for a lock it holds never returns, and a context that is used after it was
  freed is a fault: both are \<^const>\<open>None\<close>. Dropping the last reference to a file's device runs
  its release function at once.
\<close>

subsection \<open>User contexts\<close>

record user_ctx =
  uc_wq :: nat
  uc_pasid :: u32
  uc_sva :: bool
  uc_counters :: "u64 list"
  uc_id :: int
  uc_pid :: int

definition zero_ctx :: user_ctx where
  "zero_ctx = \<lparr>uc_wq = 0, uc_pasid = 0, uc_sva = False, uc_counters = [0, 0], uc_id = 0, uc_pid = 0\<rparr>"

record cdev_state =
  cd_dev :: idxd_device
  cd_ctx :: "nat \<Rightarrow> user_ctx option"
  cd_ida :: "int set"
  cd_locks :: "nat set"

abbreviation (input) COUNTER_FAULTS :: nat where "COUNTER_FAULTS \<equiv> 0"
abbreviation (input) COUNTER_FAULT_FAILS :: nat where "COUNTER_FAULT_FAILS \<equiv> 1"
abbreviation (input) COUNTER_MAX :: nat where "COUNTER_MAX \<equiv> 2"

definition on_dev :: "(idxd_device \<Rightarrow> idxd_device) \<Rightarrow> cdev_state \<Rightarrow> cdev_state" where
  "on_dev f s = s\<lparr>cd_dev := f (cd_dev s)\<rparr>"

definition upd_ctx :: "nat \<Rightarrow> (user_ctx \<Rightarrow> user_ctx) \<Rightarrow> cdev_state \<Rightarrow> cdev_state" where
  "upd_ctx c f s = s\<lparr>cd_ctx := (cd_ctx s)(c := map_option f (cd_ctx s c))\<rparr>"

definition kfree_ctx :: "nat \<Rightarrow> cdev_state \<Rightarrow> cdev_state" where
  "kfree_ctx c s = on_dev (release (F c Uctx)) (s\<lparr>cd_ctx := (cd_ctx s)(c := None)\<rparr>)"

definition lock_wq :: "nat \<Rightarrow> cdev_state \<Rightarrow> cdev_state option" where
  "lock_wq i s = (if i \<in> cd_locks s then None else Some (s\<lparr>cd_locks := insert i (cd_locks s)\<rparr>))"

definition unlock_wq :: "nat \<Rightarrow> cdev_state \<Rightarrow> cdev_state" where
  "unlock_wq i s = s\<lparr>cd_locks := cd_locks s - {i}\<rparr>"

subsection \<open>Attributes of a file\<close>

definition cr_faults_show :: "user_ctx \<Rightarrow> string" where
  "cr_faults_show u = fmt_u (uint (uc_counters u ! COUNTER_FAULTS))"

definition cr_fault_failures_show :: "user_ctx \<Rightarrow> string" where
  "cr_fault_failures_show u = fmt_u (uint (uc_counters u ! COUNTER_FAULT_FAILS))"

definition pid_show :: "user_ctx \<Rightarrow> string" where
  "pid_show u = fmt_u (uint (word_of_int (uc_pid u) :: u32))"

definition cdev_file_attr_visible :: "user_ctx \<Rightarrow> nat \<Rightarrow> idxd_device \<Rightarrow> nat" where
  "cdev_file_attr_visible u attr_mode d = (if \<not> wq_pasid_enabled (wqs d ! uc_wq u) d then 0 else attr_mode)"

subsection \<open>The table of address spaces\<close>

definition upd_xa :: "nat \<Rightarrow> u32 \<Rightarrow> nat option \<Rightarrow> idxd_device \<Rightarrow> idxd_device" where
  "upd_xa i p x = upd_wq i (\<lambda>w. w\<lparr>upasid_xa := (upasid_xa w)(p := x)\<rparr>)"

text \<open>\<^verbatim>\<open>xa_insert\<close> refuses an occupied index; otherwise it may still lack memory.\<close>

definition xa_insert :: "env \<Rightarrow> nat \<Rightarrow> u32 \<Rightarrow> nat \<Rightarrow> idxd_device \<Rightarrow> int \<times> idxd_device" where
  "xa_insert E i p c d =
     (if upasid_xa (wqs d ! i) p \<noteq> None then (- EBUSY, d)
      else
        let (rc, d) = ext E (Svc (XaInsert i p)) d
        in if rc < 0 then (rc, d) else (0, upd_xa i p (Some c) d))"

definition idxd_xa_pasid_remove :: "nat \<Rightarrow> user_ctx \<Rightarrow> idxd_device \<Rightarrow> idxd_device" where
  "idxd_xa_pasid_remove c u d =
     (if upasid_xa (wqs d ! uc_wq u) (uc_pasid u) = Some c then upd_xa (uc_wq u) (uc_pasid u) None d else d)"

definition idxd_user_counter_increment :: "nat \<Rightarrow> u32 \<Rightarrow> nat \<Rightarrow> cdev_state \<Rightarrow> cdev_state" where
  "idxd_user_counter_increment i p index s =
     (if COUNTER_MAX \<le> index then s
      else case upasid_xa (wqs (cd_dev s) ! i) p of
        None \<Rightarrow> s
      | Some c \<Rightarrow> upd_ctx c (\<lambda>u. u\<lparr>uc_counters := list_upd index (\<lambda>n. n + 1) (uc_counters u)\<rparr>) s)"

subsection \<open>Closing a file\<close>

definition idxd_file_dev_release :: "env \<Rightarrow> nat \<Rightarrow> cdev_state \<Rightarrow> cdev_state option" where
  "idxd_file_dev_release E c s =
     (case cd_ctx s c of
        None \<Rightarrow> None
      | Some u \<Rightarrow>
          let i = uc_wq u;
              s = on_dev (release (F c FileId)) (s\<lparr>cd_ida := cd_ida s - {uc_id u}\<rparr>);
              s = on_dev (\<lambda>d.
                    if wq_shared (wqs d ! i) then idxd_device_drain_pasid E (uc_pasid u) d
                    else if device_user_pasid_enabled d then snd (idxd_wq_disable_pasid E i d)
                    else idxd_wq_drain E i d) s
          in case (if uc_sva u
                   then map_option (\<lambda>d. idxd_xa_pasid_remove c u (release (F c Sva) d))
                          (idxd_cdev_evl_drain_pasid E i (uc_pasid u) (cd_dev s))
                   else Some (cd_dev s)) of
               None \<Rightarrow> None
             | Some d \<Rightarrow>
                 let s = kfree_ctx c (s\<lparr>cd_dev := d\<rparr>)
                 in map_option (\<lambda>s. unlock_wq i (on_dev (upd_wq i idxd_wq_put) s)) (lock_wq i s))"

definition put_file_device :: "env \<Rightarrow> nat \<Rightarrow> cdev_state \<Rightarrow> cdev_state option" where
  "put_file_device E c s = idxd_file_dev_release E c (on_dev (release (DevRef (DevFile c))) s)"

definition idxd_cdev_release :: "env \<Rightarrow> nat \<Rightarrow> cdev_state \<Rightarrow> (int \<times> cdev_state) option" where
  "idxd_cdev_release E c s =
     map_option (\<lambda>s. (0, s)) (put_file_device E c (on_dev (release (Registered (DevFile c))) s))"

subsection \<open>Opening a file\<close>

definition open_failed :: "nat \<Rightarrow> nat \<Rightarrow> int \<Rightarrow> cdev_state \<Rightarrow> (int \<times> cdev_state) option" where
  "open_failed i c rc s = Some (rc, kfree_ctx c (unlock_wq i s))"

definition open_failed_get_pasid :: "nat \<Rightarrow> nat \<Rightarrow> int \<Rightarrow> cdev_state \<Rightarrow> (int \<times> cdev_state) option" where
  "open_failed_get_pasid i c rc s =
     open_failed i c rc (on_dev (\<lambda>d. if device_user_pasid_enabled d then release (F c Sva) d else d) s)"

definition open_failed_ida :: "nat \<Rightarrow> nat \<Rightarrow> int \<Rightarrow> cdev_state \<Rightarrow> (int \<times> cdev_state) option" where
  "open_failed_ida i c rc s =
     open_failed_get_pasid i c rc
       (on_dev (\<lambda>d. if device_user_pasid_enabled d
                    then (case cd_ctx s c of None \<Rightarrow> d | Some u \<Rightarrow> idxd_xa_pasid_remove c u d) else d) s)"

text \<open>The second half: the file number and the file's device.\<close>

definition open_file_device :: "env \<Rightarrow> nat \<Rightarrow> nat \<Rightarrow> int \<Rightarrow> cdev_state \<Rightarrow> (int \<times> cdev_state) option" where
  "open_file_device E i c rc s =
     (let (r, d) = acquire E (F c FileId) (cd_dev s);
          s = s\<lparr>cd_dev := d\<rparr>
      in if r < 0 then open_failed_ida i c rc s
         else
           let n = ida_pick E (cd_ida s);
               s = upd_ctx c (\<lambda>u. u\<lparr>uc_id := n\<rparr>) (s\<lparr>cd_ida := insert n (cd_ida s)\<rparr>);
               s = on_dev (hold (DevRef (DevFile c))) s;
               failed_dev = (\<lambda>rc s. case put_file_device E c s of None \<Rightarrow> None | Some s \<Rightarrow> open_failed_ida i c rc s);
               (rc, d) = ext E (Svc (SetName (DevFile c))) (cd_dev s);
               s = s\<lparr>cd_dev := d\<rparr>
           in if rc < 0 then failed_dev rc s
              else
                let (rc, d) = acquire E (Registered (DevFile c)) (cd_dev s);
                    s = s\<lparr>cd_dev := d\<rparr>
                in if rc < 0 then failed_dev rc s
                   else Some (0, unlock_wq i (on_dev (upd_wq i idxd_wq_get) s)))"

text \<open>\<open>c\<close> is the address the allocation returns, \<open>p\<close> the address space of the binding, \<open>tsk\<close> the caller.\<close>

definition idxd_cdev_open :: "env \<Rightarrow> nat \<Rightarrow> nat \<Rightarrow> u32 \<Rightarrow> int \<Rightarrow> cdev_state \<Rightarrow> (int \<times> cdev_state) option" where
  "idxd_cdev_open E i c p tsk s =
     (let (r, d) = acquire E (F c Uctx) (cd_dev s);
          s = s\<lparr>cd_dev := d\<rparr>
      in if r < 0 then Some (- ENOMEM, s)
         else
           let s = s\<lparr>cd_ctx := (cd_ctx s)(c := Some zero_ctx)\<rparr>
           in case lock_wq i s of None \<Rightarrow> None | Some s \<Rightarrow>
             if client_count (wqs (cd_dev s) ! i) > 0 \<and> wq_dedicated (wqs (cd_dev s) ! i)
             then open_failed i c (- EBUSY) s
             else
               let s = upd_ctx c (\<lambda>u. u\<lparr>uc_wq := i, uc_pid := tsk\<rparr>) s
               in if device_user_pasid_enabled (cd_dev s)
                  then
                    let (r, d) = acquire E (F c Sva) (cd_dev s);
                        s = s\<lparr>cd_dev := d\<rparr>
                    in if r < 0 then open_failed i c r s
                       else if p = invalid_pasid E then open_failed_get_pasid i c (- EINVAL) s
                       else
                         let s = upd_ctx c (\<lambda>u. u\<lparr>uc_sva := True, uc_pasid := p\<rparr>) s;
                             (rc, d) = xa_insert E i p c (cd_dev s);
                             (rc, d) = (if wq_dedicated (wqs d ! i) then idxd_wq_set_pasid E i p d else (rc, d));
                             s = s\<lparr>cd_dev := d\<rparr>
                         in if wq_dedicated (wqs d ! i) \<and> rc < 0 then open_failed_ida i c rc s
                            else open_file_device E i c rc s
                  else open_file_device E i c 0 s)"

subsection \<open>Mapping and polling\<close>

definition check_vma :: "u64 \<Rightarrow> u64 \<Rightarrow> int" where
  "check_vma vm_start vm_end = (if vm_end - vm_start > 4096 then - EINVAL else 0)"

definition portal_pfn :: "u64 \<Rightarrow> nat \<Rightarrow> u64" where
  "portal_pfn base i = drop_bit PAGE_SHIFT (base + word_of_nat (idxd_get_wq_portal_full_offset i IDXD_PORTAL_LIMITED))"

definition idxd_cdev_mmap :: "env \<Rightarrow> u64 \<Rightarrow> nat \<Rightarrow> u64 \<Rightarrow> u64 \<Rightarrow> cdev_state \<Rightarrow> (int \<times> cdev_state) option" where
  "idxd_cdev_mmap E base c vm_start vm_end s =
     (case cd_ctx s c of
        None \<Rightarrow> None
      | Some u \<Rightarrow>
          let rc = check_vma vm_start vm_end
          in if rc < 0 then Some (rc, s)
             else
               let pfn = portal_pfn base (wq_id (wqs (cd_dev s) ! uc_wq u));
                   (rc, d) = ext E (Svc (RemapPfn vm_start pfn)) (cd_dev s)
               in Some (rc, s\<lparr>cd_dev := d\<rparr>))"

text \<open>The result says whether the file is readable.\<close>

definition idxd_cdev_poll :: "idxd_device \<Rightarrow> bool" where
  "idxd_cdev_poll d \<longleftrightarrow> getf sw_err_reg0 ''valid'' (sw_err d ! 0) \<noteq> 0"

subsection \<open>The character device of a queue\<close>

definition idxd_cdev_dev_release :: "nat \<Rightarrow> idxd_device \<Rightarrow> idxd_device" where
  "idxd_cdev_dev_release i d = release (W i Cdev) (release (W i Minor) d)"

definition put_cdev :: "nat \<Rightarrow> idxd_device \<Rightarrow> idxd_device" where
  "put_cdev i d = idxd_cdev_dev_release i (release (DevRef (DevCdev i)) d)"

definition idxd_wq_add_cdev :: "env \<Rightarrow> nat \<Rightarrow> idxd_device \<Rightarrow> int \<times> idxd_device" where
  "idxd_wq_add_cdev E i d =
     (let (rc, d) = acquire E (W i Cdev) d
      in if rc < 0 then (- ENOMEM, d)
         else
           let (minor, d) = acquire E (W i Minor) d
           in if minor < 0 then (minor, release (W i Cdev) d)
              else
                let d = hold (DevRef (DevCdev i)) d;
                    err = (\<lambda>rc d. (rc, upd_wq i (\<lambda>w. w\<lparr>wq_cdev := None\<rparr>) (put_cdev i d)));
                    (rc, d) = ext E (Svc (SetName (DevCdev i))) d
                in if rc < 0 then err rc d
                   else
                     let d = upd_wq i (\<lambda>w. w\<lparr>wq_cdev := Some minor\<rparr>) d;
                         (rc, d) = acquire E (Registered (DevCdev i)) d
                     in if rc < 0 then err rc d else (0, d))"

definition idxd_wq_del_cdev :: "nat \<Rightarrow> cdev_state \<Rightarrow> cdev_state" where
  "idxd_wq_del_cdev i s =
     on_dev (\<lambda>d. put_cdev i (release (Registered (DevCdev i)) (upd_wq i (\<lambda>w. w\<lparr>wq_cdev := None\<rparr>) d)))
       (s\<lparr>cd_ida := {}\<rparr>)"

subsection \<open>Binding a queue to the user driver\<close>

definition idxd_user_drv_probe :: "env \<Rightarrow> nat \<Rightarrow> idxd_device \<Rightarrow> int \<times> idxd_device" where
  "idxd_user_drv_probe E i d =
     (if dev_state d \<noteq> IDXD_DEV_ENABLED then (- ENXIO, d)
      else if \<not> device_user_pasid_enabled d then (- EOPNOTSUPP, set_status IDXD_SCMD_WQ_USER_NO_IOMMU d)
      else if \<not> idxd_wq_driver_name_match (wqs d ! i) ''user'' then (- ENODEV, set_status IDXD_SCMD_WQ_NO_DRV_NAME d)
      else
        let (rc, d) = acquire E (W i UserWq) d
        in if rc < 0 then (- ENOMEM, d)
           else
             let err = (\<lambda>d. upd_wq i (\<lambda>w. w\<lparr>wq_type := IDXD_WQT_NONE\<rparr>) (release (W i UserWq) d));
                 d = upd_wq i (\<lambda>w. w\<lparr>wq_type := IDXD_WQT_USER\<rparr>) d;
                 (rc, d) = drv_enable_wq E i d
             in if rc < 0 then (rc, err d)
                else
                  let (rc, d) = idxd_wq_add_cdev E i d
                  in if rc < 0 then (rc, err (drv_disable_wq E i (set_status IDXD_SCMD_CDEV_ERR d)))
                     else (0, d\<lparr>cmd_status := HwStatus 0\<rparr>))"

definition idxd_user_drv_remove :: "env \<Rightarrow> nat \<Rightarrow> cdev_state \<Rightarrow> cdev_state option" where
  "idxd_user_drv_remove E i s =
     map_option (\<lambda>s.
       let s = idxd_wq_del_cdev i s;
           s = on_dev (drv_disable_wq E i) s;
           s = on_dev (upd_wq i (\<lambda>w. w\<lparr>wq_type := IDXD_WQT_NONE\<rparr>)) s;
           s = on_dev (release (W i UserWq)) s
       in unlock_wq i s) (lock_wq i s)"

text \<open>The regions of the two accelerator types.\<close>

fun chrdev_regions :: "env \<Rightarrow> nat list \<Rightarrow> 'a machine_scheme \<Rightarrow> int \<times> 'a machine_scheme" where
  "chrdev_regions E [] d = (0, d)"
| "chrdev_regions E (k # ks) d =
     (let (rc, d) = acquire E (M (Chrdev k)) d
      in if rc < 0 then (rc, fold (\<lambda>j. release (M (Chrdev j))) (rev [0..<k]) d) else chrdev_regions E ks d)"

definition idxd_cdev_register :: "env \<Rightarrow> 'a machine_scheme \<Rightarrow> int \<times> 'a machine_scheme" where
  "idxd_cdev_register E d = chrdev_regions E [0..<2] d"

definition idxd_cdev_remove :: "'a machine_scheme \<Rightarrow> 'a machine_scheme" where
  "idxd_cdev_remove d = fold (\<lambda>k. release (M (Chrdev k))) [0..<2] d"

subsection \<open>Completion records for user processes\<close>

text \<open>
  The record's bytes appear as its status, the first byte, and its result. The two copies are
  external calls; the first returns the number of bytes it could not write.
\<close>

definition idxd_copy_cr ::
  "env \<Rightarrow> nat \<Rightarrow> u32 \<Rightarrow> u64 \<Rightarrow> u8 \<Rightarrow> u8 \<Rightarrow> int \<Rightarrow> cdev_state \<Rightarrow> int \<times> cdev_state" where
  "idxd_copy_cr E i p addr status res len s =
     (case upasid_xa (wqs (cd_dev s) ! i) p of
        None \<Rightarrow> (0, s)
      | Some c \<Rightarrow>
          let (left, d) = ext E (Svc (CopyToUser (addr + 1) (nat (len - 1)) res)) (cd_dev s)
          in if left = 0
             then
               let (r, d) = ext E (Svc (PutUser addr status)) d
               in (len - (if r \<noteq> 0 then left + 1 else left), s\<lparr>cd_dev := d\<rparr>)
             else (len - (left + 1), s\<lparr>cd_dev := d\<rparr>))"

definition set_batch_fail :: "u8 \<Rightarrow> bool \<Rightarrow> idxd_device \<Rightarrow> idxd_device" where
  "set_batch_fail b v = upd_evl (\<lambda>e. e\<lparr>batch_fail := (batch_fail e)(b := v)\<rparr>)"

text \<open>The first switch: the number of bytes to copy, with the record's status and result.\<close>

definition fault_prepare ::
  "env \<Rightarrow> idxd_evl_fault \<Rightarrow> cdev_state \<Rightarrow> (int \<times> u8 \<times> u8) \<times> cdev_state" where
  "fault_prepare E fault s =
     (let ee = fault_entry fault; i = fault_wq fault;
          cr_size = int (compl_size (drv_data (cd_dev s)));
          st = ee_cr_status ee; rs = ee_cr_result ee
      in if fault_status fault = DSA_COMP_CRA_XLAT
         then
           let s = (if ee_batch ee \<and> ee_first_err_in_batch ee then on_dev (set_batch_fail (ee_batch_id ee) False) s else s)
           in ((cr_size, st, rs), idxd_user_counter_increment i (ee_pasid ee) COUNTER_FAULTS s)
         else if fault_status fault = comp_batch_evl_err E
         then
           let bf = batch_fail (the_evl (cd_dev s)) (ee_batch_id ee);
               copy_size = (if ee_rcr ee \<or> bf then cr_size else 0);
               (st, rs, s) =
                 (if bf then (if st = DSA_COMP_SUCCESS then DSA_COMP_BATCH_FAIL else st, 1,
                              on_dev (set_batch_fail (ee_batch_id ee) False) s)
                  else (st, rs, s))
           in ((copy_size, st, rs), idxd_user_counter_increment i (ee_pasid ee) COUNTER_FAULTS s)
         else if fault_status fault = comp_drain_evl E then ((cr_size, st, rs), s)
         else ((0, st, rs), s))"

definition idxd_evl_fault_work :: "env \<Rightarrow> idxd_evl_fault \<Rightarrow> cdev_state \<Rightarrow> cdev_state" where
  "idxd_evl_fault_work E fault s =
     (let ee = fault_entry fault; i = fault_wq fault;
          ((copy_size, st, rs), s) = fault_prepare E fault s
      in if copy_size = 0 then s
         else
           let (copied, s) = idxd_copy_cr E i (ee_pasid ee) (ee_fault_addr ee) st rs copy_size s;
               s = (if copied = copy_size then s
                    else if fault_status fault = DSA_COMP_CRA_XLAT
                    then
                      let s = idxd_user_counter_increment i (ee_pasid ee) COUNTER_FAULT_FAILS s
                      in if ee_batch ee then on_dev (set_batch_fail (ee_batch_id ee) True) s else s
                    else if fault_status fault = comp_batch_evl_err E
                    then idxd_user_counter_increment i (ee_pasid ee) COUNTER_FAULT_FAILS s
                    else s)
           in on_dev (release (K Fault)) s)"

subsection \<open>What users see of a queue\<close>

definition user_part :: "idxd_wq \<Rightarrow> int \<times> (u32 \<Rightarrow> nat option) \<times> u64" where
  "user_part w = (client_count w, upasid_xa w, wq_flags w)"

definition same_users :: "idxd_device \<Rightarrow> idxd_device \<Rightarrow> bool" where
  "same_users d d' \<longleftrightarrow> map user_part (wqs d') = map user_part (wqs d) \<and> held d' = held d \<and>
     device_user_pasid_enabled d' = device_user_pasid_enabled d"

lemma same_users_refl: "same_users d d" and
  same_users_trans: "same_users d d' \<Longrightarrow> same_users d' d'' \<Longrightarrow> same_users d d''"
  by (simp_all add: same_users_def)

lemma map_list_upd: "(\<And>w. g (f w) = g w) \<Longrightarrow> map g (list_upd i f ws) = map g ws"
  by (cases "i < length ws") (simp_all add: list_upd_def map_update list_update_same_conv list_update_beyond)

lemma same_users_upd_wq: "(\<And>w. user_part (f w) = user_part w) \<Longrightarrow> same_users d (upd_wq i f d)"
  by (simp add: same_users_def map_list_upd device_user_pasid_enabled_def)

lemma same_users_quiet:
  "wqs d' = wqs d \<Longrightarrow> held d' = held d \<Longrightarrow> dev_flags d' = dev_flags d \<Longrightarrow> same_users d d'"
  by (simp add: same_users_def device_user_pasid_enabled_def)

lemma same_users_cmd: "same_users d (snd (idxd_cmd_exec E c p d))"
  by (simp add: same_users_def)

lemma same_users_enable: "same_users d (snd (idxd_wq_enable E i d))"
proof -
  obtain st d1 where c: "idxd_cmd_exec E IDXD_CMD_ENABLE_WQ (word_of_nat (wq_id (wqs d ! i))) d = (st, d1)"
    by (cases "idxd_cmd_exec E IDXD_CMD_ENABLE_WQ (word_of_nat (wq_id (wqs d ! i))) d")
  have "same_users d d1" using same_users_cmd [of d E IDXD_CMD_ENABLE_WQ] c by (metis snd_conv)
  moreover have "same_users d1 ((upd_wq i (\<lambda>w. w\<lparr>wq_state := IDXD_WQ_ENABLED\<rparr>) d1)\<lparr>wq_enable_map := m\<rparr>)" for m
    by (rule same_users_trans [OF same_users_upd_wq same_users_quiet]) (simp_all add: user_part_def)
  ultimately show ?thesis
    by (auto simp: idxd_wq_enable_def c Let_def intro: same_users_refl same_users_trans)
qed

lemma same_users_disable: "same_users d (snd (idxd_wq_disable E i False d))"
proof -
  obtain st d1 where c: "idxd_cmd_exec E IDXD_CMD_DISABLE_WQ (wq_operand (wq_id (wqs d ! i))) d = (st, d1)"
    by (cases "idxd_cmd_exec E IDXD_CMD_DISABLE_WQ (wq_operand (wq_id (wqs d ! i))) d")
  have "same_users d d1" using same_users_cmd [of d E IDXD_CMD_DISABLE_WQ] c by (metis snd_conv)
  moreover have "same_users d1 (upd_wq i (\<lambda>w. w\<lparr>wq_state := IDXD_WQ_DISABLED\<rparr>) (d1\<lparr>wq_enable_map := m\<rparr>))" for m
    by (rule same_users_trans [OF same_users_quiet same_users_upd_wq]) (simp_all add: user_part_def)
  ultimately show ?thesis
    by (auto simp: idxd_wq_disable_def c Let_def intro: same_users_refl same_users_trans)
qed

lemma same_users_set_pasid: "same_users d (snd (idxd_wq_set_pasid E i p d))"
proof -
  obtain r d1 where 1: "idxd_wq_disable E i False d = (r, d1)" by (cases "idxd_wq_disable E i False d")
  obtain r2 d2 where 2: "idxd_wq_enable E i (idxd_wq_set_pasid_locked E i p d1) = (r2, d2)"
    by (cases "idxd_wq_enable E i (idxd_wq_set_pasid_locked E i p d1)")
  have s1: "same_users d d1" using same_users_disable [of d E i] by (simp add: 1)
  have "same_users d1 (idxd_wq_set_pasid_locked E i p d1)" unfolding idxd_wq_set_pasid_locked_def Let_def
    by (rule same_users_trans [OF same_users_upd_wq same_users_quiet]) (simp_all add: user_part_def iowrite32_def)
  moreover have "same_users (idxd_wq_set_pasid_locked E i p d1) d2"
    using same_users_enable [of "idxd_wq_set_pasid_locked E i p d1" E i] by (simp add: 2)
  ultimately have "same_users d d2" using s1 by (blast intro: same_users_trans)
  with s1 show ?thesis by (simp add: idxd_wq_set_pasid_def 1 2)
qed

lemma same_users_disable_pasid: "same_users d (snd (idxd_wq_disable_pasid E i d))"
proof -
  obtain r d1 where 1: "idxd_wq_disable E i False d = (r, d1)" by (cases "idxd_wq_disable E i False d")
  have s1: "same_users d d1" using same_users_disable [of d E i] by (simp add: 1)
  have "same_users d1 (snd (idxd_wq_enable E i (iowrite32 E c off d1)))" for c off
    by (rule same_users_trans [OF same_users_quiet same_users_enable]) (simp_all add: iowrite32_def)
  with s1 show ?thesis
    by (auto simp: idxd_wq_disable_pasid_def 1 Let_def split_beta intro: same_users_trans)
qed

lemma same_users_drain: "same_users d (idxd_wq_drain E i d)" "same_users d (idxd_device_drain_pasid E p d)"
  by (simp_all add: idxd_wq_drain_def idxd_device_drain_pasid_def Let_def same_users_cmd same_users_refl)

lemma ring_walk_inv:
  assumes "\<And>k s s'. step k s = Some s' \<Longrightarrow> P s \<Longrightarrow> P s'"
  shows "ring_walk step sz fuel h t s = Some (h', s') \<Longrightarrow> P s \<Longrightarrow> P s'"
proof (induction fuel arbitrary: h s)
  case 0
  then show ?case by (simp add: ring_walk.simps split: if_splits)
next
  case (Suc fuel)
  then show ?case using assms by (fastforce simp: ring_walk.simps split: if_splits option.splits)
qed

lemma same_users_evl_drain:
  assumes "idxd_cdev_evl_drain_pasid E i p d = Some d'"
  shows "same_users d d'"
proof (cases "dev_evl d")
  case None
  then show ?thesis using assms by (simp add: idxd_cdev_evl_drain_pasid_def same_users_refl)
next
  case (Some e)
  then obtain h h0 t sz fuel d1 where w: "ring_walk (mark_evl_entry i p) sz fuel h0 t d = Some (h, d1)"
    and d': "d' = notify (DrainWorkqueue i) d1"
    using assms by (auto simp: idxd_cdev_evl_drain_pasid_def Let_def)
  have "same_users d x'" if "mark_evl_entry i p k x = Some x'" "same_users d x" for k x x'
    by (rule same_users_trans [OF that(2) same_users_quiet])
      (use that(1) in \<open>auto simp: mark_evl_entry_def upd_evl_def split: option.splits if_splits\<close>)
  then have "same_users d d1" by (rule ring_walk_inv [OF _ w same_users_refl])
  then show ?thesis
    by (rule same_users_trans [OF _ same_users_quiet]) (simp_all add: d' notify_def)
qed

subsection \<open>Opening and closing\<close>

definition view :: "cdev_state \<Rightarrow> (int \<times> (u32 \<Rightarrow> nat option) \<times> u64) list \<times> (nat \<Rightarrow> user_ctx option) \<times> int set \<times> nat set" where
  "view s = (map user_part (wqs (cd_dev s)), cd_ctx s, cd_ida s, cd_locks s)"

lemma file_release_deadlock:
  assumes "cd_ctx s c = Some u" "uc_wq u \<in> cd_locks s"
  shows "put_file_device E c s = None"
  using assms
  by (auto simp: put_file_device_def idxd_file_dev_release_def on_dev_def lock_wq_def kfree_ctx_def Let_def
      split: option.splits)

lemma user_part_index:
  assumes "map user_part (wqs d') = map user_part (wqs d)" "i < length (wqs d)"
  shows "client_count (wqs d' ! i) = client_count (wqs d ! i)" "upasid_xa (wqs d' ! i) = upasid_xa (wqs d ! i)"
    "wq_flags (wqs d' ! i) = wq_flags (wqs d ! i)"
proof -
  have "length (wqs d') = length (wqs d)" using assms(1) by (metis length_map)
  then have "user_part (wqs d' ! i) = user_part (wqs d ! i)" using assms by (metis nth_map)
  then show "client_count (wqs d' ! i) = client_count (wqs d ! i)" "upasid_xa (wqs d' ! i) = upasid_xa (wqs d ! i)"
    "wq_flags (wqs d' ! i) = wq_flags (wqs d ! i)" by (simp_all add: user_part_def)
qed

text \<open>The users' view after changes to one queue's table and count.\<close>

definition upd_part ::
  "nat \<Rightarrow> int \<Rightarrow> (u32 \<Rightarrow> nat option) \<Rightarrow> (int \<times> (u32 \<Rightarrow> nat option) \<times> u64) list \<Rightarrow> (int \<times> (u32 \<Rightarrow> nat option) \<times> u64) list" where
  "upd_part i n x us = us[i := (n, x, snd (snd (us ! i)))]"

lemma upd_part_twice: "i < length us \<Longrightarrow> upd_part i n x (upd_part i m y us) = upd_part i n x us"
  by (simp add: upd_part_def)

lemma upd_part_same:
  "i < length (wqs d) \<Longrightarrow> upd_part i (client_count (wqs d ! i)) (upasid_xa (wqs d ! i)) (map user_part (wqs d)) = map user_part (wqs d)"
  by (simp add: upd_part_def user_part_def list_update_same_conv)

lemma upd_part_len: "map user_part ws = upd_part i n x us \<Longrightarrow> length ws = length us"
  by (metis length_list_update length_map upd_part_def)

lemma map_user_part_upd:
  "i < length ws \<Longrightarrow> map user_part (list_upd i f ws) = (map user_part ws)[i := user_part (f (ws ! i))]"
  by (simp add: list_upd_def map_update)

lemma upd_xa_part:
  "i < length (wqs d) \<Longrightarrow>
     map user_part (wqs (upd_xa i p x d)) =
       upd_part i (client_count (wqs d ! i)) ((upasid_xa (wqs d ! i))(p := x)) (map user_part (wqs d))"
  by (simp add: upd_xa_def upd_part_def map_user_part_upd user_part_def)

lemma user_pasid_simps [simp]:
  "device_user_pasid_enabled (upd_wq i f d) = device_user_pasid_enabled d"
  "device_user_pasid_enabled (release x d) = device_user_pasid_enabled d"
  "device_user_pasid_enabled (hold x d) = device_user_pasid_enabled d"
  "device_user_pasid_enabled (snd (acquire E x d)) = device_user_pasid_enabled d"
  "device_user_pasid_enabled (snd (ext E c d)) = device_user_pasid_enabled d"
  "device_user_pasid_enabled (upd_xa j p y d) = device_user_pasid_enabled d"
  by (simp_all add: device_user_pasid_enabled_def upd_xa_def release_def hold_def acquire_def ext_def Let_def)

lemma on_dev_simps [simp]:
  "cd_dev (on_dev f s) = f (cd_dev s)" "cd_ctx (on_dev f s) = cd_ctx s" "cd_ida (on_dev f s) = cd_ida s"
  "cd_locks (on_dev f s) = cd_locks s"
  "cd_dev (upd_ctx c g s) = cd_dev s" "cd_ida (upd_ctx c g s) = cd_ida s" "cd_locks (upd_ctx c g s) = cd_locks s"
  "cd_ctx (upd_ctx c g s) = (cd_ctx s)(c := map_option g (cd_ctx s c))"
  "cd_dev (unlock_wq i s) = cd_dev s" "cd_ctx (unlock_wq i s) = cd_ctx s" "cd_ida (unlock_wq i s) = cd_ida s"
  "cd_locks (unlock_wq i s) = cd_locks s - {i}"
  "cd_dev (kfree_ctx c s) = release (F c Uctx) (cd_dev s)" "cd_ctx (kfree_ctx c s) = (cd_ctx s)(c := None)"
  "cd_ida (kfree_ctx c s) = cd_ida s" "cd_locks (kfree_ctx c s) = cd_locks s"
  by (simp_all add: on_dev_def upd_ctx_def unlock_wq_def kfree_ctx_def)

lemma lock_wq_Some: "lock_wq i s = Some s' \<longleftrightarrow> i \<notin> cd_locks s \<and> s' = s\<lparr>cd_locks := insert i (cd_locks s)\<rparr>"
  by (auto simp: lock_wq_def)

lemma open_failed_ida_spec:
  assumes "cd_ctx s c = Some u" "uc_wq u = i" "i < length (wqs (cd_dev s))"
  shows "\<exists>s'. open_failed_ida i c rc s = Some (rc, s') \<and> cd_ctx s' = (cd_ctx s)(c := None) \<and> cd_ida s' = cd_ida s \<and>
     cd_locks s' = cd_locks s - {i} \<and>
     map user_part (wqs (cd_dev s')) =
       (if device_user_pasid_enabled (cd_dev s) \<and> upasid_xa (wqs (cd_dev s) ! i) (uc_pasid u) = Some c
        then upd_part i (client_count (wqs (cd_dev s) ! i)) ((upasid_xa (wqs (cd_dev s) ! i))(uc_pasid u := None))
               (map user_part (wqs (cd_dev s)))
        else map user_part (wqs (cd_dev s))) \<and>
     held (cd_dev s') = subh {F c Uctx} (if device_user_pasid_enabled (cd_dev s) then subh {F c Sva} (held (cd_dev s)) else held (cd_dev s)) \<and>
     device_user_pasid_enabled (cd_dev s') = device_user_pasid_enabled (cd_dev s)"
  using assms upd_xa_part [of i "cd_dev s" "uc_pasid u" None]
  by (auto simp: open_failed_ida_def open_failed_get_pasid_def open_failed_def idxd_xa_pasid_remove_def) (simp_all add: upd_xa_def)

lemma acquire_snd: "acquire E x d = (r, d') \<Longrightarrow>
    wqs d' = wqs d \<and> held d' = (if r < 0 then held d else addh {x} (held d)) \<and> dev_flags d' = dev_flags d \<and> dev_evl d' = dev_evl d \<and>
    r = ext_rc E (trace d) (Acq x)"
  by (auto simp: acquire_def ext_def addh_def Let_def split: if_splits)

lemma ext_snd: "ext E x d = (r, d') \<Longrightarrow>
    wqs d' = wqs d \<and> held d' = held d \<and> dev_flags d' = dev_flags d \<and> dev_evl d' = dev_evl d \<and> r = ext_rc E (trace d) x"
  by (auto simp: ext_def Let_def)

definition file_res_of :: "nat \<Rightarrow> obj set" where
  "file_res_of c = {F c FileId, DevRef (DevFile c), Registered (DevFile c)}"

lemma open_file_device_spec:
  assumes c: "cd_ctx s c = Some u" "uc_wq u = i" "i \<in> cd_locks s" "i < length (wqs (cd_dev s))"
  shows "open_file_device E i c rc s = None \<and>
           (\<exists>tr. ext_rc E tr (Svc (SetName (DevFile c))) < 0 \<or> ext_rc E tr (Acq (Registered (DevFile c))) < 0) \<or>
     (\<exists>d. open_file_device E i c rc s = open_failed_ida i c rc (s\<lparr>cd_dev := d\<rparr>) \<and> wqs d = wqs (cd_dev s) \<and>
        held d = held (cd_dev s) \<and> dev_flags d = dev_flags (cd_dev s) \<and> (\<exists>tr. ext_rc E tr (Acq (F c FileId)) < 0)) \<or>
     (\<exists>s'. open_file_device E i c rc s = Some (0, s') \<and>
        cd_ctx s' = (cd_ctx s)(c \<mapsto> u\<lparr>uc_id := ida_pick E (cd_ida s)\<rparr>) \<and> cd_ida s' = insert (ida_pick E (cd_ida s)) (cd_ida s) \<and>
        cd_locks s' = cd_locks s - {i} \<and>
        map user_part (wqs (cd_dev s')) =
          upd_part i (client_count (wqs (cd_dev s) ! i) + 1) (upasid_xa (wqs (cd_dev s) ! i)) (map user_part (wqs (cd_dev s))) \<and>
        held (cd_dev s') = addh (file_res_of c) (held (cd_dev s)) \<and> dev_flags (cd_dev s') = dev_flags (cd_dev s) \<and>
        dev_evl (cd_dev s') = dev_evl (cd_dev s))"
proof -
  obtain r1 d1 where 1: "acquire E (F c FileId) (cd_dev s) = (r1, d1)" by (cases "acquire E (F c FileId) (cd_dev s)")
  note s1 = acquire_snd [OF 1]
  show ?thesis
  proof (cases "r1 < 0")
    case True
    then have "open_file_device E i c rc s = open_failed_ida i c rc (s\<lparr>cd_dev := d1\<rparr>)" by (simp add: open_file_device_def 1)
    then show ?thesis using s1 True by auto
  next
    case ok1: False
    let ?n = "ida_pick E (cd_ida s)"
    let ?s1 = "upd_ctx c (\<lambda>u. u\<lparr>uc_id := ?n\<rparr>) (s\<lparr>cd_dev := d1, cd_ida := insert ?n (cd_ida s)\<rparr>)"
    let ?d1 = "hold (DevRef (DevFile c)) d1"
    obtain r2 d2 where 2: "ext E (Svc (SetName (DevFile c))) ?d1 = (r2, d2)" by (cases "ext E (Svc (SetName (DevFile c))) ?d1")
    obtain r3 d3 where 3: "acquire E (Registered (DevFile c)) d2 = (r3, d3)" by (cases "acquire E (Registered (DevFile c)) d2")
    note s2 = ext_snd [OF 2] and s3 = acquire_snd [OF 3]
    have dead: "put_file_device E c (on_dev f ?s1\<lparr>cd_dev := x\<rparr>) = None" for f x
      by (rule file_release_deadlock [where u = "u\<lparr>uc_id := ?n\<rparr>"]) (use c in simp_all)
    have run: "open_file_device E i c rc s = (if r2 < 0 \<or> r3 < 0 then None
        else Some (0, unlock_wq i (on_dev (upd_wq i idxd_wq_get) (on_dev (hold (DevRef (DevFile c))) ?s1\<lparr>cd_dev := d3\<rparr>))))"
      using ok1 dead by (simp add: open_file_device_def 1 2 3 Let_def)
    show ?thesis
    proof (cases "r2 < 0 \<or> r3 < 0")
      case True
      then show ?thesis using run s2 s3 by auto
    next
      case False
      let ?f = "unlock_wq i (on_dev (upd_wq i idxd_wq_get) (on_dev (hold (DevRef (DevFile c))) ?s1\<lparr>cd_dev := d3\<rparr>))"
      have "wqs d3 = wqs (cd_dev s)" "dev_flags d3 = dev_flags (cd_dev s)" "dev_evl d3 = dev_evl (cd_dev s)"
        "held d3 = addh (file_res_of c) (held (cd_dev s))"
        using s1 s2 s3 ok1 False by (auto simp: hold_def file_res_of_def addh_def)
      then have "map user_part (wqs (cd_dev ?f)) =
          upd_part i (client_count (wqs (cd_dev s) ! i) + 1) (upasid_xa (wqs (cd_dev s) ! i)) (map user_part (wqs (cd_dev s)))"
        "held (cd_dev ?f) = addh (file_res_of c) (held (cd_dev s))" "dev_flags (cd_dev ?f) = dev_flags (cd_dev s)"
        "dev_evl (cd_dev ?f) = dev_evl (cd_dev s)"
        using c(4) by (simp_all add: map_user_part_upd upd_part_def user_part_def idxd_wq_get_def)
      then show ?thesis using run False c by (intro disjI2 exI [of _ ?f]) simp
    qed
  qed
qed

text \<open>What a successful open has done.\<close>

definition opened :: "env \<Rightarrow> nat \<Rightarrow> nat \<Rightarrow> u32 \<Rightarrow> int \<Rightarrow> cdev_state \<Rightarrow> cdev_state \<Rightarrow> bool" where
  "opened E i c p tsk s s' \<longleftrightarrow>
     (let d = cd_dev s; d' = cd_dev s'; sva = device_user_pasid_enabled d in
      (\<exists>u x. cd_ctx s' = (cd_ctx s)(c \<mapsto> u) \<and> uc_wq u = i \<and> uc_pid u = tsk \<and> uc_id u = ida_pick E (cd_ida s) \<and>
         uc_sva u = sva \<and> (sva \<longrightarrow> uc_pasid u = p) \<and>
         (x = upasid_xa (wqs d ! i) \<or> sva \<and> upasid_xa (wqs d ! i) p = None \<and> x = (upasid_xa (wqs d ! i))(p \<mapsto> c)) \<and>
         map user_part (wqs d') = upd_part i (client_count (wqs d ! i) + 1) x (map user_part (wqs d))) \<and>
      cd_ida s' = insert (ida_pick E (cd_ida s)) (cd_ida s) \<and> cd_locks s' = cd_locks s \<and>
      held d' = addh (insert (F c Uctx) (file_res_of c \<union> (if sva then {F c Sva} else {}))) (held d) \<and>
      device_user_pasid_enabled d' = sva)"

definition untouched :: "cdev_state \<Rightarrow> cdev_state \<Rightarrow> bool" where
  "untouched s s' \<longleftrightarrow> view s' = view s \<and> held (cd_dev s') = held (cd_dev s)"

definition open_result :: "env \<Rightarrow> nat \<Rightarrow> nat \<Rightarrow> u32 \<Rightarrow> int \<Rightarrow> cdev_state \<Rightarrow> (int \<times> cdev_state) option \<Rightarrow> bool" where
  "open_result E i c p tsk s r \<longleftrightarrow>
     (case r of
        None \<Rightarrow> \<exists>tr. ext_rc E tr (Svc (SetName (DevFile c))) < 0 \<or> ext_rc E tr (Acq (Registered (DevFile c))) < 0
      | Some (rc, s') \<Rightarrow>
          rc < 0 \<and> untouched s s' \<or>
          rc = 0 \<and> untouched s s' \<and> (\<exists>tr. ext_rc E tr (Acq (F c FileId)) < 0) \<or>
          rc = 0 \<and> opened E i c p tsk s s')"

lemma ded_wqs: "map user_part ws = us \<Longrightarrow> i < length ws \<Longrightarrow> wq_dedicated (ws ! i) = bit (snd (snd (us ! i))) WQ_FLAG_DEDICATED"
  by (auto simp: user_part_def wq_dedicated_def)

lemma xa_insert_spec:
  assumes i: "i < length (wqs d)" and r: "xa_insert E i p c d = (rc, d')"
  shows "rc \<le> 0 \<and> held d' = held d \<and> dev_flags d' = dev_flags d \<and> dev_evl d' = dev_evl d \<and>
     (wqs d' = wqs d \<or> upasid_xa (wqs d ! i) p = None \<and>
        map user_part (wqs d') = upd_part i (client_count (wqs d ! i)) ((upasid_xa (wqs d ! i))(p \<mapsto> c)) (map user_part (wqs d)))"
proof (cases "upasid_xa (wqs d ! i) p")
  case Some
  then show ?thesis using r by (simp add: xa_insert_def)
next
  case None
  obtain q d1 where e: "ext E (Svc (XaInsert i p)) d = (q, d1)" by (cases "ext E (Svc (XaInsert i p)) d")
  note 1 = ext_snd [OF e]
  show ?thesis
    using r None 1 upd_xa_part [of i d1 p "Some c"] i by (auto simp: xa_insert_def e split: if_splits) (simp_all add: upd_xa_def)
qed

lemma set_pasid_rc: "fst (idxd_wq_set_pasid E i p d) \<le> 0"
  by (auto simp: idxd_wq_set_pasid_def Let_def split_beta)

lemma open_result_fail:
  "open_failed_ida i c rc t = Some (rc, s') \<Longrightarrow> untouched s s' \<Longrightarrow>
     rc < 0 \<or> rc = 0 \<and> (\<exists>tr. ext_rc E tr (Acq (F c FileId)) < 0) \<Longrightarrow>
     open_result E i c p tsk s (open_failed_ida i c rc t)"
  by (auto simp: open_result_def)

text \<open>The second half is started with the context bound to \<open>p\<close> or not; backing out of it restores everything.\<close>

lemma open_failed_ida_untouched:
  fixes x :: "u32 \<Rightarrow> nat option"
  defines "sva d \<equiv> device_user_pasid_enabled d"
  assumes i: "i < length (wqs (cd_dev s))" "i \<notin> cd_locks s" and c: "cd_ctx s c = None" "\<forall>q. upasid_xa (wqs (cd_dev s) ! i) q \<noteq> Some c"
    and t: "cd_ctx t = (cd_ctx s)(c \<mapsto> u)" "cd_ida t = cd_ida s" "cd_locks t = insert i (cd_locks s)"
    and u: "uc_wq u = i" "uc_pid u = tsk" "uc_sva u = sva (cd_dev s)" "sva (cd_dev s) \<longrightarrow> uc_pasid u = p"
    and d: "held (cd_dev t) = addh (insert (F c Uctx) (if sva (cd_dev s) then {F c Sva} else {})) (held (cd_dev s))"
      "sva (cd_dev t) = sva (cd_dev s)" "map user_part (wqs (cd_dev t)) = upd_part i (client_count (wqs (cd_dev s) ! i)) x (map user_part (wqs (cd_dev s)))"
    and x: "x = upasid_xa (wqs (cd_dev s) ! i) \<or>
      sva (cd_dev s) \<and> upasid_xa (wqs (cd_dev s) ! i) p = None \<and> x = (upasid_xa (wqs (cd_dev s) ! i))(p \<mapsto> c)"
  shows "\<exists>s'. open_failed_ida i c rc t = Some (rc, s') \<and> untouched s s'"
proof -
  let ?us = "map user_part (wqs (cd_dev s))" and ?xa = "upasid_xa (wqs (cd_dev s) ! i)" and ?cc = "client_count (wqs (cd_dev s) ! i)"
  have len: "i < length (wqs (cd_dev t))" using upd_part_len [OF d(3)] i(1) by simp
  have "user_part (wqs (cd_dev t) ! i) = upd_part i ?cc x ?us ! i" using arg_cong [OF d(3), of "\<lambda>l. l ! i"] len by simp
  then have ti: "client_count (wqs (cd_dev t) ! i) = ?cc" "upasid_xa (wqs (cd_dev t) ! i) = x"
    using i(1) by (simp_all add: upd_part_def user_part_def)
  have tc: "cd_ctx t c = Some u" "uc_wq u = i" using t u by simp_all
  obtain s' where s': "open_failed_ida i c rc t = Some (rc, s')" "cd_ctx s' = (cd_ctx t)(c := None)"
    "cd_ida s' = cd_ida t" "cd_locks s' = cd_locks t - {i}"
    "map user_part (wqs (cd_dev s')) = (if sva (cd_dev s) \<and> x (uc_pasid u) = Some c
       then upd_part i ?cc (x(uc_pasid u := None)) (map user_part (wqs (cd_dev t))) else map user_part (wqs (cd_dev t)))"
    "held (cd_dev s') = subh {F c Uctx} (if sva (cd_dev s) then subh {F c Sva} (held (cd_dev t)) else held (cd_dev t))"
    using open_failed_ida_spec [of t c u i rc] tc len d(2) unfolding sva_def ti by auto
  have "map user_part (wqs (cd_dev s')) = ?us"
  proof (cases "x = ?xa")
    case True
    then show ?thesis using s'(5) c(2) d(3) upd_part_same [OF i(1)] by simp
  next
    case False
    then have 1: "sva (cd_dev s)" "?xa p = None" "x = ?xa(p \<mapsto> c)" using x by simp_all
    then have "x(p := None) = ?xa" by auto
    then show ?thesis using s'(5) d(3) 1 u(4) i(1) upd_part_same [OF i(1)] by (simp add: upd_part_twice)
  qed
  moreover have "held (cd_dev s') = held (cd_dev s)" using s'(6) d(1) by (auto simp: addh_def subh_def)
  moreover have "(cd_ctx s)(c := None) = cd_ctx s" using c(1) by auto
  ultimately have "untouched s s'" using s'(2-4) t i(2) by (auto simp: untouched_def view_def)
  with s'(1) show ?thesis by blast
qed

lemma open_file_device_result:
  fixes x :: "u32 \<Rightarrow> nat option"
  defines "sva d \<equiv> device_user_pasid_enabled d"
  assumes i: "i < length (wqs (cd_dev s))" "i \<notin> cd_locks s" and c: "cd_ctx s c = None" "\<forall>q. upasid_xa (wqs (cd_dev s) ! i) q \<noteq> Some c"
    and t: "cd_ctx t = (cd_ctx s)(c \<mapsto> u)" "cd_ida t = cd_ida s" "cd_locks t = insert i (cd_locks s)"
    and u: "uc_wq u = i" "uc_pid u = tsk" "uc_sva u = sva (cd_dev s)" "sva (cd_dev s) \<longrightarrow> uc_pasid u = p"
    and d: "held (cd_dev t) = addh (insert (F c Uctx) (if sva (cd_dev s) then {F c Sva} else {})) (held (cd_dev s))"
      "sva (cd_dev t) = sva (cd_dev s)" "map user_part (wqs (cd_dev t)) = upd_part i (client_count (wqs (cd_dev s) ! i)) x (map user_part (wqs (cd_dev s)))"
    and x: "x = upasid_xa (wqs (cd_dev s) ! i) \<or>
      sva (cd_dev s) \<and> upasid_xa (wqs (cd_dev s) ! i) p = None \<and> x = (upasid_xa (wqs (cd_dev s) ! i))(p \<mapsto> c)"
    and rc: "rc \<le> 0"
  shows "open_result E i c p tsk s (open_file_device E i c rc t)"
proof -
  let ?us = "map user_part (wqs (cd_dev s))" and ?xa = "upasid_xa (wqs (cd_dev s) ! i)" and ?cc = "client_count (wqs (cd_dev s) ! i)"
  have len: "i < length (wqs (cd_dev t))" using upd_part_len [OF d(3)] i(1) by simp
  have "user_part (wqs (cd_dev t) ! i) = upd_part i ?cc x ?us ! i" using arg_cong [OF d(3), of "\<lambda>l. l ! i"] len by simp
  then have ti: "client_count (wqs (cd_dev t) ! i) = ?cc" "upasid_xa (wqs (cd_dev t) ! i) = x"
    using i(1) by (simp_all add: upd_part_def user_part_def)
  have tc: "cd_ctx t c = Some u" "uc_wq u = i" "i \<in> cd_locks t" using t u by simp_all
  consider (dead) "open_file_device E i c rc t = None"
      "\<exists>tr. ext_rc E tr (Svc (SetName (DevFile c))) < 0 \<or> ext_rc E tr (Acq (Registered (DevFile c))) < 0"
    | (ida) d' where "open_file_device E i c rc t = open_failed_ida i c rc (t\<lparr>cd_dev := d'\<rparr>)" "wqs d' = wqs (cd_dev t)"
      "held d' = held (cd_dev t)" "dev_flags d' = dev_flags (cd_dev t)" "\<exists>tr. ext_rc E tr (Acq (F c FileId)) < 0"
    | (ok) s' where "open_file_device E i c rc t = Some (0, s')" "cd_ctx s' = (cd_ctx t)(c \<mapsto> u\<lparr>uc_id := ida_pick E (cd_ida t)\<rparr>)"
      "cd_ida s' = insert (ida_pick E (cd_ida t)) (cd_ida t)" "cd_locks s' = cd_locks t - {i}"
      "map user_part (wqs (cd_dev s')) = upd_part i (?cc + 1) x (map user_part (wqs (cd_dev t)))"
      "held (cd_dev s') = addh (file_res_of c) (held (cd_dev t))" "dev_flags (cd_dev s') = dev_flags (cd_dev t)"
    using open_file_device_spec [OF tc len, of E rc] unfolding ti by (elim disjE conjE) blast+
  then show ?thesis
  proof cases
    case dead
    then show ?thesis by (simp add: open_result_def)
  next
    case ida
    have "device_user_pasid_enabled d' = device_user_pasid_enabled (cd_dev s)"
      using ida(4) d(2) by (simp add: device_user_pasid_enabled_def sva_def)
    then obtain s' where "open_failed_ida i c rc (t\<lparr>cd_dev := d'\<rparr>) = Some (rc, s')" "untouched s s'"
      using open_failed_ida_untouched [OF i c, of "t\<lparr>cd_dev := d'\<rparr>" u tsk p x rc] t u d x ida(2,3) by (auto simp: sva_def)
    then show ?thesis unfolding ida(1) using rc ida(5) by (intro open_result_fail) auto
  next
    case ok
    have "map user_part (wqs (cd_dev s')) = upd_part i (?cc + 1) x ?us" using ok(5) d(3) i(1) by (simp add: upd_part_twice)
    moreover have "held (cd_dev s') = addh (insert (F c Uctx) (file_res_of c \<union> (if sva (cd_dev s) then {F c Sva} else {}))) (held (cd_dev s))"
      using ok(6) d(1) by (auto simp: addh_def file_res_of_def)
    moreover have "device_user_pasid_enabled (cd_dev s') = sva (cd_dev s)"
      using ok(7) d(2) by (simp add: device_user_pasid_enabled_def sva_def)
    moreover have "cd_ctx s' = (cd_ctx s)(c \<mapsto> u\<lparr>uc_id := ida_pick E (cd_ida s)\<rparr>)" using ok(2) t by simp
    ultimately have "opened E i c p tsk s s'"
      using ok(3,4) t u x i(2) unfolding opened_def Let_def sva_def
      by (intro conjI exI [of _ "u\<lparr>uc_id := ida_pick E (cd_ida s)\<rparr>"] exI [of _ x]) auto
    then show ?thesis by (simp add: open_result_def ok(1))
  qed
qed

lemma cdev_open_result:
  assumes i: "i < length (wqs (cd_dev s))" "i \<notin> cd_locks s" and c: "cd_ctx s c = None" "\<forall>q. upasid_xa (wqs (cd_dev s) ! i) q \<noteq> Some c"
  shows "open_result E i c p tsk s (idxd_cdev_open E i c p tsk s)"
proof -
  let ?sva = "device_user_pasid_enabled (cd_dev s)" and ?us = "map user_part (wqs (cd_dev s))"
  obtain r1 d1 where 1: "acquire E (F c Uctx) (cd_dev s) = (r1, d1)" by (cases "acquire E (F c Uctx) (cd_dev s)")
  note s1 = acquire_snd [OF 1]
  define t where "t = s\<lparr>cd_dev := d1, cd_ctx := (cd_ctx s)(c := Some zero_ctx), cd_locks := insert i (cd_locks s)\<rparr>"
  define t1 where "t1 = upd_ctx c (\<lambda>u. u\<lparr>uc_wq := i, uc_pid := tsk\<rparr>) t"
  let ?u = "zero_ctx\<lparr>uc_wq := i, uc_pid := tsk\<rparr>"
  have ctx: "(cd_ctx s)(c := None) = cd_ctx s" using c(1) by auto
  have t1: "cd_ctx t1 = (cd_ctx s)(c \<mapsto> ?u)" "cd_ida t1 = cd_ida s" "cd_locks t1 = insert i (cd_locks s)" "cd_dev t1 = d1"
    by (simp_all add: t1_def t_def)
  have sva1: "device_user_pasid_enabled d1 = ?sva" using s1 by (simp add: device_user_pasid_enabled_def)
  show ?thesis
  proof (cases "r1 < 0")
    case True
    then have "idxd_cdev_open E i c p tsk s = Some (- ENOMEM, s\<lparr>cd_dev := d1\<rparr>)" by (simp add: idxd_cdev_open_def 1)
    then show ?thesis using s1 True by (simp add: open_result_def untouched_def view_def)
  next
    case ok1: False
    have fail: "open_result E i c p tsk s (open_failed i c rc z)"
      if "rc < 0" "cd_ctx z = (cd_ctx s)(c \<mapsto> v)" "cd_ida z = cd_ida s" "cd_locks z = insert i (cd_locks s)"
        "map user_part (wqs (cd_dev z)) = ?us" "held (cd_dev z) = addh {F c Uctx} (held (cd_dev s))" for rc z v
      using that ctx i(2) by (auto simp: open_result_def open_failed_def untouched_def view_def)
    have lk: "lock_wq i (s\<lparr>cd_dev := d1, cd_ctx := (cd_ctx s)(c \<mapsto> zero_ctx)\<rparr>) = Some t"
      using i(2) by (simp add: lock_wq_def t_def)
    show ?thesis
    proof (cases "client_count (wqs (cd_dev t) ! i) > 0 \<and> wq_dedicated (wqs (cd_dev t) ! i)")
      case True
      then have "idxd_cdev_open E i c p tsk s = open_failed i c (- EBUSY) t" using ok1 lk by (simp add: idxd_cdev_open_def 1)
      then show ?thesis using s1 ok1 by (auto simp: t_def intro!: fail)
    next
      case free: False
      show ?thesis
      proof (cases ?sva)
        case False
        have run: "idxd_cdev_open E i c p tsk s = open_file_device E i c 0 t1"
          using ok1 lk free False sva1 t1(4) by (auto simp: idxd_cdev_open_def 1 Let_def t1_def t_def)
        show ?thesis unfolding run
          by (rule open_file_device_result [OF i c t1(1,2,3), where x = "upasid_xa (wqs (cd_dev s) ! i)"])
            (use False sva1 s1 ok1 i in \<open>simp_all add: t1(4) zero_ctx_def upd_part_same\<close>)
      next
        case sva: True
        obtain r2 d2 where 2: "acquire E (F c Sva) d1 = (r2, d2)" by (cases "acquire E (F c Sva) d1")
        note s2 = acquire_snd [OF 2]
        have start: "idxd_cdev_open E i c p tsk s =
            (if r2 < 0 then open_failed i c r2 (t1\<lparr>cd_dev := d2\<rparr>)
             else if p = invalid_pasid E then open_failed_get_pasid i c (- EINVAL) (t1\<lparr>cd_dev := d2\<rparr>)
             else
               let t2 = upd_ctx c (\<lambda>u. u\<lparr>uc_sva := True, uc_pasid := p\<rparr>) (t1\<lparr>cd_dev := d2\<rparr>);
                   (rc, d) = xa_insert E i p c d2;
                   (rc, d) = (if wq_dedicated (wqs d ! i) then idxd_wq_set_pasid E i p d else (rc, d));
                   t2 = t2\<lparr>cd_dev := d\<rparr>
               in if wq_dedicated (wqs d ! i) \<and> rc < 0 then open_failed_ida i c rc t2 else open_file_device E i c rc t2)"
          using ok1 lk free sva sva1 2 t1(4) unfolding idxd_cdev_open_def by (auto simp: 1 t1_def t_def Let_def)
        show ?thesis
        proof (cases "r2 < 0 \<or> p = invalid_pasid E")
          case True
          have up: "device_user_pasid_enabled d2" using s1 s2 sva by (simp add: device_user_pasid_enabled_def)
          let ?z = "t1\<lparr>cd_dev := release (F c Sva) d2\<rparr>"
          have run: "idxd_cdev_open E i c p tsk s =
              (if r2 < 0 then open_failed i c r2 (t1\<lparr>cd_dev := d2\<rparr>) else open_failed i c (- EINVAL) ?z)"
            using start True up by (auto simp: open_failed_get_pasid_def on_dev_def)
          have "r2 < 0 \<Longrightarrow> open_result E i c p tsk s (open_failed i c r2 (t1\<lparr>cd_dev := d2\<rparr>))"
            by (rule fail [of _ _ ?u]) (use t1 s1 s2 ok1 in simp_all)
          moreover have "\<not> r2 < 0 \<Longrightarrow> open_result E i c p tsk s (open_failed i c (- EINVAL) ?z)"
            by (rule fail [of _ _ ?u]) (use t1 s1 s2 ok1 in \<open>simp_all add: release_def addh_def fun_eq_iff\<close>)
          ultimately show ?thesis unfolding run by simp
        next
          case bound: False
          obtain r3 d3 where 3: "xa_insert E i p c d2 = (r3, d3)" by (cases "xa_insert E i p c d2")
          define q where "q = (if wq_dedicated (wqs d3 ! i) then idxd_wq_set_pasid E i p d3 else (r3, d3))"
          define t2 where "t2 = (upd_ctx c (\<lambda>u. u\<lparr>uc_sva := True, uc_pasid := p\<rparr>) (t1\<lparr>cd_dev := d2\<rparr>))\<lparr>cd_dev := snd q\<rparr>"
          let ?v = "?u\<lparr>uc_sva := True, uc_pasid := p\<rparr>"
          have i2: "i < length (wqs d2)" "wqs d2 = wqs (cd_dev s)" using s1 s2 i by simp_all
          note s3 = xa_insert_spec [OF i2(1) 3, unfolded i2(2)]
          have q: "fst q \<le> 0" "same_users d3 (snd q)"
            using s3 set_pasid_rc [of E i p d3] same_users_set_pasid [of d3 E i p] by (auto simp: q_def same_users_refl)
          obtain x where x: "map user_part (wqs d3) = upd_part i (client_count (wqs (cd_dev s) ! i)) x ?us"
            "x = upasid_xa (wqs (cd_dev s) ! i) \<or> upasid_xa (wqs (cd_dev s) ! i) p = None \<and> x = (upasid_xa (wqs (cd_dev s) ! i))(p \<mapsto> c)"
            using s3 upd_part_same [OF i(1)] by metis
          have t2: "cd_ctx t2 = (cd_ctx s)(c \<mapsto> ?v)" "cd_ida t2 = cd_ida s" "cd_locks t2 = insert i (cd_locks s)" "cd_dev t2 = snd q"
            by (simp_all add: t2_def t1)
          have d2: "held (snd q) = addh (insert (F c Uctx) {F c Sva}) (held (cd_dev s))"
            "device_user_pasid_enabled (snd q)" "map user_part (wqs (snd q)) = upd_part i (client_count (wqs (cd_dev s) ! i)) x ?us"
            using q(2) s1 s2 s3 ok1 bound sva x(1) by (auto simp: same_users_def addh_def device_user_pasid_enabled_def)
          have run: "idxd_cdev_open E i c p tsk s =
              (if wq_dedicated (wqs (snd q) ! i) \<and> fst q < 0 then open_failed_ida i c (fst q) t2 else open_file_device E i c (fst q) t2)"
            using start bound by (auto simp: 3 q_def t2_def Let_def split_beta)
          obtain s' where s': "open_failed_ida i c (fst q) t2 = Some (fst q, s')" "untouched s s'"
            using open_failed_ida_untouched [OF i c t2(1-3), of tsk p x "fst q"] sva d2 t2(4) x(2) by auto
          have "open_result E i c p tsk s (open_file_device E i c (fst q) t2)"
            by (rule open_file_device_result [OF i c t2(1-3)]) (use sva d2 t2(4) x(2) q(1) in auto)
          then show ?thesis unfolding run using s' by (auto simp: open_result_def)
        qed
      qed
    qed
  qed
qed

text \<open>Closing a file.\<close>

lemma cdev_release_spec:
  assumes c: "cd_ctx s c = Some u" "uc_wq u = i" "i < length (wqs (cd_dev s))" "i \<notin> cd_locks s"
    and r: "idxd_cdev_release E c s = Some (rc, s')"
  shows "rc = 0 \<and> cd_ctx s' = (cd_ctx s)(c := None) \<and> cd_ida s' = cd_ida s - {uc_id u} \<and> cd_locks s' = cd_locks s \<and>
     map user_part (wqs (cd_dev s')) =
       upd_part i (client_count (wqs (cd_dev s) ! i) - 1)
         (if uc_sva u \<and> upasid_xa (wqs (cd_dev s) ! i) (uc_pasid u) = Some c
          then (upasid_xa (wqs (cd_dev s) ! i))(uc_pasid u := None) else upasid_xa (wqs (cd_dev s) ! i))
         (map user_part (wqs (cd_dev s))) \<and>
     held (cd_dev s') = subh (insert (F c Uctx) (file_res_of c \<union> (if uc_sva u then {F c Sva} else {}))) (held (cd_dev s))"
proof -
  let ?d = "cd_dev s" let ?us = "map user_part (wqs ?d)" and ?xa = "upasid_xa (wqs ?d ! i)" and ?cc = "client_count (wqs ?d ! i)"
  define d0 where "d0 = release (F c FileId) (release (DevRef (DevFile c)) (release (Registered (DevFile c)) ?d))"
  define d1 where "d1 = (if wq_shared (wqs d0 ! i) then idxd_device_drain_pasid E (uc_pasid u) d0
                    else if device_user_pasid_enabled d0 then snd (idxd_wq_disable_pasid E i d0)
                    else idxd_wq_drain E i d0)"
  have su1: "same_users d0 d1" by (simp add: d1_def same_users_drain same_users_disable_pasid)
  have wq0: "wqs d0 = wqs ?d" by (simp add: d0_def release_def)
  obtain d2 where d2: "(if uc_sva u then map_option (\<lambda>d. idxd_xa_pasid_remove c u (release (F c Sva) d))
        (idxd_cdev_evl_drain_pasid E i (uc_pasid u) d1) else Some d1) = Some d2"
    and s': "rc = 0" "s' = unlock_wq i (on_dev (upd_wq i idxd_wq_put) (kfree_ctx c (s\<lparr>cd_dev := d2, cd_ida := cd_ida s - {uc_id u}\<rparr>)
        \<lparr>cd_locks := insert i (cd_locks s)\<rparr>))"
    using r c by (auto simp: idxd_cdev_release_def put_file_device_def idxd_file_dev_release_def Let_def on_dev_def
        d0_def [symmetric] d1_def [symmetric] lock_wq_Some split: option.splits cong: if_cong)
  have p1: "map user_part (wqs d1) = ?us" "held d1 = held d0" using su1 wq0 by (simp_all add: same_users_def)
  have part: "map user_part (wqs d2) = upd_part i ?cc
        (if uc_sva u \<and> ?xa (uc_pasid u) = Some c then ?xa(uc_pasid u := None) else ?xa) ?us \<and>
      held d2 = (if uc_sva u then subh {F c Sva} (held d0) else held d0)"
  proof (cases "uc_sva u")
    case False
    then show ?thesis using d2 p1 upd_part_same [OF c(3)] by simp
  next
    case True
    then obtain e where e: "idxd_cdev_evl_drain_pasid E i (uc_pasid u) d1 = Some e" "d2 = idxd_xa_pasid_remove c u (release (F c Sva) e)"
      using d2 by auto
    have "same_users d1 e" by (rule same_users_evl_drain [OF e(1)])
    then have pe: "map user_part (wqs e) = ?us" "held e = held d0" using p1 by (simp_all add: same_users_def)
    note ix = user_part_index [OF pe(1) c(3)]
    have len: "i < length (wqs e)" using c(3) arg_cong [OF pe(1), of length] by simp
    show ?thesis
      using True e(2) pe c(2) ix upd_part_same [OF c(3)] upd_xa_part [of i "release (F c Sva) e" "uc_pasid u" None] len
      by (auto simp: idxd_xa_pasid_remove_def release_def upd_xa_def subh_def)
  qed
  have len: "i < length (wqs d2)" using c(3) upd_part_len [OF conjunct1 [OF part]] by simp
  have "user_part (wqs d2 ! i) = upd_part i ?cc (if uc_sva u \<and> ?xa (uc_pasid u) = Some c then ?xa(uc_pasid u := None) else ?xa) ?us ! i"
    using arg_cong [OF conjunct1 [OF part], of "\<lambda>l. l ! i"] len by simp
  then have up: "user_part (idxd_wq_put (wqs d2 ! i)) =
      (?cc - 1, if uc_sva u \<and> ?xa (uc_pasid u) = Some c then ?xa(uc_pasid u := None) else ?xa, snd (snd (?us ! i)))"
    using c(3) by (simp add: upd_part_def user_part_def idxd_wq_put_def)
  have "map user_part (wqs (cd_dev s')) = upd_part i (?cc - 1)
         (if uc_sva u \<and> ?xa (uc_pasid u) = Some c then ?xa(uc_pasid u := None) else ?xa) ?us"
    using len part up c(3) by (simp add: s'(2) map_user_part_upd upd_part_def release_def)
  moreover have "held (cd_dev s') = subh (insert (F c Uctx) (file_res_of c \<union> (if uc_sva u then {F c Sva} else {}))) (held ?d)"
    using part by (auto simp: s'(2) d0_def subh_def file_res_of_def fun_eq_iff)
  ultimately show ?thesis using c(4) by (simp add: s')
qed

subsection \<open>The files of a device\<close>

text \<open>
  What holds between calls: no lock is held, the contexts that exist belong to queues of the
  device and have different file numbers, all of them taken; the table of a queue leads only to
  existing contexts of that queue with that address space; the client count is the number of
  contexts, at most one for a dedicated queue.
\<close>

definition files_of :: "nat \<Rightarrow> cdev_state \<Rightarrow> nat set" where
  "files_of i s = {c. \<exists>u. cd_ctx s c = Some u \<and> uc_wq u = i}"

definition cdev_ok :: "cdev_state \<Rightarrow> bool" where
  "cdev_ok s \<longleftrightarrow>
     cd_locks s = {} \<and> finite (dom (cd_ctx s)) \<and> finite (cd_ida s) \<and>
     (\<forall>c u. cd_ctx s c = Some u \<longrightarrow> uc_wq u < length (wqs (cd_dev s)) \<and> uc_id u \<in> cd_ida s) \<and>
     (\<forall>c u c' u'. cd_ctx s c = Some u \<and> cd_ctx s c' = Some u' \<and> uc_id u = uc_id u' \<longrightarrow> c = c') \<and>
     (\<forall>i<length (wqs (cd_dev s)). \<forall>p c. upasid_xa (wqs (cd_dev s) ! i) p = Some c \<longrightarrow>
        (\<exists>u. cd_ctx s c = Some u \<and> uc_wq u = i \<and> uc_pasid u = p \<and> uc_sva u)) \<and>
     (\<forall>i<length (wqs (cd_dev s)). client_count (wqs (cd_dev s) ! i) = int (card (files_of i s)) \<and>
        (wq_dedicated (wqs (cd_dev s) ! i) \<longrightarrow> client_count (wqs (cd_dev s) ! i) \<le> 1))"

definition ida_fresh :: "env \<Rightarrow> bool" where
  "ida_fresh E \<longleftrightarrow> (\<forall>A. finite A \<longrightarrow> ida_pick E A \<notin> A)"

text \<open>The members of a context that matter here; the fault counters do not.\<close>

definition ctx_core :: "user_ctx \<Rightarrow> nat \<times> u32 \<times> bool \<times> int" where
  "ctx_core u = (uc_wq u, uc_pasid u, uc_sva u, uc_id u)"

definition same_files :: "cdev_state \<Rightarrow> cdev_state \<Rightarrow> bool" where
  "same_files s s' \<longleftrightarrow> map user_part (wqs (cd_dev s')) = map user_part (wqs (cd_dev s)) \<and>
     (\<forall>c. map_option ctx_core (cd_ctx s' c) = map_option ctx_core (cd_ctx s c)) \<and>
     cd_ida s' = cd_ida s \<and> cd_locks s' = cd_locks s"

lemma same_files_refl: "same_files s s" and
  same_files_trans: "same_files s s' \<Longrightarrow> same_files s' s'' \<Longrightarrow> same_files s s''"
  by (simp_all add: same_files_def)

lemma untouched_same_files: "untouched s s' \<Longrightarrow> same_files s s'"
  by (simp add: untouched_def view_def same_files_def)

lemma same_files_ctx:
  assumes "same_files s s'"
  shows "cd_ctx s' c = Some u \<Longrightarrow> \<exists>v. cd_ctx s c = Some v \<and> ctx_core v = ctx_core u"
    "cd_ctx s c = Some v \<Longrightarrow> \<exists>u. cd_ctx s' c = Some u \<and> ctx_core u = ctx_core v"
proof -
  have m: "map_option ctx_core (cd_ctx s' c) = map_option ctx_core (cd_ctx s c)" using assms by (simp add: same_files_def)
  then show "cd_ctx s' c = Some u \<Longrightarrow> \<exists>v. cd_ctx s c = Some v \<and> ctx_core v = ctx_core u"
    by (cases "cd_ctx s c") simp_all
  from m show "cd_ctx s c = Some v \<Longrightarrow> \<exists>u. cd_ctx s' c = Some u \<and> ctx_core u = ctx_core v"
    by (cases "cd_ctx s' c") simp_all
qed

lemma same_files_of: "same_files s s' \<Longrightarrow> files_of i s' = files_of i s"
  using same_files_ctx [of s s'] by (fastforce simp: files_of_def ctx_core_def)

lemma same_files_dom: "same_files s s' \<Longrightarrow> dom (cd_ctx s') = dom (cd_ctx s)"
  using same_files_ctx [of s s'] by fastforce

lemma cdev_ok_same_files:
  assumes v: "same_files s s'" and ok: "cdev_ok s"
  shows "cdev_ok s'"
proof -
  have m: "map user_part (wqs (cd_dev s')) = map user_part (wqs (cd_dev s))" and r: "cd_ida s' = cd_ida s" "cd_locks s' = cd_locks s"
    using v by (simp_all add: same_files_def)
  have len: "length (wqs (cd_dev s')) = length (wqs (cd_dev s))" using m by (metis length_map)
  have ix: "client_count (wqs (cd_dev s') ! i) = client_count (wqs (cd_dev s) ! i)"
    "upasid_xa (wqs (cd_dev s') ! i) = upasid_xa (wqs (cd_dev s) ! i)"
    "wq_dedicated (wqs (cd_dev s') ! i) = wq_dedicated (wqs (cd_dev s) ! i)" if "i < length (wqs (cd_dev s))" for i
    using user_part_index [OF m that] by (simp_all add: wq_dedicated_def)
  note ctx = same_files_ctx [OF v, unfolded ctx_core_def prod.inject]
  have 1: "\<forall>c u. cd_ctx s' c = Some u \<longrightarrow> uc_wq u < length (wqs (cd_dev s')) \<and> uc_id u \<in> cd_ida s'"
    using ok ctx(1) len r unfolding cdev_ok_def by metis
  have 2: "\<forall>c u c' u'. cd_ctx s' c = Some u \<and> cd_ctx s' c' = Some u' \<and> uc_id u = uc_id u' \<longrightarrow> c = c'"
    using ok ctx(1) unfolding cdev_ok_def by metis
  have 3: "\<forall>i<length (wqs (cd_dev s')). \<forall>p c. upasid_xa (wqs (cd_dev s') ! i) p = Some c \<longrightarrow>
        (\<exists>u. cd_ctx s' c = Some u \<and> uc_wq u = i \<and> uc_pasid u = p \<and> uc_sva u)"
    using ok ctx(2) len ix(2) unfolding cdev_ok_def by metis
  show ?thesis
    using ok 1 2 3 r same_files_dom [OF v] same_files_of [OF v] len ix(1,3) unfolding cdev_ok_def
    by (elim conjE, intro conjI) simp_all
qed

lemma upd_part_index:
  assumes "map user_part ws' = upd_part i n x (map user_part ws)" "i < length ws" "j < length ws"
  shows "client_count (ws' ! j) = (if j = i then n else client_count (ws ! j))"
    "upasid_xa (ws' ! j) = (if j = i then x else upasid_xa (ws ! j))"
    "wq_dedicated (ws' ! j) = wq_dedicated (ws ! j)"
proof -
  have "j < length ws'" using upd_part_len [OF assms(1)] assms(3) by simp
  then have "user_part (ws' ! j) = upd_part i n x (map user_part ws) ! j" using arg_cong [OF assms(1), of "\<lambda>l. l ! j"] by simp
  then show "client_count (ws' ! j) = (if j = i then n else client_count (ws ! j))"
    "upasid_xa (ws' ! j) = (if j = i then x else upasid_xa (ws ! j))"
    "wq_dedicated (ws' ! j) = wq_dedicated (ws ! j)"
    using assms by (auto simp: upd_part_def user_part_def wq_dedicated_def nth_list_update split: if_splits)
qed

lemma files_open: "cd_ctx s c = None \<Longrightarrow> cd_ctx s' = (cd_ctx s)(c \<mapsto> u) \<Longrightarrow> files_of j s' = (if uc_wq u = j then insert c (files_of j s) else files_of j s)"
  by (auto simp: files_of_def split: if_splits)

lemma files_close: "cd_ctx s c = Some u \<Longrightarrow> cd_ctx s' = (cd_ctx s)(c := None) \<Longrightarrow> files_of j s' = files_of j s - {c}"
  by (auto simp: files_of_def split: if_splits)

lemma files_finite: "finite (dom (cd_ctx s)) \<Longrightarrow> finite (files_of j s)"
  by (rule finite_subset [of _ "dom (cd_ctx s)"]) (auto simp: files_of_def)

lemma opened_ok:
  assumes ok: "cdev_ok s" and E: "ida_fresh E" and c: "cd_ctx s c = None" "i < length (wqs (cd_dev s))"
    and free: "wq_dedicated (wqs (cd_dev s) ! i) \<Longrightarrow> client_count (wqs (cd_dev s) ! i) \<le> 0"
    and op: "opened E i c p tsk s s'"
  shows "cdev_ok s'"
proof -
  let ?n = "ida_pick E (cd_ida s)" and ?sva = "device_user_pasid_enabled (cd_dev s)"
  obtain u x where u: "cd_ctx s' = (cd_ctx s)(c \<mapsto> u)" "uc_wq u = i" "uc_id u = ?n" "uc_sva u = ?sva" "?sva \<longrightarrow> uc_pasid u = p"
    and x: "x = upasid_xa (wqs (cd_dev s) ! i) \<or> ?sva \<and> upasid_xa (wqs (cd_dev s) ! i) p = None \<and> x = (upasid_xa (wqs (cd_dev s) ! i))(p \<mapsto> c)"
    and m: "map user_part (wqs (cd_dev s')) = upd_part i (client_count (wqs (cd_dev s) ! i) + 1) x (map user_part (wqs (cd_dev s)))"
    and r: "cd_ida s' = insert ?n (cd_ida s)" "cd_locks s' = cd_locks s"
    using op by (auto simp: opened_def Let_def)
  have fin: "finite (dom (cd_ctx s))" "finite (cd_ida s)" using ok by (simp_all add: cdev_ok_def)
  have n: "?n \<notin> cd_ida s" using E fin by (simp add: ida_fresh_def)
  have len: "length (wqs (cd_dev s')) = length (wqs (cd_dev s))" using upd_part_len [OF m] by simp
  note ix = upd_part_index [OF m c(2)]
  have cnt: "c \<notin> files_of j s" for j using c(1) by (simp add: files_of_def)
  have "\<forall>j<length (wqs (cd_dev s')). client_count (wqs (cd_dev s') ! j) = int (card (files_of j s')) \<and>
        (wq_dedicated (wqs (cd_dev s') ! j) \<longrightarrow> client_count (wqs (cd_dev s') ! j) \<le> 1)"
    using ok ix files_open [OF c(1) u(1)] u(2) len cnt files_finite [OF fin(1)] free by (auto simp: cdev_ok_def)
  moreover have "\<forall>j<length (wqs (cd_dev s')). \<forall>q b. upasid_xa (wqs (cd_dev s') ! j) q = Some b \<longrightarrow>
        (\<exists>u. cd_ctx s' b = Some u \<and> uc_wq u = j \<and> uc_pasid u = q \<and> uc_sva u)"
  proof (intro allI impI)
    fix j q b assume j: "j < length (wqs (cd_dev s'))" and b: "upasid_xa (wqs (cd_dev s') ! j) q = Some b"
    have old: "upasid_xa (wqs (cd_dev s) ! j) q = Some b \<Longrightarrow> \<exists>u. cd_ctx s b = Some u \<and> uc_wq u = j \<and> uc_pasid u = q \<and> uc_sva u"
      using ok j len by (auto simp: cdev_ok_def)
    show "\<exists>u. cd_ctx s' b = Some u \<and> uc_wq u = j \<and> uc_pasid u = q \<and> uc_sva u"
    proof (cases "upasid_xa (wqs (cd_dev s) ! j) q = Some b")
      case True
      from old [OF this] c(1) u(1) show ?thesis by auto
    next
      case False
      then have "j = i \<and> q = p \<and> b = c \<and> ?sva" using b ix(2) [of j] j len x by (auto split: if_splits)
      then show ?thesis using u by auto
    qed
  qed
  moreover have "\<forall>b v. cd_ctx s' b = Some v \<longrightarrow> uc_wq v < length (wqs (cd_dev s')) \<and> uc_id v \<in> cd_ida s'"
    using ok u r c(2) len by (auto simp: cdev_ok_def)
  moreover have "\<forall>b v b' v'. cd_ctx s' b = Some v \<and> cd_ctx s' b' = Some v' \<and> uc_id v = uc_id v' \<longrightarrow> b = b'"
    using ok u(1,3) n unfolding cdev_ok_def by (metis fun_upd_apply option.inject)
  moreover have "cd_locks s' = {}" "finite (dom (cd_ctx s'))" "finite (cd_ida s')" using ok u r by (auto simp: cdev_ok_def)
  ultimately show ?thesis unfolding cdev_ok_def by blast
qed

lemma closed_ok:
  assumes ok: "cdev_ok s" and c: "cd_ctx s c = Some u" and r: "idxd_cdev_release E c s = Some (rc, s')"
  shows "cdev_ok s'"
proof -
  let ?i = "uc_wq u" let ?xa = "upasid_xa (wqs (cd_dev s) ! ?i)"
  have i: "?i < length (wqs (cd_dev s))" "?i \<notin> cd_locks s" using ok c by (auto simp: cdev_ok_def)
  note sp = cdev_release_spec [OF c refl i r]
  define x where "x = (if uc_sva u \<and> ?xa (uc_pasid u) = Some c then ?xa(uc_pasid u := None) else ?xa)"
  have m: "map user_part (wqs (cd_dev s')) = upd_part ?i (client_count (wqs (cd_dev s) ! ?i) - 1) x (map user_part (wqs (cd_dev s)))"
    and ctx: "cd_ctx s' = (cd_ctx s)(c := None)" and ida: "cd_ida s' = cd_ida s - {uc_id u}" "cd_locks s' = {}"
    using sp ok by (simp_all add: x_def cdev_ok_def)
  have len: "length (wqs (cd_dev s')) = length (wqs (cd_dev s))" using upd_part_len [OF m] by simp
  note ix = upd_part_index [OF m i(1)]
  have fin: "finite (dom (cd_ctx s))" using ok by (simp add: cdev_ok_def)
  have xa: "upasid_xa (wqs (cd_dev s) ! j) q = Some b \<Longrightarrow> j < length (wqs (cd_dev s)) \<Longrightarrow>
      \<exists>u. cd_ctx s b = Some u \<and> uc_wq u = j \<and> uc_pasid u = q \<and> uc_sva u" for j q b
    using ok unfolding cdev_ok_def by blast
  have mem: "c \<in> files_of j s \<longleftrightarrow> j = ?i" for j using c by (auto simp: files_of_def)
  have "\<forall>j<length (wqs (cd_dev s')). client_count (wqs (cd_dev s') ! j) = int (card (files_of j s')) \<and>
        (wq_dedicated (wqs (cd_dev s') ! j) \<longrightarrow> client_count (wqs (cd_dev s') ! j) \<le> 1)"
  proof (intro allI impI)
    fix j assume j: "j < length (wqs (cd_dev s'))"
    have old: "client_count (wqs (cd_dev s) ! j) = int (card (files_of j s))"
      "wq_dedicated (wqs (cd_dev s) ! j) \<longrightarrow> client_count (wqs (cd_dev s) ! j) \<le> 1"
      using ok j len by (auto simp: cdev_ok_def)
    have "int (card (files_of j s')) = (if j = ?i then int (card (files_of j s)) - 1 else int (card (files_of j s)))"
      using files_close [OF c ctx] mem [of j] files_finite [OF fin, of j] card_gt_0_iff [of "files_of j s"]
      by (auto simp: card_Diff_singleton of_nat_diff)
    then show "client_count (wqs (cd_dev s') ! j) = int (card (files_of j s')) \<and>
        (wq_dedicated (wqs (cd_dev s') ! j) \<longrightarrow> client_count (wqs (cd_dev s') ! j) \<le> 1)"
      using old ix(1,3) [of j] j len by auto
  qed
  moreover have "\<forall>j<length (wqs (cd_dev s')). \<forall>q b. upasid_xa (wqs (cd_dev s') ! j) q = Some b \<longrightarrow>
        (\<exists>u. cd_ctx s' b = Some u \<and> uc_wq u = j \<and> uc_pasid u = q \<and> uc_sva u)"
  proof (intro allI impI)
    fix j q b assume j: "j < length (wqs (cd_dev s'))" and b: "upasid_xa (wqs (cd_dev s') ! j) q = Some b"
    have sb: "upasid_xa (wqs (cd_dev s) ! j) q = Some b" and nb: "\<not> (j = ?i \<and> q = uc_pasid u \<and> x \<noteq> ?xa)"
      using b ix(2) [of j] j len by (auto simp: x_def split: if_splits)
    obtain v where v: "cd_ctx s b = Some v" "uc_wq v = j" "uc_pasid v = q" "uc_sva v" using xa [OF sb] j len by auto
    have "b \<noteq> c"
    proof
      assume "b = c"
      then have "v = u" using v c by simp
      then have "uc_sva u \<and> ?xa (uc_pasid u) = Some c" using v sb \<open>b = c\<close> by simp
      then have "x \<noteq> ?xa" by (auto simp: x_def fun_eq_iff)
      then show False using nb v \<open>v = u\<close> by simp
    qed
    then show "\<exists>u. cd_ctx s' b = Some u \<and> uc_wq u = j \<and> uc_pasid u = q \<and> uc_sva u" using v ctx by simp
  qed
  moreover have "\<forall>b v. cd_ctx s' b = Some v \<longrightarrow> uc_wq v < length (wqs (cd_dev s')) \<and> uc_id v \<in> cd_ida s'"
    using ok c ctx ida(1) len unfolding cdev_ok_def by (metis DiffI fun_upd_apply option.discI singletonD)
  moreover have "\<forall>b v b' v'. cd_ctx s' b = Some v \<and> cd_ctx s' b' = Some v' \<and> uc_id v = uc_id v' \<longrightarrow> b = b'"
    using ok ctx unfolding cdev_ok_def by (metis fun_upd_apply option.discI)
  moreover have "finite (dom (cd_ctx s'))" "finite (cd_ida s')" using ok ctx ida by (auto simp: cdev_ok_def)
  ultimately show ?thesis using ida(2) unfolding cdev_ok_def by blast
qed

text \<open>Fault handling and the log's interrupt leave the files alone.\<close>

lemma same_files_dev: "map user_part (wqs (f (cd_dev s))) = map user_part (wqs (cd_dev s)) \<Longrightarrow> same_files s (on_dev f s)"
  by (simp add: same_files_def)

lemma same_files_counter: "same_files s (idxd_user_counter_increment i p k s)"
  by (auto simp: idxd_user_counter_increment_def same_files_def upd_ctx_def ctx_core_def [abs_def] option.map_comp o_def
      split: option.split)

lemma same_files_set_batch_fail: "same_files s (on_dev (set_batch_fail b v) s)"
  by (rule same_files_dev) (simp add: set_batch_fail_def upd_evl_def)

lemma same_files_copy_cr: "same_files s (snd (idxd_copy_cr E i p addr st rs n s))"
  by (auto simp: idxd_copy_cr_def same_files_def ext_def Let_def split: option.split)

lemma same_files_fault_work: "same_files s (idxd_evl_fault_work E fault s)"
proof -
  have 1: "same_files s (snd (fault_prepare E fault s))"
    by (auto simp: fault_prepare_def Let_def intro: same_files_refl same_files_counter same_files_set_batch_fail
        same_files_trans [OF same_files_set_batch_fail same_files_counter])
  have 2: "same_files s (on_dev (release x) t)" if "same_files s t" for s t x
    by (rule same_files_trans [OF that same_files_dev]) (simp add: release_def)
  have 3: "same_files s (idxd_user_counter_increment i p k t)" "same_files s (on_dev (set_batch_fail b v) t)"
    if "same_files s t" for s t i p k b v
    using same_files_trans [OF that same_files_counter] same_files_trans [OF that same_files_set_batch_fail] by blast+
  obtain n st rs t where p: "fault_prepare E fault s = ((n, st, rs), t)" by (metis prod_cases4 surj_pair)
  have "same_files s t" using 1 by (simp add: p)
  moreover from this have "same_files s (snd (idxd_copy_cr E i q addr st rs n t))" for i q addr
    by (rule same_files_trans [OF _ same_files_copy_cr])
  ultimately show ?thesis
    by (auto simp: idxd_evl_fault_work_def p Let_def split_beta intro!: 2 3)
qed

lemma process_evl_wqs: "process_evl_entries E d = Some (queued, d') \<Longrightarrow> wqs d' = wqs d"
proof -
  assume r: "process_evl_entries E d = Some (queued, d')"
  obtain e h fuel t sz d0 h' d1 where w: "ring_walk (process_evl_entry E) sz fuel h t ([], d0) = Some (h', queued, d1)"
    and d0: "wqs d0 = wqs d" and d': "wqs d' = wqs d1"
    using r by (auto simp: process_evl_entries_def Let_def iowrite32_def upd_evl_def split: option.splits)
  have "wqs (snd x') = wqs d" if "process_evl_entry E k x = Some x'" "wqs (snd x) = wqs d" for k x x'
    using that acquire_dev [of E "K Fault" "snd x"]
    by (auto simp: process_evl_entry_def Let_def upd_evl_def notify_def split_beta split: option.splits if_splits)
  then have "wqs (snd (queued, d1)) = wqs d" using ring_walk_inv [OF _ w, of "\<lambda>x. wqs (snd x) = wqs d"] d0 by (metis snd_conv)
  then show ?thesis using d' by simp
qed

subsection \<open>Properties\<close>

lemma cdev_ok_open:
  assumes "cdev_ok s" "i < length (wqs (cd_dev s))" "cd_ctx s c = None"
  shows "i \<notin> cd_locks s" "\<forall>q. upasid_xa (wqs (cd_dev s) ! i) q \<noteq> Some c"
proof -
  show "i \<notin> cd_locks s" using assms by (simp add: cdev_ok_def)
  show "\<forall>q. upasid_xa (wqs (cd_dev s) ! i) q \<noteq> Some c"
    using assms unfolding cdev_ok_def by (metis option.distinct(1))
qed

lemma open_busy:
  assumes "i \<notin> cd_locks s" "wq_dedicated (wqs (cd_dev s) ! i)" "client_count (wqs (cd_dev s) ! i) > 0"
  shows "\<exists>s'. idxd_cdev_open E i c p tsk s = Some (- EBUSY, s') \<or> idxd_cdev_open E i c p tsk s = Some (- ENOMEM, s')"
proof -
  obtain r1 d1 where 1: "acquire E (F c Uctx) (cd_dev s) = (r1, d1)" by (cases "acquire E (F c Uctx) (cd_dev s)")
  show ?thesis using acquire_snd [OF 1] assms by (auto simp: idxd_cdev_open_def 1 lock_wq_def open_failed_def Let_def)
qed

lemma open_not_busy:
  assumes "cdev_ok s" "i < length (wqs (cd_dev s))" "cd_ctx s c = None" "idxd_cdev_open E i c p tsk s = Some (0, s')"
    "wq_dedicated (wqs (cd_dev s) ! i)"
  shows "client_count (wqs (cd_dev s) ! i) \<le> 0"
proof (rule ccontr)
  assume "\<not> ?thesis"
  then have "client_count (wqs (cd_dev s) ! i) > 0" by simp
  from open_busy [OF cdev_ok_open(1) [OF assms(1,2,3)] assms(5) this, of E c p tsk] assms(4) show False by auto
qed


text \<open>One step: a process opens or closes a file, the log is processed, or a fault is served.\<close>

inductive cdev_step :: "env \<Rightarrow> cdev_state \<Rightarrow> cdev_state \<Rightarrow> bool" for E where
  step_open: "cd_ctx s c = None \<Longrightarrow> i < length (wqs (cd_dev s)) \<Longrightarrow> idxd_cdev_open E i c p tsk s = Some (rc, s') \<Longrightarrow> cdev_step E s s'"
| step_release: "cd_ctx s c \<noteq> None \<Longrightarrow> idxd_cdev_release E c s = Some (rc, s') \<Longrightarrow> cdev_step E s s'"
| step_log: "process_evl_entries E (cd_dev s) = Some (queued, d) \<Longrightarrow> cdev_step E s (s\<lparr>cd_dev := d\<rparr>)"
| step_fault: "cdev_step E s (idxd_evl_fault_work E fault s)"

lemma cdev_step_ok:
  assumes E: "ida_fresh E" and step: "cdev_step E s s'" and ok: "cdev_ok s"
  shows "cdev_ok s'"
  using step ok
proof cases
  case (step_open c i p tsk rc)
  note res = cdev_open_result [OF step_open(2) cdev_ok_open(1) [OF ok step_open(2,1)] step_open(1) cdev_ok_open(2) [OF ok step_open(2,1)],
      of E p tsk, unfolded open_result_def step_open(3), simplified]
  then consider "untouched s s'" | "rc = 0" "opened E i c p tsk s s'" by blast
  then show ?thesis
  proof cases
    case 1
    from cdev_ok_same_files [OF untouched_same_files [OF this] ok] show ?thesis .
  next
    case 2
    show ?thesis
      by (rule opened_ok [OF ok E step_open(1,2) _ 2(2)])
        (rule open_not_busy [OF ok step_open(2,1) step_open(3) [unfolded 2(1)]])
  qed
next
  case (step_release c rc)
  then show ?thesis using closed_ok [OF ok] by blast
next
  case (step_log queued d)
  have "same_files s s'" using process_evl_wqs [OF step_log(2)] by (simp add: step_log(1) same_files_def)
  then show ?thesis using ok by (rule cdev_ok_same_files)
next
  case (step_fault fault)
  then show ?thesis using same_files_fault_work ok by (metis cdev_ok_same_files)
qed


lemma open_close_untouched:
  assumes ok: "cdev_ok s" and E: "ida_fresh E" and i: "i < length (wqs (cd_dev s))" and c: "cd_ctx s c = None"
    and op: "idxd_cdev_open E i c p tsk s = Some (0, s1)" "cd_ctx s1 c \<noteq> None"
    and cl: "idxd_cdev_release E c s1 = Some (rc, s2)"
  shows "rc = 0 \<and> untouched s s2"
proof -
  let ?n = "ida_pick E (cd_ida s)" and ?sva = "device_user_pasid_enabled (cd_dev s)"
  let ?xa = "upasid_xa (wqs (cd_dev s) ! i)" and ?cc = "client_count (wqs (cd_dev s) ! i)"
  have res: "open_result E i c p tsk s (Some (0, s1))"
    using cdev_open_result [OF i cdev_ok_open(1) [OF ok i c] c cdev_ok_open(2) [OF ok i c], of E p tsk] op(1) by simp
  moreover have "\<not> untouched s s1" using op(2) c by (auto simp: untouched_def view_def)
  ultimately have opened: "opened E i c p tsk s s1" by (simp add: open_result_def)
  then obtain u x where u: "cd_ctx s1 = (cd_ctx s)(c \<mapsto> u)" "uc_wq u = i" "uc_id u = ?n" "uc_sva u = ?sva" "?sva \<longrightarrow> uc_pasid u = p"
    and x: "x = ?xa \<or> ?sva \<and> ?xa p = None \<and> x = ?xa(p \<mapsto> c)"
    and m: "map user_part (wqs (cd_dev s1)) = upd_part i (?cc + 1) x (map user_part (wqs (cd_dev s)))"
    and r: "cd_ida s1 = insert ?n (cd_ida s)" "cd_locks s1 = cd_locks s"
    and h: "held (cd_dev s1) = addh (insert (F c Uctx) (file_res_of c \<union> (if ?sva then {F c Sva} else {}))) (held (cd_dev s))"
    by (auto simp: opened_def Let_def)
  have i1: "i < length (wqs (cd_dev s1))" "i \<notin> cd_locks s1" using upd_part_len [OF m] i r cdev_ok_open(1) [OF ok i c] by simp_all
  note ix = upd_part_index [OF m i i, simplified]
  have n: "?n \<notin> cd_ida s" using E ok by (simp add: ida_fresh_def cdev_ok_def)
  have c1: "cd_ctx s1 c = Some u" using u(1) by simp
  note sp = cdev_release_spec [OF c1 u(2) i1 cl]
  have restored: "(if uc_sva u \<and> upasid_xa (wqs (cd_dev s1) ! i) (uc_pasid u) = Some c
      then (upasid_xa (wqs (cd_dev s1) ! i))(uc_pasid u := None) else upasid_xa (wqs (cd_dev s1) ! i)) = ?xa"
    unfolding ix(2) using x u(4,5) cdev_ok_open(2) [OF ok i c] by (auto simp: fun_eq_iff)
  have "map user_part (wqs (cd_dev s2)) = upd_part i ?cc ?xa (map user_part (wqs (cd_dev s1)))"
    using sp unfolding restored ix(1) by simp
  then have "map user_part (wqs (cd_dev s2)) = map user_part (wqs (cd_dev s))"
    using i upd_part_same [OF i] unfolding m by (simp add: upd_part_twice)
  moreover have "(cd_ctx s)(c := None) = cd_ctx s" using c by auto
  moreover have "held (cd_dev s2) = held (cd_dev s)" using sp h u(4) by simp
  ultimately show ?thesis using sp u(1,3) r n by (simp add: untouched_def view_def)
qed

lemma dev_evl_close:
  "dev_evl (snd (idxd_wq_disable_pasid E i d)) = dev_evl d" "dev_evl (idxd_wq_drain E i d) = dev_evl d"
  "dev_evl (idxd_device_drain_pasid E p d) = dev_evl d"
proof -
  have "dev_evl (snd (idxd_wq_enable E i d)) = dev_evl d" "dev_evl (snd (idxd_wq_disable E i False d)) = dev_evl d" for d
    by (simp_all add: idxd_wq_enable_def idxd_wq_disable_def Let_def split_beta)
  then show "dev_evl (snd (idxd_wq_disable_pasid E i d)) = dev_evl d"
    by (simp add: idxd_wq_disable_pasid_def Let_def split_beta iowrite32_def)
qed (simp_all add: idxd_wq_drain_def idxd_device_drain_pasid_def Let_def)

lemma release_returns:
  assumes "cd_ctx s c = Some u" "uc_wq u \<notin> cd_locks s" "dev_evl (cd_dev s) = None"
  shows "idxd_cdev_release E c s \<noteq> None"
  using assms
  by (auto simp: idxd_cdev_release_def put_file_device_def idxd_file_dev_release_def Let_def lock_wq_def
      idxd_cdev_evl_drain_pasid_def dev_evl_close release_def)

text \<open>
  C19: closing a file undoes its opening. After a successful open and a close that returns, the
  contexts, the file numbers, the client counts, the tables of address spaces and everything
  the driver holds are what they were before the open; without an event log the close always
  returns.
\<close>
theorem cdev_open_close_roundtrip:
  assumes ok: "cdev_ok s" and E: "ida_fresh E" and i: "i < length (wqs (cd_dev s))" and c: "cd_ctx s c = None"
    and op: "idxd_cdev_open E i c p tsk s = Some (0, s1)" "cd_ctx s1 c \<noteq> None"
  shows "(dev_evl (cd_dev s1) = None \<longrightarrow> idxd_cdev_release E c s1 \<noteq> None) \<and>
     (\<forall>rc s2. idxd_cdev_release E c s1 = Some (rc, s2) \<longrightarrow> rc = 0 \<and> untouched s s2)"
proof -
  have ok1: "cdev_ok s1" by (rule cdev_step_ok [OF E step_open [OF c i op(1)] ok])
  obtain u where "cd_ctx s1 c = Some u" using op(2) by blast
  moreover have "uc_wq u \<notin> cd_locks s1" using ok1 by (simp add: cdev_ok_def)
  ultimately show ?thesis using release_returns open_close_untouched [OF assms] by blast
qed

text \<open>
  unbinding one queue from the user driver forgets the file numbers of all queues, because
  the allocator of file numbers is shared and is destroyed with the queue's character device:
  the next file opened on another queue gets the number of a file that is still open, when that
  was the first number given out.
\<close>
theorem file_number_given_twice:
  assumes ok: "cdev_ok s" and c': "cd_ctx s c' = Some u'" "uc_id u' = ida_pick E {}"
    and j: "j < length (wqs (cd_dev s))" and c: "cd_ctx s c = None"
    and op: "idxd_cdev_open E j c p tsk (idxd_wq_del_cdev i s) = Some (0, s2)" "cd_ctx s2 c = Some u"
  shows "c \<noteq> c' \<and> cd_ctx s2 c' = Some u' \<and> uc_id u = uc_id u'"
proof -
  let ?s = "idxd_wq_del_cdev i s"
  have d: "cd_ctx ?s = cd_ctx s" "cd_ida ?s = {}" "cd_locks ?s = {}" using ok by (simp_all add: idxd_wq_del_cdev_def cdev_ok_def)
  have part: "map user_part (wqs (cd_dev ?s)) = map user_part (wqs (cd_dev s))"
    by (simp add: idxd_wq_del_cdev_def put_cdev_def idxd_cdev_dev_release_def release_def map_list_upd user_part_def)
  have j': "j < length (wqs (cd_dev ?s))" "j \<notin> cd_locks ?s" using j d arg_cong [OF part, of length] by simp_all
  have xa: "\<forall>q. upasid_xa (wqs (cd_dev ?s) ! j) q \<noteq> Some c"
    using cdev_ok_open(2) [OF ok j c] user_part_index [OF part j] by simp
  have "open_result E j c p tsk ?s (Some (0, s2))" using cdev_open_result [OF j' _ xa, of E p tsk] d c op(1) by simp
  moreover have "\<not> untouched ?s s2" using op(2) c d by (auto simp: untouched_def view_def)
  ultimately have "opened E j c p tsk ?s s2" by (simp add: open_result_def)
  then have "cd_ctx s2 = (cd_ctx s)(c \<mapsto> u)" "uc_id u = ida_pick E {}" using op(2) d by (auto simp: opened_def Let_def)
  then show ?thesis using c c' by auto
qed

text \<open>Serving a fault.\<close>

lemma counter_dev [simp]: "cd_dev (idxd_user_counter_increment i p k s) = cd_dev s"
  by (simp add: idxd_user_counter_increment_def split: option.split)

lemma set_batch_fail_simps [simp]:
  "held (set_batch_fail b v d) = held d" "trace (set_batch_fail b v d) = trace d" "drv_data (set_batch_fail b v d) = drv_data d"
  by (simp_all add: set_batch_fail_def upd_evl_def)

lemma fault_prepare_dev:
  "held (cd_dev (snd (fault_prepare E fault s))) = held (cd_dev s)"
  "trace (cd_dev (snd (fault_prepare E fault s))) = trace (cd_dev s)"
  by (simp_all add: fault_prepare_def Let_def split_beta)

lemma copy_cr_held: "held (cd_dev (snd (idxd_copy_cr E i p addr st rs n s))) = held (cd_dev s)"
  by (auto simp: idxd_copy_cr_def ext_def Let_def split: option.split)

lemma held_fault_work:
  "held (cd_dev (idxd_evl_fault_work E fault s)) =
     (if fst (fst (fault_prepare E fault s)) = 0 then held (cd_dev s) else subh {K Fault} (held (cd_dev s)))"
proof -
  obtain n st rs t where p: "fault_prepare E fault s = ((n, st, rs), t)" by (metis prod_cases4 surj_pair)
  have "held (cd_dev t) = held (cd_dev s)" using fault_prepare_dev(1) [of E fault s] by (simp add: p)
  then show ?thesis by (simp add: idxd_evl_fault_work_def p Let_def split_beta copy_cr_held)
qed

text \<open>
  the record of a fault is freed exactly when a completion record had to be copied. For a
  batch error that asks for no completion record, in a batch without an earlier failed write,
  and for a status the driver does not know, the work ends early and the record is lost.
\<close>
theorem fault_record_leaks:
  "held (cd_dev (idxd_evl_fault_work E fault s)) =
     (if compl_size (drv_data (cd_dev s)) \<noteq> 0 \<and> evl_faults E (fault_status fault) \<and>
         (if fault_status fault = comp_batch_evl_err E \<and> fault_status fault \<noteq> DSA_COMP_CRA_XLAT
          then ee_rcr (fault_entry fault) \<or> batch_fail (the_evl (cd_dev s)) (ee_batch_id (fault_entry fault)) else True)
      then subh {K Fault} (held (cd_dev s)) else held (cd_dev s))"
  by (simp add: held_fault_work) (auto simp: fault_prepare_def Let_def evl_faults_def)


text \<open>Mapping a portal.\<close>

lemma portal_pfn_eq:
  assumes "unat base = 4096 * b" "b + 4 * i + 2 \<le> 2 ^ 52"
  shows "unat (portal_pfn base i) = b + 4 * i + 1"
proof -
  let ?k = "4096 * (4 * i + 1)"
  have k: "idxd_get_wq_portal_full_offset i IDXD_PORTAL_LIMITED = ?k"
    by (simp add: idxd_get_wq_portal_full_offset_def idxd_get_wq_portal_offset_def push_bit_eq_mult)
  have "unat (base + word_of_nat ?k) = 4096 * (b + 4 * i + 1)"
  proof -
    have u: "unat (word_of_nat ?k :: u64) = ?k"
      unfolding unsigned_of_nat of_nat_id by (rule take_bit_nat_eq_self) (use assms(2) in simp)
    have "unat base + unat (word_of_nat ?k :: u64) < 2 ^ LENGTH(64)" using assms unfolding u by simp
    then have "unat (base + word_of_nat ?k) = unat base + unat (word_of_nat ?k :: u64)" by (rule iffD1 [OF unat_add_lem])
    then show ?thesis unfolding u using assms(1) by simp
  qed
  then show ?thesis
    unfolding portal_pfn_def k unat_drop_bit_eq by (simp add: drop_bit_eq_div)
qed

lemma full_offset_inj:
  "4096 * (4 * i + 1) = idxd_get_wq_portal_full_offset j prot \<longleftrightarrow> j = i \<and> prot = IDXD_PORTAL_LIMITED"
proof -
  have off: "idxd_get_wq_portal_full_offset j prot = 4096 * (4 * j + portal_prot_code prot)"
    by (simp add: idxd_get_wq_portal_full_offset_def idxd_get_wq_portal_offset_def push_bit_eq_mult)
  have c: "4096 * (4 * i + 1) = (4096 * (4 * j + k) :: nat) \<longleftrightarrow> 4 * i + 1 = 4 * j + k" for k by (simp only: mult_cancel1) simp
  have "4 * i + 1 \<noteq> 4 * j" by presburger
  then show ?thesis unfolding off c by (cases prot) auto
qed

text \<open>
  C20: a process can map one page only, and only its own queue's limited portal. A mapping larger
  than a page is refused without effect; otherwise the page that is mapped lies, among all the
  portals of all queues, at the limited portal of the file's queue. The portals' base address
  is a multiple of the page size and the portals do not reach the end of the address space.
\<close>
theorem mmap_own_limited_portal:
  assumes c: "cd_ctx s c = Some u" "uc_wq u < max_wqs (cd_dev s)" and wf: "wf_dev (cd_dev s)"
    and base: "unat base = 4096 * b" "b + 1024 \<le> 2 ^ 52"
  shows "\<exists>rc s'. idxd_cdev_mmap E base c vm_start vm_end s = Some (rc, s') \<and>
     (if vm_end - vm_start > 4096 then rc = - EINVAL \<and> s' = s
      else \<exists>pfn. trace (cd_dev s') = (Svc (RemapPfn vm_start pfn), rc) # trace (cd_dev s) \<and>
         (\<forall>j prot. 4096 * unat pfn = unat base + idxd_get_wq_portal_full_offset j prot \<longleftrightarrow>
            j = uc_wq u \<and> prot = IDXD_PORTAL_LIMITED))"
proof -
  let ?i = "uc_wq u" let ?p = "portal_pfn base ?i"
  have id: "wq_id (wqs (cd_dev s) ! ?i) = ?i" using wf_wq_id [OF wf c(2)] .
  have "?i < 256" using wf c(2) by (simp add: wf_dev_def)
  then have "unat ?p = b + 4 * ?i + 1" using portal_pfn_eq [OF base(1), of ?i] base(2) by simp
  then have "4096 * unat ?p = unat base + idxd_get_wq_portal_full_offset j prot \<longleftrightarrow> j = ?i \<and> prot = IDXD_PORTAL_LIMITED" for j prot
    using full_offset_inj [of ?i j prot] base(1) by simp
  then show ?thesis
    using c(1) by (auto simp: idxd_cdev_mmap_def check_vma_def id ext_def Let_def)
qed

text \<open>Binding a queue to the user driver.\<close>

lemma add_cdev_spec:
  assumes r: "idxd_wq_add_cdev E i d = (rc, d')"
  shows "held d' = (if rc < 0 then held d else addh {W i Cdev, W i Minor, DevRef (DevCdev i), Registered (DevCdev i)} (held d)) \<and>
     rc \<le> 0 \<and> length (wqs d') = length (wqs d) \<and> (\<forall>j<length (wqs d). wq_type (wqs d' ! j) = wq_type (wqs d ! j))"
proof -
  obtain r1 d1 where 1: "acquire E (W i Cdev) d = (r1, d1)" by (cases "acquire E (W i Cdev) d")
  obtain r2 d2 where 2: "acquire E (W i Minor) d1 = (r2, d2)" by (cases "acquire E (W i Minor) d1")
  let ?d2 = "hold (DevRef (DevCdev i)) d2"
  obtain r3 d3 where 3: "ext E (Svc (SetName (DevCdev i))) ?d2 = (r3, d3)" by (cases "ext E (Svc (SetName (DevCdev i))) ?d2")
  let ?d3 = "upd_wq i (\<lambda>w. w\<lparr>wq_cdev := Some r2\<rparr>) d3"
  obtain r4 d4 where 4: "acquire E (Registered (DevCdev i)) ?d3 = (r4, d4)" by (cases "acquire E (Registered (DevCdev i)) ?d3")
  note s = acquire_snd [OF 1] acquire_snd [OF 2] ext_snd [OF 3] acquire_snd [OF 4]
  have run: "(rc, d') =
     (if r1 < 0 then (- ENOMEM, d1) else if r2 < 0 then (r2, release (W i Cdev) d2)
      else if r3 < 0 then (r3, upd_wq i (\<lambda>w. w\<lparr>wq_cdev := None\<rparr>) (put_cdev i d3))
      else if r4 < 0 then (r4, upd_wq i (\<lambda>w. w\<lparr>wq_cdev := None\<rparr>) (put_cdev i d4)) else (0, d4))"
    using r unfolding idxd_wq_add_cdev_def Let_def 1 prod.case 2 3 4 by (rule sym)
  show ?thesis
    using run s by (auto simp: put_cdev_def idxd_cdev_dev_release_def addh_def subh_def hold_def release_def fun_eq_iff
        nth_list_upd split: if_splits)
qed

text \<open>
  C22: binding a queue to the user driver is all or nothing. On every failure, those of the
  queue's enabling and of its character device included, the driver holds what it held before;
  on success it holds in addition the queue's work queue, portal and reference counter, and its
  character device with its minor number.
\<close>
theorem user_drv_probe_all_or_nothing:
  assumes wf: "wf_dev d" and i: "i < max_wqs d" and lists: "lists_of i d = []"
    and res: "idxd_user_drv_probe E i d = (rc, d')"
  shows "if rc < 0 then held d' = held d
     else rc = 0 \<and> held d' = addh {W i UserWq, W i Portal, W i Percpu, W i Cdev, W i Minor, DevRef (DevCdev i), Registered (DevCdev i)} (held d)"
proof -
  have il: "i < length (wqs d)" using wf i by (simp add: wf_dev_def)
  obtain r1 d1 where 1: "acquire E (W i UserWq) d = (r1, d1)" by (cases "acquire E (W i UserWq) d")
  note s1 = acquire_snd [OF 1]
  have m1: "max_wqs d1 = max_wqs d" "wf_dev d1" using acquire_dev [of E "W i UserWq" d] wf by (simp_all add: 1 wf_dev_def)
  let ?d1 = "upd_wq i (\<lambda>w. w\<lparr>wq_type := IDXD_WQT_USER\<rparr>) d1"
  obtain r2 d2 where 2: "drv_enable_wq E i ?d1 = (r2, d2)" by (cases "drv_enable_wq E i ?d1")
  obtain r3 d3 where 3: "idxd_wq_add_cdev E i d2 = (r3, d3)" by (cases "idxd_wq_add_cdev E i d2")
  let ?err = "\<lambda>d. upd_wq i (\<lambda>w. w\<lparr>wq_type := IDXD_WQT_NONE\<rparr>) (release (W i UserWq) d)"
  have run: "(rc, d') = (if dev_state d \<noteq> IDXD_DEV_ENABLED then (- ENXIO, d)
      else if \<not> device_user_pasid_enabled d then (- EOPNOTSUPP, set_status IDXD_SCMD_WQ_USER_NO_IOMMU d)
      else if \<not> idxd_wq_driver_name_match (wqs d ! i) ''user'' then (- ENODEV, set_status IDXD_SCMD_WQ_NO_DRV_NAME d)
      else if r1 < 0 then (- ENOMEM, d1) else if r2 < 0 then (r2, ?err d2)
      else if r3 < 0 then (r3, ?err (drv_disable_wq E i (set_status IDXD_SCMD_CDEV_ERR d3)))
      else (0, d3\<lparr>cmd_status := HwStatus 0\<rparr>))"
    using res unfolding idxd_user_drv_probe_def Let_def 1 prod.case 2 3 by (rule sym)
  have wf1: "wf_dev ?d1" by (rule wf_upd_wq [OF m1(2)]) simp_all
  have lists1: "lists_of i ?d1 = []" using lists s1 il by (simp add: nth_list_upd)
  have t1: "wq_type (wqs ?d1 ! i) = IDXD_WQT_USER" using s1 il by (simp add: nth_list_upd)
  note e2 = drv_enable_wq_resources [OF wf1 _ lists1 2, unfolded t1, simplified]
  note e3 = add_cdev_spec [OF 3]
  have h1: "r1 \<ge> 0 \<Longrightarrow> held ?d1 = addh {W i UserWq} (held d)" using s1 by simp
  have e2': "if r2 < 0 then held d2 = held d1 else r2 = 0 \<and> held d2 = addh {W i Portal, W i Percpu} (held d1) \<and>
      i < length (wqs d2) \<and> wq_type (wqs d2 ! i) \<noteq> IDXD_WQT_KERNEL"
    using e2 m1 i s1 il by (auto simp: enabled_res_def split: if_splits)
  show ?thesis
  proof (cases "r1 < 0 \<or> r2 < 0 \<or> \<not> r3 < 0")
    case True
    then show ?thesis using run s1 e2' e3
      by (auto simp: set_status_def addh_def subh_def fun_eq_iff split: if_splits)
  next
    case False
    then have "i < length (wqs d3)" "wq_type (wqs d3 ! i) \<noteq> IDXD_WQT_KERNEL" "held d3 = held d2" using e2' e3 by simp_all
    then have "held (drv_disable_wq E i (set_status IDXD_SCMD_CDEV_ERR d3)) = subh {W i Portal, W i Percpu} (held d2)"
      using drv_disable_other [of i "set_status IDXD_SCMD_CDEV_ERR d3" E] by (simp add: set_status_def)
    then show ?thesis using run s1 e2' False
      by (auto simp: set_status_def addh_def subh_def fun_eq_iff split: if_splits)
  qed
qed

subsection \<open>Witnesses\<close>

text \<open>Queue 1 has no file open; addresses of processes are enabled for users.\<close>

definition sample_cdev :: cdev_state where
  "sample_cdev = \<lparr>cd_dev = sample_dev\<lparr>dev_flags := 8, wqs := [zero_wq, zero_wq\<lparr>wq_id := 1\<rparr>]\<rparr>, cd_ctx = (\<lambda>_. None), cd_ida = {}, cd_locks = {}\<rparr>"

lemma sample_cdev_simps:
  "cd_dev sample_cdev = sample_dev\<lparr>dev_flags := 8, wqs := [zero_wq, zero_wq\<lparr>wq_id := 1\<rparr>]\<rparr>" "cd_ctx sample_cdev = (\<lambda>_. None)"
  "cd_ida sample_cdev = {}" "cd_locks sample_cdev = {}"
  by (simp_all add: sample_cdev_def)

lemma sample_cdev_ok: "cdev_ok sample_cdev"
  by (auto simp: cdev_ok_def sample_cdev_def files_of_def zero_defs less_Suc_eq nth_Cons')

lemma sample_ida: "ida_fresh sample_env"
  by (auto simp: ida_fresh_def sample_env_def dest: Max_ge)



lemma sample_open:
  "\<exists>s1. idxd_cdev_open sample_env 1 7 3 42 sample_cdev = Some (0, s1) \<and> cd_ctx s1 7 \<noteq> None \<and> dev_evl (cd_dev s1) = None"
  by (simp add: idxd_cdev_open_def sample_cdev_simps acquire_def ext_def sample_env_def Let_def lock_wq_def
      wq_dedicated_def zero_defs sample_dev_def device_user_pasid_enabled_def xa_insert_def open_file_device_def
      upd_xa_def list_upd_def hold_def)

theorem cdev_open_close_roundtrip_witness:
  "\<exists>s1 s2. idxd_cdev_open sample_env 1 7 3 42 sample_cdev = Some (0, s1) \<and>
     idxd_cdev_release sample_env 7 s1 = Some (0, s2) \<and> untouched sample_cdev s2"
proof -
  obtain s1 where 1: "idxd_cdev_open sample_env 1 7 3 42 sample_cdev = Some (0, s1)" "cd_ctx s1 7 \<noteq> None" "dev_evl (cd_dev s1) = None"
    using sample_open by blast
  have "1 < length (wqs (cd_dev sample_cdev))" "cd_ctx sample_cdev 7 = None" by (simp_all add: sample_cdev_simps)
  from cdev_open_close_roundtrip [OF sample_cdev_ok sample_ida this 1(1,2)] 1 show ?thesis by (metis not_None_eq surj_pair)
qed

text \<open>Queue 0 has one file open, with number 0.\<close>

definition sample_one_file :: cdev_state where
  "sample_one_file = sample_cdev
     \<lparr>cd_dev := sample_dev\<lparr>dev_flags := 0, wqs := [zero_wq\<lparr>client_count := 1\<rparr>, zero_wq\<lparr>wq_id := 1\<rparr>]\<rparr>,
      cd_ctx := [5 \<mapsto> zero_ctx], cd_ida := {0}\<rparr>"

lemma sample_one_file_ok: "cdev_ok sample_one_file"
proof -
  have "files_of 0 sample_one_file = {5}" "files_of 1 sample_one_file = {}"
    by (auto simp: files_of_def sample_one_file_def zero_ctx_def split: if_splits)
  then show ?thesis
    by (auto simp: cdev_ok_def sample_one_file_def sample_cdev_simps zero_defs zero_ctx_def less_Suc_eq split: if_splits)
qed

theorem file_number_given_twice_witness:
  "\<exists>s2 u. idxd_cdev_open sample_env 1 7 3 42 (idxd_wq_del_cdev 1 sample_one_file) = Some (0, s2) \<and>
     cd_ctx s2 7 = Some u \<and> cd_ctx s2 5 = Some zero_ctx \<and> uc_id u = uc_id zero_ctx"
proof -
  have "\<exists>s2 u. idxd_cdev_open sample_env 1 7 3 42 (idxd_wq_del_cdev 1 sample_one_file) = Some (0, s2) \<and> cd_ctx s2 7 = Some u"
    by (simp add: idxd_cdev_open_def idxd_wq_del_cdev_def sample_one_file_def sample_cdev_simps acquire_def ext_def sample_env_def
        Let_def lock_wq_def wq_dedicated_def zero_defs sample_dev_def device_user_pasid_enabled_def open_file_device_def
        list_upd_def hold_def put_cdev_def idxd_cdev_dev_release_def release_def)
  then obtain s2 u where "idxd_cdev_open sample_env 1 7 3 42 (idxd_wq_del_cdev 1 sample_one_file) = Some (0, s2)" "cd_ctx s2 7 = Some u"
    by blast
  moreover have "cd_ctx sample_one_file 5 = Some zero_ctx" "uc_id zero_ctx = ida_pick sample_env {}"
    "1 < length (wqs (cd_dev sample_one_file))" "cd_ctx sample_one_file 7 = None"
    by (simp_all add: sample_one_file_def zero_ctx_def sample_env_def)
  ultimately show ?thesis using file_number_given_twice [OF sample_one_file_ok] by blast
qed

text \<open>A fault that asks for a completion record of a process that has a file open.\<close>

definition sample_fault :: idxd_evl_fault where
  "sample_fault = \<lparr>fault_wq = 1, fault_status = DSA_COMP_CRA_XLAT, fault_entry = sample_entry 3\<rparr>"


theorem mmap_own_limited_portal_witness:
  "\<exists>rc s' pfn. idxd_cdev_mmap sample_env 0x100000 5 0 4096 sample_one_file = Some (rc, s') \<and>
     trace (cd_dev s') = (Svc (RemapPfn 0 pfn), rc) # trace (cd_dev sample_one_file)"
proof -
  have "cd_ctx sample_one_file 5 = Some zero_ctx" "uc_wq zero_ctx < max_wqs (cd_dev sample_one_file)"
    "wf_dev (cd_dev sample_one_file)"
    by (simp_all add: sample_one_file_def zero_ctx_def sample_dev_def wf_dev_def zero_defs upt_rec)
  from mmap_own_limited_portal [OF this, where base = "0x100000" and b = 256 and vm_end = 4096 and vm_start = 0 and E = sample_env] show ?thesis by auto
qed

theorem user_drv_probe_all_or_nothing_witness:
  "if fst (idxd_user_drv_probe sample_env 1 (cd_dev sample_one_file)) < 0
   then held (snd (idxd_user_drv_probe sample_env 1 (cd_dev sample_one_file))) = held (cd_dev sample_one_file)
   else fst (idxd_user_drv_probe sample_env 1 (cd_dev sample_one_file)) = 0 \<and>
     held (snd (idxd_user_drv_probe sample_env 1 (cd_dev sample_one_file))) =
       addh {W 1 UserWq, W 1 Portal, W 1 Percpu, W 1 Cdev, W 1 Minor, DevRef (DevCdev 1), Registered (DevCdev 1)}
         (held (cd_dev sample_one_file))"
proof -
  have "wf_dev (cd_dev sample_one_file)" "1 < max_wqs (cd_dev sample_one_file)" "lists_of 1 (cd_dev sample_one_file) = []"
    by (simp_all add: sample_one_file_def sample_dev_def wf_dev_def zero_defs upt_rec)
  then show ?thesis by (rule user_drv_probe_all_or_nothing [OF _ _ _ surjective_pairing])
qed

end
