(* ===== verification/Bus.thy ===== *)
theory Bus
  imports Cdev
begin

text \<open>
  The bus of \<^verbatim>\<open>idxd/bus.c\<close>, the compatibility driver of \<^verbatim>\<open>idxd/compat.c\<close> and the debug files of
  \<^verbatim>\<open>idxd/debugfs.c\<close>. A driver is a record with its functions; a function called on the wrong kind
  of device reads another struct's memory, which is \<^const>\<open>None\<close>. Looking a device up by its name and
  asking whether it has a driver are parameters.
\<close>

subsection \<open>Drivers of the bus\<close>

record idxd_device_driver =
  dd_name :: string
  dd_type :: "idxd_dev_type list option"
  dd_probe :: "env \<Rightarrow> conf_dev \<Rightarrow> cdev_state \<Rightarrow> (int \<times> cdev_state) option"
  dd_remove :: "env \<Rightarrow> conf_dev \<Rightarrow> cdev_state \<Rightarrow> cdev_state option"

definition on_result :: "cdev_state \<Rightarrow> int \<times> idxd_device \<Rightarrow> int \<times> cdev_state" where
  "on_result s r = (fst r, s\<lparr>cd_dev := snd r\<rparr>)"

text \<open>\<open>remove_wq\<close> is the release of a queue's driver, as in \<^const>\<open>idxd_device_drv_remove\<close>.\<close>

definition idxd_drv :: "(nat \<Rightarrow> idxd_device \<Rightarrow> idxd_device) \<Rightarrow> idxd_device_driver" where
  "idxd_drv remove_wq =
     \<lparr>dd_name = ''idxd'', dd_type = Some [IDXD_DEV_DSA, IDXD_DEV_IAX, IDXD_DEV_NONE],
      dd_probe = (\<lambda>E c s. case c of
        DevIdxd \<Rightarrow> map_option (on_result s) (idxd_device_drv_probe E (cd_dev s)) | _ \<Rightarrow> None),
      dd_remove = (\<lambda>E c s. case c of
        DevIdxd \<Rightarrow> map_option (\<lambda>d. s\<lparr>cd_dev := d\<rparr>) (idxd_device_drv_remove E remove_wq (cd_dev s)) | _ \<Rightarrow> None)\<rparr>"

definition idxd_dmaengine_drv :: idxd_device_driver where
  "idxd_dmaengine_drv =
     \<lparr>dd_name = ''dmaengine'', dd_type = Some [IDXD_DEV_WQ, IDXD_DEV_NONE],
      dd_probe = (\<lambda>E c s. case c of
        DevWq i \<Rightarrow> Some (on_result s (idxd_dmaengine_drv_probe E i (cd_dev s))) | _ \<Rightarrow> None),
      dd_remove = (\<lambda>E c s. case c of
        DevWq i \<Rightarrow> Some (on_dev (idxd_dmaengine_drv_remove E i) s) | _ \<Rightarrow> None)\<rparr>"

definition idxd_user_drv :: idxd_device_driver where
  "idxd_user_drv =
     \<lparr>dd_name = ''user'', dd_type = Some [IDXD_DEV_WQ, IDXD_DEV_NONE],
      dd_probe = (\<lambda>E c s. case c of
        DevWq i \<Rightarrow> Some (on_result s (idxd_user_drv_probe E i (cd_dev s))) | _ \<Rightarrow> None),
      dd_remove = (\<lambda>E c s. case c of DevWq i \<Rightarrow> idxd_user_drv_remove E i s | _ \<Rightarrow> None)\<rparr>"

definition idxd_dsa_drv_probe :: "conf_dev \<Rightarrow> int" where
  "idxd_dsa_drv_probe c = - ENODEV"

definition idxd_dsa_drv_remove :: "cdev_state \<Rightarrow> cdev_state" where
  "idxd_dsa_drv_remove s = s"

definition dsa_drv :: idxd_device_driver where
  "dsa_drv =
     \<lparr>dd_name = ''dsa'', dd_type = Some [IDXD_DEV_NONE],
      dd_probe = (\<lambda>E c s. Some (idxd_dsa_drv_probe c, s)), dd_remove = (\<lambda>E c s. Some (idxd_dsa_drv_remove s))\<rparr>"

definition idxd_driver_register :: "env \<Rightarrow> idxd_device_driver \<Rightarrow> 'a machine_scheme \<Rightarrow> int \<times> 'a machine_scheme" where
  "idxd_driver_register E drv d =
     (if dd_type drv = None then (- EINVAL, d) else acquire E (M (Driver (dd_name drv))) d)"

definition idxd_driver_unregister :: "idxd_device_driver \<Rightarrow> 'a machine_scheme \<Rightarrow> 'a machine_scheme" where
  "idxd_driver_unregister drv d = release (M (Driver (dd_name drv))) d"

definition conf_type :: "conf_dev \<Rightarrow> idxd_device \<Rightarrow> idxd_dev_type" where
  "conf_type c d =
     (case c of
        DevIdxd \<Rightarrow> (case drv_type (drv_data d) of IDXD_TYPE_DSA \<Rightarrow> IDXD_DEV_DSA | IDXD_TYPE_IAX \<Rightarrow> IDXD_DEV_IAX)
      | DevWq i \<Rightarrow> IDXD_DEV_WQ | DevEngine e \<Rightarrow> IDXD_DEV_ENGINE | DevGroup g \<Rightarrow> IDXD_DEV_GROUP
      | DevCdev i \<Rightarrow> IDXD_DEV_CDEV | DevFile f \<Rightarrow> IDXD_DEV_CDEV_FILE)"

text \<open>The walk over the driver's types; running past the array, or no array, is \<^const>\<open>None\<close>.\<close>

fun match_types :: "idxd_dev_type \<Rightarrow> idxd_dev_type list \<Rightarrow> int option" where
  "match_types t [] = None"
| "match_types t (x # xs) = (if x = IDXD_DEV_NONE then Some 0 else if t = x then Some 1 else match_types t xs)"

definition idxd_config_bus_match :: "conf_dev \<Rightarrow> idxd_device_driver \<Rightarrow> idxd_device \<Rightarrow> int option" where
  "idxd_config_bus_match c drv d =
     (case dd_type drv of None \<Rightarrow> None | Some types \<Rightarrow> match_types (conf_type c d) types)"

definition idxd_config_bus_probe ::
  "env \<Rightarrow> idxd_device_driver \<Rightarrow> conf_dev \<Rightarrow> cdev_state \<Rightarrow> (int \<times> cdev_state) option" where
  "idxd_config_bus_probe E drv c s = dd_probe drv E c s"

definition idxd_config_bus_remove ::
  "env \<Rightarrow> idxd_device_driver \<Rightarrow> conf_dev \<Rightarrow> cdev_state \<Rightarrow> cdev_state option" where
  "idxd_config_bus_remove E drv c s = dd_remove drv E c s"

definition dsa_bus_init :: "env \<Rightarrow> 'a machine_scheme \<Rightarrow> int \<times> 'a machine_scheme" where
  "dsa_bus_init E d = acquire E (M Bus) d"

definition dsa_bus_exit :: "'a machine_scheme \<Rightarrow> 'a machine_scheme" where
  "dsa_bus_exit d = release (M Bus) d"

subsection \<open>Binding through the compatibility driver\<close>

text \<open>
  \<open>by_name\<close> is the lookup on the bus, which takes a reference, and \<open>bound c\<close> says that device \<open>c\<close> has
  a driver. A driver is found by name when it is registered.
\<close>

definition get_by_name :: "(string \<Rightarrow> conf_dev option) \<Rightarrow> string \<Rightarrow> idxd_device \<Rightarrow> conf_dev option \<times> idxd_device" where
  "get_by_name by_name buf d =
     (case by_name buf of None \<Rightarrow> (None, d) | Some c \<Rightarrow> (Some c, hold (DevRef c) d))"

definition driver_find :: "string \<Rightarrow> idxd_device \<Rightarrow> string option" where
  "driver_find n d = (if held d (M (Driver n)) > 0 then Some n else None)"

definition unbind_store ::
  "(string \<Rightarrow> conf_dev option) \<Rightarrow> (conf_dev \<Rightarrow> bool) \<Rightarrow> string \<Rightarrow> nat \<Rightarrow> idxd_device \<Rightarrow> int \<times> idxd_device" where
  "unbind_store by_name bound buf count d =
     (case get_by_name by_name buf d of
        (None, d) \<Rightarrow> (- ENODEV, d)
      | (Some c, d) \<Rightarrow> if bound c then (int count, notify (DetachDriver c) d) else (- ENODEV, d))"

definition bind_store ::
  "env \<Rightarrow> (string \<Rightarrow> conf_dev option) \<Rightarrow> (conf_dev \<Rightarrow> bool) \<Rightarrow> string \<Rightarrow> string \<Rightarrow> nat \<Rightarrow> idxd_device \<Rightarrow>
     int \<times> idxd_device" where
  "bind_store E by_name bound drv buf count d =
     (case get_by_name by_name buf d of
        (None, d) \<Rightarrow> (- ENODEV, d)
      | (Some c, d) \<Rightarrow>
          if bound c \<or> drv \<noteq> dd_name dsa_drv then (- ENODEV, d)
          else
            let alt_drv = (case c of
                  DevIdxd \<Rightarrow> driver_find ''idxd'' d
                | DevWq i \<Rightarrow>
                    if is_idxd_wq_kernel (wqs d ! i) then driver_find ''dmaengine'' d
                    else if is_idxd_wq_user (wqs d ! i) then driver_find ''user'' d
                    else None
                | _ \<Rightarrow> None)
            in case alt_drv of
                 None \<Rightarrow> (- ENODEV, d)
               | Some n \<Rightarrow>
                   let (rc, d) = ext E (Svc (AttachDriver c n)) d in if rc < 0 then (rc, d) else (int count, d))"

subsection \<open>The event log in debugfs\<close>

text \<open>
  One printed entry: its number, its slot, the flag, the decoded struct and the byte offsets of the
  words printed raw. \<open>rd\<close> decodes a \<^verbatim>\<open>struct dsa_evl_entry\<close> at a byte offset of the log's memory.
\<close>

record evl_line =
  el_count :: nat
  el_index :: nat
  el_processed :: bool
  el_entry :: evl_entry
  el_raw :: "nat list"

abbreviation (input) sizeof_dsa_evl_entry :: nat where "sizeof_dsa_evl_entry \<equiv> 64"

definition dump_event_entry ::
  "(nat \<Rightarrow> evl_entry) \<Rightarrow> idxd_device \<Rightarrow> nat \<Rightarrow> bool \<Rightarrow> nat \<times> evl_line list \<Rightarrow> nat \<times> evl_line list" where
  "dump_event_entry rd d index processed = (\<lambda>(count, s).
     let evl_strides = unat (evl_ent_size d) div 8;
         off = index * sizeof_dsa_evl_entry;
         entry = rd off
     in if \<not> ee_desc_valid entry then (count, s)
        else (count + 1, s @ [\<lparr>el_count = count, el_index = index, el_processed = processed, el_entry = entry,
                               el_raw = map (\<lambda>i. off + i * 8) [0..<evl_strides]\<rparr>]))"

text \<open>The loop of \<^verbatim>\<open>debugfs_evl_show\<close>; a division by zero and the end of the fuel are \<^const>\<open>None\<close>.\<close>

fun evl_show_loop ::
  "(nat \<Rightarrow> bool \<Rightarrow> 'o \<Rightarrow> 'o) \<Rightarrow> nat \<Rightarrow> nat \<Rightarrow> nat \<Rightarrow> nat \<Rightarrow> nat \<Rightarrow> bool \<Rightarrow> 'o \<Rightarrow> 'o option" where
  "evl_show_loop dump sz h t 0 i processed s = None"
| "evl_show_loop dump sz h t (Suc f) i processed s =
     (if sz = 0 then None
      else
        let i = (i + 1) mod sz
        in if i = t then Some s
           else
             let processed = (if processed \<and> i = h then False else processed)
             in evl_show_loop dump sz h t f i processed (dump i processed s))"

definition debugfs_evl_show :: "(nat \<Rightarrow> evl_entry) \<Rightarrow> idxd_device \<Rightarrow> (nat \<times> evl_line list) option" where
  "debugfs_evl_show rd d =
     (case dev_evl d of None \<Rightarrow> Some (0, []) | Some evl \<Rightarrow>
        if evl_log evl = None then Some (0, [])
        else
          let h = unat (evl_head evl);
              t = unat (getf evl_status_reg ''tail'' (ioread64 IDXD_EVLSTATUS_OFFSET d));
              sz = unat (evl_size evl)
          in evl_show_loop (dump_event_entry rd d) sz h t sz t True (0, []))"

text \<open>\<open>ready\<close> is \<^verbatim>\<open>debugfs_initialized()\<close>; the directory pointers are usable when they are held.\<close>

definition idxd_init_debugfs :: "env \<Rightarrow> bool \<Rightarrow> 'a machine_scheme \<Rightarrow> int \<times> 'a machine_scheme" where
  "idxd_init_debugfs E ready d =
     (if \<not> ready then (0, d)
      else let (rc, d) = acquire E (M Debugfs) d in if rc < 0 then (rc, d) else (0, d))"

definition idxd_remove_debugfs :: "'a machine_scheme \<Rightarrow> 'a machine_scheme" where
  "idxd_remove_debugfs d = (if held d (M Debugfs) > 0 then release (M Debugfs) d else d)"

definition idxd_device_init_debugfs :: "env \<Rightarrow> idxd_device \<Rightarrow> int \<times> idxd_device" where
  "idxd_device_init_debugfs E d =
     (if held d (M Debugfs) \<le> 0 then (0, d)
      else
        let (rc, d) = acquire E (D DebugfsDir) d
        in if rc < 0 then (rc, d)
           else if dev_evl d = None then (0, d)
           else
             let (rc, d) = ext E (Svc DebugfsFile) d
             in if rc < 0 then (rc, release (D DebugfsDir) d) else (0, d))"

definition idxd_device_remove_debugfs :: "idxd_device \<Rightarrow> idxd_device" where
  "idxd_device_remove_debugfs d = (if held d (D DebugfsDir) > 0 then release (D DebugfsDir) d else d)"

subsection \<open>Matching and binding\<close>

lemma conf_type_not_none: "conf_type c d \<noteq> IDXD_DEV_NONE"
  by (simp add: conf_type_def split: conf_dev.split idxd_type.split)

lemma match_types_eq:
  "IDXD_DEV_NONE \<in> set ts \<Longrightarrow> t \<noteq> IDXD_DEV_NONE \<Longrightarrow>
     match_types t ts = Some (if t \<in> set (takeWhile (\<lambda>x. x \<noteq> IDXD_DEV_NONE) ts) then 1 else 0)"
  by (induction ts) auto

text \<open>
  with an array of types that ends in \<^verbatim>\<open>IDXD_DEV_NONE\<close> the loop of \<^verbatim>\<open>idxd_config_bus_match\<close> ends
  inside the array, with 1 exactly for the devices whose type is listed before the end.
\<close>

theorem bus_match_correct:
  assumes "dd_type drv = Some ts" "IDXD_DEV_NONE \<in> set ts"
  shows "idxd_config_bus_match c drv d =
     Some (if conf_type c d \<in> set (takeWhile (\<lambda>x. x \<noteq> IDXD_DEV_NONE) ts) then 1 else 0)"
  using assms match_types_eq [OF assms(2) conf_type_not_none] by (simp add: idxd_config_bus_match_def)

lemma match_drivers:
  "idxd_config_bus_match DevIdxd (idxd_drv rw) d = Some 1" "idxd_config_bus_match (DevWq i) idxd_dmaengine_drv d = Some 1"
  "idxd_config_bus_match (DevWq i) idxd_user_drv d = Some 1"
  by (simp_all add: idxd_config_bus_match_def idxd_drv_def idxd_dmaengine_drv_def idxd_user_drv_def conf_type_def
      split: idxd_type.split)

lemma driver_names [simp]:
  "dd_name (idxd_drv rw) = ''idxd''" "dd_name idxd_dmaengine_drv = ''dmaengine''" "dd_name idxd_user_drv = ''user''"
  "dd_name dsa_drv = ''dsa''"
  by (simp_all add: idxd_drv_def idxd_dmaengine_drv_def idxd_user_drv_def dsa_drv_def)

lemma bind_store_spec:
  assumes "bind_store E by_name bound drv buf count d = (rc, d')"
  shows "case by_name buf of
      None \<Rightarrow> rc = - ENODEV \<and> d' = d
    | Some c \<Rightarrow> held d' = addh {DevRef c} (held d) \<and>
        (rc = - ENODEV \<and> trace d' = trace d \<or>
         (\<exists>b \<in> {idxd_drv rw, idxd_dmaengine_drv, idxd_user_drv}. \<exists>r.
            trace d' = (Svc (AttachDriver c (dd_name b)), r) # trace d \<and> held d (M (Driver (dd_name b))) > 0 \<and>
            idxd_config_bus_match c b d = Some 1 \<and> rc = (if r < 0 then r else int count)))"
proof (cases "by_name buf")
  case None
  then show ?thesis using assms by (simp add: bind_store_def get_by_name_def)
next
  case (Some c)
  let ?d = "hold (DevRef c) d"
  have h: "held ?d = addh {DevRef c} (held d)" "held ?d (M (Driver n)) = held d (M (Driver n))" "trace ?d = trace d" for n
    by (simp_all add: addh_def)
  define alt where "alt = (case c of
      DevIdxd \<Rightarrow> driver_find ''idxd'' ?d
    | DevWq i \<Rightarrow>
        if is_idxd_wq_kernel (wqs ?d ! i) then driver_find ''dmaengine'' ?d
        else if is_idxd_wq_user (wqs ?d ! i) then driver_find ''user'' ?d else None
    | _ \<Rightarrow> None)"
  have b: "bind_store E by_name bound drv buf count d =
      (if bound c \<or> drv \<noteq> dd_name dsa_drv then (- ENODEV, ?d)
       else case alt of None \<Rightarrow> (- ENODEV, ?d)
         | Some n \<Rightarrow> (case ext E (Svc (AttachDriver c n)) ?d of (rc, d) \<Rightarrow> if rc < 0 then (rc, d) else (int count, d)))"
    using Some by (simp add: bind_store_def get_by_name_def alt_def)
  show ?thesis
  proof (cases "bound c \<or> drv \<noteq> dd_name dsa_drv \<or> alt = None")
    case True
    then have "rc = - ENODEV" "d' = ?d" using assms unfolding b by (auto split: if_splits)
    then show ?thesis using Some h by simp
  next
    case False
    then obtain n where n: "alt = Some n" by blast
    have m: "\<exists>b \<in> {idxd_drv rw, idxd_dmaengine_drv, idxd_user_drv}. n = dd_name b \<and> held d (M (Driver n)) > 0 \<and>
        idxd_config_bus_match c b d = Some 1"
      using n h(2) match_drivers by (cases c) (auto simp: alt_def driver_find_def split: if_splits)
    obtain r e where e: "ext E (Svc (AttachDriver c n)) ?d = (r, e)" by force
    then have "held e = held ?d" "trace e = (Svc (AttachDriver c n), r) # trace d"
      using h(3) by (auto simp: ext_def Let_def)
    moreover have "d' = e" "rc = (if r < 0 then r else int count)"
      using assms False unfolding b by (auto simp: n e split: if_splits)
    ultimately show ?thesis using Some h(1) m by auto
  qed
qed


text \<open>
  when a device has been named in a write to \<^verbatim>\<open>bind\<close>, unregistering it drops the reference of the
  driver but not the one the write left: its release function never runs and its memory stays.
\<close>

theorem bind_pins_device:
  assumes "by_name buf = Some c" "held d (DevRef c) = 1" "bind_store E by_name bound drv buf count d = (rc, d')"
  shows "held (device_unregister c d') = subh {Registered c} (held d)"
proof -
  have h: "held d' = addh {DevRef c} (held d)"
    using bind_store_spec [OF assms(3), of "\<lambda>_ d. d"] assms(1) by simp
  then show ?thesis using assms(2)
    by (auto simp: device_unregister_def put_device_def Let_def addh_def subh_def fun_eq_iff)
qed

subsection \<open>What the debug file shows\<close>

definition show_step :: "nat \<Rightarrow> (nat \<Rightarrow> bool \<Rightarrow> 'o \<Rightarrow> 'o) \<Rightarrow> nat \<Rightarrow> bool \<times> 'o \<Rightarrow> bool \<times> 'o" where
  "show_step h dump k = (\<lambda>(pr, s). (pr \<and> k \<noteq> h, dump k (pr \<and> k \<noteq> h) s))"

lemma evl_show_loop_eq:
  assumes "t < sz"
  shows "i < sz \<Longrightarrow> length (ring sz ((i + 1) mod sz) t) < f \<Longrightarrow>
     evl_show_loop dump sz h t f i pr s = Some (snd (fold (show_step h dump) (ring sz ((i + 1) mod sz) t) (pr, s)))"
proof (induction f arbitrary: i pr s)
  case 0
  then show ?case by simp
next
  case (Suc f)
  let ?j = "(i + 1) mod sz"
  have j: "?j < sz" using assms by simp
  show ?case
  proof (cases "?j = t")
    case True
    then show ?thesis using assms by (simp add: ring_def)
  next
    case False
    note r = ring_step [OF j assms False]
    have len: "length (ring sz ((?j + 1) mod sz) t) < f" using Suc.prems(2) r by simp
    have "evl_show_loop dump sz h t (Suc f) i pr s = evl_show_loop dump sz h t f ?j (pr \<and> ?j \<noteq> h) (dump ?j (pr \<and> ?j \<noteq> h) s)"
      using False assms by (cases pr; cases "?j = h") (simp_all add: Let_def)
    then show ?thesis using Suc.IH [OF j len] r by (simp add: show_step_def)
  qed
qed

lemma show_fold_true:
  "h \<notin> set ks \<Longrightarrow> fold (show_step h dump) ks (True, s) = (True, fold (\<lambda>k. dump k True) ks s)"
  by (induction ks arbitrary: s) (auto simp: show_step_def)

lemma show_fold_false:
  "fold (show_step h dump) ks (False, s) = (False, fold (\<lambda>k. dump k False) ks s)"
  by (induction ks arbitrary: s) (auto simp: show_step_def)

text \<open>The slots after \<open>t\<close>, all round: first those up to the head, then the pending ones.\<close>

lemma ring_split:
  assumes "h < sz" "t < sz"
  obtains A where "[t + 1..<sz] @ [0..<t] = A @ ring sz h t" "set A \<inter> set (ring sz h t) = {}" "h \<notin> set A"
    "h \<noteq> t \<Longrightarrow> \<exists>B. ring sz h t = h # B"
proof (cases "h = t")
  case True
  then show ?thesis by (intro that [of "[t + 1..<sz] @ [0..<t]"]) (auto simp: ring_def)
next
  case False
  then have B: "\<exists>B. ring sz h t = h # B" using ring_step [OF assms] by blast
  show ?thesis
  proof (cases "h < t")
    case True
    then have "[0..<t] = [0..<h] @ [h..<t]" by (metis le_add_diff_inverse less_imp_le upt_add_eq_append zero_le)
    then show ?thesis using True B by (intro that [of "[t + 1..<sz] @ [0..<h]"]) (auto simp: ring_def)
  next
    case h: False
    then have "[t + 1..<sz] = [t + 1..<h] @ [h..<sz]"
      using False assms upt_add_eq_append [of "t + 1" h "sz - h"] by simp
    then show ?thesis using h False B assms by (intro that [of "[t + 1..<h]"]) (auto simp: ring_def)
  qed
qed

lemma ring_after: "t < sz \<Longrightarrow> ring sz ((t + 1) mod sz) t = [t + 1..<sz] @ [0..<t]"
  by (cases "t + 1 = sz") (auto simp: ring_def)

lemma show_fold:
  assumes "h < sz" "t < sz"
  shows "\<exists>A. [t + 1..<sz] @ [0..<t] = A @ ring sz h t \<and> set A \<inter> set (ring sz h t) = {} \<and>
    evl_show_loop dump sz h t sz t True s = Some (fold (\<lambda>k. dump k False) (ring sz h t) (fold (\<lambda>k. dump k True) A s))"
proof -
  obtain A where A: "[t + 1..<sz] @ [0..<t] = A @ ring sz h t" "set A \<inter> set (ring sz h t) = {}" "h \<notin> set A"
    "h \<noteq> t \<Longrightarrow> \<exists>B. ring sz h t = h # B"
    by (rule ring_split [OF assms]) blast
  have "length (ring sz ((t + 1) mod sz) t) < sz" using assms(2) by (intro ring_length) simp_all
  from evl_show_loop_eq [OF assms(2,2) this, of dump h True s]
  have l: "evl_show_loop dump sz h t sz t True s =
      Some (snd (fold (show_step h dump) (ring sz h t) (True, fold (\<lambda>k. dump k True) A s)))"
    unfolding ring_after [OF assms(2)] A(1) using A(3) by (simp add: show_fold_true)
  have "fold (show_step h dump) (ring sz h t) (True, x) = (h = t, fold (\<lambda>k. dump k False) (ring sz h t) x)" for x
  proof (cases "h = t")
    case True
    then show ?thesis by (simp add: ring_def)
  next
    case False
    then obtain B where "ring sz h t = h # B" using A(4) by blast
    moreover have "show_step h dump h (True, x) = (False, dump h False x)" by (simp add: show_step_def)
    ultimately show ?thesis using False by (simp add: show_fold_false)
  qed
  with l A(1,2) show ?thesis by auto
qed

lemma dump_fold:
  "\<exists>new. fold (\<lambda>k. dump_event_entry rd d k b) ks (length out, out) = (length (out @ new), out @ new) \<and>
     map el_index new = filter (\<lambda>k. ee_desc_valid (rd (k * 64))) ks \<and>
     map el_count new = [length out..<length (out @ new)] \<and>
     (\<forall>l \<in> set new. el_entry l = rd (el_index l * 64) \<and> el_processed l = b)"
proof (induction ks arbitrary: out)
  case Nil
  then show ?case by simp
next
  case (Cons k ks)
  show ?case
  proof (cases "ee_desc_valid (rd (k * 64))")
    case False
    then show ?thesis using Cons.IH [of out] by (simp add: dump_event_entry_def Let_def)
  next
    case True
    define l where "l = \<lparr>el_count = length out, el_index = k, el_processed = b, el_entry = rd (k * 64),
        el_raw = map (\<lambda>i. k * 64 + i * 8) [0..<unat (evl_ent_size d) div 8]\<rparr>"
    have 1: "dump_event_entry rd d k b (length out, out) = (length (out @ [l]), out @ [l])"
      using True by (simp add: dump_event_entry_def l_def Let_def)
    obtain new where n: "fold (\<lambda>k. dump_event_entry rd d k b) ks (length (out @ [l]), out @ [l]) =
        (length ((out @ [l]) @ new), (out @ [l]) @ new)"
      "map el_index new = filter (\<lambda>k. ee_desc_valid (rd (k * 64))) ks"
      "map el_count new = [length (out @ [l])..<length ((out @ [l]) @ new)]"
      "\<forall>l \<in> set new. el_entry l = rd (el_index l * 64) \<and> el_processed l = b"
      using Cons.IH [of "out @ [l]"] by blast
    have l: "el_index l = k" "el_count l = length out" "el_entry l = rd (k * 64)" "el_processed l = b" by (simp_all add: l_def)
    have u: "[length out..<length (out @ l # new)] = length out # [length (out @ [l])..<length ((out @ [l]) @ new)]"
      by (simp add: upt_conv_Cons del: upt_Suc)
    show ?thesis
      by (rule exI [of _ "l # new"]) (use 1 n l u True in \<open>simp del: upt_Suc\<close>)
  qed
qed

text \<open>
  reading \<^verbatim>\<open>event_log\<close> ends after one turn of the log, whatever its size, and prints every valid
  entry once, except the slot of the tail, from the slot after the tail on; an entry is flagged
  unprocessed exactly when it is one of those the interrupt thread has still to read.
\<close>

theorem evl_show_correct:
  assumes "dev_evl d = Some e" "evl_log e \<noteq> None"
    "t = unat (getf evl_status_reg ''tail'' (ioread64 IDXD_EVLSTATUS_OFFSET d))"
    "t < unat (evl_size e)" "evl_head e < evl_size e"
  shows "\<exists>lines. debugfs_evl_show rd d = Some (length lines, lines) \<and>
     map el_index lines = filter (\<lambda>k. ee_desc_valid (rd (k * 64))) ([t + 1..<unat (evl_size e)] @ [0..<t]) \<and>
     map el_count lines = [0..<length lines] \<and>
     (\<forall>l \<in> set lines. el_entry l = rd (el_index l * 64) \<and>
        (el_processed l \<longleftrightarrow> el_index l \<notin> set (ring (unat (evl_size e)) (unat (evl_head e)) t)))"
proof -
  let ?sz = "unat (evl_size e)" let ?h = "unat (evl_head e)" let ?R = "ring ?sz ?h t"
  have h: "?h < ?sz" using assms(5) by (simp add: word_less_nat_alt)
  obtain A where A: "[t + 1..<?sz] @ [0..<t] = A @ ?R" "set A \<inter> set ?R = {}"
    "evl_show_loop (dump_event_entry rd d) ?sz ?h t ?sz t True (0, []) =
      Some (fold (\<lambda>k. dump_event_entry rd d k False) ?R (fold (\<lambda>k. dump_event_entry rd d k True) A (0, [])))"
    using show_fold [OF h assms(4), of "dump_event_entry rd d" "(0, [])"] by (elim exE conjE) (rule that)
  obtain n1 where n1: "fold (\<lambda>k. dump_event_entry rd d k True) A (0, []) = (length n1, n1)"
    "map el_index n1 = filter (\<lambda>k. ee_desc_valid (rd (k * 64))) A" "map el_count n1 = [0..<length n1]"
    "\<forall>l \<in> set n1. el_entry l = rd (el_index l * 64) \<and> el_processed l = True"
    using dump_fold [of rd d True A "[]"] by auto
  obtain n2 where n2: "fold (\<lambda>k. dump_event_entry rd d k False) ?R (length n1, n1) = (length (n1 @ n2), n1 @ n2)"
    "map el_index n2 = filter (\<lambda>k. ee_desc_valid (rd (k * 64))) ?R" "map el_count n2 = [length n1..<length (n1 @ n2)]"
    "\<forall>l \<in> set n2. el_entry l = rd (el_index l * 64) \<and> el_processed l = False"
    using dump_fold [of rd d False ?R n1] by auto
  have r: "debugfs_evl_show rd d = Some (length (n1 @ n2), n1 @ n2)"
    using assms(1-3) A(3) n1(1) n2(1) by (auto simp: debugfs_evl_show_def Let_def)
  have i: "map el_index (n1 @ n2) = filter (\<lambda>k. ee_desc_valid (rd (k * 64))) ([t + 1..<?sz] @ [0..<t])"
    unfolding A(1) using n1(2) n2(2) by simp
  have "[0..<length (n1 @ n2)] = [0..<length n1] @ [length n1..<length (n1 @ n2)]"
    using upt_add_eq_append [of 0 "length n1" "length n2"] by (simp del: upt_Suc)
  then have c: "map el_count (n1 @ n2) = [0..<length (n1 @ n2)]"
    using n1(3) n2(3) by simp
  have m1: "el_index l \<in> set A" if "l \<in> set n1" for l
    using that arg_cong [OF n1(2), of set] by auto
  have m2: "el_index l \<in> set ?R" if "l \<in> set n2" for l
    using that arg_cong [OF n2(2), of set] by auto
  have p: "el_entry l = rd (el_index l * 64) \<and> (el_processed l \<longleftrightarrow> el_index l \<notin> set ?R)" if "l \<in> set (n1 @ n2)" for l
  proof (cases "l \<in> set n1")
    case True
    with m1 [OF True] n1(4) A(2) show ?thesis by blast
  next
    case False
    with that have "l \<in> set n2" by simp
    with m2 n2(4) show ?thesis by blast
  qed
  from r i c p show ?thesis by blast
qed

subsection \<open>Instances\<close>

lemma bus_match_correct_witness:
  "idxd_config_bus_match (DevWq 0) idxd_user_drv sample_dev = Some 1 \<and> idxd_config_bus_match (DevWq 0) dsa_drv sample_dev = Some 0"
  using bus_match_correct [of idxd_user_drv "[IDXD_DEV_WQ, IDXD_DEV_NONE]" "DevWq 0" sample_dev]
    bus_match_correct [of dsa_drv "[IDXD_DEV_NONE]" "DevWq 0" sample_dev]
  by (simp add: idxd_user_drv_def dsa_drv_def conf_type_def)

definition sample_bus :: idxd_device where
  "sample_bus = sample_dev\<lparr>held := (\<lambda>x. if x \<in> {M (Driver ''idxd''), DevRef DevIdxd} then 1 else 0)\<rparr>"


lemma bind_pins_device_witness:
  "\<exists>rc d'. bind_store sample_env (\<lambda>n. Some DevIdxd) (\<lambda>_. False) ''dsa'' ''dsa0'' 4 sample_bus = (rc, d') \<and>
     held (device_unregister DevIdxd d') (D IdxdStruct) = 0"
proof -
  obtain rc d' where r: "bind_store sample_env (\<lambda>n. Some DevIdxd) (\<lambda>_. False) ''dsa'' ''dsa0'' 4 sample_bus = (rc, d')" by force
  from bind_pins_device [OF _ _ r, of DevIdxd] r show ?thesis by (auto simp: sample_bus_def subh_def)
qed

lemma evl_show_correct_witness:
  "\<exists>lines. debugfs_evl_show (\<lambda>_. undefined\<lparr>ee_desc_valid := True\<rparr>)
     (zero_device\<lparr>dev_evl := Some \<lparr>evl_log = Some (\<lambda>_. undefined), evl_dma = 0, evl_log_size = 0, evl_size = 64, evl_head = 62,
        evl_bmap = {}, batch_fail = (\<lambda>_. False)\<rparr>\<rparr>) = Some (63, lines)"
  using evl_show_correct [of "zero_device\<lparr>dev_evl := Some \<lparr>evl_log = Some (\<lambda>_. undefined), evl_dma = 0, evl_log_size = 0, evl_size = 64, evl_head = 62,
        evl_bmap = {}, batch_fail = (\<lambda>_. False)\<rparr>\<rparr>" _ 0 "\<lambda>_. undefined\<lparr>ee_desc_valid := True\<rparr>"]
  by (auto simp: zero_device_def ioread64_def getf_def dest!: arg_cong [of _ _ length])

end
