(* ===== verification/Irq.thy ===== *)
theory Irq
  imports Evl
begin

text \<open>
  The interrupt handling of \<^verbatim>\<open>idxd/irq.c\<close> besides the per-queue thread and the event log: the
  misc interrupt, the re-initialisation of a halted device and the revocation of interrupt
  handles. An index outside an array is \<^const>\<open>None\<close>.
\<close>

subsection \<open>Re-initialisation\<close>

definition reenable_wq :: "env \<Rightarrow> nat \<Rightarrow> idxd_device \<Rightarrow> idxd_device" where
  "reenable_wq E i d =
     (if i \<in> wq_enable_map d
      then let (rc, d) = idxd_wq_enable E i d
           in if rc < 0 then d\<lparr>wq_enable_map := wq_enable_map d - {i}\<rparr> else d
      else d)"

definition idxd_device_reinit :: "env \<Rightarrow> idxd_device \<Rightarrow> idxd_device" where
  "idxd_device_reinit E d =
     (let d = idxd_device_reset E d;
          (rc, d) = idxd_device_config E d
      in if rc < 0 then idxd_device_clear_state E d
         else
           let (rc, d) = idxd_device_enable E d
           in if rc < 0 then idxd_device_clear_state E d
              else fold (reenable_wq E) [0..<max_wqs d] d)"

subsection \<open>Revoked interrupt handles\<close>

definition drain_desc :: "env \<Rightarrow> idxd_irq_entry \<Rightarrow> dsa_hw_desc" where
  "drain_desc E ie = zero_hw_desc\<lparr>hd_flags := IDXD_OP_FLAG_RCI, hd_opcode := DSA_OPCODE_DRAIN, hd_priv := 1,
     hd_pasid := (if ie_pasid ie \<noteq> invalid_pasid E then take_bit 20 (ie_pasid ie) else 0),
     hd_int_handle := word_of_int (int_handle ie)\<rparr>"

definition idxd_int_handle_revoke_drain :: "env \<Rightarrow> nat \<Rightarrow> idxd_device \<Rightarrow> idxd_device" where
  "idxd_int_handle_revoke_drain E q d =
     (let desc = drain_desc E (wq_ie (wqs d ! q));
          (portal, d) = idxd_wq_portal_addr q d
      in if wq_dedicated (wqs d ! q) then notify (Movdir64b q portal desc) d
         else snd (idxd_enqcmds E q portal desc d))"

text \<open>One round of the loop: entry \<open>i\<close> belongs to queue \<open>ie_to_wq i\<close>.\<close>

definition revoke_step :: "env \<Rightarrow> nat \<Rightarrow> idxd_device \<Rightarrow> idxd_device option" where
  "revoke_step E i d =
     (let q = ie_to_wq i in
      if max_wqs d \<le> q then None
      else if int_handle (wq_ie (wqs d ! q)) = INVALID_INT_HANDLE then Some d
      else
        let ((rc, new_handle), d) = idxd_device_request_int_handle E (int i) IDXD_IRQ_MSIX d
        in if rc < 0
           then
             let d = upd_ie q (\<lambda>ie. ie\<lparr>int_handle := INVALID_INT_HANDLE\<rparr>) d;
                 d = idxd_wq_quiesce q d
             in Some (idxd_abort_invalid_int_handle_descs E q d)
           else if int_handle (wq_ie (wqs d ! q)) = new_handle then Some d
           else if wq_state (wqs d ! q) \<noteq> IDXD_WQ_ENABLED \<or> wq_type (wqs d ! q) \<noteq> IDXD_WQT_KERNEL
           then Some (upd_ie q (\<lambda>ie. ie\<lparr>int_handle := new_handle\<rparr>) d)
           else
             let d = upd_wq q (\<lambda>w. w\<lparr>wq_resurrect := False\<rparr>) d;
                 d = idxd_wq_ref_release q (upd_wq q (\<lambda>w. w\<lparr>ref_live := False\<rparr>) d);
                 d = upd_wq q (\<lambda>w. w\<lparr>wq_dead := False\<rparr>) d;
                 d = upd_ie q (\<lambda>ie. ie\<lparr>int_handle := new_handle\<rparr>) d;
                 d = upd_wq q (\<lambda>w. w\<lparr>ref_live := True\<rparr>) d;
                 d = upd_wq q (\<lambda>w. w\<lparr>wq_resurrect := True\<rparr>) d
             in Some (idxd_int_handle_revoke_drain E q d))"

definition idxd_int_handle_revoke :: "env \<Rightarrow> idxd_device \<Rightarrow> idxd_device option" where
  "idxd_int_handle_revoke E d =
     (if \<not> request_int_handles d then Some (release (K Revoke) d)
      else map_option (release (K Revoke)) (foldo (revoke_step E) [1..<irq_cnt d] d))"

subsection \<open>The misc interrupt\<close>

abbreviation (input) IDXD_INTC_ERR :: u32 where "IDXD_INTC_ERR \<equiv> 0x01"
abbreviation (input) IDXD_INTC_CMD :: u32 where "IDXD_INTC_CMD \<equiv> 0x02"
abbreviation (input) IDXD_INTC_OCCUPY :: u32 where "IDXD_INTC_OCCUPY \<equiv> 0x04"
abbreviation (input) IDXD_INTC_PERFMON_OVFL :: u32 where "IDXD_INTC_PERFMON_OVFL \<equiv> 0x08"
abbreviation (input) IDXD_INTC_HALT_STATE :: u32 where "IDXD_INTC_HALT_STATE \<equiv> 0x10"
abbreviation (input) IDXD_INTC_EVL :: u32 where "IDXD_INTC_EVL \<equiv> 0x20"
abbreviation (input) IDXD_INTC_INT_HANDLE_REVOKED :: u32 where "IDXD_INTC_INT_HANDLE_REVOKED \<equiv> 0x80000000"

definition wake_user_wq :: "nat \<Rightarrow> idxd_device \<Rightarrow> idxd_device" where
  "wake_user_wq i d = (if wq_type (wqs d ! i) = IDXD_WQT_USER then notify (WakeErrQueue i) d else d)"

definition misc_error :: "env \<Rightarrow> idxd_device \<Rightarrow> idxd_device option" where
  "misc_error E d =
     (let d = d\<lparr>sw_err := map (\<lambda>i. ioread64 (IDXD_SWERR_OFFSET + 8 * i) d) [0..<4]\<rparr>;
          err = sw_err d ! 0;
          d = iowrite64 E (err AND IDXD_SWERR_ACK) IDXD_SWERR_OFFSET d
      in if getf sw_err_reg0 ''valid'' err \<noteq> 0 \<and> getf sw_err_reg0 ''wq_idx_valid'' err \<noteq> 0
         then
           let i = unat (getf sw_err_reg0 ''wq_idx'' err)
           in if max_wqs d \<le> i then None else Some (wake_user_wq i d)
         else Some (fold wake_user_wq [0..<max_wqs d] d))"

definition misc_revoked :: "env \<Rightarrow> idxd_device \<Rightarrow> idxd_device" where
  "misc_revoked E d =
     (let (rc, d) = acquire E (K Revoke) d
      in if rc < 0 then idxd_wqs_quiesce d else notify QueueRevoke d)"

definition misc_halt :: "env \<Rightarrow> idxd_device \<Rightarrow> idxd_device" where
  "misc_halt E d =
     (let gensts = ioread32 IDXD_GENSTATS_OFFSET d in
      if getf gensts_reg ''state'' gensts = devstate_code IDXD_DEVICE_STATE_HALT
      then
        let d = d\<lparr>dev_state := IDXD_DEV_HALTED\<rparr>
        in if getf gensts_reg ''reset_type'' gensts = reset_code IDXD_DEVICE_RESET_SOFTWARE
           then notify QueueReinit d
           else
             let d = d\<lparr>dev_state := IDXD_DEV_HALTED\<rparr>;
                 d = idxd_wqs_quiesce d;
                 d = idxd_wqs_unmap_portal d
             in idxd_device_clear_state E d
      else d)"

text \<open>The result says whether the interrupt was the device's, with the faults the log queued.\<close>

definition idxd_misc_thread :: "env \<Rightarrow> idxd_device \<Rightarrow> (bool \<times> idxd_evl_fault list \<times> idxd_device) option" where
  "idxd_misc_thread E d =
     (let cause = ioread32 IDXD_INTCAUSE_OFFSET d in
      if cause = 0 then Some (False, [], d)
      else
        let d = iowrite32 E cause IDXD_INTCAUSE_OFFSET d;
            err = cause AND IDXD_INTC_ERR \<noteq> 0
        in if cause AND IDXD_INTC_HALT_STATE \<noteq> 0 then Some (True, [], misc_halt E d)
           else case (if err then misc_error E d else Some d) of
             None \<Rightarrow> None
           | Some d \<Rightarrow>
               let d = (if cause AND IDXD_INTC_INT_HANDLE_REVOKED \<noteq> 0 then misc_revoked E d else d);
                   d = (if cause AND IDXD_INTC_CMD \<noteq> 0 then notify CmdDone d else d);
                   d = (if cause AND IDXD_INTC_PERFMON_OVFL \<noteq> 0 then notify PerfmonOverflow d else d)
               in case (if cause AND IDXD_INTC_EVL \<noteq> 0 then process_evl_entries E d else Some ([], d)) of
                    None \<Rightarrow> None
                  | Some (queued, d) \<Rightarrow> Some (True, queued, if err then misc_halt E d else d))"

subsection \<open>What re-initialisation achieves\<close>

lemma wqs_setup_loop_ungrouped:
  "(\<And>i. i \<in> set is \<Longrightarrow> wq_group (wqs d ! i) = None) \<Longrightarrow> wqs_setup_loop E is n d = (Inr n, d)"
  by (induction "is") (simp_all add: Let_def)

text \<open>A queue and the whole device after the state was cleared.\<close>

definition cleared_wq :: "idxd_device \<Rightarrow> idxd_wq \<Rightarrow> idxd_wq" where
  "cleared_wq d w = (cleaned_wq (drv_type (drv_data d)) (dev_opcap d) w)\<lparr>wq_size := 0, wq_group := None\<rparr>"

lemma clear_state_wqs:
  assumes "wf_dev d"
  shows "wqs (idxd_device_clear_state E d) = (if configurable d then map (cleared_wq d) (wqs d) else wqs d)"
    "dev_state (idxd_device_clear_state E d) = IDXD_DEV_DISABLED"
    "wq_enable_map (idxd_device_clear_state E d) = wq_enable_map d"
    "max_wqs (idxd_device_clear_state E d) = max_wqs d" "dev_flags (idxd_device_clear_state E d) = dev_flags d"
    "cmd_status (idxd_device_clear_state E d) = cmd_status d" "length (wqs (idxd_device_clear_state E d)) = length (wqs d)"
  using assms
  by (simp_all add: idxd_device_clear_state_def wqs_clear_state groups_clear_state engines_clear_state wf_dev_def
      Let_def cleared_wq_def)

lemma wf_clear_state:
  assumes "wf_dev d"
  shows "wf_dev (idxd_device_clear_state E d)"
proof -
  have "map wq_id (map (cleared_wq d) (wqs d)) = map wq_id (wqs d)"
    by (simp add: cleared_wq_def cleaned_wq_def)
  moreover have "grp_id (clear_group E v m g) = grp_id g" for v m g by (simp add: clear_group_def Let_def)
  ultimately show ?thesis using assms
    by (simp add: idxd_device_clear_state_def wqs_clear_state groups_clear_state engines_clear_state wf_dev_def
      Let_def cleared_wq_def comp_def)
qed

lemma wf_same: "wqs d' = wqs d \<Longrightarrow> groups d' = groups d \<Longrightarrow> engines d' = engines d \<Longrightarrow> max_wqs d' = max_wqs d \<Longrightarrow>
    max_groups d' = max_groups d \<Longrightarrow> max_engines d' = max_engines d \<Longrightarrow> wf_dev d' = wf_dev d"
  by (simp add: wf_dev_def)

lemma reset_split:
  assumes "wf_dev d"
  obtains d0 where "wf_dev d0" "wqs d0 = wqs d" "configurable d0 = configurable d" "wq_enable_map d0 = wq_enable_map d"
    "max_wqs d0 = max_wqs d" "idxd_device_reset E d = idxd_unmask_error_interrupts E (idxd_device_clear_state E d0)"
proof
  let ?d0 = "snd (idxd_cmd_exec E IDXD_CMD_RESET_DEVICE 0 d)"
  show "wf_dev ?d0" using assms wf_same [of ?d0 d] by simp
  show "wqs ?d0 = wqs d" "configurable ?d0 = configurable d" "wq_enable_map ?d0 = wq_enable_map d" "max_wqs ?d0 = max_wqs d"
    by simp_all
  show "idxd_device_reset E d = idxd_unmask_error_interrupts E (idxd_device_clear_state E ?d0)"
    by (simp add: idxd_device_reset_def Let_def)
qed

lemma unmask_frame:
  "\<exists>r. idxd_unmask_error_interrupts E d = d\<lparr>regs := r\<rparr>"
  by (auto simp: idxd_unmask_error_interrupts_def Let_def iowrite32_def)

lemma cleared_ungrouped: "wq_group (cleared_wq d w) = None" "wq_state (cleared_wq d w) = IDXD_WQ_DISABLED"
  by (simp_all add: cleared_wq_def cleaned_wq_def)

lemma config_ungrouped:
  assumes wf: "wf_dev d" and un: "\<forall>w\<in>set (wqs d). wq_group w = None"
  shows "\<exists>gs. idxd_device_config E d = (- EINVAL, d\<lparr>groups := gs, cmd_status := Scmd IDXD_SCMD_WQ_NONE_CONFIGURED\<rparr>)"
proof -
  let ?f = "\<lambda>x. x\<lparr>grpcfg_wqs := fold (\<lambda>j. list_upd j (\<lambda>_. 0)) [0..<4] (grpcfg_wqs x)\<rparr>"
  obtain gs where d: "fold (\<lambda>i. upd_group i ?f) [0..<max_groups d] d = d\<lparr>groups := gs\<rparr>"
    using fold_upd_group by blast
  have "wq_group (wqs (d\<lparr>groups := gs\<rparr>) ! i) = None" if "i \<in> set [0..<max_wqs (d\<lparr>groups := gs\<rparr>)]" for i
    using that wf un by (simp add: wf_dev_def)
  then have "wqs_setup_loop E [0..<max_wqs (d\<lparr>groups := gs\<rparr>)] 0 (d\<lparr>groups := gs\<rparr>) = (Inr 0, d\<lparr>groups := gs\<rparr>)"
    by (rule wqs_setup_loop_ungrouped)
  then have "idxd_wqs_setup E d = (- EINVAL, d\<lparr>groups := gs, cmd_status := Scmd IDXD_SCMD_WQ_NONE_CONFIGURED\<rparr>)"
    unfolding idxd_wqs_setup_def Let_def d by simp
  then show ?thesis by (auto simp: idxd_device_config_def)
qed

lemma sel_fold: "(\<And>k d. f (g k d) = f d) \<Longrightarrow> f (fold g ks d) = f d"
  by (induction ks arbitrary: d) simp_all

lemma device_config_keeps:
  "wq_enable_map (snd (idxd_device_config E d)) = wq_enable_map d" "max_wqs (snd (idxd_device_config E d)) = max_wqs d"
proof -
  have a: "wq_enable_map (snd (idxd_wqs_setup E d)) = wq_enable_map d" "max_wqs (snd (idxd_wqs_setup E d)) = max_wqs d" for d
    using same_wqs_setup [of d E] by (auto simp: same_but_bitmaps_def)
  have b: "wq_enable_map (snd (idxd_engines_setup d)) = wq_enable_map d" "max_wqs (snd (idxd_engines_setup d)) = max_wqs d" for d
    using same_engines_setup [of d] by (auto simp: same_but_bitmaps_def)
  have c: "wq_enable_map (idxd_group_flags_setup d) = wq_enable_map d" "max_wqs (idxd_group_flags_setup d) = max_wqs d" for d
    by (simp_all add: idxd_group_flags_setup_def sel_fold [of wq_enable_map] sel_fold [of max_wqs])
  have e: "wq_enable_map (snd (idxd_wqs_config_write E d)) = wq_enable_map d" "max_wqs (snd (idxd_wqs_config_write E d)) = max_wqs d" for d
    using wqs_config_write_frame [of d E "[0..<max_wqs d]"]
    by (auto simp: same_but_wqcfg_def idxd_wqs_config_write_def)
  have g: "wq_enable_map (idxd_group_config_write E g d) = wq_enable_map d" "max_wqs (idxd_group_config_write E g d) = max_wqs d" for g d
    using group_config_write_frame [of E g d] by auto
  have f: "wq_enable_map (snd (idxd_groups_config_write E d)) = wq_enable_map d" "max_wqs (snd (idxd_groups_config_write E d)) = max_wqs d" for d
    by (simp_all add: idxd_groups_config_write_def Let_def sel_fold [of wq_enable_map] sel_fold [of max_wqs] g iowrite32_def)
  show "wq_enable_map (snd (idxd_device_config E d)) = wq_enable_map d" "max_wqs (snd (idxd_device_config E d)) = max_wqs d"
    by (simp_all add: idxd_device_config_def Let_def split_beta a b c e f)
qed

lemma device_enable_keeps:
  "wqs (snd (idxd_device_enable E d)) = wqs d" "wq_enable_map (snd (idxd_device_enable E d)) = wq_enable_map d"
  "max_wqs (snd (idxd_device_enable E d)) = max_wqs d"
  by (simp_all add: idxd_device_enable_def Let_def split_beta)

lemma reenable_running:
  "(\<And>i. i \<in> set is \<Longrightarrow> i \<in> wq_enable_map d \<Longrightarrow> wq_state (wqs d ! i) = IDXD_WQ_ENABLED) \<Longrightarrow> fold (reenable_wq E) is d = d"
  by (induction "is") (simp_all add: reenable_wq_def idxd_wq_enable_def)



subsection \<open>What a revocation does\<close>

lemma upd_wq_nth: "i < length (wqs d) \<Longrightarrow> wqs (upd_wq i f d) ! i = f (wqs d ! i)"
  by (simp add: nth_list_upd)

lemma finish_txd_ref: "i < length (wqs d) \<Longrightarrow> ref_live (wqs (finish_txd E i k r b d) ! i) = ref_live (wqs d ! i)"
  by (simp add: finish_txd_def Let_def idxd_free_desc_def upd_desc_def nth_list_upd split: option.splits)

lemma abort_fold_keeps:
  assumes "i < length (wqs d)"
  shows "held (fold (\<lambda>k. idxd_dma_complete_txd E i k IDXD_COMPLETE_ABORT True) ks d) = held d \<and>
     ref_live (wqs (fold (\<lambda>k. idxd_dma_complete_txd E i k IDXD_COMPLETE_ABORT True) ks d) ! i) = ref_live (wqs d ! i)"
  using assms
proof (induction ks arbitrary: d)
  case (Cons k ks)
  obtain r where "idxd_dma_complete_txd E i k IDXD_COMPLETE_ABORT True d = finish_txd E i k (Some r) True d"
    using abort_complete_eq by blast
  then show ?case using Cons.IH [of "finish_txd E i k (Some r) True d"] finish_txd_frame(1,2) [OF Cons.prems]
      finish_txd_ref [OF Cons.prems] Cons.prems by simp
qed simp

text \<open>Dropping the descriptors that came back with an invalid interrupt handle.\<close>

lemma abort_invalid_slots:
  assumes ok: "pool_ok i d" and d': "d' = idxd_abort_invalid_int_handle_descs E i d"
  defines "A \<equiv> {k \<in> set (lists_of i d). status_of i d k = DSA_COMP_INT_HANDLE_INVAL}"
  shows "pool_ok i d'" "k \<in> A \<Longrightarrow> slot i d' k = Free" "k \<notin> A \<Longrightarrow> slot i d' k = slot i d k"
    "int_handle (wq_ie (wqs d' ! i)) = int_handle (wq_ie (wqs d ! i))" "ref_live (wqs d' ! i) = ref_live (wqs d ! i)"
proof -
  let ?ie = "wq_ie (wqs d ! i)"
  let ?work = "work_list ?ie @ pending_llist ?ie" and ?inval = "\<lambda>k. status_of i d k = DSA_COMP_INT_HANDLE_INVAL"
  let ?d1 = "upd_ie i (\<lambda>ie. ie\<lparr>pending_llist := [], work_list := filter (\<lambda>k. \<not> ?inval k) ?work\<rparr>) d"
  have i: "i < length (wqs d)" using ok by (simp add: pool_ok_def)
  note [simp] = upd_ie_frame [OF i]
  have eq: "d' = fold (\<lambda>k. idxd_dma_complete_txd E i k IDXD_COMPLETE_ABORT True) (filter ?inval ?work) ?d1"
    by (simp add: d' idxd_abort_invalid_int_handle_descs_def Let_def)
  have A: "set (filter ?inval ?work) = A" by (auto simp: A_def)
  have ret: "retired i A ?d1 d'"
    unfolding eq A [symmetric] by (rule fold_retired [OF complete_txd_retired])
      (use pool_lists [OF ok] in auto)
  have "i < length (wqs ?d1)" using i by simp
  from abort_fold_keeps [OF this, of E "filter ?inval ?work", folded eq]
  have held: "held d' = held d" and "ref_live (wqs d' ! i) = ref_live (wqs ?d1 ! i)" by simp_all
  moreover have "ref_live (wqs ?d1 ! i) = ref_live (wqs d ! i)" using i by (simp add: upd_ie_def nth_list_upd)
  ultimately show "ref_live (wqs d' ! i) = ref_live (wqs d ! i)" by simp
  have sl: "pool_ok i d' \<and>
     (\<forall>k. if k \<in> A
          then slot i d' k = Free \<or> slot i d' k = Resubmitting \<and> request_int_handles d \<and>
                 status_of i d k = DSA_COMP_INT_HANDLE_INVAL
          else slot i d' k = slot i d k)"
    by (rule retired_slots [OF ok ret]) (use pool_lists [OF ok] in \<open>auto simp: A_def\<close>)
  have "held d (K (Resubmit i k)) = 0" if "k \<in> A" for k
    using that ok unfolding pool_ok_def A_def by blast
  then have "\<not> slot i d' k = Resubmitting" if "k \<in> A" for k
    using that held by (simp add: slot_def)
  then show "pool_ok i d'" "k \<in> A \<Longrightarrow> slot i d' k = Free" "k \<notin> A \<Longrightarrow> slot i d' k = slot i d k"
    using conjunct1 [OF sl] spec [OF conjunct2 [OF sl], of k] by (auto split: if_splits)
  have "wq_ie (wqs d' ! i) = wq_ie (wqs ?d1 ! i)" using ret by (simp add: retired_def)
  then show "int_handle (wq_ie (wqs d' ! i)) = int_handle ?ie" by simp
qed

text \<open>What \<^const>\<open>pool_ok\<close> and \<^const>\<open>slot\<close> depend on.\<close>

definition same_pool :: "nat \<Rightarrow> idxd_device \<Rightarrow> idxd_device \<Rightarrow> bool" where
  "same_pool i d d' \<longleftrightarrow> length (wqs d') = length (wqs d) \<and> held d' = held d \<and>
     lists_of i d' = lists_of i d \<and> sbq_alloc (wqs d' ! i) = sbq_alloc (wqs d ! i) \<and>
     wq_descs (wqs d' ! i) = wq_descs (wqs d ! i) \<and> num_descs (wqs d' ! i) = num_descs (wqs d ! i)"

lemma same_poolD:
  "same_pool i d d' \<Longrightarrow> slot i d' k = slot i d k" "same_pool i d d' \<Longrightarrow> pool_ok i d' = pool_ok i d"
  "same_pool i d d' \<Longrightarrow> status_of i d' k = status_of i d k"
  by (simp_all add: same_pool_def slot_def pool_ok_def the_desc_def)

lemma same_pool_trans: "same_pool i d d' \<Longrightarrow> same_pool i d' d'' \<Longrightarrow> same_pool i d d''"
  by (simp add: same_pool_def)

lemma quiesce_effect:
  assumes "i < length (wqs d)"
  shows "same_pool i d (idxd_wq_quiesce i d)" "wq_ie (wqs (idxd_wq_quiesce i d) ! i) = wq_ie (wqs d ! i)"
    "\<not> ref_live (wqs (idxd_wq_quiesce i d) ! i)"
  using assms by (simp_all add: same_pool_def idxd_wq_quiesce_def idxd_wq_quiesce_locked_def idxd_wq_ref_release_def nth_list_upd)

lemma set_handle_effect:
  assumes "i < length (wqs d)"
  shows "same_pool i d (upd_ie i (\<lambda>ie. ie\<lparr>int_handle := h\<rparr>) d)"
    "int_handle (wq_ie (wqs (upd_ie i (\<lambda>ie. ie\<lparr>int_handle := h\<rparr>) d) ! i)) = h"
  using assms by (simp_all add: same_pool_def upd_ie_frame)

lemma drain_effect:
  assumes "i < length (wqs d)"
  shows "same_pool i d (idxd_int_handle_revoke_drain E i d)"
    "wq_ie (wqs (idxd_int_handle_revoke_drain E i d) ! i) = wq_ie (wqs d ! i)"
    "ref_live (wqs (idxd_int_handle_revoke_drain E i d) ! i) = ref_live (wqs d ! i)"
    "\<exists>p. fst (hd (trace (idxd_int_handle_revoke_drain E i d))) =
       Svc ((if wq_dedicated (wqs d ! i) then Movdir64b else Enqcmds) i p (drain_desc E (wq_ie (wqs d ! i))))"
proof -
  let ?p = "fst (idxd_wq_portal_addr i d)" and ?x = "snd (idxd_wq_portal_addr i d)"
    and ?hw = "drain_desc E (wq_ie (wqs d ! i))"
  have eq: "idxd_int_handle_revoke_drain E i d =
     (if wq_dedicated (wqs d ! i) then notify (Movdir64b i ?p ?hw) ?x else snd (idxd_enqcmds E i ?p ?hw ?x))"
    using assms by (simp add: idxd_int_handle_revoke_drain_def Let_def split_beta idxd_wq_portal_addr_def wq_dedicated_def nth_list_upd)
  have w: "wqs (idxd_int_handle_revoke_drain E i d) = wqs ?x" "held (idxd_int_handle_revoke_drain E i d) = held ?x"
    by (simp_all add: eq enqcmds_frame)
  show "same_pool i d (idxd_int_handle_revoke_drain E i d)"
    "wq_ie (wqs (idxd_int_handle_revoke_drain E i d) ! i) = wq_ie (wqs d ! i)"
    "ref_live (wqs (idxd_int_handle_revoke_drain E i d) ! i) = ref_live (wqs d ! i)"
    using assms by (simp_all add: same_pool_def w idxd_wq_portal_addr_def Let_def nth_list_upd)
  have "fst (hd (trace (snd (idxd_enqcmds E i ?p ?hw ?x)))) = Svc (Enqcmds i ?p ?hw)"
    using enqcmds_loop_spec [of E "Enqcmds i ?p ?hw" "unat (enqcmds_retries (wqs ?x ! i))" ?x]
    by (auto simp: idxd_enqcmds_def)
  then show "\<exists>p. fst (hd (trace (idxd_int_handle_revoke_drain E i d))) =
       Svc ((if wq_dedicated (wqs d ! i) then Movdir64b else Enqcmds) i p (drain_desc E (wq_ie (wqs d ! i))))"
    by (intro exI [of _ ?p]) (simp add: eq notify_def)
qed

lemma request_handle_keeps:
  "wqs (snd (idxd_device_request_int_handle E idx t d)) = wqs d"
  "held (snd (idxd_device_request_int_handle E idx t d)) = held d"
  by (simp_all add: idxd_device_request_int_handle_def Let_def split_beta)

text \<open>
  C18: one round of the revocation. When the device refuses a new handle the queue is shut: its
  entry has no handle, its reference is dead, so later submissions are refused, exactly the
  descriptors in flight that came back with an invalid handle are given back as free, and all
  other descriptors stay where they were. When it grants one, the entry has the new handle and
  every descriptor keeps its slot; if the handle changed under a running kernel queue, the queue
  is live again at the end and the last thing sent to it is a drain with the new handle.
\<close>
theorem revoke_step_outcome:
  assumes ok: "pool_ok q d" and q: "q = ie_to_wq i" "q < max_wqs d"
    and h: "int_handle (wq_ie (wqs d ! q)) \<noteq> INVALID_INT_HANDLE"
    and run: "revoke_step E i d = Some d'"
    and req: "fst (idxd_device_request_int_handle E (int i) IDXD_IRQ_MSIX d) = (rc, new)"
  shows "pool_ok q d' \<and>
    (if rc < 0
     then int_handle (wq_ie (wqs d' ! q)) = INVALID_INT_HANDLE \<and> \<not> ref_live (wqs d' ! q) \<and>
       (\<forall>k. if k \<in> set (lists_of q d) \<and> status_of q d k = DSA_COMP_INT_HANDLE_INVAL then slot q d' k = Free
            else slot q d' k = slot q d k)
     else int_handle (wq_ie (wqs d' ! q)) = new \<and> (\<forall>k. slot q d' k = slot q d k) \<and>
       (int_handle (wq_ie (wqs d ! q)) \<noteq> new \<and> wq_state (wqs d ! q) = IDXD_WQ_ENABLED \<and>
        wq_type (wqs d ! q) = IDXD_WQT_KERNEL \<longrightarrow>
          ref_live (wqs d' ! q) \<and>
          (\<exists>p desc. fst (hd (trace d')) = Svc ((if wq_dedicated (wqs d ! q) then Movdir64b else Enqcmds) q p desc) \<and>
             hd_opcode desc = DSA_OPCODE_DRAIN \<and> hd_int_handle desc = word_of_int new)))"
proof -
  define d1 where "d1 = snd (idxd_device_request_int_handle E (int i) IDXD_IRQ_MSIX d)"
  have rq: "idxd_device_request_int_handle E (int i) IDXD_IRQ_MSIX d = ((rc, new), d1)"
    using req by (simp add: d1_def prod_eq_iff)
  have w1: "wqs d1 = wqs d" "held d1 = held d" by (simp_all add: d1_def request_handle_keeps)
  then have s1: "same_pool q d d1" by (simp add: same_pool_def)
  have ql: "q < length (wqs d)" using ok by (simp add: pool_ok_def)
  show ?thesis
  proof (cases "rc < 0")
    case True
    define d2 where "d2 = idxd_wq_quiesce q (upd_ie q (\<lambda>ie. ie\<lparr>int_handle := INVALID_INT_HANDLE\<rparr>) d1)"
    have d': "d' = idxd_abort_invalid_int_handle_descs E q d2"
      using run q h by (simp add: revoke_step_def Let_def rq True d2_def)
    have q1: "q < length (wqs d1)" using ql w1 by simp
    then have q2: "q < length (wqs (upd_ie q (\<lambda>ie. ie\<lparr>int_handle := INVALID_INT_HANDLE\<rparr>) d1))" by (simp add: upd_ie_frame)
    have s2: "same_pool q d d2" unfolding d2_def
      by (rule same_pool_trans [OF s1 same_pool_trans [OF set_handle_effect(1) [OF q1] quiesce_effect(1) [OF q2]]])
    have i2: "int_handle (wq_ie (wqs d2 ! q)) = INVALID_INT_HANDLE" "\<not> ref_live (wqs d2 ! q)"
      using quiesce_effect(2,3) [OF q2] set_handle_effect(2) [OF q1] by (simp_all add: d2_def)
    have ok2: "pool_ok q d2" using same_poolD(2) [OF s2] ok by simp
    have l: "lists_of q d2 = lists_of q d" using s2 by (simp add: same_pool_def)
    note a = abort_invalid_slots [OF ok2 d']
    show ?thesis using a i2 True same_poolD(1,3) [OF s2] l by auto
  next
    case False
    let ?ie = "wq_ie (wqs d ! q)"
    let ?kernel = "wq_state (wqs d ! q) = IDXD_WQ_ENABLED \<and> wq_type (wqs d ! q) = IDXD_WQT_KERNEL"
    show ?thesis
    proof (cases "int_handle ?ie = new")
      case True
      then have "d' = d1" using run q h False w1 by (simp add: revoke_step_def Let_def rq)
      then show ?thesis using True False ok w1 same_poolD [OF s1] by simp
    next
      case changed: False
      show ?thesis
      proof (cases ?kernel)
        case True
        define d2 where "d2 = upd_wq q (\<lambda>w. w\<lparr>wq_dead := False, wq_ie := (wq_ie w)\<lparr>int_handle := new\<rparr>,
            ref_live := True, wq_resurrect := True\<rparr>) d1"
        have d': "d' = idxd_int_handle_revoke_drain E q d2"
          using run q h False changed True w1
          by (simp add: revoke_step_def Let_def rq d2_def idxd_wq_ref_release_def upd_ie_def upd_wq_def list_upd_list_upd comp_def)
        have w2: "wqs d2 ! q = (wqs d ! q)\<lparr>wq_dead := False, wq_ie := ?ie\<lparr>int_handle := new\<rparr>,
            ref_live := True, wq_resurrect := True\<rparr>" "length (wqs d2) = length (wqs d)" "held d2 = held d"
          using ql w1 by (simp_all add: d2_def nth_list_upd)
        then have s2: "same_pool q d d2" by (simp add: same_pool_def)
        have q2: "q < length (wqs d2)" using ql w2 by simp
        note dr = drain_effect [OF q2, of E, folded d']
        let ?desc = "drain_desc E (wq_ie (wqs d2 ! q))"
        have ded: "wq_dedicated (wqs d2 ! q) = wq_dedicated (wqs d ! q)" by (simp add: w2 wq_dedicated_def)
        have "hd_opcode ?desc = DSA_OPCODE_DRAIN" "hd_int_handle ?desc = word_of_int new" by (simp_all add: drain_desc_def w2)
        moreover obtain p where "fst (hd (trace d')) = Svc ((if wq_dedicated (wqs d ! q) then Movdir64b else Enqcmds) q p ?desc)"
          using dr(4) unfolding ded by blast
        ultimately have "\<exists>p desc. fst (hd (trace d')) = Svc ((if wq_dedicated (wqs d ! q) then Movdir64b else Enqcmds) q p desc) \<and>
             hd_opcode desc = DSA_OPCODE_DRAIN \<and> hd_int_handle desc = word_of_int new" by blast
        moreover have "ref_live (wqs d' ! q)" "int_handle (wq_ie (wqs d' ! q)) = new" using dr(2,3) w2(1) by simp_all
        moreover have "pool_ok q d'" "\<forall>k. slot q d' k = slot q d k"
          using same_poolD(1,2) [OF same_pool_trans [OF s2 dr(1)]] ok by simp_all
        ultimately show ?thesis using False by (simp only: if_False simp_thms)
      next
        case unused: False
        then have d': "d' = upd_ie q (\<lambda>ie. ie\<lparr>int_handle := new\<rparr>) d1"
          using run q h False changed w1 by (auto simp: revoke_step_def Let_def rq)
        have q1: "q < length (wqs d1)" using ql w1 by simp
        have "pool_ok q d'" "\<forall>k. slot q d' k = slot q d k" "int_handle (wq_ie (wqs d' ! q)) = new"
          using same_poolD(1,2) [OF same_pool_trans [OF s1 set_handle_effect(1) [OF q1]]] set_handle_effect(2) [OF q1] ok
          by (simp_all add: d')
        then show ?thesis using False unused by (simp only: if_False simp_thms)
      qed
    qed
  qed
qed


subsection \<open>What the misc interrupt does\<close>

lemma fold_pointwise:
  "(\<And>j d. wqs (upd j d) = list_upd j f (wqs d)) \<Longrightarrow> wqs (fold upd is d) = fold (\<lambda>j. list_upd j f) is (wqs d)"
  by (induction "is" arbitrary: d) simp_all

lemma wake_trace:
  "fold wake_user_wq is d = d\<lparr>trace :=
     rev (map (\<lambda>j. (Svc (WakeErrQueue j), 0)) (filter (\<lambda>j. wq_type (wqs d ! j) = IDXD_WQT_USER) is)) @ trace d\<rparr>"
  by (induction "is" arbitrary: d) (simp_all add: wake_user_wq_def notify_def)

text \<open>
  a software error. The four error words are recorded before the error is acknowledged. If
  they are valid and name a queue, the waiters of that queue are woken when it is a user queue;
  otherwise the waiters of every user queue are, and of no other. The queue number comes from
  the device and is not checked: beyond the last queue it is an access out of bounds.
\<close>
theorem misc_error_outcome:
  "let err = ioread64 IDXD_SWERR_OFFSET d;
       named = (getf sw_err_reg0 ''valid'' err \<noteq> 0 \<and> getf sw_err_reg0 ''wq_idx_valid'' err \<noteq> 0);
       i = unat (getf sw_err_reg0 ''wq_idx'' err)
   in case misc_error E d of
        None \<Rightarrow> named \<and> max_wqs d \<le> i
      | Some d' \<Rightarrow> \<not> (named \<and> max_wqs d \<le> i) \<and> wqs d' = wqs d \<and>
          sw_err d' = [err, ioread64 (IDXD_SWERR_OFFSET + 8) d, ioread64 (IDXD_SWERR_OFFSET + 16) d,
                       ioread64 (IDXD_SWERR_OFFSET + 24) d] \<and>
          trace d' = rev (map (\<lambda>j. (Svc (WakeErrQueue j), 0))
            (filter (\<lambda>j. wq_type (wqs d ! j) = IDXD_WQT_USER \<and> (if named then j = i else True)) [0..<max_wqs d])) @ trace d"
proof -
  let ?err = "ioread64 IDXD_SWERR_OFFSET d"
  let ?d1 = "iowrite64 E (?err AND IDXD_SWERR_ACK) IDXD_SWERR_OFFSET
    (d\<lparr>sw_err := map (\<lambda>i. ioread64 (IDXD_SWERR_OFFSET + 8 * i) d) [0..<4]\<rparr>)"
  let ?named = "getf sw_err_reg0 ''valid'' ?err \<noteq> 0 \<and> getf sw_err_reg0 ''wq_idx_valid'' ?err \<noteq> 0"
  let ?i = "unat (getf sw_err_reg0 ''wq_idx'' ?err)"
  have w: "wqs ?d1 = wqs d" "max_wqs ?d1 = max_wqs d" "trace ?d1 = trace d"
    "sw_err ?d1 = [?err, ioread64 (IDXD_SWERR_OFFSET + 8) d, ioread64 (IDXD_SWERR_OFFSET + 16) d, ioread64 (IDXD_SWERR_OFFSET + 24) d]"
    by (simp_all add: iowrite64_def iowrite32_def upt_rec)
  have eq: "misc_error E d = (if ?named then if max_wqs d \<le> ?i then None else Some (wake_user_wq ?i ?d1)
      else Some (fold wake_user_wq [0..<max_wqs d] ?d1))"
    by (simp add: misc_error_def Let_def upt_rec)
  have "filter (\<lambda>j. wq_type (wqs d ! j) = IDXD_WQT_USER \<and> j = i) [0..<n] =
      (if i < n \<and> wq_type (wqs d ! i) = IDXD_WQT_USER then [i] else [])" for i n
    by (induction n) (auto simp: less_Suc_eq)
  then show ?thesis unfolding Let_def eq using w by (auto simp: wake_trace wake_user_wq_def notify_def)
qed

definition quiesced :: "idxd_wq \<Rightarrow> idxd_wq" where
  "quiesced w = (if wq_state w = IDXD_WQ_ENABLED \<and> wq_type w = IDXD_WQT_KERNEL
     then w\<lparr>ref_live := False, wq_resurrect := True, wq_dead := False\<rparr> else w)"

lemma quiesce_upd:
  "idxd_wq_quiesce i d = upd_wq i (\<lambda>w. w\<lparr>ref_live := False, wq_resurrect := True, wq_dead := False\<rparr>) d"
  by (simp add: idxd_wq_quiesce_def idxd_wq_quiesce_locked_def idxd_wq_ref_release_def upd_wq_def list_upd_list_upd comp_def)

lemma quiesce_all:
  assumes "length (wqs d) = max_wqs d"
  shows "wqs (idxd_wqs_quiesce d) = map quiesced (wqs d)"
    "max_wqs (idxd_wqs_quiesce d) = max_wqs d" "dev_flags (idxd_wqs_quiesce d) = dev_flags d"
    "trace (idxd_wqs_quiesce d) = trace d" "sw_err (idxd_wqs_quiesce d) = sw_err d" "dev_evl (idxd_wqs_quiesce d) = dev_evl d"
proof -
  have "wqs (idxd_wqs_quiesce d) = fold (\<lambda>j. list_upd j quiesced) [0..<max_wqs d] (wqs d)"
    unfolding idxd_wqs_quiesce_def
    by (rule fold_pointwise) (simp add: quiesce_upd quiesced_def list_upd_def)
  then show "wqs (idxd_wqs_quiesce d) = map quiesced (wqs d)" using assms by (simp add: fold_list_upd_len)
qed (simp_all add: idxd_wqs_quiesce_def quiesce_upd
    sel_fold [of max_wqs] sel_fold [of dev_flags] sel_fold [of trace] sel_fold [of sw_err] sel_fold [of dev_evl])

lemma unmap_all:
  assumes "length (wqs d) = max_wqs d"
  shows "wqs (idxd_wqs_unmap_portal d) =
      map (\<lambda>w. if portal w then w\<lparr>portal := False, portal_offset := 0\<rparr> else w) (wqs d)"
    "max_wqs (idxd_wqs_unmap_portal d) = max_wqs d" "dev_flags (idxd_wqs_unmap_portal d) = dev_flags d"
    "sw_err (idxd_wqs_unmap_portal d) = sw_err d" "dev_evl (idxd_wqs_unmap_portal d) = dev_evl d"
    "filter (\<lambda>e. case fst e of Svc v \<Rightarrow> True | _ \<Rightarrow> False) (trace (idxd_wqs_unmap_portal d)) =
       filter (\<lambda>e. case fst e of Svc v \<Rightarrow> True | _ \<Rightarrow> False) (trace d)"
proof -
  let ?f = "\<lambda>w. if portal w then w\<lparr>portal := False, portal_offset := 0\<rparr> else w"
  have "wqs (idxd_wqs_unmap_portal d) = fold (\<lambda>j. list_upd j ?f) [0..<max_wqs d] (wqs d)"
    unfolding idxd_wqs_unmap_portal_def
    by (rule fold_pointwise) (simp add: idxd_wq_unmap_portal_def list_upd_def release_def upd_wq_def)
  then show "wqs (idxd_wqs_unmap_portal d) = map ?f (wqs d)" using assms by (simp add: fold_list_upd_len)
  show "filter (\<lambda>e. case fst e of Svc v \<Rightarrow> True | _ \<Rightarrow> False) (trace (idxd_wqs_unmap_portal d)) =
       filter (\<lambda>e. case fst e of Svc v \<Rightarrow> True | _ \<Rightarrow> False) (trace d)"
    by (simp add: idxd_wqs_unmap_portal_def idxd_wq_unmap_portal_def release_def
        sel_fold [of "\<lambda>d. filter (\<lambda>e. case fst e of Svc v \<Rightarrow> True | _ \<Rightarrow> False) (trace d)"])
qed (simp_all add: idxd_wqs_unmap_portal_def idxd_wq_unmap_portal_def
    sel_fold [of max_wqs] sel_fold [of dev_flags] sel_fold [of sw_err] sel_fold [of dev_evl])



subsection \<open>Witnesses\<close>

lemma sample_map_ok: "enable_map_ok sample_dev"
  by (auto simp: enable_map_ok_def sample_wf wq_running_def) (auto simp: sample_dev_def zero_defs less_Suc_eq numeral_2_eq_2)


text \<open>The sample pool with an interrupt handle that the device has revoked.\<close>

definition sample_revoked :: idxd_device where
  "sample_revoked = upd_desc 0 1 (\<lambda>x. x\<lparr>compl_status := DSA_COMP_INT_HANDLE_INVAL\<rparr>)
     (upd_ie 0 (\<lambda>ie. ie\<lparr>int_handle := 5\<rparr>) sample_pool)"

theorem revoke_step_outcome_witness:
  "\<exists>d'. revoke_step sample_env 1 sample_revoked = Some d' \<and> slot 0 d' 1 = Free \<and> slot 0 d' 0 = InFlight \<and>
     \<not> ref_live (wqs d' ! 0)"
proof -
  have sel: "length (wqs sample_revoked) = 1" "held sample_revoked = (\<lambda>_. 0)" "int_handle (wq_ie (wqs sample_revoked ! 0)) = 5"
    "lists_of 0 sample_revoked = [0, 1]" "max_wqs sample_revoked = 2" "status_of 0 sample_revoked 1 = DSA_COMP_INT_HANDLE_INVAL"
    "status_of 0 sample_revoked 0 = 0" "sbq_alloc (wqs sample_revoked ! 0) = {0, 1, 2}"
    "length (wq_descs (wqs sample_revoked ! 0)) = 3" "num_descs (wqs sample_revoked ! 0) = 3"
    by (simp_all add: sample_revoked_def upd_desc_def upd_ie_def upd_wq_def list_upd_def sample_pool_def sample_dev_def
        zero_defs the_desc_def)
  have ok: "pool_ok 0 sample_revoked" by (auto simp: pool_ok_def sel simp del: append_is_Nil_conv)
  have req: "fst (idxd_device_request_int_handle sample_env (int 1) IDXD_IRQ_MSIX sample_revoked) = (- EOPNOTSUPP, 0)"
    by code_simp
  obtain d' where run: "revoke_step sample_env 1 sample_revoked = Some d'"
    by (cases "revoke_step sample_env 1 sample_revoked") (auto simp: revoke_step_def ie_to_wq_def sel Let_def split: if_splits prod.splits)
  have out: "\<not> ref_live (wqs d' ! 0)" "\<forall>k. if k \<in> set (lists_of 0 sample_revoked) \<and>
      status_of 0 sample_revoked k = DSA_COMP_INT_HANDLE_INVAL then slot 0 d' k = Free else slot 0 d' k = slot 0 sample_revoked k"
    using revoke_step_outcome [OF ok _ _ _ run req] by (simp_all add: ie_to_wq_def sel)
  have "slot 0 d' 1 = Free" "slot 0 d' 0 = slot 0 sample_revoked 0"
    using spec [OF out(2), of 1] spec [OF out(2), of 0] by (simp_all only: sel) simp_all
  then show ?thesis using run out(1) by (simp add: slot_def sel)
qed

definition sample_halted :: idxd_device where
  "sample_halted = sample_dev\<lparr>regs := (\<lambda>_. 0)(IDXD_GENSTATS_OFFSET := 3, IDXD_INTCAUSE_OFFSET := 0x12)\<rparr>"


end
