(* ===== verification/Init.thy ===== *)
theory Init
  imports Perfmon Bus Irq
begin

text \<open>
  Probe and removal of a device and loading of the module, \<^verbatim>\<open>idxd/init.c\<close>. A device is set up in the
  state of the performance monitor, which has the module's globals beside the device.
\<close>

subsection \<open>Interrupts\<close>

text \<open>The entries of the table of accelerator types that the driver keeps in the device.\<close>

definition idxd_driver_data_of :: "idxd_type \<Rightarrow> idxd_driver_data" where
  "idxd_driver_data_of t =
     (case t of IDXD_TYPE_DSA \<Rightarrow> \<lparr>drv_type = IDXD_TYPE_DSA, compl_size = 32\<rparr>
              | IDXD_TYPE_IAX \<Rightarrow> \<lparr>drv_type = IDXD_TYPE_IAX, compl_size = 64\<rparr>)"

definition idxd_setup_interrupts :: "env \<Rightarrow> idxd_device \<Rightarrow> int \<times> idxd_device" where
  "idxd_setup_interrupts E d =
     (let (msixcnt, d) = ext E (Svc MsixVecCount) d
      in if msixcnt < 0 then (- ENOSPC, d)
         else
           let d = d\<lparr>irq_cnt := nat msixcnt\<rparr>;
               (rc, d) = acquire E (D IrqVectors) d
           in if rc \<noteq> msixcnt then (- ENOSPC, d)
              else
                let (rc, d) = acquire E (D MiscIrq) d
                in if rc < 0 then (rc, release (D IrqVectors) (idxd_mask_error_interrupts E d))
                   else
                     let d = fold (\<lambda>i. upd_ie i (\<lambda>ie. ie\<lparr>ie_id := i + 1, int_handle := INVALID_INT_HANDLE,
                                       ie_pasid := invalid_pasid E, pending_llist := [], work_list := []\<rparr>)) [0..<max_wqs d] d
                     in (0, idxd_unmask_error_interrupts E d))"

definition idxd_cleanup_interrupts :: "env \<Rightarrow> idxd_device \<Rightarrow> idxd_device" where
  "idxd_cleanup_interrupts E d =
     (let (msixcnt, d) = ext E (Svc MsixVecCount) d
      in if msixcnt \<le> 0 then d
         else release (D IrqVectors) (release (D MiscIrq) (idxd_mask_error_interrupts E d)))"

subsection \<open>Queues, engines and groups\<close>

text \<open>
  A member enters its array when it is complete; \<open>drop\<close> puts one that is not, a local variable of
  the code. When a member fails, those before it are put, the last first.
\<close>

definition setup_wq :: "env \<Rightarrow> nat \<Rightarrow> idxd_device \<Rightarrow> int \<times> idxd_device" where
  "setup_wq E i d =
     (let (rc, d) = acquire E (W i WqStruct) d
      in if rc < 0 then (- ENOMEM, d)
         else
           let w = zero_wq\<lparr>wq_id := i\<rparr>;
               d = hold (DevRef (DevWq i)) d;
               drop = (\<lambda>rc w d. (rc, (put_device (DevWq i) (d\<lparr>wqs := wqs d @ [w]\<rparr>))\<lparr>wqs := wqs d\<rparr>));
               (rc, d) = ext E (Svc (SetName (DevWq i))) d
           in if rc < 0 then drop rc w d
              else
                let w = w\<lparr>max_xfer_bytes := WQ_DEFAULT_MAX_XFER\<rparr>;
                    w = idxd_wq_set_max_batch_size (drv_type (drv_data d)) WQ_DEFAULT_MAX_BATCH w;
                    w = w\<lparr>enqcmds_retries := IDXD_ENQCMDS_RETRIES\<rparr>;
                    (rc, d) = acquire E (W i Wqcfg) d
                in if rc < 0 then drop (- ENOMEM) w d
                   else
                     let w = w\<lparr>wqcfg := replicate (unat (wqcfg_size d) div 4) 0\<rparr>
                     in if getf wq_cap_reg ''op_config'' (wq_cap d) \<noteq> 0
                        then
                          let (rc, d) = acquire E (W i WqOpcap) d
                          in if rc < 0 then drop (- ENOMEM) w d
                             else (0, d\<lparr>wqs := wqs d @ [w\<lparr>wq_opcap := Some (dev_opcap d)\<rparr>]\<rparr>)
                        else (0, d\<lparr>wqs := wqs d @ [w]\<rparr>))"

definition setup_engine :: "env \<Rightarrow> nat \<Rightarrow> idxd_device \<Rightarrow> int \<times> idxd_device" where
  "setup_engine E i d =
     (let (rc, d) = acquire E (D (EngineStruct i)) d
      in if rc < 0 then (- ENOMEM, d)
         else
           let d = hold (DevRef (DevEngine i)) d;
               (rc, d) = ext E (Svc (SetName (DevEngine i))) d
           in if rc < 0 then (rc, put_device (DevEngine i) d)
              else (0, d\<lparr>engines := engines d @ [zero_engine\<lparr>eng_id := i\<rparr>]\<rparr>))"

definition setup_group :: "env \<Rightarrow> nat \<Rightarrow> idxd_device \<Rightarrow> int \<times> idxd_device" where
  "setup_group E i d =
     (let (rc, d) = acquire E (D (GroupStruct i)) d
      in if rc < 0 then (- ENOMEM, d)
         else
           let d = hold (DevRef (DevGroup i)) d;
               (rc, d) = ext E (Svc (SetName (DevGroup i))) d
           in if rc < 0 then (rc, put_device (DevGroup i) d)
              else
                let g = zero_group\<lparr>grp_id := i\<rparr>;
                    g = (if version d \<le> DEVICE_VERSION_2 \<and> \<not> tc_override E then g\<lparr>tc_a := 1, tc_b := 1\<rparr>
                         else g\<lparr>tc_a := -1, tc_b := -1\<rparr>);
                    g = g\<lparr>rdbufs_allowed := of_int (max_rdbufs d)\<rparr>
                in (0, d\<lparr>groups := groups d @ [g]\<rparr>))"

fun setup_loop ::
  "(nat \<Rightarrow> idxd_device \<Rightarrow> int \<times> idxd_device) \<Rightarrow> (nat \<Rightarrow> conf_dev) \<Rightarrow> nat list \<Rightarrow> idxd_device \<Rightarrow> int \<times> idxd_device" where
  "setup_loop one c [] d = (0, d)"
| "setup_loop one c (i # is) d =
     (let (rc, d) = one i d
      in if rc < 0 then (rc, fold (\<lambda>k. put_device (c k)) (rev [0..<i]) d) else setup_loop one c is d)"

definition idxd_setup_wqs :: "env \<Rightarrow> idxd_device \<Rightarrow> int \<times> idxd_device" where
  "idxd_setup_wqs E d =
     (let (rc, d) = acquire E (D Wqs) d
      in if rc < 0 then (- ENOMEM, d)
         else
           let d = d\<lparr>live_ptrs := insert Wqs (live_ptrs d), wqs := []\<rparr>;
               (rc, d) = acquire E (D WqEnableMap) d
           in if rc < 0 then (- ENOMEM, release (D Wqs) d)
              else setup_loop (setup_wq E) DevWq [0..<max_wqs d]
                     (d\<lparr>live_ptrs := insert WqEnableMap (live_ptrs d), wq_enable_map := {}\<rparr>))"

definition idxd_setup_engines :: "env \<Rightarrow> idxd_device \<Rightarrow> int \<times> idxd_device" where
  "idxd_setup_engines E d =
     (let (rc, d) = acquire E (D Engines) d
      in if rc < 0 then (- ENOMEM, d)
         else setup_loop (setup_engine E) DevEngine [0..<max_engines d]
                (d\<lparr>live_ptrs := insert Engines (live_ptrs d), engines := []\<rparr>))"

definition idxd_setup_groups :: "env \<Rightarrow> idxd_device \<Rightarrow> int \<times> idxd_device" where
  "idxd_setup_groups E d =
     (let (rc, d) = acquire E (D Groups) d
      in if rc < 0 then (- ENOMEM, d)
         else setup_loop (setup_group E) DevGroup [0..<max_groups d]
                (d\<lparr>live_ptrs := insert Groups (live_ptrs d), groups := []\<rparr>))"

definition put_groups :: "idxd_device \<Rightarrow> idxd_device" where
  "put_groups d = fold (\<lambda>i. put_device (DevGroup i)) [0..<max_groups d] d"

definition put_engines :: "idxd_device \<Rightarrow> idxd_device" where
  "put_engines d = fold (\<lambda>i. put_device (DevEngine i)) [0..<max_engines d] d"

definition put_wqs :: "idxd_device \<Rightarrow> idxd_device" where
  "put_wqs d = fold (\<lambda>i. put_device (DevWq i)) [0..<max_wqs d] d"

definition idxd_cleanup_internals :: "idxd_device \<Rightarrow> idxd_device" where
  "idxd_cleanup_internals d = release (D Workqueue) (put_wqs (put_engines (put_groups d)))"

definition zero_evl :: idxd_evl where
  "zero_evl = \<lparr>evl_log = None, evl_dma = 0, evl_log_size = 0, evl_size = 0, evl_head = 0, evl_bmap = {},
     batch_fail = (\<lambda>_. False)\<rparr>"

definition idxd_init_evl :: "env \<Rightarrow> idxd_device \<Rightarrow> int \<times> idxd_device" where
  "idxd_init_evl E d =
     (if getf gen_cap_reg ''evl_support'' (gen_cap d) = 0 then (0, d)
      else
        let (rc, d) = acquire E (D Evl) d
        in if rc < 0 then (- ENOMEM, d)
           else
             let (rc, d) = acquire E (D EvlCache) d
             in if rc < 0 then (- ENOMEM, release (D Evl) d)
                else (0, d\<lparr>live_ptrs := insert EvlCache (live_ptrs d),
                           dev_evl := Some (zero_evl\<lparr>evl_size := IDXD_EVL_SIZE_MIN\<rparr>)\<rparr>))"

definition idxd_setup_internals :: "env \<Rightarrow> idxd_device \<Rightarrow> int \<times> idxd_device" where
  "idxd_setup_internals E d =
     (let (rc, d) = idxd_setup_wqs E d
      in if rc < 0 then (rc, d)
         else
           let (rc, d) = idxd_setup_engines E d
           in if rc < 0 then (rc, put_wqs d)
              else
                let (rc, d) = idxd_setup_groups E d
                in if rc < 0 then (rc, put_wqs (put_engines d))
                   else
                     let (rc, d) = acquire E (D Workqueue) d
                     in if rc < 0 then (- ENOMEM, put_wqs (put_engines (put_groups d)))
                        else
                          let (rc, d) = idxd_init_evl E d
                          in if rc < 0 then (rc, put_wqs (put_engines (put_groups (release (D Workqueue) d)))) else (0, d))"

subsection \<open>Capabilities\<close>

definition idxd_read_table_offsets :: "idxd_device \<Rightarrow> idxd_device" where
  "idxd_read_table_offsets d =
     (let bits0 = ioread64 IDXD_TABLE_OFFSET d; bits1 = ioread64 (IDXD_TABLE_OFFSET + 8) d
      in d\<lparr>grpcfg_offset := ucast (getf offsets_reg0 ''grpcfg'' bits0) * IDXD_TABLE_MULT,
           wqcfg_offset := ucast (getf offsets_reg0 ''wqcfg'' bits0) * IDXD_TABLE_MULT,
           msix_perm_offset := ucast (getf offsets_reg0 ''msix_perm'' bits0) * IDXD_TABLE_MULT,
           perfmon_offset := ucast (getf offsets_reg1 ''perfmon'' bits1) * IDXD_TABLE_MULT\<rparr>)"

text \<open>The groups of capabilities in the order of \<^verbatim>\<open>idxd_read_caps\<close>.\<close>

definition read_gen_caps :: "idxd_device \<Rightarrow> idxd_device" where
  "read_gen_caps d =
     (let d = d\<lparr>gen_cap := ioread64 IDXD_GENCAP_OFFSET d\<rparr>;
          d = d\<lparr>cmd_cap := if getf gen_cap_reg ''cmd_cap'' (gen_cap d) \<noteq> 0 then ioread32 IDXD_CMDCAP_OFFSET d else cmd_cap d\<rparr>;
          d = d\<lparr>request_int_handles := request_int_handles d \<or> bit (cmd_cap d) (unat (cmd_code IDXD_CMD_REQUEST_INT_HANDLE))\<rparr>;
          d = d\<lparr>dev_max_xfer_bytes := push_bit (unat (getf gen_cap_reg ''max_xfer_shift'' (gen_cap d))) 1\<rparr>;
          d = idxd_set_max_batch_size (drv_type (drv_data d)) (push_bit (unat (getf gen_cap_reg ''max_batch_shift'' (gen_cap d))) 1) d
      in d\<lparr>dev_flags := if getf gen_cap_reg ''config_en'' (gen_cap d) \<noteq> 0
                         then set_bit IDXD_FLAG_CONFIGURABLE (dev_flags d) else dev_flags d\<rparr>)"

definition read_group_caps :: "idxd_device \<Rightarrow> idxd_device" where
  "read_group_caps d =
     (let d = d\<lparr>group_cap := ioread64 IDXD_GRPCAP_OFFSET d\<rparr>;
          d = d\<lparr>max_groups := unat (getf group_cap_reg ''num_groups'' (group_cap d))\<rparr>;
          d = d\<lparr>max_rdbufs := uint (getf group_cap_reg ''total_rdbufs'' (group_cap d))\<rparr>
      in d\<lparr>nr_rdbufs := max_rdbufs d\<rparr>)"

definition read_engine_caps :: "idxd_device \<Rightarrow> idxd_device" where
  "read_engine_caps d =
     (let d = d\<lparr>engine_cap := ioread64 IDXD_ENGCAP_OFFSET d\<rparr>
      in d\<lparr>max_engines := unat (getf engine_cap_reg ''num_engines'' (engine_cap d))\<rparr>)"

definition read_wq_caps :: "idxd_device \<Rightarrow> idxd_device" where
  "read_wq_caps d =
     (let d = d\<lparr>wq_cap := ioread64 IDXD_WQCAP_OFFSET d\<rparr>;
          d = d\<lparr>max_wq_size := uint (getf wq_cap_reg ''total_wq_size'' (wq_cap d))\<rparr>;
          d = d\<lparr>max_wqs := unat (getf wq_cap_reg ''num_wqs'' (wq_cap d))\<rparr>
      in d\<lparr>wqcfg_size := push_bit (unat (getf wq_cap_reg ''wqcfg_size'' (wq_cap d)) + IDXD_WQCFG_MIN) 1\<rparr>)"

definition read_op_caps :: "idxd_device \<Rightarrow> idxd_device" where
  "read_op_caps d =
     (let d = d\<lparr>opcap := map (\<lambda>i. ioread64 (IDXD_OPCAP_OFFSET + i * 8) d) [0..<4]\<rparr>
      in d\<lparr>dev_opcap := multi_u64_to_bmap (dev_opcap d) (opcap d) 4\<rparr>)"

definition read_iaa_cap :: "idxd_device \<Rightarrow> idxd_device" where
  "read_iaa_cap d =
     (if drv_type (drv_data d) = IDXD_TYPE_IAX \<and> version d \<ge> DEVICE_VERSION_2
      then d\<lparr>iaa_cap := ioread64 IDXD_IAACAP_OFFSET d\<rparr> else d)"

definition idxd_read_caps :: "idxd_device \<Rightarrow> idxd_device" where
  "idxd_read_caps d =
     read_iaa_cap (read_op_caps (read_wq_caps (read_engine_caps (read_group_caps (read_gen_caps d)))))"

subsection \<open>The device and its address spaces\<close>

text \<open>The result is whether there is a device; the registers, what is held and the trace go on.\<close>

definition idxd_alloc :: "env \<Rightarrow> idxd_driver_data \<Rightarrow> idxd_device \<Rightarrow> bool \<times> idxd_device" where
  "idxd_alloc E data d =
     (let (rc, d) = acquire E (D IdxdStruct) d
      in if rc < 0 then (False, d)
         else
           let d = zero_device\<lparr>regs := regs d, held := held d, trace := trace d, drv_data := data\<rparr>;
               (rc, d) = acquire E (D IdxdId) d;
               d = d\<lparr>dev_id := rc\<rparr>
           in if rc < 0 then (False, d)
              else
                let (rc, d) = acquire E (D DevOpcap) d
                in if rc < 0 then (False, release (D IdxdId) d)
                   else
                     let d = hold (DevRef DevIdxd) d;
                         (rc, d) = ext E (Svc (SetName DevIdxd)) d
                     in if rc < 0 then (False, put_device DevIdxd d) else (True, d))"

definition idxd_enable_system_pasid :: "env \<Rightarrow> idxd_device \<Rightarrow> int \<times> idxd_device" where
  "idxd_enable_system_pasid E d =
     (let (domain, d) = ext E (Svc GetDomain) d
      in if domain < 0 then (- EPERM, d)
         else
           let (p, d) = acquire E (S SysPasid) d
           in if p < 0 then (- ENOSPC, d)
              else
                let (ret, d) = acquire E (S PasidAttach) d
                in if ret < 0 then (ret, release (S SysPasid) d)
                   else (0, (idxd_set_user_intr E True d)\<lparr>pasid := of_int p\<rparr>))"

definition idxd_disable_system_pasid :: "env \<Rightarrow> idxd_device \<Rightarrow> idxd_device" where
  "idxd_disable_system_pasid E d =
     (let (domain, d) = ext E (Svc GetDomain) d
      in if domain < 0 then d
         else (idxd_set_user_intr E False (release (S SysPasid) (release (S PasidAttach) d)))\<lparr>pasid := invalid_pasid E\<rparr>)"

definition idxd_enable_sva :: "env \<Rightarrow> idxd_device \<Rightarrow> int \<times> idxd_device" where
  "idxd_enable_sva E d =
     (let (ret, d) = acquire E (S Iopf) d
      in if ret < 0 then (ret, d)
         else
           let (ret, d) = acquire E (S SvaFeat) d
           in if ret < 0 then (ret, release (S Iopf) d) else (0, d))"

definition idxd_disable_sva :: "idxd_device \<Rightarrow> idxd_device" where
  "idxd_disable_sva d = release (S Iopf) (release (S SvaFeat) d)"

subsection \<open>Probe and removal\<close>

definition probe_sva :: "env \<Rightarrow> idxd_device \<Rightarrow> idxd_device" where
  "probe_sva E d =
     (if svm_configured E \<and> sva_wanted E
      then
        let (rc, d) = idxd_enable_sva E d
        in if rc \<noteq> 0 then d
           else
             let d = d\<lparr>dev_flags := set_bit IDXD_FLAG_USER_PASID_ENABLED (dev_flags d)\<rparr>;
                 (rc, d) = idxd_enable_system_pasid E d
             in if rc \<noteq> 0 then d else d\<lparr>dev_flags := set_bit IDXD_FLAG_PASID_ENABLED (dev_flags d)\<rparr>
      else d)"

definition unprobe_sva :: "env \<Rightarrow> idxd_device \<Rightarrow> idxd_device" where
  "unprobe_sva E d =
     (let d = (if device_pasid_enabled d then idxd_disable_system_pasid E d else d)
      in if device_user_pasid_enabled d then idxd_disable_sva d else d)"

definition idxd_probe :: "env \<Rightarrow> nat \<Rightarrow> nat list \<Rightarrow> perf_state \<Rightarrow> (int \<times> perf_state) option" where
  "idxd_probe E a online s =
     (let (rc, d) = idxd_device_init_reset E (pf_dev s)
      in if rc < 0 then Some (rc, s\<lparr>pf_dev := d\<rparr>)
         else
           let d = probe_sva E d;
               d = idxd_read_table_offsets (idxd_read_caps d);
               (rc, d) = idxd_setup_internals E d
           in if rc \<noteq> 0 then Some (rc, s\<lparr>pf_dev := unprobe_sva E d\<rparr>)
              else
                let (rc, d) = (if \<not> bit (dev_flags d) IDXD_FLAG_CONFIGURABLE then idxd_device_load_config d else (0, d))
                in if rc < 0 then Some (rc, s\<lparr>pf_dev := unprobe_sva E (idxd_cleanup_internals d)\<rparr>)
                   else
                     let (rc, d) = idxd_setup_interrupts E d
                     in if rc \<noteq> 0 then Some (rc, s\<lparr>pf_dev := unprobe_sva E (idxd_cleanup_internals d)\<rparr>)
                        else map_option (\<lambda>(rc, s). (0, s)) (perfmon_pmu_init E a online (s\<lparr>pf_dev := d\<rparr>)))"

definition idxd_cleanup :: "env \<Rightarrow> perf_state \<Rightarrow> perf_state" where
  "idxd_cleanup E s =
     on_pf_dev (\<lambda>d. unprobe_sva E (idxd_cleanup_internals (idxd_cleanup_interrupts E d))) (perfmon_pmu_remove s)"

definition idxd_pci_probe ::
  "env \<Rightarrow> nat \<Rightarrow> nat list \<Rightarrow> idxd_driver_data \<Rightarrow> perf_state \<Rightarrow> (int \<times> perf_state) option" where
  "idxd_pci_probe E a online data s =
     (let (rc, d) = acquire E (D PciDev) (pf_dev s)
      in if rc < 0 then Some (rc, s\<lparr>pf_dev := d\<rparr>)
         else
           let err_idxd_alloc = (\<lambda>rc s. (rc, on_pf_dev (release (D PciDev)) s));
               err_iomap = (\<lambda>rc s. err_idxd_alloc rc (on_pf_dev (put_device DevIdxd) s));
               err = (\<lambda>rc s. err_iomap rc (on_pf_dev (release (D Iomap)) s));
               (ok, d) = idxd_alloc E data d
           in if \<not> ok then Some (err_idxd_alloc (- ENOMEM) (s\<lparr>pf_dev := d\<rparr>))
              else
                let (rc, d) = acquire E (D Iomap) d
                in if rc < 0 then Some (err_iomap (- ENOMEM) (s\<lparr>pf_dev := d\<rparr>))
                   else
                     let (rc, d) = ext E (Svc SetDmaMask) d
                     in if rc \<noteq> 0 then Some (err rc (s\<lparr>pf_dev := d\<rparr>))
                        else
                          let d = d\<lparr>version := ioread32 IDXD_VER_OFFSET d\<rparr>
                          in case idxd_probe E a online (s\<lparr>pf_dev := d\<rparr>) of
                               None \<Rightarrow> None
                             | Some (rc, s) \<Rightarrow>
                                 if rc \<noteq> 0 then Some (err rc s)
                                 else case idxd_register_devices E (pf_dev s) of
                                   None \<Rightarrow> None
                                 | Some (rc, d) \<Rightarrow>
                                     if rc \<noteq> 0 then Some (err rc (idxd_cleanup E (s\<lparr>pf_dev := d\<rparr>)))
                                     else Some (0, s\<lparr>pf_dev := snd (idxd_device_init_debugfs E d)\<rparr>))"

definition idxd_shutdown :: "env \<Rightarrow> idxd_device \<Rightarrow> idxd_device" where
  "idxd_shutdown E d =
     (let d = snd (idxd_device_disable E d);
          d = notify SynchronizeIrq d;
          d = idxd_mask_error_interrupts E d
      in notify FlushWorkqueue d)"

text \<open>
  Unregistering the device runs the remove function of its driver, which is the argument \<open>detach\<close>
  (the identity when no driver is bound).
\<close>

definition idxd_remove :: "env \<Rightarrow> (idxd_device \<Rightarrow> idxd_device) \<Rightarrow> perf_state \<Rightarrow> perf_state" where
  "idxd_remove E detach s =
     (let d = idxd_unregister_devices (pf_dev s);
          d = hold (DevRef DevIdxd) d;
          d = device_unregister DevIdxd (detach d);
          d = idxd_shutdown E d;
          d = (if device_pasid_enabled d then idxd_disable_system_pasid E d else d);
          d = idxd_device_remove_debugfs d;
          d = release (D MiscIrq) d;
          d = release (D IrqVectors) d;
          d = release (D Iomap) d;
          d = (if device_user_pasid_enabled d then idxd_disable_sva d else d);
          d = release (D PciDev) d;
          d = release (D Workqueue) d
      in on_pf_dev (put_device DevIdxd) (perfmon_pmu_remove (s\<lparr>pf_dev := d\<rparr>)))"

subsection \<open>The module\<close>

text \<open>
  \<open>movdir64b\<close> is the CPU feature; the flag \<^const>\<open>support_enqcmd\<close> of the environment is the other one.
\<close>

definition idxd_init_module ::
  "env \<Rightarrow> (nat \<Rightarrow> idxd_device \<Rightarrow> idxd_device) \<Rightarrow> bool \<Rightarrow> bool \<Rightarrow> perf_state \<Rightarrow> int \<times> perf_state" where
  "idxd_init_module E rw movdir64b ready s =
     (if \<not> movdir64b then (- ENODEV, s)
      else
        let s = perfmon_init E s;
            err_user = idxd_driver_unregister idxd_dmaengine_drv;
            err_cdev = idxd_driver_unregister idxd_user_drv;
            out = (\<lambda>rc d. (rc, s\<lparr>pf_dev := d\<rparr>));
            un_idxd = idxd_driver_unregister (idxd_drv rw);
            (err, d) = idxd_driver_register E (idxd_drv rw) (pf_dev s)
        in if err < 0 then out err d
           else
             let (err, d) = idxd_driver_register E idxd_dmaengine_drv d
             in if err < 0 then out err (un_idxd d)
                else
                  let (err, d) = idxd_driver_register E idxd_user_drv d
                  in if err < 0 then out err (un_idxd (err_user d))
                     else
                       let (err, d) = idxd_cdev_register E d
                       in if err \<noteq> 0 then out err (un_idxd (err_user (err_cdev d)))
                          else
                            let (err, d) = idxd_init_debugfs E ready d
                            in if err \<noteq> 0 then out err (un_idxd (err_user (err_cdev (idxd_cdev_remove d))))
                               else
                                 let (err, d) = acquire E (M PciDriver) d
                                 in if err < 0
                                    then out err (un_idxd (err_user (err_cdev (idxd_cdev_remove (idxd_remove_debugfs d)))))
                                    else out 0 d)"

definition idxd_exit_module :: "(nat \<Rightarrow> idxd_device \<Rightarrow> idxd_device) \<Rightarrow> perf_state \<Rightarrow> perf_state" where
  "idxd_exit_module rw s =
     (let d = idxd_driver_unregister idxd_user_drv (pf_dev s);
          d = idxd_driver_unregister idxd_dmaengine_drv d;
          d = idxd_driver_unregister (idxd_drv rw) d;
          d = release (M PciDriver) d;
          d = idxd_cdev_remove d
      in on_pf_dev idxd_remove_debugfs (perfmon_exit (s\<lparr>pf_dev := d\<rparr>)))"

subsection \<open>Arrays of devices\<close>

text \<open>
  What the three loops rely on. \<open>X k\<close> are the resources of member \<open>k\<close>, \<open>P n d\<close> says that the first
  \<open>n\<close> members are in the array and \<open>fr\<close> is the part of the device a member's functions leave alone.
\<close>

locale conf_array =
  fixes one :: "nat \<Rightarrow> idxd_device \<Rightarrow> int \<times> idxd_device"
    and c :: "nat \<Rightarrow> conf_dev"
    and X :: "nat \<Rightarrow> obj set"
    and P :: "nat \<Rightarrow> idxd_device \<Rightarrow> bool"
    and fr :: "idxd_device \<Rightarrow> idxd_device \<Rightarrow> bool"
  assumes fr_refl: "fr d d"
    and fr_trans: "fr d d' \<Longrightarrow> fr d' d'' \<Longrightarrow> fr d d''"
    and one_spec: "P i d \<Longrightarrow> held d (DevRef (c i)) = 0 \<Longrightarrow> one i d = (rc, d') \<Longrightarrow>
      fr d d' \<and> (if rc < 0 then P i d' \<and> held d' = held d else rc = 0 \<and> P (Suc i) d' \<and> held d' = addh (X i) (held d))"
    and put_spec: "P n d \<Longrightarrow> k < n \<Longrightarrow> held d (DevRef (c k)) = 1 \<Longrightarrow>
      fr d (put_device (c k) d) \<and> P n (put_device (c k) d) \<and> held (put_device (c k) d) = subh (X k) (held d)"
    and own: "DevRef (c k) \<in> X k"
    and apart: "j \<noteq> k \<Longrightarrow> X j \<inter> X k = {}"
begin

lemma apart_Un: "k \<notin> A \<Longrightarrow> (\<Union>j \<in> A. X j) \<inter> X k = {}"
proof (rule equals0I)
  fix x assume k: "k \<notin> A" and "x \<in> (\<Union>j \<in> A. X j) \<inter> X k"
  then obtain j where "j \<in> A" "x \<in> X j" "x \<in> X k" by auto
  moreover from this(1) k have "j \<noteq> k" by auto
  ultimately show False using apart [of j k] by auto
qed

lemma puts:
  assumes "P n d" "distinct ks" "set ks \<subseteq> {..<n}" "\<forall>k \<in> set ks. held d (DevRef (c k)) = 1"
  shows "fr d (fold (\<lambda>k. put_device (c k)) ks d) \<and> P n (fold (\<lambda>k. put_device (c k)) ks d) \<and>
    held (fold (\<lambda>k. put_device (c k)) ks d) = subh (\<Union>k \<in> set ks. X k) (held d)"
  using assms
proof (induction ks arbitrary: d)
  case Nil
  then show ?case by (simp add: fr_refl)
next
  case (Cons k ks)
  let ?d = "put_device (c k) d"
  have 1: "fr d ?d" "P n ?d" "held ?d = subh (X k) (held d)"
    using put_spec [of n d k] Cons.prems by auto
  have "\<forall>j \<in> set ks. held ?d (DevRef (c j)) = 1"
  proof
    fix j assume j: "j \<in> set ks"
    then have "j \<noteq> k" using Cons.prems(2) by auto
    then have "DevRef (c j) \<notin> X k" using apart [of j k] own [of j] by auto
    then show "held ?d (DevRef (c j)) = 1" using Cons.prems(4) j by (simp add: 1 subh_def)
  qed
  with Cons.IH [of ?d] 1(2) Cons.prems(2,3) have 2: "fr ?d (fold (\<lambda>k. put_device (c k)) ks ?d)"
    "P n (fold (\<lambda>k. put_device (c k)) ks ?d)"
    "held (fold (\<lambda>k. put_device (c k)) ks ?d) = subh (\<Union>k \<in> set ks. X k) (held ?d)"
    by auto
  have "(\<Union>k \<in> set ks. X k) \<inter> X k = {}" using Cons.prems(2) by (intro apart_Un) simp
  then have "subh (\<Union>k \<in> set ks. X k) (subh (X k) (held d)) = subh (\<Union>k \<in> set (k # ks). X k) (held d)"
    by (simp add: subh_subh Un_commute)
  with 1 2 fr_trans [OF 1(1) 2(1)] show ?case by simp
qed

lemma puts_all:
  assumes "P n d" "held d = addh (\<Union>k<n. X k) h" "\<forall>k. h (DevRef (c k)) = 0" "set ks = {..<n}" "distinct ks"
  shows "fr d (fold (\<lambda>k. put_device (c k)) ks d) \<and> P n (fold (\<lambda>k. put_device (c k)) ks d) \<and>
    held (fold (\<lambda>k. put_device (c k)) ks d) = h"
proof -
  have "\<forall>k \<in> set ks. held d (DevRef (c k)) = 1"
    using assms(2-4) own by (auto simp: addh_def)
  from puts [OF assms(1,5) _ this] assms(2,4) show ?thesis by (simp add: lessThan_def)
qed

lemma setup_loop_held:
  assumes "P i d" "i \<le> n" "held d = addh (\<Union>k<i. X k) h" "\<forall>k. h (DevRef (c k)) = 0"
    "setup_loop one c [i..<n] d = (rc, d')"
  shows "fr d d' \<and> (if rc < 0 then held d' = h else rc = 0 \<and> P n d' \<and> held d' = addh (\<Union>k<n. X k) h)"
  using assms
proof (induction "n - i" arbitrary: i d)
  case 0
  then show ?case by (simp add: fr_refl)
next
  case (Suc m)
  then have i: "i < n" "[i..<n] = i # [Suc i..<n]" by (simp_all add: upt_conv_Cons)
  obtain r d1 where o: "one i d = (r, d1)" by force
  have z: "held d (DevRef (c i)) = 0"
    using Suc.prems(3,4) apart_Un [of i "{..<i}"] own [of i] by (auto simp: addh_def)
  note sp = one_spec [OF Suc.prems(1) z o]
  show ?case
  proof (cases "r < 0")
    case True
    then have f: "P i d1" "held d1 = addh (\<Union>k<i. X k) h" "fr d d1" using sp Suc.prems(3) by auto
    have "d' = fold (\<lambda>k. put_device (c k)) (rev [0..<i]) d1" "rc = r"
      using Suc.prems(5) True unfolding i(2) by (simp_all add: o)
    with puts_all [OF f(1,2) Suc.prems(4), of "rev [0..<i]"] f(3) True show ?thesis
      by (auto simp: atLeast0LessThan intro: fr_trans)
  next
    case False
    then have f: "P (Suc i) d1" "fr d d1" "held d1 = addh (X i) (held d)" using sp by auto
    have "X i \<inter> (\<Union>k<i. X k) = {}" using apart_Un [of i "{..<i}"] by auto
    then have h: "held d1 = addh (\<Union>k<Suc i. X k) h"
      using f(3) Suc.prems(3) by (simp add: addh_addh lessThan_Suc)
    have "setup_loop one c [Suc i..<n] d1 = (rc, d')"
      using Suc.prems(5) False unfolding i(2) by (simp add: o)
    from Suc.hyps(1) [OF _ f(1) _ h Suc.prems(4) this] Suc.hyps(2) i(1) fr_trans [OF f(2)] show ?thesis by auto
  qed
qed

end

text \<open>The resources of a member of each array.\<close>

definition wq_objs :: "bool \<Rightarrow> nat \<Rightarrow> obj set" where
  "wq_objs opc i = {W i WqStruct, DevRef (DevWq i), W i Wqcfg} \<union> (if opc then {W i WqOpcap} else {})"

definition engine_objs :: "nat \<Rightarrow> obj set" where
  "engine_objs i = {D (EngineStruct i), DevRef (DevEngine i)}"

definition group_objs :: "nat \<Rightarrow> obj set" where
  "group_objs i = {D (GroupStruct i), DevRef (DevGroup i)}"

definition has_wqs :: "bool \<Rightarrow> nat \<Rightarrow> idxd_device \<Rightarrow> bool" where
  "has_wqs opc n d \<longleftrightarrow> map wq_id (wqs d) = [0..<n] \<and>
     (\<forall>w \<in> set (wqs d). wqcfg w \<noteq> [] \<and> (wq_opcap w \<noteq> None \<longleftrightarrow> opc) \<and>
        (\<forall>g. wq_group w = Some g \<longrightarrow> g < max_groups d)) \<and>
     (getf wq_cap_reg ''op_config'' (wq_cap d) \<noteq> 0 \<longleftrightarrow> opc) \<and> 4 \<le> unat (wqcfg_size d)"

definition has_engines :: "nat \<Rightarrow> idxd_device \<Rightarrow> bool" where
  "has_engines n d \<longleftrightarrow> map eng_id (engines d) = [0..<n] \<and> (\<forall>e \<in> set (engines d). \<forall>g. eng_group e = Some g \<longrightarrow> g < max_groups d)"

definition has_groups :: "nat \<Rightarrow> idxd_device \<Rightarrow> bool" where
  "has_groups n d \<longleftrightarrow> map grp_id (groups d) = [0..<n]"

definition fr_wqs :: "idxd_device \<Rightarrow> idxd_device \<Rightarrow> bool" where
  "fr_wqs d d' \<longleftrightarrow> d' = d\<lparr>held := held d', trace := trace d', wqs := wqs d'\<rparr>"

definition fr_engines :: "idxd_device \<Rightarrow> idxd_device \<Rightarrow> bool" where
  "fr_engines d d' \<longleftrightarrow> d' = d\<lparr>held := held d', trace := trace d', engines := engines d'\<rparr>"

definition fr_groups :: "idxd_device \<Rightarrow> idxd_device \<Rightarrow> bool" where
  "fr_groups d d' \<longleftrightarrow> d' = d\<lparr>held := held d', trace := trace d', groups := groups d'\<rparr>"

lemma fr_defs: "fr_wqs d d" "fr_engines d d" "fr_groups d d"
  "fr_wqs d d' \<Longrightarrow> fr_wqs d' d'' \<Longrightarrow> fr_wqs d d''" "fr_engines d d' \<Longrightarrow> fr_engines d' d'' \<Longrightarrow> fr_engines d d''"
  "fr_groups d d' \<Longrightarrow> fr_groups d' d'' \<Longrightarrow> fr_groups d d''"
proof -
  show "fr_wqs d d'" if "fr_wqs d e" "fr_wqs e d'" for d e d'
  proof -
    have "d' = e\<lparr>held := held d', trace := trace d', wqs := wqs d'\<rparr>" using that(2) by (simp add: fr_wqs_def)
    also have "\<dots> = d\<lparr>held := held d', trace := trace d', wqs := wqs d'\<rparr>"
      by (subst that(1) [unfolded fr_wqs_def]) simp
    finally show ?thesis by (simp add: fr_wqs_def)
  qed
  show "fr_engines d d'" if "fr_engines d e" "fr_engines e d'" for d e d'
  proof -
    have "d' = e\<lparr>held := held d', trace := trace d', engines := engines d'\<rparr>" using that(2) by (simp add: fr_engines_def)
    also have "\<dots> = d\<lparr>held := held d', trace := trace d', engines := engines d'\<rparr>"
      by (subst that(1) [unfolded fr_engines_def]) simp
    finally show ?thesis by (simp add: fr_engines_def)
  qed
  show "fr_groups d d'" if "fr_groups d e" "fr_groups e d'" for d e d'
  proof -
    have "d' = e\<lparr>held := held d', trace := trace d', groups := groups d'\<rparr>" using that(2) by (simp add: fr_groups_def)
    also have "\<dots> = d\<lparr>held := held d', trace := trace d', groups := groups d'\<rparr>"
      by (subst that(1) [unfolded fr_groups_def]) simp
    finally show ?thesis by (simp add: fr_groups_def)
  qed
qed (simp_all add: fr_wqs_def fr_engines_def fr_groups_def)

lemma fr_wqs_field: "fr_wqs d e \<Longrightarrow> (\<And>h t l. f (d\<lparr>held := h, trace := t, wqs := l\<rparr>) = f d) \<Longrightarrow> f e = f d"
proof -
  assume e: "fr_wqs d e" and f: "\<And>h t l. f (d\<lparr>held := h, trace := t, wqs := l\<rparr>) = f d"
  show "f e = f d" by (subst e [unfolded fr_wqs_def]) (rule f)
qed

lemma fr_wqsD:
  assumes "fr_wqs d e"
  shows "regs e = regs d" "drv_data e = drv_data d" "version e = version d" "gen_cap e = gen_cap d"
    "wq_cap e = wq_cap d" "wqcfg_size e = wqcfg_size d" "dev_flags e = dev_flags d"
    "max_wqs e = max_wqs d" "max_groups e = max_groups d" "max_engines e = max_engines d"
    "live_ptrs e = live_ptrs d" "dev_evl e = dev_evl d" "dev_pmu e = dev_pmu d"
    "dev_opcap e = dev_opcap d" "perfmon_offset e = perfmon_offset d"
    "max_rdbufs e = max_rdbufs d" "pasid e = pasid d" "dev_id e = dev_id d" "groups e = groups d"
    "engines e = engines d"
  by (rule fr_wqs_field [OF assms], simp)+

lemma fr_engines_field: "fr_engines d e \<Longrightarrow> (\<And>h t l. f (d\<lparr>held := h, trace := t, engines := l\<rparr>) = f d) \<Longrightarrow> f e = f d"
proof -
  assume e: "fr_engines d e" and f: "\<And>h t l. f (d\<lparr>held := h, trace := t, engines := l\<rparr>) = f d"
  show "f e = f d" by (subst e [unfolded fr_engines_def]) (rule f)
qed

lemma fr_enginesD:
  assumes "fr_engines d e"
  shows "regs e = regs d" "drv_data e = drv_data d" "version e = version d" "gen_cap e = gen_cap d"
    "wq_cap e = wq_cap d" "wqcfg_size e = wqcfg_size d" "dev_flags e = dev_flags d"
    "max_wqs e = max_wqs d" "max_groups e = max_groups d" "max_engines e = max_engines d"
    "live_ptrs e = live_ptrs d" "dev_evl e = dev_evl d" "dev_pmu e = dev_pmu d"
    "dev_opcap e = dev_opcap d" "perfmon_offset e = perfmon_offset d"
    "max_rdbufs e = max_rdbufs d" "pasid e = pasid d" "dev_id e = dev_id d" "groups e = groups d"
    "wqs e = wqs d"
  by (rule fr_engines_field [OF assms], simp)+

lemma fr_groups_field: "fr_groups d e \<Longrightarrow> (\<And>h t l. f (d\<lparr>held := h, trace := t, groups := l\<rparr>) = f d) \<Longrightarrow> f e = f d"
proof -
  assume e: "fr_groups d e" and f: "\<And>h t l. f (d\<lparr>held := h, trace := t, groups := l\<rparr>) = f d"
  show "f e = f d" by (subst e [unfolded fr_groups_def]) (rule f)
qed

lemma fr_groupsD:
  assumes "fr_groups d e"
  shows "regs e = regs d" "drv_data e = drv_data d" "version e = version d" "gen_cap e = gen_cap d"
    "wq_cap e = wq_cap d" "wqcfg_size e = wqcfg_size d" "dev_flags e = dev_flags d"
    "max_wqs e = max_wqs d" "max_groups e = max_groups d" "max_engines e = max_engines d"
    "live_ptrs e = live_ptrs d" "dev_evl e = dev_evl d" "dev_pmu e = dev_pmu d"
    "dev_opcap e = dev_opcap d" "perfmon_offset e = perfmon_offset d"
    "max_rdbufs e = max_rdbufs d" "pasid e = pasid d" "dev_id e = dev_id d" "wqs e = wqs d"
    "engines e = engines d"
  by (rule fr_groups_field [OF assms], simp)+

text \<open>An external call changes the trace and at most the count of its resource.\<close>

lemma acquire_cases:
  fixes d :: "'a machine_scheme"
  obtains (failed) r t where "acquire E x d = (r, d\<lparr>trace := t\<rparr>)" "r < 0"
  | (got) r t where "acquire E x d = (r, d\<lparr>held := addh {x} (held d), trace := t\<rparr>)" "\<not> r < 0"
proof (cases "ext_rc E (trace d) (Acq x) < 0")
  case True
  then show ?thesis by (intro failed) (auto simp: acquire_def ext_def Let_def)
next
  case False
  then have "acquire E x d = (ext_rc E (trace d) (Acq x),
      d\<lparr>held := addh {x} (held d), trace := (Acq x, ext_rc E (trace d) (Acq x)) # trace d\<rparr>)"
    by (auto simp: acquire_def ext_def Let_def addh_def fun_eq_iff intro!: machine.equality)
  then show ?thesis using False by (rule got)
qed

lemma ext_cases:
  fixes d :: "'a machine_scheme"
  obtains r t where "ext E q d = (r, d\<lparr>trace := t\<rparr>)"
  by (auto simp: ext_def Let_def)

lemma hold_upd: "hold x d = d\<lparr>held := addh {x} (held d)\<rparr>" for d :: "'a machine_scheme"
  by (auto simp: hold_def addh_def fun_eq_iff intro!: machine.equality)

lemma release_upd: "release x d = d\<lparr>held := subh {x} (held d), trace := (Rel x, 0) # trace d\<rparr>" for d :: "'a machine_scheme"
  by (auto simp: release_def subh_def fun_eq_iff intro!: machine.equality)

lemma frI [simp]:
  "fr_wqs d (d\<lparr>held := h, trace := t, wqs := w\<rparr>)" "fr_wqs d (d\<lparr>held := h, trace := t\<rparr>)" "fr_wqs d (d\<lparr>trace := t\<rparr>)"
  "fr_engines d (d\<lparr>held := h, trace := t, engines := e\<rparr>)" "fr_engines d (d\<lparr>held := h, trace := t\<rparr>)" "fr_engines d (d\<lparr>trace := t\<rparr>)"
  "fr_groups d (d\<lparr>held := h, trace := t, groups := g\<rparr>)" "fr_groups d (d\<lparr>held := h, trace := t\<rparr>)" "fr_groups d (d\<lparr>trace := t\<rparr>)"
  by (simp_all add: fr_wqs_def fr_engines_def fr_groups_def)

text \<open>Engines and groups.\<close>

lemma put_small:
  "held d (DevRef (DevEngine i)) = 1 \<Longrightarrow>
     put_device (DevEngine i) d = release (D (EngineStruct i)) (release (DevRef (DevEngine i)) d)"
  "held d (DevRef (DevGroup i)) = 1 \<Longrightarrow>
     put_device (DevGroup i) d = release (D (GroupStruct i)) (release (DevRef (DevGroup i)) d)"
  by (simp_all add: put_device_def Let_def subh_def conf_release_def idxd_conf_engine_release_def idxd_conf_group_release_def)

lemma engines_one:
  assumes "has_engines i d" "held d (DevRef (DevEngine i)) = 0" "setup_engine E i d = (rc, d')"
  shows "fr_engines d d' \<and> (if rc < 0 then has_engines i d' \<and> held d' = held d
    else rc = 0 \<and> has_engines (Suc i) d' \<and> held d' = addh (engine_objs i) (held d))"
proof (cases rule: acquire_cases [of E "D (EngineStruct i)" d])
  case (failed r t)
  then show ?thesis using assms(1,3) by (auto simp: setup_engine_def has_engines_def)
next
  case (got r t)
  define d1 where "d1 = d\<lparr>held := addh (engine_objs i) (held d), trace := t\<rparr>"
  have h: "hold (DevRef (DevEngine i)) (d\<lparr>held := addh {D (EngineStruct i)} (held d), trace := t\<rparr>) = d1"
    by (simp add: hold_upd d1_def addh_addh engine_objs_def insert_commute)
  obtain r2 t2 where e: "ext E (Svc (SetName (DevEngine i))) d1 = (r2, d1\<lparr>trace := t2\<rparr>)" by (rule ext_cases)
  have "held (d1\<lparr>trace := t2\<rparr>) (DevRef (DevEngine i)) = 1"
    using assms(2) by (simp add: d1_def engine_objs_def addh_def)
  note p = put_small(1) [OF this]
  show ?thesis
  proof (cases "r2 < 0")
    case True
    then have "d' = put_device (DevEngine i) (d1\<lparr>trace := t2\<rparr>)" "rc = r2"
      using assms(3) got by (auto simp: setup_engine_def Let_def h e)
    then show ?thesis using True assms(1) unfolding p
      by (simp add: release_upd d1_def subh_subh engine_objs_def has_engines_def insert_commute)
  next
    case False
    then have "d' = d1\<lparr>trace := t2, engines := engines d1 @ [zero_engine\<lparr>eng_id := i\<rparr>]\<rparr>" "rc = 0"
      using assms(3) got by (auto simp: setup_engine_def Let_def h e)
    then show ?thesis using assms(1) by (simp add: d1_def has_engines_def zero_engine_def)
  qed
qed

lemma groups_one:
  assumes "has_groups i d" "held d (DevRef (DevGroup i)) = 0" "setup_group E i d = (rc, d')"
  shows "fr_groups d d' \<and> (if rc < 0 then has_groups i d' \<and> held d' = held d
    else rc = 0 \<and> has_groups (Suc i) d' \<and> held d' = addh (group_objs i) (held d))"
proof (cases rule: acquire_cases [of E "D (GroupStruct i)" d])
  case (failed r t)
  then show ?thesis using assms(1,3) by (auto simp: setup_group_def has_groups_def)
next
  case (got r t)
  define d1 where "d1 = d\<lparr>held := addh (group_objs i) (held d), trace := t\<rparr>"
  have h: "hold (DevRef (DevGroup i)) (d\<lparr>held := addh {D (GroupStruct i)} (held d), trace := t\<rparr>) = d1"
    by (simp add: hold_upd d1_def addh_addh group_objs_def insert_commute)
  obtain r2 t2 where e: "ext E (Svc (SetName (DevGroup i))) d1 = (r2, d1\<lparr>trace := t2\<rparr>)" by (rule ext_cases)
  have "held (d1\<lparr>trace := t2\<rparr>) (DevRef (DevGroup i)) = 1"
    using assms(2) by (simp add: d1_def group_objs_def addh_def)
  note p = put_small(2) [OF this]
  show ?thesis
  proof (cases "r2 < 0")
    case True
    then have "d' = put_device (DevGroup i) (d1\<lparr>trace := t2\<rparr>)" "rc = r2"
      using assms(3) got by (auto simp: setup_group_def Let_def h e)
    then show ?thesis using True assms(1) unfolding p
      by (simp add: release_upd d1_def subh_subh group_objs_def has_groups_def insert_commute)
  next
    case False
    then obtain g where "d' = d1\<lparr>trace := t2, groups := groups d1 @ [g]\<rparr>" "rc = 0" "grp_id g = i"
      using assms(3) got by (auto simp: setup_group_def Let_def h e zero_group_def split: if_splits)
    then show ?thesis using assms(1) by (simp add: d1_def has_groups_def)
  qed
qed

lemma engines_put:
  assumes "has_engines n d" "k < n" "held d (DevRef (DevEngine k)) = 1"
  shows "fr_engines d (put_device (DevEngine k) d) \<and> has_engines n (put_device (DevEngine k) d) \<and>
    held (put_device (DevEngine k) d) = subh (engine_objs k) (held d)"
  using assms(1) unfolding put_small(1) [OF assms(3)] by (simp add: release_upd has_engines_def subh_subh engine_objs_def insert_commute)

lemma groups_put:
  assumes "has_groups n d" "k < n" "held d (DevRef (DevGroup k)) = 1"
  shows "fr_groups d (put_device (DevGroup k) d) \<and> has_groups n (put_device (DevGroup k) d) \<and>
    held (put_device (DevGroup k) d) = subh (group_objs k) (held d)"
  using assms(1) unfolding put_small(2) [OF assms(3)] by (simp add: release_upd has_groups_def subh_subh group_objs_def insert_commute)

interpretation eng: conf_array "setup_engine E" DevEngine engine_objs has_engines fr_engines for E
  by (unfold_locales, rule fr_defs(2), erule (1) fr_defs(5), erule (2) engines_one, erule (2) engines_put)
    (simp_all add: engine_objs_def)

interpretation grp: conf_array "setup_group E" DevGroup group_objs has_groups fr_groups for E
  by (unfold_locales, rule fr_defs(3), erule (1) fr_defs(6), erule (2) groups_one, erule (2) groups_put)
    (simp_all add: group_objs_def)

text \<open>Queues, whose release function frees what the queue has so far.\<close>

definition wq_has :: "idxd_wq \<Rightarrow> nat \<Rightarrow> obj set" where
  "wq_has w i = {W i WqStruct, DevRef (DevWq i)} \<union> (if wqcfg w = [] then {} else {W i Wqcfg}) \<union>
     (if wq_opcap w = None then {} else {W i WqOpcap})"

lemma fr_wqs_step:
  "fr_wqs d e \<Longrightarrow> fr_wqs d (release x e)" "fr_wqs d e \<Longrightarrow> fr_wqs d (hold x e)" "fr_wqs d e \<Longrightarrow> fr_wqs d (upd_wq i f e)"
  "fr_wqs d e \<Longrightarrow> fr_wqs d (e\<lparr>trace := t\<rparr>)" "fr_wqs d e \<Longrightarrow> fr_wqs d (e\<lparr>held := h, trace := t\<rparr>)"
  "fr_wqs d e \<Longrightarrow> fr_wqs d (e\<lparr>wqs := w\<rparr>)"
proof -
  assume e: "fr_wqs d e"
  show "fr_wqs d (release x e)" by (rule fr_defs(4) [OF e]) (simp add: release_upd)
  show "fr_wqs d (hold x e)" by (rule fr_defs(4) [OF e]) (simp add: hold_upd fr_wqs_def)
  show "fr_wqs d (upd_wq i f e)" by (rule fr_defs(4) [OF e]) (simp add: upd_wq_def fr_wqs_def)
  show "fr_wqs d (e\<lparr>trace := t\<rparr>)" "fr_wqs d (e\<lparr>held := h, trace := t\<rparr>)" by (rule fr_defs(4) [OF e], simp)+
  show "fr_wqs d (e\<lparr>wqs := w\<rparr>)" by (rule fr_defs(4) [OF e]) (simp add: fr_wqs_def)
qed

lemma put_wq:
  assumes "held d (DevRef (DevWq i)) = 1"
  shows "held (put_device (DevWq i) d) = subh (wq_has (wqs d ! i) i) (held d)"
    "wqs (put_device (DevWq i) d) = list_upd i (\<lambda>w. w\<lparr>upasid_xa := (\<lambda>_. None)\<rparr>) (wqs d)"
    "fr_wqs d (put_device (DevWq i) d)"
proof -
  have p: "put_device (DevWq i) d = idxd_conf_wq_release i (release (DevRef (DevWq i)) d)"
    using assms by (simp add: put_device_def Let_def subh_def conf_release_def)
  show "held (put_device (DevWq i) d) = subh (wq_has (wqs d ! i) i) (held d)"
    unfolding p by (auto simp: idxd_conf_wq_release_def Let_def wq_has_def upd_wq_def subh_subh insert_commute)
  show "wqs (put_device (DevWq i) d) = list_upd i (\<lambda>w. w\<lparr>upasid_xa := (\<lambda>_. None)\<rparr>) (wqs d)"
    unfolding p by (auto simp: idxd_conf_wq_release_def Let_def upd_wq_def)
  show "fr_wqs d (put_device (DevWq i) d)"
    unfolding p by (auto simp: idxd_conf_wq_release_def Let_def intro!: fr_wqs_step fr_defs)
qed

text \<open>Putting a queue that is not in the array yet.\<close>

lemma drop_wq:
  assumes "held d (DevRef (DevWq i)) = 1" "length (wqs d) = i"
  shows "held ((put_device (DevWq i) (d\<lparr>wqs := wqs d @ [w]\<rparr>))\<lparr>wqs := wqs d\<rparr>) = subh (wq_has w i) (held d)"
    "fr_wqs d ((put_device (DevWq i) (d\<lparr>wqs := wqs d @ [w]\<rparr>))\<lparr>wqs := wqs d\<rparr>)"
proof -
  have h: "held (d\<lparr>wqs := wqs d @ [w]\<rparr>) (DevRef (DevWq i)) = 1" using assms(1) by simp
  show "held ((put_device (DevWq i) (d\<lparr>wqs := wqs d @ [w]\<rparr>))\<lparr>wqs := wqs d\<rparr>) = subh (wq_has w i) (held d)"
    using put_wq(1) [OF h] assms(2) by (auto simp: nth_append)
  show "fr_wqs d ((put_device (DevWq i) (d\<lparr>wqs := wqs d @ [w]\<rparr>))\<lparr>wqs := wqs d\<rparr>)"
    by (intro fr_wqs_step fr_defs(4) [OF _ put_wq(3) [OF h]] fr_defs(1))
qed

lemma wqs_put:
  assumes "has_wqs opc n d" "k < n" "held d (DevRef (DevWq k)) = 1"
  shows "fr_wqs d (put_device (DevWq k) d) \<and> has_wqs opc n (put_device (DevWq k) d) \<and>
    held (put_device (DevWq k) d) = subh (wq_objs opc k) (held d)"
proof -
  have l: "length (wqs d) = n" using assms(1) by (metis diff_zero has_wqs_def length_map length_upt)
  then have k: "wqs d ! k \<in> set (wqs d)" using assms(2) by simp
  then have "wq_has (wqs d ! k) k = wq_objs opc k"
    using assms(1) by (auto simp: has_wqs_def wq_has_def wq_objs_def)
  moreover have "has_wqs opc n (put_device (DevWq k) d)"
  proof -
    note f = fr_wqsD [OF put_wq(3) [OF assms(3)]]
    show ?thesis using assms(1) put_wq(2) [OF assms(3)] f
      by (auto simp: has_wqs_def elim!: set_list_upd)
  qed
  ultimately show ?thesis using put_wq [OF assms(3)] by simp
qed

lemma wqs_one:
  assumes "has_wqs opc i d" "held d (DevRef (DevWq i)) = 0" "setup_wq E i d = (rc, d')"
  shows "fr_wqs d d' \<and> (if rc < 0 then has_wqs opc i d' \<and> held d' = held d
    else rc = 0 \<and> has_wqs opc (Suc i) d' \<and> held d' = addh (wq_objs opc i) (held d))"
proof -
  have l: "length (wqs d) = i" using assms(1) by (metis diff_zero has_wqs_def length_map length_upt)
  have dropped: ?thesis
    if "d' = (put_device (DevWq i) (e\<lparr>wqs := wqs e @ [w]\<rparr>))\<lparr>wqs := wqs e\<rparr>" "fr_wqs d e" "wqs e = wqs d" "rc < 0"
      "held e = addh (wq_has w i) (held d)" for e w
  proof -
    have "held e (DevRef (DevWq i)) = 1" using assms(2) that(5) by (simp add: addh_def wq_has_def)
    note p = drop_wq [OF this, of w] that(3) l
    have "fr_wqs d d'" "held d' = held d" "wqs d' = wqs d"
      using p that fr_defs(4) [OF that(2)] by (simp_all add: that(5))
    then show ?thesis using that(4) assms(1) fr_wqsD [OF \<open>fr_wqs d d'\<close>] by (simp add: has_wqs_def)
  qed
  define w1 where "w1 = zero_wq\<lparr>wq_id := i\<rparr>"
  define w3 where "w3 = (idxd_wq_set_max_batch_size (drv_type (drv_data d)) WQ_DEFAULT_MAX_BATCH (w1\<lparr>max_xfer_bytes := WQ_DEFAULT_MAX_XFER\<rparr>))
     \<lparr>enqcmds_retries := IDXD_ENQCMDS_RETRIES\<rparr>"
  define w4 where "w4 = w3\<lparr>wqcfg := replicate (unat (wqcfg_size d) div 4) 0\<rparr>"
  have w3: "wqcfg w3 = []" "wq_opcap w3 = None" "wq_id w3 = i" "wq_group w3 = None"
    by (simp_all add: w3_def w1_def zero_wq_def idxd_wq_set_max_batch_size_def)
  have w4: "wqcfg w4 \<noteq> []" "wq_opcap w4 = None" "wq_id w4 = i" "wq_group w4 = None"
    using w3 assms(1) by (auto simp: w4_def has_wqs_def div_greater_zero_iff)
  have has1: "wq_has w1 i = {W i WqStruct, DevRef (DevWq i)}" "wq_has w3 i = {W i WqStruct, DevRef (DevWq i)}"
    "wq_has w4 i = {W i Wqcfg, W i WqStruct, DevRef (DevWq i)}"
    using w3 w4 by (auto simp: wq_has_def w1_def zero_wq_def)
  have opc: "getf wq_cap_reg ''op_config'' (wq_cap d) \<noteq> 0 \<longleftrightarrow> opc" using assms(1) by (simp add: has_wqs_def)
  show ?thesis
  proof (cases rule: acquire_cases [of E "W i WqStruct" d])
    case (failed r t)
    then show ?thesis using assms(1,3) by (auto simp: setup_wq_def has_wqs_def)
  next
    case 1: (got r t)
    define e1 where "e1 = d\<lparr>held := addh (wq_has w1 i) (held d), trace := t\<rparr>"
    have h: "hold (DevRef (DevWq i)) (d\<lparr>held := addh {W i WqStruct} (held d), trace := t\<rparr>) = e1"
      by (simp add: hold_upd e1_def has1 addh_addh insert_commute)
    have f1: "drv_data e1 = drv_data d" "wqcfg_size e1 = wqcfg_size d" "wq_cap e1 = wq_cap d" by (simp_all add: e1_def)
    obtain r2 t2 where 2: "ext E (Svc (SetName (DevWq i))) e1 = (r2, e1\<lparr>trace := t2\<rparr>)" by (rule ext_cases)
    show ?thesis
    proof (cases "r2 < 0")
      case True
      then have "d' = put_device (DevWq i) (e1\<lparr>trace := t2, wqs := wqs (e1\<lparr>trace := t2\<rparr>) @ [w1]\<rparr>)
          \<lparr>wqs := wqs (e1\<lparr>trace := t2\<rparr>)\<rparr>" "rc = r2"
        using assms(3) 1 by (auto simp: setup_wq_def Let_def h 2 w1_def [symmetric])
      from dropped [OF this(1)] this(2) True show ?thesis by (simp add: e1_def)
    next
      case n2: False
      show ?thesis
      proof (cases rule: acquire_cases [of E "W i Wqcfg" "e1\<lparr>trace := t2\<rparr>"])
        case (failed r t)
        then have "d' = put_device (DevWq i) (e1\<lparr>trace := t, wqs := wqs (e1\<lparr>trace := t\<rparr>) @ [w3]\<rparr>)
            \<lparr>wqs := wqs (e1\<lparr>trace := t\<rparr>)\<rparr>" "rc < 0"
          using assms(3) 1 n2 f1 by (auto simp: setup_wq_def Let_def h 2 w1_def [symmetric] w3_def)
        from dropped [OF this(1)] this(2) show ?thesis by (simp add: e1_def has1)
      next
        case 3: (got r3 t3)
        define e4 where "e4 = d\<lparr>held := addh (wq_has w4 i) (held d), trace := t3\<rparr>"
        have e4: "e1\<lparr>trace := t2, held := addh {W i Wqcfg} (held (e1\<lparr>trace := t2\<rparr>)), trace := t3\<rparr> = e4"
          by (simp add: e1_def e4_def has1 addh_addh insert_commute)
        have f4: "wqcfg_size e4 = wqcfg_size d" "wq_cap e4 = wq_cap d" by (simp_all add: e4_def)
        have up: "setup_wq E i d =
          (if getf wq_cap_reg ''op_config'' (wq_cap d) \<noteq> 0
           then case acquire E (W i WqOpcap) e4 of (rc, e) \<Rightarrow>
             if rc < 0 then (- ENOMEM, (put_device (DevWq i) (e\<lparr>wqs := wqs e @ [w4]\<rparr>))\<lparr>wqs := wqs e\<rparr>)
             else (0, e\<lparr>wqs := wqs e @ [w4\<lparr>wq_opcap := Some (dev_opcap e)\<rparr>]\<rparr>)
           else (0, e4\<lparr>wqs := wqs e4 @ [w4]\<rparr>))"
          using 1 n2 3 e4 f1 f4
          by (cases "acquire E (W i WqOpcap) e4")
            (simp add: setup_wq_def Let_def h 2 w1_def [symmetric] w3_def [symmetric] w4_def)
        have whole: "fr_wqs d e" "has_wqs opc (Suc i) e" if "e = d\<lparr>held := h, trace := t, wqs := wqs d @ [w]\<rparr>"
          "wqcfg w \<noteq> []" "wq_opcap w \<noteq> None \<longleftrightarrow> opc" "wq_id w = i" "wq_group w = None" for e h t w
          using assms(1) that by (simp_all add: has_wqs_def)
        show ?thesis
        proof (cases opc)
          case False
          then have "d' = d\<lparr>held := addh (wq_objs opc i) (held d), trace := t3, wqs := wqs d @ [w4]\<rparr>" "rc = 0"
            using assms(3) opc unfolding up by (simp_all add: e4_def has1 wq_objs_def insert_commute)
          with whole [OF this(1)] w4 False show ?thesis by simp
        next
          case True
          show ?thesis
          proof (cases rule: acquire_cases [of E "W i WqOpcap" e4])
            case (failed r t)
            then have "d' = put_device (DevWq i) (e4\<lparr>trace := t, wqs := wqs (e4\<lparr>trace := t\<rparr>) @ [w4]\<rparr>)
                \<lparr>wqs := wqs (e4\<lparr>trace := t\<rparr>)\<rparr>" "rc < 0"
              using assms(3) opc True by (auto simp: up)
            from dropped [OF this(1)] this(2) show ?thesis by (simp add: e4_def)
          next
            case (got r t)
            then have "d' = d\<lparr>held := addh (wq_objs opc i) (held d), trace := t, wqs := wqs d @ [w4\<lparr>wq_opcap := Some (dev_opcap d)\<rparr>]\<rparr>"
              "rc = 0"
              using assms(3) opc True unfolding up by (simp_all add: e4_def has1 wq_objs_def insert_commute addh_addh)
            with whole [OF this(1)] w4 True show ?thesis by simp
          qed
        qed
      qed
    qed
  qed
qed

interpretation wqa: conf_array "setup_wq E" DevWq "wq_objs opc" "has_wqs opc" fr_wqs for E opc
  by (unfold_locales, rule fr_defs(1), erule (1) fr_defs(4), erule (2) wqs_one, erule (2) wqs_put)
    (auto simp: wq_objs_def)

subsection \<open>Setting up the arrays and the event log\<close>

definition opc :: "idxd_device \<Rightarrow> bool" where
  "opc d \<longleftrightarrow> getf wq_cap_reg ''op_config'' (wq_cap d) \<noteq> 0"

definition has_evl :: "idxd_device \<Rightarrow> bool" where
  "has_evl d \<longleftrightarrow> getf gen_cap_reg ''evl_support'' (gen_cap d) \<noteq> 0"

definition no_refs :: "(obj \<Rightarrow> int) \<Rightarrow> bool" where
  "no_refs h \<longleftrightarrow> (\<forall>k. h (DevRef (DevWq k)) = 0 \<and> h (DevRef (DevEngine k)) = 0 \<and> h (DevRef (DevGroup k)) = 0)"

definition wqs_held :: "idxd_device \<Rightarrow> (obj \<Rightarrow> int) \<Rightarrow> obj \<Rightarrow> int" where
  "wqs_held d = addh (\<Union>k<max_wqs d. wq_objs (opc d) k)"

definition engines_held :: "idxd_device \<Rightarrow> (obj \<Rightarrow> int) \<Rightarrow> obj \<Rightarrow> int" where
  "engines_held d = addh (\<Union>k<max_engines d. engine_objs k)"

definition groups_held :: "idxd_device \<Rightarrow> (obj \<Rightarrow> int) \<Rightarrow> obj \<Rightarrow> int" where
  "groups_held d = addh (\<Union>k<max_groups d. group_objs k)"

text \<open>What the setup and the put of the arrays leave alone.\<close>

definition same_hw :: "idxd_device \<Rightarrow> idxd_device \<Rightarrow> bool" where
  "same_hw d d' \<longleftrightarrow> regs d' = regs d \<and> drv_data d' = drv_data d \<and> version d' = version d \<and> gen_cap d' = gen_cap d \<and>
     wq_cap d' = wq_cap d \<and> wqcfg_size d' = wqcfg_size d \<and> dev_flags d' = dev_flags d \<and> max_wqs d' = max_wqs d \<and>
     max_groups d' = max_groups d \<and> max_engines d' = max_engines d \<and> dev_pmu d' = dev_pmu d \<and>
     perfmon_offset d' = perfmon_offset d \<and> max_rdbufs d' = max_rdbufs d"

lemma same_hw_trans: "same_hw d d' \<Longrightarrow> same_hw d' d'' \<Longrightarrow> same_hw d d''"
  by (simp add: same_hw_def)

lemma same_hw_fr: "fr_wqs d d' \<Longrightarrow> same_hw d d'" "fr_engines d d' \<Longrightarrow> same_hw d d'" "fr_groups d d' \<Longrightarrow> same_hw d d'"
  by (simp_all add: same_hw_def fr_wqsD fr_enginesD fr_groupsD)

lemma same_hw_views: "same_hw d d' \<Longrightarrow> opc d' = opc d \<and> has_evl d' = has_evl d \<and> wqs_held d' = wqs_held d \<and>
   engines_held d' = engines_held d \<and> groups_held d' = groups_held d"
  by (simp add: same_hw_def opc_def has_evl_def wqs_held_def engines_held_def groups_held_def)

lemma no_refs_add: "no_refs h \<Longrightarrow> no_refs (addh (D ` A) h)"
  "no_refs h \<Longrightarrow> (\<forall>k. h (DevRef (DevWq k)) = 0) \<and> (\<forall>k. h (DevRef (DevEngine k)) = 0) \<and> (\<forall>k. h (DevRef (DevGroup k)) = 0)"
  by (auto simp: no_refs_def addh_def)

text \<open>The pointers set so far when a step fails, and what the device then holds for them.\<close>

definition stopped :: "dev_res set \<Rightarrow> idxd_device \<Rightarrow> idxd_device \<Rightarrow> bool" where
  "stopped A d d' \<longleftrightarrow> (\<exists>L \<subseteq> A. live_ptrs d' = L \<union> live_ptrs d \<and> held d' = addh (D ` L) (held d))"

definition map_ok :: "env \<Rightarrow> bool" where
  "map_ok E \<longleftrightarrow> (\<forall>t. 0 \<le> ext_rc E t (Acq (D WqEnableMap)))"

lemma map_ok_acquire: "map_ok E \<Longrightarrow> \<not> fst (acquire E (D WqEnableMap) d) < 0"
  by (auto simp: map_ok_def acquire_def ext_def Let_def not_less)

lemma setup_wqs_spec:
  assumes "idxd_setup_wqs E d = (rc, d')" "map_ok E" "no_refs (held d)" "4 \<le> unat (wqcfg_size d)"
  shows "same_hw d d' \<and> engines d' = engines d \<and> groups d' = groups d \<and> dev_evl d' = dev_evl d \<and>
    (if rc < 0 then stopped {Wqs, WqEnableMap} d d'
     else rc = 0 \<and> has_wqs (opc d) (max_wqs d) d' \<and> live_ptrs d' = {Wqs, WqEnableMap} \<union> live_ptrs d \<and>
       held d' = wqs_held d (addh (D ` {Wqs, WqEnableMap}) (held d)))"
proof (cases rule: acquire_cases [of E "D Wqs" d])
  case (failed r t)
  then show ?thesis using assms(1)
    by (auto simp: idxd_setup_wqs_def same_hw_def stopped_def intro!: exI [of _ "{}"])
next
  case (got r t)
  let ?d1 = "d\<lparr>held := addh {D Wqs} (held d), trace := t, live_ptrs := insert Wqs (live_ptrs d), wqs := []\<rparr>"
  obtain r2 t2 where 2: "acquire E (D WqEnableMap) ?d1 = (r2, ?d1\<lparr>held := addh {D WqEnableMap} (held ?d1), trace := t2\<rparr>)" "\<not> r2 < 0"
    using map_ok_acquire [OF assms(2), of ?d1] by (cases rule: acquire_cases [of E "D WqEnableMap" ?d1]) auto
  define d2 where "d2 = d\<lparr>held := addh (D ` {Wqs, WqEnableMap}) (held d), trace := t2, live_ptrs := {Wqs, WqEnableMap} \<union> live_ptrs d,
      wqs := [], wq_enable_map := {}\<rparr>"
  have d2: "?d1\<lparr>held := addh {D WqEnableMap} (held ?d1), trace := t2, live_ptrs := insert WqEnableMap (live_ptrs ?d1), wq_enable_map := {}\<rparr> = d2"
    by (simp add: d2_def addh_addh insert_commute)
  have l: "setup_loop (setup_wq E) DevWq [0..<max_wqs d] d2 = (rc, d')"
    using assms(1) got 2 d2 by (simp add: idxd_setup_wqs_def Let_def)
  have h: "has_wqs (opc d) 0 d2" using assms(4) by (simp add: d2_def has_wqs_def opc_def)
  have z: "\<forall>k. held d2 (DevRef (DevWq k)) = 0" using assms(3) by (auto simp: d2_def no_refs_def addh_def)
  from wqa.setup_loop_held [OF h _ _ z l]
  have o: "fr_wqs d2 d'" "if rc < 0 then held d' = held d2
     else rc = 0 \<and> has_wqs (opc d) (max_wqs d) d' \<and> held d' = addh (\<Union>k<max_wqs d. wq_objs (opc d) k) (held d2)" by auto
  have "same_hw d d2" by (simp add: same_hw_def d2_def)
  then have s: "same_hw d d'" by (rule same_hw_trans) (rule same_hw_fr(1) [OF o(1)])
  show ?thesis
  proof (cases "rc < 0")
    case True
    then show ?thesis using s o fr_wqsD [OF o(1)]
      by (auto simp: d2_def stopped_def intro!: exI [of _ "{Wqs, WqEnableMap}"])
  next
    case False
    then show ?thesis using s o fr_wqsD [OF o(1)] by (simp add: d2_def wqs_held_def)
  qed
qed

lemma setup_engines_spec:
  assumes "idxd_setup_engines E d = (rc, d')" "no_refs (held d) \<or> (\<forall>k. held d (DevRef (DevEngine k)) = 0)"
  shows "same_hw d d' \<and> wqs d' = wqs d \<and> groups d' = groups d \<and> dev_evl d' = dev_evl d \<and>
    (if rc < 0 then stopped {Engines} d d'
     else rc = 0 \<and> has_engines (max_engines d) d' \<and> live_ptrs d' = {Engines} \<union> live_ptrs d \<and>
       held d' = engines_held d (addh (D ` {Engines}) (held d)))"
proof (cases rule: acquire_cases [of E "D Engines" d])
  case (failed r t)
  then show ?thesis using assms(1)
    by (auto simp: idxd_setup_engines_def same_hw_def stopped_def intro!: exI [of _ "{}"])
next
  case (got r t)
  define d2 where "d2 = d\<lparr>held := addh {D Engines} (held d), trace := t, live_ptrs := insert Engines (live_ptrs d), engines := []\<rparr>"
  have l: "setup_loop (setup_engine E) DevEngine [0..<max_engines d] d2 = (rc, d')"
    using assms(1) got by (simp add: idxd_setup_engines_def Let_def d2_def)
  have h: "has_engines 0 d2" by (simp add: d2_def has_engines_def)
  have z: "\<forall>k. held d2 (DevRef (DevEngine k)) = 0" using assms(2) by (auto simp: d2_def no_refs_def addh_def)
  from eng.setup_loop_held [OF h _ _ z l]
  have o: "fr_engines d2 d'" "if rc < 0 then held d' = held d2
     else rc = 0 \<and> has_engines (max_engines d) d' \<and> held d' = addh (\<Union>k<max_engines d. engine_objs k) (held d2)" by auto
  have "same_hw d d2" by (simp add: same_hw_def d2_def)
  then have s: "same_hw d d'" by (rule same_hw_trans) (rule same_hw_fr(2) [OF o(1)])
  show ?thesis
  proof (cases "rc < 0")
    case True
    then show ?thesis using s o fr_enginesD [OF o(1)]
      by (auto simp: d2_def stopped_def intro!: exI [of _ "{Engines}"])
  next
    case False
    then show ?thesis using s o fr_enginesD [OF o(1)] by (simp add: d2_def engines_held_def)
  qed
qed

lemma setup_groups_spec:
  assumes "idxd_setup_groups E d = (rc, d')" "\<forall>k. held d (DevRef (DevGroup k)) = 0"
  shows "same_hw d d' \<and> wqs d' = wqs d \<and> engines d' = engines d \<and> dev_evl d' = dev_evl d \<and>
    (if rc < 0 then stopped {Groups} d d'
     else rc = 0 \<and> has_groups (max_groups d) d' \<and> live_ptrs d' = {Groups} \<union> live_ptrs d \<and>
       held d' = groups_held d (addh (D ` {Groups}) (held d)))"
proof (cases rule: acquire_cases [of E "D Groups" d])
  case (failed r t)
  then show ?thesis using assms(1)
    by (auto simp: idxd_setup_groups_def same_hw_def stopped_def intro!: exI [of _ "{}"])
next
  case (got r t)
  define d2 where "d2 = d\<lparr>held := addh {D Groups} (held d), trace := t, live_ptrs := insert Groups (live_ptrs d), groups := []\<rparr>"
  have l: "setup_loop (setup_group E) DevGroup [0..<max_groups d] d2 = (rc, d')"
    using assms(1) got by (simp add: idxd_setup_groups_def Let_def d2_def)
  have h: "has_groups 0 d2" by (simp add: d2_def has_groups_def)
  have z: "\<forall>k. held d2 (DevRef (DevGroup k)) = 0" using assms(2) by (auto simp: d2_def addh_def)
  from grp.setup_loop_held [OF h _ _ z l]
  have o: "fr_groups d2 d'" "if rc < 0 then held d' = held d2
     else rc = 0 \<and> has_groups (max_groups d) d' \<and> held d' = addh (\<Union>k<max_groups d. group_objs k) (held d2)" by auto
  have "same_hw d d2" by (simp add: same_hw_def d2_def)
  then have s: "same_hw d d'" by (rule same_hw_trans) (rule same_hw_fr(3) [OF o(1)])
  show ?thesis
  proof (cases "rc < 0")
    case True
    then show ?thesis using s o fr_groupsD [OF o(1)]
      by (auto simp: d2_def stopped_def intro!: exI [of _ "{Groups}"])
  next
    case False
    then show ?thesis using s o fr_groupsD [OF o(1)] by (simp add: d2_def groups_held_def)
  qed
qed

lemma put_wqs_spec:
  assumes "has_wqs o' (max_wqs d) d" "held d = wqs_held d h" "\<forall>k. h (DevRef (DevWq k)) = 0"
  shows "held (put_wqs d) = h \<and> fr_wqs d (put_wqs d)"
proof -
  have "o' = opc d" using assms(1) by (simp add: has_wqs_def opc_def)
  then show ?thesis
    using wqa.puts_all [OF assms(1) _ assms(3), of "[0..<max_wqs d]"] assms(2)
    by (simp add: put_wqs_def wqs_held_def atLeast0LessThan)
qed

lemma put_engines_spec:
  assumes "has_engines (max_engines d) d" "held d = engines_held d h" "\<forall>k. h (DevRef (DevEngine k)) = 0"
  shows "held (put_engines d) = h \<and> fr_engines d (put_engines d)"
  using eng.puts_all [OF assms(1) _ assms(3), of "[0..<max_engines d]"] assms(2)
  by (simp add: put_engines_def engines_held_def atLeast0LessThan)

lemma put_groups_spec:
  assumes "has_groups (max_groups d) d" "held d = groups_held d h" "\<forall>k. h (DevRef (DevGroup k)) = 0"
  shows "held (put_groups d) = h \<and> fr_groups d (put_groups d)"
  using grp.puts_all [OF assms(1) _ assms(3), of "[0..<max_groups d]"] assms(2)
  by (simp add: put_groups_def groups_held_def atLeast0LessThan)

lemma held_commute:
  "addh A (wqs_held d h) = wqs_held d (addh A h)" "addh A (engines_held d h) = engines_held d (addh A h)"
  "addh A (groups_held d h) = groups_held d (addh A h)"
  "wqs_held d (engines_held d h) = engines_held d (wqs_held d h)" "wqs_held d (groups_held d h) = groups_held d (wqs_held d h)"
  "engines_held d (groups_held d h) = groups_held d (engines_held d h)"
  by (auto simp: wqs_held_def engines_held_def groups_held_def addh_def fun_eq_iff)

text \<open>Counts of references are those of the array they belong to.\<close>

lemma refs_held [simp]:
  "wqs_held d h (DevRef (DevEngine k)) = h (DevRef (DevEngine k))" "wqs_held d h (DevRef (DevGroup k)) = h (DevRef (DevGroup k))"
  "engines_held d h (DevRef (DevWq k)) = h (DevRef (DevWq k))" "engines_held d h (DevRef (DevGroup k)) = h (DevRef (DevGroup k))"
  "groups_held d h (DevRef (DevWq k)) = h (DevRef (DevWq k))" "groups_held d h (DevRef (DevEngine k)) = h (DevRef (DevEngine k))"
  "addh (D ` A) h (DevRef c) = h (DevRef c)" "addh (insert (D r) B) h (DevRef c) = addh B h (DevRef c)"
  "wqs_held d h (D Wqs) = h (D Wqs)"
  by (auto simp: wqs_held_def engines_held_def groups_held_def addh_def wq_objs_def engine_objs_def group_objs_def)

definition evl_objs :: "idxd_device \<Rightarrow> obj set" where
  "evl_objs d = (if has_evl d then {D Evl, D EvlCache} else {})"

lemma init_evl_spec:
  assumes "idxd_init_evl E d = (rc, d')"
  shows "same_hw d d' \<and> wqs d' = wqs d \<and> engines d' = engines d \<and> groups d' = groups d \<and>
    (if rc < 0 then held d' = held d \<and> live_ptrs d' = live_ptrs d \<and> dev_evl d' = dev_evl d
     else rc = 0 \<and> held d' = addh (evl_objs d) (held d) \<and>
       live_ptrs d' = (if has_evl d then {EvlCache} else {}) \<union> live_ptrs d \<and>
       dev_evl d' = (if has_evl d then Some (zero_evl\<lparr>evl_size := IDXD_EVL_SIZE_MIN\<rparr>) else dev_evl d))"
proof (cases "has_evl d")
  case False
  then show ?thesis using assms by (auto simp: idxd_init_evl_def has_evl_def evl_objs_def same_hw_def)
next
  case e: True
  show ?thesis
  proof (cases rule: acquire_cases [of E "D Evl" d])
    case (failed r t)
    then show ?thesis using e assms by (auto simp: idxd_init_evl_def has_evl_def same_hw_def)
  next
    case 1: (got r t)
    let ?d1 = "d\<lparr>held := addh {D Evl} (held d), trace := t\<rparr>"
    show ?thesis
    proof (cases rule: acquire_cases [of E "D EvlCache" ?d1])
      case (failed r t)
      then show ?thesis using e assms 1 by (auto simp: idxd_init_evl_def has_evl_def same_hw_def)
    next
      case (got r t)
      then show ?thesis using e assms 1
        by (auto simp: idxd_init_evl_def has_evl_def same_hw_def evl_objs_def addh_addh insert_commute)
    qed
  qed
qed

definition arrays_held :: "idxd_device \<Rightarrow> (obj \<Rightarrow> int) \<Rightarrow> obj \<Rightarrow> int" where
  "arrays_held d h = groups_held d (engines_held d (wqs_held d (addh (D ` {Wqs, WqEnableMap, Engines, Groups}) h)))"

definition has_arrays :: "idxd_device \<Rightarrow> bool" where
  "has_arrays d \<longleftrightarrow> has_wqs (opc d) (max_wqs d) d \<and> has_engines (max_engines d) d \<and> has_groups (max_groups d) d"

lemma stopped_step:
  assumes "live_ptrs d1 = A \<union> live_ptrs d" "held d' = addh (D ` B) (addh (D ` A) (held d))" "live_ptrs d' = B \<union> live_ptrs d1"
    "A \<inter> B = {}" "A \<union> B \<subseteq> C"
  shows "stopped C d d'"
  unfolding stopped_def
proof (intro exI [of _ "A \<union> B"] conjI)
  have "D ` B \<inter> D ` A = {}" using assms(4) by auto
  then show "held d' = addh (D ` (A \<union> B)) (held d)" using assms(2) by (simp add: addh_addh image_Un Un_commute)
qed (use assms in auto)

lemma has_same:
  "same_hw d d' \<Longrightarrow> wqs d' = wqs d \<Longrightarrow> has_wqs b n d' = has_wqs b n d"
  "same_hw d d' \<Longrightarrow> engines d' = engines d \<Longrightarrow> has_engines n d' = has_engines n d"
  "groups d' = groups d \<Longrightarrow> has_groups n d' = has_groups n d"
  by (simp_all add: has_wqs_def same_hw_def has_engines_def has_groups_def)

lemma stopped_mono: "stopped A d d' \<Longrightarrow> A \<subseteq> B \<Longrightarrow> stopped B d d'"
  by (auto simp: stopped_def)

lemma put_two:
  assumes "has_engines (max_engines d) d" "has_wqs (opc d) (max_wqs d) d" "held d = engines_held d (wqs_held d h)"
    "\<forall>k. h (DevRef (DevWq k)) = 0" "\<forall>k. h (DevRef (DevEngine k)) = 0"
  shows "held (put_wqs (put_engines d)) = h \<and> same_hw d (put_wqs (put_engines d)) \<and>
    live_ptrs (put_wqs (put_engines d)) = live_ptrs d \<and> dev_evl (put_wqs (put_engines d)) = dev_evl d"
proof -
  let ?e = "put_engines d" let ?w = "put_wqs ?e"
  have e: "held ?e = wqs_held d h" "fr_engines d ?e"
    using put_engines_spec [OF assms(1,3)] assms(5) by simp_all
  note se = same_hw_fr(2) [OF e(2)]
  have "has_wqs (opc d) (max_wqs ?e) ?e"
    using assms(2) fr_enginesD [OF e(2)] by (simp add: has_wqs_def)
  moreover have "held ?e = wqs_held ?e h" using e(1) same_hw_views [OF se] by simp
  ultimately have w: "held ?w = h" "fr_wqs ?e ?w" using put_wqs_spec assms(4) by simp_all
  from w same_hw_trans [OF se same_hw_fr(1) [OF w(2)]] fr_enginesD [OF e(2)] fr_wqsD [OF w(2)]
  show ?thesis by simp
qed

lemma put_arrays:
  assumes "has_arrays d" "held d = groups_held d (engines_held d (wqs_held d h))"
    "\<forall>k. h (DevRef (DevWq k)) = 0" "\<forall>k. h (DevRef (DevEngine k)) = 0" "\<forall>k. h (DevRef (DevGroup k)) = 0"
  shows "held (put_wqs (put_engines (put_groups d))) = h \<and> same_hw d (put_wqs (put_engines (put_groups d))) \<and>
    live_ptrs (put_wqs (put_engines (put_groups d))) = live_ptrs d \<and> dev_evl (put_wqs (put_engines (put_groups d))) = dev_evl d"
proof -
  let ?g = "put_groups d"
  have g: "held ?g = engines_held d (wqs_held d h)" "fr_groups d ?g"
    using put_groups_spec [OF _ assms(2)] assms(1,5) by (simp_all add: has_arrays_def)
  note sg = same_hw_fr(3) [OF g(2)]
  have "has_engines (max_engines ?g) ?g" "has_wqs (opc ?g) (max_wqs ?g) ?g"
    using assms(1) fr_groupsD [OF g(2)] same_hw_views [OF sg] by (simp_all add: has_arrays_def has_engines_def has_wqs_def)
  moreover have "held ?g = engines_held ?g (wqs_held ?g h)" using g(1) same_hw_views [OF sg] by simp
  ultimately show ?thesis using put_two [of ?g h] assms(3,4) same_hw_trans [OF sg] fr_groupsD [OF g(2)] by simp
qed

lemma setup_internals_spec:
  assumes "idxd_setup_internals E d = (rc, d')" "map_ok E" "no_refs (held d)" "4 \<le> unat (wqcfg_size d)"
  shows "same_hw d d' \<and>
    (if rc < 0 then stopped {Wqs, WqEnableMap, Engines, Groups} d d' \<and> dev_evl d' = dev_evl d
     else rc = 0 \<and> has_arrays d' \<and>
       dev_evl d' = (if has_evl d then Some (zero_evl\<lparr>evl_size := IDXD_EVL_SIZE_MIN\<rparr>) else dev_evl d) \<and>
       live_ptrs d' = {Wqs, WqEnableMap, Engines, Groups} \<union> (if has_evl d then {EvlCache} else {}) \<union> live_ptrs d \<and>
       held d' = addh (evl_objs d) (addh {D Workqueue} (arrays_held d (held d))))"
proof -
  obtain r1 d1 where 1: "idxd_setup_wqs E d = (r1, d1)" by force
  note s1 = setup_wqs_spec [OF 1 assms(2-4)]
  note nr = no_refs_add(2) [OF assms(3)]
  show ?thesis
  proof (cases "r1 < 0")
    case True
    then have "rc = r1" "d' = d1" using assms(1) by (simp_all add: idxd_setup_internals_def 1)
    then show ?thesis using s1 True stopped_mono [of "{Wqs, WqEnableMap}" d d1 "{Wqs, WqEnableMap, Engines, Groups}"] by simp
  next
    case f1: False
    let ?h1 = "addh (D ` {Wqs, WqEnableMap}) (held d)"
    have w: "same_hw d d1" "has_wqs (opc d) (max_wqs d) d1" "live_ptrs d1 = {Wqs, WqEnableMap} \<union> live_ptrs d"
      "held d1 = wqs_held d ?h1" "dev_evl d1 = dev_evl d"
      using s1 f1 by auto
    obtain r2 d2 where 2: "idxd_setup_engines E d1 = (r2, d2)" by force
    have "\<forall>k. held d1 (DevRef (DevEngine k)) = 0" using nr by (simp add: w(4))
    note s2 = setup_engines_spec [OF 2 disjI2 [OF this]]
    then have h2: "same_hw d d2" "wqs d2 = wqs d1" "dev_evl d2 = dev_evl d" using w by (auto intro: same_hw_trans)
    have hw2: "has_wqs (opc d) (max_wqs d2) d2" using s2 w h2 has_same(1) [of d1 d2] by (auto simp: same_hw_def)
    show ?thesis
    proof (cases "r2 < 0")
      case True
      then obtain L where L: "L \<subseteq> {Engines}" "live_ptrs d2 = L \<union> live_ptrs d1" "held d2 = addh (D ` L) (held d1)"
        using s2 by (auto simp: stopped_def)
      have "held d2 = wqs_held d2 (addh (D ` L) ?h1)" using L(3) w(4) same_hw_views [OF h2(1)] by (simp add: held_commute)
      from put_wqs_spec [OF hw2 this] nr have p: "held (put_wqs d2) = addh (D ` L) ?h1" "fr_wqs d2 (put_wqs d2)" by simp_all
      have "stopped {Wqs, WqEnableMap, Engines, Groups} d (put_wqs d2)"
        by (rule stopped_step [OF w(3), of _ L]) (use p L fr_wqsD [OF p(2)] w(3) in auto)
      moreover have "rc = r2" "d' = put_wqs d2" using assms(1) f1 True by (auto simp: idxd_setup_internals_def 1 2)
      ultimately show ?thesis using True same_hw_trans [OF h2(1) same_hw_fr(1) [OF p(2)]] fr_wqsD [OF p(2)] h2(3) by simp
    next
      case f2: False
      let ?h2 = "addh (D ` {Engines}) ?h1"
      have e: "has_engines (max_engines d) d2" "live_ptrs d2 = {Engines} \<union> live_ptrs d1"
        "held d2 = engines_held d (wqs_held d ?h2)"
        using s2 f2 w same_hw_views [OF w(1)] by (auto simp: held_commute same_hw_def)
      obtain r3 d3 where 3: "idxd_setup_groups E d2 = (r3, d3)" by force
      have "\<forall>k. held d2 (DevRef (DevGroup k)) = 0" using nr by (simp add: e(3))
      note s3 = setup_groups_spec [OF 3 this]
      then have h3: "same_hw d d3" "wqs d3 = wqs d2" "engines d3 = engines d2" "dev_evl d3 = dev_evl d"
        using h2 by (auto intro: same_hw_trans)
      have hw3: "has_wqs (opc d) (max_wqs d3) d3" "has_engines (max_engines d3) d3"
        using hw2 s3 h2 h3 e(1) has_same(1) [of d2 d3] by (auto simp: same_hw_def has_engines_def)
      note v3 = same_hw_views [OF h3(1)]
      show ?thesis
      proof (cases "r3 < 0")
        case True
        then obtain L where L: "L \<subseteq> {Groups}" "live_ptrs d3 = L \<union> live_ptrs d2" "held d3 = addh (D ` L) (held d2)"
          using s3 by (auto simp: stopped_def)
        have "held d3 = engines_held d3 (wqs_held d3 (addh (D ` L) ?h2))" using L(3) e(3) v3 by (simp add: held_commute)
        moreover have "has_wqs (opc d3) (max_wqs d3) d3" using hw3(1) v3 by simp
        ultimately have p: "held (put_wqs (put_engines d3)) = addh (D ` L) ?h2" "same_hw d3 (put_wqs (put_engines d3))"
          "live_ptrs (put_wqs (put_engines d3)) = live_ptrs d3" "dev_evl (put_wqs (put_engines d3)) = dev_evl d3"
          using put_two [OF hw3(2)] nr by simp_all
        have l2: "live_ptrs d2 = {Wqs, WqEnableMap, Engines} \<union> live_ptrs d" using e(2) w(3) by auto
        have q2: "?h2 = addh (D ` {Wqs, WqEnableMap, Engines}) (held d)" by (simp add: addh_addh insert_commute)
        have "stopped {Wqs, WqEnableMap, Engines, Groups} d (put_wqs (put_engines d3))"
          by (rule stopped_step [OF l2, of _ L]) (use p L q2 in auto)
        moreover have "rc = r3" "d' = put_wqs (put_engines d3)"
          using assms(1) f1 f2 True by (auto simp: idxd_setup_internals_def 1 2 3)
        ultimately show ?thesis using True same_hw_trans [OF h3(1) p(2)] p(4) h3(4) by simp
      next
        case f3: False
        let ?h3 = "addh (D ` {Wqs, WqEnableMap, Engines, Groups}) (held d)"
        have q3: "addh (D ` {Groups}) ?h2 = ?h3" by (simp add: addh_addh insert_commute)
        have g: "has_arrays d3" "live_ptrs d3 = {Wqs, WqEnableMap, Engines, Groups} \<union> live_ptrs d"
          "held d3 = arrays_held d (held d)"
        proof -
          have a: "has_groups (max_groups d2) d3" "live_ptrs d3 = {Groups} \<union> live_ptrs d2"
            "held d3 = groups_held d2 (addh (D ` {Groups}) (held d2))" "max_groups d3 = max_groups d2"
            using s3 f3 by (simp_all add: same_hw_def)
          show "has_arrays d3" using hw3 a(1,4) v3 by (simp add: has_arrays_def)
          show "live_ptrs d3 = {Wqs, WqEnableMap, Engines, Groups} \<union> live_ptrs d" using a(2) e(2) w(3) by auto
          have "groups_held d2 = groups_held d" using same_hw_views [OF h2(1)] by simp
          then show "held d3 = arrays_held d (held d)"
            unfolding a(3) e(3) arrays_held_def q3 [symmetric] held_commute by simp
        qed
        have undo: "stopped {Wqs, WqEnableMap, Engines, Groups} d (put_wqs (put_engines (put_groups x)))"
          "same_hw d (put_wqs (put_engines (put_groups x)))" "dev_evl (put_wqs (put_engines (put_groups x))) = dev_evl d"
          if x: "same_hw d3 x" "wqs x = wqs d3" "engines x = engines d3" "groups x = groups d3" "held x = held d3"
            "live_ptrs x = live_ptrs d3" "dev_evl x = dev_evl d3" for x
        proof -
          note sx = same_hw_trans [OF h3(1) x(1)]
          have "has_arrays x" using g(1) x has_same(1) [of d3 x] same_hw_views [OF x(1)]
            by (simp add: has_arrays_def has_engines_def has_groups_def same_hw_def)
          moreover have "held x = groups_held x (engines_held x (wqs_held x ?h3))"
            using g(3) x(5) same_hw_views [OF sx] by (simp add: arrays_held_def)
          ultimately have p: "held (put_wqs (put_engines (put_groups x))) = ?h3" "same_hw x (put_wqs (put_engines (put_groups x)))"
            "live_ptrs (put_wqs (put_engines (put_groups x))) = live_ptrs x" "dev_evl (put_wqs (put_engines (put_groups x))) = dev_evl x"
            using put_arrays [of x ?h3] nr by simp_all
          show "stopped {Wqs, WqEnableMap, Engines, Groups} d (put_wqs (put_engines (put_groups x)))"
            unfolding stopped_def
            by (intro exI [of _ "{Wqs, WqEnableMap, Engines, Groups}"] conjI) (use p(1,3) x(6) g(2) in simp_all)
          show "same_hw d (put_wqs (put_engines (put_groups x)))" by (rule same_hw_trans [OF sx p(2)])
          show "dev_evl (put_wqs (put_engines (put_groups x))) = dev_evl d" using p(4) x(7) h3(4) by simp
        qed
        show ?thesis
        proof (cases rule: acquire_cases [of E "D Workqueue" d3])
          case (failed r t)
          then have "rc = - ENOMEM" "d' = put_wqs (put_engines (put_groups (d3\<lparr>trace := t\<rparr>)))"
            using assms(1) f1 f2 f3 by (simp_all add: idxd_setup_internals_def 1 2 3)
          then show ?thesis using undo [of "d3\<lparr>trace := t\<rparr>"] by (simp add: same_hw_def)
        next
          case (got r t)
          define d4 where "d4 = d3\<lparr>held := addh {D Workqueue} (held d3), trace := t\<rparr>"
          obtain r5 d5 where 5: "idxd_init_evl E d4 = (r5, d5)" by force
          note s5 = init_evl_spec [OF 5]
          have h4: "same_hw d3 d4" by (simp add: same_hw_def d4_def)
          note h5 = same_hw_trans [OF h4 conjunct1 [OF s5]]
          show ?thesis
          proof (cases "r5 < 0")
            case True
            then have "rc = r5" "d' = put_wqs (put_engines (put_groups (release (D Workqueue) d5)))"
              using assms(1) f1 f2 f3 got by (simp_all add: idxd_setup_internals_def 1 2 3 d4_def [symmetric] 5)
            moreover have "same_hw d3 (release (D Workqueue) d5)" using h5 by (simp add: same_hw_def)
            ultimately show ?thesis using undo [of "release (D Workqueue) d5"] s5 True
              by (simp add: d4_def)
          next
            case False
            then have "rc = 0" "d' = d5"
              using assms(1) f1 f2 f3 got by (simp_all add: idxd_setup_internals_def 1 2 3 d4_def [symmetric] 5)
            moreover have "has_arrays d5" using g(1) s5 has_same(1) [of d3 d5] same_hw_views [OF h5] h5
              by (simp add: has_arrays_def has_engines_def has_groups_def d4_def same_hw_def)
            moreover have "has_evl d4 = has_evl d" using same_hw_views [OF same_hw_trans [OF h3(1) h4]] by simp
            ultimately show ?thesis using s5 False g(2,3) h3(4) same_hw_trans [OF h3(1) h5]
              by (auto simp: d4_def evl_objs_def)
          qed
        qed
      qed
    qed
  qed
qed

end
