(* ===== verification/Probe.thy ===== *)
theory Probe
  imports Init
begin

text \<open>
  What probing and removing a device does to the resources it holds. The world is constrained by
  documented behaviour only: the number of MSI-X vectors and the address space of a device do not
  change, and the vectors are allocated all or none.
\<close>

subsection \<open>The steps of the probe\<close>

text \<open>Steps that touch neither the arrays nor what is held, apart from the flags and registers.\<close>

definition probe_keeps :: "idxd_device \<Rightarrow> idxd_device \<Rightarrow> bool" where
  "probe_keeps d d' \<longleftrightarrow> held d' = held d \<and> live_ptrs d' = live_ptrs d \<and> dev_evl d' = dev_evl d \<and> dev_pmu d' = dev_pmu d \<and>
     dev_flags d' = dev_flags d \<and> wqs d' = wqs d \<and> engines d' = engines d \<and> groups d' = groups d"

lemma probe_keeps_refl: "probe_keeps d d" and probe_keeps_trans: "probe_keeps d d' \<Longrightarrow> probe_keeps d' d'' \<Longrightarrow> probe_keeps d d''"
  by (simp_all add: probe_keeps_def)

lemma init_reset_keeps: "idxd_device_init_reset E d = (rc, d') \<Longrightarrow> probe_keeps d d'"
  by (auto simp: idxd_device_init_reset_def probe_keeps_def Let_def split: if_splits)

definition sva_objs :: "u64 \<Rightarrow> obj set" where
  "sva_objs fl = (if bit fl IDXD_FLAG_USER_PASID_ENABLED then {S Iopf, S SvaFeat} else {}) \<union>
     (if bit fl IDXD_FLAG_PASID_ENABLED then {S SysPasid, S PasidAttach} else {})"

definition domain_ok :: "env \<Rightarrow> bool" where
  "domain_ok E \<longleftrightarrow> (\<forall>t t'. ext_rc E t (Svc GetDomain) < 0 \<longrightarrow> ext_rc E t' (Svc GetDomain) < 0)"

lemma user_intr_frame [simp]:
  "held (idxd_set_user_intr E b d) = held d" "live_ptrs (idxd_set_user_intr E b d) = live_ptrs d"
  "dev_evl (idxd_set_user_intr E b d) = dev_evl d" "dev_pmu (idxd_set_user_intr E b d) = dev_pmu d"
  "dev_flags (idxd_set_user_intr E b d) = dev_flags d" "wqs (idxd_set_user_intr E b d) = wqs d"
  "engines (idxd_set_user_intr E b d) = engines d" "groups (idxd_set_user_intr E b d) = groups d"
  by (simp_all add: idxd_set_user_intr_def)

lemma enable_sva_spec:
  assumes "idxd_enable_sva E d = (rc, d')"
  shows "live_ptrs d' = live_ptrs d \<and> dev_evl d' = dev_evl d \<and> dev_pmu d' = dev_pmu d \<and> dev_flags d' = dev_flags d \<and>
    (if rc < 0 then held d' = held d else rc = 0 \<and> held d' = addh {S Iopf, S SvaFeat} (held d))"
proof (cases rule: acquire_cases [of E "S Iopf" d])
  case (failed r t)
  then show ?thesis using assms by (auto simp: idxd_enable_sva_def)
next
  case 1: (got r t)
  show ?thesis
  proof (cases rule: acquire_cases [of E "S SvaFeat" "d\<lparr>held := addh {S Iopf} (held d), trace := t\<rparr>"])
    case (failed r t)
    then show ?thesis using assms 1 by (auto simp: idxd_enable_sva_def)
  next
    case (got r t)
    then show ?thesis using assms 1 by (auto simp: idxd_enable_sva_def addh_addh insert_commute)
  qed
qed

lemma enable_system_pasid_spec:
  assumes "idxd_enable_system_pasid E d = (rc, d')"
  shows "live_ptrs d' = live_ptrs d \<and> dev_evl d' = dev_evl d \<and> dev_pmu d' = dev_pmu d \<and> dev_flags d' = dev_flags d \<and>
    (if rc \<noteq> 0 then held d' = held d
     else held d' = addh {S SysPasid, S PasidAttach} (held d) \<and> (\<exists>t. 0 \<le> ext_rc E t (Svc GetDomain)))"
proof -
  obtain r0 d0 where 0: "ext E (Svc GetDomain) d = (r0, d0)" by force
  then have d0: "d0 = d\<lparr>trace := trace d0\<rparr>" and r0: "r0 = ext_rc E (trace d) (Svc GetDomain)"
    by (auto simp: ext_def Let_def)
  show ?thesis
  proof (cases "r0 < 0")
    case True
    then show ?thesis using assms 0 d0
      by (auto simp: idxd_enable_system_pasid_def ext_def Let_def)
  next
    case f0: False
    then have dom: "\<exists>t. 0 \<le> ext_rc E t (Svc GetDomain)" using r0 by (auto simp: not_less)
    let ?d0 = "d\<lparr>trace := trace d0\<rparr>"
    have 0: "ext E (Svc GetDomain) d = (r0, ?d0)" using 0 d0 by simp
    show ?thesis
    proof (cases rule: acquire_cases [of E "S SysPasid" ?d0])
      case (failed r t)
      then show ?thesis using assms 0 f0 by (auto simp: idxd_enable_system_pasid_def)
    next
      case 1: (got r t)
      show ?thesis
      proof (cases rule: acquire_cases [of E "S PasidAttach" "d\<lparr>held := addh {S SysPasid} (held d), trace := t\<rparr>"])
        case (failed r t)
        then show ?thesis using assms 0 1 f0 by (auto simp: idxd_enable_system_pasid_def)
      next
        case (got r t)
        then show ?thesis using assms 0 1 f0 dom
          by (auto simp: idxd_enable_system_pasid_def addh_addh insert_commute)
      qed
    qed
  qed
qed

text \<open>The flags and what is held for them agree, before and after.\<close>

lemma probe_sva_spec:
  assumes "dev_flags d = 0"
  shows "live_ptrs (probe_sva E d) = live_ptrs d \<and> dev_evl (probe_sva E d) = dev_evl d \<and> dev_pmu (probe_sva E d) = dev_pmu d \<and>
    held (probe_sva E d) = addh (sva_objs (dev_flags (probe_sva E d))) (held d) \<and>
    \<not> bit (dev_flags (probe_sva E d)) IDXD_FLAG_CONFIGURABLE \<and>
    (if bit (dev_flags (probe_sva E d)) IDXD_FLAG_PASID_ENABLED
     then bit (dev_flags (probe_sva E d)) IDXD_FLAG_USER_PASID_ENABLED \<and> (\<exists>t. 0 \<le> ext_rc E t (Svc GetDomain)) else True)"
proof (cases "svm_configured E \<and> sva_wanted E")
  case False
  then show ?thesis using assms by (auto simp: probe_sva_def sva_objs_def)
next
  case sv: True
  obtain r1 d1 where 1: "idxd_enable_sva E d = (r1, d1)" by force
  note s1 = enable_sva_spec [OF 1]
  show ?thesis
  proof (cases "r1 = 0")
    case False
    then have "r1 < 0" using s1 by (auto split: if_splits)
    then show ?thesis using s1 sv False assms by (simp add: probe_sva_def 1 sva_objs_def)
  next
    case r1: True
    let ?d1 = "d1\<lparr>dev_flags := set_bit IDXD_FLAG_USER_PASID_ENABLED (dev_flags d1)\<rparr>"
    obtain r2 d2 where 2: "idxd_enable_system_pasid E ?d1 = (r2, d2)" by force
    note s2 = enable_system_pasid_spec [OF 2]
    have f1: "dev_flags d1 = 0" using s1 assms by simp
    have "probe_sva E d = (if r2 \<noteq> 0 then d2 else d2\<lparr>dev_flags := set_bit IDXD_FLAG_PASID_ENABLED (dev_flags d2)\<rparr>)"
      using sv r1 by (simp add: probe_sva_def 1 2)
    then show ?thesis using s1 s2 r1 f1
      by (auto simp: sva_objs_def bit_simps addh_addh Un_commute)
  qed
qed

lemma unprobe_sva_spec:
  assumes "domain_ok E" "if bit (dev_flags d) IDXD_FLAG_PASID_ENABLED then (\<exists>t. 0 \<le> ext_rc E t (Svc GetDomain)) else True"
  shows "held (unprobe_sva E d) = subh (sva_objs (dev_flags d)) (held d) \<and> live_ptrs (unprobe_sva E d) = live_ptrs d \<and>
    dev_evl (unprobe_sva E d) = dev_evl d \<and> dev_pmu (unprobe_sva E d) = dev_pmu d"
proof -
  obtain r0 d0 where 0: "ext E (Svc GetDomain) d = (r0, d0)" by force
  then have f0: "held d0 = held d" "live_ptrs d0 = live_ptrs d" "dev_evl d0 = dev_evl d" "dev_pmu d0 = dev_pmu d"
    "dev_flags d0 = dev_flags d" "r0 = ext_rc E (trace d) (Svc GetDomain)"
    by (auto simp: ext_def Let_def)
  have "bit (dev_flags d) IDXD_FLAG_PASID_ENABLED \<Longrightarrow> \<not> r0 < 0"
    using assms f0(6) unfolding domain_ok_def by (metis not_less)
  then show ?thesis using f0
    by (auto simp: unprobe_sva_def idxd_disable_system_pasid_def idxd_disable_sva_def device_pasid_enabled_def
        device_user_pasid_enabled_def 0 sva_objs_def subh_subh insert_commute)
qed

lemma gen_caps_frame [simp]:
  "held (read_gen_caps d) = held d" "live_ptrs (read_gen_caps d) = live_ptrs d" "dev_evl (read_gen_caps d) = dev_evl d"
  "dev_pmu (read_gen_caps d) = dev_pmu d" "regs (read_gen_caps d) = regs d" "drv_data (read_gen_caps d) = drv_data d"
  "version (read_gen_caps d) = version d" "gen_cap (read_gen_caps d) = ioread64 IDXD_GENCAP_OFFSET d"
  "dev_flags (read_gen_caps d) = (if getf gen_cap_reg ''config_en'' (ioread64 IDXD_GENCAP_OFFSET d) \<noteq> 0
     then set_bit IDXD_FLAG_CONFIGURABLE (dev_flags d) else dev_flags d)"
  by (simp_all add: read_gen_caps_def Let_def idxd_set_max_batch_size_def)

lemma group_caps_frame [simp]:
  "held (read_group_caps d) = held d" "live_ptrs (read_group_caps d) = live_ptrs d" "dev_evl (read_group_caps d) = dev_evl d"
  "dev_pmu (read_group_caps d) = dev_pmu d" "dev_flags (read_group_caps d) = dev_flags d" "regs (read_group_caps d) = regs d"
  "max_groups (read_group_caps d) = unat (getf group_cap_reg ''num_groups'' (ioread64 IDXD_GRPCAP_OFFSET d))"
  "gen_cap (read_group_caps d) = gen_cap d"
  by (simp_all add: read_group_caps_def Let_def)

lemma engine_caps_frame [simp]:
  "held (read_engine_caps d) = held d" "live_ptrs (read_engine_caps d) = live_ptrs d" "dev_evl (read_engine_caps d) = dev_evl d"
  "dev_pmu (read_engine_caps d) = dev_pmu d" "dev_flags (read_engine_caps d) = dev_flags d" "regs (read_engine_caps d) = regs d"
  "max_groups (read_engine_caps d) = max_groups d" "gen_cap (read_engine_caps d) = gen_cap d"
  "max_engines (read_engine_caps d) = unat (getf engine_cap_reg ''num_engines'' (ioread64 IDXD_ENGCAP_OFFSET d))"
  by (simp_all add: read_engine_caps_def Let_def)

lemma wq_caps_frame [simp]:
  "held (read_wq_caps d) = held d" "live_ptrs (read_wq_caps d) = live_ptrs d" "dev_evl (read_wq_caps d) = dev_evl d"
  "dev_pmu (read_wq_caps d) = dev_pmu d" "dev_flags (read_wq_caps d) = dev_flags d" "regs (read_wq_caps d) = regs d"
  "max_groups (read_wq_caps d) = max_groups d" "gen_cap (read_wq_caps d) = gen_cap d" "max_engines (read_wq_caps d) = max_engines d"
  "wq_cap (read_wq_caps d) = ioread64 IDXD_WQCAP_OFFSET d"
  "max_wqs (read_wq_caps d) = unat (getf wq_cap_reg ''num_wqs'' (ioread64 IDXD_WQCAP_OFFSET d))"
  "wqcfg_size (read_wq_caps d) = push_bit (unat (getf wq_cap_reg ''wqcfg_size'' (ioread64 IDXD_WQCAP_OFFSET d)) + IDXD_WQCFG_MIN) 1"
  by (simp_all add: read_wq_caps_def Let_def)

lemma last_caps_frame [simp]:
  "held (read_iaa_cap (read_op_caps d)) = held d" "live_ptrs (read_iaa_cap (read_op_caps d)) = live_ptrs d"
  "dev_evl (read_iaa_cap (read_op_caps d)) = dev_evl d" "dev_pmu (read_iaa_cap (read_op_caps d)) = dev_pmu d"
  "dev_flags (read_iaa_cap (read_op_caps d)) = dev_flags d" "regs (read_iaa_cap (read_op_caps d)) = regs d"
  "max_groups (read_iaa_cap (read_op_caps d)) = max_groups d" "max_wqs (read_iaa_cap (read_op_caps d)) = max_wqs d"
  "max_engines (read_iaa_cap (read_op_caps d)) = max_engines d" "wqcfg_size (read_iaa_cap (read_op_caps d)) = wqcfg_size d"
  "wq_cap (read_iaa_cap (read_op_caps d)) = wq_cap d" "gen_cap (read_iaa_cap (read_op_caps d)) = gen_cap d"
  by (simp_all add: read_iaa_cap_def read_op_caps_def Let_def)

lemma ioread64_regs: "regs d = regs d' \<Longrightarrow> ioread64 off d = ioread64 off d'"
  by (simp add: ioread64_def)

lemma caps_ioread64 [simp]:
  "ioread64 off (read_gen_caps d) = ioread64 off d" "ioread64 off (read_group_caps d) = ioread64 off d"
  "ioread64 off (read_engine_caps d) = ioread64 off d"
  by (rule ioread64_regs, simp)+

lemma read_caps_frame:
  "held (idxd_read_caps d) = held d" "live_ptrs (idxd_read_caps d) = live_ptrs d" "dev_evl (idxd_read_caps d) = dev_evl d"
  "dev_pmu (idxd_read_caps d) = dev_pmu d" "bit (dev_flags (idxd_read_caps d)) (Suc k) = bit (dev_flags d) (Suc k)"
  by (simp_all add: idxd_read_caps_def) (auto simp: bit_simps)

lemma read_caps_max:
  "max_wqs (idxd_read_caps d) = unat (getf wq_cap_reg ''num_wqs'' (ioread64 IDXD_WQCAP_OFFSET d))"
  "max_engines (idxd_read_caps d) = unat (getf engine_cap_reg ''num_engines'' (ioread64 IDXD_ENGCAP_OFFSET d))"
  "max_groups (idxd_read_caps d) = unat (getf group_cap_reg ''num_groups'' (ioread64 IDXD_GRPCAP_OFFSET d))"
  "wqcfg_size (idxd_read_caps d) = push_bit (unat (getf wq_cap_reg ''wqcfg_size'' (ioread64 IDXD_WQCAP_OFFSET d)) + IDXD_WQCFG_MIN) 1"
  by (simp_all add: idxd_read_caps_def)

lemma getf_bound: "unat (getf L n w) < 2 ^ fld_len L n" for w :: "'a::len word"
proof -
  have "take_bit (fld_len L n) (getf L n w) = getf L n w" by (simp add: getf_def)
  then show ?thesis by (metis take_bit_nat_less_exp unsigned_take_bit_eq)
qed

lemma wqcfg_bound:
  "unat (wqcfg_size (idxd_read_caps d)) = 2 ^ (unat (getf wq_cap_reg ''wqcfg_size'' (ioread64 IDXD_WQCAP_OFFSET d)) + 5)"
  "32 \<le> unat (wqcfg_size (idxd_read_caps d))"
proof -
  let ?n = "unat (getf wq_cap_reg ''wqcfg_size'' (ioread64 IDXD_WQCAP_OFFSET d))"
  have "?n < 16" using getf_bound [of wq_cap_reg "''wqcfg_size''" "ioread64 IDXD_WQCAP_OFFSET d"] by (simp add: wq_cap_reg_def)
  then have b: "(2::nat) ^ (?n + 5) < 2 ^ 32" by (intro power_strict_increasing) simp_all
  have "unat (push_bit (?n + 5) 1 :: u32) = take_bit 32 (push_bit (?n + 5) 1)"
    by (subst unsigned_push_bit_eq) simp
  also have "\<dots> = 2 ^ (?n + 5)" unfolding push_bit_eq_mult using b by (simp only: take_bit_nat_eq_self mult_1)
  finally show 1: "unat (wqcfg_size (idxd_read_caps d)) = 2 ^ (?n + 5)" unfolding read_caps_max .
  have "(2::nat) ^ 5 \<le> 2 ^ (?n + 5)" by (rule power_increasing) simp_all
  then show "32 \<le> unat (wqcfg_size (idxd_read_caps d))" unfolding 1 by simp
qed

lemma table_offsets_frame:
  "probe_keeps d (idxd_read_table_offsets d)" "wqcfg_size (idxd_read_table_offsets d) = wqcfg_size d"
  by (simp_all add: idxd_read_table_offsets_def probe_keeps_def Let_def)

text \<open>Steps after the arrays are there: they keep their shape and what the device is.\<close>

definition loaded :: "idxd_device \<Rightarrow> idxd_device \<Rightarrow> bool" where
  "loaded d d' \<longleftrightarrow> opc d' = opc d \<and> max_wqs d' = max_wqs d \<and> max_engines d' = max_engines d \<and> max_groups d' = max_groups d \<and>
     wqcfg_size d' = wqcfg_size d \<and> length (wqs d') = length (wqs d) \<and> length (engines d') = length (engines d) \<and>
     live_ptrs d' = live_ptrs d \<and> dev_evl d' = dev_evl d \<and> dev_pmu d' = dev_pmu d \<and> dev_flags d' = dev_flags d \<and>
     (if has_arrays d then has_arrays d' else True)"

lemma loaded_refl: "loaded d d" and loaded_trans: "loaded d d' \<Longrightarrow> loaded d' d'' \<Longrightarrow> loaded d d''"
  by (auto simp: loaded_def split: if_splits)

lemma loaded_fold:
  "(\<And>k x. k \<in> set ks \<Longrightarrow> loaded d x \<Longrightarrow> loaded x (f k x)) \<Longrightarrow> loaded d (fold f ks d)"
proof (induction ks rule: rev_induct)
  case Nil
  then show ?case by (simp add: loaded_refl)
next
  case (snoc k ks)
  then have "loaded d (fold f ks d)" by simp
  with snoc.prems [of k "fold f ks d"] show ?case by (auto intro: loaded_trans)
qed

lemma loaded_views: "loaded d d' \<Longrightarrow> wqs_held d' = wqs_held d \<and> engines_held d' = engines_held d \<and> groups_held d' = groups_held d \<and>
   arrays_held d' = arrays_held d"
  by (simp add: loaded_def wqs_held_def engines_held_def groups_held_def arrays_held_def fun_eq_iff)

lemma loaded_wq:
  assumes "\<And>w. w \<in> set (wqs d) \<Longrightarrow> wq_id (f w) = wq_id w \<and> (wq_opcap (f w) = None \<longleftrightarrow> wq_opcap w = None) \<and>
    (wqcfg w \<noteq> [] \<longrightarrow> wqcfg (f w) \<noteq> [] \<or> unat (wqcfg_size d) < 4) \<and> (wq_group (f w) = wq_group w \<or> (\<exists>g < max_groups d. wq_group (f w) = Some g))"
  shows "loaded d (upd_wq i f d)"
proof (cases "i < length (wqs d)")
  case False
  then show ?thesis by (simp add: upd_wq_def list_upd_beyond loaded_refl)
next
  case True
  have ids: "map wq_id (list_upd i f (wqs d)) = map wq_id (wqs d)"
    using assms True by (intro nth_equalityI) (auto simp: nth_list_upd)
  have "has_arrays (upd_wq i f d)" if h: "has_arrays d"
  proof -
    have w: "wqcfg w \<noteq> [] \<and> (wq_opcap w \<noteq> None \<longleftrightarrow> opc d) \<and> (\<forall>g. wq_group w = Some g \<longrightarrow> g < max_groups d)" "4 \<le> unat (wqcfg_size d)"
      if "w \<in> set (wqs d)" for w
      using h that by (auto simp: has_arrays_def has_wqs_def)
    have "wqcfg v \<noteq> [] \<and> (wq_opcap v \<noteq> None \<longleftrightarrow> opc d) \<and> (\<forall>g. wq_group v = Some g \<longrightarrow> g < max_groups d)"
      if v: "v \<in> set (list_upd i f (wqs d))" for v
    proof -
      from v obtain w where "w \<in> set (wqs d)" "v = w \<or> v = f w" by (rule set_list_upd)
      then show ?thesis using w [of w] assms [of w] by auto
    qed
    then show ?thesis using h ids
      by (auto simp: has_arrays_def has_wqs_def has_engines_def has_groups_def opc_def upd_wq_def)
  qed
  then show ?thesis by (simp add: loaded_def opc_def upd_wq_def)
qed

lemma loaded_group: "(\<And>x. grp_id (f x) = grp_id x) \<Longrightarrow> loaded d (upd_group g f d)"
  by (auto simp: loaded_def opc_def upd_group_def has_arrays_def has_wqs_def has_engines_def has_groups_def)

lemma loaded_engine:
  assumes "\<And>e. eng_id (f e) = eng_id e \<and> (\<exists>g < max_groups d. eng_group (f e) = Some g)"
  shows "loaded d (upd_engine i f d)"
proof -
  have "has_engines n (upd_engine i f d)" if h: "has_engines n d" for n
  proof -
    have "\<forall>g. eng_group v = Some g \<longrightarrow> g < max_groups d" if v: "v \<in> set (list_upd i f (engines d))" for v
    proof -
      from v obtain e where "e \<in> set (engines d)" "v = e \<or> v = f e" by (rule set_list_upd)
      then show ?thesis using h assms [of e] by (auto simp: has_engines_def)
    qed
    then show ?thesis using h assms by (auto simp: has_engines_def upd_engine_def)
  qed
  then show ?thesis by (auto simp: loaded_def opc_def upd_engine_def has_arrays_def has_wqs_def has_groups_def)
qed

lemma loaded_same:
  assumes "probe_keeps d d'" "wq_cap d' = wq_cap d" "max_wqs d' = max_wqs d" "max_engines d' = max_engines d" "max_groups d' = max_groups d"
    "wqcfg_size d' = wqcfg_size d"
  shows "loaded d d'"
  using assms by (auto simp: loaded_def probe_keeps_def opc_def has_arrays_def has_wqs_def has_engines_def has_groups_def)

subsection \<open>Loading a fixed configuration and the interrupts\<close>

lemma held_upd [simp]:
  "held (upd_wq i f d) = held d" "held (upd_group i g d) = held d" "held (upd_engine i h d) = held d"
  by (simp_all add: upd_wq_def upd_group_def upd_engine_def)

lemma loadedD: "loaded d d' \<Longrightarrow> max_groups d' = max_groups d \<and> wqcfg_size d' = wqcfg_size d"
  by (simp add: loaded_def)

lemma load_wq_bit_ok: "g < max_groups d \<Longrightarrow> loaded d (load_wq_bit g i b j d) \<and> held (load_wq_bit g i b j d) = held d"
  by (auto simp: load_wq_bit_def Let_def loaded_refl intro!: loaded_wq)

lemma load_engine_bit_ok: "g < max_groups d \<Longrightarrow> loaded d (load_engine_bit g b i d) \<and> held (load_engine_bit g b i d) = held d"
  by (auto simp: load_engine_bit_def loaded_refl intro!: loaded_engine)

text \<open>A loop of steps that each keep the shape and what is held.\<close>

definition same_load :: "idxd_device \<Rightarrow> idxd_device \<Rightarrow> bool" where
  "same_load d d' \<longleftrightarrow> loaded d d' \<and> held d' = held d"

lemma same_load_refl: "same_load d d" and same_load_trans: "same_load d d' \<Longrightarrow> same_load d' d'' \<Longrightarrow> same_load d d''"
  by (auto simp: same_load_def loaded_refl intro: loaded_trans)

lemma same_load_fold:
  "(\<And>k x. k \<in> set ks \<Longrightarrow> same_load d x \<Longrightarrow> same_load x (f k x)) \<Longrightarrow> same_load d (fold f ks d)"
proof (induction ks rule: rev_induct)
  case Nil
  then show ?case by (simp add: same_load_refl)
next
  case (snoc k ks)
  then have "same_load d (fold f ks d)" by simp
  with snoc.prems [of k "fold f ks d"] show ?case by (auto intro: same_load_trans)
qed

lemma same_load_groups: "same_load d d' \<Longrightarrow> max_groups d' = max_groups d \<and> max_wqs d' = max_wqs d"
  by (simp add: same_load_def loaded_def)

lemma same_load_group: "(\<And>x. grp_id (f x) = grp_id x) \<Longrightarrow> same_load d (upd_group g f d)"
  by (simp add: same_load_def loaded_group)

lemma group_load_wqs_ok: "g < max_groups d \<Longrightarrow> same_load d (group_load_wqs g is d)"
proof (induction "is" arbitrary: d)
  case Nil
  then show ?case by (simp add: same_load_refl)
next
  case (Cons i "is")
  let ?b = "ioread64 (GRPWQCFG_OFFSET (grpcfg_offset d) (grp_id (groups d ! g)) i) d"
  let ?d = "upd_group g (\<lambda>x. x\<lparr>grpcfg_wqs := list_upd i (\<lambda>_. ?b) (grpcfg_wqs x)\<rparr>) d"
  let ?e = "fold (load_wq_bit g i ?b) [0..<64] ?d"
  have 1: "same_load d ?d" by (rule same_load_group) simp
  have 2: "same_load ?d ?e"
    by (rule same_load_fold)
      (use Cons.prems same_load_groups [OF 1] load_wq_bit_ok in \<open>auto simp: same_load_def dest: loadedD\<close>)
  have "same_load ?e (group_load_wqs g is ?e)"
    using Cons.IH [of ?e] Cons.prems same_load_groups [OF 1] same_load_groups [OF 2] by simp
  then show ?case using 1 2 by (auto simp: Let_def intro: same_load_trans)
qed

lemma group_load_ok: "g < max_groups d \<Longrightarrow> same_load d (idxd_group_load_config g d)"
proof -
  assume g: "g < max_groups d"
  let ?d1 = "group_load_wqs g [0..<GRPWQCFG_STRIDES] d"
  let ?b = "ioread64 (GRPENGCFG_OFFSET (grpcfg_offset ?d1) (grp_id (groups ?d1 ! g))) ?d1"
  let ?d2 = "upd_group g (\<lambda>x. x\<lparr>grpcfg_engines := ?b\<rparr>) ?d1"
  let ?d3 = "fold (load_engine_bit g ?b) [0..<64] ?d2"
  have 1: "same_load d ?d1" by (rule group_load_wqs_ok [OF g])
  have 2: "same_load d ?d2" by (rule same_load_trans [OF 1 same_load_group]) simp
  have "same_load ?d2 ?d3"
    by (rule same_load_fold)
      (use g same_load_groups [OF 2] load_engine_bit_ok in \<open>auto simp: same_load_def dest: loadedD\<close>)
  then have 3: "same_load d ?d3" by (rule same_load_trans [OF 2])
  show ?thesis unfolding idxd_group_load_config_def Let_def
    by (rule same_load_trans [OF 3 same_load_group]) simp
qed

lemma wq_load_ok:
  "idxd_wq_load_config i d = (rc, d') \<Longrightarrow> same_load d d' \<and> rc \<le> 0"
proof -
  assume r: "idxd_wq_load_config i d = (rc, d')"
  define c where "c = map (\<lambda>k. ioread32 (wqcfg_addr d i k) d) [0..<WQCFG_STRIDES (wqcfg_size d)]"
  define d1 where "d1 = upd_wq i (\<lambda>w. w\<lparr>wqcfg := c, wq_size := getf wqcfg_dw0 ''wq_size'' (c ! 0),
                              threshold := getf wqcfg_dw1 ''wq_thresh'' (c ! 1)\<rparr>) d"
  have "c = [] \<longleftrightarrow> unat (wqcfg_size d) < 4" by (auto simp: c_def WQCFG_STRIDES_def div_eq_0_iff)
  then have 1: "same_load d d1" unfolding same_load_def d1_def by (intro conjI loaded_wq) auto
  have 2: "same_load d (upd_wq i f d1)" if "\<And>w. wq_id (f w) = wq_id w" "\<And>w. wq_opcap (f w) = wq_opcap w"
    "\<And>w. wqcfg (f w) = wqcfg w" "\<And>w. wq_group (f w) = wq_group w" for f
    by (rule same_load_trans [OF 1]) (unfold same_load_def, intro conjI loaded_wq, simp_all add: that)
  show ?thesis
    using r 1 unfolding idxd_wq_load_config_def Let_def c_def [symmetric] d1_def [symmetric]
    by (auto simp: idxd_wq_set_max_batch_size_def split: if_splits intro!: 2)
qed

lemma load_loop_ok: "load_wqs_loop is d = (rc, d') \<Longrightarrow> same_load d d' \<and> rc \<le> 0"
proof (induction "is" arbitrary: d)
  case Nil
  then show ?case by (simp add: same_load_refl)
next
  case (Cons i "is")
  obtain r1 d1 where 1: "idxd_wq_load_config i d = (r1, d1)" by force
  then show ?case using Cons wq_load_ok [OF 1] by (auto split: if_splits intro: same_load_trans)
qed

lemma load_config_ok:
  assumes "idxd_device_load_config d = (rc, d')"
  shows "same_load d d' \<and> rc \<le> 0"
proof -
  let ?d0 = "d\<lparr>rdbuf_limit := uint (getf gencfg_reg ''rdbuf_limit'' (ioread32 IDXD_GENCFG_OFFSET d))\<rparr>"
  have 0: "same_load d ?d0" by (auto simp: same_load_def loaded_def opc_def has_arrays_def has_wqs_def has_engines_def has_groups_def)
  have 1: "same_load ?d0 (fold idxd_group_load_config [0..<max_groups d] ?d0)"
    by (rule same_load_fold) (use group_load_ok in \<open>auto dest: same_load_groups\<close>)
  have m: "max_groups ?d0 = max_groups d" by simp
  from load_loop_ok [of _ "fold idxd_group_load_config [0..<max_groups d] ?d0" rc d'] assms show ?thesis
    using same_load_trans [OF 0 1] by (auto simp: idxd_device_load_config_def Let_def intro: same_load_trans)
qed

definition vec_ok :: "env \<Rightarrow> bool" where
  "vec_ok E \<longleftrightarrow> (\<exists>n. n \<noteq> 0 \<and> (\<forall>t. ext_rc E t (Svc MsixVecCount) = n) \<and>
     (\<forall>t. ext_rc E t (Acq (D IrqVectors)) = n \<or> ext_rc E t (Acq (D IrqVectors)) < 0))"

lemma acquire_rc: "acquire E x d = (r, e) \<Longrightarrow> \<exists>t. r = ext_rc E t (Acq x)" for d :: "'a machine_scheme"
  by (auto simp: acquire_def ext_def Let_def split: if_splits)

lemma loaded_trivial:
  "loaded d d' \<Longrightarrow> loaded d (d'\<lparr>held := h, trace := t\<rparr>)" "loaded d d' \<Longrightarrow> loaded d (d'\<lparr>trace := t\<rparr>)"
  "loaded d d' \<Longrightarrow> loaded d (release x d')" "loaded d d' \<Longrightarrow> loaded d (iowrite32 E v off d')"
  "loaded d d' \<Longrightarrow> loaded d (d'\<lparr>irq_cnt := n\<rparr>)"
  by (auto simp: loaded_def opc_def has_arrays_def has_wqs_def has_engines_def has_groups_def split: if_splits)

lemma mask_frame: "loaded d d' \<Longrightarrow> loaded d (idxd_mask_error_interrupts E d')"
  "loaded d d' \<Longrightarrow> loaded d (idxd_unmask_error_interrupts E d')"
  "held (idxd_mask_error_interrupts E d') = held d'" "held (idxd_unmask_error_interrupts E d') = held d'"
  by (simp_all add: idxd_mask_error_interrupts_def idxd_unmask_error_interrupts_def Let_def loaded_trivial)

lemma setup_interrupts_spec:
  assumes "idxd_setup_interrupts E d = (rc, d')" "vec_ok E"
  shows "loaded d d' \<and> (if rc \<noteq> 0 then held d' = held d
    else held d' = addh {D IrqVectors, D MiscIrq} (held d) \<and> (\<forall>t. 0 < ext_rc E t (Svc MsixVecCount)))"
proof -
  obtain n where n: "n \<noteq> 0" "\<And>t. ext_rc E t (Svc MsixVecCount) = n"
    "\<And>t. ext_rc E t (Acq (D IrqVectors)) = n \<or> ext_rc E t (Acq (D IrqVectors)) < 0"
    using assms(2) by (auto simp: vec_ok_def)
  obtain t0 where 0: "ext E (Svc MsixVecCount) d = (n, d\<lparr>trace := t0\<rparr>)"
    using n(2) by (auto simp: ext_def Let_def)
  let ?d1 = "d\<lparr>trace := t0, irq_cnt := nat n\<rparr>"
  have l1: "loaded d ?d1" using loaded_trivial(5) [OF loaded_trivial(2) [OF loaded_refl]] .
  show ?thesis
  proof (cases "n < 0")
    case True
    then show ?thesis using assms(1) 0 by (auto simp: idxd_setup_interrupts_def loaded_trivial loaded_refl)
  next
    case np: False
    show ?thesis
    proof (cases rule: acquire_cases [of E "D IrqVectors" ?d1])
      case (failed r t)
      then have "rc = - ENOSPC" "d' = ?d1\<lparr>trace := t\<rparr>" using assms(1) 0 np by (auto simp: idxd_setup_interrupts_def)
      then show ?thesis using l1 by (simp add: loaded_trivial(2) [OF l1, simplified])
    next
      case 1: (got r t)
      then have r: "r = n" using acquire_rc [OF 1(1)] n(3) by fastforce
      let ?d2 = "?d1\<lparr>held := addh {D IrqVectors} (held d), trace := t\<rparr>"
      have l2: "loaded d ?d2" by (rule loaded_trivial(1) [OF l1])
      have 1: "acquire E (D IrqVectors) ?d1 = (n, ?d2)" using 1 r by simp
      show ?thesis
      proof (cases rule: acquire_cases [of E "D MiscIrq" ?d2])
        case (failed r t)
        then have "rc = r" "d' = release (D IrqVectors) (idxd_mask_error_interrupts E (?d2\<lparr>trace := t\<rparr>))"
          using assms(1) 0 np 1 by (auto simp: idxd_setup_interrupts_def)
        moreover have "loaded d (release (D IrqVectors) (idxd_mask_error_interrupts E (?d2\<lparr>trace := t\<rparr>)))"
          by (intro loaded_trivial(3) mask_frame loaded_trivial(2) l2)
        ultimately show ?thesis using failed(2) by (simp add: mask_frame)
      next
        case (got r t)
        let ?d3 = "?d2\<lparr>held := addh {D MiscIrq} (held ?d2), trace := t\<rparr>"
        let ?f = "\<lambda>i. upd_ie i (\<lambda>ie. ie\<lparr>ie_id := i + 1, int_handle := INVALID_INT_HANDLE,
                    ie_pasid := invalid_pasid E, pending_llist := [], work_list := []\<rparr>)"
        have d': "rc = 0" "d' = idxd_unmask_error_interrupts E (fold ?f [0..<max_wqs d] ?d3)"
          using assms(1) 0 np 1 got by (auto simp: idxd_setup_interrupts_def)
        have l3: "loaded d ?d3" by (rule loaded_trivial(1) [OF l2])
        have f: "same_load ?d3 (fold ?f [0..<max_wqs d] ?d3)"
          by (rule same_load_fold) (auto simp: same_load_def upd_ie_def intro!: loaded_wq)
        then have "loaded d d'" using d'(2) loaded_trans [OF l3] by (auto simp: same_load_def intro!: mask_frame)
        moreover have "held d' = addh {D IrqVectors, D MiscIrq} (held d)"
          using f d'(2) by (simp add: same_load_def mask_frame addh_addh insert_commute)
        ultimately show ?thesis using d'(1) n np by simp
      qed
    qed
  qed
qed

end
