(* ===== verification/Lifecycle.thy ===== *)
theory Lifecycle
  imports Probe
begin

text \<open>
  A device from its probe to its removal, and the module from loading to unloading: what fails gives
  everything back, and removal gives back what the probe obtained.
\<close>

subsection \<open>Counting units\<close>

text \<open>Obtaining and releasing sets of resources commute, so what cancels cancels by arithmetic.\<close>

definition ind :: "obj set \<Rightarrow> obj \<Rightarrow> int" where
  "ind A x = (if x \<in> A then 1 else 0)"

lemma units: "addh A h = (\<lambda>x. h x + ind A x)" "subh A h = (\<lambda>x. h x - ind A x)"
  by (simp_all add: addh_def subh_def ind_def)

lemma units_held:
  "wqs_held d h = (\<lambda>x. h x + ind (\<Union>k<max_wqs d. wq_objs (opc d) k) x)"
  "engines_held d h = (\<lambda>x. h x + ind (\<Union>k<max_engines d. engine_objs k) x)"
  "groups_held d h = (\<lambda>x. h x + ind (\<Union>k<max_groups d. group_objs k) x)"
  by (simp_all add: wqs_held_def engines_held_def groups_held_def units)

lemma ind_Un: "A \<inter> B = {} \<Longrightarrow> ind (A \<union> B) x = ind A x + ind B x"
  by (auto simp: ind_def)

subsection \<open>The performance monitor in the probe\<close>

definition pview :: "idxd_device \<Rightarrow> _" where
  "pview d = (live_ptrs d, dev_evl d, dev_flags d, wqs d, engines d, groups d, wq_cap d, max_wqs d, max_engines d, max_groups d,
     wqcfg_size d, max_rdbufs d, nr_rdbufs d)"

lemma pview_simps [simp]:
  "pview (snd (acquire E x d)) = pview d" "pview (release x d) = pview d" "pview (notify v d) = pview d"
  "pview (hold x d) = pview d" "pview (iowrite32 E w off d) = pview d" "pview (d\<lparr>dev_pmu := p\<rparr>) = pview d"
  "pview (snd (ext E q d)) = pview d" "pview (d\<lparr>trace := t\<rparr>) = pview d" "pview (d\<lparr>held := h, trace := t\<rparr>) = pview d"
  "pview (d\<lparr>pasid := a\<rparr>) = pview d"
  by (simp_all add: pview_def)

lemma pview_perf [simp]:
  "pview (perfmon_reset E d) = pview d" "pview (pf_dev (set_pmu p s)) = pview (pf_dev s)"
  by (simp_all add: perfmon_reset_def perfmon_reset_config_def perfmon_reset_counters_def set_pmu_def on_pf_dev_def Let_def)

lemma pview_online:
  "foldo (\<lambda>cpu s. map_option snd (perf_event_cpu_online cpu s)) online s = Some s' \<Longrightarrow> pview (pf_dev s') = pview (pf_dev s)"
proof (induction online arbitrary: s)
  case Nil
  then show ?case by simp
next
  case (Cons cpu online)
  then show ?case
    by (fastforce simp: perf_event_cpu_online_def set_pmu_def on_pf_dev_def split: if_splits option.splits)
qed

lemma pview_pmu_init:
  assumes "perfmon_pmu_init E a online s = Some (rc, s')"
  shows "pview (pf_dev s') = pview (pf_dev s)"
proof -
  obtain r1 d1 where 1: "acquire E (M Pmu) (pf_dev s) = (r1, d1)" by force
  have v1: "pview d1 = pview (pf_dev s)" using pview_simps(1) [of E "M Pmu" "pf_dev s"] by (simp add: 1)
  define s1 where "s1 = on_pf_dev (perfmon_reset E) (set_pmu (zero_pmu a) (s\<lparr>pf_dev := d1\<rparr>))"
  have w1: "pview (pf_dev s1) = pview (pf_dev s)" using v1 by (simp add: s1_def on_pf_dev_def)
  define cap where "cap = ioread64 (PERFMON_REG_OFFSET (pf_dev s1) IDXD_PERFCAP_OFFSET) (pf_dev s1)"
  define p where "p = pmu_of_cap cap (zero_pmu a)"
  obtain r2 d2 where 2: "acquire E (M PmuReg) (pf_dev (set_pmu p s1)) = (r2, d2)" by force
  have v2: "pview d2 = pview (pf_dev s)" using pview_simps(1) [of E "M PmuReg" "pf_dev (set_pmu p s1)"] w1 by (simp add: 2)
  obtain r3 d3 where 3: "acquire E (M CpuhpInst) d2 = (r3, d3)" by force
  have v3: "pview d3 = pview (pf_dev s)" using pview_simps(1) [of E "M CpuhpInst" d2] v2 by (simp add: 3)
  have f: "pview (pf_dev (on_pf_dev (\<lambda>d. (release (M Pmu) d)\<lparr>dev_pmu := None\<rparr>) x)) = pview (pf_dev x)" for x
    by (simp add: on_pf_dev_def)
  have g: "pview (pf_dev (on_pf_dev (release (M PmuReg)) x)) = pview (pf_dev x)" for x
    by (simp add: on_pf_dev_def)
  from assms v1 w1 v2 v3 show ?thesis
    unfolding perfmon_pmu_init_def Let_def 1 prod.case
    by (auto simp: s1_def [symmetric] cap_def [symmetric] p_def [symmetric] 2 3 f g split: if_splits dest!: pview_online)
qed

lemma pview_fields:
  assumes "pview d' = pview d"
  shows "live_ptrs d' = live_ptrs d" "dev_evl d' = dev_evl d" "dev_flags d' = dev_flags d" "wqs d' = wqs d" "engines d' = engines d"
    "groups d' = groups d" "wq_cap d' = wq_cap d" "max_wqs d' = max_wqs d" "max_engines d' = max_engines d"
    "max_groups d' = max_groups d" "wqcfg_size d' = wqcfg_size d" "max_rdbufs d' = max_rdbufs d" "nr_rdbufs d' = nr_rdbufs d"
  using assms by (simp_all add: pview_def)

lemma pview_views:
  assumes "pview d' = pview d"
  shows "has_arrays d' = has_arrays d" "wqs_held d' = wqs_held d" "engines_held d' = engines_held d" "groups_held d' = groups_held d"
    "arrays_held d' = arrays_held d"
  using pview_fields [OF assms]
  by (simp_all add: has_arrays_def has_wqs_def has_engines_def has_groups_def opc_def wqs_held_def engines_held_def
      groups_held_def arrays_held_def fun_eq_iff)

subsection \<open>What a failed probe leaves, and the release of the device\<close>

abbreviation (input) kept_ptrs :: "dev_res set" where
  "kept_ptrs \<equiv> {Wqs, WqEnableMap, Engines, Groups, EvlCache}"

definition evl_unit :: "idxd_device \<Rightarrow> obj \<Rightarrow> int" where
  "evl_unit d = (if dev_evl d = None then (\<lambda>_. 0) else ind {D Evl})"

definition leftover :: "(obj \<Rightarrow> int) \<Rightarrow> idxd_device \<Rightarrow> bool" where
  "leftover h d \<longleftrightarrow> live_ptrs d \<subseteq> kept_ptrs \<and> held d = (\<lambda>x. h x + ind (D ` live_ptrs d) x + evl_unit d x)"

lemma ind_ptrs:
  "L \<subseteq> kept_ptrs \<Longrightarrow> ind (D ` L) x =
     (if Groups \<in> L then ind {D Groups} x else 0) + (if WqEnableMap \<in> L then ind {D WqEnableMap} x else 0) +
     (if Wqs \<in> L then ind {D Wqs} x else 0) + (if Engines \<in> L then ind {D Engines} x else 0) +
     (if EvlCache \<in> L then ind {D EvlCache} x else 0)"
  by (auto simp: ind_def)

lemma device_release_leftover:
  assumes "leftover h d"
  shows "held (idxd_conf_device_release d) = (\<lambda>x. h x - ind {D IdxdId} x - ind {D DevOpcap} x - ind {D IdxdStruct} x)"
proof -
  define kf :: "dev_res \<Rightarrow> idxd_device \<Rightarrow> idxd_device" where "kf = (\<lambda>r d. if r \<in> live_ptrs d then release (D r) d else d)"
  have k: "held (kf r e) = (\<lambda>x. held e x - (if r \<in> live_ptrs e then ind {D r} x else 0))" "live_ptrs (kf r e) = live_ptrs e"
    "dev_evl (kf r e) = dev_evl e" for r e
    by (simp_all add: kf_def units)
  define e1 where "e1 = kf Engines (kf Wqs (kf WqEnableMap (kf Groups d)))"
  define e2 where "e2 = (if dev_evl e1 = None then e1 else release (D Evl) e1)"
  have e2: "held e2 = (\<lambda>x. held e1 x - evl_unit d x)" "live_ptrs e2 = live_ptrs d"
    by (auto simp: e2_def e1_def k evl_unit_def units)
  have "idxd_conf_device_release d = release (D IdxdStruct) (release (D DevOpcap) (release (D IdxdId) (kf EvlCache e2)))"
    by (simp add: idxd_conf_device_release_def Let_def kf_def [symmetric] e1_def e2_def)
  then show ?thesis
    using assms by (auto simp: units k e2 e1_def leftover_def ind_ptrs fun_eq_iff)
qed

lemma put_idxd:
  assumes "leftover h d" "h (DevRef DevIdxd) = 1"
  shows "held (put_device DevIdxd d) =
    (\<lambda>x. h x - ind {DevRef DevIdxd} x - ind {D IdxdId} x - ind {D DevOpcap} x - ind {D IdxdStruct} x)"
proof -
  let ?d = "release (DevRef DevIdxd) d"
  have "held d (DevRef DevIdxd) = 1"
    using assms by (auto simp: leftover_def ind_def evl_unit_def)
  then have z: "held ?d (DevRef DevIdxd) = 0" by (simp add: units ind_def)
  have "leftover (\<lambda>x. h x - ind {DevRef DevIdxd} x) ?d"
    using assms(1) by (auto simp: leftover_def units evl_unit_def fun_eq_iff)
  from device_release_leftover [OF this] z show ?thesis
    by (simp add: put_device_def Let_def conf_release_def)
qed

subsection \<open>Cleaning up the arrays\<close>

lemma same_hw_flags: "same_hw d d' \<Longrightarrow> dev_flags d' = dev_flags d \<and> dev_pmu d' = dev_pmu d"
  by (simp add: same_hw_def)

lemma cleanup_internals_spec:
  assumes "has_arrays d" "held d = arrays_held d h" "no_refs h"
  shows "held (idxd_cleanup_internals d) =
      (\<lambda>x. h x + ind (D ` {Wqs, WqEnableMap, Engines, Groups}) x - ind {D Workqueue} x)" (is ?held)
    "live_ptrs (idxd_cleanup_internals d) = live_ptrs d" "dev_evl (idxd_cleanup_internals d) = dev_evl d"
    "dev_flags (idxd_cleanup_internals d) = dev_flags d" "dev_pmu (idxd_cleanup_internals d) = dev_pmu d"
proof -
  let ?h = "addh (D ` {Wqs, WqEnableMap, Engines, Groups}) h" let ?p = "put_wqs (put_engines (put_groups d))"
  have "held ?p = ?h \<and> same_hw d ?p \<and> live_ptrs ?p = live_ptrs d \<and> dev_evl ?p = dev_evl d"
    by (rule put_arrays [OF assms(1)]) (use assms(2,3) no_refs_add(2) [OF assms(3)] in \<open>simp_all add: arrays_held_def\<close>)
  with same_hw_flags [of d ?p] show ?held "live_ptrs (idxd_cleanup_internals d) = live_ptrs d"
    "dev_evl (idxd_cleanup_internals d) = dev_evl d"
    "dev_flags (idxd_cleanup_internals d) = dev_flags d" "dev_pmu (idxd_cleanup_internals d) = dev_pmu d"
    by (simp_all add: idxd_cleanup_internals_def units fun_eq_iff)
qed

lemma arrays_commute: "addh A (arrays_held d h) = arrays_held d (addh A h)"
  unfolding arrays_held_def held_commute by (simp only: addh_commute [of A])

text \<open>What a probed device holds, beyond \<open>h\<close>, apart from the monitor and the interrupts.\<close>

definition world_ok :: "env \<Rightarrow> bool" where
  "world_ok E \<longleftrightarrow> map_ok E \<and> vec_ok E \<and> domain_ok E"

definition flags_ok :: "env \<Rightarrow> idxd_device \<Rightarrow> bool" where
  "flags_ok E d \<longleftrightarrow> (if bit (dev_flags d) IDXD_FLAG_PASID_ENABLED
     then bit (dev_flags d) IDXD_FLAG_USER_PASID_ENABLED \<and> (\<exists>t. 0 \<le> ext_rc E t (Svc GetDomain)) else True)"

definition evl_cache_unit :: "idxd_device \<Rightarrow> obj \<Rightarrow> int" where
  "evl_cache_unit d = (if dev_evl d = None then (\<lambda>_. 0) else (\<lambda>x. ind {D Evl} x + ind {D EvlCache} x))"

definition set_up :: "env \<Rightarrow> (obj \<Rightarrow> int) \<Rightarrow> idxd_device \<Rightarrow> bool" where
  "set_up E h d \<longleftrightarrow> has_arrays d \<and> flags_ok E d \<and>
     live_ptrs d = {Wqs, WqEnableMap, Engines, Groups} \<union> (if dev_evl d = None then {} else {EvlCache}) \<and>
     held d = arrays_held d (\<lambda>x. h x + ind (sva_objs (dev_flags d)) x + ind {D Workqueue} x + evl_cache_unit d x)"

lemma no_refs_units:
  "no_refs h \<Longrightarrow> no_refs (\<lambda>x. h x + ind (sva_objs f) x + ind {D Workqueue} x + evl_cache_unit d x)"
  by (auto simp: no_refs_def ind_def sva_objs_def evl_cache_unit_def)

lemma cleanup_set_up:
  assumes "set_up E h d" "no_refs h" "domain_ok E"
  shows "leftover h (unprobe_sva E (idxd_cleanup_internals d)) \<and> dev_pmu (unprobe_sva E (idxd_cleanup_internals d)) = dev_pmu d"
proof -
  let ?c = "idxd_cleanup_internals d"
  have c: "held ?c = (\<lambda>x. h x + ind (sva_objs (dev_flags d)) x + ind {D Workqueue} x + evl_cache_unit d x +
      ind (D ` {Wqs, WqEnableMap, Engines, Groups}) x - ind {D Workqueue} x)"
    "live_ptrs ?c = live_ptrs d" "dev_evl ?c = dev_evl d" "dev_flags ?c = dev_flags d" "dev_pmu ?c = dev_pmu d"
    using cleanup_internals_spec [of d, OF _ _ no_refs_units [OF assms(2)]] assms(1) by (simp_all add: set_up_def)
  have "if bit (dev_flags ?c) IDXD_FLAG_PASID_ENABLED then (\<exists>t. 0 \<le> ext_rc E t (Svc GetDomain)) else True"
    using assms(1) c(4) by (simp add: set_up_def flags_ok_def split: if_splits)
  from unprobe_sva_spec [OF assms(3) this]
  have u: "held (unprobe_sva E ?c) = subh (sva_objs (dev_flags ?c)) (held ?c)" "live_ptrs (unprobe_sva E ?c) = live_ptrs ?c"
    "dev_evl (unprobe_sva E ?c) = dev_evl ?c" "dev_pmu (unprobe_sva E ?c) = dev_pmu ?c" by simp_all
  have "live_ptrs d \<subseteq> kept_ptrs" using assms(1) by (auto simp: set_up_def)
  moreover have "ind (D ` live_ptrs d) x + evl_unit d x = ind (D ` {Wqs, WqEnableMap, Engines, Groups}) x + evl_cache_unit d x" for x
    using assms(1) by (auto simp: set_up_def evl_unit_def evl_cache_unit_def ind_def)
  ultimately show ?thesis
    using u c by (simp add: leftover_def units evl_unit_def fun_eq_iff algebra_simps)
qed

subsection \<open>The probe\<close>

definition pmu_unit :: "idxd_device \<Rightarrow> obj \<Rightarrow> int" where
  "pmu_unit d = (if dev_pmu d = None then (\<lambda>_. 0) else ind {M Pmu, M PmuReg, M CpuhpInst})"

definition irq_unit :: "obj \<Rightarrow> int" where
  "irq_unit = ind {D IrqVectors, D MiscIrq}"

lemma set_up_cong:
  assumes "set_up E h d" "has_arrays d'" "arrays_held d' = arrays_held d" "live_ptrs d' = live_ptrs d" "dev_evl d' = dev_evl d"
    "dev_flags d' = dev_flags d" "held d' = (\<lambda>x. held d x + u x)"
  shows "set_up E (\<lambda>x. h x + u x) d'"
proof -
  let ?g = "\<lambda>x. h x + ind (sva_objs (dev_flags d)) x + ind {D Workqueue} x + evl_cache_unit d x"
  have "held d' = (\<lambda>x. arrays_held d ?g x + u x)" using assms(1,7) by (simp add: set_up_def)
  also have "\<dots> = arrays_held d (\<lambda>x. ?g x + u x)" by (simp add: arrays_held_def units units_held fun_eq_iff)
  finally show ?thesis using assms(1-6)
    by (simp add: set_up_def flags_ok_def evl_cache_unit_def algebra_simps)
qed

lemma set_up_loaded:
  assumes "set_up E h d" "loaded d d'" "held d' = (\<lambda>x. held d x + u x)"
  shows "set_up E (\<lambda>x. h x + u x) d'"
  using set_up_cong [OF assms(1) _ _ _ _ _ assms(3)] loaded_views [OF assms(2)] assms(1,2)
  by (simp add: loaded_def set_up_def)

lemma no_refs_sva: "no_refs h \<Longrightarrow> no_refs (addh (sva_objs f) h)"
  by (auto simp: no_refs_def addh_def sva_objs_def)

lemma no_refs_irq: "no_refs h \<Longrightarrow> no_refs (\<lambda>x. h x + irq_unit x)"
  by (auto simp: no_refs_def irq_unit_def ind_def)

lemma probe_spec:
  assumes w: "world_ok E" and d: "live_ptrs d = {}" "dev_evl d = None" "dev_pmu d = None" "dev_flags d = 0" "no_refs (held d)"
    and s: "pf_dev s = d"
  shows "\<exists>rc s'. idxd_probe E a online s = Some (rc, s') \<and>
    (if rc \<noteq> 0 then leftover (held d) (pf_dev s') \<and> dev_pmu (pf_dev s') = None
     else set_up E (\<lambda>x. held d x + irq_unit x + pmu_unit (pf_dev s') x) (pf_dev s') \<and> (\<forall>t. 0 < ext_rc E t (Svc MsixVecCount)))"
proof -
  have ok: "map_ok E" "vec_ok E" "domain_ok E" using w by (simp_all add: world_ok_def)
  obtain r1 d1 where 1: "idxd_device_init_reset E d = (r1, d1)" by force
  note k1 = init_reset_keeps [OF 1, unfolded probe_keeps_def]
  show ?thesis
  proof (cases "r1 < 0")
    case True
    then have "idxd_probe E a online s = Some (r1, s\<lparr>pf_dev := d1\<rparr>)" by (simp add: idxd_probe_def s 1)
    then show ?thesis using True k1 d by (simp add: leftover_def ind_def evl_unit_def)
  next
    case f1: False
    define d2 where "d2 = probe_sva E d1"
    have s2: "live_ptrs d2 = {}" "dev_evl d2 = None" "dev_pmu d2 = None" "held d2 = addh (sva_objs (dev_flags d2)) (held d)"
      "flags_ok E d2"
      using probe_sva_spec [of d1 E] k1 d by (simp_all add: d2_def flags_ok_def)
    define d3 where "d3 = idxd_read_table_offsets (idxd_read_caps d2)"
    have bits: "bit (dev_flags d3) (Suc k) = bit (dev_flags d2) (Suc k)" for k
      using table_offsets_frame(1) [of "idxd_read_caps d2"] read_caps_frame(5) [of d2 k] by (simp add: d3_def probe_keeps_def)
    have fl: "sva_objs (dev_flags d3) = sva_objs (dev_flags d2)" "flags_ok E d3"
    proof -
      have "bit (dev_flags d3) 2 = bit (dev_flags d2) 2" "bit (dev_flags d3) 3 = bit (dev_flags d2) 3"
        using bits [of 1] bits [of 2] by (simp_all add: numeral_2_eq_2 numeral_3_eq_3)
      then show "sva_objs (dev_flags d3) = sva_objs (dev_flags d2)" "flags_ok E d3"
        using s2(5) by (simp_all add: sva_objs_def flags_ok_def)
    qed
    have s3: "live_ptrs d3 = {}" "dev_evl d3 = None" "dev_pmu d3 = None" "held d3 = addh (sva_objs (dev_flags d3)) (held d)"
      "4 \<le> unat (wqcfg_size d3)"
      using table_offsets_frame [of "idxd_read_caps d2"] read_caps_frame [of d2] wqcfg_bound(2) [of d2] s2 fl
      by (simp_all add: d3_def probe_keeps_def)
    obtain r4 d4 where 4: "idxd_setup_internals E d3 = (r4, d4)" by force
    note s4 = setup_internals_spec [OF 4 ok(1) _ s3(5)]
    have nr: "no_refs (held d3)" using no_refs_sva [OF d(5)] s3(4) by simp
    note s4 = s4 [OF nr]
    have fl4: "dev_flags d4 = dev_flags d3" "dev_pmu d4 = None" using s4 s3(3) by (simp_all add: same_hw_def)
    then have dom: "if bit (dev_flags d4) IDXD_FLAG_PASID_ENABLED then (\<exists>t. 0 \<le> ext_rc E t (Svc GetDomain)) else True"
      using fl(2) by (simp add: flags_ok_def split: if_splits)
    note u = unprobe_sva_spec [OF ok(3) dom]
    show ?thesis
    proof (cases "r4 < 0")
      case True
      then have p: "idxd_probe E a online s = Some (r4, s\<lparr>pf_dev := unprobe_sva E d4\<rparr>)"
        using f1 by (simp add: idxd_probe_def s 1 d2_def [symmetric] d3_def [symmetric] 4)
      obtain L where L: "L \<subseteq> {Wqs, WqEnableMap, Engines, Groups}" "live_ptrs d4 = L" "held d4 = addh (D ` L) (held d3)"
        using s4 True s3(1) by (auto simp: stopped_def)
      have "leftover (held d) (unprobe_sva E d4)"
        using u L s4 s3(2,4) True fl4(1) by (auto simp: leftover_def units evl_unit_def)
      with p True u fl4(2) show ?thesis by simp
    next
      case f4: False
      have v4: "arrays_held d4 = arrays_held d3" "has_evl d3 \<longleftrightarrow> dev_evl d4 \<noteq> None"
      proof -
        have "same_hw d3 d4" using s4 by simp
        from same_hw_views [OF this] show "arrays_held d4 = arrays_held d3"
          by (intro ext) (simp add: arrays_held_def)
        show "has_evl d3 \<longleftrightarrow> dev_evl d4 \<noteq> None" using s4 f4 s3(2) by simp
      qed
      have "held d4 = arrays_held d4 (\<lambda>x. held d x + ind (sva_objs (dev_flags d4)) x + ind {D Workqueue} x + evl_cache_unit d4 x)"
      proof -
        have "held d4 = addh (evl_objs d3) (addh {D Workqueue} (arrays_held d3 (addh (sva_objs (dev_flags d3)) (held d))))"
          using s4 f4 s3(4) by simp
        also have "\<dots> = arrays_held d3 (addh (evl_objs d3) (addh {D Workqueue} (addh (sva_objs (dev_flags d3)) (held d))))"
          by (simp add: arrays_commute)
        also have "addh (evl_objs d3) (addh {D Workqueue} (addh (sva_objs (dev_flags d3)) (held d))) =
            (\<lambda>x. held d x + ind (sva_objs (dev_flags d4)) x + ind {D Workqueue} x + evl_cache_unit d4 x)"
          using v4(2) fl4(1) by (auto simp: units evl_objs_def evl_cache_unit_def ind_def fun_eq_iff)
        finally show ?thesis using v4(1) by simp
      qed
      moreover have "has_arrays d4" "live_ptrs d4 = {Wqs, WqEnableMap, Engines, Groups} \<union> (if dev_evl d4 = None then {} else {EvlCache})"
        using s4 f4 s3(1) v4(2) by auto
      ultimately have S4: "set_up E (held d) d4" using fl(2) fl4(1) by (simp add: set_up_def flags_ok_def)
      obtain r5 d5 where 5: "(if \<not> bit (dev_flags d4) IDXD_FLAG_CONFIGURABLE then idxd_device_load_config d4 else (0, d4)) = (r5, d5)"
        by force
      have l5: "loaded d4 d5" "held d5 = held d4" "r5 \<le> 0"
        using 5 load_config_ok [of d4 r5 d5] by (auto simp: same_load_def loaded_refl split: if_splits)
      have S5: "set_up E (held d) d5" using set_up_loaded [OF S4 l5(1), of "\<lambda>_. 0"] l5(2) by simp
      have p5: "dev_pmu d5 = None" using l5(1) fl4(2) by (simp add: loaded_def)
      show ?thesis
      proof (cases "r5 < 0")
        case True
        then have "idxd_probe E a online s = Some (r5, s\<lparr>pf_dev := unprobe_sva E (idxd_cleanup_internals d5)\<rparr>)"
          using f1 f4 s4 5 by (simp add: idxd_probe_def s 1 d2_def [symmetric] d3_def [symmetric] 4)
        with True cleanup_set_up [OF S5 d(5) ok(3)] p5 show ?thesis by simp
      next
        case f5: False
        then have r5: "r5 = 0" using l5(3) by simp
        obtain r6 d6 where 6: "idxd_setup_interrupts E d5 = (r6, d6)" by force
        note s6 = setup_interrupts_spec [OF 6 ok(2)]
        have p6: "dev_pmu d6 = None" using s6 p5 by (simp add: loaded_def)
        show ?thesis
        proof (cases "r6 = 0")
          case False
          then have "idxd_probe E a online s = Some (r6, s\<lparr>pf_dev := unprobe_sva E (idxd_cleanup_internals d6)\<rparr>)"
            using f1 f4 s4 5 r5 by (simp add: idxd_probe_def s 1 d2_def [symmetric] d3_def [symmetric] 4 6)
          moreover have "set_up E (held d) d6" using set_up_loaded [OF S5, of d6 "\<lambda>_. 0"] s6 False by simp
          ultimately show ?thesis using False cleanup_set_up [OF _ d(5) ok(3)] p6 by simp
        next
          case r6: True
          have h6: "held d6 = (\<lambda>x. held d5 x + irq_unit x)" using s6 r6 by (simp add: units irq_unit_def)
          have S6: "set_up E (\<lambda>x. held d x + irq_unit x) d6" using set_up_loaded [OF S5 _ h6] s6 by simp
          obtain r7 s7 where 7: "perfmon_pmu_init E a online (s\<lparr>pf_dev := d6\<rparr>) = Some (r7, s7)"
            "if r7 = 0 then dev_pmu (pf_dev s7) \<noteq> None \<and> held (pf_dev s7) = addh {M Pmu, M PmuReg, M CpuhpInst} (held d6)
             else dev_pmu (pf_dev s7) = None \<and> held (pf_dev s7) = held d6"
          proof -
            assume r: "\<And>r7 s7. perfmon_pmu_init E a online (s\<lparr>pf_dev := d6\<rparr>) = Some (r7, s7) \<Longrightarrow>
              (if r7 = 0 then dev_pmu (pf_dev s7) \<noteq> None \<and> held (pf_dev s7) = addh {M Pmu, M PmuReg, M CpuhpInst} (held d6)
               else dev_pmu (pf_dev s7) = None \<and> held (pf_dev s7) = held d6) \<Longrightarrow> thesis"
            have "dev_pmu (pf_dev (s\<lparr>pf_dev := d6\<rparr>)) = None" using p6 by simp
            from pmu_init_spec [OF this, of E a online] show thesis
              by (elim exE conjE) (rule r, assumption, simp)
          qed
          have p: "idxd_probe E a online s = Some (0, s7)"
            using f1 f4 s4 5 r5 6 r6 7(1) by (simp add: idxd_probe_def s 1 d2_def [symmetric] d3_def [symmetric] 4)
          have "pview (pf_dev s7) = pview d6" using pview_pmu_init [OF 7(1)] by simp
          note f = pview_fields [OF this] pview_views [OF this]
          have "held (pf_dev s7) = (\<lambda>x. held d6 x + pmu_unit (pf_dev s7) x)"
            using 7(2) by (auto simp: pmu_unit_def units split: if_splits)
          from set_up_cong [OF S6 _ _ _ _ _ this] f S6 have
            "set_up E (\<lambda>x. held d x + irq_unit x + pmu_unit (pf_dev s7) x) (pf_dev s7)" by (simp add: set_up_def)
          with p s6 r6 show ?thesis by simp
        qed
      qed
    qed
  qed
qed

subsection \<open>Registering the devices\<close>

definition reg_objs :: "idxd_device \<Rightarrow> obj set" where
  "reg_objs d = {Registered DevIdxd} \<union> (\<lambda>i. Registered (DevWq i)) ` {..<max_wqs d} \<union>
     (\<lambda>i. Registered (DevEngine i)) ` {..<max_engines d} \<union> (\<lambda>i. Registered (DevGroup i)) ` {..<max_groups d}"

definition members_register :: "env \<Rightarrow> bool" where
  "members_register E \<longleftrightarrow> (\<forall>t i. 0 \<le> ext_rc E t (Acq (Registered (DevWq i))) \<and>
     0 \<le> ext_rc E t (Acq (Registered (DevEngine i))) \<and> 0 \<le> ext_rc E t (Acq (Registered (DevGroup i))))"

lemma acquire_ok:
  fixes d :: "'a machine_scheme"
  assumes "\<forall>t. 0 \<le> ext_rc E t (Acq x)"
  shows "\<exists>r t. acquire E x d = (r, d\<lparr>held := addh {x} (held d), trace := t\<rparr>) \<and> \<not> r < 0"
proof (cases rule: acquire_cases [of E x d])
  case (failed r t)
  moreover have "fst (acquire E x d) = ext_rc E (trace d) (Acq x)" by (simp add: acquire_def ext_def Let_def)
  ultimately show ?thesis using assms [rule_format, of "trace d"] by simp
next
  case (got r t)
  then show ?thesis by blast
qed

lemma register_from_ok:
  assumes "\<forall>t i. 0 \<le> ext_rc E t (Acq (Registered (c i)))" "distinct is" "inj c"
  shows "\<exists>t. register_from E c n is d =
     Some (0, d\<lparr>held := (\<lambda>x. held d x + ind ((\<lambda>i. Registered (c i)) ` set is) x), trace := t\<rparr>)"
  using assms(2)
proof (induction "is" arbitrary: d)
  case Nil
  show ?case by (intro exI [of _ "trace d"]) (simp add: ind_def)
next
  case (Cons i "is")
  obtain r t where a: "acquire E (Registered (c i)) d = (r, d\<lparr>held := addh {Registered (c i)} (held d), trace := t\<rparr>)" "\<not> r < 0"
    using acquire_ok [of E "Registered (c i)" d] assms(1) by blast
  let ?d = "d\<lparr>held := addh {Registered (c i)} (held d), trace := t\<rparr>"
  have n: "Registered (c i) \<notin> (\<lambda>i. Registered (c i)) ` set is" using Cons.prems assms(3) by (auto dest: injD)
  have h: "(\<lambda>x. held ?d x + ind ((\<lambda>i. Registered (c i)) ` set is) x) =
      (\<lambda>x. held d x + ind ((\<lambda>i. Registered (c i)) ` set (i # is)) x)"
    using n by (auto simp: units ind_def fun_eq_iff)
  have "distinct is" using Cons.prems by simp
  from Cons.IH [OF this, of ?d] obtain t' where
    "register_from E c n is ?d = Some (0, ?d\<lparr>held := \<lambda>x. held ?d x + ind ((\<lambda>i. Registered (c i)) ` set is) x, trace := t'\<rparr>)"
    by (elim exE)
  then have "register_from E c n (i # is) d =
      Some (0, d\<lparr>held := \<lambda>x. held d x + ind ((\<lambda>i. Registered (c i)) ` set (i # is)) x, trace := t'\<rparr>)"
    unfolding h using a by simp
  then show ?case by blast
qed

lemma register_devices_ok:
  assumes "members_register E"
  shows "(\<exists>rc t t'. idxd_register_devices E d = Some (rc, d\<lparr>trace := t\<rparr>) \<and> rc < 0 \<and> rc = ext_rc E t' (Acq (Registered DevIdxd))) \<or>
    (\<exists>t. idxd_register_devices E d = Some (0, d\<lparr>held := \<lambda>x. held d x + ind (reg_objs d) x, trace := t\<rparr>))"
proof (cases rule: acquire_cases [of E "Registered DevIdxd" d])
  case (failed r t)
  moreover obtain t' where "r = ext_rc E t' (Acq (Registered DevIdxd))" using acquire_rc [OF failed(1)] by (elim exE)
  ultimately show ?thesis by (intro disjI1 exI [of _ r] exI [of _ t] exI [of _ t']) (simp add: idxd_register_devices_def)
next
  case (got r t)
  define h0 where "h0 = addh {Registered DevIdxd} (held d)"
  have i: "inj DevWq" "inj DevEngine" "inj DevGroup" by (simp_all add: inj_def)
  have reg: "\<forall>t i. 0 \<le> ext_rc E t (Acq (Registered (DevWq i)))" "\<forall>t i. 0 \<le> ext_rc E t (Acq (Registered (DevEngine i)))"
    "\<forall>t i. 0 \<le> ext_rc E t (Acq (Registered (DevGroup i)))"
    using assms by (simp_all add: members_register_def)
  define h1 where "h1 = (\<lambda>x. h0 x + ind ((\<lambda>i. Registered (DevWq i)) ` {..<max_wqs d}) x)"
  obtain t1 where 1: "idxd_register_wq_devices E (d\<lparr>held := h0, trace := t\<rparr>) = Some (0, d\<lparr>held := h1, trace := t1\<rparr>)"
    using register_from_ok [OF reg(1) _ i(1), of "[0..<max_wqs d]" "max_wqs d" "d\<lparr>held := h0, trace := t\<rparr>"]
    by (auto simp: idxd_register_wq_devices_def atLeast0LessThan h1_def)
  define h2 where "h2 = (\<lambda>x. h1 x + ind ((\<lambda>i. Registered (DevEngine i)) ` {..<max_engines d}) x)"
  obtain t2 where 2: "idxd_register_engine_devices E (d\<lparr>held := h1, trace := t1\<rparr>) = Some (0, d\<lparr>held := h2, trace := t2\<rparr>)"
    using register_from_ok [OF reg(2) _ i(2), of "[0..<max_engines d]" "max_engines d" "d\<lparr>held := h1, trace := t1\<rparr>"]
    by (auto simp: idxd_register_engine_devices_def atLeast0LessThan h2_def)
  define h3 where "h3 = (\<lambda>x. h2 x + ind ((\<lambda>i. Registered (DevGroup i)) ` {..<max_groups d}) x)"
  obtain t3 where 3: "idxd_register_group_devices E (d\<lparr>held := h2, trace := t2\<rparr>) = Some (0, d\<lparr>held := h3, trace := t3\<rparr>)"
    using register_from_ok [OF reg(3) _ i(3), of "[0..<max_groups d]" "max_groups d" "d\<lparr>held := h2, trace := t2\<rparr>"]
    by (auto simp: idxd_register_group_devices_def atLeast0LessThan h3_def)
  have "idxd_register_devices E d = Some (0, d\<lparr>held := h3, trace := t3\<rparr>)"
    using got 1 2 3 by (simp add: idxd_register_devices_def h0_def [symmetric])
  moreover have "h3 = (\<lambda>x. held d x + ind (reg_objs d) x)"
  proof
    show "h3 x = held d x + ind (reg_objs d) x" for x
      by (cases x) (auto simp: h0_def h1_def h2_def h3_def units ind_def reg_objs_def)
  qed
  ultimately show ?thesis by (intro disjI2 exI [of _ t3]) simp
qed

lemma set_up_more:
  assumes "set_up E h d"
  shows "set_up E (\<lambda>x. h x + u x) (d\<lparr>held := \<lambda>x. held d x + u x, trace := t\<rparr>)"
  by (rule set_up_cong [OF assms]) (use assms in \<open>auto simp: set_up_def has_arrays_def has_wqs_def has_engines_def
      has_groups_def opc_def arrays_held_def wqs_held_def engines_held_def groups_held_def\<close>)

lemma set_up_trace: "set_up E h d \<Longrightarrow> set_up E h (d\<lparr>trace := t\<rparr>)"
  using set_up_more [of E h d "\<lambda>_. 0" t] by simp

subsection \<open>Probing the PCI device\<close>

definition alloc_never_fails :: "env \<Rightarrow> bool" where
  "alloc_never_fails E \<longleftrightarrow> (\<forall>t. 0 \<le> ext_rc E t (Acq (D IdxdId)) \<and> 0 \<le> ext_rc E t (Acq (D DevOpcap)))"

definition dev_unit :: "obj \<Rightarrow> int" where
  "dev_unit = ind {D IdxdStruct, D IdxdId, D DevOpcap, DevRef DevIdxd}"

lemma alloc_ok:
  assumes "alloc_never_fails E" "held d (DevRef DevIdxd) = 0" "idxd_alloc E data d = (ok, d')"
  shows "if ok then live_ptrs d' = {} \<and> dev_evl d' = None \<and> dev_pmu d' = None \<and> dev_flags d' = 0 \<and>
      held d' = (\<lambda>x. held d x + dev_unit x) else held d' = held d"
proof (cases rule: acquire_cases [of E "D IdxdStruct" d])
  case (failed r t)
  then show ?thesis using assms(3) by (auto simp: idxd_alloc_def)
next
  case (got r t)
  define d1 where "d1 = zero_device\<lparr>regs := regs d, held := addh {D IdxdStruct} (held d), trace := t, drv_data := data\<rparr>"
  obtain r2 t2 where 2: "acquire E (D IdxdId) d1 = (r2, d1\<lparr>held := addh {D IdxdId} (held d1), trace := t2\<rparr>)" "\<not> r2 < 0"
    using acquire_ok [of E "D IdxdId" d1] assms(1) by (auto simp: alloc_never_fails_def)
  define d2 where "d2 = d1\<lparr>held := addh {D IdxdId} (held d1), trace := t2, dev_id := r2\<rparr>"
  obtain r3 t3 where 3: "acquire E (D DevOpcap) d2 = (r3, d2\<lparr>held := addh {D DevOpcap} (held d2), trace := t3\<rparr>)" "\<not> r3 < 0"
    using acquire_ok [of E "D DevOpcap" d2] assms(1) by (auto simp: alloc_never_fails_def)
  define d3 where "d3 = hold (DevRef DevIdxd) (d2\<lparr>held := addh {D DevOpcap} (held d2), trace := t3\<rparr>)"
  obtain r4 t4 where 4: "ext E (Svc (SetName DevIdxd)) d3 = (r4, d3\<lparr>trace := t4\<rparr>)"
    using ext_cases by metis
  define d4 where "d4 = d3\<lparr>trace := t4\<rparr>"
  have a: "idxd_alloc E data d = (if r4 < 0 then (False, put_device DevIdxd d4) else (True, d4))"
    using got 2 3 4 unfolding idxd_alloc_def
    by (simp add: d1_def [symmetric] d2_def [symmetric] d3_def [symmetric] d4_def [symmetric])
  have f: "live_ptrs d4 = {}" "dev_evl d4 = None" "dev_pmu d4 = None" "dev_flags d4 = 0"
    by (simp_all add: d4_def d3_def d2_def d1_def zero_device_def)
  have h: "held d4 = (\<lambda>x. held d x + dev_unit x)"
    by (auto simp: d4_def d3_def d2_def d1_def units dev_unit_def ind_def fun_eq_iff)
  have l: "leftover (\<lambda>x. held d x + dev_unit x) d4" using f h by (simp add: leftover_def ind_def evl_unit_def)
  show ?thesis
  proof (cases "r4 < 0")
    case True
    have "held d (DevRef DevIdxd) + dev_unit (DevRef DevIdxd) = 1" using assms(2) by (simp add: dev_unit_def ind_def)
    from put_idxd [OF l this] True a assms(3) show ?thesis
      by (auto simp: dev_unit_def ind_def fun_eq_iff)
  next
    case False
    then show ?thesis using a assms(3) f h by simp
  qed
qed


lemma set_up_pview:
  assumes "set_up E h d" "pview d' = pview d" "held d' = (\<lambda>x. held d x + u x)"
  shows "set_up E (\<lambda>x. h x + u x) d'"
  by (rule set_up_cong [OF assms(1) _ _ _ _ _ assms(3)])
    (use assms(1) pview_fields [OF assms(2)] pview_views [OF assms(2)] in \<open>simp_all add: set_up_def\<close>)

lemma pmu_remove_held:
  "pview (pf_dev (perfmon_pmu_remove s)) = pview (pf_dev s)"
  "held (pf_dev (perfmon_pmu_remove s)) = (\<lambda>x. held (pf_dev s) x - pmu_unit (pf_dev s) x)"
  by (auto simp: perfmon_pmu_remove_def on_pf_dev_def pmu_unit_def units ind_def fun_eq_iff split: option.split)

lemma cleanup_interrupts_held:
  assumes "\<forall>t. 0 < ext_rc E t (Svc MsixVecCount)"
  shows "pview (idxd_cleanup_interrupts E d) = pview d"
    "held (idxd_cleanup_interrupts E d) = (\<lambda>x. held d x - irq_unit x)"
  using assms [rule_format, of "trace d"]
  by (auto simp: idxd_cleanup_interrupts_def ext_def Let_def idxd_mask_error_interrupts_def units irq_unit_def ind_def fun_eq_iff)

lemma cleanup_spec:
  assumes "set_up E (\<lambda>x. h x + irq_unit x + pmu_unit (pf_dev s) x) (pf_dev s)" "\<forall>t. 0 < ext_rc E t (Svc MsixVecCount)"
    "no_refs h" "domain_ok E"
  shows "leftover h (pf_dev (idxd_cleanup E s))"
proof -
  let ?d1 = "pf_dev (perfmon_pmu_remove s)"
  have "set_up E (\<lambda>x. h x + irq_unit x + pmu_unit (pf_dev s) x + - pmu_unit (pf_dev s) x) ?d1"
    by (rule set_up_pview [OF assms(1)]) (simp_all add: pmu_remove_held)
  then have 1: "set_up E (\<lambda>x. h x + irq_unit x) ?d1" by simp
  have "set_up E (\<lambda>x. h x + irq_unit x + - irq_unit x) (idxd_cleanup_interrupts E ?d1)"
    by (rule set_up_pview [OF 1]) (simp_all add: cleanup_interrupts_held [OF assms(2)])
  then have 2: "set_up E h (idxd_cleanup_interrupts E ?d1)" by simp
  from cleanup_set_up [OF 2 assms(3,4)] show ?thesis by (simp add: idxd_cleanup_def on_pf_dev_def)
qed

definition pci_held :: "(obj \<Rightarrow> int) \<Rightarrow> obj \<Rightarrow> int" where
  "pci_held h x = h x + ind {D PciDev} x + dev_unit x"

lemma put_pci:
  assumes "leftover (pci_held h) d" "h (DevRef DevIdxd) = 0"
  shows "held (release (D PciDev) (put_device DevIdxd d)) = h"
proof -
  have "pci_held h (DevRef DevIdxd) = 1" using assms(2) by (simp add: pci_held_def dev_unit_def ind_def)
  from put_idxd [OF assms(1) this] show ?thesis by (auto simp: units pci_held_def dev_unit_def ind_def fun_eq_iff)
qed

lemma put_iomap:
  assumes "leftover (\<lambda>x. pci_held h x + ind {D Iomap} x) d" "h (DevRef DevIdxd) = 0"
  shows "held (release (D PciDev) (put_device DevIdxd (release (D Iomap) d))) = h"
  by (rule put_pci [where h = h]) (use assms in \<open>auto simp: leftover_def units evl_unit_def fun_eq_iff\<close>)

lemma init_debugfs_held:
  assumes "idxd_device_init_debugfs E d = (rc, d')" "held d (D DebugfsDir) = 0"
  shows "pview d' = pview d \<and> dev_pmu d' = dev_pmu d \<and> (held d' = held d \<or> held d' = (\<lambda>x. held d x + ind {D DebugfsDir} x))"
proof (cases rule: acquire_cases [of E "D DebugfsDir" d])
  case (failed r t)
  with assms show ?thesis by (auto simp: idxd_device_init_debugfs_def pview_def split: if_splits)
next
  case (got r t)
  let ?d = "d\<lparr>held := addh {D DebugfsDir} (held d), trace := t\<rparr>"
  obtain r' t' where e: "ext E (Svc DebugfsFile) ?d = (r', ?d\<lparr>trace := t'\<rparr>)" using ext_cases by metis
  have u: "(\<lambda>x. held d x + ind {D DebugfsDir} x - ind {D DebugfsDir} x) = held d" by simp
  from assms got e show ?thesis
    by (auto simp: idxd_device_init_debugfs_def pview_def units release_upd split: if_splits)
qed


text \<open>What a probed device holds, beyond \<open>h\<close>.\<close>

definition probed :: "env \<Rightarrow> (obj \<Rightarrow> int) \<Rightarrow> idxd_device \<Rightarrow> bool" where
  "probed E h d \<longleftrightarrow> (\<exists>g. (g = {} \<or> g = {D DebugfsDir}) \<and>
     set_up E (\<lambda>x. pci_held h x + ind {D Iomap} x + irq_unit x + pmu_unit d x + ind (reg_objs d) x + ind g x) d)"

lemma no_refs_pci: "no_refs h \<Longrightarrow> no_refs (\<lambda>x. pci_held h x + ind {D Iomap} x)" "no_refs h \<Longrightarrow> no_refs (addh {D PciDev} h)"
  by (auto simp: no_refs_def pci_held_def dev_unit_def ind_def addh_def)

lemma reg_objs_pview: "pview d' = pview d \<Longrightarrow> reg_objs d' = reg_objs d"
  using pview_fields [of d' d] by (simp add: reg_objs_def)

lemma no_dir:
  "arrays_held d h (D DebugfsDir) = h (D DebugfsDir)" "ind (sva_objs f) (D DebugfsDir) = 0" "evl_cache_unit d (D DebugfsDir) = 0"
  "ind {D Workqueue} (D DebugfsDir) = 0" "pci_held h (D DebugfsDir) = h (D DebugfsDir)" "ind {D Iomap} (D DebugfsDir) = 0"
  "irq_unit (D DebugfsDir) = 0" "pmu_unit d (D DebugfsDir) = 0" "ind (reg_objs d) (D DebugfsDir) = 0"
  by (auto simp: arrays_held_def units_held units ind_def wq_objs_def engine_objs_def group_objs_def sva_objs_def
      evl_cache_unit_def pci_held_def dev_unit_def irq_unit_def pmu_unit_def reg_objs_def)

lemma pci_probe_spec:
  assumes w: "world_ok E" "alloc_never_fails E" "members_register E"
    and h: "no_refs (held (pf_dev s))" "held (pf_dev s) (DevRef DevIdxd) = 0" "held (pf_dev s) (D DebugfsDir) = 0"
  shows "\<exists>rc s'. idxd_pci_probe E a online data s = Some (rc, s') \<and>
    (if rc = 0 then probed E (held (pf_dev s)) (pf_dev s') else held (pf_dev s') = held (pf_dev s))"
proof (cases rule: acquire_cases [of E "D PciDev" "pf_dev s"])
  case (failed r t)
  then show ?thesis by (simp add: idxd_pci_probe_def)
next
  case (got r t)
  define h0 where "h0 = held (pf_dev s)"
  define d0 where "d0 = pf_dev s\<lparr>held := addh {D PciDev} h0, trace := t\<rparr>"
  have d0: "held d0 = addh {D PciDev} h0" "held d0 (DevRef DevIdxd) = 0" using h(2) by (simp_all add: d0_def h0_def addh_def)
  obtain ok d1 where 1: "idxd_alloc E data d0 = (ok, d1)" by force
  note a1 = alloc_ok [OF w(2) d0(2) 1]
  have g0: "acquire E (D PciDev) (pf_dev s) = (r, d0)" "\<not> r < 0" using got by (simp_all add: d0_def h0_def)
  note start = idxd_pci_probe_def g0 1 on_pf_dev_def
  show ?thesis
  proof (cases ok)
    case False
    then have "idxd_pci_probe E a online data s = Some (- ENOMEM, s\<lparr>pf_dev := release (D PciDev) d1\<rparr>)"
      by (simp add: start)
    then show ?thesis using a1 False d0(1) by (simp add: h0_def)
  next
    case True
    then have d1: "live_ptrs d1 = {}" "dev_evl d1 = None" "dev_pmu d1 = None" "dev_flags d1 = 0" "held d1 = pci_held h0"
      using a1 d0(1) by (auto simp: pci_held_def units fun_eq_iff)
    have l1: "leftover (pci_held h0) (d1\<lparr>trace := t\<rparr>)" for t using d1 by (simp add: leftover_def ind_def evl_unit_def)
    show ?thesis
    proof (cases rule: acquire_cases [of E "D Iomap" d1])
      case (failed r2 t2)
      then have "idxd_pci_probe E a online data s =
          Some (- ENOMEM, s\<lparr>pf_dev := release (D PciDev) (put_device DevIdxd (d1\<lparr>trace := t2\<rparr>))\<rparr>)"
        using \<open>ok\<close> by (simp add: start)
      with put_pci [OF l1 [of t2]] h(2) show ?thesis by (simp add: h0_def)
    next
      case (got r2 t2)
      define h2 where "h2 = (\<lambda>x. pci_held h0 x + ind {D Iomap} x)"
      define d2 where "d2 = d1\<lparr>held := h2, trace := t2\<rparr>"
      have g2: "acquire E (D Iomap) d1 = (r2, d2)" "\<not> r2 < 0" using got d1(5) by (simp_all add: d2_def h2_def units)
      obtain r3 t3 where 3: "ext E (Svc SetDmaMask) d2 = (r3, d2\<lparr>trace := t3\<rparr>)" using ext_cases by metis
      define d3 where "d3 = d2\<lparr>trace := t3\<rparr>"
      have d3: "ext E (Svc SetDmaMask) d2 = (r3, d3)" "held d3 = h2" "live_ptrs d3 = {}" "dev_evl d3 = None" "dev_pmu d3 = None"
        "dev_flags d3 = 0" using 3 d1 by (simp_all add: d3_def d2_def)
      define err where "err = (\<lambda>d. release (D PciDev) (put_device DevIdxd (release (D Iomap) d)))"
      have err: "held (err d) = h0" if "leftover h2 d" for d
        using put_iomap [of h0 d] that h(2) by (simp add: err_def h2_def h0_def)
      show ?thesis
      proof (cases "r3 = 0")
        case False
        have "leftover h2 d3" using d3 by (simp add: leftover_def ind_def evl_unit_def)
        moreover have "idxd_pci_probe E a online data s = Some (r3, s\<lparr>pf_dev := err d3\<rparr>)"
          using \<open>ok\<close> g2 d3(1) False by (simp add: start err_def)
        ultimately show ?thesis using err [of d3] False by (simp add: h0_def)
      next
        case r3: True
        define s4 where "s4 = s\<lparr>pf_dev := d3\<lparr>version := ioread32 IDXD_VER_OFFSET d3\<rparr>\<rparr>"
        have nr: "no_refs h2" using no_refs_pci(1) [OF h(1)] by (simp add: h2_def h0_def)
        obtain r5 s5 where 5: "idxd_probe E a online s4 = Some (r5, s5)"
          "if r5 \<noteq> 0 then leftover h2 (pf_dev s5) \<and> dev_pmu (pf_dev s5) = None
           else set_up E (\<lambda>x. h2 x + irq_unit x + pmu_unit (pf_dev s5) x) (pf_dev s5) \<and> (\<forall>t. 0 < ext_rc E t (Svc MsixVecCount))"
        proof -
          assume r: "\<And>r5 s5. idxd_probe E a online s4 = Some (r5, s5) \<Longrightarrow>
            (if r5 \<noteq> 0 then leftover h2 (pf_dev s5) \<and> dev_pmu (pf_dev s5) = None
             else set_up E (\<lambda>x. h2 x + irq_unit x + pmu_unit (pf_dev s5) x) (pf_dev s5) \<and> (\<forall>t. 0 < ext_rc E t (Svc MsixVecCount)))
            \<Longrightarrow> thesis"
          have f: "live_ptrs (pf_dev s4) = {}" "dev_evl (pf_dev s4) = None" "dev_pmu (pf_dev s4) = None" "dev_flags (pf_dev s4) = 0"
            "held (pf_dev s4) = h2" using d3 by (simp_all add: s4_def)
          have "no_refs (held (pf_dev s4))" using nr f(5) by simp
          from probe_spec [OF w(1) f(1-4) this refl, of a online, unfolded f(5)] show thesis
            by (elim exE conjE) (rule r)
        qed
        have p4: "idxd_pci_probe E a online data s =
            (if r5 \<noteq> 0 then Some (r5, s5\<lparr>pf_dev := err (pf_dev s5)\<rparr>)
             else case idxd_register_devices E (pf_dev s5) of None \<Rightarrow> None
             | Some (rc, d) \<Rightarrow>
                 if rc \<noteq> 0 then Some (rc, (idxd_cleanup E (s5\<lparr>pf_dev := d\<rparr>))\<lparr>pf_dev := err (pf_dev (idxd_cleanup E (s5\<lparr>pf_dev := d\<rparr>)))\<rparr>)
                 else Some (0, s5\<lparr>pf_dev := snd (idxd_device_init_debugfs E d)\<rparr>))"
          using \<open>ok\<close> g2 d3(1) r3 5(1) by (simp add: start err_def s4_def split: option.split)
        show ?thesis
        proof (cases "r5 = 0")
          case False
          with p4 5(2) err [of "pf_dev s5"] show ?thesis by (simp add: h0_def)
        next
          case True
          with 5(2) have S: "set_up E (\<lambda>x. h2 x + irq_unit x + pmu_unit (pf_dev s5) x) (pf_dev s5)"
            and mx: "\<forall>t. 0 < ext_rc E t (Svc MsixVecCount)" by simp_all
          from register_devices_ok [OF w(3), of "pf_dev s5"] show ?thesis
          proof (elim disjE exE conjE)
            fix rc t t' assume r: "idxd_register_devices E (pf_dev s5) = Some (rc, (pf_dev s5)\<lparr>trace := t\<rparr>)" "rc < 0"
            let ?s = "s5\<lparr>pf_dev := (pf_dev s5)\<lparr>trace := t\<rparr>\<rparr>"
            have "set_up E (\<lambda>x. h2 x + irq_unit x + pmu_unit (pf_dev ?s) x) (pf_dev ?s)"
              using set_up_trace [OF S, of t] by (simp add: pmu_unit_def)
            then have "leftover h2 (pf_dev (idxd_cleanup E ?s))"
              by (rule cleanup_spec [OF _ mx nr]) (use w(1) in \<open>simp add: world_ok_def\<close>)
            with p4 True r err show ?thesis by (simp add: h0_def)
          next
            fix t assume r: "idxd_register_devices E (pf_dev s5) =
              Some (0, (pf_dev s5)\<lparr>held := \<lambda>x. held (pf_dev s5) x + ind (reg_objs (pf_dev s5)) x, trace := t\<rparr>)"
            define d6 where "d6 = (pf_dev s5)\<lparr>held := \<lambda>x. held (pf_dev s5) x + ind (reg_objs (pf_dev s5)) x, trace := t\<rparr>"
            have v6: "pview d6 = pview (pf_dev s5)" "dev_pmu d6 = dev_pmu (pf_dev s5)" by (simp_all add: d6_def pview_def)
            have S6: "set_up E (\<lambda>x. h2 x + irq_unit x + pmu_unit d6 x + ind (reg_objs d6) x) d6"
              using set_up_more [OF S, of "ind (reg_objs (pf_dev s5))" t] v6 reg_objs_pview [OF v6(1)]
              by (simp add: d6_def pmu_unit_def)
            have z: "held d6 (D DebugfsDir) = 0"
              using S6 h(3) by (simp add: set_up_def no_dir h2_def h0_def)
            obtain r7 d7 where 7: "idxd_device_init_debugfs E d6 = (r7, d7)" by force
            note i7 = init_debugfs_held [OF 7 z]
            have p: "idxd_pci_probe E a online data s = Some (0, s5\<lparr>pf_dev := d7\<rparr>)"
              using p4 True r 7 by (simp add: d6_def)
            have u: "pmu_unit d7 = pmu_unit d6" "reg_objs d7 = reg_objs d6"
              using i7 reg_objs_pview [of d7 d6] by (simp_all add: pmu_unit_def)
            have "\<exists>g. (g = {} \<or> g = {D DebugfsDir}) \<and> held d7 = (\<lambda>x. held d6 x + ind g x)"
            proof (cases "held d7 = held d6")
              case True
              then show ?thesis by (intro exI [of _ "{}"]) (simp add: ind_def)
            next
              case False
              with i7 show ?thesis by blast
            qed
            then obtain g where g: "g = {} \<or> g = {D DebugfsDir}" "held d7 = (\<lambda>x. held d6 x + ind g x)" by (elim exE conjE)
            have "set_up E (\<lambda>x. h2 x + irq_unit x + pmu_unit d6 x + ind (reg_objs d6) x + ind g x) d7"
              by (rule set_up_pview [OF S6 _ g(2)]) (use i7 in simp)
            with g(1) u have "probed E h0 d7" by (auto simp: probed_def h2_def)
            with p show ?thesis by (simp add: h0_def)
          qed
        qed
      qed
    qed
  qed
qed


subsection \<open>Unregistering the arrays\<close>

locale conf_array_reg = conf_array +
  assumes inj: "inj c"
    and reg_fr: "fr d (release (Registered (c k)) d)"
    and reg_keeps: "P n d \<Longrightarrow> P n (release (Registered (c k)) d)"
    and reg_apart: "Registered b \<notin> X k"
begin

lemma unregisters:
  assumes "P n d" "distinct ks" "set ks \<subseteq> {..<n}" "\<forall>k \<in> set ks. held d (DevRef (c k)) = 1"
  shows "fr d (fold (\<lambda>k. device_unregister (c k)) ks d) \<and> P n (fold (\<lambda>k. device_unregister (c k)) ks d) \<and>
    held (fold (\<lambda>k. device_unregister (c k)) ks d) =
      (\<lambda>x. held d x - ind (\<Union>k \<in> set ks. X k) x - ind ((\<lambda>k. Registered (c k)) ` set ks) x)"
  using assms
proof (induction ks arbitrary: d)
  case Nil
  then show ?case by (simp add: fr_refl ind_def)
next
  case (Cons k ks)
  let ?r = "release (Registered (c k)) d" let ?d = "device_unregister (c k) d"
  have r: "P n ?r" "held ?r (DevRef (c k)) = 1" using Cons.prems reg_keeps by (simp_all add: subh_def)
  have 1: "fr d ?d" "P n ?d" "held ?d = (\<lambda>x. held d x - ind {Registered (c k)} x - ind (X k) x)"
    using put_spec [OF r(1) _ r(2)] Cons.prems(3) fr_trans [OF reg_fr] by (auto simp: device_unregister_def units)
  have "\<forall>j \<in> set ks. held ?d (DevRef (c j)) = 1"
  proof
    fix j assume j: "j \<in> set ks"
    then have "j \<noteq> k" using Cons.prems(2) by auto
    then have "DevRef (c j) \<notin> X k" using apart [of j k] own [of j] by auto
    then show "held ?d (DevRef (c j)) = 1" using Cons.prems(4) j by (simp add: 1 ind_def)
  qed
  with Cons.IH [of ?d] 1(2) Cons.prems(2,3) have 2: "fr ?d (fold (\<lambda>k. device_unregister (c k)) ks ?d)"
    "P n (fold (\<lambda>k. device_unregister (c k)) ks ?d)"
    "held (fold (\<lambda>k. device_unregister (c k)) ks ?d) =
      (\<lambda>x. held ?d x - ind (\<Union>k \<in> set ks. X k) x - ind ((\<lambda>k. Registered (c k)) ` set ks) x)"
    by auto
  have n: "(\<Union>k \<in> set ks. X k) \<inter> X k = {}" "Registered (c k) \<notin> (\<lambda>k. Registered (c k)) ` set ks"
    using Cons.prems(2) inj by (auto intro!: apart_Un dest: injD)
  have "ind (\<Union>k \<in> set (k # ks). X k) x = ind (X k) x + ind (\<Union>k \<in> set ks. X k) x" for x
    using n(1) by (auto simp: ind_def)
  moreover have "ind ((\<lambda>k. Registered (c k)) ` set (k # ks)) x =
      ind {Registered (c k)} x + ind ((\<lambda>k. Registered (c k)) ` set ks) x" for x
    using n(2) by (auto simp: ind_def)
  ultimately show ?case using 1 2 fr_trans [OF 1(1) 2(1)] by (simp add: algebra_simps)
qed

lemma unregisters_all:
  assumes "P n d" "\<forall>k<n. held d (DevRef (c k)) = 1"
  shows "fr d (fold (\<lambda>k. device_unregister (c k)) [0..<n] d) \<and>
    held (fold (\<lambda>k. device_unregister (c k)) [0..<n] d) =
      (\<lambda>x. held d x - ind (\<Union>k<n. X k) x - ind ((\<lambda>k. Registered (c k)) ` {..<n}) x)"
  using unregisters [OF assms(1), of "[0..<n]"] assms(2) by (simp add: atLeast0LessThan lessThan_def [symmetric])

end

interpretation enr: conf_array_reg "setup_engine E" DevEngine engine_objs has_engines fr_engines for E
  by unfold_locales (auto simp: inj_def fr_engines_def has_engines_def engine_objs_def release_upd)

interpretation grr: conf_array_reg "setup_group E" DevGroup group_objs has_groups fr_groups for E
  by unfold_locales (auto simp: inj_def fr_groups_def has_groups_def group_objs_def release_upd)

interpretation wqr: conf_array_reg "setup_wq E" DevWq "wq_objs opc" "has_wqs opc" fr_wqs for E opc
  by unfold_locales (auto simp: inj_def fr_wqs_def has_wqs_def wq_objs_def release_upd)

lemma unregister_devices_spec:
  assumes "has_arrays d" "held d = arrays_held d h" "no_refs h"
  shows "held (idxd_unregister_devices d) = (\<lambda>x. h x + ind (D ` {Wqs, WqEnableMap, Engines, Groups}) x -
      ind (reg_objs d) x + ind {Registered DevIdxd} x)"
    "same_hw d (idxd_unregister_devices d)" "live_ptrs (idxd_unregister_devices d) = live_ptrs d"
    "dev_evl (idxd_unregister_devices d) = dev_evl d"
proof -
  let ?w = "fold (\<lambda>i. device_unregister (DevWq i)) [0..<max_wqs d] d"
  let ?e = "fold (\<lambda>i. device_unregister (DevEngine i)) [0..<max_engines d] ?w"
  let ?g = "fold (\<lambda>i. device_unregister (DevGroup i)) [0..<max_groups d] ?e"
  have z: "h (DevRef (DevWq k)) = 0" "h (DevRef (DevEngine k)) = 0" "h (DevRef (DevGroup k)) = 0" for k
    using assms(3) by (simp_all add: no_refs_def)
  have hd: "held d x = h x + ind (D ` {Wqs, WqEnableMap, Engines, Groups}) x + ind (\<Union>k<max_wqs d. wq_objs (opc d) k) x +
      ind (\<Union>k<max_engines d. engine_objs k) x + ind (\<Union>k<max_groups d. group_objs k) x" for x
    by (simp add: assms(2) arrays_held_def units_held units)
  have a: "has_wqs (opc d) (max_wqs d) d" "has_engines (max_engines d) d" "has_groups (max_groups d) d"
    using assms(1) by (simp_all add: has_arrays_def)
  have "\<forall>k<max_wqs d. held d (DevRef (DevWq k)) = 1"
    by (auto simp: hd z ind_def wq_objs_def engine_objs_def group_objs_def)
  from wqr.unregisters_all [OF a(1) this] have w: "fr_wqs d ?w" "held ?w = (\<lambda>x. held d x -
      ind (\<Union>k<max_wqs d. wq_objs (opc d) k) x - ind ((\<lambda>k. Registered (DevWq k)) ` {..<max_wqs d}) x)" by simp_all
  have "has_engines (max_engines d) ?w" using a(2) fr_wqsD [OF w(1)] by (simp add: has_engines_def)
  moreover have "\<forall>k<max_engines d. held ?w (DevRef (DevEngine k)) = 1"
    by (auto simp: w(2) hd z ind_def wq_objs_def engine_objs_def group_objs_def)
  ultimately have e: "fr_engines ?w ?e" "held ?e = (\<lambda>x. held ?w x -
      ind (\<Union>k<max_engines d. engine_objs k) x - ind ((\<lambda>k. Registered (DevEngine k)) ` {..<max_engines d}) x)"
    using enr.unregisters_all [of "max_engines d" ?w] by simp_all
  have "has_groups (max_groups d) ?e" using a(3) fr_wqsD [OF w(1)] fr_enginesD [OF e(1)] by (simp add: has_groups_def)
  moreover have "\<forall>k<max_groups d. held ?e (DevRef (DevGroup k)) = 1"
    by (auto simp: e(2) w(2) hd z ind_def wq_objs_def engine_objs_def group_objs_def)
  ultimately have g: "fr_groups ?e ?g" "held ?g = (\<lambda>x. held ?e x -
      ind (\<Union>k<max_groups d. group_objs k) x - ind ((\<lambda>k. Registered (DevGroup k)) ` {..<max_groups d}) x)"
    using grr.unregisters_all [of "max_groups d" ?e] by simp_all
  have u: "idxd_unregister_devices d = ?g"
    using fr_wqsD [OF w(1)] fr_enginesD [OF e(1)] by (simp add: idxd_unregister_devices_def)
  have r: "ind (reg_objs d) x = ind {Registered DevIdxd} x + ind ((\<lambda>k. Registered (DevWq k)) ` {..<max_wqs d}) x +
      ind ((\<lambda>k. Registered (DevEngine k)) ` {..<max_engines d}) x + ind ((\<lambda>k. Registered (DevGroup k)) ` {..<max_groups d}) x" for x
    by (auto simp: ind_def reg_objs_def)
  show "held (idxd_unregister_devices d) = (\<lambda>x. h x + ind (D ` {Wqs, WqEnableMap, Engines, Groups}) x -
      ind (reg_objs d) x + ind {Registered DevIdxd} x)"
    by (simp add: u g(2) e(2) w(2) hd r fun_eq_iff)
  show "same_hw d (idxd_unregister_devices d)" "live_ptrs (idxd_unregister_devices d) = live_ptrs d"
    "dev_evl (idxd_unregister_devices d) = dev_evl d"
    using fr_wqsD [OF w(1)] fr_enginesD [OF e(1)] fr_groupsD [OF g(1)] by (simp_all add: u same_hw_def)
qed


subsection \<open>Removal\<close>

definition rview :: "idxd_device \<Rightarrow> _" where
  "rview d = (held d, live_ptrs d, dev_evl d, dev_pmu d, bit (dev_flags d) IDXD_FLAG_PASID_ENABLED,
     bit (dev_flags d) IDXD_FLAG_USER_PASID_ENABLED)"

lemma rview_simps [simp]:
  "rview (notify v d) = rview d" "rview (iowrite32 E w off d) = rview d" "rview (d\<lparr>dev_state := st\<rparr>) = rview d"
  "rview (d\<lparr>cmd_status := cs\<rparr>) = rview d" "rview (d\<lparr>regs := r\<rparr>) = rview d" "rview (d\<lparr>pasid := p\<rparr>) = rview d"
  "rview (upd_wq i f d) = rview d" "rview (upd_group i g d) = rview d" "rview (upd_engine i e d) = rview d"
  by (simp_all add: rview_def upd_wq_def upd_group_def upd_engine_def)

lemma rview_flags [simp]:
  "rview (d\<lparr>dev_flags := set_bit IDXD_FLAG_CMD_RUNNING f\<rparr>) = rview (d\<lparr>dev_flags := f\<rparr>)"
  "rview (d\<lparr>dev_flags := unset_bit IDXD_FLAG_CMD_RUNNING f\<rparr>) = rview (d\<lparr>dev_flags := f\<rparr>)"
  by (simp_all add: rview_def bit_set_bit_iff bit_unset_bit_iff)

lemma rview_fold: "(\<And>i d. rview (f i d) = rview d) \<Longrightarrow> rview (fold f xs d) = rview d"
  by (induction xs arbitrary: d) simp_all

lemma rview_cmd: "rview (snd (idxd_cmd_exec E c x d)) = rview d"
proof -
  have "rview (d\<lparr>cmd_status := st, dev_flags := dev_flags d\<rparr>) = rview d" for st by (simp add: rview_def)
  then show ?thesis
    by (simp add: idxd_cmd_exec_def Let_def rview_def bit_set_bit_iff bit_unset_bit_iff)
qed

lemma rview_clear: "rview (idxd_device_clear_state E d) = rview d"
  by (simp add: idxd_device_clear_state_def Let_def idxd_device_wqs_clear_state_def idxd_groups_clear_state_def
      idxd_engines_clear_state_def idxd_wq_device_reset_cleanup_def idxd_wq_disable_cleanup_def rview_fold)

lemma rview_shutdown: "rview (idxd_shutdown E d) = rview d"
proof -
  have "rview (snd (idxd_device_disable E d)) = rview d"
    using rview_cmd [of E IDXD_CMD_DISABLE_DEVICE 0 d]
    by (auto simp: idxd_device_disable_def rview_clear split: prod.split if_splits)
  then show ?thesis by (simp add: idxd_shutdown_def idxd_mask_error_interrupts_def Let_def)
qed


lemma rview_fields:
  assumes "rview d' = rview d"
  shows "held d' = held d" "live_ptrs d' = live_ptrs d" "dev_evl d' = dev_evl d" "dev_pmu d' = dev_pmu d"
    "device_pasid_enabled d' = device_pasid_enabled d" "device_user_pasid_enabled d' = device_user_pasid_enabled d"
  using assms by (simp_all add: rview_def device_pasid_enabled_def device_user_pasid_enabled_def)

definition rest :: "idxd_device \<Rightarrow> _" where
  "rest d = (live_ptrs d, dev_evl d, dev_pmu d, device_pasid_enabled d, device_user_pasid_enabled d)"

lemma rest_simps [simp]:
  "rest (release x d) = rest d" "rest (hold x d) = rest d" "rest (idxd_device_remove_debugfs d) = rest d"
  "rest (idxd_disable_sva d) = rest d"
  by (simp_all add: rest_def device_pasid_enabled_def device_user_pasid_enabled_def idxd_device_remove_debugfs_def idxd_disable_sva_def)

lemma rest_rview: "rview d' = rview d \<Longrightarrow> rest d' = rest d"
  by (simp add: rest_def rview_def device_pasid_enabled_def device_user_pasid_enabled_def)

lemma disable_system_pasid_spec:
  assumes "\<forall>t. 0 \<le> ext_rc E t (Svc GetDomain)"
  shows "held (idxd_disable_system_pasid E d) = (\<lambda>x. held d x - ind {S SysPasid, S PasidAttach} x)"
    "rest (idxd_disable_system_pasid E d) = rest d"
proof -
  have e: "ext E (Svc GetDomain) d = (ext_rc E (trace d) (Svc GetDomain), snd (ext E (Svc GetDomain) d))"
    "held (snd (ext E (Svc GetDomain) d)) = held d" "rest (snd (ext E (Svc GetDomain) d)) = rest d"
    by (simp_all add: ext_def Let_def rest_def device_pasid_enabled_def device_user_pasid_enabled_def)
  have i: "rest (idxd_set_user_intr E b x\<lparr>pasid := p\<rparr>) = rest x" "held (idxd_set_user_intr E b x\<lparr>pasid := p\<rparr>) = held x" for b x p
    by (simp_all add: idxd_set_user_intr_def rest_def device_pasid_enabled_def device_user_pasid_enabled_def)
  define d0 where "d0 = snd (ext E (Svc GetDomain) d)"
  have "\<not> ext_rc E (trace d) (Svc GetDomain) < 0" using assms by (simp add: not_less)
  then have "idxd_disable_system_pasid E d =
      (idxd_set_user_intr E False (release (S SysPasid) (release (S PasidAttach) d0)))\<lparr>pasid := invalid_pasid E\<rparr>"
    unfolding idxd_disable_system_pasid_def Let_def by (subst e(1)) (simp add: d0_def)
  with e(2,3) i show "rest (idxd_disable_system_pasid E d) = rest d"
    "held (idxd_disable_system_pasid E d) = (\<lambda>x. held d x - ind {S SysPasid, S PasidAttach} x)"
    by (simp_all add: d0_def [symmetric]) (auto simp: units ind_def)
qed

lemma unregister_idxd:
  assumes "held d (DevRef DevIdxd) = 1"
  shows "held (device_unregister DevIdxd (hold (DevRef DevIdxd) d)) = (\<lambda>x. held d x - ind {Registered DevIdxd} x)"
    "rest (device_unregister DevIdxd (hold (DevRef DevIdxd) d)) = rest d"
  using assms by (auto simp: device_unregister_def put_device_def Let_def units ind_def fun_eq_iff)

lemma remove_spec:
  assumes p: "probed E h (pf_dev s)" and h: "no_refs h" "h (DevRef DevIdxd) = 0" "h (D DebugfsDir) = 0" and E: "domain_ok E"
  shows "held (pf_dev (idxd_remove E (\<lambda>d. d) s)) = h"
proof -
  let ?d = "pf_dev s"
  obtain g where g: "g = {} \<or> g = {D DebugfsDir}" and S: "set_up E (\<lambda>x. pci_held h x + ind {D Iomap} x + irq_unit x +
      pmu_unit ?d x + ind (reg_objs ?d) x + ind g x) ?d"
    using p by (auto simp: probed_def)
  define k where "k = (\<lambda>x. pci_held h x + ind {D Iomap} x + irq_unit x + pmu_unit ?d x + ind g x +
    ind (sva_objs (dev_flags ?d)) x + ind {D Workqueue} x + evl_cache_unit ?d x)"
  have hd: "has_arrays ?d" "held ?d = arrays_held ?d (\<lambda>x. k x + ind (reg_objs ?d) x)" "flags_ok E ?d"
    "live_ptrs ?d = {Wqs, WqEnableMap, Engines, Groups} \<union> (if dev_evl ?d = None then {} else {EvlCache})"
    using S by (simp_all add: set_up_def k_def algebra_simps)
  have nr: "no_refs (\<lambda>x. k x + ind (reg_objs ?d) x)"
    using h(1) g by (auto simp: no_refs_def k_def pci_held_def dev_unit_def irq_unit_def pmu_unit_def sva_objs_def
        evl_cache_unit_def reg_objs_def ind_def)
  define d1 where "d1 = idxd_unregister_devices ?d"
  define k4 where "k4 = (\<lambda>x. k x + ind (D ` {Wqs, WqEnableMap, Engines, Groups}) x)"
  note u = unregister_devices_spec [OF hd(1,2) nr, folded d1_def]
  have 1: "held d1 = (\<lambda>x. k4 x + ind {Registered DevIdxd} x)" "rest d1 = rest ?d"
    using u by (simp_all add: k4_def rest_def same_hw_def device_pasid_enabled_def device_user_pasid_enabled_def fun_eq_iff)
  have "held d1 (DevRef DevIdxd) = 1"
    using h(2) g by (auto simp: 1 k4_def k_def pci_held_def dev_unit_def irq_unit_def pmu_unit_def sva_objs_def
        evl_cache_unit_def ind_def)
  note i = unregister_idxd [OF this]
  define d2 where "d2 = idxd_shutdown E (device_unregister DevIdxd (hold (DevRef DevIdxd) d1))"
  have 2: "held d2 = k4" "rest d2 = rest ?d"
    using i 1 rview_fields(1) [OF rview_shutdown] rest_rview [OF rview_shutdown] by (simp_all add: d2_def)
  define sys where "sys = (if device_pasid_enabled ?d then {S SysPasid, S PasidAttach} else {})"
  define usr where "usr = (if device_user_pasid_enabled ?d then {S Iopf, S SvaFeat} else {})"
  define d3 where "d3 = (if device_pasid_enabled d2 then idxd_disable_system_pasid E d2 else d2)"
  have pas: "device_pasid_enabled d2 = device_pasid_enabled ?d" using 2(2) by (simp add: rest_def)
  have 3: "held d3 = (\<lambda>x. k4 x - ind sys x)" "rest d3 = rest ?d"
  proof -
    have "\<forall>t. 0 \<le> ext_rc E t (Svc GetDomain)" if "device_pasid_enabled ?d"
      using hd(3) E that by (simp add: flags_ok_def device_pasid_enabled_def domain_ok_def) (meson not_le)
    from disable_system_pasid_spec [OF this] show "held d3 = (\<lambda>x. k4 x - ind sys x)" "rest d3 = rest ?d"
      using pas 2 by (simp_all add: d3_def sys_def ind_def [of "{}"])
  qed
  define d4 where "d4 = idxd_device_remove_debugfs d3"
  have "held d3 (D DebugfsDir) = ind g (D DebugfsDir)"
    using h(3) by (simp add: 3 k4_def k_def no_dir sys_def) (simp add: ind_def)
  then have 4: "held d4 = (\<lambda>x. k4 x - ind sys x - ind g x)" "rest d4 = rest ?d"
    using g 3 by (auto simp: d4_def idxd_device_remove_debugfs_def units ind_def)
  define d5 where "d5 = release (D Iomap) (release (D IrqVectors) (release (D MiscIrq) d4))"
  have 5: "held d5 = (\<lambda>x. k4 x - ind sys x - ind g x - irq_unit x - ind {D Iomap} x)" "rest d5 = rest ?d"
    using 4 by (auto simp: d5_def units irq_unit_def ind_def fun_eq_iff)
  define d6 where "d6 = (if device_user_pasid_enabled d5 then idxd_disable_sva d5 else d5)"
  have "device_user_pasid_enabled d5 = device_user_pasid_enabled ?d" using 5(2) by (simp add: rest_def)
  then have 6: "held d6 = (\<lambda>x. k4 x - ind sys x - ind g x - irq_unit x - ind {D Iomap} x - ind usr x)" "rest d6 = rest ?d"
    using 5 by (auto simp: d6_def usr_def idxd_disable_sva_def units ind_def fun_eq_iff)
  define d7 where "d7 = release (D Workqueue) (release (D PciDev) d6)"
  have us: "ind (sva_objs (dev_flags ?d)) x = ind sys x + ind usr x" for x
    by (auto simp: sva_objs_def sys_def usr_def device_pasid_enabled_def device_user_pasid_enabled_def ind_def)
  have 7: "held d7 = (\<lambda>x. h x + dev_unit x + pmu_unit ?d x + evl_cache_unit ?d x + ind (D ` {Wqs, WqEnableMap, Engines, Groups}) x)"
    "rest d7 = rest ?d"
    using 6 by (auto simp: d7_def units k4_def k_def us pci_held_def fun_eq_iff)
  have r: "idxd_remove E (\<lambda>d. d) s = on_pf_dev (put_device DevIdxd) (perfmon_pmu_remove (s\<lparr>pf_dev := d7\<rparr>))"
    by (simp add: idxd_remove_def d1_def d2_def d3_def d4_def d5_def d6_def d7_def)
  let ?d8 = "pf_dev (perfmon_pmu_remove (s\<lparr>pf_dev := d7\<rparr>))"
  have f: "live_ptrs d7 = live_ptrs ?d" "dev_evl d7 = dev_evl ?d" "dev_pmu d7 = dev_pmu ?d" using 7(2) by (simp_all add: rest_def)
  have "live_ptrs ?d8 = live_ptrs ?d" "dev_evl ?d8 = dev_evl ?d"
    using f pview_fields [OF pmu_remove_held(1) [of "s\<lparr>pf_dev := d7\<rparr>"]] by simp_all
  moreover have "held ?d8 = (\<lambda>x. h x + dev_unit x + evl_cache_unit ?d x + ind (D ` {Wqs, WqEnableMap, Engines, Groups}) x)"
    using 7(1) f(3) by (simp add: pmu_remove_held(2) pmu_unit_def fun_eq_iff)
  ultimately have "leftover (\<lambda>x. h x + dev_unit x) ?d8"
    using hd(4) by (auto simp: leftover_def evl_unit_def evl_cache_unit_def ind_def fun_eq_iff)
  moreover have "h (DevRef DevIdxd) + dev_unit (DevRef DevIdxd) = 1" using h(2) by (simp add: dev_unit_def ind_def)
  ultimately have "held (put_device DevIdxd ?d8) = h"
    using put_idxd [of "\<lambda>x. h x + dev_unit x" ?d8] by (auto simp: dev_unit_def ind_def fun_eq_iff)
  then show ?thesis by (simp add: r on_pf_dev_def)
qed


subsection \<open>Properties\<close>

lemma probe_error_held:
  assumes "world_ok E" "alloc_never_fails E" "members_register E"
    and "no_refs (held (pf_dev s))" "held (pf_dev s) (DevRef DevIdxd) = 0" "held (pf_dev s) (D DebugfsDir) = 0"
    and "idxd_pci_probe E a online data s = Some (rc, s')" "rc \<noteq> 0"
  shows "held (pf_dev s') = held (pf_dev s)"
  using pci_probe_spec [OF assms(1-6), of a online data] assms(7,8) by auto

text \<open>
  C8: when \<^verbatim>\<open>idxd_pci_probe\<close> fails, wherever it fails, every reference, allocation, interrupt vector,
  mapping and registration it had obtained is given back: what is held is what was held before. This
  holds with the failures excluded whose paths do not clean up: those of the identifier and of the
  operation bitmap in \<^verbatim>\<open>idxd_alloc\<close>, of the enable map in \<^verbatim>\<open>idxd_setup_wqs\<close> (part of \<^const>\<open>world_ok\<close>), and of
  registering a queue, an engine or a group. \<^const>\<open>world_ok\<close> also says of the kernel that the number of
  vectors of a device is fixed and its address-space domain does not come and go.
\<close>

theorem probe_error_returns_all:
  assumes "world_ok E" "alloc_never_fails E" "members_register E"
    and "no_refs (held (pf_dev s))" "held (pf_dev s) (DevRef DevIdxd) = 0" "held (pf_dev s) (D DebugfsDir) = 0"
    and "idxd_pci_probe E a online data s = Some (rc, s')" "rc \<noteq> 0"
  shows "held (pf_dev s') = held (pf_dev s)"
  by (rule probe_error_held [OF assms])

text \<open>
  C6: probing a device and removing it again, with no driver bound to it, releases exactly what the
  probe obtained, each unit once; and the probe always returns. Same exclusions as above.
\<close>

theorem probe_remove_roundtrip:
  assumes "world_ok E" "alloc_never_fails E" "members_register E"
    and "no_refs (held (pf_dev s))" "held (pf_dev s) (DevRef DevIdxd) = 0" "held (pf_dev s) (D DebugfsDir) = 0"
  shows "\<exists>rc s'. idxd_pci_probe E a online data s = Some (rc, s') \<and>
    held (pf_dev (if rc = 0 then idxd_remove E (\<lambda>d. d) s' else s')) = held (pf_dev s)"
proof -
  have dom: "domain_ok E" using assms(1) by (simp add: world_ok_def)
  from pci_probe_spec [OF assms, of a online data] obtain rc s' where
    r: "idxd_pci_probe E a online data s = Some (rc, s')"
      "if rc = 0 then probed E (held (pf_dev s)) (pf_dev s') else held (pf_dev s') = held (pf_dev s)"
    by (elim exE conjE)
  show ?thesis
  proof (cases "rc = 0")
    case True
    with r remove_spec [OF _ assms(4-6) dom] show ?thesis by simp
  next
    case False
    with r show ?thesis by simp
  qed
qed

text \<open>A device with one group, two engines and four queues, whose capability registers are read only, and a kernel
  that gives two vectors.\<close>

definition probe_env :: env where
  "probe_env = sample_env\<lparr>io_write := (\<lambda>r off v. if off < IDXD_GENCFG_OFFSET then r else r(off := v)), ext_rc := (\<lambda>t c. if c = Svc MsixVecCount \<or> c = Acq (D IrqVectors) then 2 else 0)\<rparr>"

definition mask_env :: env where
  "mask_env = sample_env\<lparr>ext_rc := (\<lambda>t c. if c = Svc MsixVecCount \<or> c = Acq (D IrqVectors) then 2
     else if c = Svc SetDmaMask then - EINVAL else 0)\<rparr>"

definition probe_perf :: perf_state where
  "probe_perf = sample_perf\<lparr>pf_dev := zero_device\<lparr>regs := (\<lambda>_. 0)(IDXD_GENCAP_OFFSET := 0x80000000, IDXD_GRPCAP_OFFSET := 1,
     IDXD_ENGCAP_OFFSET := 2, IDXD_WQCAP_OFFSET := 0x40010)\<rparr>\<rparr>"

lemma probe_envs_ok:
  "world_ok probe_env" "alloc_never_fails probe_env" "members_register probe_env"
  "world_ok mask_env" "alloc_never_fails mask_env" "members_register mask_env"
  by (auto simp: world_ok_def map_ok_def vec_ok_def domain_ok_def alloc_never_fails_def members_register_def
      probe_env_def mask_env_def sample_env_def)

lemma probe_perf_ok:
  "no_refs (held (pf_dev probe_perf))" "held (pf_dev probe_perf) (DevRef DevIdxd) = 0" "held (pf_dev probe_perf) (D DebugfsDir) = 0"
  by (simp_all add: probe_perf_def no_refs_def zero_device_def)

lemma mask_probe:
  "\<exists>s'. idxd_pci_probe mask_env 0 [] \<lparr>drv_type = IDXD_TYPE_DSA, compl_size = 32\<rparr> probe_perf = Some (- EINVAL, s')"
  by (simp add: idxd_pci_probe_def idxd_alloc_def acquire_def ext_def Let_def mask_env_def sample_env_def on_pf_dev_def)

theorem probe_error_returns_all_witness:
  "\<exists>s'. idxd_pci_probe mask_env 0 [] \<lparr>drv_type = IDXD_TYPE_DSA, compl_size = 32\<rparr> probe_perf = Some (- EINVAL, s') \<and>
     held (pf_dev s') = held (pf_dev probe_perf)"
proof -
  obtain s' where "idxd_pci_probe mask_env 0 [] \<lparr>drv_type = IDXD_TYPE_DSA, compl_size = 32\<rparr> probe_perf = Some (- EINVAL, s')"
    using mask_probe by (elim exE)
  with probe_error_returns_all [OF probe_envs_ok(4-6) probe_perf_ok this] show ?thesis by simp
qed

theorem probe_remove_roundtrip_witness:
  "\<exists>rc s'. idxd_pci_probe probe_env 0 [] \<lparr>drv_type = IDXD_TYPE_DSA, compl_size = 32\<rparr> probe_perf = Some (rc, s') \<and>
     held (pf_dev (if rc = 0 then idxd_remove probe_env (\<lambda>d. d) s' else s')) = held (pf_dev probe_perf)"
  by (rule probe_remove_roundtrip [OF probe_envs_ok(1-3) probe_perf_ok])

end
