(* ===== verification/Establish.thy ===== *)
theory Establish
  imports Lifecycle
begin

text \<open>
  What the probe of a configurable device establishes: the invariants that the configuration files
  rely on. Then what goes wrong when registering a queue fails, and loading and unloading the module.
\<close>

subsection \<open>Members without groups\<close>

text \<open>The members start without groups and the groups without members.\<close>

definition blank :: "int \<Rightarrow> idxd_device \<Rightarrow> bool" where
  "blank n d \<longleftrightarrow> (\<forall>w\<in>set (wqs d). wq_group w = None) \<and> (\<forall>e\<in>set (engines d). eng_group e = None) \<and>
     (\<forall>g\<in>set (groups d). num_engines g = 0 \<and> num_wqs g = 0 \<and> rdbufs_reserved g = 0) \<and> nr_rdbufs d = n"

lemma blank_cong:
  "blank n d \<Longrightarrow> wqs d' = wqs d \<Longrightarrow> engines d' = engines d \<Longrightarrow> groups d' = groups d \<Longrightarrow> nr_rdbufs d' = nr_rdbufs d \<Longrightarrow> blank n d'"
  by (simp add: blank_def)

lemma setup_loop_ok:
  assumes "\<And>i d rc d'. one i d = (rc, d') \<Longrightarrow> \<not> rc < 0 \<Longrightarrow> Q d \<Longrightarrow> Q d'" "setup_loop one c is d = (rc, d')" "\<not> rc < 0" "Q d"
  shows "Q d'"
  using assms(2,4)
proof (induction "is" arbitrary: d)
  case Nil
  then show ?case by simp
next
  case (Cons i "is")
  obtain r d1 where o: "one i d = (r, d1)" by force
  with Cons.prems(1) assms(3) have "\<not> r < 0" by (auto split: if_splits)
  with Cons.prems o assms(1) [OF o] Cons.IH show ?case by simp
qed

lemma acquire_lists:
  assumes "acquire E x d = (r, d')"
  shows "wqs d' = wqs d \<and> engines d' = engines d \<and> groups d' = groups d \<and> nr_rdbufs d' = nr_rdbufs d"
  using assms by (auto simp: acquire_def ext_def Let_def split: if_splits)

lemma ext_lists:
  assumes "ext E q d = (r, d')"
  shows "wqs d' = wqs d \<and> engines d' = engines d \<and> groups d' = groups d \<and> nr_rdbufs d' = nr_rdbufs d"
  using assms by (auto simp: ext_def Let_def)

lemma setup_wq_blank:
  assumes "setup_wq E i d = (rc, d')" "\<not> rc < 0" "blank n d"
  shows "blank n d'"
  using assms
  by (auto simp: setup_wq_def Let_def blank_def idxd_wq_set_max_batch_size_def zero_wq_def split: prod.splits if_splits
      dest!: acquire_lists ext_lists)

lemma setup_engine_blank:
  assumes "setup_engine E i d = (rc, d')" "\<not> rc < 0" "blank n d"
  shows "blank n d'"
  using assms
  by (auto simp: setup_engine_def Let_def blank_def zero_engine_def split: prod.splits if_splits dest!: acquire_lists ext_lists)

lemma setup_group_blank:
  assumes "setup_group E i d = (rc, d')" "\<not> rc < 0" "blank n d"
  shows "blank n d'"
  using assms
  by (auto simp: setup_group_def Let_def blank_def zero_group_def split: prod.splits if_splits dest!: acquire_lists ext_lists)


lemma setup_wqs_blank:
  assumes "idxd_setup_wqs E d = (rc, d')" "\<not> rc < 0" "blank n (d\<lparr>wqs := []\<rparr>)"
  shows "blank n d'"
proof -
  obtain r1 d1 where 1: "acquire E (D Wqs) d = (r1, d1)" by force
  let ?d1 = "d1\<lparr>live_ptrs := insert Wqs (live_ptrs d1), wqs := []\<rparr>"
  obtain r2 d2 where 2: "acquire E (D WqEnableMap) ?d1 = (r2, d2)" by force
  have r: "\<not> r1 < 0" "\<not> r2 < 0" using assms(1,2) 1 2 by (auto simp: idxd_setup_wqs_def Let_def split: if_splits)
  let ?d2 = "d2\<lparr>live_ptrs := insert WqEnableMap (live_ptrs d2), wq_enable_map := {}\<rparr>"
  have "setup_loop (setup_wq E) DevWq [0..<max_wqs d2] ?d2 = (rc, d')"
    using assms(1) r by (simp add: idxd_setup_wqs_def 1 2)
  moreover have "blank n ?d2" using assms(3) acquire_lists [OF 1] acquire_lists [OF 2] by (simp add: blank_def)
  ultimately show ?thesis using setup_loop_ok [of "setup_wq E" "blank n"] setup_wq_blank assms(2) by blast
qed

lemma setup_engines_blank:
  assumes "idxd_setup_engines E d = (rc, d')" "\<not> rc < 0" "blank n (d\<lparr>engines := []\<rparr>)"
  shows "blank n d'"
proof -
  obtain r1 d1 where 1: "acquire E (D Engines) d = (r1, d1)" by force
  let ?d1 = "d1\<lparr>live_ptrs := insert Engines (live_ptrs d1), engines := []\<rparr>"
  have r: "\<not> r1 < 0" using assms(1,2) 1 by (auto simp: idxd_setup_engines_def Let_def split: if_splits)
  have "setup_loop (setup_engine E) DevEngine [0..<max_engines d1] ?d1 = (rc, d')"
    using assms(1) r by (simp add: idxd_setup_engines_def 1)
  moreover have "blank n ?d1" using assms(3) acquire_lists [OF 1] by (simp add: blank_def)
  ultimately show ?thesis using setup_loop_ok [of "setup_engine E" "blank n"] setup_engine_blank assms(2) by blast
qed

lemma setup_groups_blank:
  assumes "idxd_setup_groups E d = (rc, d')" "\<not> rc < 0" "blank n (d\<lparr>groups := []\<rparr>)"
  shows "blank n d'"
proof -
  obtain r1 d1 where 1: "acquire E (D Groups) d = (r1, d1)" by force
  let ?d1 = "d1\<lparr>live_ptrs := insert Groups (live_ptrs d1), groups := []\<rparr>"
  have r: "\<not> r1 < 0" using assms(1,2) 1 by (auto simp: idxd_setup_groups_def Let_def split: if_splits)
  have "setup_loop (setup_group E) DevGroup [0..<max_groups d1] ?d1 = (rc, d')"
    using assms(1) r by (simp add: idxd_setup_groups_def 1)
  moreover have "blank n ?d1" using assms(3) acquire_lists [OF 1] by (simp add: blank_def)
  ultimately show ?thesis using setup_loop_ok [of "setup_group E" "blank n"] setup_group_blank assms(2) by blast
qed

lemma init_evl_blank:
  assumes "idxd_init_evl E d = (rc, d')" "\<not> rc < 0" "blank n d"
  shows "blank n d'"
  using assms by (auto simp: idxd_init_evl_def Let_def blank_def split: prod.splits if_splits dest!: acquire_lists)

lemma setup_internals_blank:
  assumes "idxd_setup_internals E d = (0, d')" "blank n d"
  shows "blank n d'"
proof -
  have b: "blank n (x\<lparr>wqs := []\<rparr>)" "blank n (x\<lparr>engines := []\<rparr>)" "blank n (x\<lparr>groups := []\<rparr>)" if "blank n x" for x
    using that by (simp_all add: blank_def)
  obtain r1 d1 where 1: "idxd_setup_wqs E d = (r1, d1)" by force
  obtain r2 d2 where 2: "idxd_setup_engines E d1 = (r2, d2)" by force
  obtain r3 d3 where 3: "idxd_setup_groups E d2 = (r3, d3)" by force
  obtain r4 d4 where 4: "acquire E (D Workqueue) d3 = (r4, d4)" by force
  obtain r5 d5 where 5: "idxd_init_evl E d4 = (r5, d5)" by force
  have e: "idxd_setup_internals E d =
      (if r1 < 0 then (r1, d1) else if r2 < 0 then (r2, put_wqs d2) else if r3 < 0 then (r3, put_wqs (put_engines d3))
       else if r4 < 0 then (- ENOMEM, put_wqs (put_engines (put_groups d4)))
       else if r5 < 0 then (r5, put_wqs (put_engines (put_groups (release (D Workqueue) d5)))) else (0, d5))"
    by (simp add: idxd_setup_internals_def 1 2 3 4 5)
  have r: "\<not> r1 < 0" "\<not> r2 < 0" "\<not> r3 < 0" "\<not> r5 < 0" "d' = d5"
    using assms(1) unfolding e by (auto split: if_splits)
  have "blank n d1" by (rule setup_wqs_blank [OF 1 r(1) b(1) [OF assms(2)]])
  then have "blank n d2" by (intro setup_engines_blank [OF 2 r(2)] b)
  then have "blank n d3" by (intro setup_groups_blank [OF 3 r(3)] b)
  then have "blank n d4" using acquire_lists [OF 4] by (simp add: blank_def)
  then show ?thesis using init_evl_blank [OF 5 r(4)] r(5) by simp
qed

lemma blank_upd_ie: "blank n d \<Longrightarrow> blank n (upd_ie i f d)"
proof -
  assume b: "blank n d"
  have "map wq_group (wqs (upd_ie i f d)) = map wq_group (wqs d)" by (simp add: upd_ie_def upd_wq_def)
  from ball_map_eq [OF this, of "\<lambda>g. g = None"] b show ?thesis by (simp add: blank_def upd_ie_def upd_wq_def)
qed

lemma setup_interrupts_blank:
  assumes "idxd_setup_interrupts E d = (rc, d')" "blank n d"
  shows "blank n d' \<and> max_rdbufs d' = max_rdbufs d"
proof -
  have f: "blank n (fold (\<lambda>i. upd_ie i (f i)) xs e) \<and> max_rdbufs (fold (\<lambda>i. upd_ie i (f i)) xs e) = max_rdbufs e" if "blank n e" for f xs e
    using that by (induction xs arbitrary: e) (simp_all add: blank_upd_ie, simp add: upd_ie_def upd_wq_def)
  have m: "blank n (idxd_mask_error_interrupts E x) = blank n x" "max_rdbufs (idxd_mask_error_interrupts E x) = max_rdbufs x"
    "blank n (idxd_unmask_error_interrupts E x) = blank n x" "max_rdbufs (idxd_unmask_error_interrupts E x) = max_rdbufs x"
    "blank n (release r x) = blank n x" for x r
    by (simp_all add: idxd_mask_error_interrupts_def idxd_unmask_error_interrupts_def blank_def Let_def)
  have a: "blank n x' = blank n x \<and> max_rdbufs x' = max_rdbufs x" if "acquire E r x = (rc, x')" for x x' r rc
    using that by (auto simp: acquire_def ext_def Let_def blank_def split: if_splits)
  obtain r0 d0 where 0: "ext E (Svc MsixVecCount) d = (r0, d0)" by force
  have b0: "blank n (d0\<lparr>irq_cnt := k\<rparr>)" "max_rdbufs d0 = max_rdbufs d" for k
    using assms(2) 0 by (auto simp: blank_def ext_def Let_def)
  then have b0': "blank n d0" by (simp add: blank_def)
  obtain r1 d1 where 1: "acquire E (D IrqVectors) (d0\<lparr>irq_cnt := nat r0\<rparr>) = (r1, d1)" by force
  have b1: "blank n d1" "max_rdbufs d1 = max_rdbufs d" using a [OF 1] b0 by simp_all
  obtain r2 d2 where 2: "acquire E (D MiscIrq) d1 = (r2, d2)" by force
  have b2: "blank n d2" "max_rdbufs d2 = max_rdbufs d" using a [OF 2] b1 by simp_all
  show ?thesis
    using assms(1) b0' b0(2) b1 b2 f [OF b2(1)] m
    by (auto simp: idxd_setup_interrupts_def 0 1 2 split: if_splits)
qed


lemma blank_members:
  assumes "has_arrays d" "blank (max_rdbufs d) d" "max_wqs d < 256" "max_groups d < 256" "max_engines d \<le> 64"
    "0 \<le> max_rdbufs d" "max_rdbufs d < 256"
  shows "members_ok d \<and> rdbufs_ok d"
proof -
  have m: "map wq_id (wqs d) = [0..<max_wqs d]" "map eng_id (engines d) = [0..<max_engines d]" "map grp_id (groups d) = [0..<max_groups d]"
    using assms(1) by (simp_all add: has_arrays_def has_wqs_def has_engines_def has_groups_def)
  have l: "length (wqs d) = max_wqs d" "length (engines d) = max_engines d" "length (groups d) = max_groups d"
    using arg_cong [OF m(1), of length] arg_cong [OF m(2), of length] arg_cong [OF m(3), of length] by simp_all
  have o: "opcap_present d" using assms(1) by (auto simp: has_arrays_def has_wqs_def opcap_present_def)
  have wf: "wf_dev d" using assms(2-5) m l by (auto simp: wf_dev_def blank_def)
  have z: "group_size f g xs = 0" if "\<forall>x\<in>set xs. f x = None" for f :: "'a \<Rightarrow> nat option" and g xs
    using that unfolding group_size_def by (induction xs) auto
  have "\<forall>g<max_groups d. num_engines (groups d ! g) = 0 \<and> num_wqs (groups d ! g) = 0"
    using assms(2) l by (simp add: blank_def)
  moreover have r: "\<forall>g\<in>set (groups d). rdbufs_reserved g = 0" using assms(2) by (simp add: blank_def)
  have "sum_list (map (\<lambda>g. uint (rdbufs_reserved g)) xs) = 0" if "\<forall>g\<in>set xs. rdbufs_reserved g = 0" for xs
    using that by (induction xs) auto
  from this [OF r] have "reserved_total d = 0" by (simp add: reserved_total_def)
  ultimately show ?thesis
    using assms(2,6,7) wf o l z [of "wqs d" wq_group] z [of "engines d" eng_group]
    by (simp add: members_ok_def rdbufs_ok_def) (simp add: blank_def)
qed


subsection \<open>The probe\<close>

definition no_members :: "idxd_device \<Rightarrow> bool" where
  "no_members d \<longleftrightarrow> wqs d = [] \<and> engines d = [] \<and> groups d = []"

lemma no_members_keeps: "probe_keeps d d' \<Longrightarrow> no_members d' = no_members d"
  by (simp add: probe_keeps_def no_members_def)

lemma no_members_acquire: "acquire E x d = (r, d') \<Longrightarrow> no_members d' = no_members d"
  using acquire_lists [of E x d r d'] by (simp add: no_members_def)

lemma no_members_ext: "ext E q d = (r, d') \<Longrightarrow> no_members d' = no_members d"
  using ext_lists [of E q d r d'] by (simp add: no_members_def)

lemma caps_lists:
  "no_members (read_gen_caps d) = no_members d" "no_members (read_group_caps d) = no_members d"
  "no_members (read_engine_caps d) = no_members d" "no_members (read_wq_caps d) = no_members d"
  "no_members (read_op_caps d) = no_members d" "no_members (read_iaa_cap d) = no_members d"
  by (simp_all add: no_members_def read_iaa_cap_def read_op_caps_def read_wq_caps_def read_engine_caps_def read_group_caps_def)
    (simp add: read_gen_caps_def idxd_set_max_batch_size_def Let_def)

lemma caps_rdbufs:
  "max_rdbufs (read_group_caps d) = uint (getf group_cap_reg ''total_rdbufs'' (ioread64 IDXD_GRPCAP_OFFSET d))"
  "nr_rdbufs (read_group_caps d) = max_rdbufs (read_group_caps d)"
  "max_rdbufs (read_engine_caps d) = max_rdbufs d" "nr_rdbufs (read_engine_caps d) = nr_rdbufs d"
  "max_rdbufs (read_wq_caps d) = max_rdbufs d" "nr_rdbufs (read_wq_caps d) = nr_rdbufs d"
  "max_rdbufs (read_op_caps d) = max_rdbufs d" "nr_rdbufs (read_op_caps d) = nr_rdbufs d"
  "max_rdbufs (read_iaa_cap d) = max_rdbufs d" "nr_rdbufs (read_iaa_cap d) = nr_rdbufs d"
  by (simp_all add: read_iaa_cap_def read_op_caps_def read_wq_caps_def read_engine_caps_def read_group_caps_def Let_def)

lemma no_members_simps [simp]:
  "no_members (release x d) = no_members d" "no_members (notify v d) = no_members d" "no_members (hold x d) = no_members d"
  "no_members (iowrite32 E w off d) = no_members d" "no_members (d\<lparr>pasid := p\<rparr>) = no_members d"
  "no_members (d\<lparr>dev_flags := f\<rparr>) = no_members d" "no_members (idxd_read_caps d) = no_members d"
  "no_members (idxd_read_table_offsets d) = no_members d"
  by (simp_all add: idxd_read_caps_def caps_lists) (simp_all add: no_members_def idxd_read_table_offsets_def Let_def)

lemma offsets_rdbufs:
  "max_rdbufs (idxd_read_table_offsets d) = max_rdbufs d" "nr_rdbufs (idxd_read_table_offsets d) = nr_rdbufs d"
  "max_wqs (idxd_read_table_offsets d) = max_wqs d" "max_groups (idxd_read_table_offsets d) = max_groups d"
  by (simp_all add: idxd_read_table_offsets_def Let_def)

lemma read_caps_bounds:
  "nr_rdbufs (idxd_read_caps d) = max_rdbufs (idxd_read_caps d)" "0 \<le> max_rdbufs (idxd_read_caps d)"
  "max_rdbufs (idxd_read_caps d) < 256" "max_wqs (idxd_read_caps d) < 256" "max_groups (idxd_read_caps d) < 256"
  "max_engines (idxd_read_caps d) < 256"
proof -
  show "nr_rdbufs (idxd_read_caps d) = max_rdbufs (idxd_read_caps d)" "0 \<le> max_rdbufs (idxd_read_caps d)"
    by (simp_all add: idxd_read_caps_def caps_rdbufs)
  have "uint (getf group_cap_reg ''total_rdbufs'' x) < 256" for x :: u64
  proof -
    have "unat (getf group_cap_reg ''total_rdbufs'' x) < 256"
      using getf_bound [of group_cap_reg "''total_rdbufs''" x] by (simp add: group_cap_reg_def)
    from of_nat_less_iff [where 'a = int, THEN iffD2, OF this] show ?thesis by simp
  qed
  then show "max_rdbufs (idxd_read_caps d) < 256" unfolding idxd_read_caps_def caps_rdbufs by simp
  show "max_wqs (idxd_read_caps d) < 256" "max_groups (idxd_read_caps d) < 256" "max_engines (idxd_read_caps d) < 256"
    using getf_bound [of wq_cap_reg "''num_wqs''"] getf_bound [of group_cap_reg "''num_groups''"]
      getf_bound [of engine_cap_reg "''num_engines''"]
    unfolding read_caps_max by (simp_all add: wq_cap_reg_def group_cap_reg_def engine_cap_reg_def)
qed

lemma no_members_sva: "no_members (probe_sva E d) = no_members d"
  by (auto simp: probe_sva_def idxd_enable_sva_def idxd_enable_system_pasid_def idxd_set_user_intr_def Let_def
      split: prod.splits if_splits dest!: no_members_acquire no_members_ext)

lemma no_members_alloc: "idxd_alloc E data d = (True, d') \<Longrightarrow> no_members d'"
proof -
  let ?z = "\<lambda>d. zero_device\<lparr>regs := regs d, held := held d, trace := trace d, drv_data := data\<rparr>"
  have z: "no_members (?z d)" "no_members (x\<lparr>dev_id := i\<rparr>) = no_members x" for d x i by (simp_all add: no_members_def zero_device_def)
  show "idxd_alloc E data d = (True, d') \<Longrightarrow> no_members d'"
    by (auto simp: idxd_alloc_def Let_def z split: prod.splits if_splits dest!: no_members_acquire no_members_ext)
qed


lemma probe_blank:
  assumes "idxd_probe E a online s = Some (0, s')" "no_members (pf_dev s)" "world_ok E"
    and "live_ptrs (pf_dev s) = {}" "dev_evl (pf_dev s) = None" "dev_pmu (pf_dev s) = None" "dev_flags (pf_dev s) = 0"
      "no_refs (held (pf_dev s))"
    and "bit (dev_flags (pf_dev s')) IDXD_FLAG_CONFIGURABLE" "max_engines (pf_dev s') \<le> 64"
  shows "members_ok (pf_dev s') \<and> rdbufs_ok (pf_dev s')"
proof -
  obtain r1 d1 where 1: "idxd_device_init_reset E (pf_dev s) = (r1, d1)" by force
  define d2 where "d2 = probe_sva E d1"
  define d3 where "d3 = idxd_read_table_offsets (idxd_read_caps d2)"
  obtain r4 d4 where 4: "idxd_setup_internals E d3 = (r4, d4)" by force
  obtain r5 d5 where 5: "(if \<not> bit (dev_flags d4) IDXD_FLAG_CONFIGURABLE then idxd_device_load_config d4 else (0, d4)) = (r5, d5)"
    by force
  obtain r6 d6 where 6: "idxd_setup_interrupts E d5 = (r6, d6)" by force
  have e: "idxd_probe E a online s =
      (if r1 < 0 then Some (r1, s\<lparr>pf_dev := d1\<rparr>) else if r4 \<noteq> 0 then Some (r4, s\<lparr>pf_dev := unprobe_sva E d4\<rparr>)
       else if r5 < 0 then Some (r5, s\<lparr>pf_dev := unprobe_sva E (idxd_cleanup_internals d5)\<rparr>)
       else if r6 \<noteq> 0 then Some (r6, s\<lparr>pf_dev := unprobe_sva E (idxd_cleanup_internals d6)\<rparr>)
       else map_option (\<lambda>(rc, s). (0, s)) (perfmon_pmu_init E a online (s\<lparr>pf_dev := d6\<rparr>)))"
    by (simp add: idxd_probe_def 1 d2_def [symmetric] d3_def [symmetric] 4 5 6)
  have r: "r4 = 0" "r6 = 0" "\<exists>r7. perfmon_pmu_init E a online (s\<lparr>pf_dev := d6\<rparr>) = Some (r7, s')"
    using assms(1) unfolding e by (auto split: if_splits)
  then obtain r7 where 7: "perfmon_pmu_init E a online (s\<lparr>pf_dev := d6\<rparr>) = Some (r7, s')" by (elim exE)
  have "pview (pf_dev s') = pview d6" using pview_pmu_init [OF 7] by simp
  note f7 = pview_fields [OF this]
  have l6: "loaded d5 d6" using setup_interrupts_spec [OF 6] assms(3) by (simp add: world_ok_def)
  have k5: "loaded d4 d5" using 5 load_config_ok [of d4 r5 d5] by (auto simp: same_load_def loaded_refl split: if_splits)
  have "bit (dev_flags d4) IDXD_FLAG_CONFIGURABLE" using assms(9) f7(3) l6 k5 by (simp add: loaded_def)
  then have d5: "d5 = d4" using 5 by simp
  have nm: "no_members d3"
    using assms(2) no_members_keeps [OF init_reset_keeps [OF 1]] by (simp add: d3_def d2_def no_members_sva)
  have b3: "nr_rdbufs d3 = max_rdbufs d3" "0 \<le> max_rdbufs d3" "max_rdbufs d3 < 256" "max_wqs d3 < 256" "max_groups d3 < 256"
    using read_caps_bounds [of d2] by (simp_all add: d3_def offsets_rdbufs)
  have "blank (max_rdbufs d3) d3" using nm b3(1) by (simp add: blank_def no_members_def)
  from setup_internals_blank [OF 4 [unfolded r(1)] this] have b4: "blank (max_rdbufs d3) d4" .
  have k: "live_ptrs d1 = {}" "dev_evl d1 = None" "dev_pmu d1 = None" "dev_flags d1 = 0" "held d1 = held (pf_dev s)"
    using init_reset_keeps [OF 1] assms(4-7) by (simp_all add: probe_keeps_def)
  have "no_refs (held d3)"
    using probe_sva_spec [of d1 E] k assms(8) table_offsets_frame [of "idxd_read_caps d2"] read_caps_frame(1) [of d2]
      no_refs_sva [OF assms(8)] by (simp add: d3_def d2_def probe_keeps_def)
  from setup_internals_spec [OF 4 _ this] have s4: "same_hw d3 d4" "has_arrays d4"
    using assms(3) r(1) wqcfg_bound(2) [of d2] table_offsets_frame(2) [of "idxd_read_caps d2"]
    by (simp_all add: world_ok_def d3_def)
  have b6: "blank (max_rdbufs d3) d6" "max_rdbufs d6 = max_rdbufs d4"
    using setup_interrupts_blank [OF 6 b4 [folded d5]] d5 by simp_all
  have m: "max_rdbufs (pf_dev s') = max_rdbufs d3" "max_wqs (pf_dev s') = max_wqs d3" "max_groups (pf_dev s') = max_groups d3"
    using f7 b6(2) s4(1) l6 d5 by (simp_all add: same_hw_def loaded_def)
  have "has_arrays (pf_dev s')"
    using l6 s4(2) d5 pview_views(1) [OF \<open>pview (pf_dev s') = pview d6\<close>] by (simp add: loaded_def)
  moreover have "blank (max_rdbufs (pf_dev s')) (pf_dev s')" using b6(1) f7 m(1) by (simp add: blank_def)
  ultimately show ?thesis using blank_members [of "pf_dev s'"] m b3 assms(10) by simp
qed


subsection \<open>A kernel that refuses nothing\<close>

definition willing :: "env \<Rightarrow> bool" where
  "willing E \<longleftrightarrow> (\<exists>n>0. \<forall>t. ext_rc E t (Svc MsixVecCount) = n \<and> ext_rc E t (Acq (D IrqVectors)) = n) \<and>
     (\<forall>t x. 0 \<le> ext_rc E t (Acq x)) \<and> (\<forall>t v. if v = MsixVecCount then True else ext_rc E t (Svc v) = 0)"

lemma willing_ok:
  assumes "willing E"
  shows "world_ok E" "alloc_never_fails E" "members_register E"
  using assms
  by (auto simp: willing_def world_ok_def map_ok_def vec_ok_def domain_ok_def alloc_never_fails_def members_register_def)

lemma willing_acquire: "willing E \<Longrightarrow> acquire E x d = (r, d') \<Longrightarrow> \<not> r < 0"
  using acquire_rc [of E x d r d'] by (auto simp: willing_def not_less)

lemma willing_ext: "willing E \<Longrightarrow> ext E (Svc v) d = (r, d') \<Longrightarrow> v \<noteq> MsixVecCount \<Longrightarrow> r = 0"
  unfolding willing_def by (cases "v = MsixVecCount") (auto simp: ext_def Let_def)

lemma setup_wq_succeeds: "willing E \<Longrightarrow> setup_wq E i d = (rc, d') \<Longrightarrow> rc = 0"
  by (auto simp: setup_wq_def Let_def split: prod.splits if_splits dest: willing_acquire willing_ext)

lemma setup_engine_succeeds: "willing E \<Longrightarrow> setup_engine E i d = (rc, d') \<Longrightarrow> rc = 0"
  by (auto simp: setup_engine_def Let_def split: prod.splits if_splits dest: willing_acquire willing_ext)

lemma setup_group_succeeds: "willing E \<Longrightarrow> setup_group E i d = (rc, d') \<Longrightarrow> rc = 0"
  by (auto simp: setup_group_def Let_def split: prod.splits if_splits dest: willing_acquire willing_ext)

lemma setup_loop_succeeds:
  assumes "\<And>i d rc d'. one i d = (rc, d') \<Longrightarrow> rc = 0" "setup_loop one c is d = (rc, d')"
  shows "rc = 0"
  using assms(2)
proof (induction "is" arbitrary: d)
  case (Cons i "is")
  obtain r d1 where o: "one i d = (r, d1)" by force
  from assms(1) [OF o] have "r = 0" .
  with Cons.prems o Cons.IH [of d1] show ?case by simp
qed simp

lemma setup_arrays_succeed:
  assumes "willing E"
  shows "idxd_setup_wqs E d = (rc, d') \<Longrightarrow> rc = 0" "idxd_setup_engines E d = (rc, d') \<Longrightarrow> rc = 0"
    "idxd_setup_groups E d = (rc, d') \<Longrightarrow> rc = 0"
  using setup_loop_succeeds [of "setup_wq E", OF setup_wq_succeeds [OF assms]]
    setup_loop_succeeds [of "setup_engine E", OF setup_engine_succeeds [OF assms]]
    setup_loop_succeeds [of "setup_group E", OF setup_group_succeeds [OF assms]]
  by (auto simp: idxd_setup_wqs_def idxd_setup_engines_def idxd_setup_groups_def Let_def split: prod.splits if_splits
      dest: willing_acquire [OF assms])

lemma init_evl_succeeds: "willing E \<Longrightarrow> idxd_init_evl E d = (rc, d') \<Longrightarrow> rc = 0"
  by (auto simp: idxd_init_evl_def Let_def split: prod.splits if_splits dest: willing_acquire)

lemma setup_internals_succeeds:
  assumes "willing E" "idxd_setup_internals E d = (rc, d')"
  shows "rc = 0"
proof -
  obtain r1 d1 where 1: "idxd_setup_wqs E d = (r1, d1)" by force
  obtain r2 d2 where 2: "idxd_setup_engines E d1 = (r2, d2)" by force
  obtain r3 d3 where 3: "idxd_setup_groups E d2 = (r3, d3)" by force
  obtain r4 d4 where 4: "acquire E (D Workqueue) d3 = (r4, d4)" by force
  obtain r5 d5 where 5: "idxd_init_evl E d4 = (r5, d5)" by force
  have "r1 = 0" "r2 = 0" "r3 = 0" "\<not> r4 < 0" "r5 = 0"
    using setup_arrays_succeed [OF assms(1)] 1 2 3 willing_acquire [OF assms(1) 4] init_evl_succeeds [OF assms(1) 5] by blast+
  then show ?thesis using assms(2) by (simp add: idxd_setup_internals_def 1 2 3 4 5)
qed

lemma setup_interrupts_succeeds:
  assumes "willing E" "idxd_setup_interrupts E d = (rc, d')"
  shows "rc = 0"
proof -
  obtain n where n: "n > 0" "\<And>t. ext_rc E t (Svc MsixVecCount) = n" "\<And>t. ext_rc E t (Acq (D IrqVectors)) = n"
    using assms(1) by (auto simp: willing_def)
  obtain r0 d0 where 0: "ext E (Svc MsixVecCount) d = (r0, d0)" by force
  then have r0: "r0 = n" using n(2) by (auto simp: ext_def Let_def)
  obtain r1 d1 where 1: "acquire E (D IrqVectors) (d0\<lparr>irq_cnt := nat r0\<rparr>) = (r1, d1)" by force
  have r1: "r1 = n" using acquire_rc [OF 1] n(3) by auto
  obtain r2 d2 where 2: "acquire E (D MiscIrq) d1 = (r2, d2)" by force
  from assms(2) n(1) r1 willing_acquire [OF assms(1) 2] show ?thesis
    by (simp add: idxd_setup_interrupts_def 0 [unfolded r0] 1 [unfolded r0] 2)
qed


text \<open>The registers below the general configuration register are read only.\<close>

definition caps_ro :: "env \<Rightarrow> bool" where
  "caps_ro E \<longleftrightarrow> (\<forall>r off v a. if a < IDXD_GENCFG_OFFSET then io_write E r off v a = r a \<and> cmd_wait E r a = r a else True)"

definition same_caps :: "idxd_device \<Rightarrow> idxd_device \<Rightarrow> bool" where
  "same_caps d d' \<longleftrightarrow> (\<forall>a<IDXD_GENCFG_OFFSET. regs d' a = regs d a)"

lemma same_caps_read: "same_caps d d' \<Longrightarrow> off + 4 < IDXD_GENCFG_OFFSET \<Longrightarrow> ioread64 off d' = ioread64 off d"
  by (simp add: same_caps_def ioread64_def ioread32_def)

lemma same_caps_trans: "same_caps d d' \<Longrightarrow> same_caps d' d'' \<Longrightarrow> same_caps d d''"
  by (simp add: same_caps_def)

lemma same_caps_ext: "ext E q d = (r, d') \<Longrightarrow> same_caps d d'" "acquire E x d = (r, d') \<Longrightarrow> same_caps d d'"
  by (auto simp: same_caps_def ext_def acquire_def Let_def split: if_splits)

lemma same_caps_write:
  assumes "caps_ro E"
  shows "same_caps d (iowrite32 E w off d)"
  using assms unfolding caps_ro_def same_caps_def iowrite32_def by (simp split: if_splits)

lemma same_caps_upd [simp]:
  "same_caps d (x\<lparr>pasid := p\<rparr>) = same_caps d x" "same_caps d (x\<lparr>dev_flags := f\<rparr>) = same_caps d x"
  "same_caps d (release r x) = same_caps d x" "same_caps d d"
  by (simp_all add: same_caps_def)

lemma same_caps_sva:
  assumes "caps_ro E"
  shows "same_caps d (probe_sva E d)"
proof -
  have sys: "same_caps x (snd (idxd_enable_system_pasid E x))" for x
  proof -
    obtain r0 d0 where 0: "ext E (Svc GetDomain) x = (r0, d0)" by force
    obtain r1 d1 where 1: "acquire E (S SysPasid) d0 = (r1, d1)" by force
    obtain r2 d2 where 2: "acquire E (S PasidAttach) d1 = (r2, d2)" by force
    have c: "same_caps x d0" "same_caps x d1" "same_caps x d2"
      using same_caps_ext(1) [OF 0] same_caps_ext(2) [OF 1] same_caps_ext(2) [OF 2] same_caps_trans by blast+
    have "same_caps x (idxd_set_user_intr E b d2)" for b
      unfolding idxd_set_user_intr_def by (rule same_caps_trans [OF c(3) same_caps_write [OF assms]])
    with c show ?thesis by (simp add: idxd_enable_system_pasid_def 0 1 2)
  qed
  obtain r1 d1 where 1: "acquire E (S Iopf) d = (r1, d1)" by force
  obtain r2 d2 where 2: "acquire E (S SvaFeat) d1 = (r2, d2)" by force
  have c: "same_caps d d1" "same_caps d d2"
    using same_caps_ext(2) [OF 1] same_caps_ext(2) [OF 2] same_caps_trans by blast+
  let ?d2 = "d2\<lparr>dev_flags := set_bit IDXD_FLAG_USER_PASID_ENABLED (dev_flags d2)\<rparr>"
  obtain r3 d3 where 3: "idxd_enable_system_pasid E ?d2 = (r3, d3)" by force
  have "same_caps d ?d2" using c by simp
  from same_caps_trans [OF this] have "same_caps d d3" using sys [of ?d2] 3 by simp
  with c show ?thesis by (simp add: probe_sva_def idxd_enable_sva_def 1 2 3)
qed

lemma probe_succeeds:
  assumes "willing E" "caps_ro E" "\<not> idxd_device_is_halted (pf_dev s)"
    and "getf gen_cap_reg ''config_en'' (ioread64 IDXD_GENCAP_OFFSET (pf_dev s)) \<noteq> 0"
    and "dev_pmu (pf_dev s) = None" "live_ptrs (pf_dev s) = {}" "dev_evl (pf_dev s) = None" "dev_flags (pf_dev s) = 0"
      "no_refs (held (pf_dev s))"
  shows "\<exists>s'. idxd_probe E a online s = Some (0, s') \<and> bit (dev_flags (pf_dev s')) IDXD_FLAG_CONFIGURABLE \<and>
    max_engines (pf_dev s') = unat (getf engine_cap_reg ''num_engines'' (ioread64 IDXD_ENGCAP_OFFSET (pf_dev s)))"
proof -
  obtain d1 where 1: "idxd_device_init_reset E (pf_dev s) = (0, d1)" using assms(3) by (simp add: idxd_device_init_reset_def Let_def)
  have c1: "same_caps (pf_dev s) d1"
  proof -
    have "same_caps x (x\<lparr>regs := cmd_wait E (regs x)\<rparr>)" for x
      using assms(2) unfolding caps_ro_def same_caps_def by (simp split: if_splits)
    note wait = this
    obtain w where w: "d1 = (iowrite32 E w IDXD_CMD_OFFSET (pf_dev s))\<lparr>regs := cmd_wait E (regs (iowrite32 E w IDXD_CMD_OFFSET (pf_dev s)))\<rparr>"
      using 1 assms(3) by (auto simp: idxd_device_init_reset_def Let_def)
    show ?thesis unfolding w by (rule same_caps_trans [OF same_caps_write [OF assms(2)] wait])
  qed
  define d2 where "d2 = probe_sva E d1"
  define d3 where "d3 = idxd_read_table_offsets (idxd_read_caps d2)"
  have c2: "same_caps (pf_dev s) d2" unfolding d2_def by (rule same_caps_trans [OF c1 same_caps_sva [OF assms(2)]])
  have cfg: "bit (dev_flags d3) IDXD_FLAG_CONFIGURABLE"
    using assms(4) same_caps_read [OF c2, of IDXD_GENCAP_OFFSET] table_offsets_frame(1) [of "idxd_read_caps d2"]
    by (simp add: d3_def probe_keeps_def idxd_read_caps_def bit_set_bit_iff)
  have eng: "max_engines d3 = unat (getf engine_cap_reg ''num_engines'' (ioread64 IDXD_ENGCAP_OFFSET (pf_dev s)))"
    using same_caps_read [OF c2, of IDXD_ENGCAP_OFFSET]
    by (simp add: d3_def idxd_read_table_offsets_def Let_def read_caps_max)
  obtain r4 d4 where 4: "idxd_setup_internals E d3 = (r4, d4)" by force
  have r4: "r4 = 0" using setup_internals_succeeds [OF assms(1) 4] .
  have k: "live_ptrs d1 = {}" "dev_evl d1 = None" "dev_pmu d1 = None" "dev_flags d1 = 0" "held d1 = held (pf_dev s)"
    using init_reset_keeps [OF 1] assms(5-9) by (simp_all add: probe_keeps_def)
  have "no_refs (held d3)"
    using probe_sva_spec [of d1 E] k assms(9) table_offsets_frame [of "idxd_read_caps d2"] read_caps_frame(1) [of d2]
      no_refs_sva [OF assms(9)] by (simp add: d3_def d2_def probe_keeps_def)
  from setup_internals_spec [OF 4 _ this] have s4: "same_hw d3 d4"
    using willing_ok(1) [OF assms(1)] wqcfg_bound(2) [of d2] table_offsets_frame(2) [of "idxd_read_caps d2"]
    by (simp add: world_ok_def d3_def)
  obtain r6 d6 where 6: "idxd_setup_interrupts E d4 = (r6, d6)" by force
  have r6: "r6 = 0" using setup_interrupts_succeeds [OF assms(1) 6] .
  have l6: "loaded d4 d6" using setup_interrupts_spec [OF 6] willing_ok(1) [OF assms(1)] by (simp add: world_ok_def)
  have "dev_pmu d3 = None"
    using probe_sva_spec [of d1 E] k table_offsets_frame [of "idxd_read_caps d2"] read_caps_frame(4) [of d2]
    by (simp add: d3_def d2_def probe_keeps_def)
  then have "dev_pmu (pf_dev (s\<lparr>pf_dev := d6\<rparr>)) = None" using l6 s4 by (simp add: loaded_def same_hw_def)
  from pmu_init_spec [OF this, of E a online] obtain r7 s7 where 7: "perfmon_pmu_init E a online (s\<lparr>pf_dev := d6\<rparr>) = Some (r7, s7)"
    by (elim exE conjE)
  have "idxd_probe E a online s = Some (0, s7)"
    using cfg s4 r4 r6 7 by (simp add: idxd_probe_def 1 d2_def [symmetric] d3_def [symmetric] 4 6 same_hw_def)
  moreover have "pview (pf_dev s7) = pview d6" using pview_pmu_init [OF 7] by simp
  note f7 = pview_fields [OF this]
  have "bit (dev_flags (pf_dev s7)) IDXD_FLAG_CONFIGURABLE" "max_engines (pf_dev s7) = max_engines d3"
    using cfg f7 l6 s4 by (simp_all add: loaded_def same_hw_def)
  ultimately show ?thesis using eng by auto
qed


lemma alloc_succeeds:
  assumes "willing E"
  shows "\<exists>d'. idxd_alloc E data d = (True, d') \<and> regs d' = regs d"
proof -
  obtain r1 d1 where 1: "acquire E (D IdxdStruct) d = (r1, d1)" by force
  define z where "z = zero_device\<lparr>regs := regs d1, held := held d1, trace := trace d1, drv_data := data\<rparr>"
  obtain r2 d2 where 2: "acquire E (D IdxdId) z = (r2, d2)" by force
  obtain r3 d3 where 3: "acquire E (D DevOpcap) (d2\<lparr>dev_id := r2\<rparr>) = (r3, d3)" by force
  obtain r4 d4 where 4: "ext E (Svc (SetName DevIdxd)) (hold (DevRef DevIdxd) d3) = (r4, d4)" by force
  have r: "\<not> r1 < 0" "\<not> r2 < 0" "\<not> r3 < 0" "r4 = 0"
    using willing_acquire [OF assms] willing_ext [OF assms 4] 1 2 3 by blast+
  have a: "regs x' = regs x" if "acquire E y x = (q, x')" for x x' y q
    using that by (auto simp: acquire_def ext_def Let_def split: if_splits)
  have "regs d4 = regs (hold (DevRef DevIdxd) d3)" using 4 by (auto simp: ext_def Let_def)
  then have "regs d4 = regs d" using a [OF 1] a [OF 2] a [OF 3] by (simp add: z_def)
  with r show ?thesis by (intro exI [of _ d4]) (simp add: idxd_alloc_def 1 2 3 4 z_def [symmetric])
qed

lemma register_devices_succeeds:
  assumes "willing E"
  shows "\<exists>h t. idxd_register_devices E d = Some (0, d\<lparr>held := h, trace := t\<rparr>)"
  using register_devices_ok [OF willing_ok(3) [OF assms], of d]
proof (elim disjE exE conjE)
  fix rc t t' assume "rc < 0" "rc = ext_rc E t' (Acq (Registered DevIdxd))"
  then show ?thesis using assms by (auto simp: willing_def not_le [symmetric])
next
  fix t assume "idxd_register_devices E d = Some (0, d\<lparr>held := \<lambda>x. held d x + ind (reg_objs d) x, trace := t\<rparr>)"
  then show ?thesis by blast
qed

lemma pci_probe_succeeds:
  assumes E: "willing E" "caps_ro E"
    and halt: "\<not> idxd_device_is_halted (pf_dev s)"
    and caps: "getf gen_cap_reg ''config_en'' (ioread64 IDXD_GENCAP_OFFSET (pf_dev s)) \<noteq> 0"
      "unat (getf engine_cap_reg ''num_engines'' (ioread64 IDXD_ENGCAP_OFFSET (pf_dev s))) \<le> 64"
    and h: "no_refs (held (pf_dev s))" "held (pf_dev s) (DevRef DevIdxd) = 0" "held (pf_dev s) (D DebugfsDir) = 0"
  shows "\<exists>s'. idxd_pci_probe E a online data s = Some (0, s') \<and> members_ok (pf_dev s') \<and> rdbufs_ok (pf_dev s')"
proof -
  obtain r0 d0 where 0: "acquire E (D PciDev) (pf_dev s) = (r0, d0)" by force
  obtain d1 where 1: "idxd_alloc E data d0 = (True, d1)" "regs d1 = regs d0" using alloc_succeeds [OF E(1)] by blast
  obtain r2 d2 where 2: "acquire E (D Iomap) d1 = (r2, d2)" by force
  obtain r3 d3 where 3: "ext E (Svc SetDmaMask) d2 = (r3, d3)" by force
  have r: "\<not> r0 < 0" "\<not> r2 < 0" "r3 = 0"
    using willing_acquire [OF E(1)] willing_ext [OF E(1) 3] 0 2 by blast+
  have a0: "regs d0 = regs (pf_dev s)" "held d0 = addh {D PciDev} (held (pf_dev s))"
    using 0 r(1) held_acquire [of E "D PciDev" "pf_dev s"] by (auto simp: acquire_def ext_def Let_def addh_def fun_eq_iff split: if_splits)
  have z0: "held d0 (DevRef DevIdxd) = 0" using h(2) by (simp add: a0(2) addh_def)
  note a1 = alloc_ok [OF willing_ok(2) [OF E(1)] z0 1(1)]
  have a2: "regs d2 = regs d1" "live_ptrs d2 = live_ptrs d1" "dev_evl d2 = dev_evl d1" "dev_pmu d2 = dev_pmu d1"
    "dev_flags d2 = dev_flags d1" "held d2 = addh {D Iomap} (held d1)"
    using 2 r(2) by (auto simp: acquire_def ext_def Let_def addh_def fun_eq_iff split: if_splits)
  have a3: "regs d3 = regs d2" "live_ptrs d3 = live_ptrs d2" "dev_evl d3 = dev_evl d2" "dev_pmu d3 = dev_pmu d2"
    "dev_flags d3 = dev_flags d2" "held d3 = held d2" using 3 by (auto simp: ext_def Let_def)
  define s4 where "s4 = s\<lparr>pf_dev := d3\<lparr>version := ioread32 IDXD_VER_OFFSET d3\<rparr>\<rparr>"
  have reg4: "regs (pf_dev s4) = regs (pf_dev s)" using a0 1(2) a2 a3 by (simp add: s4_def)
  then have rd: "ioread64 off (pf_dev s4) = ioread64 off (pf_dev s)" "ioread32 off (pf_dev s4) = ioread32 off (pf_dev s)" for off
    by (simp_all add: ioread64_def ioread32_def)
  have f4: "dev_pmu (pf_dev s4) = None" "live_ptrs (pf_dev s4) = {}" "dev_evl (pf_dev s4) = None" "dev_flags (pf_dev s4) = 0"
    using a1 a2 a3 by (simp_all add: s4_def)
  have "no_refs (\<lambda>x. pci_held (held (pf_dev s)) x + ind {D Iomap} x)" using no_refs_pci(1) [OF h(1)] .
  moreover have "held (pf_dev s4) = (\<lambda>x. pci_held (held (pf_dev s)) x + ind {D Iomap} x)"
    using a1 a2(6) a3(6) a0(2) by (simp add: s4_def units pci_held_def)
  ultimately have nr: "no_refs (held (pf_dev s4))" by simp
  have nm: "no_members (pf_dev s4)"
    using no_members_alloc [OF 1(1)] no_members_acquire [OF 2] no_members_ext [OF 3] by (simp add: s4_def no_members_def)
  have "\<not> idxd_device_is_halted (pf_dev s4)" using halt by (simp add: idxd_device_is_halted_def rd)
  from probe_succeeds [OF E this caps(1) [folded rd] f4 nr, of a online] obtain s5 where
    5: "idxd_probe E a online s4 = Some (0, s5)" "bit (dev_flags (pf_dev s5)) IDXD_FLAG_CONFIGURABLE" "max_engines (pf_dev s5) \<le> 64"
    using caps(2) rd by auto
  from probe_blank [OF 5(1) nm willing_ok(1) [OF E(1)] f4(2,3,1,4) nr 5(2,3)]
  have ok5: "members_ok (pf_dev s5)" "rdbufs_ok (pf_dev s5)" by simp_all
  obtain h6 t6 where 6: "idxd_register_devices E (pf_dev s5) = Some (0, (pf_dev s5)\<lparr>held := h6, trace := t6\<rparr>)"
    using register_devices_succeeds [OF E(1)] by blast
  let ?d6 = "(pf_dev s5)\<lparr>held := h6, trace := t6\<rparr>"
  let ?d7 = "snd (idxd_device_init_debugfs E ?d6)"
  have "idxd_pci_probe E a online data s = Some (0, s5\<lparr>pf_dev := ?d7\<rparr>)"
    using r 5(1) 6 by (simp add: idxd_pci_probe_def 0 1(1) 2 3 s4_def)
  moreover have "memb_view ?d7 = memb_view (pf_dev s5)" "rdbuf_view ?d7 = rdbuf_view (pf_dev s5)"
    by (auto simp: idxd_device_init_debugfs_def acquire_def ext_def Let_def memb_view_def rdbuf_view_def split: if_splits option.splits)
  ultimately show ?thesis
    using members_ok_cong [OF _ ok5(1), of ?d7] rdbufs_ok_cong [OF _ ok5(2), of ?d7] by simp
qed


subsection \<open>A failed registration\<close>

lemma refs_release:
  "held (conf_release b d) (DevRef c) = held d (DevRef c)" "max_wqs (conf_release b d) = max_wqs d"
  "max_engines (conf_release b d) = max_engines d" "max_groups (conf_release b d) = max_groups d"
proof -
  have k: "held (if P then d else release (W i y) d) (DevRef c) = held d (DevRef c)"
    "held (if P then release (D x) d else d) (DevRef c) = held d (DevRef c)"
    "held (if P then d else release (D x) d) (DevRef c) = held d (DevRef c)" for P x d i y by (simp_all add: subh_def)
  have u: "held (upd_wq i f d) = held d" for i f d by (simp add: upd_wq_def)
  show "held (conf_release b d) (DevRef c) = held d (DevRef c)"
    by (simp add: conf_release_def idxd_conf_device_release_def idxd_conf_wq_release_def idxd_conf_engine_release_def
        idxd_conf_group_release_def Let_def k u subh_def del: held_upd split: conf_dev.split)
  show "max_wqs (conf_release b d) = max_wqs d" "max_engines (conf_release b d) = max_engines d"
    "max_groups (conf_release b d) = max_groups d"
    by (simp_all add: conf_release_def idxd_conf_device_release_def idxd_conf_wq_release_def idxd_conf_engine_release_def
        idxd_conf_group_release_def Let_def upd_wq_def split: conf_dev.split)
qed

lemma refs_put:
  "held (put_device b d) (DevRef c) = held d (DevRef c) - (if b = c then 1 else 0)"
  "held (device_unregister b d) (DevRef c) = held d (DevRef c) - (if b = c then 1 else 0)"
  by (auto simp: put_device_def device_unregister_def Let_def refs_release subh_def)

lemma max_put:
  "max_wqs (put_device b d) = max_wqs d" "max_engines (put_device b d) = max_engines d" "max_groups (put_device b d) = max_groups d"
  by (simp_all add: put_device_def Let_def refs_release)

lemma refs_fold:
  assumes "inj c" "distinct ks"
  shows "held (fold (\<lambda>k. put_device (c k)) ks d) (DevRef (c i)) = held d (DevRef (c i)) - (if i \<in> set ks then 1 else 0)"
    "held (fold (\<lambda>k. device_unregister (c k)) ks d) (DevRef (c i)) = held d (DevRef (c i)) - (if i \<in> set ks then 1 else 0)"
  using assms(2) by (induction ks arbitrary: d) (auto simp: refs_put dest: injD [OF assms(1)])

lemma refs_fold_other:
  assumes "\<And>k. c k \<noteq> b"
  shows "held (fold (\<lambda>k. put_device (c k)) ks d) (DevRef b) = held d (DevRef b)"
  using assms by (induction ks arbitrary: d) (auto simp: refs_put)

lemma max_fold:
  "max_wqs (fold (\<lambda>k. put_device (c k)) ks d) = max_wqs d" "max_engines (fold (\<lambda>k. put_device (c k)) ks d) = max_engines d"
  "max_groups (fold (\<lambda>k. put_device (c k)) ks d) = max_groups d"
  by (induction ks arbitrary: d) (auto simp: max_put)

lemma cleanup_refs:
  "held (idxd_cleanup_internals d) (DevRef (DevWq i)) = held d (DevRef (DevWq i)) - (if i < max_wqs d then 1 else 0)"
  by (simp add: idxd_cleanup_internals_def put_wqs_def put_engines_def put_groups_def max_fold refs_fold inj_def refs_fold_other
      subh_def)

lemma refs_acquire: "acquire E (Registered b) d = (r, d') \<Longrightarrow> held d' (DevRef c) = held d (DevRef c) \<and> max_wqs d' = max_wqs d"
  by (auto simp: acquire_def ext_def Let_def split: if_splits)

lemma register_from_fails:
  assumes "register_from E c n is d = Some (rc, d')" "rc < 0" "inj c" "\<forall>i\<in>set is. i < n"
  shows "\<exists>i<n. held d' (DevRef (c i)) = held d (DevRef (c i)) - 1"
  using assms(1,4)
proof (induction "is" arbitrary: d)
  case Nil
  then show ?case using assms(2) by simp
next
  case (Cons i "is")
  obtain r d1 where a: "acquire E (Registered (c i)) d = (r, d1)" by force
  note f = refs_acquire [OF a]
  show ?case
  proof (cases "r < 0")
    case False
    with Cons.prems a have "register_from E c n is d1 = Some (rc, d')" "\<forall>i\<in>set is. i < n" by simp_all
    from Cons.IH [OF this] f show ?thesis by simp
  next
    case True
    let ?p = "fold (\<lambda>k. put_device (c k)) [i..<n] d1"
    from True Cons.prems(1) a have u: "unregister_below c (int i - 1) ?p = Some d'" by auto
    then have "d' = fold (\<lambda>k. device_unregister (c k)) (rev [0..<nat (int i - 1)]) ?p"
      by (simp add: unregister_below_def split: if_splits)
    moreover have "i \<notin> set (rev [0..<nat (int i - 1)])" by auto
    moreover have "i \<in> set [i..<n]" "i < n" using Cons.prems(2) by simp_all
    ultimately have "held d' (DevRef (c i)) = held d (DevRef (c i)) - 1"
      using refs_fold(1) [OF assms(3), of "[i..<n]" d1 i] refs_fold(2) [OF assms(3), of "rev [0..<nat (int i - 1)]" ?p i] f
      by simp
    with \<open>i < n\<close> show ?thesis by blast
  qed
qed

lemma register_from_max: "register_from E c n is d = Some (rc, d') \<Longrightarrow> max_wqs d' = max_wqs d"
proof (induction "is" arbitrary: d)
  case (Cons i "is")
  have un: "max_wqs (fold (\<lambda>k. device_unregister (c k)) ks x) = max_wqs x" for ks x
    by (induction ks arbitrary: x) (simp_all add: device_unregister_def max_put)
  obtain r d1 where a: "acquire E (Registered (c i)) d = (r, d1)" by force
  from Cons refs_acquire [OF a] a show ?case
    by (cases "r < 0") (auto simp: unregister_below_def un max_fold split: if_splits)
qed simp


subsection \<open>Loading and unloading the module\<close>

lemma chrdev_held:
  assumes "chrdev_regions E [0..<2] d = (rc, d')"
  shows "if rc \<noteq> 0 then held d' = held d else held d' = (\<lambda>x. held d x + ind {M (Chrdev 0), M (Chrdev 1)} x)"
proof -
  have u: "[0..<2] = [0, Suc 0]" "[0..<Suc 0] = [0]" by (simp_all add: upt_rec)
  have s: "subh {x} (addh {x} h) = h" for x h by (auto simp: subh_def addh_def)
  have t: "addh {M (Chrdev (Suc 0))} (addh {M (Chrdev 0)} h) = (\<lambda>x. h x + ind {M (Chrdev 0), M (Chrdev 1)} x)" for h
    by (auto simp: units ind_def fun_eq_iff)
  show ?thesis
  proof (cases rule: acquire_cases [of E "M (Chrdev 0)" d])
    case (failed r t)
    then show ?thesis using assms by (auto simp: u)
  next
    case (got r t0)
    let ?d = "d\<lparr>held := addh {M (Chrdev 0)} (held d), trace := t0\<rparr>"
    show ?thesis
    proof (cases rule: acquire_cases [of E "M (Chrdev (Suc 0))" ?d])
      case (failed r1 t1)
      then show ?thesis using assms got by (auto simp: u s)
    next
      case (got r1 t1)
      then show ?thesis using assms \<open>acquire E (M (Chrdev 0)) d = (r, ?d)\<close> \<open>\<not> r < 0\<close> by (auto simp: u t)
    qed
  qed
qed

lemma module_acquire: "acquire E x d = (r, d') \<Longrightarrow> held d' = (if r < 0 then held d else (\<lambda>y. held d y + ind {x} y))"
  for d :: idxd_device
  by (cases rule: acquire_cases [of E x d]) (auto simp: units)

lemma init_debugfs_module:
  fixes d :: idxd_device
  assumes "idxd_init_debugfs E ready d = (rc, d')" "held d (M Debugfs) = 0"
  shows "if rc \<noteq> 0 then held d' = held d
    else held d' = held d \<or> held d' = (\<lambda>x. held d x + ind {M Debugfs} x)"
  using assms module_acquire [of E "M Debugfs" d "fst (acquire E (M Debugfs) d)" "snd (acquire E (M Debugfs) d)"]
  by (auto simp: idxd_init_debugfs_def Let_def split: if_splits prod.splits)

lemma remove_debugfs_module:
  fixes d :: idxd_device
  assumes "held d = (\<lambda>x. h x + g x)" "h (M Debugfs) = 0" "g = (\<lambda>_. 0) \<or> g = ind {M Debugfs}"
  shows "held (idxd_remove_debugfs d) = h"
  using assms(3)
proof
  assume "g = ind {M Debugfs}"
  then show ?thesis using assms by (simp add: idxd_remove_debugfs_def units ind_def)
qed (use assms in \<open>simp add: idxd_remove_debugfs_def\<close>)

lemma cdev_remove_held: "held (idxd_cdev_remove d) = (\<lambda>x. held d x - ind {M (Chrdev 0), M (Chrdev 1)} x)" for d :: idxd_device
proof -
  have u: "[0..<2] = [0, Suc 0]" by (simp add: upt_rec)
  show ?thesis by (auto simp: idxd_cdev_remove_def u units ind_def fun_eq_iff)
qed


lemma init_module_spec:
  assumes i: "idxd_init_module E rw mv ready s = (rc, s')" and s: "\<not> pf_set_up s" "held (pf_dev s) (M Debugfs) = 0"
  shows "if rc = 0 then held (pf_dev (idxd_exit_module rw s')) = held (pf_dev s)
    else held (pf_dev (perfmon_exit s')) = held (pf_dev s)"
proof (cases mv)
  case False
  then show ?thesis using i s by (auto simp: idxd_init_module_def perfmon_exit_def)
next
  case True
  define h where "h = held (pf_dev s)"
  obtain r0 d0 where 0: "acquire E (M Cpuhp) (pf_dev s) = (r0, d0)" by force
  define s0 where "s0 = perfmon_init E s"
  define k where "k = (\<lambda>x. h x + (if pf_set_up s0 then ind {M Cpuhp} x else 0))"
  have h0: "held (pf_dev s0) = k"
    using module_acquire [OF 0] s(1) by (auto simp: s0_def perfmon_init_def 0 k_def h_def Let_def)
  have ex: "held (pf_dev (perfmon_exit (s0\<lparr>pf_dev := d\<rparr>))) = h" if "held d = k" for d
    using that by (auto simp: perfmon_exit_def on_pf_dev_def k_def units)
  define D1 where "D1 = M (Driver (dd_name (idxd_drv rw)))"
  define D2 where "D2 = M (Driver (dd_name idxd_dmaengine_drv))"
  define D3 where "D3 = M (Driver (dd_name idxd_user_drv))"
  have reg: "idxd_driver_register E (idxd_drv rw) d = acquire E D1 d" "idxd_driver_register E idxd_dmaengine_drv d = acquire E D2 d"
    "idxd_driver_register E idxd_user_drv d = acquire E D3 d" for d :: idxd_device
    by (simp_all add: idxd_driver_register_def idxd_drv_def idxd_dmaengine_drv_def idxd_user_drv_def D1_def D2_def D3_def)
  have unreg: "held (idxd_driver_unregister (idxd_drv rw) d) = (\<lambda>x. held d x - ind {D1} x)"
    "held (idxd_driver_unregister idxd_dmaengine_drv d) = (\<lambda>x. held d x - ind {D2} x)"
    "held (idxd_driver_unregister idxd_user_drv d) = (\<lambda>x. held d x - ind {D3} x)" for d :: idxd_device
    by (simp_all add: idxd_driver_unregister_def units D1_def D2_def D3_def)
  have dn: "D1 \<noteq> M Debugfs" "D2 \<noteq> M Debugfs" "D3 \<noteq> M Debugfs" by (simp_all add: D1_def D2_def D3_def)
  obtain r1 d1 where 1: "acquire E D1 (pf_dev s0) = (r1, d1)" by force
  obtain r2 d2 where 2: "acquire E D2 d1 = (r2, d2)" by force
  obtain r3 d3 where 3: "acquire E D3 d2 = (r3, d3)" by force
  obtain r4 d4 where 4: "idxd_cdev_register E d3 = (r4, d4)" by force
  obtain r5 d5 where 5: "idxd_init_debugfs E ready d4 = (r5, d5)" by force
  obtain r6 d6 where 6: "acquire E (M PciDriver) d5 = (r6, d6)" by force
  note m = module_acquire [OF 1] module_acquire [OF 2] module_acquire [OF 3] module_acquire [OF 6]
  let ?un = "idxd_driver_unregister (idxd_drv rw)" let ?eu = "idxd_driver_unregister idxd_dmaengine_drv"
  let ?ec = "idxd_driver_unregister idxd_user_drv"
  have e: "idxd_init_module E rw mv ready s =
      (if r1 < 0 then (r1, s0\<lparr>pf_dev := d1\<rparr>) else if r2 < 0 then (r2, s0\<lparr>pf_dev := ?un d2\<rparr>)
       else if r3 < 0 then (r3, s0\<lparr>pf_dev := ?un (?eu d3)\<rparr>) else if r4 \<noteq> 0 then (r4, s0\<lparr>pf_dev := ?un (?eu (?ec d4))\<rparr>)
       else if r5 \<noteq> 0 then (r5, s0\<lparr>pf_dev := ?un (?eu (?ec (idxd_cdev_remove d5)))\<rparr>)
       else if r6 < 0 then (r6, s0\<lparr>pf_dev := ?un (?eu (?ec (idxd_cdev_remove (idxd_remove_debugfs d6))))\<rparr>)
       else (0, s0\<lparr>pf_dev := d6\<rparr>))"
    using True by (simp add: idxd_init_module_def s0_def [symmetric] reg 1 2 3 4 5 6)
  have k3: "held d3 = (\<lambda>x. k x + ind {D1} x + ind {D2} x + ind {D3} x)" if "\<not> r1 < 0" "\<not> r2 < 0" "\<not> r3 < 0"
    using that m h0 by simp
  have k4: "held d4 = (if r4 \<noteq> 0 then held d3 else (\<lambda>x. held d3 x + ind {M (Chrdev 0), M (Chrdev 1)} x))"
    using chrdev_held [OF 4 [unfolded idxd_cdev_register_def]] by simp
  show ?thesis
  proof (cases "r1 < 0 \<or> r2 < 0 \<or> r3 < 0 \<or> r4 \<noteq> 0")
    case True
    then obtain d where "rc \<noteq> 0" "s' = s0\<lparr>pf_dev := d\<rparr>" "held d = k"
      using i h0 m k3 k4 unfolding e by (auto simp: unreg split: if_splits)
    then show ?thesis using ex by (simp add: h_def)
  next
    case False
    define c where "c = (\<lambda>x. k x + ind {D1} x + ind {D2} x + ind {D3} x + ind {M (Chrdev 0), M (Chrdev 1)} x)"
    have h4: "held d4 = c" using False k3 k4 by (simp add: c_def)
    have "c (M Debugfs) = 0" using s(2) dn by (auto simp: c_def k_def h_def ind_def)
    note c5 = this init_debugfs_module [OF 5] h4
    define g where "g = (if held d5 = c then (\<lambda>_. 0) else ind {M Debugfs})"
    have h5: "held d5 = (\<lambda>x. c x + g x)" "r5 \<noteq> 0 \<Longrightarrow> held d5 = c" using c5 by (auto simp: g_def split: if_splits)
    have rest: "held (?un (?eu (?ec (idxd_cdev_remove d)))) = k" if "held d = c" for d :: idxd_device
      using that by (simp add: unreg cdev_remove_held c_def)
    have dbg: "held (idxd_remove_debugfs d) = c'" if "held d = (\<lambda>x. c' x + g x)" "c' (M Debugfs) = 0" for d :: idxd_device and c'
      by (rule remove_debugfs_module [OF that]) (simp add: g_def)
    show ?thesis
    proof (cases "r5 \<noteq> 0 \<or> r6 < 0")
      case True
      then obtain d where "rc \<noteq> 0" "s' = s0\<lparr>pf_dev := d\<rparr>" "held d = k"
        using i False h5 m(4) rest [of d5] rest [of "idxd_remove_debugfs d6"] dbg [of d6 c] c5(1)
        unfolding e by (auto split: if_splits)
      then show ?thesis using ex by (simp add: h_def)
    next
      case ok: False
      then have s': "rc = 0" "s' = s0\<lparr>pf_dev := d6\<rparr>" using i False unfolding e by auto
      have h6: "held d6 = (\<lambda>x. c x + g x + ind {M PciDriver} x)" using m(4) h5 ok by simp
      let ?d = "idxd_cdev_remove (release (M PciDriver) (?un (?eu (?ec d6))))"
      have d: "held ?d = (\<lambda>x. k x + g x)"
        by (simp add: cdev_remove_held unreg h6 units c_def fun_eq_iff)
      have x: "held (pf_dev (perfmon_exit (s'\<lparr>pf_dev := ?d\<rparr>))) = (\<lambda>x. h x + g x)"
        using d s'(2) by (auto simp: perfmon_exit_def on_pf_dev_def k_def units)
      have "held (idxd_remove_debugfs (pf_dev (perfmon_exit (s'\<lparr>pf_dev := ?d\<rparr>)))) = h"
        by (rule dbg [OF x]) (use s(2) in \<open>simp add: h_def\<close>)
      then show ?thesis using s' by (simp add: idxd_exit_module_def h_def on_pf_dev_def Let_def)
    qed
  qed
qed


subsection \<open>Properties\<close>

text \<open>
  C7: probing a configurable device establishes what its configuration files rely on. When the kernel
  refuses nothing, the registers below the general configuration register are read only, the device is
  not halted and it reports at most 64 engines, \<^verbatim>\<open>idxd_pci_probe\<close> returns 0, the arrays of queues,
  engines and groups are well formed and count their members, no more read buffers are promised than
  there are, and any sequence of writes to the configuration files keeps it so.
\<close>

theorem probe_then_configure:
  assumes "willing E" "caps_ro E" "\<not> idxd_device_is_halted (pf_dev s)"
    and "getf gen_cap_reg ''config_en'' (ioread64 IDXD_GENCAP_OFFSET (pf_dev s)) \<noteq> 0"
    and "unat (getf engine_cap_reg ''num_engines'' (ioread64 IDXD_ENGCAP_OFFSET (pf_dev s))) \<le> 64"
    and "no_refs (held (pf_dev s))" "held (pf_dev s) (DevRef DevIdxd) = 0" "held (pf_dev s) (D DebugfsDir) = 0"
  shows "\<exists>s' d'. idxd_pci_probe E a online data s = Some (0, s') \<and> members_ok (pf_dev s') \<and> rdbufs_ok (pf_dev s') \<and>
    run_writes (sysfs_store E') writable ws (pf_dev s') = Some d' \<and> members_ok d' \<and> rdbufs_ok d'"
proof -
  obtain s' where p: "idxd_pci_probe E a online data s = Some (0, s')" "members_ok (pf_dev s')" "rdbufs_ok (pf_dev s')"
    using pci_probe_succeeds [OF assms, of a online data] by (elim exE conjE)
  from memb.run_inv [OF p(2), of E' ws] obtain d' where "run_writes (sysfs_store E') writable ws (pf_dev s') = Some d'" "members_ok d'"
    by (elim exE conjE)
  with p rdbuf.run_inv_result [OF p(3)] show ?thesis by blast
qed

theorem probe_then_configure_witness:
  "\<exists>s' d'. idxd_pci_probe probe_env 0 [] \<lparr>drv_type = IDXD_TYPE_DSA, compl_size = 32\<rparr> probe_perf = Some (0, s') \<and>
     members_ok (pf_dev s') \<and> rdbufs_ok (pf_dev s') \<and>
     run_writes (sysfs_store sample_env) writable [(FWq 1 attr_wq_group_id, ''0'', 1)] (pf_dev s') = Some d' \<and>
     members_ok d' \<and> rdbufs_ok d'"
proof (rule probe_then_configure [OF _ _ _ _ _ probe_perf_ok])
  show "willing probe_env" by (auto simp: willing_def probe_env_def sample_env_def)
  show "caps_ro probe_env" by (auto simp: caps_ro_def probe_env_def sample_env_def)
  have r: "ioread32 IDXD_GENSTATS_OFFSET (pf_dev probe_perf) = 0"
    "ioread64 IDXD_GENCAP_OFFSET (pf_dev probe_perf) = 0x80000000" "ioread64 IDXD_ENGCAP_OFFSET (pf_dev probe_perf) = 2"
    by (simp_all add: ioread32_def ioread64_def probe_perf_def zero_device_def)
  show "\<not> idxd_device_is_halted (pf_dev probe_perf)"
    by (simp add: idxd_device_is_halted_def r getf_def gensts_reg_def)
  show "getf gen_cap_reg ''config_en'' (ioread64 IDXD_GENCAP_OFFSET (pf_dev probe_perf)) \<noteq> 0"
    unfolding r by (simp add: getf_def gen_cap_reg_def)
  show "unat (getf engine_cap_reg ''num_engines'' (ioread64 IDXD_ENGCAP_OFFSET (pf_dev probe_perf))) \<le> 64"
    unfolding r by (simp add: getf_def engine_cap_reg_def)
qed



text \<open>
  C35: unloading the module gives back everything that loading obtained. When loading fails, one thing
  stays behind, exactly what \<^verbatim>\<open>perfmon_exit\<close> would take back: the state that \<^verbatim>\<open>perfmon_init\<close> set up for
  processors going on- and offline, which no error path of \<^verbatim>\<open>idxd_init_module\<close> removes.
\<close>

theorem module_load_unload:
  assumes "idxd_init_module E rw mv ready s = (rc, s')" "\<not> pf_set_up s" "held (pf_dev s) (M Debugfs) = 0"
  shows "if rc = 0 then held (pf_dev (idxd_exit_module rw s')) = held (pf_dev s)
    else held (pf_dev (perfmon_exit s')) = held (pf_dev s)"
  by (rule init_module_spec [OF assms])

theorem module_load_unload_witness:
  "\<exists>s'. idxd_init_module sample_env (\<lambda>_ d. d) True True (sample_perf\<lparr>pf_set_up := False\<rparr>) = (0, s') \<and>
     held (pf_dev (idxd_exit_module (\<lambda>_ d. d) s')) = held (pf_dev sample_perf)"
proof -
  let ?s = "sample_perf\<lparr>pf_set_up := False\<rparr>"
  have u: "[0..<2] = [0, Suc 0]" by (simp add: upt_rec)
  obtain s' where s': "idxd_init_module sample_env (\<lambda>_ d. d) True True ?s = (0, s')"
    by (simp add: idxd_init_module_def perfmon_init_def idxd_driver_register_def idxd_drv_def idxd_dmaengine_drv_def
        idxd_user_drv_def idxd_cdev_register_def u idxd_init_debugfs_def acquire_def ext_def Let_def sample_env_def)
  from module_load_unload [OF s'] s' show ?thesis
    by (simp add: sample_perf_def sample_dev_def zero_device_def)
qed

end
