(* ===== verification/Offload.thy ===== *)
theory Offload
  imports Attributes Evl
begin

text \<open>
  The kernel module of \<^verbatim>\<open>3.kernel_test_N_DSAs\<close> (\<^verbatim>\<open>kernel_test.h\<close>, \<^verbatim>\<open>kernel_test_sgtable_batch.c\<close>): it
  copies the pages of one memory area to another one in shuffled order, by batch descriptors spread
  over all kernel queues, and compares the result with the processor's copy. The constant \<^verbatim>\<open>NPAGES\<close>
  is the argument \<open>np\<close>, a page is its frame number, and a use of a NULL or freed pointer is
  \<^const>\<open>None\<close>. What the kernel's services return are arguments.
\<close>

subsection \<open>Memory areas\<close>

abbreviation (input) PAGE_BYTES :: nat where "PAGE_BYTES \<equiv> 4096"

record area =
  ar_pages :: "string list"
  ar_reserved :: "bool list"

definition page_text :: "string \<Rightarrow> nat \<Rightarrow> string" where
  "page_text name i =
     (let s = name @ '' '' @ dec i
      in s @ CHR 0x00 # replicate (PAGE_BYTES - length s - 1) (CHR ''0''))"

definition area_names :: "string list" where
  "area_names = [''vmalloc'', ''vmalloc2'', ''vmalloc3'', ''vmalloc4'', ''vmalloc5'', ''vmalloc6'']"

text \<open>\<open>oks\<close> says which of the six calls of \<^verbatim>\<open>vmalloc\<close> succeed; freed areas are \<^const>\<open>None\<close>.\<close>

definition init_region :: "nat \<Rightarrow> bool list \<Rightarrow> int \<times> area option list" where
  "init_region np oks =
     (let areas = map (\<lambda>ok. if ok then Some \<lparr>ar_pages = replicate np [], ar_reserved = replicate np False\<rparr> else None) oks
      in if None \<in> set areas then (- ENOMEM, map (\<lambda>_. None) areas)
         else
           let areas = map (map_option (\<lambda>a. a\<lparr>ar_reserved := replicate np True\<rparr>)) areas;
               areas = map2 (\<lambda>name. map_option (\<lambda>a. a\<lparr>ar_pages := map (page_text name) [0..<np]\<rparr>)) area_names areas
           in (0, areas))"

text \<open>An area whose pages are still reserved must not be freed.\<close>

definition exit_module :: "nat \<Rightarrow> area option list \<Rightarrow> area option list option" where
  "exit_module np areas =
     (if None \<in> set areas then None
      else
        let areas = map (map_option (\<lambda>a. a\<lparr>ar_reserved := replicate np False\<rparr>)) areas
        in if \<exists>a\<in>set areas. True \<in> set (ar_reserved (the a)) then None else Some (map (\<lambda>_. None) areas))"

subsection \<open>Shuffling and finding queues\<close>

text \<open>\<open>rnd\<close> has the results of \<^verbatim>\<open>get_random_u32\<close>, in the order of the calls.\<close>

definition shuffle_step :: "nat \<Rightarrow> (nat \<Rightarrow> u32) \<Rightarrow> nat \<Rightarrow> nat list \<Rightarrow> nat list" where
  "shuffle_step np rnd i arr =
     (let tmp = unat (drop_bit 1 (rnd i)) mod np;
          tmp2 = arr ! i;
          arr = arr[i := arr ! tmp]
      in arr[tmp := tmp2])"

definition random_arr :: "nat \<Rightarrow> (nat \<Rightarrow> u32) \<Rightarrow> nat list" where
  "random_arr np rnd = fold (shuffle_step np rnd) [0..<np] [0..<np]"

definition wq_usable :: "idxd_device \<Rightarrow> idxd_wq \<Rightarrow> bool" where
  "wq_usable d w \<longleftrightarrow> wq_state w = IDXD_WQ_ENABLED \<and> is_idxd_wq_dmaengine w \<and> is_idxd_wq_kernel w \<and> device_pasid_enabled d"

definition dev_usable :: "idxd_device \<Rightarrow> bool" where
  "dev_usable d \<longleftrightarrow> dev_state d = IDXD_DEV_ENABLED \<and> bit (dev_flags d) IDXD_FLAG_CONFIGURABLE"

text \<open>
  \<open>bound\<close> says which of the PCI devices have driver data and \<open>chan_ok\<close> which channels the dmaengine
  core hands out; the result is not looked at. The number of a queue is its place in the list.
\<close>

definition init_dsa ::
  "(nat \<Rightarrow> bool) \<Rightarrow> (nat \<times> nat \<Rightarrow> bool) \<Rightarrow> idxd_device list \<Rightarrow> (nat \<times> nat \<Rightarrow> int) \<Rightarrow> int \<times> (nat \<times> nat) list \<times> (nat \<times> nat \<Rightarrow> int)" where
  "init_dsa bound chan_ok devs refs =
     (let qs = concat (map (\<lambda>a. if bound a \<and> dev_usable (devs ! a)
                 then map (Pair a) (filter (\<lambda>i. wq_usable (devs ! a) (wqs (devs ! a) ! i)) [0..<max_wqs (devs ! a)])
                 else []) [0..<length devs]);
          refs = fold (\<lambda>q refs. if chan_ok q then refs(q := refs q + 1) else refs) qs refs
      in if qs = [] then (- ENODEV, qs, refs) else (0, qs, refs))"

definition release_channels :: "(nat \<times> nat) list \<Rightarrow> (nat \<times> nat \<Rightarrow> int) \<Rightarrow> nat \<times> nat \<Rightarrow> int" where
  "release_channels qs refs = fold (\<lambda>q refs. refs(q := refs q - 1)) qs refs"

subsection \<open>Scatter tables\<close>

text \<open>
  A table is the list of its entries. \<^verbatim>\<open>sg_next\<close> of an entry with the end mark is NULL; a freed table
  has no entries.
\<close>

datatype side = Src | Dst

record scatterlist =
  sg_page :: "nat option"
  sg_end :: bool
  sg_dma_address :: u64
  sg_dma_len :: u32

record sg_table =
  sgl :: "scatterlist list"
  nents :: nat

definition sg_alloc_table :: "nat \<Rightarrow> sg_table" where
  "sg_alloc_table n = \<lparr>sgl = map (\<lambda>j. \<lparr>sg_page = None, sg_end = (j + 1 = n), sg_dma_address = 0, sg_dma_len = 0\<rparr>) [0..<n], nents = n\<rparr>"

definition sg_free_table :: "sg_table \<Rightarrow> sg_table" where
  "sg_free_table t = t\<lparr>sgl := []\<rparr>"

definition sg_next :: "sg_table \<Rightarrow> nat \<Rightarrow> nat option" where
  "sg_next t j = (if sg_end (sgl t ! j) then None else Some (j + 1))"

text \<open>The tables of all queues under construction, with the place of \<^verbatim>\<open>prev_sg\<close>.\<close>

record sg_build =
  b_src :: "sg_table list"
  b_dst :: "sg_table list"
  b_prev :: "(side \<times> nat \<times> nat) option"

definition upd_sg :: "side \<Rightarrow> nat \<Rightarrow> nat \<Rightarrow> (scatterlist \<Rightarrow> scatterlist) \<Rightarrow> sg_build \<Rightarrow> sg_build" where
  "upd_sg side i j f b =
     (let g = list_upd i (\<lambda>t. t\<lparr>sgl := list_upd j f (sgl t)\<rparr>)
      in case side of Src \<Rightarrow> b\<lparr>b_src := g (b_src b)\<rparr> | Dst \<Rightarrow> b\<lparr>b_dst := g (b_dst b)\<rparr>)"

definition set_page :: "side \<Rightarrow> nat \<Rightarrow> nat \<Rightarrow> nat \<Rightarrow> sg_build \<Rightarrow> sg_build" where
  "set_page side i j p b = (upd_sg side i j (\<lambda>s. s\<lparr>sg_page := Some p\<rparr>) b)\<lparr>b_prev := Some (side, i, j)\<rparr>"

definition sg_mark_end :: "sg_build \<Rightarrow> sg_build option" where
  "sg_mark_end b = (case b_prev b of None \<Rightarrow> None | Some (side, i, j) \<Rightarrow> Some (upd_sg side i j (\<lambda>s. s\<lparr>sg_end := True\<rparr>) b))"

text \<open>
  The two loops over the entries \<open>js\<close> of a table; \<open>page\<close> is \<^verbatim>\<open>vmalloc_to_page\<close> of the area. The first
  component is false when a page is missing.
\<close>

fun fill_src :: "nat \<Rightarrow> (nat \<Rightarrow> nat option) \<Rightarrow> nat list \<Rightarrow> nat \<Rightarrow> nat \<Rightarrow> nat list \<Rightarrow> sg_build \<Rightarrow> bool \<times> sg_build" where
  "fill_src np page arr i idx [] b = (True, b)"
| "fill_src np page arr i idx (j # js) b =
     (if idx + j \<ge> np then (True, b)
      else case page (arr ! (idx + j)) of
             None \<Rightarrow> (False, b)
           | Some p \<Rightarrow> fill_src np page arr i idx js (set_page Src i j p b))"

fun fill_dst :: "nat \<Rightarrow> (nat \<Rightarrow> nat option) \<Rightarrow> nat list \<Rightarrow> nat \<Rightarrow> nat list \<Rightarrow> nat \<times> sg_build \<Rightarrow> bool \<times> nat \<times> sg_build" where
  "fill_dst np page arr i [] (idx, b) = (True, idx, b)"
| "fill_dst np page arr i (j # js) (idx, b) =
     (if idx \<ge> np then (True, idx, b)
      else case page (arr ! idx) of
             None \<Rightarrow> (False, idx + 1, b)
           | Some p \<Rightarrow> fill_dst np page arr i js (idx + 1, set_page Dst i j p b))"

fun fill_tables ::
  "nat \<Rightarrow> (nat \<Rightarrow> nat option) \<Rightarrow> (nat \<Rightarrow> nat option) \<Rightarrow> nat list \<Rightarrow> nat list \<Rightarrow> nat \<times> sg_build \<Rightarrow> (bool \<times> sg_build) option" where
  "fill_tables np p1 p2 arr [] (idx, b) = Some (True, b)"
| "fill_tables np p1 p2 arr (i # is) (idx, b) =
     (case fill_src np p1 arr i idx [0..<length (sgl (b_src b ! i))] b of
        (False, b) \<Rightarrow> Some (False, b)
      | (True, b) \<Rightarrow>
          case sg_mark_end b of
            None \<Rightarrow> None
          | Some b \<Rightarrow>
              case fill_dst np p2 arr i [0..<length (sgl (b_dst b ! i))] (idx, b) of
                (False, idx, b) \<Rightarrow> Some (False, b)
              | (True, idx, b) \<Rightarrow>
                  case sg_mark_end b of
                    None \<Rightarrow> None
                  | Some b \<Rightarrow> fill_tables np p1 p2 arr is (idx, b))"

definition sgt_nents :: "nat \<Rightarrow> nat \<Rightarrow> nat" where
  "sgt_nents np w = (if np mod w = 0 then np div w else np div w + 1)"

text \<open>
  \<open>mem\<close> says whether the unchecked allocations of the arrays succeed, \<open>table_ok\<close> which tables can be
  allocated. The function returns nothing: after a failure the tables are freed and the caller goes on.
\<close>

definition vmalloc_to_sgtable ::
  "bool \<Rightarrow> (side \<times> nat \<Rightarrow> bool) \<Rightarrow> nat \<Rightarrow> (nat \<Rightarrow> nat option) \<Rightarrow> (nat \<Rightarrow> nat option) \<Rightarrow> nat list \<Rightarrow> nat
     \<Rightarrow> (sg_table list \<times> sg_table list) option" where
  "vmalloc_to_sgtable mem table_ok np p1 p2 arr w =
     (if \<not> mem then None
      else
        let n = sgt_nents np w;
            empty = replicate w \<lparr>sgl = [], nents = 0\<rparr>;
            full = replicate w (sg_alloc_table n)
        in if n = 0 \<or> (\<exists>i<w. \<not> table_ok (Src, i) \<or> \<not> table_ok (Dst, i)) then Some (empty, empty)
           else case fill_tables np p1 p2 arr [0..<w] (0, \<lparr>b_src = full, b_dst = full, b_prev = None\<rparr>) of
                  None \<Rightarrow> None
                | Some (False, b) \<Rightarrow> Some (map sg_free_table (b_src b), map sg_free_table (b_dst b))
                | Some (True, b) \<Rightarrow> Some (b_src b, b_dst b))"

text \<open>
  \<open>mapper q side pages\<close> is what mapping the pages of a table for the device of queue \<open>q\<close> gives: the
  segments, of which there may be fewer than pages, or \<^const>\<open>None\<close> when the mapping fails. The mapping
  follows \<^verbatim>\<open>sg_next\<close> for as many entries as the table has.
\<close>

definition set_dma :: "(u64 \<times> u32) list \<Rightarrow> sg_table \<Rightarrow> sg_table" where
  "set_dma segs t =
     t\<lparr>nents := length segs,
       sgl := map (\<lambda>j. if j < length segs
                       then (sgl t ! j)\<lparr>sg_dma_address := fst (segs ! j), sg_dma_len := snd (segs ! j)\<rparr>
                       else sgl t ! j) [0..<length (sgl t)]\<rparr>"

definition dma_map_sgtable ::
  "(nat \<Rightarrow> side \<Rightarrow> nat option list \<Rightarrow> (u64 \<times> u32) list option) \<Rightarrow> nat \<Rightarrow> side \<Rightarrow> sg_table \<Rightarrow> (bool \<times> sg_table) option" where
  "dma_map_sgtable mapper q side t =
     (if \<exists>j<length (sgl t). j + 1 < length (sgl t) \<and> sg_end (sgl t ! j) then None
      else case mapper q side (map sg_page (sgl t)) of
             None \<Rightarrow> Some (False, t)
           | Some segs \<Rightarrow> Some (True, set_dma segs t))"

fun sgtable_to_dma_map ::
  "(nat \<Rightarrow> side \<Rightarrow> nat option list \<Rightarrow> (u64 \<times> u32) list option) \<Rightarrow> nat list \<Rightarrow> sg_table list \<times> sg_table list
     \<Rightarrow> (sg_table list \<times> sg_table list) option" where
  "sgtable_to_dma_map mapper [] (ss, ds) = Some (ss, ds)"
| "sgtable_to_dma_map mapper (q # qs) (ss, ds) =
     (case dma_map_sgtable mapper q Src (ss ! q) of
        None \<Rightarrow> None
      | Some (False, t) \<Rightarrow> Some (ss, ds)
      | Some (True, t) \<Rightarrow>
          case dma_map_sgtable mapper q Dst (ds ! q) of
            None \<Rightarrow> None
          | Some (False, u) \<Rightarrow> Some (ss[q := t], ds)
          | Some (True, u) \<Rightarrow> sgtable_to_dma_map mapper qs (ss[q := t], ds[q := u]))"

subsection \<open>Preparing descriptors\<close>

abbreviation (input) DSA_OPCODE_BATCH :: u8 where "DSA_OPCODE_BATCH \<equiv> 1"
abbreviation (input) KT_FLAGS :: u64 where "KT_FLAGS \<equiv> 0x10E"

record batch_info =
  sub_compl :: "u8 list"
  sub_hw_descs :: "dsa_hw_desc list"
  batch_compls_addr :: u64
  batch_hw_descs_addr :: u64
  batch_compls_size :: int
  batch_hw_descs_size :: int
  batch_live :: bool

record idxd_desc_list =
  dl_queue :: nat
  dl_desc :: nat
  completion :: bool
  batch_info :: "batch_info option"

text \<open>
  What happens around one descriptor: whether the unchecked allocations succeed, the rounds of a
  sleeping allocation, a device brought back while the submission waits, the two DMA addresses.
\<close>

record call_world =
  cw_mem :: bool
  cw_rounds :: "(bool \<times> (idxd_device \<Rightarrow> idxd_device)) list"
  cw_resume :: "idxd_device \<Rightarrow> idxd_device"
  cw_compls :: u64
  cw_descs :: u64

text \<open>In the hardware descriptor \<^verbatim>\<open>desc_list_addr\<close> is \<open>src_addr\<close> and \<^verbatim>\<open>desc_count\<close> is \<open>xfer_size\<close>.\<close>

definition idxd_prep_desc_batch :: "u8 \<Rightarrow> u64 \<Rightarrow> u32 \<Rightarrow> u64 \<Rightarrow> u32 \<Rightarrow> dsa_hw_desc \<Rightarrow> dsa_hw_desc" where
  "idxd_prep_desc_batch opcode list_addr count compl flags hw =
     hw\<lparr>hd_flags := take_bit 24 flags, hd_opcode := opcode, src_addr := list_addr, xfer_size := count,
        hd_priv := 0, completion_addr := compl\<rparr>"

text \<open>The result is \<^verbatim>\<open>NULL\<close> as the inner \<^const>\<open>None\<close>.\<close>

definition idxd_desc_dma_submit_memcpy ::
  "env \<Rightarrow> nat \<Rightarrow> u64 \<Rightarrow> u64 \<Rightarrow> u64 \<Rightarrow> u64 \<Rightarrow> (bool \<times> (idxd_device \<Rightarrow> idxd_device)) list
     \<Rightarrow> idxd_device \<Rightarrow> (nat option \<times> idxd_device) option" where
  "idxd_desc_dma_submit_memcpy E i dma_dest dma_src len flags rounds d =
     (if wq_state (wqs d ! i) \<noteq> IDXD_WQ_ENABLED then Some (None, d)
      else if len > dev_max_xfer_bytes d then Some (None, d)
      else
        let desc_flags = op_flag_setup flags
        in case idxd_alloc_desc E i IDXD_OP_BLOCK rounds d of
             None \<Rightarrow> None
           | Some (Inl _, d) \<Rightarrow> Some (None, d)
           | Some (Inr k, d) \<Rightarrow>
               let d = upd_desc i k (\<lambda>x. x\<lparr>desc_hw := idxd_prep_desc_common DSA_OPCODE_MEMMOVE dma_src dma_dest len
                                              (compl_dma x) desc_flags (desc_hw x)\<rparr>) d;
                   d = upd_desc i k (\<lambda>x. x\<lparr>txd_flags := flags\<rparr>) d
               in Some (Some k, d))"

text \<open>\<^verbatim>\<open>for_each_2_sg\<close> over \<open>n\<close> pairs of entries, with the two positions after it.\<close>

fun sg_pairs ::
  "sg_table \<Rightarrow> sg_table \<Rightarrow> nat \<Rightarrow> nat option \<Rightarrow> nat option
     \<Rightarrow> ((scatterlist \<times> scatterlist) list \<times> nat option \<times> nat option) option" where
  "sg_pairs ts td 0 ps pd = Some ([], ps, pd)"
| "sg_pairs ts td (Suc n) (Some js) (Some jd) =
     (case sg_pairs ts td n (sg_next ts js) (sg_next td jd) of
        None \<Rightarrow> None
      | Some (l, r) \<Rightarrow> Some ((sgl ts ! js, sgl td ! jd) # l, r))"
| "sg_pairs ts td (Suc n) ps pd = None"

definition sub_desc :: "idxd_device \<Rightarrow> u32 \<Rightarrow> u64 \<Rightarrow> nat \<Rightarrow> scatterlist \<times> scatterlist \<Rightarrow> dsa_hw_desc" where
  "sub_desc d desc_flags compls j sgs =
     (let h = zero_hw_desc
                \<lparr>hd_opcode := DSA_OPCODE_MEMMOVE, src_addr := sg_dma_address (fst sgs), dst_addr := sg_dma_address (snd sgs),
                 xfer_size := sg_dma_len (snd sgs), hd_flags := take_bit 24 desc_flags, hd_priv := 0,
                 completion_addr := compls + of_nat (j * compl_size (drv_data d))\<rparr>
      in if device_pasid_enabled d then h\<lparr>hd_pasid := take_bit 20 (pasid d)\<rparr> else h)"

definition idxd_desc_dma_submit_memcpy_sg ::
  "env \<Rightarrow> call_world \<Rightarrow> nat \<Rightarrow> nat \<Rightarrow> sg_table \<Rightarrow> sg_table \<Rightarrow> nat option \<Rightarrow> nat option \<Rightarrow> nat \<Rightarrow> u64 \<Rightarrow> idxd_device
     \<Rightarrow> ((idxd_desc_list \<times> nat option \<times> nat option) option \<times> idxd_device) option" where
  "idxd_desc_dma_submit_memcpy_sg E cw q i ts td ps pd ents flags d =
     (if \<not> cw_mem cw then None
      else if wq_state (wqs d ! i) \<noteq> IDXD_WQ_ENABLED then Some (None, d)
      else
        let desc_flags = op_flag_setup flags
        in case idxd_alloc_desc E i IDXD_OP_BLOCK (cw_rounds cw) d of
             None \<Rightarrow> None
           | Some (Inl _, d) \<Rightarrow> Some (None, d)
           | Some (Inr k, d) \<Rightarrow>
               let d = upd_desc i k (\<lambda>x. x\<lparr>desc_hw := idxd_prep_desc_batch DSA_OPCODE_BATCH (cw_descs cw) (word_of_nat ents)
                                              (compl_dma x) desc_flags (desc_hw x)\<rparr>) d;
                   d = upd_desc i k (\<lambda>x. x\<lparr>txd_flags := flags\<rparr>) d
               in case sg_pairs ts td ents ps pd of
                    None \<Rightarrow> None
                  | Some (l, ps, pd) \<Rightarrow>
                      Some (Some (\<lparr>dl_queue = q, dl_desc = k, completion = False,
                        batch_info = Some \<lparr>sub_compl = replicate ents 0,
                          sub_hw_descs = map2 (sub_desc d desc_flags (cw_compls cw)) [0..<ents] l,
                          batch_compls_addr = cw_compls cw, batch_hw_descs_addr = cw_descs cw,
                          batch_compls_size = int (ents * compl_size (drv_data d)),
                          batch_hw_descs_size = int (ents * 64), batch_live = True\<rparr>\<rparr>, ps, pd), d))"

subsection \<open>Submitting\<close>

text \<open>
  \<open>kt_sent\<close> lists what was handed to the hardware: the queue and the copies (source, destination and
  length) its descriptor asks for. The freed \<^verbatim>\<open>batch_task\<close>, whose pointer is kept, is \<^term>\<open>Some False\<close>.
\<close>

record ktest =
  kt_devs :: "idxd_device list"
  kt_wqs :: "(nat \<times> nat) list"
  src_sgts :: "sg_table list"
  dst_sgts :: "sg_table list"
  sg_srcs :: "nat option list"
  sg_dsts :: "nat option list"
  batch_task :: "bool option"
  desc_lists :: "idxd_desc_list list"
  kt_sent :: "(nat \<times> (u64 \<times> u64 \<times> u32) list) list"
  total_entries :: int
  thread_execution :: bool
  thread_wakeup :: bool
  completion_status :: int

definition total_nents :: "'a ktest_scheme \<Rightarrow> nat \<Rightarrow> nat" where
  "total_nents s q =
     (if nents (src_sgts s ! q) > nents (dst_sgts s ! q) then nents (dst_sgts s ! q) else nents (src_sgts s ! q))"

definition max_batch :: "'a ktest_scheme \<Rightarrow> nat \<Rightarrow> nat" where
  "max_batch s q = unat (dev_max_batch_size (kt_devs s ! fst (kt_wqs s ! q)))"

definition descs_entry :: "'a ktest_scheme \<Rightarrow> nat \<Rightarrow> nat" where
  "descs_entry s q = total_nents s q div max_batch s q + (if total_nents s q mod max_batch s q \<noteq> 0 then 1 else 0)"

definition first_sg :: "sg_table \<Rightarrow> nat option" where
  "first_sg t = (if sgl t = [] then None else Some 0)"

text \<open>
  The start of \<^verbatim>\<open>dsa_copy\<close> and the iterations of its nested loops, in order, that submit something.
  A batch size of zero is a division by zero.
\<close>

definition dsa_prepare :: "'a ktest_scheme \<Rightarrow> ('a ktest_scheme \<times> (nat \<times> nat) list) option" where
  "dsa_prepare s =
     (let w = length (kt_wqs s)
      in if \<exists>q<w. max_batch s q = 0 then None
         else
           let max_ents = fold (\<lambda>q. max (descs_entry s q)) [0..<w] 0;
               ps = concat (map (\<lambda>cur. map (Pair cur) (filter (\<lambda>q. cur < descs_entry s q) [0..<w])) [0..<max_ents])
           in Some (s\<lparr>sg_srcs := map (\<lambda>q. first_sg (src_sgts s ! q)) [0..<w],
                      sg_dsts := map (\<lambda>q. first_sg (dst_sgts s ! q)) [0..<w],
                      batch_task := None, total_entries := int (max_ents * w)\<rparr>, ps))"

definition hw_move :: "dsa_hw_desc \<Rightarrow> u64 \<times> u64 \<times> u32" where
  "hw_move h = (src_addr h, dst_addr h, xfer_size h)"

definition moves_of :: "dsa_hw_desc \<Rightarrow> batch_info option \<Rightarrow> (u64 \<times> u64 \<times> u32) list" where
  "moves_of hw bi =
     (if hd_opcode hw = DSA_OPCODE_MEMMOVE then [hw_move hw]
      else case bi of
             Some b \<Rightarrow> if hd_opcode hw = DSA_OPCODE_BATCH \<and> src_addr hw = batch_hw_descs_addr b
                       then map hw_move (take (unat (xfer_size hw)) (sub_hw_descs b)) else []
           | None \<Rightarrow> [])"

text \<open>The code after a descriptor is made: queueing it, submitting it, waking the thread, freeing the task.\<close>

definition submit_tail :: "env \<Rightarrow> call_world \<Rightarrow> idxd_desc_list \<Rightarrow> 'a ktest_scheme \<Rightarrow> 'a ktest_scheme option" where
  "submit_tail E cw e s =
     (let (a, i) = kt_wqs s ! dl_queue e;
          s = s\<lparr>desc_lists := desc_lists s @ [e]\<rparr>;
          hw = desc_hw (the_desc i (dl_desc e) (kt_devs s ! a))
      in case idxd_submit_desc E i (dl_desc e) (cw_resume cw) (kt_devs s ! a) of
           None \<Rightarrow> None
         | Some (ret, d) \<Rightarrow>
             let s = s\<lparr>kt_devs := (kt_devs s)[a := d], kt_sent := kt_sent s @ [(dl_queue e, moves_of hw (batch_info e))]\<rparr>;
                 s = (if thread_execution s then s else s\<lparr>thread_execution := True\<rparr>)
             in case batch_task s of
                  None \<Rightarrow> Some s
                | Some True \<Rightarrow> Some (s\<lparr>batch_task := Some False\<rparr>)
                | Some False \<Rightarrow> None)"

text \<open>A descriptor that could not be made is a NULL pointer, which the code goes on to use.\<close>

definition submit_one :: "env \<Rightarrow> (nat \<times> nat \<Rightarrow> call_world) \<Rightarrow> nat \<times> nat \<Rightarrow> 'a ktest_scheme \<Rightarrow> 'a ktest_scheme option" where
  "submit_one E world p s =
     (let (cur_ent, q) = p; cw = world p; (a, i) = kt_wqs s ! q; d = kt_devs s ! a;
          ts = src_sgts s ! q; td = dst_sgts s ! q
      in if total_nents s q = 1 then
           if \<not> cw_mem cw then None
           else case (sg_srcs s ! q, sg_dsts s ! q) of
             (Some js, Some jd) \<Rightarrow>
               (case idxd_desc_dma_submit_memcpy E i (sg_dma_address (sgl td ! jd)) (sg_dma_address (sgl ts ! js))
                       (ucast (min (sg_dma_len (sgl ts ! js)) (sg_dma_len (sgl td ! jd)))) KT_FLAGS (cw_rounds cw) d of
                  None \<Rightarrow> None
                | Some (None, d) \<Rightarrow> None
                | Some (Some k, d) \<Rightarrow>
                    submit_tail E cw \<lparr>dl_queue = q, dl_desc = k, completion = False, batch_info = None\<rparr>
                      (s\<lparr>kt_devs := (kt_devs s)[a := d]\<rparr>))
           | _ \<Rightarrow> None
         else
           let left_ents = total_nents s q - cur_ent * max_batch s q;
               batch_size = (if left_ents > max_batch s q then max_batch s q else left_ents)
           in case idxd_desc_dma_submit_memcpy_sg E cw q i ts td (sg_srcs s ! q) (sg_dsts s ! q) batch_size KT_FLAGS d of
                None \<Rightarrow> None
              | Some (None, d) \<Rightarrow> None
              | Some (Some (e, ps, pd), d) \<Rightarrow>
                  submit_tail E cw e
                    (s\<lparr>kt_devs := (kt_devs s)[a := d], batch_task := Some True,
                       sg_srcs := (sg_srcs s)[q := ps], sg_dsts := (sg_dsts s)[q := pd]\<rparr>))"

subsection \<open>The completion thread\<close>

datatype thread_pc = FirstWait | Outer | Inner | Visit nat | After | Sleeping | Exited

datatype copy_pc = Submitting "(nat \<times> nat) list" | AwaitWakeup | AwaitCompletion | Copied | Stopping | Unloaded

record kcopy = ktest +
  kt_pc :: thread_pc
  poll_entry :: int
  completion_error :: bool
  kt_copy :: copy_pc
  should_stop :: bool

text \<open>Removing the entry at a place of the list, as \<^verbatim>\<open>list_del\<close> and \<^verbatim>\<open>kfree\<close> do.\<close>

definition del_at :: "nat \<Rightarrow> 'b list \<Rightarrow> 'b list" where
  "del_at j xs = take j xs @ drop (Suc j) xs"

definition drop_entry :: "nat \<Rightarrow> 'a ktest_scheme \<Rightarrow> bool \<times> 'a ktest_scheme" where
  "drop_entry j s =
     (if thread_execution s then (False, s) else (True, s\<lparr>desc_lists := del_at j (desc_lists s)\<rparr>))"

text \<open>
  The body of the loop over the list, for the entry at place \<open>j\<close>; the boolean says whether the entry is
  gone. \<open>complete\<close> is \<^verbatim>\<open>idxd_desc_complete\<close>, an interface of newer kernels in front of
  \<^const>\<open>idxd_dma_complete_txd\<close>. Freeing a batch twice is \<^const>\<open>None\<close>.
\<close>

definition finish_entry ::
  "(nat \<Rightarrow> nat \<Rightarrow> idxd_complete_type \<Rightarrow> bool \<Rightarrow> idxd_device \<Rightarrow> idxd_device) \<Rightarrow> idxd_complete_type \<Rightarrow> nat \<Rightarrow> kcopy \<Rightarrow> (bool \<times> kcopy) option" where
  "finish_entry complete ctype j s =
     (let e = desc_lists s ! j; (a, i) = kt_wqs s ! dl_queue e;
          s = s\<lparr>desc_lists := (desc_lists s)[j := e\<lparr>completion := True\<rparr>]\<rparr>;
          s = s\<lparr>kt_devs := (kt_devs s)[a := complete i (dl_desc e) ctype True (kt_devs s ! a)]\<rparr>;
          s = s\<lparr>poll_entry := poll_entry s + 1\<rparr>
      in case batch_info e of
           None \<Rightarrow> Some (drop_entry j s)
         | Some b \<Rightarrow>
             if \<not> batch_live b then None
             else Some (drop_entry j (s\<lparr>desc_lists := (desc_lists s)
                    [j := e\<lparr>completion := True, batch_info := Some (b\<lparr>batch_live := False\<rparr>)\<rparr>]\<rparr>)))"

definition poll_visit ::
  "(nat \<Rightarrow> nat \<Rightarrow> idxd_complete_type \<Rightarrow> bool \<Rightarrow> idxd_device \<Rightarrow> idxd_device) \<Rightarrow> nat \<Rightarrow> kcopy \<Rightarrow> (bool \<times> kcopy) option" where
  "poll_visit complete j s =
     (let e = desc_lists s ! j; (a, i) = kt_wqs s ! dl_queue e; k = dl_desc e;
          status = compl_status (the_desc i k (kt_devs s ! a))
      in if completion e then Some (drop_entry j s)
         else if status = DSA_COMP_SUCCESS then
           finish_entry complete IDXD_COMPLETE_NORMAL j
             (s\<lparr>kt_devs := (kt_devs s)[a := upd_desc i k (\<lambda>x. x\<lparr>txd_cookie := 1\<rparr>) (kt_devs s ! a)]\<rparr>)
         else if status > DSA_COMP_SUCCESS then
           finish_entry complete IDXD_COMPLETE_ABORT j (s\<lparr>completion_error := True\<rparr>)
         else Some (False, s))"

text \<open>
  One step of the thread. The walk keeps the place of the entry it visits; the successor is read before
  the body, so an entry queued meanwhile behind the last one waits for the next walk.
\<close>

definition thread_step ::
  "(nat \<Rightarrow> nat \<Rightarrow> idxd_complete_type \<Rightarrow> bool \<Rightarrow> idxd_device \<Rightarrow> idxd_device) \<Rightarrow> kcopy \<Rightarrow> kcopy option" where
  "thread_step complete s =
     (case kt_pc s of
        FirstWait \<Rightarrow> if thread_execution s then Some (s\<lparr>thread_wakeup := True, kt_pc := Outer\<rparr>) else Some s
      | Outer \<Rightarrow> Some (s\<lparr>kt_pc := (if should_stop s then Exited else Inner)\<rparr>)
      | Inner \<Rightarrow> Some (s\<lparr>kt_pc := (if \<not> should_stop s \<and> poll_entry s < total_entries s \<and> desc_lists s \<noteq> []
                                     then Visit 0 else After)\<rparr>)
      | Visit j \<Rightarrow>
          (let last = (Suc j \<ge> length (desc_lists s))
           in case poll_visit complete j s of
                None \<Rightarrow> None
              | Some (gone, s) \<Rightarrow> Some (s\<lparr>kt_pc := (if last then Inner else Visit (if gone then j else Suc j))\<rparr>))
      | After \<Rightarrow>
          if \<not> thread_execution s \<and> desc_lists s = []
          then Some (s\<lparr>completion_status := (if completion_error s then 2 else 1), thread_wakeup := False, kt_pc := Sleeping\<rparr>)
          else Some (s\<lparr>kt_pc := Outer\<rparr>)
      | Sleeping \<Rightarrow> if thread_execution s then Some (s\<lparr>kt_pc := Outer\<rparr>) else Some s
      | Exited \<Rightarrow> Some s)"

text \<open>
  One step of the loading thread, then of the one that unloads the module: submitting, waiting for the
  thread to wake up, waiting for it to finish, unmapping and freeing the tables; \<^verbatim>\<open>kthread_stop\<close> waits
  for the thread's exit.
\<close>

definition copy_step :: "env \<Rightarrow> (nat \<times> nat \<Rightarrow> call_world) \<Rightarrow> kcopy \<Rightarrow> kcopy option" where
  "copy_step E world s =
     (case kt_copy s of
        Submitting [] \<Rightarrow> Some (s\<lparr>kt_copy := AwaitWakeup\<rparr>)
      | Submitting (p # ps) \<Rightarrow> map_option (\<lambda>s. s\<lparr>kt_copy := Submitting ps\<rparr>) (submit_one E world p s)
      | AwaitWakeup \<Rightarrow> if thread_wakeup s then Some (s\<lparr>thread_execution := False, kt_copy := AwaitCompletion\<rparr>) else Some s
      | AwaitCompletion \<Rightarrow>
          if completion_status s \<noteq> 0
          then Some (s\<lparr>src_sgts := map sg_free_table (src_sgts s), dst_sgts := map sg_free_table (dst_sgts s), kt_copy := Copied\<rparr>)
          else Some s
      | Copied \<Rightarrow> Some (s\<lparr>should_stop := True, kt_copy := Stopping\<rparr>)
      | Stopping \<Rightarrow> if kt_pc s = Exited then Some (s\<lparr>kt_copy := Unloaded\<rparr>) else Some s
      | Unloaded \<Rightarrow> Some s)"

text \<open>The device writes the status of a descriptor that is queued and has none yet.\<close>

definition device_post :: "nat \<Rightarrow> u8 \<Rightarrow> kcopy \<Rightarrow> kcopy" where
  "device_post j v s =
     (let e = desc_lists s ! j; (a, i) = kt_wqs s ! dl_queue e
      in s\<lparr>kt_devs := (kt_devs s)[a := upd_desc i (dl_desc e) (\<lambda>x. x\<lparr>compl_status := v\<rparr>) (kt_devs s ! a)]\<rparr>)"

inductive kstep ::
  "env \<Rightarrow> (nat \<times> nat \<Rightarrow> call_world) \<Rightarrow> (nat \<Rightarrow> nat \<Rightarrow> idxd_complete_type \<Rightarrow> bool \<Rightarrow> idxd_device \<Rightarrow> idxd_device)
     \<Rightarrow> kcopy \<Rightarrow> kcopy \<Rightarrow> bool"
  for E world complete where
  kstep_thread: "thread_step complete s = Some s' \<Longrightarrow> kstep E world complete s s'"
| kstep_copy: "copy_step E world s = Some s' \<Longrightarrow> kstep E world complete s s'"
| kstep_device: "j < length (desc_lists s) \<Longrightarrow> \<not> completion (desc_lists s ! j) \<Longrightarrow> v \<noteq> 0 \<Longrightarrow>
    kstep E world complete s (device_post j v s)"

text \<open>The comparison copy of \<^verbatim>\<open>dsa_copy\<close>, by the processor; \<open>p1\<close> and \<open>p2\<close> are the pages of the two areas.\<close>

definition cpu_copy :: "(nat \<Rightarrow> nat) \<Rightarrow> (nat \<Rightarrow> nat) \<Rightarrow> nat \<Rightarrow> (nat \<Rightarrow> 'c) \<Rightarrow> nat \<Rightarrow> 'c" where
  "cpu_copy p1 p2 np mem = fold (\<lambda>i mem. mem(p2 i := mem (p1 i))) [0..<np] mem"

text \<open>
  \<^verbatim>\<open>my_init\<close> up to the submissions: the thread waits, the queues are found, the tables are filled and
  mapped. The outer \<^const>\<open>None\<close> is a crash; an error code leaves the thread waiting.
\<close>

definition start_state :: "idxd_device list \<Rightarrow> (nat \<times> nat) list \<Rightarrow> sg_table list \<times> sg_table list \<Rightarrow> kcopy" where
  "start_state devs qs tabs =
     \<lparr>kt_devs = devs, kt_wqs = qs, src_sgts = fst tabs, dst_sgts = snd tabs, sg_srcs = [], sg_dsts = [], batch_task = None,
      desc_lists = [], kt_sent = [], total_entries = 0, thread_execution = False, thread_wakeup = False, completion_status = 0,
      kt_pc = FirstWait, poll_entry = 0, completion_error = False, kt_copy = Submitting [], should_stop = False\<rparr>"

record load_world =
  lw_areas :: "bool list"
  lw_bound :: "nat \<Rightarrow> bool"
  lw_chan :: "nat \<times> nat \<Rightarrow> bool"
  lw_random :: "nat \<Rightarrow> u32"
  lw_mem :: bool
  lw_table :: "side \<times> nat \<Rightarrow> bool"
  lw_page :: "side \<Rightarrow> nat \<Rightarrow> nat option"
  lw_map :: "nat \<Rightarrow> side \<Rightarrow> nat option list \<Rightarrow> (u64 \<times> u32) list option"

definition my_init :: "nat \<Rightarrow> load_world \<Rightarrow> idxd_device list \<Rightarrow> (nat \<times> nat \<Rightarrow> int) \<Rightarrow> (int \<times> kcopy) option" where
  "my_init np lw devs refs =
     (case init_region np (lw_areas lw) of (rc, areas) \<Rightarrow>
        if rc < 0 then Some (rc, start_state devs [] ([], []))
        else case init_dsa (lw_bound lw) (lw_chan lw) devs refs of (rc, qs, refs) \<Rightarrow>
          if rc < 0 then Some (rc, start_state devs qs ([], []))
          else if \<not> lw_mem lw then None
          else
            let arr = random_arr np (lw_random lw)
            in case vmalloc_to_sgtable (lw_mem lw) (lw_table lw) np (lw_page lw Src) (lw_page lw Dst) arr (length qs) of
                 None \<Rightarrow> None
               | Some tabs \<Rightarrow>
                   case sgtable_to_dma_map (lw_map lw) [0..<length qs] tabs of
                     None \<Rightarrow> None
                   | Some tabs \<Rightarrow>
                       case dsa_prepare (start_state devs qs tabs) of
                         None \<Rightarrow> None
                       | Some (s, ps) \<Rightarrow> Some (0, s\<lparr>kt_copy := Submitting ps\<rparr>))"

end
