(* ===== verification/Copying.thy ===== *)
theory Copying
  imports Offload "HOL-Library.Multiset"
begin

text \<open>
  From the shuffled pages to the copies a device is asked for: the shuffling is a permutation, a table
  filled without an early end holds its part of the pages, each submission sends the next entries of
  its queue (\<open>copy_inv\<close>), and the entries sent cover every page once.
\<close>

subsection \<open>Shuffling\<close>

lemma shuffle_step_keeps:
  assumes "i < np" "length arr = np"
  shows "mset (shuffle_step np rnd i arr) = mset arr \<and> length (shuffle_step np rnd i arr) = np"
  using assms mset_swap [of "unat (drop_bit 1 (rnd i)) mod np" arr i]
  by (simp add: shuffle_step_def Let_def)

lemma shuffle_fold:
  assumes "m \<le> np"
  shows "mset (fold (shuffle_step np rnd) [0..<m] [0..<np]) = mset [0..<np] \<and>
    length (fold (shuffle_step np rnd) [0..<m] [0..<np]) = np"
  using assms
proof (induction m)
  case (Suc m)
  then show ?case
    using shuffle_step_keeps [of m np "fold (shuffle_step np rnd) [0..<m] [0..<np]" rnd] by simp
qed simp

lemma random_arr_perm: "mset (random_arr np rnd) = mset [0..<np]" "length (random_arr np rnd) = np"
  using shuffle_fold [of np np rnd] by (simp_all add: random_arr_def)

subsection \<open>Copying page by page\<close>

text \<open>What a list of page copies does, in the order given.\<close>

definition copy_pages :: "(nat \<times> nat) list \<Rightarrow> (nat \<Rightarrow> 'c) \<Rightarrow> nat \<Rightarrow> 'c" where
  "copy_pages ps mem = fold (\<lambda>(s, d) mem. mem(d := mem s)) ps mem"

lemma copy_pages_value:
  assumes "distinct (map snd ps)" "fst ` set ps \<inter> snd ` set ps = {}"
  shows "(\<forall>(s, d)\<in>set ps. copy_pages ps mem d = mem s) \<and> (\<forall>x. x \<notin> snd ` set ps \<longrightarrow> copy_pages ps mem x = mem x)"
  using assms
proof (induction ps arbitrary: mem)
  case (Cons p ps)
  obtain s d where p: "p = (s, d)" by (cases p)
  have d: "d \<notin> snd ` set ps" "d \<notin> fst ` set ps" using Cons.prems by (auto simp: p)
  have pre: "distinct (map snd ps)" "fst ` set ps \<inter> snd ` set ps = {}" using Cons.prems by (auto simp: p)
  define m where "m = mem(d := mem s)"
  have m: "m d = mem s" "x \<noteq> d \<Longrightarrow> m x = mem x" for x by (simp_all add: m_def)
  note ih = conjunct1 [OF Cons.IH [OF pre, of m]] conjunct2 [OF Cons.IH [OF pre, of m]]
  have c: "copy_pages ((s, d) # ps) mem = copy_pages ps m" by (simp add: copy_pages_def m_def)
  have "copy_pages ps m d' = mem s'" if "(s', d') \<in> set ps" for s' d'
  proof -
    have "s' \<noteq> d" using d(2) that by force
    then show ?thesis using ih(1) that m(2) by fastforce
  qed
  moreover have "copy_pages ps m d = mem s" using ih(2) d(1) m(1) by simp
  moreover have "copy_pages ps m x = mem x" if "x \<notin> snd ` set ps" "x \<noteq> d" for x using ih(2) that m(2) by simp
  ultimately show ?case unfolding p c by auto
qed (simp add: copy_pages_def)

lemma copy_pages_mset:
  assumes "mset ps = mset qs" "distinct (map snd qs)" "fst ` set qs \<inter> snd ` set qs = {}"
  shows "copy_pages ps mem = copy_pages qs mem"
proof
  fix x
  have s: "set ps = set qs" using assms(1) by (rule mset_eq_setD)
  have "mset (map snd ps) = mset (map snd qs)" using assms(1) by simp
  then have dp: "distinct (map snd ps)" using assms(2) by (metis mset_eq_imp_distinct_iff)
  note v = copy_pages_value [OF dp, unfolded s, OF assms(3), of mem] copy_pages_value [OF assms(2,3), of mem]
  show "copy_pages ps mem x = copy_pages qs mem x"
  proof (cases "x \<in> snd ` set qs")
    case True
    then obtain s where "(s, x) \<in> set qs" by force
    then show ?thesis using v by fastforce
  next
    case False
    then show ?thesis using v by simp
  qed
qed

lemma copy_any_order:
  assumes "mset order = mset (map (\<lambda>k. (p1 k, p2 k)) [0..<np])" "inj_on p2 {..<np}" "p1 ` {..<np} \<inter> p2 ` {..<np} = {}"
  shows "copy_pages order mem = cpu_copy p1 p2 np mem"
proof -
  let ?qs = "map (\<lambda>k. (p1 k, p2 k)) [0..<np]"
  have "distinct (map snd ?qs)" using assms(2) by (simp add: comp_def distinct_map atLeast0LessThan)
  moreover have "fst ` set ?qs \<inter> snd ` set ?qs = {}" using assms(3) by (simp add: image_image atLeast0LessThan)
  ultimately have "copy_pages order mem = copy_pages ?qs mem" by (rule copy_pages_mset [OF assms(1)])
  also have "\<dots> = cpu_copy p1 p2 np mem" by (simp add: copy_pages_def cpu_copy_def fold_map comp_def)
  finally show ?thesis .
qed

subsection \<open>The tables\<close>

text \<open>The table of a queue when it is filled: the pages of its part, ended after the last one.\<close>

definition filled :: "nat \<Rightarrow> nat \<Rightarrow> (nat \<Rightarrow> nat) \<Rightarrow> nat list \<Rightarrow> nat \<Rightarrow> sg_table" where
  "filled np n p arr i =
     \<lparr>sgl = map (\<lambda>j. \<lparr>sg_page = (if i * n + j < np then Some (p (arr ! (i * n + j))) else None),
                      sg_end = (j + 1 = n \<or> i * n + j + 1 = np), sg_dma_address = 0, sg_dma_len = 0\<rparr>) [0..<n],
      nents = n\<rparr>"

definition tab :: "side \<Rightarrow> sg_build \<Rightarrow> sg_table list" where
  "tab side b = (case side of Src \<Rightarrow> b_src b | Dst \<Rightarrow> b_dst b)"

definition pages_upto :: "(nat \<Rightarrow> nat) \<Rightarrow> nat \<Rightarrow> scatterlist list \<Rightarrow> scatterlist list" where
  "pages_upto f m l = map (\<lambda>j. if j < m then (l ! j)\<lparr>sg_page := Some (f j)\<rparr> else l ! j) [0..<length l]"

lemma tab_upd_sg:
  "tab sd (upd_sg side i j f b) =
     (if sd = side then list_upd i (\<lambda>t. t\<lparr>sgl := list_upd j f (sgl t)\<rparr>) (tab sd b) else tab sd b)"
  "tab sd (b\<lparr>b_prev := x\<rparr>) = tab sd b" "b_prev (upd_sg side i j f b) = b_prev b"
  by (auto simp: tab_def upd_sg_def Let_def split: side.splits)

lemma tab_set_page:
  "tab sd (set_page side i j p b) =
     (if sd = side then list_upd i (\<lambda>t. t\<lparr>sgl := list_upd j (\<lambda>s. s\<lparr>sg_page := Some p\<rparr>) (sgl t)\<rparr>) (tab sd b) else tab sd b)"
  "b_prev (set_page side i j p b) = Some (side, i, j)"
  by (simp_all add: set_page_def tab_upd_sg)

lemma pages_upto_simps:
  "pages_upto f 0 l = l" "length (pages_upto f m l) = length l"
  "pages_upto f (Suc m) l = list_upd m (\<lambda>s. s\<lparr>sg_page := Some (f m)\<rparr>) (pages_upto f m l)"
  by (auto simp: pages_upto_def map_nth nth_list_upd intro!: nth_equalityI)

lemma put_pages:
  "tab sd (fold (\<lambda>j. set_page side i j (f j)) [0..<m] b) =
     (if sd = side then list_upd i (\<lambda>t. t\<lparr>sgl := pages_upto f m (sgl t)\<rparr>) (tab sd b) else tab sd b) \<and>
   b_prev (fold (\<lambda>j. set_page side i j (f j)) [0..<m] b) = (if m = 0 then b_prev b else Some (side, i, m - 1))"
proof (induction m)
  case 0
  have "(\<lambda>t. t\<lparr>sgl := sgl t\<rparr>) = (\<lambda>t :: sg_table. t)" by auto
  then show ?case by (simp add: pages_upto_simps list_upd_id)
next
  case (Suc m)
  show ?case
  proof (cases "sd = side")
    case True
    then have "tab side (fold (\<lambda>j. set_page side i j (f j)) [0..<m] b) = list_upd i (\<lambda>t. t\<lparr>sgl := pages_upto f m (sgl t)\<rparr>) (tab side b)"
      using Suc by simp
    then show ?thesis using True by (simp add: tab_set_page list_upd_list_upd comp_def pages_upto_simps(3))
  next
    case False
    then show ?thesis using Suc by (simp add: tab_set_page)
  qed
qed

lemma fill_src_all:
  "fill_src np (\<lambda>x. Some (p x)) arr i idx [j..<n] b =
     (True, fold (\<lambda>j. set_page Src i j (p (arr ! (idx + j)))) [j..<min n (np - idx)] b)"
proof (induction "n - j" arbitrary: j b)
  case (Suc x)
  then have "[j..<n] = j # [Suc j..<n]" "x = n - Suc j" by (simp_all add: upt_conv_Cons)
  moreover have "[j..<min n (np - idx)] = j # [Suc j..<min n (np - idx)]" if "idx + j < np"
    using that Suc.hyps(2) by (intro upt_conv_Cons) auto
  ultimately show ?case using Suc.hyps(1) by (cases "idx + j < np") simp_all
qed simp

lemma fill_dst_all:
  "idx + j \<le> np \<Longrightarrow> j \<le> n \<Longrightarrow> fill_dst np (\<lambda>x. Some (p x)) arr i [j..<n] (idx + j, b) =
     (True, idx + min n (np - idx), fold (\<lambda>j. set_page Dst i j (p (arr ! (idx + j)))) [j..<min n (np - idx)] b)"
proof (induction "n - j" arbitrary: j b)
  case 0
  then show ?case by simp
next
  case (Suc x)
  then have l: "[j..<n] = j # [Suc j..<n]" "x = n - Suc j" by (simp_all add: upt_conv_Cons)
  show ?case
  proof (cases "idx + j < np")
    case True
    then have "[j..<min n (np - idx)] = j # [Suc j..<min n (np - idx)]" using Suc.hyps(2) by (intro upt_conv_Cons) auto
    then show ?thesis using l True Suc.hyps(1) [of "Suc j"] Suc.prems Suc.hyps(2) by simp
  next
    case False
    then show ?thesis using l Suc.prems Suc.hyps(2) by simp
  qed
qed

text \<open>
  After the tables below \<open>i\<close> are filled. The last entry written may belong to an earlier table, which it
  ended; marking it again changes nothing.
\<close>

definition built :: "nat \<Rightarrow> nat \<Rightarrow> nat \<Rightarrow> (side \<Rightarrow> nat \<Rightarrow> nat) \<Rightarrow> nat list \<Rightarrow> nat \<Rightarrow> sg_build \<Rightarrow> bool" where
  "built np n w p arr i b \<longleftrightarrow>
     (\<forall>side. tab side b = map (\<lambda>k. if k < i then filled np n (p side) arr k else sg_alloc_table n) [0..<w]) \<and>
     (i > 0 \<longrightarrow> (\<exists>i' j. b_prev b = Some (Dst, i', j) \<and> i' < i \<and> j < n \<and> (j + 1 = n \<or> i' * n + j + 1 = np)))"

lemma sgl_filled: "length (sgl (filled np n p arr i)) = n" "nents (filled np n p arr i) = n"
  "j < n \<Longrightarrow> sgl (filled np n p arr i) ! j =
     \<lparr>sg_page = (if i * n + j < np then Some (p (arr ! (i * n + j))) else None),
      sg_end = (j + 1 = n \<or> i * n + j + 1 = np), sg_dma_address = 0, sg_dma_len = 0\<rparr>"
  by (simp_all add: filled_def)

lemma sgl_alloc: "length (sgl (sg_alloc_table n)) = n" "nents (sg_alloc_table n) = n"
  "j < n \<Longrightarrow> sgl (sg_alloc_table n) ! j = \<lparr>sg_page = None, sg_end = (j + 1 = n), sg_dma_address = 0, sg_dma_len = 0\<rparr>"
  by (simp_all add: sg_alloc_table_def)

lemma filled_step:
  assumes "m = min n (np - i * n)"
  shows "0 < m \<Longrightarrow> (sg_alloc_table n)\<lparr>sgl := list_upd (m - 1) (\<lambda>s. s\<lparr>sg_end := True\<rparr>)
      (pages_upto (\<lambda>j. p (arr ! (i * n + j))) m (sgl (sg_alloc_table n)))\<rparr> = filled np n p arr i"
    and "m = 0 \<Longrightarrow> 0 < n \<Longrightarrow> filled np n p arr i = sg_alloc_table n"
proof -
  define c where "c = i * n"
  have m: "m = min n (np - c)" using assms by (simp add: c_def)
  let ?l = "sgl (sg_alloc_table n)" and ?f = "\<lambda>j. p (arr ! (i * n + j))"
  assume "0 < m"
  have "list_upd (m - 1) (\<lambda>s. s\<lparr>sg_end := True\<rparr>) (pages_upto ?f m ?l) = sgl (filled np n p arr i)"
  proof (rule nth_equalityI)
    fix j assume "j < length (list_upd (m - 1) (\<lambda>s. s\<lparr>sg_end := True\<rparr>) (pages_upto ?f m ?l))"
    then have j: "j < n" by (simp add: pages_upto_simps sgl_alloc)
    have "(m - 1 = j) = (j < m \<and> (j + 1 = n \<or> c + j + 1 = np))" "j < m \<longleftrightarrow> c + j < np"
      using m j \<open>0 < m\<close> by (auto simp: min_def split: if_splits)
    then show "list_upd (m - 1) (\<lambda>s. s\<lparr>sg_end := True\<rparr>) (pages_upto ?f m ?l) ! j = sgl (filled np n p arr i) ! j"
      using j unfolding sgl_filled(3) [OF j] c_def [symmetric]
      by (auto simp: nth_list_upd pages_upto_def sgl_alloc)
  qed (simp add: pages_upto_simps sgl_alloc sgl_filled)
  then show "(sg_alloc_table n)\<lparr>sgl := list_upd (m - 1) (\<lambda>s. s\<lparr>sg_end := True\<rparr>) (pages_upto ?f m ?l)\<rparr> = filled np n p arr i"
    by (simp add: filled_def sg_alloc_table_def)
next
  assume "m = 0" "0 < n"
  then have "np \<le> i * n" using assms by auto
  then show "filled np n p arr i = sg_alloc_table n" by (auto simp: filled_def sg_alloc_table_def)
qed

lemma filled_end:
  assumes "j < n" "j + 1 = n \<or> i * n + j + 1 = np"
  shows "list_upd j (\<lambda>s. s\<lparr>sg_end := True\<rparr>) (sgl (filled np n p arr i)) = sgl (filled np n p arr i)"
  using assms(2) by (intro list_upd_id) (simp only: sgl_filled(3) [OF assms(1)], simp)

lemma mark_end_tab:
  assumes "b_prev b = Some (sd', i', j)"
  shows "\<exists>b'. sg_mark_end b = Some b' \<and> b_prev b' = b_prev b \<and> (\<forall>sd. tab sd b' =
    (if sd = sd' then list_upd i' (\<lambda>t. t\<lparr>sgl := list_upd j (\<lambda>s. s\<lparr>sg_end := True\<rparr>) (sgl t)\<rparr>) (tab sd b) else tab sd b))"
  using assms by (simp add: sg_mark_end_def tab_upd_sg)

lemma fill_side:
  assumes "m = min n (np - i * n)" "0 < n" "tab side b ! i = sg_alloc_table n"
    and "m = 0 \<Longrightarrow> \<exists>i' j p'. b_prev b = Some (Dst, i', j) \<and> tab Dst b ! i' = filled np n p' arr i' \<and> j < n \<and>
          (j + 1 = n \<or> i' * n + j + 1 = np)"
  shows "\<exists>b'. sg_mark_end (fold (\<lambda>j. set_page side i j (p (arr ! (i * n + j)))) [0..<m] b) = Some b' \<and>
    (\<forall>sd. tab sd b' = (if sd = side then (tab sd b)[i := filled np n p arr i] else tab sd b)) \<and>
    b_prev b' = (if m = 0 then b_prev b else Some (side, i, m - 1))"
proof (cases "m = 0")
  case True
  then obtain i' j p' where e: "b_prev b = Some (Dst, i', j)" "tab Dst b ! i' = filled np n p' arr i'" "j < n"
      "j + 1 = n \<or> i' * n + j + 1 = np"
    using assms(4) [OF True] by (elim exE conjE)
  obtain b' where b': "sg_mark_end b = Some b'" "b_prev b' = b_prev b" "\<forall>sd. tab sd b' =
      (if sd = Dst then list_upd i' (\<lambda>t. t\<lparr>sgl := list_upd j (\<lambda>s. s\<lparr>sg_end := True\<rparr>) (sgl t)\<rparr>) (tab sd b) else tab sd b)"
    using mark_end_tab [OF e(1)] by (elim exE conjE)
  have "list_upd i' (\<lambda>t. t\<lparr>sgl := list_upd j (\<lambda>s. s\<lparr>sg_end := True\<rparr>) (sgl t)\<rparr>) (tab Dst b) = tab Dst b"
    by (intro list_upd_id) (simp add: e(2) filled_end [OF e(3,4)])
  then have t: "tab sd b' = tab sd b" for sd using b'(3) by simp
  moreover have "(tab side b)[i := filled np n p arr i] = tab side b"
    using filled_step(2) [OF assms(1) True assms(2), of p arr] assms(3) by (simp add: list_update_same_conv list_update_id [of "tab side b" i, simplified assms(3)])
  ultimately show ?thesis using b'(1,2) True by simp
next
  case False
  let ?f = "\<lambda>j. p (arr ! (i * n + j))"
  define b1 where "b1 = fold (\<lambda>j. set_page side i j (?f j)) [0..<m] b"
  have p1: "tab sd b1 = (if sd = side then list_upd i (\<lambda>t. t\<lparr>sgl := pages_upto ?f m (sgl t)\<rparr>) (tab sd b) else tab sd b)"
    "b_prev b1 = Some (side, i, m - 1)" for sd
    using put_pages [of sd side i ?f m b] False by (simp_all add: b1_def)
  obtain b' where b': "sg_mark_end b1 = Some b'" "b_prev b' = b_prev b1" "\<forall>sd. tab sd b' =
      (if sd = side then list_upd i (\<lambda>t. t\<lparr>sgl := list_upd (m - 1) (\<lambda>s. s\<lparr>sg_end := True\<rparr>) (sgl t)\<rparr>) (tab sd b1) else tab sd b1)"
    using mark_end_tab [OF p1(2)] by (elim exE conjE)
  have "list_upd i (\<lambda>t. t\<lparr>sgl := list_upd (m - 1) (\<lambda>s. s\<lparr>sg_end := True\<rparr>) (sgl t)\<rparr>) (tab side b1) =
      (tab side b)[i := (sg_alloc_table n)\<lparr>sgl := list_upd (m - 1) (\<lambda>s. s\<lparr>sg_end := True\<rparr>) (pages_upto ?f m (sgl (sg_alloc_table n)))\<rparr>]"
    by (simp only: p1(1) simp_thms if_True list_upd_list_upd) (simp add: comp_def list_upd_def [of i] assms(3))
  then have "tab sd b' = (if sd = side then (tab sd b)[i := filled np n p arr i] else tab sd b)" for sd
    using b'(3) p1(1) [of sd] filled_step(1) [OF assms(1), of p arr] False by simp
  then show ?thesis using b'(1,2) p1(2) False by (simp add: b1_def)
qed

lemma fill_tables_step:
  assumes "built np n w p arr i b" "i < w" "0 < n" "0 < np"
  shows "\<exists>b'. built np n w p arr (Suc i) b' \<and>
    fill_tables np (\<lambda>x. Some (p Src x)) (\<lambda>x. Some (p Dst x)) arr (i # is) (min np (i * n), b) =
    fill_tables np (\<lambda>x. Some (p Src x)) (\<lambda>x. Some (p Dst x)) arr is (min np (Suc i * n), b')"
proof -
  define m where "m = min n (np - i * n)"
  define idx where "idx = min np (i * n)"
  have m: "m = min n (np - idx)" "idx + m = min np (Suc i * n)" "idx \<le> np"
    by (auto simp: m_def idx_def min_def)
  have e: "fold (\<lambda>j. set_page side i j (f (idx + j))) [0..<m] b = fold (\<lambda>j. set_page side i j (f (i * n + j))) [0..<m] b"
    for side b and f :: "nat \<Rightarrow> nat"
    by (cases "m = 0") (auto simp: m_def idx_def min_def split: if_splits)
  have t0: "tab side b ! i = sg_alloc_table n" "length (tab side b) = w" for side
    using assms(1,2) by (simp_all add: built_def)
  have prev: "\<exists>i' j p'. b_prev b = Some (Dst, i', j) \<and> tab Dst b ! i' = filled np n p' arr i' \<and> j < n \<and> i' < i \<and>
      (j + 1 = n \<or> i' * n + j + 1 = np)" if "m = 0"
  proof -
    have "0 < i" using that assms(3,4) by (cases i) (simp_all add: m_def)
    then obtain i' j where ij: "b_prev b = Some (Dst, i', j)" "i' < i" "j < n" "j + 1 = n \<or> i' * n + j + 1 = np"
      using assms(1) unfolding built_def by blast
    moreover have "tab Dst b ! i' = filled np n (p Dst) arr i'" using assms(1,2) ij(2) by (simp add: built_def)
    ultimately show ?thesis by blast
  qed
  have "\<exists>b1. sg_mark_end (fold (\<lambda>j. set_page Src i j (p Src (arr ! (i * n + j)))) [0..<m] b) = Some b1 \<and>
      (\<forall>sd. tab sd b1 = (if sd = Src then (tab sd b)[i := filled np n (p Src) arr i] else tab sd b)) \<and>
      b_prev b1 = (if m = 0 then b_prev b else Some (Src, i, m - 1))"
    using prev by (intro fill_side [OF m_def assms(3) t0(1)]) blast
  then obtain b1 where b1: "sg_mark_end (fold (\<lambda>j. set_page Src i j (p Src (arr ! (i * n + j)))) [0..<m] b) = Some b1"
      "\<forall>sd. tab sd b1 = (if sd = Src then (tab sd b)[i := filled np n (p Src) arr i] else tab sd b)"
      "b_prev b1 = (if m = 0 then b_prev b else Some (Src, i, m - 1))"
    by (elim exE conjE)
  have t1: "tab Dst b1 = tab Dst b" "tab Src b1 = (tab Src b)[i := filled np n (p Src) arr i]" using b1(2) by simp_all
  have "\<exists>b2. sg_mark_end (fold (\<lambda>j. set_page Dst i j (p Dst (arr ! (i * n + j)))) [0..<m] b1) = Some b2 \<and>
      (\<forall>sd. tab sd b2 = (if sd = Dst then (tab sd b1)[i := filled np n (p Dst) arr i] else tab sd b1)) \<and>
      b_prev b2 = (if m = 0 then b_prev b1 else Some (Dst, i, m - 1))"
    using prev b1(3) t1(1) t0(1) by (intro fill_side [OF m_def assms(3)]) auto
  then obtain b2 where b2: "sg_mark_end (fold (\<lambda>j. set_page Dst i j (p Dst (arr ! (i * n + j)))) [0..<m] b1) = Some b2"
      "\<forall>sd. tab sd b2 = (if sd = Dst then (tab sd b1)[i := filled np n (p Dst) arr i] else tab sd b1)"
      "b_prev b2 = (if m = 0 then b_prev b1 else Some (Dst, i, m - 1))"
    by (elim exE conjE)
  have len: "length (sgl (b_src b ! i)) = n" "length (sgl (b_dst b1 ! i)) = n"
    using t0(1) [of Src] t0(1) [of Dst] t1(1) by (simp_all add: tab_def sgl_alloc)
  have "fill_src np (\<lambda>x. Some (p Src x)) arr i idx [0..<n] b =
      (True, fold (\<lambda>j. set_page Src i j (p Src (arr ! (i * n + j)))) [0..<m] b)"
    using fill_src_all [of np "p Src" arr i idx 0 n b] m(1) e by simp
  moreover have "fill_dst np (\<lambda>x. Some (p Dst x)) arr i [0..<n] (idx, b1) =
      (True, min np (Suc i * n), fold (\<lambda>j. set_page Dst i j (p Dst (arr ! (i * n + j)))) [0..<m] b1)"
    using fill_dst_all [of idx 0 np n "p Dst" arr i b1] m e by simp
  ultimately have "fill_tables np (\<lambda>x. Some (p Src x)) (\<lambda>x. Some (p Dst x)) arr (i # is) (idx, b) =
    fill_tables np (\<lambda>x. Some (p Src x)) (\<lambda>x. Some (p Dst x)) arr is (min np (Suc i * n), b2)"
    using len b1(1) b2(1) by simp
  moreover have "built np n w p arr (Suc i) b2"
    unfolding built_def
  proof (intro conjI allI impI)
    fix side
    have "tab side b2 = (tab side b)[i := filled np n (p side) arr i]" using b2(2) b1(2) by (cases side) simp_all
    moreover have "tab side b = map (\<lambda>k. if k < i then filled np n (p side) arr k else sg_alloc_table n) [0..<w]"
      using assms(1) by (simp add: built_def)
    ultimately show "tab side b2 = map (\<lambda>k. if k < Suc i then filled np n (p side) arr k else sg_alloc_table n) [0..<w]"
      by (auto simp: nth_list_update less_Suc_eq intro!: nth_equalityI)
  next
    show "\<exists>i' j. b_prev b2 = Some (Dst, i', j) \<and> i' < Suc i \<and> j < n \<and> (j + 1 = n \<or> i' * n + j + 1 = np)"
    proof (cases "m = 0")
      case True
      then show ?thesis using prev b1(3) b2(3) by (fastforce simp: less_Suc_eq)
    next
      case False
      then have "m - 1 < n" "m - 1 + 1 = n \<or> i * n + (m - 1) + 1 = np" by (auto simp: m_def min_def)
      then show ?thesis using False b2(3) by auto
    qed
  qed
  ultimately show ?thesis unfolding idx_def by blast
qed

lemma fill_tables_all:
  assumes "0 < n" "0 < np" "built np n w p arr i b" "i \<le> w"
  shows "\<exists>b'. fill_tables np (\<lambda>x. Some (p Src x)) (\<lambda>x. Some (p Dst x)) arr [i..<w] (min np (i * n), b) = Some (True, b') \<and>
    built np n w p arr w b'"
  using assms(3,4)
proof (induction "w - i" arbitrary: i b)
  case (Suc x)
  then have l: "[i..<w] = i # [Suc i..<w]" "i < w" "x = w - Suc i" by (simp_all add: upt_conv_Cons)
  then show ?case using fill_tables_step [OF Suc.prems(1) l(2) assms(1,2), of "[Suc i..<w]"] Suc.hyps(1) [of "Suc i"] by fastforce
qed simp

lemma sgtables_filled:
  assumes "0 < np" "0 < w" "\<And>x. table_ok x"
  shows "vmalloc_to_sgtable True table_ok np (\<lambda>x. Some (p Src x)) (\<lambda>x. Some (p Dst x)) arr w =
    Some (map (filled np (sgt_nents np w) (p Src) arr) [0..<w], map (filled np (sgt_nents np w) (p Dst) arr) [0..<w])"
proof -
  define n where "n = sgt_nents np w"
  have n: "0 < n" using assms(1,2) by (auto simp: n_def sgt_nents_def elim: dvdE)
  let ?b = "\<lparr>b_src = replicate w (sg_alloc_table n), b_dst = replicate w (sg_alloc_table n), b_prev = None\<rparr>"
  have "built np n w p arr 0 ?b"
    by (auto simp: built_def tab_def map_replicate_const split: side.splits)
  then obtain b' where b': "fill_tables np (\<lambda>x. Some (p Src x)) (\<lambda>x. Some (p Dst x)) arr [0..<w] (0, ?b) = Some (True, b')"
      "built np n w p arr w b'"
    using fill_tables_all [OF n assms(1), of w p arr 0 ?b] by auto
  have "tab side b' = map (filled np n (p side) arr) [0..<w]" for side
    using b'(2) by (auto simp: built_def)
  from this [of Src] this [of Dst] have "b_src b' = map (filled np n (p Src) arr) [0..<w]" "b_dst b' = map (filled np n (p Dst) arr) [0..<w]"
    by (simp_all add: tab_def)
  then show ?thesis using b'(1) assms(3) n by (simp add: vmalloc_to_sgtable_def Let_def n_def [symmetric])
qed

subsection \<open>Mapping the tables\<close>

definition ends_early :: "sg_table \<Rightarrow> bool" where
  "ends_early t \<longleftrightarrow> (\<exists>j<length (sgl t). j + 1 < length (sgl t) \<and> sg_end (sgl t ! j))"

lemma map_crashes:
  assumes "distinct qs" "q \<in> set qs" "q < length ss" "ends_early (ss ! q)" "\<And>q side pages. mapper q side pages \<noteq> None"
  shows "sgtable_to_dma_map mapper qs (ss, ds) = None"
  using assms(1-4)
proof (induction qs arbitrary: ss ds)
  case (Cons x qs)
  show ?case
  proof (cases "x = q")
    case True
    then show ?thesis using Cons.prems(4) by (simp add: dma_map_sgtable_def ends_early_def)
  next
    case False
    have "sgtable_to_dma_map mapper qs (ss[x := t], ds') = None" for t ds'
      using Cons.IH [of "ss[x := t]" ds'] Cons.prems False by simp
    moreover have "dma_map_sgtable mapper x side t \<noteq> Some (False, u)" for side t u
      using assms(5) [of x side "map sg_page (sgl t)"] by (auto simp: dma_map_sgtable_def split: option.splits)
    ultimately show ?thesis by (auto split: option.splits bool.splits)
  qed
qed simp

lemma map_succeeds:
  assumes "distinct qs" "\<forall>q\<in>set qs. q < length ss \<and> q < length ds \<and> \<not> ends_early (ss ! q) \<and> \<not> ends_early (ds ! q) \<and>
      mapper q Src (map sg_page (sgl (ss ! q))) = Some (seg q Src) \<and> mapper q Dst (map sg_page (sgl (ds ! q))) = Some (seg q Dst)"
  shows "\<exists>ss' ds'. sgtable_to_dma_map mapper qs (ss, ds) = Some (ss', ds') \<and> length ss' = length ss \<and> length ds' = length ds \<and>
    (\<forall>q\<in>set qs. ss' ! q = set_dma (seg q Src) (ss ! q) \<and> ds' ! q = set_dma (seg q Dst) (ds ! q)) \<and>
    (\<forall>q. q \<notin> set qs \<longrightarrow> ss' ! q = ss ! q \<and> ds' ! q = ds ! q)"
  using assms
proof (induction qs arbitrary: ss ds)
  case (Cons x qs)
  let ?t = "set_dma (seg x Src) (ss ! x)" and ?u = "set_dma (seg x Dst) (ds ! x)"
  have "dma_map_sgtable mapper x Src (ss ! x) = Some (True, ?t)" "dma_map_sgtable mapper x Dst (ds ! x) = Some (True, ?u)"
    using Cons.prems(2) unfolding dma_map_sgtable_def ends_early_def by simp_all
  then have e: "sgtable_to_dma_map mapper (x # qs) (ss, ds) = sgtable_to_dma_map mapper qs (ss[x := ?t], ds[x := ?u])" by simp
  have "\<forall>q\<in>set qs. q \<noteq> x" using Cons.prems(1) by auto
  then have "\<forall>q\<in>set qs. q < length (ss[x := ?t]) \<and> q < length (ds[x := ?u]) \<and> \<not> ends_early (ss[x := ?t] ! q) \<and>
      \<not> ends_early (ds[x := ?u] ! q) \<and> mapper q Src (map sg_page (sgl (ss[x := ?t] ! q))) = Some (seg q Src) \<and>
      mapper q Dst (map sg_page (sgl (ds[x := ?u] ! q))) = Some (seg q Dst)"
    using Cons.prems(2) by (auto simp: nth_list_update)
  then obtain ss' ds' where r: "sgtable_to_dma_map mapper qs (ss[x := ?t], ds[x := ?u]) = Some (ss', ds')"
      "length ss' = length ss" "length ds' = length ds"
      "\<forall>q\<in>set qs. ss' ! q = set_dma (seg q Src) (ss[x := ?t] ! q) \<and> ds' ! q = set_dma (seg q Dst) (ds[x := ?u] ! q)"
      "\<forall>q. q \<notin> set qs \<longrightarrow> ss' ! q = ss[x := ?t] ! q \<and> ds' ! q = ds[x := ?u] ! q"
    using Cons.IH [of "ss[x := ?t]" "ds[x := ?u]"] Cons.prems(1) by auto
  have "x < length ss" "x < length ds" using Cons.prems(2) by simp_all
  then show ?case using r e Cons.prems(1) by (intro exI [of _ ss'] exI [of _ ds']) (auto simp: nth_list_update)
qed simp

text \<open>
  When the pages do not fill whole tables the last table in use is ended early, and mapping it follows
  the NULL pointer after its end.
\<close>

lemma uneven_table:
  assumes "0 < np" "0 < w" "np mod sgt_nents np w \<noteq> 0"
  shows "np div sgt_nents np w < w \<and> ends_early (filled np (sgt_nents np w) p arr (np div sgt_nents np w))"
proof -
  define n where "n = sgt_nents np w"
  define r where "r = np mod n"
  define i where "i = np div n"
  have r: "0 < r" "r < n" "np = i * n + r"
    using assms by (auto simp: r_def n_def i_def sgt_nents_def)
  have "np \<le> w * n"
  proof -
    have "np mod w < w" using assms(2) by simp
    moreover have "np = w * (np div w) + np mod w" by simp
    ultimately have "np \<le> w + w * (np div w)" by linarith
    then show ?thesis by (auto simp: n_def sgt_nents_def algebra_simps)
  qed
  then have "i * n < w * n" using r by linarith
  then have "i < w" by simp
  moreover have "ends_early (filled np n p arr i)"
    unfolding ends_early_def using r by (intro exI [of _ "r - 1"]) (simp add: sgl_filled)
  ultimately show ?thesis by (simp add: n_def i_def)
qed

subsection \<open>What the driver's calls keep\<close>

text \<open>The batch size of a device and the numbers of descriptors of its queues.\<close>

definition shape :: "idxd_device \<Rightarrow> u32 \<times> (int \<times> nat) list" where
  "shape d = (dev_max_batch_size d, map (\<lambda>w. (num_descs w, length (wq_descs w))) (wqs d))"

lemma shape_upd_wq:
  "(\<And>w. num_descs (f w) = num_descs w) \<Longrightarrow> (\<And>w. length (wq_descs (f w)) = length (wq_descs w)) \<Longrightarrow> shape (upd_wq i f d) = shape d"
  by (simp add: shape_def)

lemma shape_simps [simp]:
  "shape (upd_desc i k g d) = shape d" "shape (upd_ie i h d) = shape d" "shape (notify v d) = shape d"
  "shape (snd (ext E c d)) = shape d" "shape (snd (acquire E x d)) = shape d"
  "shape (idxd_free_desc i k d) = shape d" "shape (get_desc i k cpu d) = shape d"
  "shape (snd (idxd_wq_portal_addr i d)) = shape d" "shape (snd (sbitmap_queue_get E i d)) = shape d"
  by (simp_all add: upd_desc_def upd_ie_def idxd_free_desc_def get_desc_def idxd_wq_portal_addr_def sbitmap_queue_get_def
      Let_def shape_upd_wq split: option.splits prod.splits)
    (simp_all add: shape_def)

lemma shape_finish: "shape (finish_txd E i k res free d) = shape d"
  by (auto simp: finish_txd_def Let_def split: option.splits)

lemma shape_complete [simp]: "shape (idxd_dma_complete_txd E i k t free d) = shape d"
proof -
  have "shape (snd (idxd_queue_int_handle_resubmit E i k d)) = shape d"
    by (auto simp: idxd_queue_int_handle_resubmit_def Let_def case_prod_beta)
  then show ?thesis by (auto simp: idxd_dma_complete_txd_def Let_def shape_finish case_prod_beta)
qed

lemma shape_flist: "abort_flist E i found xs d = Some d' \<Longrightarrow> shape d' = shape d"
proof (induction xs arbitrary: d)
  case (Cons x xs)
  then show ?case by (cases found) auto
qed simp

lemma shape_abort: "llist_abort_desc E i k d = Some d' \<Longrightarrow> shape d' = shape d"
  by (auto simp: llist_abort_desc_def Let_def list_abort_desc_def dest!: shape_flist split: if_splits option.splits)

lemma shape_enqcmds: "shape (snd (idxd_enqcmds E i p hw d)) = shape d"
proof -
  have "snd (idxd_enqcmds E i p hw d) = d\<lparr>trace := trace (snd (idxd_enqcmds E i p hw d))\<rparr>"
    using enqcmds_loop_frame [of E "Enqcmds i p hw"] by (simp add: idxd_enqcmds_def)
  then have "shape (snd (idxd_enqcmds E i p hw d)) = shape (d\<lparr>trace := trace (snd (idxd_enqcmds E i p hw d))\<rparr>)"
    by (rule arg_cong)
  also have "\<dots> = shape d" by (simp add: shape_def)
  finally show ?thesis .
qed

text \<open>Other threads that run while a call sleeps keep the shape of the devices.\<close>

definition polite :: "call_world \<Rightarrow> bool" where
  "polite cw \<longleftrightarrow> (\<forall>d. shape (cw_resume cw d) = shape d) \<and> (\<forall>(sig, others)\<in>set (cw_rounds cw). \<forall>d. shape (others d) = shape d)"

definition shape_ok :: "idxd_device \<Rightarrow> bool" where
  "shape_ok d \<longleftrightarrow> (\<forall>w\<in>set (wqs d). num_descs w = int (length (wq_descs w)))"

lemma shape_same:
  assumes "shape d' = shape d"
  shows "dev_max_batch_size d' = dev_max_batch_size d" "length (wqs d') = length (wqs d)" "shape_ok d' = shape_ok d"
    "i < length (wqs d) \<Longrightarrow> length (wq_descs (wqs d' ! i)) = length (wq_descs (wqs d ! i))"
proof -
  note s = assms [unfolded shape_def prod.inject]
  show "dev_max_batch_size d' = dev_max_batch_size d" using s by simp
  show l: "length (wqs d') = length (wqs d)" using s by (metis length_map)
  have "shape_ok d = list_all (\<lambda>(a, b). a = int b) (snd (shape d))" for d
    by (simp add: shape_ok_def shape_def list_all_iff)
  then show "shape_ok d' = shape_ok d" using assms by simp
  assume "i < length (wqs d)"
  then show "length (wq_descs (wqs d' ! i)) = length (wq_descs (wqs d ! i))"
    using arg_cong [OF conjunct2 [OF s], of "\<lambda>l. snd (l ! i)"] l by simp
qed

lemma sbq_index:
  assumes "sbq_ok E" "shape_ok d" "i < length (wqs d)" "sbitmap_queue_get E i d = (Some (k, cpu), d')"
  shows "k < length (wq_descs (wqs d ! i))"
proof -
  have "num_descs (wqs d ! i) = int (length (wq_descs (wqs d ! i)))" using assms(2,3) by (simp add: shape_ok_def)
  moreover have "case sbq_pick E (sbq_alloc (wqs d ! i)) (nat (num_descs (wqs d ! i))) of
      None \<Rightarrow> {..<nat (num_descs (wqs d ! i))} \<subseteq> sbq_alloc (wqs d ! i)
    | Some (k, cpu) \<Rightarrow> k < nat (num_descs (wqs d ! i)) \<and> k \<notin> sbq_alloc (wqs d ! i)"
    using assms(1) unfolding sbq_ok_def by blast
  ultimately show ?thesis using assms(4)
    by (auto simp: sbitmap_queue_get_def Let_def split: option.splits)
qed

lemma alloc_wait_index:
  assumes "sbq_ok E" "shape_ok d" "i < length (wqs d)" "\<forall>(sig, others)\<in>set rounds. \<forall>d. shape (others d) = shape d"
    and "alloc_wait E i rounds d = Some (r, d')"
  shows "shape d' = shape d \<and> (\<forall>k cpu. r = Some (k, cpu) \<longrightarrow> k < length (wq_descs (wqs d' ! i)))"
  using assms(2-)
proof (induction rounds arbitrary: d)
  case (Cons x rounds)
  obtain sig others where x: "x = (sig, others)" by (cases x)
  obtain g d1 where g: "sbitmap_queue_get E i d = (g, d1)" by (cases "sbitmap_queue_get E i d")
  have s1: "shape d1 = shape d" using shape_simps(9) [of E i d] g by simp
  show ?case
  proof (cases "sig \<or> g \<noteq> None")
    case True
    then show ?thesis
      using Cons.prems g x s1 sbq_index [OF assms(1) Cons.prems(1,2)] shape_same(4) [OF s1 Cons.prems(2)]
      by (auto split: if_splits option.splits)
  next
    case False
    have so: "shape (others d1) = shape d" using Cons.prems(3) s1 by (auto simp: x)
    have "alloc_wait E i rounds (others d1) = Some (r, d')" 
    proof -
      have "g = None" "\<not> sig" using False by blast+
      then show ?thesis using Cons.prems(4) g by (simp add: x)
    qed
    then show ?thesis
      using Cons.IH [of "others d1"] Cons.prems(1-3) shape_same [OF so] so by auto
  qed
qed simp

lemma alloc_desc_index:
  assumes "sbq_ok E" "shape_ok d" "i < length (wqs d)" "\<forall>(sig, others)\<in>set rounds. \<forall>d. shape (others d) = shape d"
    and "idxd_alloc_desc E i t rounds d = Some (r, d')"
  shows "shape d' = shape d \<and> (\<forall>k. r = Inr k \<longrightarrow> k < length (wq_descs (wqs d' ! i)))"
proof -
  obtain g d1 where g: "sbitmap_queue_get E i d = (g, d1)" by (cases "sbitmap_queue_get E i d")
  have s1: "shape d1 = shape d" using shape_simps(9) [of E i d] g by simp
  have gl: "length (wq_descs (wqs (get_desc i k cpu e) ! i)) = length (wq_descs (wqs e ! i))" if "i < length (wqs e)" for k cpu e
    using shape_same(4) [OF shape_simps(7) [of i k cpu e] that] .
  have d1: "i < length (wqs d1)" "shape_ok d1" using shape_same [OF s1] assms(2,3) by simp_all
  show ?thesis
  proof (cases "dev_state d = IDXD_DEV_ENABLED \<and> g = None \<and> t \<noteq> IDXD_OP_NONBLOCK")
    case True
    then obtain w d2 where w: "alloc_wait E i rounds d1 = Some (w, d2)"
      using assms(5) g by (auto simp: idxd_alloc_desc_def split: option.splits)
    have a: "shape d2 = shape d1" "\<forall>k cpu. w = Some (k, cpu) \<longrightarrow> k < length (wq_descs (wqs d2 ! i))"
      using alloc_wait_index [OF assms(1) d1(2,1) assms(4) w] by simp_all
    have "i < length (wqs d2)" using shape_same(2) [OF a(1)] d1(1) by simp
    then show ?thesis
      using True assms(5) g w a s1 gl by (auto simp: idxd_alloc_desc_def split: option.splits)
  next
    case False
    then show ?thesis
      using assms(5) g s1 gl [OF d1(1)] sbq_index [OF assms(1-3)] shape_same(4) [OF s1 assms(3)]
      by (auto simp: idxd_alloc_desc_def split: option.splits if_splits)
  qed
qed

lemma submit_shape:
  assumes "\<forall>d. shape (resume d) = shape d" "idxd_submit_desc E i k resume d = Some (rc, d')"
  shows "shape d' = shape d"
proof -
  have p: "shape e = shape d" if "idxd_wq_portal_addr i d = (a, e)" for a e d
    using that shape_simps(8) [of i d] by simp
  have q: "shape e = shape d" if "idxd_enqcmds E i po hw d = (a, e)" for a e d po hw
    using that shape_enqcmds [of E i po hw d] by simp
  show ?thesis
    using assms by (auto simp: idxd_submit_desc_def Let_def split: if_splits prod.splits dest!: p q shape_abort)
qed

subsection \<open>One submission\<close>

text \<open>The copy that entry \<open>j\<close> of the tables of queue \<open>q\<close> stands for.\<close>

definition entry_move :: "'a ktest_scheme \<Rightarrow> nat \<Rightarrow> nat \<Rightarrow> u64 \<times> u64 \<times> u32" where
  "entry_move s q j =
     (let es = sgl (src_sgts s ! q) ! j; ed = sgl (dst_sgts s ! q) ! j
      in (sg_dma_address es, sg_dma_address ed, if total_nents s q = 1 then min (sg_dma_len es) (sg_dma_len ed) else sg_dma_len ed))"

definition tables_ok :: "'a ktest_scheme \<Rightarrow> nat \<Rightarrow> bool" where
  "tables_ok s q \<longleftrightarrow> total_nents s q \<le> length (sgl (src_sgts s ! q)) \<and> total_nents s q \<le> length (sgl (dst_sgts s ! q)) \<and>
     \<not> ends_early (src_sgts s ! q) \<and> \<not> ends_early (dst_sgts s ! q)"

definition queue_ok :: "'a ktest_scheme \<Rightarrow> nat \<Rightarrow> bool" where
  "queue_ok s q \<longleftrightarrow> (case kt_wqs s ! q of (a, i) \<Rightarrow> a < length (kt_devs s) \<and> i < length (wqs (kt_devs s ! a)) \<and> shape_ok (kt_devs s ! a))"

lemma sg_pairs_run:
  assumes "\<not> ends_early ts" "\<not> ends_early td" "p + n \<le> length (sgl ts)" "p + n \<le> length (sgl td)"
  shows "\<exists>ps pd. sg_pairs ts td n (Some p) (Some p) = Some (map (\<lambda>j. (sgl ts ! j, sgl td ! j)) [p..<p + n], ps, pd) \<and>
    (p + n < length (sgl ts) \<longrightarrow> ps = Some (p + n)) \<and> (p + n < length (sgl td) \<longrightarrow> pd = Some (p + n))"
  using assms(3,4)
proof (induction n arbitrary: p)
  case (Suc n)
  have nx: "sg_next t p = Some (p + 1)" if "\<not> ends_early t" "p + 1 < length (sgl t)" for t
    using that by (simp add: ends_early_def sg_next_def)
  have l: "[p..<p + Suc n] = p # [p + 1..<p + 1 + n]" by (simp add: upt_conv_Cons)
  show ?case
  proof (cases n)
    case 0
    then show ?thesis using nx [OF assms(1)] nx [OF assms(2)] by simp
  next
    case (Suc m)
    then have "sg_next ts p = Some (p + 1)" "sg_next td p = Some (p + 1)"
      using Suc.prems nx [OF assms(1)] nx [OF assms(2)] by simp_all
    moreover obtain ps pd where "sg_pairs ts td n (Some (p + 1)) (Some (p + 1)) = Some (map (\<lambda>j. (sgl ts ! j, sgl td ! j)) [p + 1..<p + 1 + n], ps, pd)"
        "p + 1 + n < length (sgl ts) \<longrightarrow> ps = Some (p + 1 + n)" "p + 1 + n < length (sgl td) \<longrightarrow> pd = Some (p + 1 + n)"
      using Suc.IH [of "p + 1"] Suc.prems by auto
    ultimately show ?thesis using l by simp
  qed
qed simp

lemma submit_tail_spec:
  assumes "submit_tail E cw e s = Some s'" "polite cw" "kt_wqs s ! dl_queue e = (a, i)"
  shows "\<exists>d b. shape d = shape (kt_devs s ! a) \<and>
    s' = s\<lparr>desc_lists := desc_lists s @ [e], kt_devs := (kt_devs s)[a := d],
      kt_sent := kt_sent s @ [(dl_queue e, moves_of (desc_hw (the_desc i (dl_desc e) (kt_devs s ! a))) (batch_info e))],
      thread_execution := True, batch_task := b\<rparr>"
proof -
  obtain rc d where d: "idxd_submit_desc E i (dl_desc e) (cw_resume cw) (kt_devs s ! a) = Some (rc, d)"
    using assms(1,3) by (auto simp: submit_tail_def Let_def split: option.splits)
  have "shape d = shape (kt_devs s ! a)"
    using submit_shape [OF _ d] assms(2) by (simp add: polite_def)
  then show ?thesis
    using assms(1) unfolding submit_tail_def assms(3) prod.case Let_def
    by (intro exI [of _ d] exI [of _ "batch_task s'"]) (auto simp: d split: option.splits bool.splits)
qed

lemma shapes_upd: "shape d = shape (ds ! a) \<Longrightarrow> map shape (ds[a := d]) = map shape ds"
  by (simp add: map_update) (metis list_update_id map_update)

lemma moves_single:
  "moves_of (idxd_prep_desc_common DSA_OPCODE_MEMMOVE s d (ucast (l :: u32)) c f hw) bi = [(s, d, l)]"
  by (simp add: moves_of_def hw_move_def idxd_prep_desc_common_def ucast_back)

lemma moves_batch:
  assumes "n < 2 ^ 32" "length l = n" "batch_hw_descs_addr b = a" "sub_hw_descs b = map2 (sub_desc dv fl c') [0..<n] l"
  shows "moves_of (idxd_prep_desc_batch DSA_OPCODE_BATCH a (word_of_nat n) c f hw) (Some b) =
    map (\<lambda>(es, ed). (sg_dma_address es, sg_dma_address ed, sg_dma_len ed)) l"
proof -
  have h: "hw_move (sub_desc dv fl c' j x) = (sg_dma_address (fst x), sg_dma_address (snd x), sg_dma_len (snd x))" for j x
    by (simp add: sub_desc_def hw_move_def Let_def)
  have "map hw_move (map2 (sub_desc dv fl c') [0..<n] l) = map (\<lambda>(es, ed). (sg_dma_address es, sg_dma_address ed, sg_dma_len ed)) l"
    using assms(2) by (auto intro!: nth_equalityI simp: case_prod_beta h)
  moreover have "unat (word_of_nat n :: u32) = n" using assms(1) by (simp add: unsigned_of_nat take_bit_nat_eq_self)
  ultimately show ?thesis using assms by (simp add: moves_of_def idxd_prep_desc_batch_def)
qed

text \<open>
  A submission hands over the copies of the next entries, at most a batch of them, and moves the two
  positions behind them.
\<close>

definition submitted :: "nat \<Rightarrow> nat \<Rightarrow> 'a ktest_scheme \<Rightarrow> 'a ktest_scheme \<Rightarrow> bool" where
  "submitted q cur s s' \<longleftrightarrow> (\<exists>e devs b ps pd. map shape devs = map shape (kt_devs s) \<and> dl_queue e = q \<and> \<not> completion e \<and>
    (\<forall>bi. batch_info e = Some bi \<longrightarrow> batch_live bi) \<and>
    s' = s\<lparr>kt_devs := devs, desc_lists := desc_lists s @ [e],
      kt_sent := kt_sent s @ [(q, map (entry_move s q) [cur * max_batch s q..<min (total_nents s q) (Suc cur * max_batch s q)])],
      thread_execution := True, batch_task := b, sg_srcs := (sg_srcs s)[q := ps], sg_dsts := (sg_dsts s)[q := pd]\<rparr> \<and>
    (Suc cur * max_batch s q < total_nents s q \<longrightarrow> ps = Some (Suc cur * max_batch s q) \<and> pd = Some (Suc cur * max_batch s q)))"

definition at_entry :: "nat \<Rightarrow> nat \<Rightarrow> 'a ktest_scheme \<Rightarrow> bool" where
  "at_entry q cur s \<longleftrightarrow> sg_srcs s ! q = Some (cur * max_batch s q) \<and> sg_dsts s ! q = Some (cur * max_batch s q) \<and>
    0 < max_batch s q \<and> cur * max_batch s q < total_nents s q"

lemma prepared_desc:
  assumes "i < length (wqs d)" "k < length (wq_descs (wqs d ! i))"
  shows "desc_hw (the_desc i k (upd_desc i k (\<lambda>x. x\<lparr>txd_flags := fl\<rparr>) (upd_desc i k (\<lambda>x. x\<lparr>desc_hw := f x\<rparr>) d))) = f (the_desc i k d)"
proof -
  have "i < length (wqs (upd_desc i k g d))" "k < length (wq_descs (wqs (upd_desc i k g d) ! i))" for g
    using assms shape_same(2,4) [OF shape_simps(1) [of i k g d]] by simp_all
  then show ?thesis using assms by (simp add: the_desc_upd_desc)
qed

lemma submit_one_single:
  assumes "submit_one E world (cur, q) s = Some s'" "kt_wqs s ! q = (a, i)" "total_nents s q = 1"
    "sg_srcs s ! q = Some js" "sg_dsts s ! q = Some jd"
  shows "\<exists>k d1. idxd_desc_dma_submit_memcpy E i (sg_dma_address (sgl (dst_sgts s ! q) ! jd)) (sg_dma_address (sgl (src_sgts s ! q) ! js))
      (ucast (min (sg_dma_len (sgl (src_sgts s ! q) ! js)) (sg_dma_len (sgl (dst_sgts s ! q) ! jd)))) KT_FLAGS
      (cw_rounds (world (cur, q))) (kt_devs s ! a) = Some (Some k, d1) \<and>
    submit_tail E (world (cur, q)) \<lparr>dl_queue = q, dl_desc = k, completion = False, batch_info = None\<rparr>
      (s\<lparr>kt_devs := (kt_devs s)[a := d1]\<rparr>) = Some s'"
  using assms(1) unfolding submit_one_def Let_def prod.case assms(2)
  by (simp add: assms(3-) split: if_splits option.splits prod.splits)

lemma submit_one_batch:
  assumes "submit_one E world (cur, q) s = Some s'" "kt_wqs s ! q = (a, i)" "total_nents s q \<noteq> 1"
    "m = (if total_nents s q - cur * max_batch s q > max_batch s q then max_batch s q else total_nents s q - cur * max_batch s q)"
  shows "\<exists>e ps pd d1. idxd_desc_dma_submit_memcpy_sg E (world (cur, q)) q i (src_sgts s ! q) (dst_sgts s ! q) (sg_srcs s ! q)
      (sg_dsts s ! q) m KT_FLAGS (kt_devs s ! a) = Some (Some (e, ps, pd), d1) \<and>
    submit_tail E (world (cur, q)) e (s\<lparr>kt_devs := (kt_devs s)[a := d1], batch_task := Some True,
         sg_srcs := (sg_srcs s)[q := ps], sg_dsts := (sg_dsts s)[q := pd]\<rparr>) = Some s'"
  using assms(1) unfolding submit_one_def Let_def prod.case assms(2) assms(4) [symmetric] if_not_P [OF assms(3)]
  by (simp split: option.splits prod.splits)

lemma memcpy_made:
  assumes "idxd_desc_dma_submit_memcpy E i dst src len fl rounds d = Some (Some k, d1)"
  shows "\<exists>d0. idxd_alloc_desc E i IDXD_OP_BLOCK rounds d = Some (Inr k, d0) \<and>
    d1 = upd_desc i k (\<lambda>x. x\<lparr>txd_flags := fl\<rparr>) (upd_desc i k (\<lambda>x. x\<lparr>desc_hw := idxd_prep_desc_common DSA_OPCODE_MEMMOVE
      src dst len (compl_dma x) (op_flag_setup fl) (desc_hw x)\<rparr>) d0)"
  using assms unfolding idxd_desc_dma_submit_memcpy_def Let_def
  by (simp split: if_splits option.splits prod.splits sum.splits)

definition batch_of :: "call_world \<Rightarrow> nat \<Rightarrow> u64 \<Rightarrow> (scatterlist \<times> scatterlist) list \<Rightarrow> idxd_device \<Rightarrow> batch_info" where
  "batch_of cw n fl l d =
     \<lparr>sub_compl = replicate n 0, sub_hw_descs = map2 (sub_desc d (op_flag_setup fl) (cw_compls cw)) [0..<n] l,
      batch_compls_addr = cw_compls cw, batch_hw_descs_addr = cw_descs cw,
      batch_compls_size = int (n * compl_size (drv_data d)), batch_hw_descs_size = int (n * 64), batch_live = True\<rparr>"

lemma memcpy_sg_made:
  assumes "idxd_desc_dma_submit_memcpy_sg E cw q i ts td ps pd n fl d = Some (Some (e, ps', pd'), d1)"
    "sg_pairs ts td n ps pd = Some (l, r)"
  shows "\<exists>k d0. idxd_alloc_desc E i IDXD_OP_BLOCK (cw_rounds cw) d = Some (Inr k, d0) \<and>
    d1 = upd_desc i k (\<lambda>x. x\<lparr>txd_flags := fl\<rparr>) (upd_desc i k (\<lambda>x. x\<lparr>desc_hw := idxd_prep_desc_batch DSA_OPCODE_BATCH
      (cw_descs cw) (word_of_nat n) (compl_dma x) (op_flag_setup fl) (desc_hw x)\<rparr>) d0) \<and>
    e = \<lparr>dl_queue = q, dl_desc = k, completion = False, batch_info = Some (batch_of cw n fl l d1)\<rparr> \<and> r = (ps', pd')"
  using assms unfolding idxd_desc_dma_submit_memcpy_sg_def Let_def batch_of_def
  by (simp split: if_splits option.splits prod.splits sum.splits) (elim conjE, simp)

lemma submit_single:
  assumes r: "submit_one E world (cur, q) s = Some s'" and E: "sbq_ok E" and pol: "polite (world (cur, q))"
    and ok: "queue_ok s q" and pos: "at_entry q cur s" and one: "total_nents s q = 1"
  shows "submitted q cur s s'"
proof -
  obtain a i where ai: "kt_wqs s ! q = (a, i)" by (cases "kt_wqs s ! q")
  let ?d = "kt_devs s ! a" and ?cw = "world (cur, q)"
  have a: "a < length (kt_devs s)" "i < length (wqs ?d)" "shape_ok ?d" using ok by (simp_all add: queue_ok_def ai)
  have cur: "cur = 0" "sg_srcs s ! q = Some 0" "sg_dsts s ! q = Some 0" "0 < max_batch s q"
    using pos one by (auto simp: at_entry_def)
  have rounds: "\<forall>(sig, others)\<in>set (cw_rounds ?cw). \<forall>d. shape (others d) = shape d" using pol by (simp add: polite_def)
  let ?es = "sgl (src_sgts s ! q) ! 0" and ?ed = "sgl (dst_sgts s ! q) ! 0"
  let ?len = "min (sg_dma_len ?es) (sg_dma_len ?ed)"
  define hwf where "hwf x = idxd_prep_desc_common DSA_OPCODE_MEMMOVE (sg_dma_address ?es) (sg_dma_address ?ed) (ucast ?len)
    (compl_dma x) (op_flag_setup KT_FLAGS) (desc_hw x)" for x :: idxd_desc
  obtain k d1 where c: "idxd_desc_dma_submit_memcpy E i (sg_dma_address ?ed) (sg_dma_address ?es)
        (ucast ?len) KT_FLAGS (cw_rounds ?cw) ?d = Some (Some k, d1)"
      "submit_tail E ?cw \<lparr>dl_queue = q, dl_desc = k, completion = False, batch_info = None\<rparr> (s\<lparr>kt_devs := (kt_devs s)[a := d1]\<rparr>) = Some s'"
    using submit_one_single [OF r ai one cur(2,3)] by (elim exE conjE)
  define e where "e = \<lparr>dl_queue = q, dl_desc = k, completion = False, batch_info = None\<rparr>"
  obtain d0 where d0: "idxd_alloc_desc E i IDXD_OP_BLOCK (cw_rounds ?cw) ?d = Some (Inr k, d0)"
      "d1 = upd_desc i k (\<lambda>x. x\<lparr>txd_flags := KT_FLAGS\<rparr>) (upd_desc i k (\<lambda>x. x\<lparr>desc_hw := hwf x\<rparr>) d0)"
    using memcpy_made [OF c(1)] unfolding hwf_def by (elim exE conjE)
  have s0: "shape d0 = shape ?d" "k < length (wq_descs (wqs d0 ! i))"
    using alloc_desc_index [OF E a(3,2) rounds d0(1)] by simp_all
  have i0: "i < length (wqs d0)" unfolding shape_same(2) [OF s0(1)] by (rule a(2))
  have "moves_of (desc_hw (the_desc i k d1)) None = [(sg_dma_address ?es, sg_dma_address ?ed, ?len)]"
    unfolding d0(2) prepared_desc [OF i0 s0(2)] hwf_def by (rule moves_single)
  moreover have "[cur * max_batch s q..<min (total_nents s q) (Suc cur * max_batch s q)] = [0]"
  proof -
    have "min (total_nents s q) (Suc cur * max_batch s q) = Suc 0" using one cur by simp
    then show ?thesis by (simp add: cur(1))
  qed
  ultimately have mv: "moves_of (desc_hw (the_desc i k d1)) None =
      map (entry_move s q) [cur * max_batch s q..<min (total_nents s q) (Suc cur * max_batch s q)]"
    using one by (simp add: entry_move_def Let_def)
  obtain d2 b where t: "shape d2 = shape d1"
      "s' = (s\<lparr>kt_devs := (kt_devs s)[a := d1]\<rparr>)\<lparr>desc_lists := desc_lists s @ [e], kt_devs := (kt_devs s)[a := d2],
        kt_sent := kt_sent s @ [(q, moves_of (desc_hw (the_desc i k d1)) None)], thread_execution := True, batch_task := b\<rparr>"
    using submit_tail_spec [OF c(2) pol] ai a(1) by (auto simp: e_def)
  have "shape d2 = shape ?d" using t(1) s0(1) by (simp add: d0(2))
  then have "map shape ((kt_devs s)[a := d2]) = map shape (kt_devs s)" by (rule shapes_upd)
  moreover have "\<not> Suc cur * max_batch s q < total_nents s q" using one cur by simp
  ultimately show ?thesis unfolding submitted_def
    using t(2) mv by (intro exI [of _ e] exI [of _ "(kt_devs s)[a := d2]"] exI [of _ b]
        exI [of _ "sg_srcs s ! q"] exI [of _ "sg_dsts s ! q"]) (simp add: e_def)
qed

lemma submit_batch:
  assumes r: "submit_one E world (cur, q) s = Some s'" and E: "sbq_ok E" and pol: "polite (world (cur, q))"
    and ok: "queue_ok s q" "tables_ok s q" and pos: "at_entry q cur s" and more: "total_nents s q \<noteq> 1"
  shows "submitted q cur s s'"
proof -
  obtain a i where ai: "kt_wqs s ! q = (a, i)" by (cases "kt_wqs s ! q")
  let ?d = "kt_devs s ! a" and ?cw = "world (cur, q)" and ?ts = "src_sgts s ! q" and ?td = "dst_sgts s ! q"
  have a: "a < length (kt_devs s)" "i < length (wqs ?d)" "shape_ok ?d" using ok(1) by (simp_all add: queue_ok_def ai)
  have rounds: "\<forall>(sig, others)\<in>set (cw_rounds ?cw). \<forall>d. shape (others d) = shape d" using pol by (simp add: polite_def)
  define n where "n = total_nents s q"
  define bmax where "bmax = max_batch s q"
  define p where "p = cur * bmax"
  define m where "m = (if n - p > bmax then bmax else n - p)"
  have p: "sg_srcs s ! q = Some p" "sg_dsts s ! q = Some p" "0 < bmax" "p < n"
    using pos by (simp_all add: at_entry_def p_def bmax_def n_def)
  have m: "p + m = min n (Suc cur * bmax)" "m \<le> bmax" using p(4) by (auto simp: m_def p_def)
  have bm: "bmax < 2 ^ 32" 
  proof -
    have "unat w < 2 ^ 32" for w :: u32 using unsigned_less [of w, where 'a = nat] by simp
    then show ?thesis by (simp add: bmax_def max_batch_def)
  qed
  obtain e ps pd d1 where c: "idxd_desc_dma_submit_memcpy_sg E ?cw q i ?ts ?td (Some p) (Some p) m KT_FLAGS ?d = Some (Some (e, ps, pd), d1)"
      "submit_tail E ?cw e (s\<lparr>kt_devs := (kt_devs s)[a := d1], batch_task := Some True,
         sg_srcs := (sg_srcs s)[q := ps], sg_dsts := (sg_dsts s)[q := pd]\<rparr>) = Some s'"
    using submit_one_batch [OF r ai more m_def [unfolded p_def bmax_def n_def]] unfolding p(1,2) by (elim exE conjE)
  define hwf where "hwf x = idxd_prep_desc_batch DSA_OPCODE_BATCH (cw_descs ?cw) (word_of_nat m)
    (compl_dma x) (op_flag_setup KT_FLAGS) (desc_hw x)" for x :: idxd_desc
  have tk: "\<not> ends_early ?ts" "\<not> ends_early ?td" "p + m \<le> length (sgl ?ts)" "p + m \<le> length (sgl ?td)"
    using ok(2) m by (auto simp: tables_ok_def n_def)
  obtain ps' pd' where pr: "sg_pairs ?ts ?td m (Some p) (Some p) = Some (map (\<lambda>j. (sgl ?ts ! j, sgl ?td ! j)) [p..<p + m], ps', pd')"
      "p + m < length (sgl ?ts) \<longrightarrow> ps' = Some (p + m)" "p + m < length (sgl ?td) \<longrightarrow> pd' = Some (p + m)"
    using sg_pairs_run [OF tk] by (elim exE conjE)
  let ?l = "map (\<lambda>j. (sgl ?ts ! j, sgl ?td ! j)) [p..<p + m]"
  obtain k d0 where d0: "idxd_alloc_desc E i IDXD_OP_BLOCK (cw_rounds ?cw) ?d = Some (Inr k, d0)"
      "d1 = upd_desc i k (\<lambda>x. x\<lparr>txd_flags := KT_FLAGS\<rparr>) (upd_desc i k (\<lambda>x. x\<lparr>desc_hw := hwf x\<rparr>) d0)"
      "e = \<lparr>dl_queue = q, dl_desc = k, completion = False, batch_info = Some (batch_of ?cw m KT_FLAGS ?l d1)\<rparr>" "(ps', pd') = (ps, pd)"
    using memcpy_sg_made [OF c(1) pr(1)] unfolding hwf_def by (elim exE conjE)
  define bi where "bi = batch_of ?cw m KT_FLAGS ?l d1"
  have bi: "sub_hw_descs bi = map2 (sub_desc d1 (op_flag_setup KT_FLAGS) (cw_compls ?cw)) [0..<m] ?l"
      "batch_hw_descs_addr bi = cw_descs ?cw" "batch_live bi"
    by (simp_all add: bi_def batch_of_def)
  have s0: "shape d0 = shape ?d" "k < length (wq_descs (wqs d0 ! i))"
    using alloc_desc_index [OF E a(3,2) rounds d0(1)] by simp_all
  have i0: "i < length (wqs d0)" unfolding shape_same(2) [OF s0(1)] by (rule a(2))
  have "moves_of (desc_hw (the_desc i k d1)) (Some bi) = map (\<lambda>(es, ed). (sg_dma_address es, sg_dma_address ed, sg_dma_len ed)) ?l"
    unfolding d0(2) prepared_desc [OF i0 s0(2)] hwf_def using m(2) bm by (intro moves_batch [OF _ _ bi(2,1)]) simp_all
  then have mv: "moves_of (desc_hw (the_desc i k d1)) (Some bi) = map (entry_move s q) [p..<min n (Suc cur * bmax)]"
    using more by (simp add: m(1) entry_move_def Let_def)
  obtain d2 b where t: "shape d2 = shape d1"
      "s' = (s\<lparr>kt_devs := (kt_devs s)[a := d1], batch_task := Some True, sg_srcs := (sg_srcs s)[q := ps], sg_dsts := (sg_dsts s)[q := pd]\<rparr>)
        \<lparr>desc_lists := desc_lists s @ [e], kt_devs := (kt_devs s)[a := d2],
         kt_sent := kt_sent s @ [(q, moves_of (desc_hw (the_desc i k d1)) (Some bi))], thread_execution := True, batch_task := b\<rparr>"
    using submit_tail_spec [OF c(2) pol] ai a(1) by (auto simp: d0(3) bi_def)
  have "shape d2 = shape ?d" using t(1) s0(1) by (simp add: d0(2))
  then have "map shape ((kt_devs s)[a := d2]) = map shape (kt_devs s)" by (rule shapes_upd)
  moreover have ee: "dl_queue e = q" "\<not> completion e" "batch_info e = Some bi" by (simp_all add: d0(3) bi_def)
  moreover have "Suc cur * bmax < n \<longrightarrow> ps = Some (Suc cur * bmax) \<and> pd = Some (Suc cur * bmax)"
  proof
    assume "Suc cur * bmax < n"
    then have "p + m = Suc cur * bmax" "p + m < n" using m(1) by simp_all
    moreover have "n \<le> length (sgl ?ts)" "n \<le> length (sgl ?td)" using ok(2) by (simp_all add: tables_ok_def n_def)
    ultimately show "ps = Some (Suc cur * bmax) \<and> pd = Some (Suc cur * bmax)" using pr(2,3) d0(4) by auto
  qed
  moreover have "s' = s\<lparr>kt_devs := (kt_devs s)[a := d2], desc_lists := desc_lists s @ [e],
      kt_sent := kt_sent s @ [(q, map (entry_move s q) [p..<min n (Suc cur * bmax)])],
      thread_execution := True, batch_task := b, sg_srcs := (sg_srcs s)[q := ps], sg_dsts := (sg_dsts s)[q := pd]\<rparr>"
    unfolding t(2) mv by simp
  moreover have "\<forall>bi'. batch_info e = Some bi' \<longrightarrow> batch_live bi'" using ee(3) bi(3) by simp
  ultimately show ?thesis unfolding submitted_def n_def [symmetric] bmax_def [symmetric] p_def [symmetric] by blast
qed

lemma submit_one_spec:
  assumes "submit_one E world (cur, q) s = Some s'" "sbq_ok E" "polite (world (cur, q))"
    and "queue_ok s q" "tables_ok s q" "at_entry q cur s"
  shows "submitted q cur s s'"
  using submit_single [OF assms(1-4,6)] submit_batch [OF assms(1-6)] by blast

subsection \<open>The schedule\<close>

lemma descs_entry_bounds:
  assumes "0 < max_batch s q"
  shows "cur < descs_entry s q \<Longrightarrow> cur * max_batch s q < total_nents s q" "total_nents s q \<le> descs_entry s q * max_batch s q"
proof -
  let ?n = "total_nents s q" and ?b = "max_batch s q"
  have n: "?n = ?n div ?b * ?b + ?n mod ?b" "?n mod ?b < ?b" using assms by (simp_all only: div_mult_mod_eq mod_less_divisor)
  have "descs_entry s q * ?b = ?n div ?b * ?b + (if ?n mod ?b \<noteq> 0 then ?b else 0)"
    by (simp add: descs_entry_def algebra_simps)
  then show "?n \<le> descs_entry s q * ?b" using n by (cases "?n mod ?b = 0") simp_all
  assume "cur < descs_entry s q"
  then consider "cur < ?n div ?b" | "cur = ?n div ?b" "?n mod ?b \<noteq> 0" 
    by (cases "?n mod ?b = 0") (simp_all add: descs_entry_def less_Suc_eq, blast)
  then show "cur * ?b < ?n"
  proof cases
    case 1
    then have "Suc cur * ?b \<le> ?n div ?b * ?b" by (intro mult_le_mono1) simp
    then show ?thesis using n(1) assms by simp
  next
    case 2
    have "cur * ?b = ?n div ?b * ?b" unfolding 2(1) ..
    then show ?thesis using n(1) 2(2) by linarith
  qed
qed

lemma fold_max_ge: "a \<le> fold (\<lambda>q. max (f q)) qs a \<and> (q \<in> set qs \<longrightarrow> f q \<le> fold (\<lambda>q. max (f q)) qs (a :: nat))"
proof (induction qs arbitrary: a)
  case (Cons x qs)
  show ?case using Cons.IH [of "max (f x) a"] by auto
qed simp

definition count_for :: "nat \<Rightarrow> (nat \<times> nat) list \<Rightarrow> nat" where
  "count_for q ps = length (filter (\<lambda>p. snd p = q) ps)"

text \<open>The submissions of one queue are numbered in order.\<close>

definition scheduled :: "'a ktest_scheme \<Rightarrow> (nat \<times> nat) list \<Rightarrow> bool" where
  "scheduled s sched \<longleftrightarrow> (\<forall>q<length (kt_wqs s). filter (\<lambda>p. snd p = q) sched = map (\<lambda>c. (c, q)) [0..<descs_entry s q]) \<and>
     (\<forall>p\<in>set sched. snd p < length (kt_wqs s))"

lemma filter_upt_less: "d \<le> m \<Longrightarrow> concat (map (\<lambda>c. if c < d then [f c] else []) [0..<m]) = map f [0..<d]"
proof -
  assume "d \<le> m"
  then have "[0..<m] = [0..<d] @ [d..<m]" by (metis le_iff_add upt_add_eq_append zero_le)
  moreover have "concat (map (\<lambda>c. if c < d then [f c] else []) [0..<d]) = concat (map (\<lambda>c. [f c]) [0..<d])"
    by (intro arg_cong [of _ _ concat]) simp
  moreover have "concat (map (\<lambda>c. if c < d then [f c] else []) [d..<m]) = []" by (auto simp: concat_eq_Nil_conv)
  ultimately show ?thesis by (simp add: concat_map_singleton)
qed

lemma filter_upt_one: "q < w \<Longrightarrow> filter (\<lambda>x. x = q) [0..<w] = [q]"
  by (induction w) (auto simp: less_Suc_eq filter_empty_conv)

lemma prepare_scheduled:
  assumes "dsa_prepare s = Some (s', sched)"
  shows "scheduled s sched"
proof -
  let ?w = "length (kt_wqs s)"
  define m where "m = fold (\<lambda>q. max (descs_entry s q)) [0..<?w] 0"
  have sched: "sched = concat (map (\<lambda>cur. map (Pair cur) (filter (\<lambda>q. cur < descs_entry s q) [0..<?w])) [0..<m])"
    using assms by (auto simp: dsa_prepare_def Let_def m_def split: if_splits)
  have one: "filter (\<lambda>p. snd p = q) (map (Pair cur) (filter P [0..<?w])) = (if P q then [(cur, q)] else [])" if "q < ?w" for q cur P
  proof -
    have "filter (\<lambda>x. P x \<and> x = q) [0..<?w] = filter P (filter (\<lambda>x. x = q) [0..<?w])"
      by (simp only: filter_filter conj_commute)
    then have "filter (\<lambda>x. P x \<and> x = q) [0..<?w] = (if P q then [q] else [])"
      by (simp only: filter_upt_one [OF that] filter.simps)
    then show ?thesis by (simp add: filter_map comp_def conj_commute)
  qed
  have "filter (\<lambda>p. snd p = q) sched = map (\<lambda>c. (c, q)) [0..<descs_entry s q]" if q: "q < ?w" for q
  proof -
    have "descs_entry s q \<le> m" using fold_max_ge [of 0 "descs_entry s" "[0..<?w]" q] q by (simp add: m_def)
    then show ?thesis by (simp add: sched filter_concat comp_def one [OF q] filter_upt_less)
  qed
  then show ?thesis by (auto simp: scheduled_def sched)
qed

lemma scheduled_next:
  assumes "scheduled s (pre @ (cur, q) # ps)"
  shows "q < length (kt_wqs s)" "count_for q pre = cur" "cur < descs_entry s q"
proof -
  show q: "q < length (kt_wqs s)" using assms by (auto simp: scheduled_def)
  have f: "filter (\<lambda>p. snd p = q) pre @ (cur, q) # filter (\<lambda>p. snd p = q) ps = map (\<lambda>c. (c, q)) [0..<descs_entry s q]"
    using assms q unfolding scheduled_def by fastforce
  have l: "count_for q pre < descs_entry s q" using arg_cong [OF f, of length] by (simp add: count_for_def)
  have "(cur, q) = map (\<lambda>c. (c, q)) [0..<descs_entry s q] ! count_for q pre"
    unfolding f [symmetric] by (simp add: count_for_def nth_append)
  then show "count_for q pre = cur" "cur < descs_entry s q" using l by simp_all
qed

lemma scheduled_all: "scheduled s sched \<Longrightarrow> q < length (kt_wqs s) \<Longrightarrow> count_for q sched = descs_entry s q"
  by (simp add: scheduled_def count_for_def)

subsection \<open>The copies handed over\<close>

definition sent_to :: "nat \<Rightarrow> 'a ktest_scheme \<Rightarrow> (u64 \<times> u64 \<times> u32) list" where
  "sent_to q s = concat (map snd (filter (\<lambda>x. fst x = q) (kt_sent s)))"

text \<open>After the submissions \<open>pre\<close> of a schedule that began in \<open>s0\<close>.\<close>

definition progress :: "kcopy \<Rightarrow> (nat \<times> nat) list \<Rightarrow> kcopy \<Rightarrow> bool" where
  "progress s0 pre s \<longleftrightarrow> (\<forall>x\<in>set (kt_sent s). fst x < length (kt_wqs s0) \<and> length (snd x) \<le> max_batch s0 (fst x)) \<and>
     (\<forall>q<length (kt_wqs s0).
        sent_to q s = map (entry_move s0 q) [0..<min (total_nents s0 q) (count_for q pre * max_batch s0 q)] \<and>
        (count_for q pre < descs_entry s0 q \<longrightarrow> q < length (sg_srcs s) \<and> q < length (sg_dsts s) \<and>
           sg_srcs s ! q = Some (count_for q pre * max_batch s0 q) \<and> sg_dsts s ! q = Some (count_for q pre * max_batch s0 q)))"

definition copy_inv :: "kcopy \<Rightarrow> (nat \<times> nat) list \<Rightarrow> kcopy \<Rightarrow> bool" where
  "copy_inv s0 sched s \<longleftrightarrow> kt_wqs s = kt_wqs s0 \<and> map shape (kt_devs s) = map shape (kt_devs s0) \<and>
     (case kt_copy s of
        Submitting ps \<Rightarrow> src_sgts s = src_sgts s0 \<and> dst_sgts s = dst_sgts s0 \<and>
          (\<exists>pre. sched = pre @ ps \<and> progress s0 pre s)
      | _ \<Rightarrow> progress s0 sched s)"

definition completer_ok :: "(nat \<Rightarrow> nat \<Rightarrow> idxd_complete_type \<Rightarrow> bool \<Rightarrow> idxd_device \<Rightarrow> idxd_device) \<Rightarrow> bool" where
  "completer_ok complete \<longleftrightarrow> (\<forall>i k t f d. shape (complete i k t f d) = shape d)"

text \<open>What a step of the thread or of the device leaves alone.\<close>

definition same_copy :: "kcopy \<Rightarrow> kcopy \<Rightarrow> bool" where
  "same_copy s s' \<longleftrightarrow> kt_wqs s' = kt_wqs s \<and> src_sgts s' = src_sgts s \<and> dst_sgts s' = dst_sgts s \<and> sg_srcs s' = sg_srcs s \<and>
     sg_dsts s' = sg_dsts s \<and> kt_sent s' = kt_sent s \<and> kt_copy s' = kt_copy s \<and> total_entries s' = total_entries s \<and>
     should_stop s' = should_stop s \<and> thread_execution s' = thread_execution s \<and> map shape (kt_devs s') = map shape (kt_devs s)"

lemma drop_entry_same: "same_copy s (snd (drop_entry j s))"
  by (simp add: drop_entry_def same_copy_def)

lemma same_copy_trans: "same_copy s t \<Longrightarrow> same_copy t u \<Longrightarrow> same_copy s u"
  by (simp add: same_copy_def)

lemma finish_entry_form:
  assumes "finish_entry complete t j s = Some r" "kt_wqs s ! dl_queue (desc_lists s ! j) = (a, i)"
  shows "\<exists>bi. r = drop_entry j (s\<lparr>desc_lists := (desc_lists s)[j := (desc_lists s ! j)\<lparr>completion := True, batch_info := bi\<rparr>],
    kt_devs := (kt_devs s)[a := complete i (dl_desc (desc_lists s ! j)) t True (kt_devs s ! a)], poll_entry := poll_entry s + 1\<rparr>)"
proof (cases "batch_info (desc_lists s ! j)")
  case None
  then have e: "(desc_lists s ! j)\<lparr>completion := True\<rparr> = (desc_lists s ! j)\<lparr>completion := True, batch_info := None\<rparr>"
    by (cases "desc_lists s ! j") simp
  have "r = drop_entry j (s\<lparr>desc_lists := (desc_lists s)[j := (desc_lists s ! j)\<lparr>completion := True\<rparr>],
      kt_devs := (kt_devs s)[a := complete i (dl_desc (desc_lists s ! j)) t True (kt_devs s ! a)], poll_entry := poll_entry s + 1\<rparr>)"
    using assms(1) None by (simp add: finish_entry_def Let_def assms(2))
  then show ?thesis by (intro exI [of _ None]) (simp only: e [symmetric])
next
  case (Some b)
  have o: "s\<lparr>kt_devs := ds, poll_entry := n, desc_lists := es\<rparr> = s\<lparr>desc_lists := es, kt_devs := ds, poll_entry := n\<rparr>" for ds n es
    by (cases s) simp
  have "r = drop_entry j (s\<lparr>kt_devs := (kt_devs s)[a := complete i (dl_desc (desc_lists s ! j)) t True (kt_devs s ! a)], poll_entry := poll_entry s + 1,
      desc_lists := (desc_lists s)[j := (desc_lists s ! j)\<lparr>completion := True, batch_info := Some (b\<lparr>batch_live := False\<rparr>)\<rparr>]\<rparr>)"
    using assms(1) Some by (simp add: finish_entry_def Let_def assms(2) split: if_splits)
  then show ?thesis unfolding o by (rule exI)
qed

lemma finish_entry_same:
  assumes "completer_ok complete" "finish_entry complete t j s = Some r"
  shows "same_copy s (snd r)"
proof -
  obtain a i where ai: "kt_wqs s ! dl_queue (desc_lists s ! j) = (a, i)" by (cases "kt_wqs s ! dl_queue (desc_lists s ! j)")
  have sh: "map shape ((kt_devs s)[a := complete i k t True (kt_devs s ! a)]) = map shape (kt_devs s)" for k
    using assms(1) by (intro shapes_upd) (simp add: completer_ok_def)
  obtain bi where r: "r = drop_entry j (s\<lparr>desc_lists := (desc_lists s)[j := (desc_lists s ! j)\<lparr>completion := True, batch_info := bi\<rparr>],
      kt_devs := (kt_devs s)[a := complete i (dl_desc (desc_lists s ! j)) t True (kt_devs s ! a)], poll_entry := poll_entry s + 1\<rparr>)"
    using finish_entry_form [OF assms(2) ai] by (elim exE)
  show ?thesis unfolding r by (rule same_copy_trans [OF _ drop_entry_same]) (simp add: same_copy_def sh)
qed

lemma poll_visit_same:
  assumes "completer_ok complete" "poll_visit complete j s = Some r"
  shows "same_copy s (snd r)"
proof -
  obtain a i where ai: "kt_wqs s ! dl_queue (desc_lists s ! j) = (a, i)" by (cases "kt_wqs s ! dl_queue (desc_lists s ! j)")
  have sh: "map shape ((kt_devs s)[a := upd_desc i k f (kt_devs s ! a)]) = map shape (kt_devs s)" for k f
    by (intro shapes_upd) simp
  have f: "same_copy s (snd r)" if "finish_entry complete t j s1 = Some r" "same_copy s s1" for t s1
    using same_copy_trans [OF that(2) finish_entry_same [OF assms(1) that(1)]] .
  show ?thesis
    using assms(2) unfolding poll_visit_def ai Let_def prod.case
    by (auto simp: drop_entry_same split: if_splits intro!: f) (auto simp: same_copy_def sh)
qed

lemma thread_step_same:
  assumes "completer_ok complete" "thread_step complete s = Some s'"
  shows "same_copy s s'"
proof (cases "kt_pc s")
  case (Visit j)
  then obtain g t where t: "poll_visit complete j s = Some (g, t)" "\<exists>x. s' = t\<lparr>kt_pc := x\<rparr>"
    using assms(2) by (auto simp: thread_step_def Let_def split: option.splits)
  then show ?thesis using poll_visit_same [OF assms(1) t(1)] by (auto simp: same_copy_def)
qed (use assms(2) in \<open>auto simp: thread_step_def same_copy_def split: if_splits\<close>)

lemma device_post_same: "same_copy s (device_post j v s)"
  by (simp add: device_post_def same_copy_def shapes_upd Let_def split: prod.splits)

text \<open>The views on which tables, positions and schedule depend.\<close>

lemma max_batch_cong:
  assumes "kt_wqs s = kt_wqs s0" "map shape (kt_devs s) = map shape (kt_devs s0)" "queue_ok s0 q"
  shows "max_batch s q = max_batch s0 q" "queue_ok s q"
proof -
  obtain a i where ai: "kt_wqs s0 ! q = (a, i)" by (cases "kt_wqs s0 ! q")
  have a: "a < length (kt_devs s0)" "i < length (wqs (kt_devs s0 ! a))" "shape_ok (kt_devs s0 ! a)"
    using assms(3) by (simp_all add: queue_ok_def ai)
  have l: "length (kt_devs s) = length (kt_devs s0)" using assms(2) by (metis length_map)
  have "shape (kt_devs s ! a) = shape (kt_devs s0 ! a)" using arg_cong [OF assms(2), of "\<lambda>l. l ! a"] a(1) l by simp
  note sh = shape_same(1-3) [OF this]
  show "max_batch s q = max_batch s0 q" using sh(1) assms(1) ai by (simp add: max_batch_def)
  show "queue_ok s q" using sh(2,3) assms(1) ai a l by (simp add: queue_ok_def)
qed

lemma entry_move_cong:
  assumes "src_sgts s = src_sgts s0" "dst_sgts s = dst_sgts s0"
  shows "total_nents s q = total_nents s0 q" "tables_ok s q = tables_ok s0 q" "entry_move s q = entry_move s0 q"
  using assms by (simp_all add: total_nents_def tables_ok_def entry_move_def fun_eq_iff)

lemma copy_inv_same: "same_copy s s' \<Longrightarrow> copy_inv s0 sched s \<Longrightarrow> copy_inv s0 sched s'"
  by (auto simp: same_copy_def copy_inv_def progress_def sent_to_def split: copy_pc.splits)

lemma count_for_snoc: "count_for q (pre @ [(c, q')]) = count_for q pre + (if q = q' then 1 else 0)"
  by (simp add: count_for_def)

lemma progress_submit:
  assumes sched: "scheduled s0 (pre @ (cur, q) # ps)" and pr: "progress s0 pre s"
    and ok: "\<forall>q<length (kt_wqs s0). queue_ok s0 q \<and> tables_ok s0 q \<and> 0 < max_batch s0 q"
    and same: "kt_wqs s = kt_wqs s0" "map shape (kt_devs s) = map shape (kt_devs s0)" "src_sgts s = src_sgts s0" "dst_sgts s = dst_sgts s0"
    and E: "sbq_ok E" "\<forall>p. polite (world p)" and r: "submit_one E world (cur, q) s = Some s'"
  shows "submitted q cur s s' \<and> progress s0 (pre @ [(cur, q)]) s'"
proof -
  note nx = scheduled_next [OF sched]
  have q: "queue_ok s0 q" "tables_ok s0 q" "0 < max_batch s0 q" using ok nx(1) by simp_all
  note c = max_batch_cong [OF same(1,2) q(1)] entry_move_cong [OF same(3,4), of q]
  let ?b = "max_batch s0 q" and ?n = "total_nents s0 q"
  have lt: "cur * ?b < ?n" using descs_entry_bounds(1) [OF q(3) nx(3)] .
  have here: "sent_to q s = map (entry_move s0 q) [0..<cur * ?b]" "q < length (sg_srcs s)" "q < length (sg_dsts s)"
      "sg_srcs s ! q = Some (cur * ?b)" "sg_dsts s ! q = Some (cur * ?b)"
    using pr nx lt by (simp_all add: progress_def min_absorb2)
  have sub: "submitted q cur s s'"
    using q lt here c by (intro submit_one_spec [OF r E(1)]) (simp_all add: E(2) at_entry_def)
  then obtain ps pd where s': "sg_srcs s' = (sg_srcs s)[q := ps]" "sg_dsts s' = (sg_dsts s)[q := pd]"
      "kt_sent s' = kt_sent s @ [(q, map (entry_move s0 q) [cur * ?b..<min ?n (Suc cur * ?b)])]"
      "Suc cur * ?b < ?n \<longrightarrow> ps = Some (Suc cur * ?b) \<and> pd = Some (Suc cur * ?b)"
    unfolding submitted_def c by fastforce
  have "sent_to q s' = map (entry_move s0 q) [0..<min ?n (Suc cur * ?b)]"
  proof -
    have "cur * ?b \<le> min ?n (Suc cur * ?b)" using lt by simp
    then have "[0..<min ?n (Suc cur * ?b)] = [0..<cur * ?b] @ [cur * ?b..<min ?n (Suc cur * ?b)]"
      by (metis le_iff_add upt_add_eq_append zero_le)
    then show ?thesis using here(1) by (simp add: sent_to_def s'(3))
  qed
  moreover have "Suc cur < descs_entry s0 q \<Longrightarrow> Suc cur * ?b < ?n" by (rule descs_entry_bounds(1) [OF q(3)])
  moreover have "sent_to k s' = sent_to k s" if "k \<noteq> q" for k using that by (simp add: sent_to_def s'(3))
  ultimately show ?thesis
    using sub pr nx(1,2) s' here(2,3) unfolding progress_def
    by (auto simp: count_for_snoc nth_list_update)
qed

definition setup_ok :: "kcopy \<Rightarrow> bool" where
  "setup_ok s \<longleftrightarrow> (\<forall>q<length (kt_wqs s). queue_ok s q \<and> tables_ok s q \<and> 0 < max_batch s q)"

lemma copy_rest:
  assumes "copy_step E world s = Some s'" "\<forall>p ps. kt_copy s \<noteq> Submitting (p # ps)"
  shows "kt_wqs s' = kt_wqs s \<and> kt_devs s' = kt_devs s \<and> kt_sent s' = kt_sent s \<and> sg_srcs s' = sg_srcs s \<and> sg_dsts s' = sg_dsts s \<and>
    (\<forall>ps. kt_copy s' \<noteq> Submitting ps)"
proof (cases "kt_copy s")
  case (Submitting ps)
  then have "ps = []" using assms(2) by (cases ps) auto
  then show ?thesis using assms(1) Submitting by (auto simp: copy_step_def)
qed (use assms(1) in \<open>auto simp: copy_step_def split: if_splits\<close>)

lemma progress_cong:
  "kt_sent s' = kt_sent s \<Longrightarrow> sg_srcs s' = sg_srcs s \<Longrightarrow> sg_dsts s' = sg_dsts s \<Longrightarrow> progress s0 pre s' = progress s0 pre s"
  by (simp add: progress_def sent_to_def)

lemma copy_inv_step:
  assumes step: "kstep E world complete s s'" and inv: "copy_inv s0 sched s"
    and ok: "scheduled s0 sched" "setup_ok s0" "sbq_ok E" "\<forall>p. polite (world p)" "completer_ok complete"
  shows "copy_inv s0 sched s'"
  using step
proof cases
  case kstep_thread
  then show ?thesis using copy_inv_same [OF thread_step_same [OF ok(5)] inv] by blast
next
  case (kstep_device j v)
  then show ?thesis using copy_inv_same [OF device_post_same inv] by simp
next
  case kstep_copy
  show ?thesis
  proof (cases "\<exists>p ps. kt_copy s = Submitting (p # ps)")
    case True
    then obtain cur q ps where ps: "kt_copy s = Submitting ((cur, q) # ps)" by fastforce
    then obtain t where t: "submit_one E world (cur, q) s = Some t" "s' = t\<lparr>kt_copy := Submitting ps\<rparr>"
      using kstep_copy by (auto simp: copy_step_def)
    from inv ps obtain pre where pre: "sched = pre @ (cur, q) # ps" "progress s0 pre s"
        "kt_wqs s = kt_wqs s0" "map shape (kt_devs s) = map shape (kt_devs s0)" "src_sgts s = src_sgts s0" "dst_sgts s = dst_sgts s0"
      by (auto simp: copy_inv_def)
    have "submitted q cur s t" "progress s0 (pre @ [(cur, q)]) t"
      using progress_submit [OF ok(1) [unfolded pre(1)] pre(2) ok(2) [unfolded setup_ok_def] pre(3-6) ok(3,4) t(1)] by simp_all
    moreover from this(1) have "kt_wqs t = kt_wqs s" "map shape (kt_devs t) = map shape (kt_devs s)" "src_sgts t = src_sgts s" "dst_sgts t = dst_sgts s"
      by (auto simp: submitted_def)
    moreover have "progress s0 pre' (u\<lparr>kt_copy := c\<rparr>) = progress s0 pre' u" for pre' u c
      by (simp add: progress_def sent_to_def)
    ultimately show ?thesis using pre by (auto simp: copy_inv_def t(2) intro!: exI [of _ "pre @ [(cur, q)]"])
  next
    case False
    then have "\<forall>p ps. kt_copy s \<noteq> Submitting (p # ps)" by blast
    note f = copy_rest [OF kstep_copy this]
    have r: "kt_wqs s' = kt_wqs s" "kt_devs s' = kt_devs s" "\<forall>ps. kt_copy s' \<noteq> Submitting ps" using f by blast+
    have g: "progress s0 sched s' = progress s0 sched s" using f by (intro progress_cong) blast+
    have "progress s0 sched s"
    proof (cases "kt_copy s")
      case (Submitting ps)
      then have "ps = []" using False by (cases ps) auto
      then show ?thesis using inv Submitting by (auto simp: copy_inv_def)
    qed (use inv in \<open>auto simp: copy_inv_def\<close>)
    then show ?thesis using r g inv by (auto simp: copy_inv_def split: copy_pc.splits)
  qed
qed

lemma copy_inv_start:
  assumes "dsa_prepare (start_state devs qs tabs) = Some (s1, sched)" "s0 = s1\<lparr>kt_copy := Submitting sched\<rparr>" "setup_ok s0"
  shows "copy_inv s0 sched s0 \<and> scheduled s0 sched"
proof -
  have s1: "kt_wqs s0 = qs" "src_sgts s0 = fst tabs" "dst_sgts s0 = snd tabs" "kt_sent s0 = []" "kt_copy s0 = Submitting sched"
      "sg_srcs s0 = map (\<lambda>q. first_sg (src_sgts s0 ! q)) [0..<length qs]" "sg_dsts s0 = map (\<lambda>q. first_sg (dst_sgts s0 ! q)) [0..<length qs]"
      "kt_devs s0 = devs"
    using assms(1,2) by (auto simp: dsa_prepare_def start_state_def Let_def split: if_splits)
  have d: "descs_entry s0 q = descs_entry (start_state devs qs tabs) q" for q
    using s1 by (simp add: descs_entry_def total_nents_def max_batch_def start_state_def)
  have "scheduled s0 sched" using prepare_scheduled [OF assms(1)] d s1(1) by (simp add: scheduled_def start_state_def)
  moreover have "progress s0 [] s0"
    unfolding progress_def
  proof (intro conjI ballI allI impI)
    fix q assume q: "q < length (kt_wqs s0)"
    then show "sent_to q s0 = map (entry_move s0 q) [0..<min (total_nents s0 q) (count_for q [] * max_batch s0 q)]"
      by (simp add: sent_to_def s1(4) count_for_def)
    assume de: "count_for q [] < descs_entry s0 q"
    have "0 < max_batch s0 q" "tables_ok s0 q" using assms(3) q by (simp_all add: setup_ok_def)
    then have "sgl (src_sgts s0 ! q) \<noteq> []" "sgl (dst_sgts s0 ! q) \<noteq> []"
      using descs_entry_bounds(1) [of s0 q 0] de by (auto simp: count_for_def tables_ok_def)
    then show "q < length (sg_srcs s0)" "q < length (sg_dsts s0)"
      "sg_srcs s0 ! q = Some (count_for q [] * max_batch s0 q)" "sg_dsts s0 ! q = Some (count_for q [] * max_batch s0 q)"
      using q by (simp_all add: s1 first_sg_def count_for_def)
  qed (simp_all add: s1)
  ultimately show ?thesis using s1 by (simp add: copy_inv_def)
qed

lemma copy_inv_reach:
  assumes "(kstep E world complete)\<^sup>*\<^sup>* s0 s" "copy_inv s0 sched s0" "scheduled s0 sched" "setup_ok s0" "sbq_ok E" "\<forall>p. polite (world p)"
    "completer_ok complete"
  shows "copy_inv s0 sched s"
  using assms(1)
proof induction
  case (step t u)
  then show ?case using copy_inv_step [OF step.hyps(2) step.IH assms(3-7)] by simp
qed (rule assms(2))

definition all_submitted :: "kcopy \<Rightarrow> bool" where
  "all_submitted s \<longleftrightarrow> (case kt_copy s of Submitting _ \<Rightarrow> False | _ \<Rightarrow> True)"

lemma sent_exact:
  assumes "copy_inv s0 sched s" "scheduled s0 sched" "setup_ok s0" "all_submitted s" "q < length (kt_wqs s0)"
  shows "sent_to q s = map (entry_move s0 q) [0..<total_nents s0 q] \<and> (\<forall>x\<in>set (kt_sent s). fst x < length (kt_wqs s0) \<and> length (snd x) \<le> max_batch s0 (fst x))"
proof -
  have "progress s0 sched s" using assms(1,4) by (auto simp: copy_inv_def all_submitted_def split: copy_pc.splits)
  moreover have "min (total_nents s0 q) (count_for q sched * max_batch s0 q) = total_nents s0 q"
    using descs_entry_bounds(2) [of s0 q] assms(3,5) scheduled_all [OF assms(2,5)] by (simp add: setup_ok_def min_absorb1)
  ultimately show ?thesis using assms(5) by (simp add: progress_def)
qed

subsection \<open>Page by page\<close>

text \<open>
  \<open>xl q\<close> translates the DMA addresses of the device of queue \<open>q\<close> to pages. Documented behaviour of the
  mapping, for the pages of \<open>frames\<close>: the segments cover the pages in order, there are no more segments than
  pages, and how pages are merged depends on their number only.
\<close>

definition pages_at :: "(u64 \<Rightarrow> nat) \<Rightarrow> u64 \<times> u32 \<Rightarrow> nat list" where
  "pages_at x seg = map (\<lambda>k. x (fst seg + of_nat (PAGE_BYTES * k))) [0..<unat (snd seg) div PAGE_BYTES]"

definition page_copies :: "(nat \<Rightarrow> u64 \<Rightarrow> nat) \<Rightarrow> nat \<times> (u64 \<times> u64 \<times> u32) list \<Rightarrow> (nat \<times> nat) list" where
  "page_copies xl x = concat (map (\<lambda>(s, d, l). zip (pages_at (xl (fst x)) (s, l)) (pages_at (xl (fst x)) (d, l))) (snd x))"

definition dma_ok :: "nat set \<Rightarrow> (nat \<Rightarrow> side \<Rightarrow> nat option list \<Rightarrow> (u64 \<times> u32) list option) \<Rightarrow> (nat \<Rightarrow> u64 \<Rightarrow> nat) \<Rightarrow> bool" where
  "dma_ok frames mapper xl \<longleftrightarrow>
     (\<forall>q side ps. set ps \<subseteq> frames \<longrightarrow>
        (\<exists>ss. mapper q side (map Some ps) = Some ss \<and> length ss \<le> length ps \<and> concat (map (pages_at (xl q)) ss) = ps)) \<and>
     (\<forall>q ps ps'. set ps \<subseteq> frames \<and> set ps' \<subseteq> frames \<and> length ps = length ps' \<longrightarrow>
        map snd (the (mapper q Src (map Some ps))) = map snd (the (mapper q Dst (map Some ps'))))"

lemma zip_pages:
  "map snd ss = map snd ds \<Longrightarrow> concat (map (\<lambda>(x, y). zip (pages_at t x) (pages_at t y)) (zip ss ds)) =
     zip (concat (map (pages_at t) ss)) (concat (map (pages_at t) ds))"
proof (induction ss arbitrary: ds)
  case (Cons x ss)
  then obtain y ds' where ds: "ds = y # ds'" "snd y = snd x" "map snd ss = map snd ds'" by (cases ds) auto
  then have "length (pages_at t x) = length (pages_at t y)" by (simp add: pages_at_def)
  then show ?case using Cons.IH [OF ds(3)] by (simp add: ds(1) zip_append)
qed simp

lemma mset_by_queue:
  "\<forall>x\<in>set xs. fst x < (w :: nat) \<Longrightarrow> mset (concat (map g xs)) = (\<Sum>q<w. mset (concat (map g (filter (\<lambda>x. fst x = q) xs))))"
proof (induction xs)
  case (Cons x xs)
  have "(\<Sum>q<w. mset (concat (map g (filter (\<lambda>x. fst x = q) (x # xs))))) =
      (\<Sum>q<w. (if q = fst x then mset (g x) else {#}) + mset (concat (map g (filter (\<lambda>x. fst x = q) xs))))"
    by (intro sum.cong) auto
  also have "\<dots> = mset (g x) + (\<Sum>q<w. mset (concat (map g (filter (\<lambda>x. fst x = q) xs))))"
    using Cons.prems by (simp add: sum.distrib)
  finally show ?case using Cons by simp
qed simp

lemma concat_blocks: "concat (map (\<lambda>q. map (\<lambda>j. f (q * n + j)) [0..<n]) [0..<w]) = map f [0..<w * n]"
proof (induction w)
  case (Suc w)
  have "[0..<Suc w * n] = [0..<w * n] @ map (\<lambda>j. w * n + j) [0..<n]"
    using upt_add_eq_append [of 0 "w * n" n] map_add_upt [of "w * n" n] by (simp add: add.commute)
  then show ?case using Suc by (simp add: comp_def)
qed simp

lemma sum_mset_concat: "(\<Sum>q<w. mset (f q)) = mset (concat (map f [0..<w]))"
  by (induction w) simp_all

end
