(* ===== verification/Offloading.thy ===== *)
theory Offloading
  imports Copying
begin

text \<open>
  The test module as a whole: from \<^verbatim>\<open>my_init\<close> to the copy's end, and what the completion thread
  guarantees.
\<close>

subsection \<open>From loading to the first submission\<close>

lemma init_dsa_queues:
  assumes "init_dsa bound chan_ok devs refs = (rc, qs, refs')" "(a, i) \<in> set qs"
  shows "a < length devs \<and> i < max_wqs (devs ! a) \<and> bound a \<and> dev_usable (devs ! a) \<and> wq_usable (devs ! a) (wqs (devs ! a) ! i)"
  using assms by (auto simp: init_dsa_def Let_def split: if_splits)

lemma init_dsa_rc:
  assumes "init_dsa bound chan_ok devs refs = (rc, qs, refs')"
  shows "rc = (if qs = [] then - ENODEV else 0)"
proof -
  have "\<exists>x r. init_dsa bound chan_ok devs refs = (if x = [] then (- ENODEV, x, r) else (0, x, r))"
    unfolding init_dsa_def Let_def by (rule exI)+ (rule refl)
  then show ?thesis using assms by (auto split: if_splits)
qed

lemma my_init_runs:
  assumes "my_init np lw devs refs = Some (0, s0)"
  shows "\<exists>qs ch t tabs s1 sched. init_dsa (lw_bound lw) (lw_chan lw) devs refs = (0, qs, ch) \<and> qs \<noteq> [] \<and> lw_mem lw \<and>
    vmalloc_to_sgtable True (lw_table lw) np (lw_page lw Src) (lw_page lw Dst) (random_arr np (lw_random lw)) (length qs) = Some t \<and>
    sgtable_to_dma_map (lw_map lw) [0..<length qs] t = Some tabs \<and>
    dsa_prepare (start_state devs qs tabs) = Some (s1, sched) \<and> s0 = s1\<lparr>kt_copy := Submitting sched\<rparr>"
proof -
  obtain rr areas where r: "init_region np (lw_areas lw) = (rr, areas)" by (cases "init_region np (lw_areas lw)")
  have "\<not> rr < 0"
  proof
    assume "rr < 0"
    with assms show False by (simp add: my_init_def r)
  qed
  moreover obtain rc qs ch where d: "init_dsa (lw_bound lw) (lw_chan lw) devs refs = (rc, qs, ch)"
    by (cases "init_dsa (lw_bound lw) (lw_chan lw) devs refs")
  moreover have "\<not> rc < 0" using assms \<open>\<not> rr < 0\<close> by (auto simp: my_init_def r d)
  moreover have "rc = 0 \<and> qs \<noteq> []" using init_dsa_rc [OF d] \<open>\<not> rc < 0\<close> by (auto split: if_splits)
  ultimately show ?thesis
    using assms by (auto simp: my_init_def r d Let_def split: if_splits option.splits)
qed

text \<open>The segments of a queue's part of the pages.\<close>

definition part :: "(nat \<Rightarrow> nat) \<Rightarrow> nat list \<Rightarrow> nat \<Rightarrow> nat \<Rightarrow> nat list" where
  "part p arr n q = map (\<lambda>j. p (arr ! (q * n + j))) [0..<n]"

lemma filled_even:
  assumes "Suc q * n \<le> np"
  shows "\<not> ends_early (filled np n p arr q)" "map sg_page (sgl (filled np n p arr q)) = map Some (part p arr n q)"
proof -
  have lt: "q * n + j < np" if "j < n" for j using assms that by simp
  have ne: "q * n + j + 1 \<noteq> np" if "j + 1 < n" for j using assms that by simp
  show "\<not> ends_early (filled np n p arr q)"
    unfolding ends_early_def sgl_filled(1) using ne by (auto simp: sgl_filled(3))
  show "map sg_page (sgl (filled np n p arr q)) = map Some (part p arr n q)"
    using lt by (auto simp: filled_def part_def)
qed

lemma set_dma_simps:
  "nents (set_dma segs t) = length segs" "length (sgl (set_dma segs t)) = length (sgl t)"
  "j < length (sgl t) \<Longrightarrow> sg_end (sgl (set_dma segs t) ! j) = sg_end (sgl t ! j)"
  "j < length segs \<Longrightarrow> j < length (sgl t) \<Longrightarrow> sg_dma_address (sgl (set_dma segs t) ! j) = fst (segs ! j)"
  "j < length segs \<Longrightarrow> j < length (sgl t) \<Longrightarrow> sg_dma_len (sgl (set_dma segs t) ! j) = snd (segs ! j)"
  by (simp_all add: set_dma_def)

lemma ends_early_set_dma: "ends_early (set_dma segs t) = ends_early t"
  unfolding ends_early_def set_dma_simps(2) using set_dma_simps(3) [of _ t segs] by blast

text \<open>What a successful load with an even split has set up.\<close>

definition loaded_even ::
  "nat \<Rightarrow> (side \<Rightarrow> nat \<Rightarrow> nat) \<Rightarrow> nat list \<Rightarrow> (nat \<Rightarrow> side \<Rightarrow> (u64 \<times> u32) list) \<Rightarrow> kcopy \<Rightarrow> bool" where
  "loaded_even n p arr seg s \<longleftrightarrow>
     (\<forall>q<length (kt_wqs s). src_sgts s ! q = set_dma (seg q Src) (filled (length arr) n (p Src) arr q) \<and>
        dst_sgts s ! q = set_dma (seg q Dst) (filled (length arr) n (p Dst) arr q) \<and> Suc q * n \<le> length arr \<and>
        length (seg q Src) \<le> n \<and> map snd (seg q Src) = map snd (seg q Dst))"

lemma loaded_moves:
  assumes "loaded_even n p arr seg s" "q < length (kt_wqs s)"
  shows "tables_ok s q" "total_nents s q = length (seg q Src)"
    "map (entry_move s q) [0..<total_nents s q] = map (\<lambda>((a, l), (b, l')). (a, b, l')) (zip (seg q Src) (seg q Dst))"
proof -
  have l: "src_sgts s ! q = set_dma (seg q Src) (filled (length arr) n (p Src) arr q)"
      "dst_sgts s ! q = set_dma (seg q Dst) (filled (length arr) n (p Dst) arr q)" "Suc q * n \<le> length arr"
      "length (seg q Src) \<le> n" "map snd (seg q Src) = map snd (seg q Dst)"
    using assms by (simp_all add: loaded_even_def)
  have len: "length (seg q Dst) = length (seg q Src)" using l(5) by (metis length_map)
  show n: "total_nents s q = length (seg q Src)" by (simp add: total_nents_def l(1,2) set_dma_simps len)
  show "tables_ok s q"
    unfolding tables_ok_def n using l(4) filled_even(1) [OF l(3)] by (simp add: l(1,2) set_dma_simps ends_early_set_dma sgl_filled len)
  show "map (entry_move s q) [0..<total_nents s q] = map (\<lambda>((a, l), (b, l')). (a, b, l')) (zip (seg q Src) (seg q Dst))"
  proof (rule nth_equalityI)
    show "length (map (entry_move s q) [0..<total_nents s q]) = length (map (\<lambda>((a, l), (b, l')). (a, b, l')) (zip (seg q Src) (seg q Dst)))"
      by (simp add: n len)
    fix j assume "j < length (map (entry_move s q) [0..<total_nents s q])"
    then have j: "j < length (seg q Src)" "j < n" "j < length (seg q Dst)" using l(4) len by (simp_all add: n)
    have "snd (seg q Src ! j) = snd (seg q Dst ! j)" using arg_cong [OF l(5), of "\<lambda>x. x ! j"] j by simp
    then show "map (entry_move s q) [0..<total_nents s q] ! j = map (\<lambda>((a, l), (b, l')). (a, b, l')) (zip (seg q Src) (seg q Dst)) ! j"
      using j by (simp add: n entry_move_def Let_def l(1,2) set_dma_simps sgl_filled case_prod_beta)
  qed
qed

lemma page_copies_simps:
  "page_copies xl (q, []) = []"
  "page_copies xl (q, (a, b, l) # ms) = zip (pages_at (xl q) (a, l)) (pages_at (xl q) (b, l)) @ page_copies xl (q, ms)"
  "page_copies xl (q, ms @ ms') = page_copies xl (q, ms) @ page_copies xl (q, ms')"
  by (simp_all add: page_copies_def)

lemma page_copies_queue:
  "map snd ss = map snd ds \<Longrightarrow> page_copies xl (q, map (\<lambda>((a, l), (b, l')). (a, b, l')) (zip ss ds)) =
    zip (concat (map (pages_at (xl q)) ss)) (concat (map (pages_at (xl q)) ds))"
proof (induction ss arbitrary: ds)
  case Nil
  then show ?case by (simp add: page_copies_simps)
next
  case (Cons x ss)
  obtain a l where x: "x = (a, l)" by (cases x)
  obtain b ds' where ds: "ds = (b, l) # ds'" "map snd ss = map snd ds'" using Cons.prems by (cases ds) (auto simp: x)
  have "length (pages_at (xl q) (a, l)) = length (pages_at (xl q) (b, l))" by (simp add: pages_at_def)
  then show ?case using Cons.IH [OF ds(2)] by (simp add: x ds(1) page_copies_simps zip_append)
qed

lemma page_copies_concat:
  "concat (map (page_copies xl) (filter (\<lambda>x. fst x = q) xs)) = page_copies xl (q, concat (map snd (filter (\<lambda>x. fst x = q) xs)))"
  by (induction xs) (auto simp: page_copies_simps)

text \<open>Everything handed over, page by page: each page of the source area with the same page of the destination.\<close>

lemma all_page_copies:
  assumes sent: "\<forall>q<w. sent_to q s = map (\<lambda>((a, l), (b, l')). (a, b, l')) (zip (seg q Src) (seg q Dst))"
    and range: "\<forall>x\<in>set (kt_sent s). fst x < w"
    and seg: "\<forall>q<w. map snd (seg q Src) = map snd (seg q Dst) \<and>
        (\<forall>side. concat (map (pages_at (xl q)) (seg q side)) = part (p side) arr n q)"
    and arr: "length arr = w * n" "mset arr = mset [0..<w * n]"
  shows "mset (concat (map (page_copies xl) (kt_sent s))) = mset (map (\<lambda>k. (p Src k, p Dst k)) [0..<w * n])"
proof -
  let ?f = "\<lambda>k. (p Src (arr ! k), p Dst (arr ! k))"
  have "mset (concat (map (page_copies xl) (filter (\<lambda>x. fst x = q) (kt_sent s)))) = mset (map (\<lambda>j. ?f (q * n + j)) [0..<n])" if "q < w" for q
  proof -
    have m: "map snd (seg q Src) = map snd (seg q Dst)" using seg that by simp
    have "page_copies xl (q, sent_to q s) = zip (part (p Src) arr n q) (part (p Dst) arr n q)"
      using sent seg that page_copies_queue [OF m, of xl] by simp
    also have "\<dots> = map (\<lambda>j. ?f (q * n + j)) [0..<n]"
      by (simp add: part_def zip_map_map zip_same_conv_map comp_def)
    finally show ?thesis unfolding page_copies_concat sent_to_def [symmetric] by (rule arg_cong)
  qed
  then have "mset (concat (map (page_copies xl) (kt_sent s))) = (\<Sum>q<w. mset (map (\<lambda>j. ?f (q * n + j)) [0..<n]))"
    using mset_by_queue [OF range, of "page_copies xl"] by simp
  also have "\<dots> = mset (map ?f [0..<w * n])" unfolding sum_mset_concat by (rule arg_cong [of _ _ mset], rule concat_blocks)
  also have "map ?f [0..<w * n] = map (\<lambda>k. (p Src k, p Dst k)) arr"
    using arr(1) by (intro nth_equalityI) simp_all
  also have "mset \<dots> = mset (map (\<lambda>k. (p Src k, p Dst k)) [0..<w * n])" by (simp only: mset_map arr(2))
  finally show ?thesis .
qed

text \<open>
  The environment of a load: every page of the two areas has a frame, no frame is used twice, tables can
  be allocated and mapped. The devices have their arrays.
\<close>

definition load_ok :: "nat \<Rightarrow> (side \<Rightarrow> nat \<Rightarrow> nat) \<Rightarrow> (nat \<Rightarrow> u64 \<Rightarrow> nat) \<Rightarrow> load_world \<Rightarrow> bool" where
  "load_ok np p xl lw \<longleftrightarrow> (\<forall>side k. lw_page lw side k = Some (p side k)) \<and> (\<forall>x. lw_table lw x) \<and> dma_ok (p Src ` {..<np} \<union> p Dst ` {..<np}) (lw_map lw) xl \<and>
     inj_on (p Dst) {..<np} \<and> p Src ` {..<np} \<inter> p Dst ` {..<np} = {}"

definition devs_ok :: "idxd_device list \<Rightarrow> bool" where
  "devs_ok devs \<longleftrightarrow> (\<forall>d\<in>set devs. length (wqs d) = max_wqs d \<and> shape_ok d)"

lemma my_init_even:
  assumes run: "my_init np lw devs refs = Some (0, s0)" and ok: "load_ok np p xl lw" "devs_ok devs"
    and even: "0 < np" "np mod length (kt_wqs s0) = 0"
  shows "\<exists>n seg sched. loaded_even n p (random_arr np (lw_random lw)) seg s0 \<and> np = length (kt_wqs s0) * n \<and>
    (\<forall>q<length (kt_wqs s0). map snd (seg q Src) = map snd (seg q Dst) \<and>
      (\<forall>side. concat (map (pages_at (xl q)) (seg q side)) = part (p side) (random_arr np (lw_random lw)) n q)) \<and>
    setup_ok s0 \<and> copy_inv s0 sched s0 \<and> scheduled s0 sched"
proof -
  define arr where "arr = random_arr np (lw_random lw)"
  have arr: "length arr = np" by (simp add: arr_def random_arr_perm)
  obtain qs ch t tabs s1 sched where r: "init_dsa (lw_bound lw) (lw_chan lw) devs refs = (0, qs, ch)" "qs \<noteq> []" "lw_mem lw"
      "vmalloc_to_sgtable True (lw_table lw) np (lw_page lw Src) (lw_page lw Dst) arr (length qs) = Some t"
      "sgtable_to_dma_map (lw_map lw) [0..<length qs] t = Some tabs"
      "dsa_prepare (start_state devs qs tabs) = Some (s1, sched)" "s0 = s1\<lparr>kt_copy := Submitting sched\<rparr>"
    using my_init_runs [OF run] unfolding arr_def by (elim exE conjE)
  have s0: "kt_wqs s0 = qs" "kt_devs s0 = devs" "src_sgts s0 = fst tabs" "dst_sgts s0 = snd tabs"
      "\<forall>q<length qs. max_batch (start_state devs qs tabs) q \<noteq> 0"
    using r(6,7) by (auto simp: dsa_prepare_def start_state_def Let_def split: if_splits)
  define w where "w = length qs"
  define n where "n = np div w"
  have w: "0 < w" "np mod w = 0" "np = w * n" "sgt_nents np w = n"
    using r(2) even(2) s0(1) by (auto simp: w_def n_def sgt_nents_def)
  have pg: "lw_page lw side = (\<lambda>x. Some (p side x))" for side using ok(1) by (simp add: load_ok_def fun_eq_iff)
  have tabok: "lw_table lw x" for x using ok(1) unfolding load_ok_def by blast
  have "t = (map (filled np n (p Src) arr) [0..<w], map (filled np n (p Dst) arr) [0..<w])"
    using sgtables_filled [OF even(1) w(1) tabok, where p = p and arr = arr] r(4) by (simp add: pg w_def [symmetric] w(4))
  then have t: "fst t = map (filled np n (p Src) arr) [0..<w]" "snd t = map (filled np n (p Dst) arr) [0..<w]" by simp_all
  have fits: "Suc q * n \<le> np" if "q < w" for q using mult_le_mono1 [of "Suc q" w n] that w(3) by simp
  define seg where "seg q side = the (lw_map lw q side (map Some (part (p side) arr n q)))" for q side
  have dm: "dma_ok (p Src ` {..<np} \<union> p Dst ` {..<np}) (lw_map lw) xl" using ok(1) by (simp add: load_ok_def)
  have arr_lt: "arr ! k < np" if "k < np" for k
    using nth_mem [of k arr] that arr mset_eq_setD [OF random_arr_perm(1) [of np "lw_random lw"]] by (simp add: arr_def)
  have inF: "set (part (p side) arr n q) \<subseteq> p Src ` {..<np} \<union> p Dst ` {..<np}" if "q < w" for q side
    using arr_lt fits [OF that] by (cases side) (auto simp: part_def)
  have seg: "lw_map lw q side (map Some (part (p side) arr n q)) = Some (seg q side)" "length (seg q side) \<le> n"
    "concat (map (pages_at (xl q)) (seg q side)) = part (p side) arr n q" if "q < w" for q side
  proof -
    note q = that
    obtain ss where "lw_map lw q side (map Some (part (p side) arr n q)) = Some ss" "length ss \<le> length (part (p side) arr n q)"
        "concat (map (pages_at (xl q)) ss) = part (p side) arr n q"
      using dm inF [OF q] unfolding dma_ok_def by blast
    then show "lw_map lw q side (map Some (part (p side) arr n q)) = Some (seg q side)" "length (seg q side) \<le> n"
      "concat (map (pages_at (xl q)) (seg q side)) = part (p side) arr n q"
      by (simp_all add: seg_def part_def)
  qed
  have lens: "map snd (seg q Src) = map snd (seg q Dst)" if "q < w" for q
  proof -
    have "length (part (p Src) arr n q) = length (part (p Dst) arr n q)" by (simp add: part_def)
    then show ?thesis using dm inF [OF that] unfolding dma_ok_def seg_def by blast
  qed
  have pre: "\<forall>q\<in>set [0..<w]. q < length (fst t) \<and> q < length (snd t) \<and> \<not> ends_early (fst t ! q) \<and> \<not> ends_early (snd t ! q) \<and>
      lw_map lw q Src (map sg_page (sgl (fst t ! q))) = Some (seg q Src) \<and> lw_map lw q Dst (map sg_page (sgl (snd t ! q))) = Some (seg q Dst)"
    using seg(1) fits by (simp add: t filled_even)
  obtain ss' ds' where m: "sgtable_to_dma_map (lw_map lw) [0..<w] (fst t, snd t) = Some (ss', ds')"
      "\<forall>q\<in>set [0..<w]. ss' ! q = set_dma (seg q Src) (fst t ! q) \<and> ds' ! q = set_dma (seg q Dst) (snd t ! q)"
    using map_succeeds [OF distinct_upt pre] by (elim exE conjE)
  have tabs: "tabs = (ss', ds')" using m(1) r(5) by (simp add: w_def)
  have even': "loaded_even n p arr seg s0"
    using m(2) fits seg(2) lens by (simp add: loaded_even_def s0 tabs t arr w_def [symmetric])
  have "queue_ok s0 q" if "q < w" for q
  proof -
    obtain a i where ai: "qs ! q = (a, i)" by (cases "qs ! q")
    then have "(a, i) \<in> set qs" using that nth_mem [of q qs] by (simp add: w_def)
    then have "a < length devs" "i < max_wqs (devs ! a)" using init_dsa_queues [OF r(1)] by simp_all
    then show ?thesis using ok(2) by (simp add: queue_ok_def s0 ai devs_ok_def)
  qed
  moreover have "0 < max_batch s0 q" if "q < w" for q
    using s0(5) that by (simp add: max_batch_def s0(1,2) start_state_def w_def)
  moreover have "tables_ok s0 q" if "q < w" for q using loaded_moves(1) [OF even'] that by (simp add: s0(1) w_def)
  ultimately have "setup_ok s0" by (simp add: setup_ok_def s0(1) w_def)
  then show ?thesis
    using even' copy_inv_start [OF r(6,7)] lens seg(3) w(3) unfolding arr_def [symmetric] s0(1) w_def [symmetric] by blast
qed

subsection \<open>The copy\<close>

lemma offload_sent:
  assumes run: "my_init np lw devs refs = Some (0, s0)" and ok: "load_ok np p xl lw" "devs_ok devs"
    and even: "0 < np" "np mod length (kt_wqs s0) = 0" and E: "sbq_ok E" "\<forall>p. polite (world p)" "completer_ok complete"
    and steps: "(kstep E world complete)\<^sup>*\<^sup>* s0 s" and all: "all_submitted s"
  shows "(\<forall>q<length (kt_wqs s0). sent_to q s = map (entry_move s0 q) [0..<total_nents s0 q]) \<and>
    (\<forall>x\<in>set (kt_sent s). fst x < length (kt_wqs s0) \<and> length (snd x) \<le> max_batch s0 (fst x)) \<and>
    mset (concat (map (page_copies xl) (kt_sent s))) = mset (map (\<lambda>k. (p Src k, p Dst k)) [0..<np])"
proof -
  define arr where "arr = random_arr np (lw_random lw)"
  obtain n seg sched where l: "loaded_even n p arr seg s0" "np = length (kt_wqs s0) * n"
      "\<forall>q<length (kt_wqs s0). map snd (seg q Src) = map snd (seg q Dst) \<and>
        (\<forall>side. concat (map (pages_at (xl q)) (seg q side)) = part (p side) arr n q)"
      "setup_ok s0" "copy_inv s0 sched s0" "scheduled s0 sched"
    using my_init_even [OF run ok even] unfolding arr_def by (elim exE conjE)
  have inv: "copy_inv s0 sched s" using copy_inv_reach [OF steps l(5,6,4) E] .
  have ex: "sent_to q s = map (entry_move s0 q) [0..<total_nents s0 q]"
    "\<forall>x\<in>set (kt_sent s). fst x < length (kt_wqs s0) \<and> length (snd x) \<le> max_batch s0 (fst x)" if "q < length (kt_wqs s0)" for q
    using sent_exact [OF inv l(6,4) all that] by simp_all
  have "0 < length (kt_wqs s0)" using l(2) even(1) by (cases "length (kt_wqs s0)") simp_all
  note rng = ex(2) [OF this]
  have "\<forall>q<length (kt_wqs s0). sent_to q s = map (\<lambda>((a, l), (b, l')). (a, b, l')) (zip (seg q Src) (seg q Dst))"
    using ex(1) loaded_moves(3) [OF l(1)] by simp
  then have "mset (concat (map (page_copies xl) (kt_sent s))) = mset (map (\<lambda>k. (p Src k, p Dst k)) [0..<length (kt_wqs s0) * n])"
    using rng l(2,3) by (intro all_page_copies [where arr = arr]) (simp_all add: arr_def random_arr_perm)
  then show ?thesis using ex(1) rng l(2) by simp
qed

lemma offload_copies:
  assumes "my_init np lw devs refs = Some (0, s0)" "load_ok np p xl lw" "devs_ok devs" "0 < np" "np mod length (kt_wqs s0) = 0"
    and "sbq_ok E" "\<forall>p. polite (world p)" "completer_ok complete"
    and "(kstep E world complete)\<^sup>*\<^sup>* s0 s" "all_submitted s" "mset order = mset (concat (map (page_copies xl) (kt_sent s)))"
  shows "copy_pages order mem = cpu_copy (p Src) (p Dst) np mem"
proof (rule copy_any_order)
  show "mset order = mset (map (\<lambda>k. (p Src k, p Dst k)) [0..<np])"
    using offload_sent [OF assms(1-10)] assms(11) by simp
  show "inj_on (p Dst) {..<np}" "p Src ` {..<np} \<inter> p Dst ` {..<np} = {}"
    using assms(2) by (simp_all add: load_ok_def)
qed

subsection \<open>The completion thread\<close>

lemma submit_tail_form:
  assumes "submit_tail E cw e s = Some s'"
  shows "\<exists>ds m b. s' = s\<lparr>desc_lists := desc_lists s @ [e], kt_devs := ds, kt_sent := kt_sent s @ [m], thread_execution := True, batch_task := b\<rparr>"
proof -
  obtain a i where ai: "kt_wqs s ! dl_queue e = (a, i)" by (cases "kt_wqs s ! dl_queue e")
  then obtain rc d where d: "idxd_submit_desc E i (dl_desc e) (cw_resume cw) (kt_devs s ! a) = Some (rc, d)"
    using assms by (auto simp: submit_tail_def Let_def split: option.splits)
  show ?thesis
    using assms unfolding submit_tail_def ai prod.case Let_def
    by (intro exI [of _ "(kt_devs s)[a := d]"] exI [of _ "(dl_queue e, moves_of (desc_hw (the_desc i (dl_desc e) (kt_devs s ! a))) (batch_info e))"]
        exI [of _ "batch_task s'"]) (auto simp: d split: option.splits bool.splits)
qed

definition fresh_entry :: "idxd_desc_list \<Rightarrow> bool" where
  "fresh_entry e \<longleftrightarrow> \<not> completion e \<and> (\<forall>b. batch_info e = Some b \<longrightarrow> batch_live b)"

lemma memcpy_sg_fresh:
  assumes "idxd_desc_dma_submit_memcpy_sg E cw q i ts td ps pd n fl d = Some (Some (e, ps', pd'), d1)"
  shows "fresh_entry e"
proof (cases "sg_pairs ts td n ps pd")
  case None
  then show ?thesis using assms
    by (simp add: idxd_desc_dma_submit_memcpy_sg_def Let_def split: if_splits option.splits prod.splits sum.splits)
next
  case (Some r)
  then obtain l r' where "sg_pairs ts td n ps pd = Some (l, r')" by (cases r) auto
  from memcpy_sg_made [OF assms this] show ?thesis by (auto simp: fresh_entry_def batch_of_def)
qed

text \<open>What a submission does to the parts of the state that the completion thread uses.\<close>

definition same_thread :: "kcopy \<Rightarrow> kcopy \<Rightarrow> bool" where
  "same_thread s s' \<longleftrightarrow> kt_pc s' = kt_pc s \<and> poll_entry s' = poll_entry s \<and> completion_error s' = completion_error s \<and>
     kt_copy s' = kt_copy s \<and> should_stop s' = should_stop s \<and> completion_status s' = completion_status s \<and>
     total_entries s' = total_entries s"

lemma submit_one_form:
  assumes "submit_one E world p s = Some s'"
  shows "\<exists>e m. desc_lists s' = desc_lists s @ [e] \<and> fresh_entry e \<and> kt_sent s' = kt_sent s @ [m] \<and> thread_execution s' \<and> same_thread s s'"
proof -
  obtain cur q where p: "p = (cur, q)" by (cases p)
  obtain a i where ai: "kt_wqs s ! q = (a, i)" by (cases "kt_wqs s ! q")
  have "\<exists>e t. submit_tail E (world p) e t = Some s' \<and> fresh_entry e \<and> desc_lists t = desc_lists s \<and> kt_sent t = kt_sent s \<and> same_thread s t"
  proof (cases "total_nents s q = 1")
    case True
    then obtain js jd where "sg_srcs s ! q = Some js" "sg_dsts s ! q = Some jd"
      using assms by (auto simp: submit_one_def p ai Let_def split: if_splits option.splits)
    from submit_one_single [OF assms [unfolded p] ai True this] obtain k d1 where
      c: "submit_tail E (world (cur, q)) \<lparr>dl_queue = q, dl_desc = k, completion = False, batch_info = None\<rparr>
        (s\<lparr>kt_devs := (kt_devs s)[a := d1]\<rparr>) = Some s'" by (elim exE conjE)
    show ?thesis unfolding p by (rule exI, rule exI, rule conjI [OF c]) (simp add: fresh_entry_def same_thread_def)
  next
    case False
    from submit_one_batch [OF assms [unfolded p] ai False refl] obtain e ps pd d1 m where
      c: "idxd_desc_dma_submit_memcpy_sg E (world (cur, q)) q i (src_sgts s ! q) (dst_sgts s ! q) (sg_srcs s ! q) (sg_dsts s ! q) m KT_FLAGS
          (kt_devs s ! a) = Some (Some (e, ps, pd), d1)"
        "submit_tail E (world (cur, q)) e (s\<lparr>kt_devs := (kt_devs s)[a := d1], batch_task := Some True,
         sg_srcs := (sg_srcs s)[q := ps], sg_dsts := (sg_dsts s)[q := pd]\<rparr>) = Some s'" by (elim exE conjE)
    show ?thesis unfolding p by (rule exI, rule exI, rule conjI [OF c(2)]) (simp add: memcpy_sg_fresh [OF c(1)] same_thread_def)
  qed
  then obtain e t where t: "submit_tail E (world p) e t = Some s'" "fresh_entry e" "desc_lists t = desc_lists s" "kt_sent t = kt_sent s"
      "same_thread s t" by (elim exE conjE)
  from submit_tail_form [OF t(1)] t(2-) show ?thesis by (auto simp: same_thread_def)
qed

definition pending_count :: "idxd_desc_list list \<Rightarrow> nat" where
  "pending_count es = length (filter (\<lambda>e. \<not> completion e) es)"

lemma pending_split: "j < length es \<Longrightarrow> pending_count es = pending_count (take j es) + (if completion (es ! j) then 0 else 1) + pending_count (drop (Suc j) es)"
  by (subst id_take_nth_drop [of j es]) (simp_all add: pending_count_def)

lemma pending_finish:
  assumes "j < length es" "\<not> completion (es ! j)" "completion e"
  shows "pending_count es = Suc (pending_count (es[j := e]))"
  using assms pending_split [of j es] pending_split [of j "es[j := e]"] by simp

lemma pending_del: "j < length es \<Longrightarrow> completion (es ! j) \<Longrightarrow> pending_count (del_at j es) = pending_count es"
  using pending_split [of j es] by (simp add: del_at_def) (simp add: pending_count_def)

lemma length_del: "j < length es \<Longrightarrow> length (del_at j es) = length es - 1"
  by (simp add: del_at_def)

lemma set_del: "set (del_at j es) \<subseteq> set es"
  by (auto simp: del_at_def dest: in_set_takeD in_set_dropD)

text \<open>The loading thread has not yet told the completion thread to come to an end.\<close>

definition early :: "kcopy \<Rightarrow> bool" where
  "early s \<longleftrightarrow> (case kt_copy s of Submitting _ \<Rightarrow> True | AwaitWakeup \<Rightarrow> True | _ \<Rightarrow> False)"

definition list_inv :: "kcopy \<Rightarrow> bool" where
  "list_inv s \<longleftrightarrow> int (pending_count (desc_lists s)) + poll_entry s = int (length (kt_sent s)) \<and>
     (\<forall>e\<in>set (desc_lists s). completion e \<or> fresh_entry e)"

definition phase_inv :: "kcopy \<Rightarrow> bool" where
  "phase_inv s \<longleftrightarrow> (\<forall>j. kt_pc s = Visit j \<longrightarrow> j < length (desc_lists s)) \<and> kt_pc s \<noteq> Exited \<and> kt_copy s \<noteq> Unloaded \<and>
     (early s \<longrightarrow> thread_execution s \<or> kt_pc s = FirstWait) \<and> (\<not> early s \<longrightarrow> \<not> thread_execution s) \<and>
     (should_stop s \<longrightarrow> kt_copy s = Stopping) \<and> (kt_copy s = Copied \<or> kt_copy s = Stopping \<longrightarrow> completion_status s \<noteq> 0) \<and>
     (completion_status s \<noteq> 0 \<longrightarrow> kt_pc s = Sleeping \<and> desc_lists s = [] \<and> \<not> early s \<and>
        completion_status s = (if completion_error s then 2 else 1)) \<and>
     (kt_pc s = Sleeping \<longrightarrow> completion_status s \<noteq> 0)"

text \<open>Visiting an entry completes it at most once, and removes completed ones only.\<close>

lemma drop_entry_list:
  assumes "j < length (desc_lists s)" "completion (desc_lists s ! j)" "list_inv s"
  shows "list_inv (snd (drop_entry j s)) \<and>
    length (desc_lists (snd (drop_entry j s))) = length (desc_lists s) - (if fst (drop_entry j s) then 1 else 0) \<and>
    same_thread s (snd (drop_entry j s))"
  using assms set_del [of j "desc_lists s"]
  by (auto simp: drop_entry_def list_inv_def pending_del length_del same_thread_def)

definition visited :: "kcopy \<Rightarrow> bool \<times> kcopy \<Rightarrow> bool" where
  "visited s r \<longleftrightarrow> list_inv (snd r) \<and> length (desc_lists (snd r)) = length (desc_lists s) - (if fst r then 1 else 0) \<and>
     kt_pc (snd r) = kt_pc s \<and> kt_copy (snd r) = kt_copy s \<and> should_stop (snd r) = should_stop s \<and>
     completion_status (snd r) = completion_status s \<and> thread_execution (snd r) = thread_execution s"

lemma visited_from:
  "visited u r \<Longrightarrow> u = s\<lparr>kt_devs := ds\<rparr> \<or> u = s\<lparr>completion_error := True\<rparr> \<Longrightarrow> visited s r"
  by (elim disjE) (simp_all add: visited_def)

lemma finish_entry_list:
  assumes j: "j < length (desc_lists s)" "\<not> completion (desc_lists s ! j)" and inv: "list_inv s"
  shows "\<exists>r. finish_entry complete t j s = Some r \<and> visited s r"
proof -
  obtain a i where ai: "kt_wqs s ! dl_queue (desc_lists s ! j) = (a, i)" by (cases "kt_wqs s ! dl_queue (desc_lists s ! j)")
  have "fresh_entry (desc_lists s ! j)" using inv j by (auto simp: list_inv_def)
  then have "finish_entry complete t j s \<noteq> None"
    by (auto simp: finish_entry_def ai Let_def fresh_entry_def split: option.splits)
  then obtain r where r: "finish_entry complete t j s = Some r" by auto
  obtain bi where f: "r = drop_entry j (s\<lparr>desc_lists := (desc_lists s)[j := (desc_lists s ! j)\<lparr>completion := True, batch_info := bi\<rparr>],
    kt_devs := (kt_devs s)[a := complete i (dl_desc (desc_lists s ! j)) t True (kt_devs s ! a)], poll_entry := poll_entry s + 1\<rparr>)"
    using finish_entry_form [OF r ai] by (elim exE)
  define u where "u = s\<lparr>desc_lists := (desc_lists s)[j := (desc_lists s ! j)\<lparr>completion := True, batch_info := bi\<rparr>],
    kt_devs := (kt_devs s)[a := complete i (dl_desc (desc_lists s ! j)) t True (kt_devs s ! a)], poll_entry := poll_entry s + 1\<rparr>"
  have "list_inv u" using inv pending_finish [OF j, of "(desc_lists s ! j)\<lparr>completion := True, batch_info := bi\<rparr>"]
    by (auto simp: u_def list_inv_def dest!: set_update_subset_insert [THEN subsetD])
  moreover have "j < length (desc_lists u)" "completion (desc_lists u ! j)" using j by (simp_all add: u_def)
  ultimately have d: "list_inv (snd (drop_entry j u)) \<and> length (desc_lists (snd (drop_entry j u))) = length (desc_lists u) - (if fst (drop_entry j u) then 1 else 0)
      \<and> same_thread u (snd (drop_entry j u))"
    by (intro drop_entry_list)
  have "thread_execution (snd (drop_entry j u)) = thread_execution u" by (simp add: drop_entry_def)
  then have "visited s (drop_entry j u)" using d by (auto simp: visited_def same_thread_def u_def)
  then show ?thesis using r f by (simp add: u_def)
qed

lemma poll_visit_list:
  assumes j: "j < length (desc_lists s)" and inv: "list_inv s"
  shows "\<exists>r. poll_visit complete j s = Some r \<and> visited s r"
proof -
  obtain a i where ai: "kt_wqs s ! dl_queue (desc_lists s ! j) = (a, i)" by (cases "kt_wqs s ! dl_queue (desc_lists s ! j)")
  let ?st = "compl_status (the_desc i (dl_desc (desc_lists s ! j)) (kt_devs s ! a))"
  have fin: "\<exists>r. finish_entry complete t j u = Some r \<and> visited s r"
    if "\<not> completion (desc_lists s ! j)" "u = s\<lparr>kt_devs := ds\<rparr> \<or> u = s\<lparr>completion_error := True\<rparr>" for u t ds
  proof -
    have "list_inv u" "j < length (desc_lists u)" "\<not> completion (desc_lists u ! j)" using that j inv by (auto simp: list_inv_def)
    from finish_entry_list [OF this(2,3,1), of complete t] obtain r where "finish_entry complete t j u = Some r" "visited u r" by (elim exE conjE)
    then show ?thesis using visited_from [OF _ that(2)] by blast
  qed
  consider "completion (desc_lists s ! j)" | "\<not> completion (desc_lists s ! j)" "?st = DSA_COMP_SUCCESS"
    | "\<not> completion (desc_lists s ! j)" "?st \<noteq> DSA_COMP_SUCCESS" "?st > DSA_COMP_SUCCESS"
    | "\<not> completion (desc_lists s ! j)" "?st \<noteq> DSA_COMP_SUCCESS" "\<not> ?st > DSA_COMP_SUCCESS" by blast
  then show ?thesis
  proof cases
    case 1
    have "thread_execution (snd (drop_entry j s)) = thread_execution s" by (simp add: drop_entry_def)
    then show ?thesis using 1 drop_entry_list [OF j 1 inv] by (auto simp: poll_visit_def ai visited_def same_thread_def Let_def)
  next
    case 2
    show ?thesis using 2 fin [OF 2(1) disjI1 [OF refl]] by (simp add: poll_visit_def ai)
  next
    case 3
    show ?thesis using 3 fin [OF 3(1) disjI2 [OF refl]] by (simp add: poll_visit_def ai)
  next
    case 4
    then show ?thesis using inv by (simp add: poll_visit_def ai visited_def)
  qed
qed

lemma thread_step_inv:
  assumes "list_inv s" "phase_inv s"
  shows "\<exists>s'. thread_step complete s = Some s' \<and> list_inv s' \<and> phase_inv s'"
proof (cases "kt_pc s")
  case (Visit j)
  have j: "j < length (desc_lists s)" using assms(2) Visit by (simp add: phase_inv_def)
  obtain r where r: "poll_visit complete j s = Some r" "visited s r"
    using poll_visit_list [OF j assms(1), of complete] by (elim exE conjE)
  obtain g t where gt: "r = (g, t)" by (cases r)
  let ?pc = "if Suc j \<ge> length (desc_lists s) then Inner else Visit (if g then j else Suc j)"
  have c0: "completion_status s = 0" using assms(2) Visit by (auto simp: phase_inv_def)
  have e: "early (t\<lparr>kt_pc := ?pc\<rparr>) = early s" using r(2) by (simp add: gt visited_def early_def)
  have "phase_inv (t\<lparr>kt_pc := ?pc\<rparr>)"
    using assms(2) r(2) c0 e Visit j unfolding phase_inv_def gt visited_def by (auto split: if_splits)
  moreover have "list_inv (t\<lparr>kt_pc := ?pc\<rparr>)" using r(2) by (simp add: gt visited_def list_inv_def)
  ultimately show ?thesis using r(1) Visit by (simp add: thread_step_def gt Let_def)
qed (use assms in \<open>auto simp: thread_step_def phase_inv_def list_inv_def early_def pending_count_def split: copy_pc.splits\<close>)

lemma copy_step_inv:
  assumes "list_inv s" "phase_inv s" "copy_step E world s = Some s'"
  shows "list_inv s' \<and> phase_inv s'"
proof (cases "kt_copy s")
  case (Submitting ps)
  show ?thesis
  proof (cases ps)
    case Nil
    then show ?thesis using assms Submitting by (auto simp: copy_step_def phase_inv_def list_inv_def early_def)
  next
    case (Cons p ps')
    obtain t where t: "submit_one E world p s = Some t" "s' = t\<lparr>kt_copy := Submitting ps'\<rparr>"
      using assms(3) Submitting Cons by (auto simp: copy_step_def)
    obtain e m where f: "desc_lists t = desc_lists s @ [e]" "fresh_entry e" "kt_sent t = kt_sent s @ [m]" "thread_execution t" "same_thread s t"
      using submit_one_form [OF t(1)] by (elim exE conjE)
    have "list_inv s'" using assms(1) f by (auto simp: t(2) list_inv_def pending_count_def fresh_entry_def same_thread_def)
    moreover have "phase_inv s'"
      using assms(2) f Submitting by (auto simp: t(2) phase_inv_def same_thread_def early_def less_Suc_eq)
    ultimately show ?thesis by blast
  qed
qed (use assms in \<open>auto simp: copy_step_def phase_inv_def list_inv_def early_def split: if_splits\<close>)

lemma kstep_inv:
  assumes "kstep E world complete s s'" "list_inv s \<and> phase_inv s"
  shows "list_inv s' \<and> phase_inv s'"
  using assms(1)
proof cases
  case kstep_thread
  then show ?thesis using thread_step_inv [of s complete] assms(2) by auto
next
  case kstep_copy
  then show ?thesis using copy_step_inv assms(2) by blast
next
  case (kstep_device j v)
  have "\<exists>ds. s' = s\<lparr>kt_devs := ds\<rparr>" using kstep_device(1) by (auto simp: device_post_def Let_def split: prod.splits)
  moreover have "list_inv (s\<lparr>kt_devs := ds\<rparr>) = list_inv s" "phase_inv (s\<lparr>kt_devs := ds\<rparr>) = phase_inv s" for ds
    by (simp_all add: list_inv_def phase_inv_def early_def)
  ultimately show ?thesis using assms(2) by auto
qed

lemma kstep_inv_reach:
  assumes "(kstep E world complete)\<^sup>*\<^sup>* s0 s" "list_inv s0 \<and> phase_inv s0"
  shows "list_inv s \<and> phase_inv s"
  using assms(1)
proof induction
  case (step t u)
  then show ?case using kstep_inv by blast
qed (rule assms(2))

lemma my_init_inv:
  assumes "my_init np lw devs refs = Some (0, s0)"
  shows "list_inv s0 \<and> phase_inv s0"
proof -
  obtain qs tabs s1 sched where "dsa_prepare (start_state devs qs tabs) = Some (s1, sched)" "s0 = s1\<lparr>kt_copy := Submitting sched\<rparr>"
    using my_init_runs [OF assms] by (elim exE conjE)
  then show ?thesis
    by (auto simp: dsa_prepare_def start_state_def Let_def list_inv_def phase_inv_def early_def pending_count_def split: if_splits)
qed

subsection \<open>Waits that never end\<close>

definition stalled :: "kcopy \<Rightarrow> bool" where
  "stalled s \<longleftrightarrow> kt_copy s \<in> {AwaitWakeup, AwaitCompletion} \<and> kt_pc s \<in> {Outer, Inner, After} \<and> \<not> should_stop s \<and>
     total_entries s \<le> poll_entry s \<and> desc_lists s \<noteq> [] \<and> completion_status s = 0"

lemma stalled_step: "kstep E world complete s s' \<Longrightarrow> stalled s \<Longrightarrow> stalled s'"
proof (induction rule: kstep.induct)
  case (kstep_thread s s')
  then show ?case by (auto simp: stalled_def thread_step_def split: if_splits)
next
  case (kstep_copy s s')
  then show ?case by (auto simp: stalled_def copy_step_def split: if_splits)
next
  case (kstep_device j s v)
  then show ?case by (simp add: stalled_def device_post_def Let_def split: prod.splits)
qed

lemma stalled_reach: "(kstep E world complete)\<^sup>*\<^sup>* s s' \<Longrightarrow> stalled s \<Longrightarrow> stalled s'"
  by (induction rule: rtranclp_induct) (auto intro: stalled_step)

lemma stalled_hangs:
  assumes "my_init np lw devs refs = Some (0, s0)" "(kstep E world complete)\<^sup>*\<^sup>* s0 s"
    and "kt_copy s = AwaitWakeup" "kt_pc s \<in> {Outer, Inner, After}" "desc_lists s \<noteq> []" "poll_entry s = total_entries s"
    and "(kstep E world complete)\<^sup>*\<^sup>* s s'"
  shows "kt_copy s' \<in> {AwaitWakeup, AwaitCompletion}"
proof -
  have "phase_inv s" using kstep_inv_reach [OF assms(2) my_init_inv [OF assms(1)]] by simp
  then have "stalled s" using assms(3-6) by (auto simp: phase_inv_def stalled_def)
  from stalled_reach [OF assms(7) this] show ?thesis by (simp add: stalled_def)
qed

lemma init_region_ok: "False \<notin> set oks \<Longrightarrow> fst (init_region np oks) = 0"
  by (auto simp: init_region_def Let_def)



text \<open>
  C37: when the pages do not fill whole tables, loading the module crashes: the table of one queue is
  ended early and mapping it follows a NULL pointer.
\<close>

theorem uneven_split_crashes:
  assumes "False \<notin> set (lw_areas lw)" "init_dsa (lw_bound lw) (lw_chan lw) devs refs = (0, qs, ch)"
    and "\<forall>side k. lw_page lw side k = Some (p side k)" "\<forall>x. lw_table lw x" "\<forall>q side pages. lw_map lw q side pages \<noteq> None"
    and "0 < np" "np mod sgt_nents np (length qs) \<noteq> 0"
  shows "my_init np lw devs refs = None"
proof -
  define arr where "arr = random_arr np (lw_random lw)"
  let ?w = "length qs" and ?n = "sgt_nents np (length qs)"
  let ?t = "(map (filled np ?n (p Src) arr) [0..<?w], map (filled np ?n (p Dst) arr) [0..<?w])"
  have w: "0 < ?w" using init_dsa_rc [OF assms(2)] by (auto split: if_splits)
  have pg: "lw_page lw side = (\<lambda>x. Some (p side x))" for side using assms(3) by (simp add: fun_eq_iff)
  have t: "vmalloc_to_sgtable True (lw_table lw) np (lw_page lw Src) (lw_page lw Dst) arr ?w = Some ?t"
    unfolding pg by (rule sgtables_filled [OF assms(6) w]) (use assms(4) in blast)
  note u = uneven_table [OF assms(6) w assms(7), of "p Src" arr]
  have "sgtable_to_dma_map (lw_map lw) [0..<?w] ?t = None"
    using u assms(5) by (intro map_crashes [of _ "np div ?n"]) simp_all
  moreover obtain rc areas where "init_region np (lw_areas lw) = (rc, areas)" by (cases "init_region np (lw_areas lw)")
  ultimately show ?thesis using init_region_ok [OF assms(1), of np] t
    by (simp add: my_init_def assms(2) arr_def Let_def)
qed



text \<open>
  C39: the module can never be unloaded, not even after a successful copy: the thread sleeps on a condition
  that \<^verbatim>\<open>kthread_stop\<close> does not change.
\<close>

theorem module_never_unloads:
  assumes "my_init np lw devs refs = Some (0, s0)" "(kstep E world complete)\<^sup>*\<^sup>* s0 s"
  shows "kt_copy s \<noteq> Unloaded \<and> kt_pc s \<noteq> Exited"
  using kstep_inv_reach [OF assms(2) my_init_inv [OF assms(1)]] by (simp add: phase_inv_def)

subsection \<open>Witnesses\<close>

text \<open>Two pages, one queue with batches of two.\<close>

definition off_wq :: idxd_wq where
  "off_wq = zero_wq\<lparr>wq_state := IDXD_WQ_ENABLED, wq_type := IDXD_WQT_KERNEL, wq_name := ''dmaengine'', ref_live := True, wq_flags := 1,
     num_descs := 2, wq_descs := [zero_desc, zero_desc]\<rparr>"

definition off_dev :: idxd_device where
  "off_dev = zero_device\<lparr>dev_state := IDXD_DEV_ENABLED, dev_flags := 5, max_wqs := 1, wqs := [off_wq],
     dev_max_batch_size := 2, dev_max_xfer_bytes := 8192\<rparr>"

definition off_page :: "side \<Rightarrow> nat \<Rightarrow> nat" where
  "off_page side k = (case side of Src \<Rightarrow> k | Dst \<Rightarrow> k + 2)"

definition off_load :: load_world where
  "off_load = \<lparr>lw_areas = [True, True, True, True, True, True], lw_bound = (\<lambda>_. True), lw_chan = (\<lambda>_. True), lw_random = (\<lambda>_. 2), lw_mem = True,
     lw_table = (\<lambda>_. True), lw_page = (\<lambda>side k. Some (off_page side k)),
     lw_map = (\<lambda>q side ps. Some (map (\<lambda>p. (of_nat (the p * 4096), 4096)) ps))\<rparr>"

definition off_world :: "nat \<times> nat \<Rightarrow> call_world" where
  "off_world p = \<lparr>cw_mem = True, cw_rounds = [], cw_resume = (\<lambda>d. d), cw_compls = 0, cw_descs = 64\<rparr>"

definition off_s0 :: kcopy where
  "off_s0 = (start_state [off_dev] [(0, 0)]
     ([set_dma [(4096, 4096), (0, 4096)] (filled 2 2 (off_page Src) [1, 0] 0)], [set_dma [(12288, 4096), (8192, 4096)] (filled 2 2 (off_page Dst) [1, 0] 0)]))
     \<lparr>sg_srcs := [Some 0], sg_dsts := [Some 0], total_entries := 1, kt_copy := Submitting [(0, 0)]\<rparr>"

lemmas off_defs = off_load_def off_dev_def off_wq_def zero_defs off_page_def off_world_def off_s0_def start_state_def
  filled_def set_dma_def upt_rec

lemma off_init: "my_init 2 off_load [off_dev] (\<lambda>_. 0) = Some (0, off_s0)"
  by (simp add: off_defs my_init_def init_region_def area_names_def Let_def init_dsa_def dev_usable_def wq_usable_def
      is_idxd_wq_dmaengine_def is_idxd_wq_kernel_def device_pasid_enabled_def random_arr_def shuffle_step_def drop_bit_eq_div
      vmalloc_to_sgtable_def sgt_nents_def sg_alloc_table_def set_page_def upd_sg_def sg_mark_end_def list_upd_def dma_map_sgtable_def
      dsa_prepare_def max_batch_def descs_entry_def total_nents_def first_sg_def)

lemma off_s0_fields:
  "kt_wqs off_s0 = [(0, 0)]" "kt_devs off_s0 = [off_dev]" "sg_srcs off_s0 = [Some 0]" "sg_dsts off_s0 = [Some 0]" "batch_task off_s0 = None"
  "total_nents off_s0 0 = 2" "max_batch off_s0 0 = 2" "kt_copy off_s0 = Submitting [(0, 0)]" "desc_lists off_s0 = []"
  by (simp_all add: off_defs total_nents_def max_batch_def)

lemma off_pairs: "\<exists>l r. sg_pairs (src_sgts off_s0 ! 0) (dst_sgts off_s0 ! 0) 2 (Some 0) (Some 0) = Some (l, r)"
  by (simp add: off_defs sg_next_def numeral_2_eq_2)

lemma off_alloc: "\<exists>d. idxd_alloc_desc sample_env 0 IDXD_OP_BLOCK [] off_dev = Some (Inr 0, d) \<and> dev_state d = IDXD_DEV_ENABLED \<and>
    ref_live (wqs d ! 0) \<and> wq_dedicated (wqs d ! 0) \<and> length (wqs d) = 1 \<and> drv_data d = drv_data off_dev"
  by (simp add: off_dev_def off_wq_def zero_defs idxd_alloc_desc_def sbitmap_queue_get_def sample_env_def upt_rec get_desc_def
      upd_desc_def upd_wq_def list_upd_def wq_dedicated_def Let_def)

lemma off_submit: "submit_one sample_env off_world (0, 0) off_s0 \<noteq> None"
proof -
  obtain d where d: "idxd_alloc_desc sample_env 0 IDXD_OP_BLOCK [] off_dev = Some (Inr 0, d)" "dev_state d = IDXD_DEV_ENABLED"
      "ref_live (wqs d ! 0)" "wq_dedicated (wqs d ! 0)" "length (wqs d) = 1"
    using off_alloc by (elim exE conjE)
  obtain l ps pd where l: "sg_pairs (src_sgts off_s0 ! 0) (dst_sgts off_s0 ! 0) 2 (Some 0) (Some 0) = Some (l, ps, pd)"
    using off_pairs by auto
  have w: "wq_state (wqs off_dev ! 0) = IDXD_WQ_ENABLED" by (simp add: off_dev_def off_wq_def zero_defs)
  have k: "dev_state (upd_desc 0 0 f d) = dev_state d" "ref_live (wqs (upd_desc 0 0 f d) ! 0) = ref_live (wqs d ! 0)"
    "wq_dedicated (wqs (upd_desc 0 0 f d) ! 0) = wq_dedicated (wqs d ! 0)" "length (wqs (upd_desc 0 0 f d)) = length (wqs d)" for f d
    by (cases "wqs d"; simp add: upd_desc_def upd_wq_def list_upd_def wq_dedicated_def)+
  have sub: "\<exists>e. idxd_submit_desc sample_env 0 0 (\<lambda>d. d) e' = Some (0, e)"
    if "dev_state e' = IDXD_DEV_ENABLED" "ref_live (wqs e' ! 0)" "wq_dedicated (wqs e' ! 0)" "length (wqs e') = 1" for e'
    using that by (cases "wqs e'") (auto simp: idxd_submit_desc_def Let_def idxd_wq_portal_addr_def upd_wq_def list_upd_def upd_desc_def
        upd_ie_def wq_dedicated_def)
  have "idxd_submit_desc sample_env 0 0 (\<lambda>d. d) (upd_desc 0 0 f (upd_desc 0 0 g d)) \<noteq> None" for f g
    using sub [of "upd_desc 0 0 f (upd_desc 0 0 g d)"] d by (auto simp: k)
  then show ?thesis
    by (simp add: submit_one_def off_s0_fields Let_def off_world_def idxd_desc_dma_submit_memcpy_sg_def submit_tail_def w d(1) l
        split: option.splits)
qed

lemma off_setup: "polite (off_world p)" "queue_ok off_s0 0" "tables_ok off_s0 0" "at_entry 0 0 off_s0"
  "devs_ok [off_dev]" "\<forall>p. polite (off_world p)" "completer_ok (idxd_dma_complete_txd sample_env)"
  by (simp_all add: polite_def off_world_def queue_ok_def tables_ok_def at_entry_def off_s0_fields ends_early_def devs_ok_def
      shape_ok_def completer_ok_def)
    (simp_all add: off_defs less_Suc_eq)

lemma off_load_ok: "load_ok 2 off_page (\<lambda>q a. unat a div 4096) off_load"
proof -
  have f: "off_page Src ` {..<2} \<union> off_page Dst ` {..<2} \<subseteq> {..<4}" by (auto simp: off_page_def)
  have one: "concat (map (pages_at (\<lambda>a. unat a div 4096)) (map (\<lambda>p. (word_of_nat (the p * 4096), 4096)) (map Some ps))) = ps"
    if "set ps \<subseteq> {..<4}" for ps
    using that by (induction ps) (auto simp: pages_at_def unat_word_ariths unsigned_of_nat take_bit_nat_eq_self)
  show ?thesis
    using one subset_trans [OF _ f]
    by (auto simp: load_ok_def dma_ok_def off_load_def comp_def inj_on_def off_page_def map_replicate_const)
qed

text \<open>The submission, and the state in which the loading thread waits.\<close>

abbreviation off_steps :: "kcopy \<Rightarrow> kcopy \<Rightarrow> bool" where
  "off_steps \<equiv> (kstep sample_env off_world (idxd_dma_complete_txd sample_env))\<^sup>*\<^sup>*"

lemma off_run:
  "\<exists>s e. off_steps off_s0 s \<and> kt_copy s = AwaitWakeup \<and> kt_pc s = FirstWait \<and> thread_execution s \<and> desc_lists s = [e] \<and>
    dl_queue e = 0 \<and> fresh_entry e \<and> dl_desc e = 0 \<and> poll_entry s = 0 \<and> total_entries s = 1 \<and> kt_wqs s = [(0, 0)] \<and>
    map shape (kt_devs s) = [shape off_dev] \<and> \<not> should_stop s"
proof -
  obtain t where t: "submit_one sample_env off_world (0, 0) off_s0 = Some t" using off_submit by auto
  obtain e ps pd d1 m where c: "idxd_desc_dma_submit_memcpy_sg sample_env (off_world (0, 0)) 0 0 (src_sgts off_s0 ! 0) (dst_sgts off_s0 ! 0)
        (sg_srcs off_s0 ! 0) (sg_dsts off_s0 ! 0) m KT_FLAGS (kt_devs off_s0 ! 0) = Some (Some (e, ps, pd), d1)"
      "submit_tail sample_env (off_world (0, 0)) e (off_s0\<lparr>kt_devs := (kt_devs off_s0)[0 := d1], batch_task := Some True,
         sg_srcs := (sg_srcs off_s0)[0 := ps], sg_dsts := (sg_dsts off_s0)[0 := pd]\<rparr>) = Some t" "m = 2"
    using submit_one_batch [OF t, of 0 0, OF _ _ refl] by (simp add: off_s0_fields) blast
  obtain l r where "sg_pairs (src_sgts off_s0 ! 0) (dst_sgts off_s0 ! 0) m (sg_srcs off_s0 ! 0) (sg_dsts off_s0 ! 0) = Some (l, r)"
    using off_pairs c(3) by (auto simp: off_s0_fields)
  from memcpy_sg_made [OF c(1) this] obtain k d0 where k: "idxd_alloc_desc sample_env 0 IDXD_OP_BLOCK (cw_rounds (off_world (0, 0))) (kt_devs off_s0 ! 0) = Some (Inr k, d0)"
      "e = \<lparr>dl_queue = 0, dl_desc = k, completion = False, batch_info = Some (batch_of (off_world (0, 0)) m KT_FLAGS l d1)\<rparr>"
    by (elim exE conjE)
  have k0: "k = 0" using k(1) off_alloc by (auto simp: off_s0_fields off_world_def)
  have e: "dl_queue e = 0" "dl_desc e = 0" "fresh_entry e" using memcpy_sg_fresh [OF c(1)] by (simp_all add: k(2) k0)
  obtain ds m' b where t': "t = (off_s0\<lparr>kt_devs := (kt_devs off_s0)[0 := d1], batch_task := Some True,
         sg_srcs := (sg_srcs off_s0)[0 := ps], sg_dsts := (sg_dsts off_s0)[0 := pd]\<rparr>)
        \<lparr>desc_lists := [e], kt_devs := ds, kt_sent := kt_sent off_s0 @ [m'], thread_execution := True, batch_task := b\<rparr>"
    using submit_tail_form [OF c(2)] by (auto simp: off_s0_fields)
  have sh: "map shape (kt_devs t) = [shape off_dev]"
    using submit_one_spec [OF t sample_sbq_ok off_setup(1-4)] by (auto simp: submitted_def off_s0_fields)
  have o: "kt_pc off_s0 = FirstWait" "poll_entry off_s0 = 0" "total_entries off_s0 = 1" "\<not> should_stop off_s0"
    by (simp_all add: off_s0_def start_state_def)
  have "copy_step sample_env off_world off_s0 = Some (t\<lparr>kt_copy := Submitting []\<rparr>)" by (simp add: copy_step_def off_s0_fields t)
  moreover have "copy_step sample_env off_world (t\<lparr>kt_copy := Submitting []\<rparr>) = Some (t\<lparr>kt_copy := AwaitWakeup\<rparr>)" by (simp add: copy_step_def)
  ultimately have "off_steps off_s0 (t\<lparr>kt_copy := AwaitWakeup\<rparr>)"
    by (meson converse_rtranclp_into_rtranclp kstep_copy rtranclp.rtrancl_refl)
  moreover have "thread_execution t" "desc_lists t = [e]" "kt_pc t = FirstWait" "poll_entry t = 0" "total_entries t = 1" "\<not> should_stop t"
      "kt_wqs t = [(0, 0)]"
    by (simp_all add: t' o off_s0_fields)
  ultimately show ?thesis using e sh by (intro exI [of _ "t\<lparr>kt_copy := AwaitWakeup\<rparr>"] exI [of _ e]) simp
qed

text \<open>The device completes the descriptor and the thread sees it before the loading thread goes on.\<close>

lemma off_stall:
  "\<exists>s. off_steps off_s0 s \<and> kt_copy s = AwaitWakeup \<and> kt_pc s = Inner \<and> desc_lists s \<noteq> [] \<and> poll_entry s = total_entries s \<and> poll_entry s = 1"
proof -
  let ?c = "idxd_dma_complete_txd sample_env"
  obtain s e where s: "off_steps off_s0 s" "kt_copy s = AwaitWakeup" "kt_pc s = FirstWait" "thread_execution s" "desc_lists s = [e]"
      "dl_queue e = 0" "fresh_entry e" "dl_desc e = 0" "poll_entry s = 0" "total_entries s = 1" "kt_wqs s = [(0, 0)]"
      "map shape (kt_devs s) = [shape off_dev]" "\<not> should_stop s"
    using off_run by (elim exE conjE)
  obtain d where d: "kt_devs s = [d]" "shape d = shape off_dev" using s(12) by (cases "kt_devs s") auto
  have r: "0 < length (wqs d)" "0 < length (wq_descs (wqs d ! 0))"
    using shape_same(2,4) [OF d(2)] by (simp_all add: off_dev_def off_wq_def)
  define s3 where "s3 = s\<lparr>thread_wakeup := True, kt_pc := Visit 0\<rparr>"
  have t1: "thread_step ?c s = Some (s\<lparr>thread_wakeup := True, kt_pc := Outer\<rparr>)" by (simp add: thread_step_def s)
  have t2: "thread_step ?c (s\<lparr>thread_wakeup := True, kt_pc := Outer\<rparr>) = Some (s\<lparr>thread_wakeup := True, kt_pc := Inner\<rparr>)"
    by (simp add: thread_step_def s)
  have t3: "thread_step ?c (s\<lparr>thread_wakeup := True, kt_pc := Inner\<rparr>) = Some s3" by (simp add: thread_step_def s s3_def)
  define s4 where "s4 = device_post 0 1 s3"
  define d' where "d' = upd_desc 0 0 (\<lambda>x. x\<lparr>compl_status := 1\<rparr>) d"
  have s4: "s4 = s3\<lparr>kt_devs := [d']\<rparr>" by (simp add: s4_def device_post_def s3_def s d(1) Let_def d'_def)
  have "kstep sample_env off_world ?c s3 s4" unfolding s4_def
    by (rule kstep_device) (use s(5,7) in \<open>simp_all add: s3_def fresh_entry_def\<close>)
  then have st4: "off_steps s s4" using t1 t2 t3 by (meson converse_rtranclp_into_rtranclp kstep_thread r_into_rtranclp)
  have v: "kt_wqs s4 ! dl_queue e = (0, 0)" "desc_lists s4 = [e]" "kt_devs s4 ! 0 = d'" "thread_execution s4"
      "kt_pc s4 = Visit 0" "poll_entry s4 = 0" "total_entries s4 = 1" "kt_copy s4 = AwaitWakeup"
    by (simp_all add: s4 s3_def s)
  have cs: "compl_status (the_desc 0 0 d') = 1" using r by (simp add: d'_def the_desc_upd_desc)
  have inv: "list_inv s4" using kstep_inv_reach [OF rtranclp_trans [OF s(1) st4] my_init_inv [OF off_init]] by simp
  have len: "0 < length (desc_lists s4)" by (simp add: v)
  obtain x where x: "poll_visit ?c 0 s4 = Some x" using poll_visit_list [OF len inv, of ?c] by (elim exE conjE)
  define s5 where "s5 = s4\<lparr>kt_devs := (kt_devs s4)[0 := upd_desc 0 0 (\<lambda>x. x\<lparr>txd_cookie := 1\<rparr>) d']\<rparr>"
  have f: "finish_entry ?c IDXD_COMPLETE_NORMAL 0 s5 = Some x"
    using x cs s(7,8) by (simp add: poll_visit_def v(1-3) fresh_entry_def s5_def Let_def)
  have "kt_wqs s5 ! dl_queue (desc_lists s5 ! 0) = (0, 0)" using v(1,2) by (simp add: s5_def)
  from finish_entry_form [OF f this] obtain bi ds where
    "x = drop_entry 0 (s5\<lparr>desc_lists := (desc_lists s5)[0 := (desc_lists s5 ! 0)\<lparr>completion := True, batch_info := bi\<rparr>],
        kt_devs := ds, poll_entry := poll_entry s5 + 1\<rparr>)" by blast
  then obtain y where y: "x = (False, y)" "desc_lists y \<noteq> []" "poll_entry y = 1" "total_entries y = 1" "kt_copy y = AwaitWakeup"
    by (simp add: drop_entry_def s5_def v)
  have "thread_step ?c s4 = Some (y\<lparr>kt_pc := Inner\<rparr>)" using x by (simp add: thread_step_def v y(1) Let_def)
  then have "off_steps off_s0 (y\<lparr>kt_pc := Inner\<rparr>)"
    using s(1) st4 by (meson kstep_thread rtranclp.rtrancl_into_rtrancl rtranclp_trans)
  then show ?thesis using y by (intro exI [of _ "y\<lparr>kt_pc := Inner\<rparr>"]) simp
qed





theorem module_never_unloads_witness:
  "\<exists>s. off_steps off_s0 s \<and> kt_copy s = AwaitWakeup \<and> kt_pc s \<noteq> Exited"
proof -
  obtain s where s: "off_steps off_s0 s" "kt_copy s = AwaitWakeup" using off_run by blast
  then show ?thesis using module_never_unloads [OF off_init s(1)] by blast
qed

text \<open>Three queues and 2048 pages.\<close>

theorem uneven_split_crashes_witness:
  "my_init 2048 off_load [off_dev\<lparr>max_wqs := 3, wqs := [off_wq, off_wq, off_wq]\<rparr>] (\<lambda>_. 0) = None"
proof -
  have "\<exists>ch. init_dsa (lw_bound off_load) (lw_chan off_load) [off_dev\<lparr>max_wqs := 3, wqs := [off_wq, off_wq, off_wq]\<rparr>] (\<lambda>_. 0) =
      (0, [(0, 0), (0, 1), (0, 2)], ch)"
    by (simp add: off_defs init_dsa_def dev_usable_def wq_usable_def is_idxd_wq_dmaengine_def is_idxd_wq_kernel_def
        device_pasid_enabled_def Let_def numeral_3_eq_3 numeral_2_eq_2)
  then obtain ch where "init_dsa (lw_bound off_load) (lw_chan off_load) [off_dev\<lparr>max_wqs := 3, wqs := [off_wq, off_wq, off_wq]\<rparr>] (\<lambda>_. 0) =
      (0, [(0, 0), (0, 1), (0, 2)], ch)" by (elim exE)
  then show ?thesis
    by (rule uneven_split_crashes [rotated, where p = off_page]) (simp_all add: off_load_def sgt_nents_def)
qed

end
